(* ===== verification/Prelude.thy ===== *)
theory Prelude
  imports Main "HOL-Library.Word" "HOL-Library.Monad_Syntax"
begin

text \<open>
  The vocabulary every component theory shares: the machine integers of the Rust sources, the
  outcome of code that may panic, the slice accesses of the standard library (checked ones that
  return an option, indexing ones that panic), and big-endian encoding of integers.

  A \<open>usize\<close> is a \<^typ>\<open>nat\<close>; the places where the code guards against its overflow use
  \<open>checked_add\<close> below (64-bit targets). Values whose wrap-around can matter are words.
\<close>

type_synonym u8 = "8 word"
type_synonym u16 = "16 word"
type_synonym u32 = "32 word"
type_synonym u64 = "64 word"
type_synonym bytes = "u8 list"

named_theorems rust_defs \<open>definitions of the standard-library operations, to unfold in proofs\<close>
named_theorems no_panic \<open>introduction rules: a computation does not panic\<close>

subsection \<open>Panicking computations\<close>

datatype 'a outcome = Panic | Ret 'a

definition returns :: "'a outcome \<Rightarrow> bool" where
  "returns r = (case r of Panic \<Rightarrow> False | Ret _ \<Rightarrow> True)"

definition out_bind :: "'a outcome \<Rightarrow> ('a \<Rightarrow> 'b outcome) \<Rightarrow> 'b outcome" where
  "out_bind r k = (case r of Panic \<Rightarrow> Panic | Ret x \<Rightarrow> k x)"

lemma returns_simps [simp]: "\<not> returns Panic" "returns (Ret x)"
  by (simp_all add: returns_def)

lemma returns_iff: "returns r \<longleftrightarrow> (\<exists>x. r = Ret x)"
  by (cases r) simp_all

lemma out_bind_simps [simp]: "out_bind Panic k = Panic" "out_bind (Ret x) k = k x"
  by (simp_all add: out_bind_def)

lemma out_bind_eq_Ret: "out_bind r k = Ret y \<longleftrightarrow> (\<exists>x. r = Ret x \<and> k x = Ret y)"
  by (cases r) simp_all

lemma out_bind_cong [fundef_cong]:
  "r = r' \<Longrightarrow> (\<And>x. r' = Ret x \<Longrightarrow> k x = k' x) \<Longrightarrow> out_bind r k = out_bind r' k'"
  by (cases r') simp_all

text \<open>
  \<open>xs[i]\<close> and \<open>&xs[a..b]\<close> panic out of range; the continuation is the code after the access.
  \<open>qmark\<close> is the operator \<open>?\<close> on an \<open>Option\<close> in a function that returns an \<open>Option\<close>.
\<close>

definition index :: "'a list \<Rightarrow> nat \<Rightarrow> ('a \<Rightarrow> 'b outcome) \<Rightarrow> 'b outcome" where
  "index xs i k = (if i < length xs then k (xs ! i) else Panic)"

definition slice :: "'a list \<Rightarrow> nat \<Rightarrow> nat \<Rightarrow> ('a list \<Rightarrow> 'b outcome) \<Rightarrow> 'b outcome" where
  "slice xs a b k = (if a \<le> b \<and> b \<le> length xs then k (take (b - a) (drop a xs)) else Panic)"

definition qmark :: "'a option \<Rightarrow> ('a \<Rightarrow> 'b option outcome) \<Rightarrow> 'b option outcome" where
  "qmark v k = (case v of None \<Rightarrow> Ret None | Some x \<Rightarrow> k x)"

lemma index_in [simp]: "i < length xs \<Longrightarrow> index xs i k = k (xs ! i)"
  by (simp add: index_def)

lemma slice_in [simp]:
  "a \<le> b \<Longrightarrow> b \<le> length xs \<Longrightarrow> slice xs a b k = k (take (b - a) (drop a xs))"
  by (simp add: slice_def)

lemma qmark_simps [simp]: "qmark None k = Ret None" "qmark (Some x) k = k x"
  by (simp_all add: qmark_def)

lemma index_cong [fundef_cong]:
  "xs = xs' \<Longrightarrow> i = i' \<Longrightarrow> (\<And>x. i' < length xs' \<Longrightarrow> x = xs' ! i' \<Longrightarrow> k x = k' x)
    \<Longrightarrow> index xs i k = index xs' i' k'"
  by (simp add: index_def)

lemma slice_cong [fundef_cong]:
  "xs = xs' \<Longrightarrow> a = a' \<Longrightarrow> b = b' \<Longrightarrow> (\<And>x. a' \<le> b' \<Longrightarrow> b' \<le> length xs' \<Longrightarrow> k x = k' x)
    \<Longrightarrow> slice xs a b k = slice xs' a' b' k'"
  by (simp add: slice_def)

lemma qmark_cong [fundef_cong]:
  "v = v' \<Longrightarrow> (\<And>x. v' = Some x \<Longrightarrow> k x = k' x) \<Longrightarrow> qmark v k = qmark v' k'"
  by (cases v') simp_all

lemma index_eq_Ret: "index xs i k = Ret y \<longleftrightarrow> i < length xs \<and> k (xs ! i) = Ret y"
  by (simp add: index_def)

lemma slice_eq_Ret:
  "slice xs a b k = Ret y \<longleftrightarrow> a \<le> b \<and> b \<le> length xs \<and> k (take (b - a) (drop a xs)) = Ret y"
  by (auto simp: slice_def)

lemma qmark_eq_Some: "qmark v k = Ret (Some y) \<longleftrightarrow> (\<exists>x. v = Some x \<and> k x = Ret (Some y))"
  by (cases v) simp_all

lemma returns_index [no_panic]: "i < length xs \<Longrightarrow> returns (k (xs ! i)) \<Longrightarrow> returns (index xs i k)"
  by simp

lemma returns_slice [no_panic]:
  "a \<le> b \<Longrightarrow> b \<le> length xs \<Longrightarrow> returns (k (take (b - a) (drop a xs))) \<Longrightarrow> returns (slice xs a b k)"
  by simp

lemma returns_qmark [no_panic]: "(\<And>x. v = Some x \<Longrightarrow> returns (k x)) \<Longrightarrow> returns (qmark v k)"
  by (cases v) simp_all

lemma returns_if [no_panic]:
  "(b \<Longrightarrow> returns x) \<Longrightarrow> (\<not> b \<Longrightarrow> returns y) \<Longrightarrow> returns (if b then x else y)"
  by simp

lemma returns_out_bind [no_panic]:
  "returns r \<Longrightarrow> (\<And>x. r = Ret x \<Longrightarrow> returns (k x)) \<Longrightarrow> returns (out_bind r k)"
  by (cases r) simp_all

text \<open>The operator \<open>?\<close> on a \<open>Result\<close> computed by code that may also panic.\<close>

definition res_bind :: "('e + 'a) outcome \<Rightarrow> ('a \<Rightarrow> ('e + 'b) outcome) \<Rightarrow> ('e + 'b) outcome" where
  "res_bind r k = out_bind r (\<lambda>v. case v of Inl e \<Rightarrow> Ret (Inl e) | Inr x \<Rightarrow> k x)"

lemma res_bind_simps [simp]:
  "res_bind Panic k = Panic"
  "res_bind (Ret (Inl e)) k = Ret (Inl e)"
  "res_bind (Ret (Inr x)) k = k x"
  by (simp_all add: res_bind_def)

lemma res_bind_cong [fundef_cong]:
  "r = r' \<Longrightarrow> (\<And>x. r' = Ret (Inr x) \<Longrightarrow> k x = k' x) \<Longrightarrow> res_bind r k = res_bind r' k'"
  by (auto simp: res_bind_def out_bind_def split: outcome.splits sum.splits)

lemma returns_res_bind [no_panic]:
  "returns r \<Longrightarrow> (\<And>x. r = Ret (Inr x) \<Longrightarrow> returns (k x)) \<Longrightarrow> returns (res_bind r k)"
  by (auto simp: res_bind_def returns_iff split: sum.splits)

lemma res_bind_eq_Inr: "res_bind r k = Ret (Inr y) \<longleftrightarrow> (\<exists>x. r = Ret (Inr x) \<and> k x = Ret (Inr y))"
  by (auto simp: res_bind_def out_bind_def split: outcome.splits sum.splits)

subsection \<open>Checked accesses\<close>

definition get_at :: "'a list \<Rightarrow> nat \<Rightarrow> 'a option" where
  "get_at xs i = (if i < length xs then Some (xs ! i) else None)"

definition get_range :: "'a list \<Rightarrow> nat \<Rightarrow> nat \<Rightarrow> 'a list option" where
  "get_range xs a b = (if a \<le> b \<and> b \<le> length xs then Some (take (b - a) (drop a xs)) else None)"

definition checked_add :: "nat \<Rightarrow> nat \<Rightarrow> nat option" where
  "checked_add a b = (if a + b < 2 ^ 64 then Some (a + b) else None)"

lemma get_at_Some [simp]: "get_at xs i = Some x \<longleftrightarrow> i < length xs \<and> xs ! i = x"
  by (simp add: get_at_def)

lemma get_at_None [simp]: "get_at xs i = None \<longleftrightarrow> length xs \<le> i"
  by (simp add: get_at_def)

lemma get_range_Some [simp]:
  "get_range xs a b = Some ys \<longleftrightarrow> a \<le> b \<and> b \<le> length xs \<and> ys = take (b - a) (drop a xs)"
  by (auto simp: get_range_def)

lemma checked_add_Some [simp]: "checked_add a b = Some c \<longleftrightarrow> a + b < 2 ^ 64 \<and> c = a + b"
  by (auto simp: checked_add_def)

lemma checked_add_None: "checked_add a b = None \<longleftrightarrow> 2 ^ 64 \<le> a + b"
  by (simp add: checked_add_def)

lemmas checked_defs = get_at_def get_range_def checked_add_def

subsection \<open>Big-endian integers\<close>

text \<open>\<open>be_enc n v\<close> is the big-endian image of \<open>v\<close> in \<open>n\<close> bytes, \<open>be_dec\<close> reads one back.\<close>

fun be_enc :: "nat \<Rightarrow> nat \<Rightarrow> bytes" where
  "be_enc 0 v = []"
| "be_enc (Suc n) v = be_enc n (v div 256) @ [word_of_nat v]"

definition be_dec :: "bytes \<Rightarrow> nat" where
  "be_dec bs = foldl (\<lambda>acc b. acc * 256 + unat b) 0 bs"

lemma length_be_enc [simp]: "length (be_enc n v) = n"
  by (induction n arbitrary: v) simp_all

lemma be_dec_Nil [simp]: "be_dec [] = 0"
  by (simp add: be_dec_def)

lemma be_dec_snoc [simp]: "be_dec (bs @ [b]) = be_dec bs * 256 + unat b"
  by (simp add: be_dec_def)

lemma be_dec_1 [simp]: "be_dec [a] = unat a"
  by (simp add: be_dec_def)

lemma be_dec_2 [simp]: "be_dec [a, b] = unat a * 256 + unat b"
  by (simp add: be_dec_def)

lemma unat_u8_less [simp]: "unat (b :: u8) < 256"
  using unsigned_less [of b, where ?'a = nat] by simp

lemma be_dec_less: "be_dec bs < 256 ^ length bs"
proof (induction bs rule: rev_induct)
  case Nil
  then show ?case by simp
next
  case (snoc b bs)
  have "be_dec bs * 256 + unat b < (be_dec bs + 1) * 256"
    by simp
  also have "\<dots> \<le> 256 ^ length bs * 256"
    using snoc.IH by (intro mult_right_mono) simp_all
  finally show ?case by simp
qed

lemma be_dec_Cons: "be_dec (b # bs) = unat b * 256 ^ length bs + be_dec bs"
proof (induction bs rule: rev_induct)
  case Nil
  then show ?case by simp
next
  case (snoc x xs)
  have "be_dec (b # xs @ [x]) = be_dec (b # xs) * 256 + unat x"
    using be_dec_snoc [of "b # xs" x] by simp
  with snoc.IH show ?case by (simp add: algebra_simps)
qed

lemma be_dec_append: "be_dec (xs @ ys) = be_dec xs * 256 ^ length ys + be_dec ys"
  by (induction ys rule: rev_induct) (simp_all add: algebra_simps flip: append_assoc)

lemma be_dec_take: "k \<le> length bs \<Longrightarrow> be_dec (take k bs) = be_dec bs div 256 ^ (length bs - k)"
  using be_dec_append [of "take k bs" "drop k bs"] be_dec_less [of "drop k bs"] by simp

lemma be_dec_be_enc: "be_dec (be_enc n v) = v mod 256 ^ n"
proof (induction n arbitrary: v)
  case 0
  then show ?case by simp
next
  case (Suc n)
  have "v mod 256 ^ Suc n = 256 * (v div 256 mod 256 ^ n) + v mod 256"
    by (simp add: mod_mult2_eq)
  then show ?case
    using Suc.IH [of "v div 256"] by (simp add: unat_of_nat)
qed

lemma be_enc_be_dec: "be_enc (length bs) (be_dec bs) = bs"
proof (induction bs rule: rev_induct)
  case Nil
  then show ?case by simp
next
  case (snoc b bs)
  have "unat (word_of_nat (be_dec bs * 256 + unat b) :: u8) = unat b"
    by (simp only: unat_of_nat) (simp del: of_nat_add of_nat_mult)
  then have "(word_of_nat (be_dec bs * 256 + unat b) :: u8) = b"
    by (simp only: word_unat_eq_iff)
  with snoc.IH show ?case by simp
qed

lemma be_dec_inj: "length xs = length ys \<Longrightarrow> be_dec xs = be_dec ys \<longleftrightarrow> xs = ys"
  by (metis be_enc_be_dec)

definition from_be16 :: "u8 \<Rightarrow> u8 \<Rightarrow> u16" where
  "from_be16 a b = word_of_nat (be_dec [a, b])"

definition to_be16 :: "u16 \<Rightarrow> bytes" where
  "to_be16 v = be_enc 2 (unat v)"

lemma length_to_be16 [simp]: "length (to_be16 v) = 2"
  by (simp add: to_be16_def)

lemma unat_from_be16: "unat (from_be16 a b) = unat a * 256 + unat b"
proof -
  have "unat a * 256 + unat b < 65536"
    using be_dec_less [of "[a, b]"] by simp
  then show ?thesis by (simp only: from_be16_def be_dec_2 unat_of_nat) simp
qed

lemma from_be16_eq: "from_be16 a b = v \<longleftrightarrow> [a, b] = to_be16 v"
proof -
  have "unat v < 256 ^ 2" using unsigned_less [of v, where ?'a = nat] by simp
  then have "be_dec (to_be16 v) = unat v" by (simp add: to_be16_def be_dec_be_enc del: be_enc.simps)
  then show ?thesis
    using be_dec_inj [of "[a, b]" "to_be16 v"] by (auto simp: word_unat_eq_iff unat_from_be16)
qed

lemma be16_cases: obtains a b where "to_be16 v = [a, b]" "from_be16 a b = v"
proof -
  obtain a b where "to_be16 v = [a, b]"
    using length_to_be16 [of v] by (cases "to_be16 v" rule: remdups_adj.cases) auto
  then show ?thesis using that from_be16_eq by metis
qed

lemma word_nat_id: "word_of_nat (unat w) = w"
  by simp

subsection \<open>Prefixes of words\<close>

unbundle bit_operations_syntax

lemma and_high_mask: "(w :: 'a::len word) AND NOT (mask n) = push_bit n v \<longleftrightarrow> drop_bit n w = drop_bit n (push_bit n v)"
proof -
  have "w AND NOT (mask n) = push_bit n (drop_bit n w)" by (rule bit_word_eqI) (auto simp: bit_simps)
  moreover have "drop_bit n (push_bit n (drop_bit n w)) = drop_bit n w"
    by (rule bit_word_eqI) (auto simp: bit_simps dest: bit_imp_le_length)
  moreover have "push_bit n (drop_bit n (push_bit n v)) = push_bit n v"
    by (rule bit_word_eqI) (auto simp: bit_simps dest: bit_imp_le_length)
  ultimately show ?thesis by metis
qed

lemma unat_drop: "unat (drop_bit n (a :: 'a::len word)) = unat a div 2 ^ n"
  by (subst unat_drop_bit_eq) (rule drop_bit_eq_div)

lemma div_range: "0 < k \<Longrightarrow> (x :: nat) div k = c \<longleftrightarrow> c * k \<le> x \<and> x < (c + 1) * k"
  by (metis Suc_eq_plus1 div_nat_eqI mult.commute dividend_less_div_times div_times_less_eq_dividend mult_Suc)

lemma second_octet:
  assumes "r < 256" "k * m = 256" "(c :: nat) < m"
  shows "(256 * q + r) div k = p * m + c \<longleftrightarrow> q = p \<and> r div k = c"
proof -
  have k: "0 < k" using assms(2) by (cases k) auto
  have "(256 * q + r) div k = q * m + r div k"
    using k by (simp add: assms(2) [symmetric] mult.assoc mult.left_commute)
  moreover have "r div k < m" using assms(1,2) k by (metis less_mult_imp_div_less mult.commute)
  ultimately show ?thesis
  proof -
    have "(q * m + r div k) div m = q" "(q * m + r div k) mod m = r div k" "(p * m + c) div m = p" "(p * m + c) mod m = c"
      using \<open>r div k < m\<close> assms(3) by simp_all
    then show ?thesis using \<open>(256 * q + r) div k = q * m + r div k\<close> by metis
  qed
qed

end
