(* ===== verification/Framing.thy ===== *)
theory Framing
  imports Prelude
begin

text \<open>
  The contract between a byte-stream decoder and the code that feeds it. A decoder looks at the
  front of a buffer and either needs more bytes (\<^term>\<open>None\<close>) or yields a result and the number of
  bytes it used. \<open>drain\<close> decodes until the buffer holds no complete item, \<open>feed\<close> appends a chunk and
  drains, as the receive loops of the tunnel do. The locale \<open>incremental_decoder\<close> says what such a
  decoder promises; its client lemma is that the chunks in which the bytes arrive do not matter.
  \<open>framed_codec\<close> adds an encoder, and its client lemma is the round trip of a whole stream.
\<close>

function drain :: "(bytes \<Rightarrow> ('r \<times> nat) option) \<Rightarrow> bytes \<Rightarrow> 'r list \<times> bytes" where
  "drain dec buf =
     (case dec buf of
        None \<Rightarrow> ([], buf)
      | Some (r, n) \<Rightarrow>
          if 0 < n \<and> n \<le> length buf
          then (let (rs, rest) = drain dec (drop n buf) in (r # rs, rest))
          else ([], buf))"
  by pat_completeness auto
termination
  by (relation "measure (\<lambda>(_, buf). length buf)") auto

declare drain.simps [simp del]

definition feed ::
  "(bytes \<Rightarrow> ('r \<times> nat) option) \<Rightarrow> 'r list \<times> bytes \<Rightarrow> bytes \<Rightarrow> 'r list \<times> bytes" where
  "feed dec st chunk =
     (let (rs, rest) = drain dec (snd st @ chunk) in (fst st @ rs, rest))"

locale incremental_decoder =
  fixes dec :: "bytes \<Rightarrow> ('r \<times> nat) option"
  assumes dec_bounds: "dec bs = Some (r, n) \<Longrightarrow> 0 < n \<and> n \<le> length bs"
    and dec_mono: "dec bs = Some (r, n) \<Longrightarrow> dec (bs @ more) = Some (r, n)"
begin

lemma drain_None: "dec bs = None \<Longrightarrow> drain dec bs = ([], bs)"
  by (simp add: drain.simps)

lemma drain_Some:
  "dec bs = Some (r, n) \<Longrightarrow> drain dec bs = (r # fst (drain dec (drop n bs)), snd (drain dec (drop n bs)))"
  using dec_bounds [of bs r n] by (simp add: drain.simps [of dec bs] split: prod.splits)

lemma drain_append:
  "drain dec (a @ b) =
     (fst (drain dec a) @ fst (drain dec (snd (drain dec a) @ b)),
      snd (drain dec (snd (drain dec a) @ b)))"
proof (induction a rule: length_induct)
  case (1 a)
  show ?case
  proof (cases "dec a")
    case None
    then show ?thesis by (simp add: drain_None)
  next
    case (Some p)
    obtain r n where p: "p = (r, n)" by (cases p)
    with Some have n: "0 < n" "n \<le> length a" using dec_bounds [of a r n] by auto
    then have "length (drop n a) < length a" by simp
    with "1" have IH: "drain dec (drop n a @ b) =
        (fst (drain dec (drop n a)) @ fst (drain dec (snd (drain dec (drop n a)) @ b)),
         snd (drain dec (snd (drain dec (drop n a)) @ b)))"
      by blast
    have "drop n (a @ b) = drop n a @ b" using n by simp
    with IH Some p show ?thesis
      by (simp add: drain_Some [of a r n] drain_Some [OF dec_mono [of a r n b]])
  qed
qed

lemma feed_append: "feed dec (drain dec a) b = drain dec (a @ b)"
  by (simp add: feed_def drain_append [of a b] split: prod.splits)

text \<open>However the bytes are cut into chunks, the results and the left-over bytes are the same.\<close>

lemma feed_chunks: "foldl (feed dec) (drain dec a) chunks = drain dec (a @ concat chunks)"
  by (induction chunks arbitrary: a) (simp_all add: feed_append)

lemma drain_stops: "dec (snd (drain dec bs)) = None"
proof (induction bs rule: length_induct)
  case (1 bs)
  show ?case
  proof (cases "dec bs")
    case None
    then show ?thesis by (simp add: drain_None)
  next
    case (Some p)
    obtain r n where p: "p = (r, n)" by (cases p)
    with Some have "0 < n \<and> n \<le> length bs" using dec_bounds [of bs r n] by auto
    then have "length (drop n bs) < length bs" by auto
    with "1" have "dec (snd (drain dec (drop n bs))) = None" by blast
    with Some p show ?thesis by (simp add: drain_Some)
  qed
qed

end

locale framed_codec = incremental_decoder dec
  for dec :: "bytes \<Rightarrow> ('r \<times> nat) option" +
  fixes enc :: "'m \<Rightarrow> bytes"
    and valid :: "'m \<Rightarrow> bool"
    and meaning :: "'m \<Rightarrow> 'r"
  assumes dec_enc: "valid m \<Longrightarrow> dec (enc m @ rest) = Some (meaning m, length (enc m))"
begin

lemma dec_short:
  assumes "valid m" "k < length (enc m)"
  shows "dec (take k (enc m)) = None"
proof (rule ccontr)
  assume "dec (take k (enc m)) \<noteq> None"
  then obtain r n where d: "dec (take k (enc m)) = Some (r, n)" by auto
  with assms(2) have "n \<le> k" using dec_bounds [OF d] by simp
  moreover have "dec (take k (enc m) @ drop k (enc m)) = Some (r, n)"
    using d by (rule dec_mono)
  ultimately show False using dec_enc [OF assms(1), of "[]"] assms(2) by simp
qed

lemma drain_stream:
  assumes "list_all valid ms" "dec rest = None"
  shows "drain dec (concat (map enc ms) @ rest) = (map meaning ms, rest)"
  using assms(1)
proof (induction ms)
  case Nil
  then show ?case using assms(2) by (simp add: drain_None)
next
  case (Cons m ms)
  then show ?case by (simp add: drain_Some [OF dec_enc [of m]])
qed

text \<open>A prefix of a stream is a number of whole frames and less than the next one.\<close>

lemma prefix_split:
  assumes "pre @ post = concat (map enc ms)"
  obtains ms1 ms2 rest where "ms = ms1 @ ms2" "pre = concat (map enc ms1) @ rest"
    "rest @ post = concat (map enc ms2)" "case ms2 of [] \<Rightarrow> rest = [] | m # _ \<Rightarrow> length rest < length (enc m)"
  using assms
proof (induction ms arbitrary: pre thesis)
  case Nil
  then show ?case by simp
next
  case (Cons m ms)
  show ?case
  proof (cases "length pre < length (enc m)")
    case True
    then show ?thesis using Cons.prems(1) [of "[]" "m # ms" pre] Cons.prems(2) by simp
  next
    case False
    let ?pre' = "drop (length (enc m)) pre"
    have "take (length (enc m)) (pre @ post) = enc m" "drop (length (enc m)) (pre @ post) = concat (map enc ms)"
      using Cons.prems(2) by simp_all
    with False have pre: "pre = enc m @ ?pre'" "?pre' @ post = concat (map enc ms)"
      by (simp_all, metis append_take_drop_id)
    obtain ms1 ms2 rest where "ms = ms1 @ ms2" "?pre' = concat (map enc ms1) @ rest"
        "rest @ post = concat (map enc ms2)" "case ms2 of [] \<Rightarrow> rest = [] | m # _ \<Rightarrow> length rest < length (enc m)"
      using Cons.IH [OF _ pre(2)] by metis
    then show ?thesis using Cons.prems(1) [of "m # ms1" ms2 rest] pre(1) by simp
  qed
qed

lemma dec_prefix_None:
  assumes "case ms2 of [] \<Rightarrow> rest = [] | m # _ \<Rightarrow> length rest < length (enc m)"
    "rest @ post = concat (map enc ms2)" "list_all valid ms2"
  shows "dec rest = None"
proof (cases ms2)
  case Nil
  with assms(1) show ?thesis using dec_bounds [of "[]"] by (cases "dec []") fastforce+
next
  case (Cons m ms)
  with assms have "rest = take (length rest) (enc m)"
    by (auto simp: append_eq_append_conv2 append_eq_conv_conj)
  then show ?thesis using dec_short [of m "length rest"] assms Cons by simp
qed

text \<open>The round trip of a stream cut into arbitrary chunks, with a partial frame at its end.\<close>

lemma stream_roundtrip:
  assumes "list_all valid ms" "dec rest = None" "concat chunks = concat (map enc ms) @ rest"
  shows "foldl (feed dec) ([], []) chunks = (map meaning ms, rest)"
proof -
  have "drain dec [] = ([], [])"
  proof (cases "dec []")
    case (Some p)
    then show ?thesis using dec_bounds [of "[]" "fst p" "snd p"] by auto
  qed (simp add: drain_None)
  then show ?thesis
    using feed_chunks [of "[]" chunks] assms drain_stream by simp
qed

end

end
