(* ===== verification/Octets.thy ===== *)
theory Octets
  imports Framing
begin

text \<open>
  The byte cursor of \<open>quiche/octets/src/lib.rs\<close> as far as the tunnel uses it: \<open>Octets\<close> (reading)
  and \<open>OctetsMut\<close> (writing) share one record, a buffer and an offset. Slicing past the end panics,
  a short buffer is the error \<open>BufferTooShortError\<close>, and a value too large for a variable-length
  integer is the \<open>unreachable!\<close> of \<open>varint_len\<close>. The lemmas give each operation's effect on a
  cursor within its buffer, and the round trip of variable-length integers.
\<close>

unbundle bit_operations_syntax

datatype buffer_error = BufferTooShortError

record octets =
  oct_buf :: bytes
  oct_off :: nat

definition MAX_VAR_INT :: u64 where
  "MAX_VAR_INT = 4611686018427387903"

definition with_slice :: "bytes \<Rightarrow> octets" where
  "with_slice b = \<lparr>oct_buf = b, oct_off = 0\<rparr>"

text \<open>\<open>self.buf.len() - self.off\<close>: the subtraction overflows, and panics, when the offset is past the end.\<close>

definition cap :: "octets \<Rightarrow> nat outcome" where
  "cap b = (if oct_off b \<le> length (oct_buf b) then Ret (length (oct_buf b) - oct_off b) else Panic)"

definition as_ref :: "octets \<Rightarrow> bytes outcome" where
  "as_ref b = slice (oct_buf b) (oct_off b) (length (oct_buf b)) Ret"

definition to_vec :: "octets \<Rightarrow> bytes outcome" where
  "to_vec b = as_ref b"

definition peek_u :: "nat \<Rightarrow> octets \<Rightarrow> (buffer_error + 'a::len word) outcome" where
  "peek_u len b = out_bind (as_ref b) (\<lambda>src.
     if length src < len then Ret (Inl BufferTooShortError)
     else Ret (Inr (word_of_nat (be_dec (take len src)))))"

definition get_u :: "nat \<Rightarrow> octets \<Rightarrow> (buffer_error + 'a::len word \<times> octets) outcome" where
  "get_u len b = res_bind (peek_u len b) (\<lambda>out. Ret (Inr (out, b\<lparr>oct_off := oct_off b + len\<rparr>)))"

definition peek_u8 :: "octets \<Rightarrow> (buffer_error + u8) outcome" where
  "peek_u8 b = peek_u 1 b"

definition get_u8 :: "octets \<Rightarrow> (buffer_error + u8 \<times> octets) outcome" where
  "get_u8 b = get_u 1 b"

definition get_u16 :: "octets \<Rightarrow> (buffer_error + u16 \<times> octets) outcome" where
  "get_u16 b = get_u 2 b"

definition get_u32 :: "octets \<Rightarrow> (buffer_error + u32 \<times> octets) outcome" where
  "get_u32 b = get_u 4 b"

definition get_u64 :: "octets \<Rightarrow> (buffer_error + u64 \<times> octets) outcome" where
  "get_u64 b = get_u 8 b"

definition varint_len :: "u64 \<Rightarrow> nat outcome" where
  "varint_len v =
     (if v \<le> 63 then Ret 1 else if v \<le> 16383 then Ret 2
      else if v \<le> 1073741823 then Ret 4 else if v \<le> MAX_VAR_INT then Ret 8 else Panic)"

definition varint_parse_len :: "u8 \<Rightarrow> nat outcome" where
  "varint_parse_len first =
     (let t = drop_bit 6 first in
      if t = 0 then Ret 1 else if t = 1 then Ret 2 else if t = 2 then Ret 4
      else if t = 3 then Ret 8 else Panic)"

definition get_varint :: "octets \<Rightarrow> (buffer_error + u64 \<times> octets) outcome" where
  "get_varint b =
     res_bind (peek_u8 b) (\<lambda>first.
     out_bind (varint_parse_len first) (\<lambda>len.
     out_bind (cap b) (\<lambda>c.
     if c < len then Ret (Inl BufferTooShortError)
     else if len = 1 then res_bind (get_u8 b) (\<lambda>(v, b'). Ret (Inr (ucast v, b')))
     else if len = 2 then res_bind (get_u16 b) (\<lambda>(v, b'). Ret (Inr (ucast (v AND 0x3fff), b')))
     else if len = 4 then res_bind (get_u32 b) (\<lambda>(v, b'). Ret (Inr (ucast (v AND 0x3fffffff), b')))
     else if len = 8 then res_bind (get_u64 b) (\<lambda>(v, b'). Ret (Inr (v AND 0x3fffffffffffffff, b')))
     else Panic)))"

definition get_bytes :: "octets \<Rightarrow> nat \<Rightarrow> (buffer_error + octets \<times> octets) outcome" where
  "get_bytes b len = out_bind (cap b) (\<lambda>c.
     if c < len then Ret (Inl BufferTooShortError)
     else slice (oct_buf b) (oct_off b) (oct_off b + len) (\<lambda>s.
       Ret (Inr (\<lparr>oct_buf = s, oct_off = 0\<rparr>, b\<lparr>oct_off := oct_off b + len\<rparr>))))"

text \<open>
  Writing. The macro \<open>put_u!\<close> copies the \<open>len\<close> low bytes of its argument; the slice it returns
  starts at the old offset, where \<open>put_varint_with_len\<close> then sets the length bits.
\<close>

definition put_u :: "octets \<Rightarrow> nat \<Rightarrow> nat \<Rightarrow> (buffer_error + octets) outcome" where
  "put_u b v len =
     (if length (oct_buf b) < oct_off b + len then Ret (Inl BufferTooShortError)
      else Ret (Inr (b\<lparr>oct_buf := take (oct_off b) (oct_buf b) @ be_enc len v
                                   @ drop (oct_off b + len) (oct_buf b),
                        oct_off := oct_off b + len\<rparr>)))"

definition put_u8 :: "octets \<Rightarrow> u8 \<Rightarrow> (buffer_error + octets) outcome" where
  "put_u8 b v = put_u b (unat v) 1"

definition put_u16 :: "octets \<Rightarrow> u16 \<Rightarrow> (buffer_error + octets) outcome" where
  "put_u16 b v = put_u b (unat v) 2"

definition put_u32 :: "octets \<Rightarrow> u32 \<Rightarrow> (buffer_error + octets) outcome" where
  "put_u32 b v = put_u b (unat v) 4"

definition put_u64 :: "octets \<Rightarrow> u64 \<Rightarrow> (buffer_error + octets) outcome" where
  "put_u64 b v = put_u b (unat v) 8"

definition or_at :: "nat \<Rightarrow> u8 \<Rightarrow> octets \<Rightarrow> octets" where
  "or_at i m b = b\<lparr>oct_buf := (oct_buf b)[i := oct_buf b ! i OR m]\<rparr>"

definition put_varint_with_len :: "octets \<Rightarrow> u64 \<Rightarrow> nat \<Rightarrow> (buffer_error + octets) outcome" where
  "put_varint_with_len b v len = out_bind (cap b) (\<lambda>c.
     if c < len then Ret (Inl BufferTooShortError)
     else if len = 1 then put_u8 b (ucast v)
     else if len = 2 then res_bind (put_u16 b (ucast v)) (\<lambda>b'. Ret (Inr (or_at (oct_off b) 0x40 b')))
     else if len = 4 then res_bind (put_u32 b (ucast v)) (\<lambda>b'. Ret (Inr (or_at (oct_off b) 0x80 b')))
     else if len = 8 then res_bind (put_u64 b v) (\<lambda>b'. Ret (Inr (or_at (oct_off b) 0xc0 b')))
     else Panic)"

definition put_varint :: "octets \<Rightarrow> u64 \<Rightarrow> (buffer_error + octets) outcome" where
  "put_varint b v = out_bind (varint_len v) (\<lambda>len. put_varint_with_len b v len)"

definition put_bytes :: "octets \<Rightarrow> bytes \<Rightarrow> (buffer_error + octets) outcome" where
  "put_bytes b v = out_bind (cap b) (\<lambda>c.
     if c < length v then Ret (Inl BufferTooShortError)
     else if length v = 0 then Ret (Inr b)
     else Ret (Inr (b\<lparr>oct_buf := take (oct_off b) (oct_buf b) @ v
                                  @ drop (oct_off b + length v) (oct_buf b),
                       oct_off := oct_off b + length v\<rparr>)))"

subsection \<open>The cursor invariant\<close>

definition oct_inv :: "octets \<Rightarrow> bool" where
  "oct_inv b \<longleftrightarrow> oct_off b \<le> length (oct_buf b)"

text \<open>What is left to read.\<close>

definition remaining :: "octets \<Rightarrow> bytes" where
  "remaining b = drop (oct_off b) (oct_buf b)"

lemma oct_inv_with_slice [simp]: "oct_inv (with_slice b)"
  by (simp add: oct_inv_def with_slice_def)

lemma remaining_with_slice [simp]: "remaining (with_slice b) = b"
  by (simp add: remaining_def with_slice_def)

lemma cap_inv [simp]: "oct_inv b \<Longrightarrow> cap b = Ret (length (remaining b))"
  by (simp add: cap_def oct_inv_def remaining_def)

lemma as_ref_inv [simp]: "oct_inv b \<Longrightarrow> as_ref b = Ret (remaining b)"
  by (simp add: as_ref_def oct_inv_def remaining_def)

lemma to_vec_inv [simp]: "oct_inv b \<Longrightarrow> to_vec b = Ret (remaining b)"
  by (simp add: to_vec_def)

definition advance :: "nat \<Rightarrow> octets \<Rightarrow> octets" where
  "advance n b = b\<lparr>oct_off := oct_off b + n\<rparr>"

lemma remaining_advance [simp]: "remaining (advance n b) = drop n (remaining b)"
  by (simp add: remaining_def advance_def add.commute)

lemma oct_inv_advance [simp]: "oct_inv b \<Longrightarrow> n \<le> length (remaining b) \<Longrightarrow> oct_inv (advance n b)"
  by (simp add: oct_inv_def advance_def remaining_def)

lemma oct_off_advance [simp]: "oct_off (advance n b) = oct_off b + n"
  by (simp add: advance_def)

lemma oct_buf_advance [simp]: "oct_buf (advance n b) = oct_buf b"
  by (simp add: advance_def)

lemma advance_advance [simp]: "advance m (advance n b) = advance (n + m) b"
  by (simp add: advance_def add.assoc)

lemma get_u_inv:
  "oct_inv b \<Longrightarrow> get_u n b =
     (if length (remaining b) < n then Ret (Inl BufferTooShortError)
      else Ret (Inr (word_of_nat (be_dec (take n (remaining b))), advance n b)))"
  by (simp add: get_u_def peek_u_def advance_def)

lemma peek_u8_inv:
  "oct_inv b \<Longrightarrow> peek_u8 b =
     (case remaining b of [] \<Rightarrow> Ret (Inl BufferTooShortError) | x # _ \<Rightarrow> Ret (Inr x))"
  by (cases "remaining b") (simp_all add: peek_u8_def peek_u_def)

lemma get_u8_inv:
  "oct_inv b \<Longrightarrow> get_u8 b =
     (case remaining b of [] \<Rightarrow> Ret (Inl BufferTooShortError) | x # _ \<Rightarrow> Ret (Inr (x, advance 1 b)))"
  by (cases "remaining b") (simp_all add: get_u8_def get_u_inv)

lemma get_bytes_inv:
  "oct_inv b \<Longrightarrow> get_bytes b n =
     (if length (remaining b) < n then Ret (Inl BufferTooShortError)
      else Ret (Inr (with_slice (take n (remaining b)), advance n b)))"
  by (auto simp: get_bytes_def advance_def with_slice_def remaining_def oct_inv_def)

subsection \<open>Variable-length integers as byte strings\<close>

text \<open>
  The format itself, as a specification: the two high bits of the first byte give the length, the
  other bits the value. \<open>varint_bytes\<close> is what writing produces, \<open>varint_dec\<close> what reading finds
  at the front of a byte string together with the number of bytes it takes.
\<close>

definition varint_bytes :: "u64 \<Rightarrow> bytes" where
  "varint_bytes v =
     (let n = unat v in
      if n < 64 then be_enc 1 n
      else if n < 16384 then be_enc 2 (n + 64 * 256)
      else if n < 1073741824 then be_enc 4 (n + 128 * 256 ^ 3)
      else be_enc 8 (n + 192 * 256 ^ 7))"

definition varint_dec :: "bytes \<Rightarrow> (u64 \<times> nat) option" where
  "varint_dec bs =
     (case bs of
        [] \<Rightarrow> None
      | x # _ \<Rightarrow>
          let len = 2 ^ (unat x div 64) in
          if length bs < len then None
          else Some (word_of_nat (be_dec (take len bs) mod (64 * 256 ^ (len - 1))), len))"

lemma be_enc_Cons: "be_enc (Suc n) v = word_of_nat (v div 256 ^ n) # be_enc n v"
  by (induction n arbitrary: v) (simp_all add: div_mult2_eq)

lemma be_enc_add: "be_enc n (v + t * 256 ^ n) = be_enc n v"
proof -
  have "be_dec (be_enc n (v + t * 256 ^ n)) = be_dec (be_enc n v)"
    by (simp add: be_dec_be_enc)
  then show ?thesis
    by (metis be_enc_be_dec length_be_enc)
qed

lemma or_low_bits:
  assumes "m < 64"
  shows "(word_of_nat m :: u8) OR 0x40 = word_of_nat (m + 64)"
    and "(word_of_nat m :: u8) OR 0x80 = word_of_nat (m + 128)"
    and "(word_of_nat m :: u8) OR 0xc0 = word_of_nat (m + 192)"
proof -
  have all: "\<forall>m \<in> set [0..<64]. (word_of_nat m :: u8) OR 0x40 = word_of_nat (m + 64)
      \<and> (word_of_nat m :: u8) OR 0x80 = word_of_nat (m + 128)
      \<and> (word_of_nat m :: u8) OR 0xc0 = word_of_nat (m + 192)"
    by code_simp
  have "m \<in> set [0..<64]" using assms by simp
  with all show "(word_of_nat m :: u8) OR 0x40 = word_of_nat (m + 64)"
    and "(word_of_nat m :: u8) OR 0x80 = word_of_nat (m + 128)"
    and "(word_of_nat m :: u8) OR 0xc0 = word_of_nat (m + 192)"
    by blast+
qed

lemma and_masks:
  "unat ((w16 :: u16) AND 0x3fff) = unat w16 mod 16384"
  "unat ((w32 :: u32) AND 0x3fffffff) = unat w32 mod 1073741824"
  "unat ((w64 :: u64) AND 0x3fffffffffffffff) = unat w64 mod 4611686018427387904"
proof -
  have "(w16 AND mask 14) = take_bit 14 w16" "(w32 AND mask 30) = take_bit 30 w32"
    "(w64 AND mask 62) = take_bit 62 w64"
    by (simp_all add: take_bit_eq_mask)
  then show "unat (w16 AND 0x3fff) = unat w16 mod 16384"
    "unat (w32 AND 0x3fffffff) = unat w32 mod 1073741824"
    "unat (w64 AND 0x3fffffffffffffff) = unat w64 mod 4611686018427387904"
    by (simp_all add: mask_eq_exp_minus_1 take_bit_eq_mod unat_mod_distrib)
qed

lemma unat_word_of_nat_be_dec:
  "length bs \<le> LENGTH('a::len) div 8 \<Longrightarrow> unat (word_of_nat (be_dec bs) :: 'a word) = be_dec bs"
proof -
  assume le: "length bs \<le> LENGTH('a) div 8"
  have "be_dec bs < 256 ^ length bs" by (rule be_dec_less)
  also have "(256::nat) ^ length bs = 2 ^ (8 * length bs)"
    by (simp add: power_mult)
  also have "\<dots> \<le> 2 ^ LENGTH('a)"
    using le by (intro power_increasing) auto
  finally show ?thesis by (simp add: unat_of_nat)
qed

lemma varint_parse_len_eq: "varint_parse_len x = Ret (2 ^ (unat x div 64))"
proof -
  have all: "\<forall>n \<in> set [0..<256]. varint_parse_len (word_of_nat n) = Ret (2 ^ (n div 64))"
    by code_simp
  have "unat x \<in> set [0..<256]" by simp
  with all have "varint_parse_len (word_of_nat (unat x)) = Ret (2 ^ (unat x div 64))"
    by blast
  then show ?thesis by simp
qed

lemma u8_quarter_cases:
  fixes x :: u8
  obtains "unat x div 64 = 0" | "unat x div 64 = 1" | "unat x div 64 = 2" | "unat x div 64 = 3"
proof -
  have "unat x div 64 < 4" using unat_u8_less [of x] by (intro less_mult_imp_div_less) simp
  then have "unat x div 64 \<in> {0, 1, 2, 3}" by auto
  then show ?thesis using that by auto
qed

lemma unat_ucast_widen:
  "LENGTH('a) \<le> LENGTH('b) \<Longrightarrow> unat (ucast (w :: 'a::len word) :: 'b::len word) = unat w"
proof -
  assume le: "LENGTH('a) \<le> LENGTH('b)"
  have "unat w < 2 ^ LENGTH('a)" by (rule unsigned_less)
  also have "\<dots> \<le> 2 ^ LENGTH('b)" using le by simp
  finally show ?thesis by (simp add: unsigned_ucast_eq take_bit_eq_mod)
qed

lemma word_of_nat_mod_eqI: "unat w = n \<Longrightarrow> w = word_of_nat n"
  by auto

text \<open>Reading a variable-length integer is \<open>varint_dec\<close> on what is left in the buffer.\<close>

lemma get_varint_inv:
  assumes inv: "oct_inv b"
  shows "get_varint b =
    (case varint_dec (remaining b) of
       None \<Rightarrow> Ret (Inl BufferTooShortError)
     | Some (v, n) \<Rightarrow> Ret (Inr (v, advance n b)))"
proof (cases "remaining b")
  case Nil
  with inv show ?thesis by (simp add: get_varint_def peek_u8_inv varint_dec_def)
next
  case (Cons x xs)
  note simps = get_varint_def peek_u8_inv varint_parse_len_eq varint_dec_def get_u8_inv get_u_inv
    get_u16_def get_u32_def get_u64_def unat_word_of_nat_be_dec and_masks unat_ucast_widen
  show ?thesis
  proof (cases x rule: u8_quarter_cases)
    case 1
    then have "unat x < 64" by (simp add: div_eq_0_iff)
    with 1 Cons inv show ?thesis by (simp add: simps)
  next
    case 2
    with Cons inv show ?thesis
      by (auto simp: simps intro!: word_of_nat_mod_eqI)
  next
    case 3
    with Cons inv show ?thesis
      by (auto simp: simps intro!: word_of_nat_mod_eqI)
  next
    case 4
    with Cons inv show ?thesis
      by (auto simp: simps intro!: word_of_nat_mod_eqI)
  qed
qed

text \<open>Writing \<open>bs\<close> at the offset of a cursor.\<close>

definition write_bytes :: "bytes \<Rightarrow> octets \<Rightarrow> octets" where
  "write_bytes bs b = b\<lparr>oct_buf := take (oct_off b) (oct_buf b) @ bs
                                 @ drop (oct_off b + length bs) (oct_buf b),
                      oct_off := oct_off b + length bs\<rparr>"

lemma write_bytes_fresh:
  "length xs + length bs \<le> n \<Longrightarrow>
   write_bytes bs \<lparr>oct_buf = xs @ replicate (n - length xs) 0, oct_off = length xs\<rparr> =
     \<lparr>oct_buf = (xs @ bs) @ replicate (n - length (xs @ bs)) 0, oct_off = length (xs @ bs)\<rparr>"
  by (simp add: write_bytes_def)

lemma put_u_write:
  "oct_inv b \<Longrightarrow> put_u b v n =
     (if length (remaining b) < n then Ret (Inl BufferTooShortError)
      else Ret (Inr (write_bytes (be_enc n v) b)))"
  by (auto simp: put_u_def write_bytes_def remaining_def oct_inv_def)

lemma put_bytes_write:
  "oct_inv b \<Longrightarrow> put_bytes b v =
     (if length (remaining b) < length v then Ret (Inl BufferTooShortError)
      else Ret (Inr (write_bytes v b)))"
  by (auto simp: put_bytes_def write_bytes_def)

lemma or_at_write:
  assumes "oct_inv b" "n < length (remaining b)" "v < 64 * 256 ^ n"
    and "\<And>k. k < 64 \<Longrightarrow> (word_of_nat k :: u8) OR m = word_of_nat (k + t)"
  shows "or_at (oct_off b) m (write_bytes (be_enc (Suc n) v) b)
       = write_bytes (be_enc (Suc n) (v + t * 256 ^ n)) b"
proof -
  have "v div 256 ^ n < 64"
    using assms(3) by (intro less_mult_imp_div_less)
  moreover have "(v + t * 256 ^ n) div 256 ^ n = v div 256 ^ n + t"
    by simp
  ultimately show ?thesis
    using assms(1,2,4)
    by (cases b) (simp add: or_at_def write_bytes_def be_enc_Cons be_enc_add nth_append
        list_update_append oct_inv_def remaining_def add.commute [of t] del: be_enc.simps of_nat_add)
qed

lemma varint_len_eq:
  "varint_len v = (if v \<le> MAX_VAR_INT then Ret (length (varint_bytes v)) else Panic)"
  by (auto simp: varint_len_def varint_bytes_def MAX_VAR_INT_def Let_def word_le_nat_alt
      simp del: be_enc.simps)

lemma unat_ucast_narrow:
  "unat v < 2 ^ LENGTH('a) \<Longrightarrow> unat (ucast (v :: u64) :: 'a::len word) = unat v"
  by (simp only: unsigned_ucast_eq take_bit_eq_mod) (rule mod_less)

lemma put_varint_write:
  assumes inv: "oct_inv b" and v: "v \<le> MAX_VAR_INT"
  shows "put_varint b v =
    (if length (remaining b) < length (varint_bytes v) then Ret (Inl BufferTooShortError)
     else Ret (Inr (write_bytes (varint_bytes v) b)))"
proof -
  have bound: "unat v < 4611686018427387904"
    using v by (simp add: MAX_VAR_INT_def word_le_nat_alt)
  have start: "put_varint b v = put_varint_with_len b v (length (varint_bytes v))"
    using v by (simp add: put_varint_def varint_len_eq)
  note put_defs = put_u8_def put_u16_def put_u32_def put_u64_def
  consider "unat v < 64" | "64 \<le> unat v" "unat v < 16384"
    | "16384 \<le> unat v" "unat v < 1073741824" | "1073741824 \<le> unat v"
    by linarith
  then show ?thesis
  proof cases
    case 1
    then have bs: "varint_bytes v = be_enc 1 (unat v)"
      by (simp add: varint_bytes_def)
    have "unat (ucast v :: u8) = unat v"
      using 1 by (intro unat_ucast_narrow) simp
    then show ?thesis using inv
      by (simp add: start bs put_varint_with_len_def put_defs put_u_write del: be_enc.simps)
  next
    case 2
    then have bs: "varint_bytes v = be_enc 2 (unat v + 64 * 256)"
      by (simp add: varint_bytes_def)
    have "unat (ucast v :: u16) = unat v"
      using 2 by (intro unat_ucast_narrow) simp
    then show ?thesis using inv 2 or_at_write [OF inv, of 1 "unat v" "0x40" 64]
      by (simp add: start bs put_varint_with_len_def put_defs put_u_write or_low_bits
          numeral_2_eq_2 del: be_enc.simps of_nat_add)
  next
    case 3
    then have bs: "varint_bytes v = be_enc 4 (unat v + 128 * 256 ^ 3)"
      by (simp add: varint_bytes_def)
    have "unat (ucast v :: u32) = unat v"
      using 3 by (intro unat_ucast_narrow) simp
    then show ?thesis using inv 3 or_at_write [OF inv, of 3 "unat v" "0x80" 128]
      by (simp add: start bs put_varint_with_len_def put_defs put_u_write or_low_bits
          del: be_enc.simps of_nat_add)
  next
    case 4
    then have bs: "varint_bytes v = be_enc 8 (unat v + 192 * 256 ^ 7)"
      by (simp add: varint_bytes_def)
    from 4 bound show ?thesis using inv or_at_write [OF inv, of 7 "unat v" "0xc0" 192]
      by (simp add: start bs put_varint_with_len_def put_defs put_u_write or_low_bits
          del: be_enc.simps of_nat_add)
  qed
qed

subsection \<open>The varint codec\<close>

lemma varint_dec_bounds: "varint_dec bs = Some (v, n) \<Longrightarrow> 0 < n \<and> n \<le> length bs"
  by (auto simp: varint_dec_def Let_def split: list.splits if_splits)

lemma varint_dec_take:
  assumes "2 ^ (unat x div 64) \<le> length (x # xs)"
  shows "varint_dec (x # xs) =
    Some (word_of_nat (be_dec (take (2 ^ (unat x div 64)) (x # xs))
            mod (64 * 256 ^ (2 ^ (unat x div 64) - 1))), 2 ^ (unat x div 64))"
  unfolding varint_dec_def Let_def list.case using assms by (intro if_not_P) simp

lemma varint_dec_mono: "varint_dec bs = Some (v, n) \<Longrightarrow> varint_dec (bs @ bs') = Some (v, n)"
proof (cases bs)
  case (Cons x xs)
  assume d: "varint_dec bs = Some (v, n)"
  with Cons have le: "2 ^ (unat x div 64) \<le> length (x # xs)"
    by (auto simp: varint_dec_def Let_def split: if_splits)
  then have "take (2 ^ (unat x div 64)) (x # xs @ bs') = take (2 ^ (unat x div 64)) (x # xs)"
    by (simp flip: append_Cons)
  with le d Cons show ?thesis
    using varint_dec_take [of x xs] varint_dec_take [of x "xs @ bs'"] by auto
qed (simp add: varint_dec_def)

lemma varint_dec_front:
  assumes "length (x # xs) = 2 ^ (unat x div 64)"
  shows "varint_dec ((x # xs) @ rest) =
    Some (word_of_nat (be_dec (x # xs) mod (64 * 256 ^ length xs)), length (x # xs))"
proof -
  have len: "2 ^ (unat x div 64) = Suc (length xs)"
    using assms by simp
  show ?thesis
    using varint_dec_take [of x "xs @ rest"] by (simp add: len)
qed

lemma varint_dec_le: "varint_dec bs = Some (v, n) \<Longrightarrow> v \<le> MAX_VAR_INT"
proof -
  assume "varint_dec bs = Some (v, n)"
  then obtain x xs where bs: "bs = x # xs"
      and v: "v = word_of_nat (be_dec (take (2 ^ (unat x div 64)) bs) mod (64 * 256 ^ (2 ^ (unat x div 64) - 1)))"
    by (auto simp: varint_dec_def Let_def split: list.splits if_splits)
  have "unat x div 64 \<le> 3" using unat_u8_less [of x] by linarith
  then have "(2 :: nat) ^ (unat x div 64) \<le> 2 ^ 3" by (intro power_increasing) simp_all
  then have "(256 :: nat) ^ (2 ^ (unat x div 64) - 1) \<le> 256 ^ 7" by (intro power_increasing) simp_all
  then have "64 * (256 :: nat) ^ (2 ^ (unat x div 64) - 1) \<le> 64 * 256 ^ 7" by (intro mult_left_mono) simp_all
  moreover have "m mod k < k" if "0 < k" for m k :: nat using that by simp
  ultimately have "be_dec (take (2 ^ (unat x div 64)) bs) mod (64 * 256 ^ (2 ^ (unat x div 64) - 1)) < 64 * 256 ^ 7"
    by (meson less_le_trans mult_pos_pos zero_less_numeral zero_less_power)
  then show ?thesis
    by (simp add: v MAX_VAR_INT_def word_le_nat_alt unsigned_of_nat take_bit_eq_mod)
qed

lemma length_varint_bytes: "length (varint_bytes v) \<in> {1, 2, 4, 8}"
  by (simp add: varint_bytes_def Let_def del: be_enc.simps)

lemma varint_dec_tagged:
  assumes "v < 64 * 256 ^ n" "t < 4" "Suc n = 2 ^ t"
  shows "varint_dec (be_enc (Suc n) (v + t * 64 * 256 ^ n) @ rest) = Some (word_of_nat v, Suc n)"
proof -
  let ?w = "v + t * 64 * 256 ^ n"
  have hi: "?w div 256 ^ n = v div 256 ^ n + t * 64" and lo: "v div 256 ^ n < 64"
    using assms(1) by (simp_all add: less_mult_imp_div_less)
  then have first: "unat (word_of_nat (?w div 256 ^ n) :: u8) div 64 = t"
    using assms(2) by (simp add: unat_of_nat del: of_nat_add of_nat_mult)
  have "?w < 256 ^ Suc n"
  proof -
    have "?w < (t + 1) * 64 * 256 ^ n" using assms(1) by (simp add: algebra_simps)
    also have "\<dots> \<le> 4 * 64 * 256 ^ n" using assms(2) by (intro mult_right_mono) auto
    finally show ?thesis by simp
  qed
  then have "be_dec (be_enc (Suc n) ?w) = ?w" by (simp only: be_dec_be_enc) simp
  moreover have "?w mod (64 * 256 ^ n) = v"
    using assms(1) by (simp add: mult.assoc)
  moreover have "be_enc (Suc n) ?w = word_of_nat (?w div 256 ^ n) # be_enc n ?w"
    by (rule be_enc_Cons)
  ultimately show ?thesis
    using varint_dec_front [of "word_of_nat (?w div 256 ^ n)" "be_enc n ?w" rest] first assms(3)
    by (simp only: length_Cons length_be_enc append_Cons)
qed

lemma varint_dec_bytes_case:
  assumes bs: "varint_bytes v = be_enc (Suc n) (unat v + t * 64 * 256 ^ n)"
    and "unat v < 64 * 256 ^ n" "t < 4" "Suc n = 2 ^ t"
  shows "varint_dec (varint_bytes v @ rest) = Some (v, length (varint_bytes v))"
proof -
  have "word_of_nat (unat v) = v" by simp
  then show ?thesis
    using varint_dec_tagged [OF assms(2-4), of rest] by (simp only: bs length_be_enc)
qed

lemma varint_dec_bytes:
  assumes "v \<le> MAX_VAR_INT"
  shows "varint_dec (varint_bytes v @ rest) = Some (v, length (varint_bytes v))"
proof -
  have bound: "unat v < 4611686018427387904"
    using assms by (simp add: MAX_VAR_INT_def word_le_nat_alt)
  consider "unat v < 64" | "64 \<le> unat v" "unat v < 16384"
    | "16384 \<le> unat v" "unat v < 1073741824" | "1073741824 \<le> unat v"
    by linarith
  then show ?thesis
  proof cases
    case 1
    then show ?thesis
      by (intro varint_dec_bytes_case [of v 0 0]) (simp_all add: varint_bytes_def del: be_enc.simps)
  next
    case 2
    then show ?thesis
      by (intro varint_dec_bytes_case [of v 1 1])
        (simp_all add: varint_bytes_def numeral_2_eq_2 del: be_enc.simps)
  next
    case 3
    then show ?thesis
      by (intro varint_dec_bytes_case [of v 3 2]) (simp_all add: varint_bytes_def del: be_enc.simps)
  next
    case 4
    with bound show ?thesis
      by (intro varint_dec_bytes_case [of v 7 3]) (simp_all add: varint_bytes_def del: be_enc.simps)
  qed
qed

interpretation varint: framed_codec varint_dec varint_bytes "\<lambda>v. v \<le> MAX_VAR_INT" "\<lambda>v. v"
  by unfold_locales
    (blast dest: varint_dec_bounds varint_dec_mono intro: varint_dec_bytes)+

subsection \<open>Properties\<close>

lemma write_bytes_at:
  "oct_inv b \<Longrightarrow> length bs \<le> length (remaining b) \<Longrightarrow>
   remaining ((write_bytes bs b)\<lparr>oct_off := oct_off b\<rparr>) = bs @ drop (length bs) (remaining b)"
  by (simp add: write_bytes_def remaining_def oct_inv_def add.commute)

lemma oct_inv_write_bytes:
  "oct_inv b \<Longrightarrow> length bs \<le> length (remaining b) \<Longrightarrow> oct_inv (write_bytes bs b)"
  by (simp add: write_bytes_def remaining_def oct_inv_def)

text \<open>
  Writing a variable-length integer into a buffer with room for it succeeds, moves the cursor by
  the length that \<open>varint_len\<close> computes, and reading at the position where it was written gives the
  value back and ends at the same cursor; the bytes before the cursor are untouched.
\<close>

lemma put_get_varint:
  assumes "oct_inv b" "v \<le> MAX_VAR_INT" "varint_len v = Ret n" "n \<le> length (remaining b)"
  shows "\<exists>b'. put_varint b v = Ret (Inr b') \<and> oct_off b' = oct_off b + n
    \<and> take (oct_off b) (oct_buf b') = take (oct_off b) (oct_buf b)
    \<and> get_varint (b'\<lparr>oct_off := oct_off b\<rparr>) = Ret (Inr (v, b'))"
proof -
  let ?b' = "write_bytes (varint_bytes v) b"
  have n: "n = length (varint_bytes v)" using assms(2,3) by (simp add: varint_len_eq)
  with assms have put: "put_varint b v = Ret (Inr ?b')" by (simp add: put_varint_write)
  have rem: "remaining (?b'\<lparr>oct_off := oct_off b\<rparr>) = varint_bytes v @ drop n (remaining b)"
    using assms n by (simp add: write_bytes_at)
  have inv: "oct_inv (?b'\<lparr>oct_off := oct_off b\<rparr>)"
    using assms(1) by (simp add: oct_inv_def write_bytes_def)
  have "get_varint (?b'\<lparr>oct_off := oct_off b\<rparr>) = Ret (Inr (v, advance n (?b'\<lparr>oct_off := oct_off b\<rparr>)))"
    using varint_dec_bytes [OF assms(2)] by (simp add: get_varint_inv [OF inv] rem n)
  moreover have "advance n (?b'\<lparr>oct_off := oct_off b\<rparr>) = ?b'"
    by (simp add: advance_def write_bytes_def n)
  ultimately show ?thesis
    using put n assms(1) by (auto simp: write_bytes_def oct_inv_def)
qed

text \<open>
  On a cursor within its buffer no operation of \<open>Octets\<close> panics whatever the bytes are, every
  operation leaves the cursor within its buffer, and a write of a variable-length integer panics
  exactly when the value is above \<open>MAX_VAR_INT\<close>.
\<close>

lemma octets_panic_free:
  assumes "oct_inv b"
  shows "(\<exists>r. get_varint b = Ret r \<and> (\<forall>v b'. r = Inr (v, b') \<longrightarrow> oct_inv b' \<and> v \<le> MAX_VAR_INT))
    \<and> (\<exists>r. get_bytes b n = Ret r \<and> (\<forall>s b'. r = Inr (s, b') \<longrightarrow> oct_inv s \<and> oct_inv b' \<and> length (oct_buf s) = n))
    \<and> (\<exists>r. put_bytes b bs = Ret r \<and> (\<forall>b'. r = Inr b' \<longrightarrow> oct_inv b' \<and> length (oct_buf b') = length (oct_buf b)))
    \<and> (put_varint b v = Panic \<longleftrightarrow> MAX_VAR_INT < v)"
proof (intro conjI)
  show "\<exists>r. get_varint b = Ret r \<and> (\<forall>v b'. r = Inr (v, b') \<longrightarrow> oct_inv b' \<and> v \<le> MAX_VAR_INT)"
    using assms varint_dec_bounds [of "remaining b"] varint_dec_le [of "remaining b"]
    by (cases "varint_dec (remaining b)") (auto simp: get_varint_inv)
  show "\<exists>r. get_bytes b n = Ret r \<and> (\<forall>s b'. r = Inr (s, b') \<longrightarrow> oct_inv s \<and> oct_inv b' \<and> length (oct_buf s) = n)"
    using assms by (auto simp: get_bytes_inv with_slice_def oct_inv_def remaining_def)
  show "\<exists>r. put_bytes b bs = Ret r \<and> (\<forall>b'. r = Inr b' \<longrightarrow> oct_inv b' \<and> length (oct_buf b') = length (oct_buf b))"
    using assms by (auto simp: put_bytes_write oct_inv_write_bytes)
      (auto simp: write_bytes_def oct_inv_def remaining_def)
  show "put_varint b v = Panic \<longleftrightarrow> MAX_VAR_INT < v"
    using put_varint_write [OF assms, of v]
    by (cases "v \<le> MAX_VAR_INT") (auto simp: put_varint_def varint_len_eq)
qed

end
