(* ===== verification/Rust_Str.thy ===== *)
theory Rust_Str
  imports Prelude
begin

text \<open>
  Rust strings. A \<open>str\<close> is its list of Unicode scalar values; \<open>utf8_encode\<close> gives its bytes,
  \<open>from_utf8\<close> and \<open>from_utf8_lossy\<close> the two conversions of the standard library (the second puts
  U+FFFD for each maximal invalid part). Case mapping beyond ASCII depends on the Unicode tables of
  the standard library: they are a parameter, the record \<open>unicode\<close>. Everything else (white space,
  trimming, splitting, decimal parsing and printing) is defined here.
\<close>

type_synonym str = "nat list"

definition lit :: "string \<Rightarrow> str" where
  "lit s = map of_char s"

lemma lit_simps [simp]: "lit [] = []" "lit (c # s) = of_char c # lit s"
  by (simp_all add: lit_def)

definition ch :: "char \<Rightarrow> nat" where
  "ch c = of_char c"

lemma lit_append [simp]: "lit (a @ b) = lit a @ lit b"
  by (simp add: lit_def)

subsection \<open>UTF-8\<close>

definition utf8_char :: "nat \<Rightarrow> bytes" where
  "utf8_char c =
     (if c < 0x80 then [word_of_nat c]
      else if c < 0x800 then [word_of_nat (0xC0 + c div 64), word_of_nat (0x80 + c mod 64)]
      else if c < 0x10000 then
        [word_of_nat (0xE0 + c div 4096), word_of_nat (0x80 + c div 64 mod 64),
         word_of_nat (0x80 + c mod 64)]
      else
        [word_of_nat (0xF0 + c div 262144), word_of_nat (0x80 + c div 4096 mod 64),
         word_of_nat (0x80 + c div 64 mod 64), word_of_nat (0x80 + c mod 64)])"

definition utf8_encode :: "str \<Rightarrow> bytes" where
  "utf8_encode s = concat (map utf8_char s)"

definition str_len :: "str \<Rightarrow> nat" where
  "str_len s = length (utf8_encode s)"

text \<open>One step of decoding: a scalar value and its width, or the width of an invalid part.\<close>

datatype utf8_step = Good nat nat | Bad nat

definition cont :: "nat \<Rightarrow> bool" where
  "cont b \<longleftrightarrow> 0x80 \<le> b \<and> b \<le> 0xBF"

definition second_ok :: "nat \<Rightarrow> nat \<Rightarrow> bool" where
  "second_ok a b \<longleftrightarrow>
     (if a = 0xE0 then 0xA0 \<le> b \<and> b \<le> 0xBF
      else if a = 0xED then 0x80 \<le> b \<and> b \<le> 0x9F
      else if a = 0xF0 then 0x90 \<le> b \<and> b \<le> 0xBF
      else if a = 0xF4 then 0x80 \<le> b \<and> b \<le> 0x8F
      else cont b)"

definition byte_or_0 :: "nat list \<Rightarrow> nat \<Rightarrow> nat" where
  "byte_or_0 bs i = (if i < length bs then bs ! i else 0)"

definition decode_step :: "nat list \<Rightarrow> utf8_step" where
  "decode_step bs =
     (let a = byte_or_0 bs 0; b = byte_or_0 bs 1; c = byte_or_0 bs 2; d = byte_or_0 bs 3 in
      if a < 0x80 then Good a 1
      else if 0xC2 \<le> a \<and> a \<le> 0xDF then
        (if cont b then Good ((a - 0xC0) * 64 + (b - 0x80)) 2 else Bad 1)
      else if 0xE0 \<le> a \<and> a \<le> 0xEF then
        (if \<not> second_ok a b then Bad 1 else if \<not> cont c then Bad 2
         else Good ((a - 0xE0) * 4096 + (b - 0x80) * 64 + (c - 0x80)) 3)
      else if 0xF0 \<le> a \<and> a \<le> 0xF4 then
        (if \<not> second_ok a b then Bad 1 else if \<not> cont c then Bad 2 else if \<not> cont d then Bad 3
         else Good ((a - 0xF0) * 262144 + (b - 0x80) * 4096 + (c - 0x80) * 64 + (d - 0x80)) 4)
      else Bad 1)"

definition replacement :: nat where
  "replacement = 0xFFFD"

function lossy :: "nat list \<Rightarrow> str" where
  "lossy bs =
     (if bs = [] then []
      else case decode_step bs of
             Good c n \<Rightarrow> c # lossy (drop (max 1 n) bs)
           | Bad n \<Rightarrow> replacement # lossy (drop (max 1 n) bs))"
  by pat_completeness auto
termination
  by (relation "measure length") auto

function strict :: "nat list \<Rightarrow> str option" where
  "strict bs =
     (if bs = [] then Some []
      else case decode_step bs of
             Good c n \<Rightarrow> map_option (\<lambda>s. c # s) (strict (drop (max 1 n) bs))
           | Bad n \<Rightarrow> None)"
  by pat_completeness auto
termination
  by (relation "measure length") auto

declare lossy.simps [simp del] strict.simps [simp del]

definition from_utf8_lossy :: "bytes \<Rightarrow> str" where
  "from_utf8_lossy bs = lossy (map unat bs)"

definition from_utf8 :: "bytes \<Rightarrow> str option" where
  "from_utf8 bs = strict (map unat bs)"

subsection \<open>Characters\<close>

definition is_whitespace :: "nat \<Rightarrow> bool" where
  "is_whitespace c \<longleftrightarrow>
     (0x9 \<le> c \<and> c \<le> 0xD) \<or> c = 0x20 \<or> c = 0x85 \<or> c = 0xA0 \<or> c = 0x1680
     \<or> (0x2000 \<le> c \<and> c \<le> 0x200A) \<or> c = 0x2028 \<or> c = 0x2029 \<or> c = 0x202F \<or> c = 0x205F \<or> c = 0x3000"

definition is_upper :: "nat \<Rightarrow> bool" where
  "is_upper c \<longleftrightarrow> 65 \<le> c \<and> c \<le> 90"

definition is_lower :: "nat \<Rightarrow> bool" where
  "is_lower c \<longleftrightarrow> 97 \<le> c \<and> c \<le> 122"

definition is_digit :: "nat \<Rightarrow> bool" where
  "is_digit c \<longleftrightarrow> 48 \<le> c \<and> c \<le> 57"

definition is_alnum :: "nat \<Rightarrow> bool" where
  "is_alnum c \<longleftrightarrow> is_upper c \<or> is_lower c \<or> is_digit c"

definition ascii_lower :: "nat \<Rightarrow> nat" where
  "ascii_lower c = (if is_upper c then c + 32 else c)"

definition eq_ignore_ascii_case :: "str \<Rightarrow> str \<Rightarrow> bool" where
  "eq_ignore_ascii_case a b \<longleftrightarrow> map ascii_lower a = map ascii_lower b"

text \<open>
  \<open>to_lowercase\<close>: a character is mapped by the tables, except that a capital sigma is a final
  sigma after a cased letter and before none, case-ignorable characters being skipped.
\<close>

record unicode =
  uc_lower :: "nat \<Rightarrow> str"
  uc_cased :: "nat \<Rightarrow> bool"
  uc_ignorable :: "nat \<Rightarrow> bool"

definition cased_next :: "unicode \<Rightarrow> str \<Rightarrow> bool" where
  "cased_next U s = (case dropWhile (uc_ignorable U) s of [] \<Rightarrow> False | c # _ \<Rightarrow> uc_cased U c)"

fun lower_from :: "unicode \<Rightarrow> str \<Rightarrow> str \<Rightarrow> str" where
  "lower_from U seen [] = []"
| "lower_from U seen (c # s) =
     (if c = 0x3A3 then (if cased_next U seen \<and> \<not> cased_next U s then [0x3C2] else [0x3C3])
      else if c < 0x80 then [ascii_lower c] else uc_lower U c) @ lower_from U (c # seen) s"

definition to_lowercase :: "unicode \<Rightarrow> str \<Rightarrow> str" where
  "to_lowercase U s = lower_from U [] s"

subsection \<open>Trimming, splitting, searching\<close>

definition trim_start :: "str \<Rightarrow> str" where
  "trim_start s = dropWhile is_whitespace s"

definition trim_end :: "str \<Rightarrow> str" where
  "trim_end s = rev (dropWhile is_whitespace (rev s))"

definition trim :: "str \<Rightarrow> str" where
  "trim s = trim_end (trim_start s)"

definition trim_start_matches :: "nat \<Rightarrow> str \<Rightarrow> str" where
  "trim_start_matches c s = dropWhile (\<lambda>x. x = c) s"

definition trim_end_matches :: "nat \<Rightarrow> str \<Rightarrow> str" where
  "trim_end_matches c s = rev (dropWhile (\<lambda>x. x = c) (rev s))"

fun split_on :: "('a \<Rightarrow> bool) \<Rightarrow> 'a list \<Rightarrow> 'a list list" where
  "split_on p [] = [[]]"
| "split_on p (x # xs) =
     (if p x then [] # split_on p xs
      else case split_on p xs of [] \<Rightarrow> [[x]] | w # ws \<Rightarrow> (x # w) # ws)"

fun split_once :: "'a \<Rightarrow> 'a list \<Rightarrow> ('a list \<times> 'a list) option" where
  "split_once c [] = None"
| "split_once c (x # xs) =
     (if x = c then Some ([], xs)
      else map_option (\<lambda>(a, b). (x # a, b)) (split_once c xs))"

definition rsplit_once :: "'a \<Rightarrow> 'a list \<Rightarrow> ('a list \<times> 'a list) option" where
  "rsplit_once c xs = map_option (\<lambda>(a, b). (rev b, rev a)) (split_once c (rev xs))"

definition split_whitespace :: "str \<Rightarrow> str list" where
  "split_whitespace s = filter (\<lambda>w. w \<noteq> []) (split_on is_whitespace s)"

definition starts_with :: "'a list \<Rightarrow> 'a list \<Rightarrow> bool" where
  "starts_with s p \<longleftrightarrow> take (length p) s = p"

definition ends_with :: "'a list \<Rightarrow> 'a list \<Rightarrow> bool" where
  "ends_with s p \<longleftrightarrow> length p \<le> length s \<and> drop (length s - length p) s = p"

definition strip_prefix :: "'a list \<Rightarrow> 'a list \<Rightarrow> 'a list option" where
  "strip_prefix p s = (if starts_with s p then Some (drop (length p) s) else None)"

fun find_sub :: "'a list \<Rightarrow> 'a list \<Rightarrow> nat option" where
  "find_sub p [] = (if p = [] then Some 0 else None)"
| "find_sub p (x # xs) =
     (if starts_with (x # xs) p then Some 0 else map_option Suc (find_sub p xs))"

definition contains_str :: "'a list \<Rightarrow> 'a list \<Rightarrow> bool" where
  "contains_str s p \<longleftrightarrow> find_sub p s \<noteq> None"

text \<open>\<open>str::split\<close> with a two-character separator, as \<open>split("\r\n")\<close>.\<close>

fun split_two :: "'a \<Rightarrow> 'a \<Rightarrow> 'a list \<Rightarrow> 'a list list" where
  "split_two a b (x # y # s) =
     (if x = a \<and> y = b then [] # split_two a b s
      else case split_two a b (y # s) of [] \<Rightarrow> [[x]] | w # ws \<Rightarrow> (x # w) # ws)"
| "split_two a b s = [s]"

text \<open>\<open>str::lines\<close>: lines end in \<open>\n\<close> or \<open>\r\n\<close>; a final line ending starts no further line.\<close>

definition strip_cr :: "str \<Rightarrow> str" where
  "strip_cr l = (if l \<noteq> [] \<and> last l = 13 then butlast l else l)"

fun lines_of :: "str list \<Rightarrow> str list" where
  "lines_of [] = []"
| "lines_of [l] = (if l = [] then [] else [l])"
| "lines_of (l # ls) = strip_cr l # lines_of ls"

definition lines :: "str \<Rightarrow> str list" where
  "lines s = lines_of (split_on (\<lambda>c. c = 10) s)"

text \<open>
  Slicing a string by byte offsets, on its UTF-8 bytes: it panics unless both offsets are in range, in
  order and at the start of a character.
\<close>

definition char_boundary :: "bytes \<Rightarrow> nat \<Rightarrow> bool" where
  "char_boundary bs i \<longleftrightarrow> i = length bs \<or> i < length bs \<and> \<not> cont (unat (bs ! i))"

definition str_slice :: "bytes \<Rightarrow> nat \<Rightarrow> nat \<Rightarrow> (bytes \<Rightarrow> 'b outcome) \<Rightarrow> 'b outcome" where
  "str_slice bs a b k =
     (if a \<le> b \<and> char_boundary bs a \<and> char_boundary bs b then k (take (b - a) (drop a bs)) else Panic)"

lemma str_slice_cong [fundef_cong]:
  "bs = bs' \<Longrightarrow> a = a' \<Longrightarrow> b = b' \<Longrightarrow>
   (a' \<le> b' \<Longrightarrow> b' \<le> length bs' \<Longrightarrow> k (take (b' - a') (drop a' bs')) = k' (take (b' - a') (drop a' bs'))) \<Longrightarrow>
   str_slice bs a b k = str_slice bs' a' b' k'"
  by (auto simp: str_slice_def char_boundary_def)

subsection \<open>Decimal numbers\<close>

definition digits_value :: "str \<Rightarrow> nat" where
  "digits_value s = foldl (\<lambda>acc c. acc * 10 + (c - 48)) 0 s"

text \<open>\<open>str::parse\<close> for an unsigned integer of \<open>w\<close> bits: an optional \<open>+\<close>, then at least one digit.\<close>

definition parse_uint :: "nat \<Rightarrow> str \<Rightarrow> nat option" where
  "parse_uint w s =
     (let ds = (case s of [] \<Rightarrow> [] | c # cs \<Rightarrow> if c = 43 then cs else s) in
      if ds \<noteq> [] \<and> list_all is_digit ds \<and> digits_value ds < 2 ^ w then Some (digits_value ds)
      else None)"

fun show_nat :: "nat \<Rightarrow> str" where
  "show_nat n = (if n < 10 then [n + 48] else show_nat (n div 10) @ [n mod 10 + 48])"

declare show_nat.simps [simp del]

subsection \<open>Facts\<close>

named_theorems chr_defs \<open>character classes\<close>

lemmas [chr_defs] = is_whitespace_def is_upper_def is_lower_def is_digit_def is_alnum_def
  ascii_lower_def

lemma show_nat_ne [simp]: "show_nat n \<noteq> []"
  by (subst show_nat.simps) simp

lemma digits_value_snoc [simp]: "digits_value (s @ [c]) = digits_value s * 10 + (c - 48)"
  by (simp add: digits_value_def)

lemma show_nat_digits: "list_all is_digit (show_nat n) \<and> digits_value (show_nat n) = n"
proof (induction n rule: show_nat.induct)
  case (1 n)
  show ?case
  proof (cases "n < 10")
    case True
    then show ?thesis
      by (simp add: show_nat.simps [of n] is_digit_def digits_value_def)
  next
    case False
    have "n mod 10 < 10" by simp
    then show ?thesis
      using "1.IH" [OF False] False
      by (simp add: show_nat.simps [of n] is_digit_def)
  qed
qed

lemma parse_uint_show: "n < 2 ^ w \<Longrightarrow> parse_uint w (show_nat n) = Some n"
proof -
  assume n: "n < 2 ^ w"
  have d: "list_all is_digit (show_nat n)" "digits_value (show_nat n) = n"
    using show_nat_digits by auto
  obtain c cs where s: "show_nat n = c # cs" by (cases "show_nat n") auto
  with d have "c \<noteq> 43" by (simp add: is_digit_def)
  with n d s show ?thesis by (simp add: parse_uint_def)
qed

lemma parse_uint_less: "parse_uint w s = Some n \<Longrightarrow> n < 2 ^ w"
  by (auto simp: parse_uint_def Let_def split: list.splits if_splits)

lemma to_lowercase_ascii:
  assumes "list_all (\<lambda>c. c < 128) s"
  shows "to_lowercase U s = map ascii_lower s"
proof -
  have "lower_from U seen s = map ascii_lower s" for seen
    using assms by (induction s arbitrary: seen) auto
  then show ?thesis by (simp add: to_lowercase_def)
qed

lemma ascii_lower_idem [simp]: "ascii_lower (ascii_lower c) = ascii_lower c"
  by (simp add: chr_defs)

lemma ascii_lower_alnum: "is_alnum c \<Longrightarrow> is_alnum (ascii_lower c) \<and> \<not> is_upper (ascii_lower c)"
  by (auto simp: chr_defs)

lemma decode_step_ascii: "a < 128 \<Longrightarrow> decode_step (a # bs) = Good a 1"
  by (simp add: decode_step_def byte_or_0_def)

lemma utf8_Nil [simp]: "strict [] = Some []" "lossy [] = []"
  by (simp_all add: strict.simps lossy.simps)

lemma utf8_ascii_Cons:
  "a < 128 \<Longrightarrow> strict (a # bs) = map_option (\<lambda>s. a # s) (strict bs)"
  "a < 128 \<Longrightarrow> lossy (a # bs) = a # lossy bs"
  by (simp_all add: strict.simps [of "a # bs"] lossy.simps [of "a # bs"] decode_step_ascii)

lemma strict_ascii: "list_all (\<lambda>c. c < 128) bs \<Longrightarrow> strict bs = Some bs"
  by (induction bs) (simp_all add: utf8_ascii_Cons)

lemma lossy_ascii: "list_all (\<lambda>c. c < 128) bs \<Longrightarrow> lossy bs = bs"
  by (induction bs) (simp_all add: utf8_ascii_Cons)

lemma utf8_encode_ascii:
  "list_all (\<lambda>c. c < 128) s \<Longrightarrow> utf8_encode s = map word_of_nat s"
  by (induction s) (simp_all add: utf8_encode_def utf8_char_def)

lemma map_unat_of_nat: "list_all (\<lambda>c. c < 128) s \<Longrightarrow> map (\<lambda>c. unat (word_of_nat c :: u8)) s = s"
  by (induction s) (simp_all add: unat_of_nat)

lemma from_utf8_encode_ascii:
  "list_all (\<lambda>c. c < 128) s \<Longrightarrow> from_utf8 (utf8_encode s) = Some s"
  by (simp add: from_utf8_def utf8_encode_ascii strict_ascii map_unat_of_nat comp_def)

lemma from_utf8_lossy_encode_ascii:
  "list_all (\<lambda>c. c < 128) s \<Longrightarrow> from_utf8_lossy (utf8_encode s) = s"
  by (simp add: from_utf8_lossy_def utf8_encode_ascii lossy_ascii map_unat_of_nat comp_def)

lemma str_len_ascii: "list_all (\<lambda>c. c < 128) s \<Longrightarrow> str_len s = length s"
  by (simp add: str_len_def utf8_encode_ascii)

lemma utf8_encode_append [simp]: "utf8_encode (a @ b) = utf8_encode a @ utf8_encode b"
  by (simp add: utf8_encode_def)

lemma utf8_encode_Nil [simp]: "utf8_encode [] = []"
  by (simp add: utf8_encode_def)

lemma utf8_encode_ne [simp]: "utf8_encode s = [] \<longleftrightarrow> s = []"
  by (cases s) (auto simp: utf8_encode_def utf8_char_def split: if_splits)

text \<open>Unicode scalar values: decoding undoes encoding.\<close>

definition scalar :: "nat \<Rightarrow> bool" where
  "scalar c \<longleftrightarrow> c < 0x110000 \<and> \<not> (0xD800 \<le> c \<and> c < 0xE000)"

lemma unat_small: "n < 256 \<Longrightarrow> unat (word_of_nat n :: u8) = n"
  by (simp add: unat_of_nat)

lemma utf8_width: "length (utf8_char c) = (if c < 0x80 then 1 else if c < 0x800 then 2 else if c < 0x10000 then 3 else 4)"
  by (simp add: utf8_char_def)

lemma unat_utf8_char:
  assumes "c < 0x110000"
  shows "map unat (utf8_char c) =
     (if c < 0x80 then [c]
      else if c < 0x800 then [0xC0 + c div 64, 0x80 + c mod 64]
      else if c < 0x10000 then [0xE0 + c div 4096, 0x80 + c div 64 mod 64, 0x80 + c mod 64]
      else [0xF0 + c div 262144, 0x80 + c div 4096 mod 64, 0x80 + c div 64 mod 64, 0x80 + c mod 64])"
proof -
  have "c div 64 < 32" if "c < 0x800" using that by auto
  moreover have "c div 4096 < 16" if "c < 0x10000" using that by auto
  moreover have "c div 262144 < 5" using assms by auto
  moreover have "x mod 64 < 64" for x :: nat by simp
  ultimately show ?thesis
    by (auto simp: utf8_char_def unat_small simp del: of_nat_add)
qed

lemma decode_step_utf8:
  assumes "scalar c"
  shows "decode_step (map unat (utf8_char c) @ rest) = Good c (length (utf8_char c))"
proof -
  have c: "c < 0x110000" using assms by (simp add: scalar_def)
  note enc = unat_utf8_char [OF c] decode_step_def byte_or_0_def cont_def second_ok_def
  have q: "c div 64 div 64 = c div 4096" "c div 4096 div 64 = c div 262144" by (simp_all add: div_mult2_eq [symmetric])
  have r: "c mod 64 < 64" "c div 64 mod 64 < 64" "c div 4096 mod 64 < 64"
    "c = c div 64 * 64 + c mod 64" "c div 64 = c div 4096 * 64 + c div 64 mod 64" "c div 4096 = c div 262144 * 64 + c div 4096 mod 64"
    using div_mult_mod_eq [of "c div 4096" 64] div_mult_mod_eq [of "c div 64" 64] div_mult_mod_eq [of c 64] q by simp_all
  consider "c < 0x80" | "0x80 \<le> c" "c < 0x800" | "0x800 \<le> c" "c < 0x10000" | "0x10000 \<le> c" by linarith
  then show ?thesis
  proof cases
    case 1
    then show ?thesis by (simp add: utf8_char_def decode_step_ascii unat_small)
  next
    case 2
    then have "2 \<le> c div 64" "c div 64 < 32" by auto
    with 2 show ?thesis by (simp add: enc utf8_width Let_def)
  next
    case 3
    have "c div 4096 * 4096 + c div 64 mod 64 * 64 + c mod 64 = c"
      using r by linarith
    moreover have "c div 4096 < 16" "c div 4096 = 0 \<Longrightarrow> 32 \<le> c div 64 mod 64"
      "c div 4096 = 13 \<Longrightarrow> c div 64 mod 64 \<le> 31" "c mod 64 \<le> 63" "c div 64 mod 64 \<le> 63" "c div 4096 = 0 \<Longrightarrow> c div 64 \<le> 63"
      using 3 assms r unfolding scalar_def by linarith+
    ultimately show ?thesis using 3 by (simp add: enc utf8_width Let_def)
  next
    case 4
    have "c div 262144 * 262144 + c div 4096 mod 64 * 4096 + c div 64 mod 64 * 64 + c mod 64 = c"
      using r by linarith
    moreover have "c div 262144 < 5" "c div 262144 = 0 \<Longrightarrow> 16 \<le> c div 4096 mod 64"
      "c div 262144 = 4 \<Longrightarrow> c div 4096 mod 64 \<le> 15" "c mod 64 \<le> 63" "c div 64 mod 64 \<le> 63" "c div 4096 mod 64 \<le> 63" "c div 262144 = 0 \<Longrightarrow> c div 4096 \<le> 63"
      using 4 c r by linarith+
    ultimately show ?thesis using 4 by (simp add: enc utf8_width Let_def)
  qed
qed

lemma utf8_scalar_Cons:
  assumes "scalar c"
  shows "strict (map unat (utf8_char c) @ bs) = map_option (\<lambda>s. c # s) (strict bs)"
    "lossy (map unat (utf8_char c) @ bs) = c # lossy bs"
proof -
  have "utf8_char c \<noteq> []" "drop (max 1 (length (utf8_char c))) (map unat (utf8_char c) @ bs) = bs"
    using utf8_width [of c] by (auto simp: max_def split: if_splits)
  then show "strict (map unat (utf8_char c) @ bs) = map_option (\<lambda>s. c # s) (strict bs)"
    "lossy (map unat (utf8_char c) @ bs) = c # lossy bs"
    by (subst strict.simps lossy.simps, simp add: decode_step_utf8 [OF assms])+
qed

lemma utf8_roundtrip:
  assumes "list_all scalar s"
  shows "from_utf8 (utf8_encode s) = Some s" "from_utf8_lossy (utf8_encode s) = s"
  using assms by (induction s)
    (simp_all add: from_utf8_def from_utf8_lossy_def utf8_encode_def utf8_scalar_Cons)

lemma split_on_ne [simp]: "split_on p s \<noteq> []"
  by (induction s) (auto split: list.splits)

lemma split_on_none: "list_all (\<lambda>x. \<not> p x) s \<Longrightarrow> split_on p s = [s]"
  by (induction s) simp_all

lemma split_on_append:
  assumes "list_all (\<lambda>x. \<not> p x) a" "p c"
  shows "split_on p (a @ c # b) = a # split_on p b"
  using assms by (induction a) simp_all

lemma split_on_parts: "w \<in> set (split_on p s) \<Longrightarrow> list_all (\<lambda>x. \<not> p x) w \<and> set w \<subseteq> set s"
proof (induction s arbitrary: w)
  case Nil
  then show ?case by simp
next
  case (Cons x s)
  show ?case
  proof (cases "p x")
    case True
    with Cons show ?thesis by fastforce
  next
    case False
    obtain v vs where v: "split_on p s = v # vs" by (cases "split_on p s") auto
    with Cons.IH [of v] have "list_all (\<lambda>x. \<not> p x) v \<and> set v \<subseteq> set s" by simp
    with Cons False v show ?thesis by fastforce
  qed
qed

lemma split_once_Some:
  "split_once c s = Some (a, b) \<longleftrightarrow> s = a @ c # b \<and> c \<notin> set a"
proof (induction s arbitrary: a)
  case Nil
  then show ?case by simp
next
  case (Cons x s)
  show ?case
  proof (cases a)
    case Nil
    then show ?thesis by (auto split: prod.splits)
  next
    case (Cons y a')
    then show ?thesis using Cons.IH [of a'] by (auto split: prod.splits)
  qed
qed

lemma split_once_None: "split_once c s = None \<longleftrightarrow> c \<notin> set s"
  by (induction s) auto

lemma rsplit_once_Some:
  "rsplit_once c s = Some (a, b) \<longleftrightarrow> s = a @ c # b \<and> c \<notin> set b"
proof -
  have flip: "rsplit_once c s = Some (a, b) \<longleftrightarrow> split_once c (rev s) = Some (rev b, rev a)"
  proof (cases "split_once c (rev s)")
    case (Some p)
    then show ?thesis by (cases p) (auto simp: rsplit_once_def)
  qed (simp add: rsplit_once_def)
  have "rev s = rev b @ c # rev a \<longleftrightarrow> rev s = rev (a @ c # b)" by simp
  then have "rev s = rev b @ c # rev a \<longleftrightarrow> s = a @ c # b"
    by (simp only: rev_is_rev_conv)
  then show ?thesis by (simp only: flip split_once_Some set_rev)
qed

lemma rsplit_once_None: "rsplit_once c s = None \<longleftrightarrow> c \<notin> set s"
  by (simp add: rsplit_once_def split_once_None)

lemma dropWhile_none: "list_all (\<lambda>x. \<not> p x) s \<Longrightarrow> dropWhile p s = s"
  by (cases s) simp_all

lemma trim_none: "list_all (\<lambda>c. \<not> is_whitespace c) s \<Longrightarrow> trim s = s"
  by (simp add: trim_def trim_start_def trim_end_def dropWhile_none list_all_rev)

lemma set_trim: "set (trim s) \<subseteq> set s"
proof -
  have "set (trim s) \<subseteq> set (trim_start s)"
    by (auto simp: trim_def trim_end_def dest: set_dropWhileD)
  also have "\<dots> \<subseteq> set s"
    by (auto simp: trim_start_def dest: set_dropWhileD)
  finally show ?thesis .
qed

lemma set_trim_end_matches: "set (trim_end_matches c s) \<subseteq> set s"
  by (auto simp: trim_end_matches_def dest: set_dropWhileD)

lemma trim_end_matches_last: "s \<noteq> [] \<Longrightarrow> last s \<noteq> c \<Longrightarrow> trim_end_matches c s = s"
  by (cases s rule: rev_cases) (simp_all add: trim_end_matches_def)

text \<open>Tables without any letters beyond ASCII, for concrete evaluations.\<close>

definition tiny_unicode :: unicode where
  "tiny_unicode = \<lparr>uc_lower = (\<lambda>c. [c]), uc_cased = is_alnum, uc_ignorable = (\<lambda>_. False)\<rparr>"

end
