(* ===== verification/Rust_Net.thy ===== *)
theory Rust_Net
  imports Rust_Str
begin

text \<open>
  The address types of \<open>std::net\<close>: IPv4 and IPv6 addresses are words, read as octets or segments
  in network order; a socket address carries the flow information and scope of the IPv6 form. The
  parsers and printers are those of the standard library, written as functions from the remaining
  input to a value and what is left of it.
\<close>

unbundle bit_operations_syntax

type_synonym ipv4 = u32
type_synonym ipv6 = "128 word"

datatype ip_addr = V4 ipv4 | V6 ipv6

record sock_addr =
  sa_ip :: ip_addr
  sa_port :: u16
  sa_v6_extra :: "u32 \<times> u32"

definition sock_addr_new :: "ip_addr \<Rightarrow> u16 \<Rightarrow> sock_addr" where
  "sock_addr_new ip port = \<lparr>sa_ip = ip, sa_port = port, sa_v6_extra = (0, 0)\<rparr>"

definition octets4 :: "ipv4 \<Rightarrow> bytes" where
  "octets4 a = be_enc 4 (unat a)"

definition octets6 :: "ipv6 \<Rightarrow> bytes" where
  "octets6 a = be_enc 16 (unat a)"

definition ipv4_from :: "bytes \<Rightarrow> ipv4" where
  "ipv4_from bs = word_of_nat (be_dec bs)"

definition ipv6_from :: "bytes \<Rightarrow> ipv6" where
  "ipv6_from bs = word_of_nat (be_dec bs)"

definition segments :: "ipv6 \<Rightarrow> u16 list" where
  "segments a = map (\<lambda>i. ucast (drop_bit (112 - 16 * i) a)) [0..<8]"

definition ipv6_of_segments :: "nat list \<Rightarrow> ipv6" where
  "ipv6_of_segments gs = word_of_nat (foldl (\<lambda>acc g. acc * 65536 + g) 0 gs)"

definition ip_octets :: "ip_addr \<Rightarrow> bytes" where
  "ip_octets ip = (case ip of V4 a \<Rightarrow> octets4 a | V6 a \<Rightarrow> octets6 a)"

text \<open>The predicates of the standard library that the program uses.\<close>

definition is_loopback :: "ip_addr \<Rightarrow> bool" where
  "is_loopback ip = (case ip of V4 a \<Rightarrow> octets4 a ! 0 = 127 | V6 a \<Rightarrow> a = 1)"

definition is_unspecified :: "ip_addr \<Rightarrow> bool" where
  "is_unspecified ip = (case ip of V4 a \<Rightarrow> a = 0 | V6 a \<Rightarrow> a = 0)"

definition v4_is_private :: "ipv4 \<Rightarrow> bool" where
  "v4_is_private a =
     (let o0 = octets4 a ! 0; o1 = octets4 a ! 1 in
      o0 = 10 \<or> (o0 = 172 \<and> 16 \<le> o1 \<and> o1 \<le> 31) \<or> (o0 = 192 \<and> o1 = 168))"

definition v4_is_link_local :: "ipv4 \<Rightarrow> bool" where
  "v4_is_link_local a = (octets4 a ! 0 = 169 \<and> octets4 a ! 1 = 254)"

definition v4_is_broadcast :: "ipv4 \<Rightarrow> bool" where
  "v4_is_broadcast a = (a = 0xffffffff)"

definition v4_is_documentation :: "ipv4 \<Rightarrow> bool" where
  "v4_is_documentation a =
     (take 3 (octets4 a) \<in> {[192, 0, 2], [198, 51, 100], [203, 0, 113]})"

definition to_ipv4_mapped :: "ipv6 \<Rightarrow> ipv4 option" where
  "to_ipv4_mapped a =
     (let bs = octets6 a in
      if take 12 bs = replicate 10 0 @ [0xff, 0xff] then Some (ipv4_from (drop 12 bs)) else None)"

subsection \<open>Parsing\<close>

definition read_char :: "nat \<Rightarrow> str \<Rightarrow> str option" where
  "read_char c s = (case s of [] \<Rightarrow> None | x # xs \<Rightarrow> if x = c then Some xs else None)"

definition digit_value :: "nat \<Rightarrow> nat \<Rightarrow> nat option" where
  "digit_value radix c =
     (let d = (if is_digit c then Some (c - 48)
               else if is_lower c then Some (c - 87)
               else if is_upper c then Some (c - 55) else None)
      in case d of None \<Rightarrow> None | Some v \<Rightarrow> if v < radix then Some v else None)"

text \<open>\<open>from_str_radix(_, 16)\<close> for an unsigned integer of \<open>w\<close> bits: an optional plus sign, then at least one digit.\<close>

definition parse_hex :: "nat \<Rightarrow> str \<Rightarrow> nat option" where
  "parse_hex w s =
     (let ds = (case s of [] \<Rightarrow> [] | c # cs \<Rightarrow> if c = 43 then cs else s); vs = map (digit_value 16) ds in
      if ds \<noteq> [] \<and> list_all (\<lambda>v. v \<noteq> None) vs
      then let n = foldl (\<lambda>acc v. acc * 16 + the v) 0 vs in if n < 2 ^ w then Some n else None
      else None)"

text \<open>The digits at the front of the input, with their number and value; \<open>None\<close> when the value or the digit count is too large.\<close>

fun read_digits :: "nat \<Rightarrow> nat option \<Rightarrow> nat \<Rightarrow> nat \<Rightarrow> nat \<Rightarrow> str \<Rightarrow> (nat \<times> nat \<times> str) option" where
  "read_digits radix maxd bound n acc [] = Some (n, acc, [])"
| "read_digits radix maxd bound n acc (c # s) =
     (case digit_value radix c of
        None \<Rightarrow> Some (n, acc, c # s)
      | Some d \<Rightarrow>
          if bound \<le> acc * radix + d then None
          else if (case maxd of None \<Rightarrow> False | Some m \<Rightarrow> m < Suc n) then None
          else read_digits radix maxd bound (Suc n) (acc * radix + d) s)"

definition read_number :: "nat \<Rightarrow> nat option \<Rightarrow> bool \<Rightarrow> nat \<Rightarrow> str \<Rightarrow> (nat \<times> str) option" where
  "read_number radix maxd zero_prefix bound s =
     (case read_digits radix maxd bound 0 0 s of
        None \<Rightarrow> None
      | Some (n, v, rest) \<Rightarrow>
          if n = 0 then None
          else if \<not> zero_prefix \<and> take 1 s = [48] \<and> 1 < n then None
          else Some (v, rest))"

definition read_separated :: "nat \<Rightarrow> nat \<Rightarrow> (str \<Rightarrow> ('a \<times> str) option) \<Rightarrow> str \<Rightarrow> ('a \<times> str) option" where
  "read_separated sep i inner s =
     (if 0 < i then Option.bind (read_char sep s) inner else inner s)"

definition read_octet :: "str \<Rightarrow> (nat \<times> str) option" where
  "read_octet s = read_number 10 (Some 3) False 256 s"

definition read_ipv4 :: "str \<Rightarrow> (ipv4 \<times> str) option" where
  "read_ipv4 s = do {
     (a, s) \<leftarrow> read_separated 46 0 read_octet s;
     (b, s) \<leftarrow> read_separated 46 1 read_octet s;
     (c, s) \<leftarrow> read_separated 46 2 read_octet s;
     (d, s) \<leftarrow> read_separated 46 3 read_octet s;
     Some (word_of_nat (((a * 256 + b) * 256 + c) * 256 + d), s)
   }"

text \<open>Up to \<open>left\<close> groups, the last two possibly an embedded IPv4 address.\<close>

fun read_groups :: "nat \<Rightarrow> nat \<Rightarrow> nat list \<Rightarrow> str \<Rightarrow> nat list \<times> bool \<times> str" where
  "read_groups 0 i gs s = (gs, False, s)"
| "read_groups (Suc left) i gs s =
     (case (if 0 < left then read_separated 58 i read_ipv4 s else None) of
        Some (v4, s') \<Rightarrow> (gs @ [unat v4 div 65536, unat v4 mod 65536], True, s')
      | None \<Rightarrow>
          (case read_separated 58 i (read_number 16 (Some 4) True 65536) s of
             None \<Rightarrow> (gs, False, s)
           | Some (g, s') \<Rightarrow> read_groups left (Suc i) (gs @ [g]) s'))"

definition read_ipv6 :: "str \<Rightarrow> (ipv6 \<times> str) option" where
  "read_ipv6 s =
     (let (hd_gs, hd_v4, s1) = read_groups 8 0 [] s in
      if length hd_gs = 8 then Some (ipv6_of_segments hd_gs, s1)
      else if hd_v4 then None
      else do {
        s2 \<leftarrow> read_char 58 s1;
        s3 \<leftarrow> read_char 58 s2;
        let (tl_gs, _, s4) = read_groups (8 - (length hd_gs + 1)) 0 [] s3;
        Some (ipv6_of_segments
                (hd_gs @ replicate (8 - length hd_gs - length tl_gs) 0 @ tl_gs), s4)
      })"

definition read_ip :: "str \<Rightarrow> (ip_addr \<times> str) option" where
  "read_ip s =
     (case read_ipv4 s of
        Some (a, r) \<Rightarrow> Some (V4 a, r)
      | None \<Rightarrow> map_option (\<lambda>(a, r). (V6 a, r)) (read_ipv6 s))"

definition whole :: "(str \<Rightarrow> ('a \<times> str) option) \<Rightarrow> str \<Rightarrow> 'a option" where
  "whole p s = (case p s of Some (v, []) \<Rightarrow> Some v | _ \<Rightarrow> None)"

definition parse_ip :: "str \<Rightarrow> ip_addr option" where
  "parse_ip s = whole read_ip s"

definition parse_ipv4 :: "str \<Rightarrow> ipv4 option" where
  "parse_ipv4 s = whole read_ipv4 s"

definition parse_ipv6 :: "str \<Rightarrow> ipv6 option" where
  "parse_ipv6 s = whole read_ipv6 s"

definition read_port :: "str \<Rightarrow> (u16 \<times> str) option" where
  "read_port s = do {
     s \<leftarrow> read_char 58 s;
     (p, s) \<leftarrow> read_number 10 None True 65536 s;
     Some (word_of_nat p, s)
   }"

definition read_scope :: "str \<Rightarrow> (u32 \<times> str) option" where
  "read_scope s = do {
     s \<leftarrow> read_char 37 s;
     (v, s) \<leftarrow> read_number 10 None True (2 ^ 32) s;
     Some (word_of_nat v, s)
   }"

definition read_sock_addr :: "str \<Rightarrow> (sock_addr \<times> str) option" where
  "read_sock_addr s =
     (case do { (a, s) \<leftarrow> read_ipv4 s; (p, s) \<leftarrow> read_port s; Some (sock_addr_new (V4 a) p, s) } of
        Some r \<Rightarrow> Some r
      | None \<Rightarrow> do {
          s \<leftarrow> read_char 91 s;
          (a, s) \<leftarrow> read_ipv6 s;
          let (scope, s) = (case read_scope s of Some (v, s') \<Rightarrow> (v, s') | None \<Rightarrow> (0, s));
          s \<leftarrow> read_char 93 s;
          (p, s) \<leftarrow> read_port s;
          Some (\<lparr>sa_ip = V6 a, sa_port = p, sa_v6_extra = (0, scope)\<rparr>, s)
        })"

definition parse_sock_addr :: "str \<Rightarrow> sock_addr option" where
  "parse_sock_addr s = whole read_sock_addr s"

subsection \<open>Printing\<close>

definition show_ipv4 :: "ipv4 \<Rightarrow> str" where
  "show_ipv4 a =
     (let o4 = octets4 a in
      show_nat (unat (o4 ! 0)) @ [46] @ show_nat (unat (o4 ! 1)) @ [46]
      @ show_nat (unat (o4 ! 2)) @ [46] @ show_nat (unat (o4 ! 3)))"

definition hex_digit :: "nat \<Rightarrow> nat" where
  "hex_digit d = (if d < 10 then d + 48 else d + 87)"

fun show_hex :: "nat \<Rightarrow> str" where
  "show_hex n = (if n < 16 then [hex_digit n] else show_hex (n div 16) @ [hex_digit (n mod 16)])"

declare show_hex.simps [simp del]

text \<open>The first longest run of zero segments: its start and length.\<close>

fun zero_run :: "nat \<Rightarrow> nat \<times> nat \<Rightarrow> nat \<times> nat \<Rightarrow> nat list \<Rightarrow> nat \<times> nat" where
  "zero_run i best cur [] = best"
| "zero_run i best cur (g # gs) =
     (if g = 0 then
        (let cur' = (if snd cur = 0 then (i, 1) else (fst cur, snd cur + 1))
         in zero_run (Suc i) (if snd best < snd cur' then cur' else best) cur' gs)
      else zero_run (Suc i) best (0, 0) gs)"

fun show_segments :: "nat list \<Rightarrow> str" where
  "show_segments [] = []"
| "show_segments [g] = show_hex g"
| "show_segments (g # gs) = show_hex g @ [58] @ show_segments gs"

definition show_ipv6 :: "ipv6 \<Rightarrow> str" where
  "show_ipv6 a =
     (case to_ipv4_mapped a of
        Some v4 \<Rightarrow> lit ''::ffff:'' @ show_ipv4 v4
      | None \<Rightarrow>
          (let gs = map unat (segments a); (start, len) = zero_run 0 (0, 0) (0, 0) gs in
           if 1 < len then show_segments (take start gs) @ [58, 58] @ show_segments (drop (start + len) gs)
           else show_segments gs))"

definition show_ip :: "ip_addr \<Rightarrow> str" where
  "show_ip ip = (case ip of V4 a \<Rightarrow> show_ipv4 a | V6 a \<Rightarrow> show_ipv6 a)"

definition show_sock_addr :: "sock_addr \<Rightarrow> str" where
  "show_sock_addr a =
     (case sa_ip a of
        V4 v4 \<Rightarrow> show_ipv4 v4 @ [58] @ show_nat (unat (sa_port a))
      | V6 v6 \<Rightarrow>
          [91] @ show_ipv6 v6
          @ (if snd (sa_v6_extra a) = 0 then [] else [37] @ show_nat (unat (snd (sa_v6_extra a))))
          @ [93, 58] @ show_nat (unat (sa_port a)))"

subsection \<open>Facts\<close>

lemma length_octets [simp]: "length (octets4 a) = 4" "length (octets6 b) = 16"
  by (simp_all add: octets4_def octets6_def)

lemma ipv4_from_octets [simp]: "ipv4_from (octets4 a) = a"
proof -
  have "unat a < 256 ^ 4" using unsigned_less [of a, where ?'a = nat] by simp
  then show ?thesis
    by (simp add: ipv4_from_def octets4_def be_dec_be_enc del: be_enc.simps)
qed

lemma ipv6_from_octets [simp]: "ipv6_from (octets6 a) = a"
proof -
  have "unat a < 256 ^ 16" using unsigned_less [of a, where ?'a = nat] by simp
  then show ?thesis
    by (simp add: ipv6_from_def octets6_def be_dec_be_enc del: be_enc.simps)
qed

lemma octets4_from:
  assumes "length bs = 4"
  shows "octets4 (ipv4_from bs) = bs"
proof -
  have "be_dec bs < 2 ^ 32" using be_dec_less [of bs] assms by simp
  then have "unat (ipv4_from bs) = be_dec bs"
    by (simp only: ipv4_from_def unat_of_nat) simp
  then show ?thesis
    using be_enc_be_dec [of bs] assms by (simp only: octets4_def)
qed

lemma octets6_from:
  assumes "length bs = 16"
  shows "octets6 (ipv6_from bs) = bs"
proof -
  have "be_dec bs < 2 ^ 128" using be_dec_less [of bs] assms by simp
  then have "unat (ipv6_from bs) = be_dec bs"
    by (simp only: ipv6_from_def unat_of_nat) simp
  then show ?thesis
    using be_enc_be_dec [of bs] assms by (simp only: octets6_def)
qed

text \<open>Evaluation of the parsers on a literal.\<close>

lemmas addr_eval = parse_sock_addr_def parse_ip_def parse_ipv4_def whole_def read_sock_addr_def read_ip_def
  read_ipv4_def read_separated_def read_octet_def read_number_def digit_value_def read_char_def read_port_def chr_defs

text \<open>What starts with neither a digit nor a colon is not an address.\<close>

lemma parse_ip_no_digit:
  assumes "digit_value 16 c = None" "digit_value 10 c = None" "c \<noteq> 58"
  shows "parse_ip (c # s) = None"
proof -
  have n: "read_number r m z b (c # s) = None" if "digit_value r c = None" for r m z b
    using that by (simp add: read_number_def)
  then have v4: "read_ipv4 (c # s) = None"
    using assms(2) by (simp add: read_ipv4_def read_separated_def read_octet_def)
  have "read_groups 8 0 [] (c # s) = ([], False, c # s)"
    using n assms(1) v4 read_groups.simps(2) [of 7 0 "[]" "c # s"] by (simp add: read_separated_def)
  then show ?thesis using v4 assms(3) by (simp add: parse_ip_def whole_def read_ip_def read_ipv6_def read_char_def)
qed

subsection \<open>Network prefixes\<close>

text \<open>An address in a network given as four octets and a prefix length.\<close>

definition in_cidr :: "ipv4 \<Rightarrow> bytes \<Rightarrow> nat \<Rightarrow> bool" where
  "in_cidr a net len \<longleftrightarrow> drop_bit (32 - len) a = drop_bit (32 - len) (ipv4_from net)"

lemma in_cidr_nat: "length net = 4 \<Longrightarrow> in_cidr a net len \<longleftrightarrow> unat a div 2 ^ (32 - len) = be_dec net div 2 ^ (32 - len)"
proof -
  assume "length net = 4"
  then have "be_dec net < 2 ^ 32" using be_dec_less [of net] by simp
  then have "unat (ipv4_from net) = be_dec net" by (simp add: ipv4_from_def unsigned_of_nat take_bit_eq_mod)
  then show ?thesis by (simp only: in_cidr_def word_unat_eq_iff unat_drop)
qed

lemma be_dec_octets4: "be_dec (octets4 a) = unat a"
proof -
  have "unat a < 256 ^ 4" using unsigned_less [of a, where ?'a = nat] by simp
  then show ?thesis by (simp add: octets4_def be_dec_be_enc)
qed

lemma in_cidr_octets:
  assumes "length net = 4" "k \<le> 4"
  shows "in_cidr a net (8 * k) \<longleftrightarrow> take k (octets4 a) = take k net"
proof -
  have "(2 :: nat) ^ (32 - 8 * k) = 256 ^ (4 - k)"
    using assms(2) power_mult [of "2 :: nat" 8 "4 - k"] by (simp add: diff_mult_distrib2)
  then have "in_cidr a net (8 * k) \<longleftrightarrow> be_dec (take k (octets4 a)) = be_dec (take k net)"
    using assms be_dec_take [of k "octets4 a"] be_dec_take [of k net] by (simp add: in_cidr_nat be_dec_octets4)
  then show ?thesis using assms by (simp add: be_dec_inj)
qed

lemma octets4_cases: obtains o0 o1 o2 o3 where "octets4 a = [o0, o1, o2, o3]"
proof -
  have "length (octets4 a) = Suc (Suc (Suc (Suc 0)))" by simp
  then show ?thesis using that by (auto simp: length_Suc_conv simp del: length_octets)
qed

lemma in_cidr_second:
  "in_cidr a [172, 16, 0, 0] 12 \<longleftrightarrow> octets4 a ! 0 = 172 \<and> 16 \<le> octets4 a ! 1 \<and> octets4 a ! 1 \<le> 31"
  "in_cidr a [100, 64, 0, 0] 10 \<longleftrightarrow> octets4 a ! 0 = 100 \<and> 64 \<le> octets4 a ! 1 \<and> octets4 a ! 1 < 128"
proof -
  obtain o0 o1 o2 o3 where o: "octets4 a = [o0, o1, o2, o3]" by (rule octets4_cases)
  have "unat a div 65536 = 256 * unat o0 + unat o1"
    using be_dec_take [of 2 "octets4 a"] be_dec_octets4 [of a] by (simp add: o)
  then have "unat a div 1048576 = (256 * unat o0 + unat o1) div 16" "unat a div 4194304 = (256 * unat o0 + unat o1) div 64"
    using div_mult2_eq [of "unat a" 65536 16] div_mult2_eq [of "unat a" 65536 64] by simp_all
  moreover have "(256 * unat o0 + unat o1) div 16 = 2753 \<longleftrightarrow> unat o0 = 172 \<and> unat o1 div 16 = 1"
    using second_octet [of "unat o1" 16 16 1 "unat o0" 172] by simp
  moreover have "(256 * unat o0 + unat o1) div 64 = 401 \<longleftrightarrow> unat o0 = 100 \<and> unat o1 div 64 = 1"
    using second_octet [of "unat o1" 64 4 1 "unat o0" 100] by simp
  moreover have "in_cidr a [172, 16, 0, 0] 12 \<longleftrightarrow> unat a div 1048576 = 2753"
    "in_cidr a [100, 64, 0, 0] 10 \<longleftrightarrow> unat a div 4194304 = 401"
    by (simp_all add: in_cidr_nat be_dec_def)
  moreover have "unat o0 = 172 \<longleftrightarrow> o0 = 172" "unat o0 = 100 \<longleftrightarrow> o0 = 100" by (simp_all add: word_unat_eq_iff)
  moreover have "unat o1 div 16 = 1 \<longleftrightarrow> 16 \<le> o1 \<and> o1 \<le> 31" "unat o1 div 64 = 1 \<longleftrightarrow> 64 \<le> o1 \<and> o1 < 128"
    using div_range [of 16 "unat o1" 1] div_range [of 64 "unat o1" 1]
    by (auto simp: word_le_nat_alt word_less_nat_alt)
  ultimately show "in_cidr a [172, 16, 0, 0] 12 \<longleftrightarrow> octets4 a ! 0 = 172 \<and> 16 \<le> octets4 a ! 1 \<and> octets4 a ! 1 \<le> 31"
    "in_cidr a [100, 64, 0, 0] 10 \<longleftrightarrow> octets4 a ! 0 = 100 \<and> 64 \<le> octets4 a ! 1 \<and> octets4 a ! 1 < 128"
    by (simp_all only: o nth_Cons_0 nth_Cons_Suc One_nat_def)
qed

lemma segment_0: "segments a ! 0 = ucast (drop_bit 112 a)"
  by (simp add: segments_def)

lemma segment_prefix:
  assumes "n \<le> 16"
  shows "unat (drop_bit n (segments a ! 0)) = unat a div 2 ^ (112 + n)"
proof -
  have "unat a < 2 ^ 128" using unsigned_less [of a, where ?'a = nat] by simp
  then have "unat a div 2 ^ 112 < 2 ^ 16" by (intro less_mult_imp_div_less) simp
  then have "unat (segments a ! 0) = unat a div 2 ^ 112"
    by (simp only: segment_0 unsigned_ucast_eq unat_drop take_bit_eq_mod) simp
  then show ?thesis by (simp only: unat_drop div_mult2_eq power_add)
qed

lemma v6_prefixes:
  "segments a ! 0 AND 0xfe00 = 0xfc00 \<longleftrightarrow> drop_bit 121 a = 0x7e"
  "segments a ! 0 AND 0xffc0 = 0xfe80 \<longleftrightarrow> drop_bit 118 a = 0x3fa"
proof -
  have "(0xfe00 :: u16) = NOT (mask 9)" "(0xfc00 :: u16) = push_bit 9 0x7e" "drop_bit 9 (push_bit 9 0x7e :: u16) = 0x7e"
    "(0xffc0 :: u16) = NOT (mask 6)" "(0xfe80 :: u16) = push_bit 6 0x3fa" "drop_bit 6 (push_bit 6 0x3fa :: u16) = 0x3fa"
    by code_simp+
  then have "segments a ! 0 AND 0xfe00 = 0xfc00 \<longleftrightarrow> drop_bit 9 (segments a ! 0) = 0x7e"
    "segments a ! 0 AND 0xffc0 = 0xfe80 \<longleftrightarrow> drop_bit 6 (segments a ! 0) = 0x3fa"
    by (simp_all only: and_high_mask)
  then show "segments a ! 0 AND 0xfe00 = 0xfc00 \<longleftrightarrow> drop_bit 121 a = 0x7e"
  "segments a ! 0 AND 0xffc0 = 0xfe80 \<longleftrightarrow> drop_bit 118 a = 0x3fa"
    using segment_prefix [of 9 a] segment_prefix [of 6 a] unat_drop [of 121 a] unat_drop [of 118 a]
    by (simp_all only: word_unat_eq_iff) simp_all
qed

end
