(* ===== verification/Aether_Error.thy ===== *)
theory Aether_Error
  imports Rust_Net
begin

text \<open>
  The error type of \<open>error.rs\<close>, the I/O errors the code inspects (their kind and raw OS number) and the
  answers of a bounded channel to \<open>try_send\<close>.
\<close>

datatype io_error_kind =
    ConnectionRefused | ConnectionReset | ConnectionAborted | HostUnreachable | NetworkUnreachable
  | Interrupted | WouldBlock | TimedOut | PermissionDenied | NotConnected | AddrNotAvailable
  | InvalidInput | UnexpectedEof | BrokenPipe | InvalidData | OtherKind

record io_error =
  io_kind :: io_error_kind
  raw_os_error :: "int option"

datatype aether_error =
    Io io_error
  | Quic str
  | H3 str
  | Tls str
  | Ech str
  | Masque str
  | NoCleanEndpoint
  | Capsule str
  | Api str
  | IdentityRefused str
  | Cancelled
  | Other str

text \<open>How an error is printed; the text of an I/O error comes from the system.\<close>

definition show_error :: "(io_error \<Rightarrow> str) \<Rightarrow> aether_error \<Rightarrow> str" where
  "show_error show_io e =
     (case e of
        Io i \<Rightarrow> lit ''io: '' @ show_io i
      | Quic t \<Rightarrow> lit ''quic: '' @ t
      | H3 t \<Rightarrow> lit ''h3: '' @ t
      | Tls t \<Rightarrow> lit ''tls: '' @ t
      | Ech t \<Rightarrow> lit ''ech: '' @ t
      | Masque t \<Rightarrow> lit ''masque: '' @ t
      | NoCleanEndpoint \<Rightarrow> lit ''prober: no clean endpoint found''
      | Capsule t \<Rightarrow> lit ''capsule: '' @ t
      | Api t \<Rightarrow> lit ''api: '' @ t
      | IdentityRefused t \<Rightarrow> lit ''identity refused: '' @ t
      | Cancelled \<Rightarrow> lit ''cancelled''
      | Other t \<Rightarrow> lit ''other: '' @ t)"

type_synonym 'a result = "aether_error + 'a"

datatype send_result = SendOk | SendFull | SendClosed

end
