(* ===== verification/Masque_Proto.thy ===== *)
theory Masque_Proto
  imports Octets Aether_Error
begin

text \<open>
  \<open>aether/src/masque.rs\<close>: IP packets inside MASQUE. HTTP/3 datagrams (\<open>encode_ip_datagram\<close>,
  \<open>decode_ip_datagram\<close>), capsules on a stream (\<open>encode_capsule\<close>, the incremental \<open>CapsuleParser\<close>
  and its payload parsers) and the hand-built DNS probe packet with its header checksum. Random
  values the code draws are arguments.
\<close>

unbundle bit_operations_syntax

definition CAPSULE_DATAGRAM :: u64 where "CAPSULE_DATAGRAM = 0"
definition CAPSULE_ADDRESS_ASSIGN :: u64 where "CAPSULE_ADDRESS_ASSIGN = 1"
definition CAPSULE_ADDRESS_REQUEST :: u64 where "CAPSULE_ADDRESS_REQUEST = 2"
definition CAPSULE_ROUTE_ADVERTISEMENT :: u64 where "CAPSULE_ROUTE_ADVERTISEMENT = 3"
definition CONNECT_IP_CONTEXT_ID :: u64 where "CONNECT_IP_CONTEXT_ID = 0"
definition MAX_CAPSULE_BUF :: nat where "MAX_CAPSULE_BUF = 256 * 1024"

record assigned_address =
  request_id :: u64
  aa_ip_version :: u8
  address :: bytes
  prefix_len :: u8

record route_advertisement =
  ra_ip_version :: u8
  ra_start :: bytes
  ra_end :: bytes
  protocol :: u8

datatype capsule =
    AddressAssign "assigned_address list"
  | AddressRequest
  | Datagram bytes
  | RouteAdvertisement "route_advertisement list"
  | Unknown u64 bytes

definition oct :: "buffer_error \<Rightarrow> aether_error" where
  "oct e = Capsule (lit ''BufferTooShortError'')"

definition oct_res :: "(buffer_error + 'a) outcome \<Rightarrow> 'a result outcome" where
  "oct_res r = out_bind r (\<lambda>v. Ret (case v of Inl e \<Rightarrow> Inl (oct e) | Inr x \<Rightarrow> Inr x))"

definition quarter_stream_id :: "u64 \<Rightarrow> u64" where
  "quarter_stream_id stream_id = stream_id div 4"

definition masque_varint_len :: "u64 \<Rightarrow> nat" where
  "masque_varint_len v =
     (if v < 64 then 1 else if v < 16384 then 2 else if v < 1073741824 then 4 else 8)"

definition encode_ip_datagram :: "u64 \<Rightarrow> bytes \<Rightarrow> bytes result outcome" where
  "encode_ip_datagram stream_id ip_packet =
     (let qsid = quarter_stream_id stream_id;
          ctx = CONNECT_IP_CONTEXT_ID;
          c = masque_varint_len qsid + masque_varint_len ctx + length ip_packet
      in res_bind (oct_res (put_varint (with_slice (replicate c 0)) qsid)) (\<lambda>b.
         res_bind (oct_res (put_varint b ctx)) (\<lambda>b.
         res_bind (oct_res (put_bytes b ip_packet)) (\<lambda>b.
         Ret (Inr (oct_buf b))))))"

definition decode_ip_datagram :: "bytes \<Rightarrow> u64 \<Rightarrow> bytes option result outcome" where
  "decode_ip_datagram datagram expect_stream_id =
     res_bind (oct_res (get_varint (with_slice datagram))) (\<lambda>(qsid, b).
     if qsid \<noteq> quarter_stream_id expect_stream_id then Ret (Inr None)
     else res_bind (oct_res (get_varint b)) (\<lambda>(ctx, b).
     if ctx \<noteq> CONNECT_IP_CONTEXT_ID then Ret (Inr None)
     else out_bind (cap b) (\<lambda>rest.
     res_bind (oct_res (get_bytes b rest)) (\<lambda>(payload, _).
     out_bind (to_vec payload) (\<lambda>v. Ret (Inr (Some v)))))))"

text \<open>\<open>let _ = b.put_...\<close>: an error is dropped and the cursor stays where it was.\<close>

definition put_ignoring :: "octets \<Rightarrow> (buffer_error + octets) outcome \<Rightarrow> octets outcome" where
  "put_ignoring b r = out_bind r (\<lambda>v. Ret (case v of Inl _ \<Rightarrow> b | Inr b' \<Rightarrow> b'))"

definition encode_capsule :: "u64 \<Rightarrow> bytes \<Rightarrow> bytes outcome" where
  "encode_capsule kind value =
     (let c = masque_varint_len kind + masque_varint_len (word_of_nat (length value)) + length value;
          b = with_slice (replicate c 0)
      in out_bind (put_ignoring b (put_varint b kind)) (\<lambda>b.
         out_bind (put_ignoring b (put_varint b (word_of_nat (length value)))) (\<lambda>b.
         out_bind (put_ignoring b (put_bytes b value)) (\<lambda>b.
         Ret (oct_buf b)))))"

definition encode_address_request :: "u64 \<Rightarrow> u8 \<Rightarrow> u8 \<Rightarrow> bytes outcome" where
  "encode_address_request req_id ip_version plen =
     (let b = with_slice (replicate (masque_varint_len req_id + 1 + 1) 0)
      in out_bind (put_ignoring b (put_varint b req_id)) (\<lambda>b.
         out_bind (put_ignoring b (put_u8 b ip_version)) (\<lambda>b.
         out_bind (put_ignoring b (put_u8 b plen)) (\<lambda>b.
         encode_capsule CAPSULE_ADDRESS_REQUEST (oct_buf b)))))"

definition encode_datagram_capsule :: "bytes \<Rightarrow> bytes outcome" where
  "encode_datagram_capsule ip_packet = encode_capsule CAPSULE_DATAGRAM ip_packet"

definition looks_like_ip_packet :: "bytes \<Rightarrow> bool" where
  "looks_like_ip_packet data =
     (case data of
        [] \<Rightarrow> False
      | first # _ \<Rightarrow> (drop_bit 4 first = 4 \<or> drop_bit 4 first = 6) \<and> 20 \<le> length data)"

definition strip_datagram_context :: "bytes \<Rightarrow> bytes option outcome" where
  "strip_datagram_context payload =
     (if payload = [] then Ret None
      else
        let fallback = Ret (if looks_like_ip_packet payload then Some payload else None) in
        out_bind (get_varint (with_slice payload)) (\<lambda>r. case r of
          Inl _ \<Rightarrow> fallback
        | Inr (ctx, b) \<Rightarrow>
            if ctx = CONNECT_IP_CONTEXT_ID then
              out_bind (cap b) (\<lambda>rest.
              slice payload (length payload - rest) (length payload) (\<lambda>inner.
              if looks_like_ip_packet inner then Ret (Some inner) else fallback))
            else fallback))"

subsection \<open>The capsule parser\<close>

record capsule_parser =
  cp_buf :: bytes

definition capsule_parser_new :: capsule_parser where
  "capsule_parser_new = \<lparr>cp_buf = []\<rparr>"

definition saturating_add :: "nat \<Rightarrow> nat \<Rightarrow> nat" where
  "saturating_add a b = min (a + b) (2 ^ 64 - 1)"

definition capsule_push :: "capsule_parser \<Rightarrow> bytes \<Rightarrow> capsule_parser" where
  "capsule_push p data =
     (if MAX_CAPSULE_BUF < saturating_add (length (cp_buf p)) (length data)
      then p\<lparr>cp_buf := []\<rparr>
      else p\<lparr>cp_buf := cp_buf p @ data\<rparr>)"

definition addr_len_of :: "u8 \<Rightarrow> nat result outcome" where
  "addr_len_of ip_version =
     (if ip_version = 4 then Ret (Inr 4)
      else if ip_version = 6 then Ret (Inr 16)
      else Ret (Inl (Capsule (lit ''bad ip version '' @ show_nat (unat ip_version)))))"

lemma get_varint_advances:
  assumes "get_varint b = Ret (Inr (v, b'))"
  shows "\<exists>n > 0. b' = advance n b \<and> n \<le> length (remaining b) \<and> oct_inv b"
proof -
  have inv: "oct_inv b"
    using assms
    by (auto simp: get_varint_def peek_u8_def peek_u_def as_ref_def oct_inv_def slice_def
        split: if_splits)
  with assms show ?thesis
    by (auto simp: get_varint_inv dest: varint_dec_bounds split: option.splits)
qed

lemma oct_res_Inr [simp]: "oct_res r = Ret (Inr x) \<longleftrightarrow> r = Ret (Inr x)"
  by (cases r) (auto simp: oct_res_def split: sum.splits)

lemma oct_res_simps [simp]:
  "oct_res (Ret (Inr x)) = Ret (Inr x)" "oct_res (Ret (Inl e)) = Ret (Inl (oct e))"
  by (simp_all add: oct_res_def)

lemma get_u8_advances:
  "oct_inv b \<Longrightarrow> get_u8 b = Ret (Inr (v, b')) \<Longrightarrow> b' = advance 1 b \<and> 1 \<le> length (remaining b)"
  by (auto simp: get_u8_inv split: list.splits)

lemma get_bytes_advances:
  "oct_inv b \<Longrightarrow> get_bytes b n = Ret (Inr (s, b')) \<Longrightarrow>
    b' = advance n b \<and> n \<le> length (remaining b) \<and> s = with_slice (take n (remaining b))"
  by (auto simp: get_bytes_inv split: if_splits)

lemma oct_measure_advance:
  "0 < n \<Longrightarrow> n \<le> length (remaining b) \<Longrightarrow>
    length (oct_buf (advance n b)) - oct_off (advance n b) < length (oct_buf b) - oct_off b"
  by (simp add: remaining_def)

function parse_address_assign_from ::
  "octets \<Rightarrow> assigned_address list \<Rightarrow> assigned_address list result outcome" where
  "parse_address_assign_from b out = out_bind (cap b) (\<lambda>c.
     if c = 0 then Ret (Inr out)
     else
       res_bind (oct_res (get_varint b)) (\<lambda>(req, b1).
       res_bind (oct_res (get_u8 b1)) (\<lambda>(ver, b2).
       res_bind (addr_len_of ver) (\<lambda>addr_len.
       res_bind (oct_res (get_bytes b2 addr_len)) (\<lambda>(a, b3).
       out_bind (to_vec a) (\<lambda>addr.
       res_bind (oct_res (get_u8 b3)) (\<lambda>(plen, b4).
       parse_address_assign_from b4
         (out @ [\<lparr>request_id = req, aa_ip_version = ver, address = addr, prefix_len = plen\<rparr>]))))))))"
  by pat_completeness auto
termination
proof (relation "measure (\<lambda>(b, _). length (oct_buf b) - oct_off b)", goal_cases)
  case (2 b out c p req b1 p1 ver b2 addr_len p2 a b3 addr p3 plen b4)
  then obtain n where n: "0 < n" "b1 = advance n b" "n \<le> length (remaining b)" "oct_inv b"
    using get_varint_advances by (metis oct_res_Inr)
  then have b2: "b2 = advance 1 b1" "1 \<le> length (remaining b1)"
    using 2 get_u8_advances [of b1] by auto
  then have b3: "b3 = advance addr_len b2" "addr_len \<le> length (remaining b2)"
    using 2 n get_bytes_advances [of b2 addr_len a b3] by auto
  then have b4: "b4 = advance 1 b3" "1 \<le> length (remaining b3)"
    using 2 n b2 get_u8_advances [of b3] by auto
  have "b4 = advance (n + 1 + addr_len + 1) b" "n + 1 + addr_len + 1 \<le> length (remaining b)"
    using n b2 b3 b4 by auto
  then show ?case
    using oct_measure_advance [of "n + 1 + addr_len + 1" b] by simp
qed simp

definition parse_address_assign :: "bytes \<Rightarrow> assigned_address list result outcome" where
  "parse_address_assign value = parse_address_assign_from (with_slice value) []"

function parse_route_advertisement_from ::
  "octets \<Rightarrow> route_advertisement list \<Rightarrow> route_advertisement list result outcome" where
  "parse_route_advertisement_from b out = out_bind (cap b) (\<lambda>c.
     if c = 0 then Ret (Inr out)
     else
       res_bind (oct_res (get_u8 b)) (\<lambda>(ver, b1).
       res_bind (addr_len_of ver) (\<lambda>addr_len.
       res_bind (oct_res (get_bytes b1 addr_len)) (\<lambda>(s, b2).
       out_bind (to_vec s) (\<lambda>start.
       res_bind (oct_res (get_bytes b2 addr_len)) (\<lambda>(e, b3).
       out_bind (to_vec e) (\<lambda>stop.
       res_bind (oct_res (get_u8 b3)) (\<lambda>(proto, b4).
       parse_route_advertisement_from b4
         (out @ [\<lparr>ra_ip_version = ver, ra_start = start, ra_end = stop, protocol = proto\<rparr>])))))))))"
  by pat_completeness auto
termination
proof (relation "measure (\<lambda>(b, _). length (oct_buf b) - oct_off b)", goal_cases)
  case (2 b out c p ver b1 addr_len p1 s b2 start p2 e b3 stop p3 proto b4)
  then have inv: "oct_inv b" by (auto simp: cap_def oct_inv_def split: if_splits)
  then have b1: "b1 = advance 1 b" "1 \<le> length (remaining b)"
    using 2 get_u8_advances [of b] by auto
  then have b2: "b2 = advance addr_len b1" "addr_len \<le> length (remaining b1)"
    using 2 inv get_bytes_advances [of b1 addr_len s b2] by auto
  then have b3: "b3 = advance addr_len b2" "addr_len \<le> length (remaining b2)"
    using 2 inv b1 get_bytes_advances [of b2 addr_len e b3] by auto
  then have b4: "b4 = advance 1 b3" "1 \<le> length (remaining b3)"
    using 2 inv b1 b2 get_u8_advances [of b3] by auto
  have "b4 = advance (1 + addr_len + addr_len + 1) b"
    "1 + addr_len + addr_len + 1 \<le> length (remaining b)"
    using b1 b2 b3 b4 by auto
  then show ?case
    using oct_measure_advance [of "1 + addr_len + addr_len + 1" b] by simp
qed simp

definition parse_route_advertisement :: "bytes \<Rightarrow> route_advertisement list result outcome" where
  "parse_route_advertisement value = parse_route_advertisement_from (with_slice value) []"

declare parse_address_assign_from.simps [simp del] parse_route_advertisement_from.simps [simp del]

definition capsule_of :: "u64 \<Rightarrow> bytes \<Rightarrow> capsule result outcome" where
  "capsule_of kind value =
     (if kind = CAPSULE_ADDRESS_ASSIGN
      then res_bind (parse_address_assign value) (\<lambda>l. Ret (Inr (AddressAssign l)))
      else if kind = CAPSULE_ADDRESS_REQUEST then Ret (Inr AddressRequest)
      else if kind = CAPSULE_ROUTE_ADVERTISEMENT
      then res_bind (parse_route_advertisement value) (\<lambda>l. Ret (Inr (RouteAdvertisement l)))
      else if kind = CAPSULE_DATAGRAM then Ret (Inr (Datagram value))
      else Ret (Inr (Unknown kind value)))"

text \<open>
  \<open>CapsuleParser::next\<close>: the buffer is drained before the payload is parsed, so a malformed payload
  loses its own bytes only.
\<close>

definition capsule_next :: "capsule_parser \<Rightarrow> (capsule option result \<times> capsule_parser) outcome" where
  "capsule_next p =
     out_bind (get_varint (with_slice (cp_buf p))) (\<lambda>r. case r of
       Inl _ \<Rightarrow> Ret (Inr None, p)
     | Inr (kind, b) \<Rightarrow>
     out_bind (get_varint b) (\<lambda>r. case r of
       Inl _ \<Rightarrow> Ret (Inr None, p)
     | Inr (len, b) \<Rightarrow>
     out_bind (cap b) (\<lambda>c.
     if c < unat len then Ret (Inr None, p)
     else out_bind (get_bytes b (unat len)) (\<lambda>r. case r of
       Inl e \<Rightarrow> Ret (Inl (oct e), p)
     | Inr (s, b) \<Rightarrow>
     out_bind (to_vec s) (\<lambda>value.
     let consumed = oct_off b in
     if length (cp_buf p) < consumed then Panic
     else
       let p = p\<lparr>cp_buf := drop consumed (cp_buf p)\<rparr> in
       out_bind (capsule_of kind value) (\<lambda>r. Ret (case r of
         Inl e \<Rightarrow> (Inl e, p)
       | Inr c \<Rightarrow> (Inr (Some c), p))))))))"

subsection \<open>The DNS probe packet\<close>

fun sum_words :: "bytes \<Rightarrow> u32 \<Rightarrow> u32" where
  "sum_words (a # b # rest) acc = sum_words rest (acc + ucast (from_be16 a b))"
| "sum_words [a] acc = acc + push_bit 8 (ucast a)"
| "sum_words [] acc = acc"

lemma and_ffff: "unat ((w :: u32) AND 0xffff) = unat w mod 65536"
proof -
  have "w AND mask 16 = take_bit 16 w" by (simp add: take_bit_eq_mask)
  then show ?thesis by (simp add: mask_eq_exp_minus_1 take_bit_eq_mod unat_mod_distrib)
qed

lemma unat_drop_16: "unat (drop_bit 16 (w :: u32)) = unat w div 65536"
  by (simp add: drop_bit_eq_div unat_div_distrib)

lemma fold_step_unat:
  "unat ((w :: u32) AND 0xffff) + unat (drop_bit 16 w) = unat w mod 65536 + unat w div 65536"
  by (simp only: and_ffff unat_drop_16)

lemma unat_fold_step:
  "unat (((w :: u32) AND 0xffff) + drop_bit 16 w) = unat w mod 65536 + unat w div 65536"
proof -
  have "unat w < 2 ^ 32" using unsigned_less [of w, where ?'a = nat] by simp
  then have "unat w div 65536 < 65536" by (intro less_mult_imp_div_less) simp
  moreover have "unat w mod 65536 < 65536" by simp
  ultimately have "unat (w AND 0xffff) + unat (drop_bit 16 w) < 2 ^ LENGTH(32)"
    by (simp only: fold_step_unat) simp
  then have "unat ((w AND 0xffff) + drop_bit 16 w) = unat (w AND 0xffff) + unat (drop_bit 16 w)"
    by (rule unat_add_lem [THEN iffD1])
  then show ?thesis by (simp only: fold_step_unat)
qed

function fold_carry :: "u32 \<Rightarrow> u32" where
  "fold_carry acc =
     (if drop_bit 16 acc \<noteq> 0 then fold_carry ((acc AND 0xffff) + drop_bit 16 acc) else acc)"
  by pat_completeness auto
termination
proof (relation "measure unat", goal_cases)
  case (2 acc)
  have "0 < unat acc div 65536"
    using 2 unat_drop_16 [of acc] by (metis gr0I unsigned_eq_0_iff)
  moreover have "unat acc = unat acc div 65536 * 65536 + unat acc mod 65536" by simp
  ultimately show ?case
    by (simp only: in_measure unat_fold_step)
qed simp

declare fold_carry.simps [simp del]

definition ipv4_header_checksum :: "bytes \<Rightarrow> u16" where
  "ipv4_header_checksum header = NOT (ucast (fold_carry (sum_words header 0)))"

definition probe_dns_query :: "u16 \<Rightarrow> bytes" where
  "probe_dns_query qid =
     to_be16 qid @ [0x01, 0x00] @ [0x00, 0x01] @ [0, 0, 0, 0, 0, 0]
     @ concat (map (\<lambda>label. word_of_nat (str_len label) # utf8_encode label)
                  [lit ''cloudflare'', lit ''com''])
     @ [0x00] @ [0x00, 0x01] @ [0x00, 0x01]"

definition build_dns_probe_packet :: "ipv4 \<Rightarrow> u16 \<Rightarrow> u16 \<Rightarrow> u16 \<Rightarrow> bytes" where
  "build_dns_probe_packet src ip_id sport qid =
     (let dns = probe_dns_query qid;
          udp_len = 8 + length dns;
          total_len = 20 + udp_len;
          pkt = [0x45, 0x00] @ to_be16 (word_of_nat total_len) @ to_be16 ip_id @ [0, 0] @ [64, 17]
                @ [0, 0] @ octets4 src @ [8, 8, 8, 8];
          csum = ipv4_header_checksum (take 20 pkt);
          pkt = take 10 pkt @ to_be16 csum @ drop 12 pkt
      in pkt @ to_be16 sport @ to_be16 53 @ to_be16 (word_of_nat udp_len) @ [0, 0] @ dns)"

subsection \<open>Encoding\<close>

lemma masque_varint_len_eq:
  "v \<le> MAX_VAR_INT \<Longrightarrow> masque_varint_len v = length (varint_bytes v)"
  by (auto simp: masque_varint_len_def varint_bytes_def Let_def word_less_nat_alt
      simp del: be_enc.simps)

text \<open>A cursor over a fresh buffer of \<open>n\<close> zeros after \<open>xs\<close> has been written.\<close>

definition written :: "nat \<Rightarrow> bytes \<Rightarrow> octets" where
  "written n xs = \<lparr>oct_buf = xs @ replicate (n - length xs) 0, oct_off = length xs\<rparr>"

lemma with_slice_written: "with_slice (replicate n 0) = written n []"
  by (simp add: with_slice_def written_def)

lemma oct_inv_written [simp]: "oct_inv (written n xs)"
  by (simp add: oct_inv_def written_def)

lemma remaining_written [simp]: "length (remaining (written n xs)) = n - length xs"
  by (simp add: remaining_def written_def)

lemma oct_buf_written: "length xs = n \<Longrightarrow> oct_buf (written n xs) = xs"
  by (simp add: written_def)

lemma write_bytes_written:
  "length xs + length bs \<le> n \<Longrightarrow> write_bytes bs (written n xs) = written n (xs @ bs)"
  unfolding written_def by (rule write_bytes_fresh)

lemma put_varint_written:
  "v \<le> MAX_VAR_INT \<Longrightarrow> length xs + length (varint_bytes v) \<le> n \<Longrightarrow>
    put_varint (written n xs) v = Ret (Inr (written n (xs @ varint_bytes v)))"
  by (simp add: put_varint_write write_bytes_written)

lemma put_bytes_written:
  "length xs + length v \<le> n \<Longrightarrow>
    put_bytes (written n xs) v = Ret (Inr (written n (xs @ v)))"
  by (auto simp: put_bytes_write write_bytes_written)

lemma put_u8_written:
  "length xs + 1 \<le> n \<Longrightarrow> put_u8 (written n xs) v = Ret (Inr (written n (xs @ [v])))"
  by (auto simp: put_u8_def put_u_write write_bytes_written)

lemma put_varint_too_large: "MAX_VAR_INT < v \<Longrightarrow> put_varint b v = Panic"
  by (simp add: put_varint_def varint_len_eq flip: not_le)

lemma put_ignoring_simps [simp]:
  "put_ignoring b Panic = Panic" "put_ignoring b (Ret (Inr b')) = Ret b'"
  by (simp_all add: put_ignoring_def)

text \<open>The bytes of a capsule: type, length and value.\<close>

definition frame_enc :: "u64 \<times> bytes \<Rightarrow> bytes" where
  "frame_enc m = varint_bytes (fst m) @ varint_bytes (word_of_nat (length (snd m))) @ snd m"

definition frame_valid :: "u64 \<times> bytes \<Rightarrow> bool" where
  "frame_valid m \<longleftrightarrow> fst m \<le> MAX_VAR_INT \<and> length (snd m) \<le> 4611686018427387903"

lemma length_word_le:
  "n \<le> 4611686018427387903 \<Longrightarrow> (word_of_nat n :: u64) \<le> MAX_VAR_INT \<and> unat (word_of_nat n :: u64) = n"
  by (simp add: MAX_VAR_INT_def word_le_nat_alt unat_of_nat)

lemma encode_capsule_frame:
  "frame_valid (kind, value) \<Longrightarrow> encode_capsule kind value = Ret (frame_enc (kind, value))"
  using length_word_le [of "length value"]
  by (simp add: encode_capsule_def frame_valid_def frame_enc_def with_slice_written
      masque_varint_len_eq put_varint_written put_bytes_written oct_buf_written)

subsection \<open>Decoding\<close>

definition frame_dec :: "bytes \<Rightarrow> ((u64 \<times> bytes) \<times> nat) option" where
  "frame_dec bs =
     (case varint_dec bs of
        None \<Rightarrow> None
      | Some (k, n) \<Rightarrow>
          (case varint_dec (drop n bs) of
             None \<Rightarrow> None
           | Some (l, m) \<Rightarrow>
               if length bs < n + m + unat l then None
               else Some ((k, take (unat l) (drop (n + m) bs)), n + m + unat l)))"

lemma frame_dec_bounds: "frame_dec bs = Some (r, n) \<Longrightarrow> 0 < n \<and> n \<le> length bs"
  by (auto simp: frame_dec_def dest: varint_dec_bounds split: option.splits prod.splits if_splits)

lemma frame_dec_two: "frame_dec bs = Some (r, n) \<Longrightarrow> 2 \<le> n"
  by (auto simp: frame_dec_def dest!: varint_dec_bounds split: option.splits prod.splits if_splits)

lemma frame_dec_mono:
  assumes "frame_dec bs = Some (r, n)"
  shows "frame_dec (bs @ bs') = Some (r, n)"
proof -
  obtain k i l j where 1: "varint_dec bs = Some (k, i)" and 2: "varint_dec (drop i bs) = Some (l, j)"
    and r: "i + j + unat l \<le> length bs" "r = (k, take (unat l) (drop (i + j) bs))" "n = i + j + unat l"
    using assms by (auto simp: frame_dec_def split: option.splits prod.splits if_splits)
  have "i \<le> length bs" using varint_dec_bounds [OF 1] by simp
  then have "varint_dec (drop i (bs @ bs')) = Some (l, j)"
    using varint_dec_mono [OF 2, of bs'] by simp
  with varint_dec_mono [OF 1, of bs'] r show ?thesis
    by (simp add: frame_dec_def)
qed

lemma frame_dec_enc:
  assumes "frame_valid m"
  shows "frame_dec (frame_enc m @ rest) = Some (m, length (frame_enc m))"
proof -
  obtain k v where m: "m = (k, v)" by (cases m)
  let ?l = "word_of_nat (length v) :: u64"
  have k: "k \<le> MAX_VAR_INT" and l: "?l \<le> MAX_VAR_INT" "unat ?l = length v"
    using assms m length_word_le [of "length v"] by (auto simp: frame_valid_def)
  have "varint_dec (varint_bytes k @ (varint_bytes ?l @ v @ rest)) = Some (k, length (varint_bytes k))"
    using k by (rule varint_dec_bytes)
  moreover have "varint_dec (varint_bytes ?l @ (v @ rest)) = Some (?l, length (varint_bytes ?l))"
    using l(1) by (rule varint_dec_bytes)
  ultimately show ?thesis
    using l(2) by (simp add: m frame_dec_def frame_enc_def)
qed

interpretation frames: framed_codec frame_dec frame_enc frame_valid "\<lambda>m. m"
  by unfold_locales (blast dest: frame_dec_bounds frame_dec_mono intro: frame_dec_enc)+

text \<open>What \<open>CapsuleParser::next\<close> does, over the frame decoder.\<close>

lemma capsule_next_frame:
  "capsule_next p =
     (case frame_dec (cp_buf p) of
        None \<Rightarrow> Ret (Inr None, p)
      | Some ((k, v), n) \<Rightarrow>
          out_bind (capsule_of k v) (\<lambda>r. Ret (map_sum id Some r, p\<lparr>cp_buf := drop n (cp_buf p)\<rparr>)))"
proof (cases "varint_dec (cp_buf p)")
  case None
  then show ?thesis by (simp add: capsule_next_def frame_dec_def get_varint_inv)
next
  case (Some q)
  obtain k i where q: "q = (k, i)" by (cases q)
  have i: "i \<le> length (cp_buf p)" using Some q varint_dec_bounds by auto
  show ?thesis
  proof (cases "varint_dec (drop i (cp_buf p))")
    case None
    with Some q i show ?thesis by (simp add: capsule_next_def frame_dec_def get_varint_inv)
  next
    case (Some q')
    obtain l j where q': "q' = (l, j)" by (cases q')
    have j: "i + j \<le> length (cp_buf p)" using Some q' i varint_dec_bounds [of "drop i (cp_buf p)"] by auto
    have fin: "(case r of Inl e \<Rightarrow> (Inl e, p') | Inr c \<Rightarrow> (Inr (Some c), p')) = (map_sum id Some r, p')"
      for r :: "capsule result" and p' :: capsule_parser
      by (cases r) simp_all
    have cut: "length (cp_buf p) - (i + j) < unat l \<longleftrightarrow> length (cp_buf p) < unat l + (i + j)"
      using j by linarith
    have "oct_off (with_slice (cp_buf p)) = 0" by (simp add: with_slice_def)
    with \<open>varint_dec (cp_buf p) = Some q\<close> Some q q' i j show ?thesis
      by (simp add: capsule_next_def frame_dec_def get_varint_inv get_bytes_inv fin Let_def
          cut add.commute)
  qed
qed

subsection \<open>Payloads\<close>

definition enc_assigned :: "assigned_address \<Rightarrow> bytes" where
  "enc_assigned a = varint_bytes (request_id a) @ [aa_ip_version a] @ address a @ [prefix_len a]"

definition assigned_ok :: "assigned_address \<Rightarrow> bool" where
  "assigned_ok a \<longleftrightarrow> request_id a \<le> MAX_VAR_INT \<and>
     (aa_ip_version a = 4 \<and> length (address a) = 4 \<or> aa_ip_version a = 6 \<and> length (address a) = 16)"

lemma addr_len_of_ok:
  "assigned_ok a \<Longrightarrow> addr_len_of (aa_ip_version a) = Ret (Inr (length (address a)))"
  by (auto simp: assigned_ok_def addr_len_of_def)

lemma remaining_advance_append:
  "remaining b = xs @ ys \<Longrightarrow> remaining (advance (length xs) b) = ys"
  by simp

lemma parse_address_assign_step:
  assumes inv: "oct_inv b" and rem: "remaining b = enc_assigned a @ rest" and ok: "assigned_ok a"
  shows "parse_address_assign_from b out
       = parse_address_assign_from (advance (length (enc_assigned a)) b) (out @ [a])"
proof -
  let ?n = "length (varint_bytes (request_id a))"
  have "varint_dec (varint_bytes (request_id a) @ ([aa_ip_version a] @ address a @ [prefix_len a] @ rest))
      = Some (request_id a, ?n)"
    using ok by (intro varint_dec_bytes) (simp add: assigned_ok_def)
  then have g1: "get_varint b = Ret (Inr (request_id a, advance ?n b))"
    using inv rem by (simp add: get_varint_inv enc_assigned_def)
  have r1: "remaining (advance ?n b) = [aa_ip_version a] @ address a @ [prefix_len a] @ rest"
    and l1: "?n \<le> length (remaining b)"
    using rem by (simp_all add: enc_assigned_def)
  then have g2: "get_u8 (advance ?n b) = Ret (Inr (aa_ip_version a, advance (?n + 1) b))"
    using inv by (simp add: get_u8_inv)
  have r2: "remaining (advance (?n + 1) b) = address a @ [prefix_len a] @ rest"
    and l2: "?n + 1 \<le> length (remaining b)"
    using rem by (simp_all add: enc_assigned_def)
  then have g3: "get_bytes (advance (?n + 1) b) (length (address a))
      = Ret (Inr (with_slice (address a), advance (?n + 1 + length (address a)) b))"
    using inv by (simp add: get_bytes_inv)
  have "remaining (advance (?n + 1 + length (address a)) b) = [prefix_len a] @ rest"
    and l3: "?n + 1 + length (address a) \<le> length (remaining b)"
    using rem by (simp_all add: enc_assigned_def)
  then have g4: "get_u8 (advance (?n + 1 + length (address a)) b)
      = Ret (Inr (prefix_len a, advance (length (enc_assigned a)) b))"
    using inv by (simp add: get_u8_inv enc_assigned_def)
  have eta: "\<lparr>request_id = request_id a, aa_ip_version = aa_ip_version a, address = address a,
      prefix_len = prefix_len a\<rparr> = a"
    by (cases a) simp
  have "length (remaining b) \<noteq> 0" using rem by (simp add: enc_assigned_def)
  then show ?thesis
    using inv by (subst parse_address_assign_from.simps)
      (simp add: g1 g2 [simplified] g3 [simplified] g4 [simplified] addr_len_of_ok [OF ok] eta)
qed

lemma parse_address_assign_all:
  assumes "oct_inv b" "remaining b = concat (map enc_assigned asg)" "list_all assigned_ok asg"
  shows "parse_address_assign_from b out = Ret (Inr (out @ asg))"
  using assms
proof (induction asg arbitrary: b out)
  case Nil
  then show ?case by (subst parse_address_assign_from.simps) simp
next
  case (Cons a as)
  have "parse_address_assign_from b out
      = parse_address_assign_from (advance (length (enc_assigned a)) b) (out @ [a])"
    using Cons.prems by (intro parse_address_assign_step) auto
  also have "\<dots> = Ret (Inr ((out @ [a]) @ as))"
    using Cons.prems by (intro Cons.IH) auto
  finally show ?case by simp
qed

lemma returns_oct_res [simp]: "returns (oct_res r) = returns r"
  by (cases r) (auto simp: oct_res_def)

lemma returns_reads [no_panic]:
  "oct_inv b \<Longrightarrow> returns (get_varint b)"
  "oct_inv b \<Longrightarrow> returns (get_u8 b)"
  "oct_inv b \<Longrightarrow> returns (get_bytes b n)"
  by (auto simp: get_varint_inv get_u8_inv get_bytes_inv split: option.split list.split)

lemma returns_addr_len_of [simp]: "returns (addr_len_of v)"
  by (simp add: addr_len_of_def)

lemma read_inv:
  "oct_inv b \<Longrightarrow> get_varint b = Ret (Inr (v, b')) \<Longrightarrow> oct_inv b'"
  "oct_inv b \<Longrightarrow> get_u8 b = Ret (Inr (x, b')) \<Longrightarrow> oct_inv b'"
  "oct_inv b \<Longrightarrow> get_bytes b n = Ret (Inr (s, b')) \<Longrightarrow> oct_inv b' \<and> oct_inv s"
  using get_varint_advances [of b v b'] get_u8_advances [of b x b'] get_bytes_advances [of b n s b']
  by auto

lemma read_shorter:
  "oct_inv b \<Longrightarrow> get_varint b = Ret (Inr (v, b')) \<Longrightarrow> length (remaining b') < length (remaining b)"
  "oct_inv b \<Longrightarrow> get_u8 b = Ret (Inr (x, b')) \<Longrightarrow> length (remaining b') < length (remaining b)"
  "oct_inv b \<Longrightarrow> get_bytes b n = Ret (Inr (s, b')) \<Longrightarrow> length (remaining b') \<le> length (remaining b)"
  using get_varint_advances [of b v b'] get_u8_advances [of b x b'] get_bytes_advances [of b n s b']
  by auto

lemma returns_bind_reads:
  "oct_inv b \<Longrightarrow> (\<And>v b'. oct_inv b' \<Longrightarrow> length (remaining b') < length (remaining b)
      \<Longrightarrow> returns (k (v, b')))
    \<Longrightarrow> returns (res_bind (oct_res (get_varint b)) k)"
  "oct_inv b \<Longrightarrow> (\<And>v b'. oct_inv b' \<Longrightarrow> length (remaining b') < length (remaining b)
      \<Longrightarrow> returns (k' (v, b')))
    \<Longrightarrow> returns (res_bind (oct_res (get_u8 b)) k')"
  "oct_inv b \<Longrightarrow> (\<And>s b'. oct_inv b' \<Longrightarrow> oct_inv s \<Longrightarrow> length (remaining b') \<le> length (remaining b)
      \<Longrightarrow> returns (k'' (s, b')))
    \<Longrightarrow> returns (res_bind (oct_res (get_bytes b n)) k'')"
  "(\<And>m. returns (k4 m)) \<Longrightarrow> returns (res_bind (addr_len_of ver) k4)"
  by (auto intro!: returns_res_bind simp: returns_reads) (blast dest: read_inv read_shorter)+

lemma parse_address_assign_returns: "oct_inv b \<Longrightarrow> returns (parse_address_assign_from b out)"
proof (induction "length (remaining b)" arbitrary: b out rule: less_induct)
  case less
  show ?case
    by (subst parse_address_assign_from.simps)
      (use less.prems in \<open>auto intro!: returns_bind_reads less.hyps\<close>)
qed

lemma parse_route_advertisement_returns: "oct_inv b \<Longrightarrow> returns (parse_route_advertisement_from b out)"
proof (induction "length (remaining b)" arbitrary: b out rule: less_induct)
  case less
  show ?case
    by (subst parse_route_advertisement_from.simps)
      (use less.prems in \<open>auto intro!: returns_bind_reads less.hyps\<close>)
qed

lemma capsule_of_returns: "returns (capsule_of k v)"
  by (auto simp: capsule_of_def parse_address_assign_def parse_route_advertisement_def
      intro!: no_panic parse_address_assign_returns parse_route_advertisement_returns)

lemma quarter_le: "quarter_stream_id s \<le> MAX_VAR_INT"
proof -
  have "unat s < 2 ^ 64" using unsigned_less [of s, where ?'a = nat] by simp
  then have "unat s div 4 < 2 ^ 62" by (intro less_mult_imp_div_less) simp
  then show ?thesis
    by (simp add: quarter_stream_id_def MAX_VAR_INT_def word_le_nat_alt unat_div_distrib)
qed

subsection \<open>The header checksum\<close>

fun wsum :: "bytes \<Rightarrow> nat" where
  "wsum (a # b # rest) = unat a * 256 + unat b + wsum rest"
| "wsum [a] = unat a * 256"
| "wsum [] = 0"

lemma u16_pair_less: "unat (a :: u8) * 256 + unat (b :: u8) < 65536"
  using be_dec_less [of "[a, b]"] by simp

lemma wsum_le: "wsum bs \<le> 65535 * ((length bs + 1) div 2)"
proof (induction bs rule: wsum.induct)
  case (1 a b rest)
  then show ?case using u16_pair_less [of a b] by simp
next
  case (2 a)
  then show ?case using u16_pair_less [of a 0] unat_u8_less [of a] by (simp del: unat_u8_less)
qed simp

lemma wsum_append: "even (length xs) \<Longrightarrow> wsum (xs @ ys) = wsum xs + wsum ys"
  by (induction xs rule: wsum.induct) simp_all

lemma unat_add_small: "unat (a :: u32) + unat b < 2 ^ 32 \<Longrightarrow> unat (a + b) = unat a + unat b"
  using unat_add_lem [of a b] by simp

lemma unat_sum_words:
  "unat acc + wsum bs < 2 ^ 32 \<Longrightarrow> unat (sum_words bs acc) = unat acc + wsum bs"
proof (induction bs acc rule: sum_words.induct)
  case (1 a b rest acc)
  have w: "unat (ucast (from_be16 a b) :: u32) = unat a * 256 + unat b"
    by (simp add: unat_ucast_widen unat_from_be16)
  then have "unat (acc + ucast (from_be16 a b)) = unat acc + (unat a * 256 + unat b)"
    using "1.prems" by (subst unat_add_small) simp_all
  then show ?case using "1.IH" "1.prems" by simp
next
  case (2 a acc)
  have "unat (push_bit 8 (ucast a :: u32)) = unat a * 256"
    using unat_u8_less [of a]
    by (simp add: push_bit_eq_mult unat_word_ariths unat_ucast_widen del: unat_u8_less)
  then show ?case using "2.prems" by (simp add: unat_add_small)
qed simp

lemma mod_65535_fold: "n mod 65536 + n div 65536 = m \<Longrightarrow> m mod 65535 = n mod (65535::nat)"
proof -
  assume m: "n mod 65536 + n div 65536 = m"
  have "n = (n div 65536) * 65535 + (n div 65536 + n mod 65536)"
    using div_mult_mod_eq [of n 65536] by simp
  then have "n mod 65535 = (n div 65536 + n mod 65536) mod 65535"
    by (metis mod_mult_self3)
  with m show ?thesis by (simp add: add.commute)
qed

lemma fold_carry_props:
  "unat (fold_carry w) < 65536 \<and> unat (fold_carry w) mod 65535 = unat w mod 65535
    \<and> (fold_carry w = 0 \<longleftrightarrow> w = 0)"
proof (induction w rule: fold_carry.induct)
  case (1 w)
  show ?case
  proof (cases "drop_bit 16 w = 0")
    case True
    then have "unat w div 65536 = 0" using unat_drop_16 [of w] by simp
    then have "unat w < 65536" by (simp add: div_eq_0_iff)
    with True show ?thesis by (simp add: fold_carry.simps [of w])
  next
    case False
    let ?w = "(w AND 0xffff) + drop_bit 16 w"
    have "unat w div 65536 \<noteq> 0" using False unat_drop_16 [of w] by (metis unsigned_eq_0_iff)
    then have "unat ?w \<noteq> 0" "unat w \<noteq> 0"
      by (simp_all only: unat_fold_step)
    then have "?w \<noteq> 0" "w \<noteq> 0" by auto
    moreover have "unat ?w mod 65535 = unat w mod 65535"
      using mod_65535_fold [OF unat_fold_step [symmetric]] by simp
    ultimately show ?thesis
      using "1.IH" [OF False] False by (simp add: fold_carry.simps [of w])
  qed
qed

lemma wsum_to_be16: "wsum (to_be16 v @ rest) = unat v + wsum rest"
proof -
  have "unat v < 256 ^ 2" using unsigned_less [of v, where ?'a = nat] by simp
  then have "be_dec (to_be16 v) = unat v"
    by (simp add: to_be16_def be_dec_be_enc del: be_enc.simps)
  moreover obtain x y where "to_be16 v = [x, y]"
    using length_to_be16 [of v] by (cases "to_be16 v" rule: remdups_adj.cases) auto
  ultimately show ?thesis by simp
qed

lemma unat_not_u16: "unat (NOT w :: u16) = 65535 - unat w"
proof -
  have "NOT w = (- 1) - w" by (simp add: not_eq_complement)
  moreover have "w \<le> - 1" by simp
  moreover have "unat (- 1 :: u16) = 65535" by (simp add: unsigned_minus_1_eq_mask mask_eq_exp_minus_1)
  ultimately show ?thesis by (simp only: unat_sub)
qed

lemma multiple_of_65535: "n < 65536 \<Longrightarrow> n mod 65535 = 0 \<Longrightarrow> n \<noteq> 0 \<Longrightarrow> n = (65535::nat)"
  by (cases "n < 65535") auto

lemma checksum_zero:
  assumes "unat (sum_words bs 0) mod 65535 = 0" "sum_words bs 0 \<noteq> 0"
  shows "ipv4_header_checksum bs = 0"
proof -
  let ?f = "fold_carry (sum_words bs 0)"
  have f: "unat ?f < 65536" "unat ?f mod 65535 = 0" "unat ?f \<noteq> 0"
    using fold_carry_props [of "sum_words bs 0"] assms by (auto simp: unsigned_eq_0_iff)
  then have "unat ?f = 65535" by (rule multiple_of_65535)
  then have "unat (ucast ?f :: u16) = 65535"
    by (simp add: unsigned_ucast_eq take_bit_eq_mod)
  then have "unat (NOT (ucast ?f :: u16)) = 0" by (simp only: unat_not_u16)
  then show ?thesis by (simp only: ipv4_header_checksum_def unsigned_eq_0_iff)
qed

lemma checksum_inserted:
  assumes ev: "even (length a)" and len: "length a + length b \<le> 65000"
    and c: "c = ipv4_header_checksum (a @ [0, 0] @ b)"
  shows "ipv4_header_checksum (a @ to_be16 c @ b) = 0"
proof -
  let ?S = "wsum a + wsum b" and ?s0 = "sum_words (a @ [0, 0] @ b) 0"
  let ?s1 = "sum_words (a @ to_be16 c @ b) 0"
  have "wsum a + wsum b \<le> 65535 * ((length a + 1) div 2) + 65535 * ((length b + 1) div 2)"
    by (intro add_mono wsum_le)
  also have "\<dots> = 65535 * ((length a + 1) div 2 + (length b + 1) div 2)"
    by (simp only: distrib_left)
  also have "\<dots> \<le> 65535 * 65001" using len by (intro mult_left_mono) linarith+
  finally have bound: "?S + 65536 < 2 ^ 32" by simp
  have s0: "unat ?s0 = ?S"
    using bound ev unat_sum_words [of 0 "a @ [0, 0] @ b"] by (simp add: wsum_append)
  have s0z: "?s0 = 0 \<longleftrightarrow> ?S = 0" using s0 by (metis unsigned_eq_0_iff)
  let ?f = "fold_carry ?s0"
  have f: "unat ?f < 65536" "unat ?f mod 65535 = ?S mod 65535" "?f = 0 \<longleftrightarrow> ?S = 0"
    using fold_carry_props [of ?s0] s0 s0z by simp_all
  then have "unat (ucast ?f :: u16) = unat ?f"
    by (simp add: unsigned_ucast_eq take_bit_eq_mod)
  then have uc: "unat c = 65535 - unat ?f"
    by (simp add: c ipv4_header_checksum_def unat_not_u16)
  have s1: "unat ?s1 = ?S + unat c"
  proof -
    have "unat c < 65536" using unsigned_less [of c, where ?'a = nat] by simp
    then show ?thesis
      using bound ev unat_sum_words [of 0 "a @ to_be16 c @ b"] by (simp add: wsum_append wsum_to_be16)
  qed
  have "(?S + unat c) mod 65535 = (unat ?f + unat c) mod 65535"
    using f(2) by (metis mod_add_left_eq)
  also have "\<dots> = 0" using uc f(1) by simp
  finally have "unat ?s1 mod 65535 = 0" using s1 by simp
  moreover have "?s1 \<noteq> 0"
  proof -
    have "?S + unat c \<noteq> 0" using f(3) uc by (cases "?S = 0") (simp, linarith)
    then show ?thesis using s1 by auto
  qed
  ultimately show ?thesis by (rule checksum_zero)
qed

lemma high_nibble_cases:
  fixes x :: u8
  assumes "drop_bit 4 x = 4 \<or> drop_bit 4 x = 6"
  shows "unat x div 64 = 1 \<and> (unat x = 64 \<or> unat x mod 64 \<noteq> 0)"
proof -
  have all: "\<forall>n \<in> set [0..<256]. drop_bit 4 (word_of_nat n :: u8) = 4 \<or> drop_bit 4 (word_of_nat n :: u8) = 6
      \<longrightarrow> n div 64 = 1 \<and> (n = 64 \<or> n mod 64 \<noteq> 0)"
    by code_simp
  have "unat x \<in> set [0..<256]" by simp
  with all assms show ?thesis by (metis word_nat_id)
qed

lemma unat_of_nat_small: "n < 2 ^ 64 \<Longrightarrow> unat (word_of_nat n :: u64) = n"
  by (simp add: unsigned_of_nat take_bit_eq_mod)

lemma ip_packet_varint:
  assumes "looks_like_ip_packet pkt" "hd pkt \<noteq> 0x40"
  shows "\<exists>v n. varint_dec pkt = Some (v, n) \<and> v \<noteq> 0"
proof -
  obtain x y xs where pkt: "pkt = x # y # xs" and x: "drop_bit 4 x = 4 \<or> drop_bit 4 x = 6"
    using assms(1) by (auto simp: looks_like_ip_packet_def neq_Nil_conv numeral_eq_Suc Suc_le_length_iff
        split: list.splits)
  have "unat x \<noteq> 64" using assms(2) pkt by (metis list.sel(1) word_nat_id of_nat_numeral)
  with high_nibble_cases [OF x] have t: "unat x div 64 = 1" "unat x mod 64 \<noteq> 0" by auto
  have "varint_dec ([x, y] @ xs) = Some (word_of_nat (be_dec [x, y] mod (64 * 256)), 2)"
    using varint_dec_front [of x "[y]" xs] t by simp
  moreover have "be_dec [x, y] mod (64 * 256) = unat x mod 64 * 256 + unat y"
    using mod_mult2_eq [of "unat x * 256 + unat y" 256 64] by simp
  moreover have "unat x mod 64 * 256 + unat y < 2 ^ 64"
    using u16_pair_less [of x y] mod_le_divisor [of 64 "unat x"] unat_u8_less [of y]
    by (simp del: unat_u8_less mod_le_divisor)
  ultimately show ?thesis
    using t(2) pkt unat_of_nat_small [of "unat x mod 64 * 256 + unat y"]
    by (metis append_Cons append_Nil add_is_0 mult_is_0 unsigned_0 zero_neq_numeral)
qed

lemma strip_bare:
  assumes ip: "looks_like_ip_packet pkt" and h: "hd pkt \<noteq> 0x40"
  shows "strip_datagram_context pkt = Ret (Some pkt)"
proof -
  obtain x xs where pkt: "pkt = x # xs"
    using ip by (auto simp: looks_like_ip_packet_def split: list.splits)
  obtain v n where "varint_dec pkt = Some (v, n)" "v \<noteq> 0"
    using ip_packet_varint [OF ip h] by blast
  then show ?thesis
    using ip pkt by (auto simp: strip_datagram_context_def get_varint_inv CONNECT_IP_CONTEXT_ID_def)
qed

lemma strip_returns:
  "\<exists>r. strip_datagram_context payload = Ret r \<and>
     (\<forall>q. r = Some q \<longrightarrow> looks_like_ip_packet q \<and> (\<exists>pre. payload = pre @ q))"
proof (cases "varint_dec payload")
  case None
  then show ?thesis by (auto simp: strip_datagram_context_def get_varint_inv)
next
  case (Some vn)
  then obtain v n where "varint_dec payload = Some (v, n)" by (cases vn) auto
  then show ?thesis
    using varint_dec_bounds [of payload v n]
    by (auto simp: strip_datagram_context_def get_varint_inv Let_def rust_defs)
      (metis append_take_drop_id)+
qed

subsection \<open>Properties\<close>

text \<open>
  For every stream and packet, the HTTP/3 datagram that \<open>encode_ip_datagram\<close> builds is decoded
  by \<open>decode_ip_datagram\<close> to the same packet on that stream; on a stream with another quarter stream
  id the datagram is recognised as not ours and yields no packet.
\<close>

lemma ip_datagram_roundtrip:
  "\<exists>w. encode_ip_datagram s pkt = Ret (Inr w) \<and>
     decode_ip_datagram w t =
       Ret (Inr (if quarter_stream_id t = quarter_stream_id s then Some pkt else None))"
proof -
  let ?q = "varint_bytes (quarter_stream_id s)" and ?c = "varint_bytes CONNECT_IP_CONTEXT_ID"
  have c: "CONNECT_IP_CONTEXT_ID \<le> MAX_VAR_INT"
    by (simp add: CONNECT_IP_CONTEXT_ID_def)
  have "encode_ip_datagram s pkt = Ret (Inr (?q @ ?c @ pkt))"
    using quarter_le [of s] c
    by (simp add: encode_ip_datagram_def Let_def with_slice_written masque_varint_len_eq
        put_varint_written put_bytes_written oct_buf_written)
  moreover have "decode_ip_datagram (?q @ ?c @ pkt) t =
      Ret (Inr (if quarter_stream_id t = quarter_stream_id s then Some pkt else None))"
    using varint_dec_bytes [OF quarter_le, of s "?c @ pkt"] varint_dec_bytes [OF c, of pkt]
    by (auto simp: decode_ip_datagram_def get_varint_inv get_bytes_inv)
  ultimately show ?thesis by blast
qed

text \<open>
  \<open>encode_capsule\<close> ignores the errors of its writes, but on every type and value that fit a
  variable-length integer none occurs: the result is exactly type, length and value, and the buffer
  it sized beforehand is filled to the last byte.
\<close>

lemma encode_capsule_exact:
  assumes "kind \<le> MAX_VAR_INT" "length value < 2 ^ 62"
  shows "encode_capsule kind value =
    Ret (varint_bytes kind @ varint_bytes (word_of_nat (length value)) @ value)"
  using encode_capsule_frame [of kind "value"] assms by (simp add: frame_valid_def frame_enc_def)

text \<open>
  C28: The capsule parser's buffer never holds more than \<open>MAX_CAPSULE_BUF\<close> bytes, and \<open>next\<close> never
  panics: it either asks for more data and leaves the buffer as it was, or it yields a capsule or an
  error and removes at least the two bytes of a capsule header. So every drain loop over it ends.
\<close>

theorem capsule_parser_bounded:
  assumes "length (cp_buf p) \<le> MAX_CAPSULE_BUF"
  shows "length (cp_buf (capsule_push p data)) \<le> MAX_CAPSULE_BUF \<and>
    (\<exists>r p'. capsule_next p = Ret (r, p') \<and>
       (if r = Inr None then p' = p else length (cp_buf p') + 2 \<le> length (cp_buf p)))"
proof (intro conjI)
  show "length (cp_buf (capsule_push p data)) \<le> MAX_CAPSULE_BUF"
    by (auto simp: capsule_push_def saturating_add_def MAX_CAPSULE_BUF_def)
  show "\<exists>r p'. capsule_next p = Ret (r, p') \<and>
      (if r = Inr None then p' = p else length (cp_buf p') + 2 \<le> length (cp_buf p))"
  proof (cases "frame_dec (cp_buf p)")
    case None
    then show ?thesis by (simp add: capsule_next_frame)
  next
    case (Some f)
    then obtain k v n where f: "frame_dec (cp_buf p) = Some ((k, v), n)" by (cases f) auto
    then have n: "2 \<le> n" "n \<le> length (cp_buf p)"
      using frame_dec_two [OF f] frame_dec_bounds [OF f] by auto
    obtain r where "capsule_of k v = Ret r"
      using capsule_of_returns [of k v] by (auto simp: returns_iff)
    then have "capsule_next p = Ret (map_sum id Some r, p\<lparr>cp_buf := drop n (cp_buf p)\<rparr>)"
      using f by (simp add: capsule_next_frame)
    moreover have "map_sum id Some r \<noteq> (Inr None :: capsule option result)" by (cases r) auto
    ultimately show ?thesis using n by simp
  qed
qed

theorem capsule_parser_bounded_witness:
  "length (cp_buf (capsule_push \<lparr>cp_buf = [0, 1, 9]\<rparr> [5])) \<le> MAX_CAPSULE_BUF \<and>
    (\<exists>r p'. capsule_next \<lparr>cp_buf = [0, 1, 9]\<rparr> = Ret (r, p') \<and>
       (if r = Inr None then p' = \<lparr>cp_buf = [0, 1, 9]\<rparr>
        else length (cp_buf p') + 2 \<le> length (cp_buf \<lparr>cp_buf = [0, 1, 9]\<rparr>)))"
  by (rule capsule_parser_bounded) (simp add: MAX_CAPSULE_BUF_def)

text \<open>
  Address assignments in the wire format (request id, version, address, prefix length, repeated)
  are parsed back exactly, in order and with nothing left over.
\<close>

lemma address_assign_roundtrip:
  assumes "list_all assigned_ok asg"
  shows "parse_address_assign (concat (map enc_assigned asg)) = Ret (Inr asg)"
  using parse_address_assign_all [of "with_slice (concat (map enc_assigned asg))" asg "[]"] assms
  by (simp add: parse_address_assign_def)

text \<open>
  \<open>strip_datagram_context\<close> accepts an IP packet both bare and behind a zero context id and
  returns the packet itself; the one exception, an IPv4 packet whose header length field is zero
  (first byte 0x40), is not a valid packet. Whatever it returns has the form of an IP packet and is
  the end of the payload.
\<close>

lemma strip_datagram_context_correct:
  "(looks_like_ip_packet pkt \<and> hd pkt \<noteq> 0x40 \<longrightarrow>
      strip_datagram_context pkt = Ret (Some pkt) \<and> strip_datagram_context (0 # pkt) = Ret (Some pkt))
   \<and> (\<exists>r. strip_datagram_context payload = Ret r \<and>
        (\<forall>q. r = Some q \<longrightarrow> looks_like_ip_packet q \<and> (\<exists>pre. payload = pre @ q)))"
proof (intro conjI impI; (elim conjE)?)
  assume ip: "looks_like_ip_packet pkt" and h: "hd pkt \<noteq> 0x40"
  then show "strip_datagram_context pkt = Ret (Some pkt)" by (rule strip_bare)
next
  assume ip: "looks_like_ip_packet pkt"
  have "varint_dec (0 # pkt) = Some (0, 1)"
    using varint_dec_front [of 0 "[]" pkt] by simp
  then show "strip_datagram_context (0 # pkt) = Ret (Some pkt)"
    using ip by (simp add: strip_datagram_context_def get_varint_inv CONNECT_IP_CONTEXT_ID_def)
qed (rule strip_returns)

text \<open>
  The checksum of an IPv4 header verifies: with the checksum field zero when it is computed and
  the result stored there, the receiver's sum over the whole header is zero. Shown for any header
  split around the field at an even offset.
\<close>

lemma ipv4_header_checksum_verifies:
  assumes "even (length a)" "length a + length b \<le> 65000"
  shows "ipv4_header_checksum (a @ to_be16 (ipv4_header_checksum (a @ [0, 0] @ b)) @ b) = 0"
  using checksum_inserted [OF assms refl] .

text \<open>
  The DNS probe packet is well formed for every source address and all random choices: its header
  checksum verifies, its total-length field is its length, and its UDP length field is the length
  less the 20 header bytes.
\<close>

lemma dns_probe_packet_wellformed:
  "let p = build_dns_probe_packet src ip_id sport qid in
     ipv4_header_checksum (take 20 p) = 0 \<and>
     length p = unat (from_be16 (p ! 2) (p ! 3)) \<and>
     length p = 20 + unat (from_be16 (p ! 24) (p ! 25))"
proof -
  let ?a = "[0x45, 0x00] @ to_be16 60 @ to_be16 ip_id @ [0, 0] @ [64, 17]"
  let ?b = "octets4 src @ [8, 8, 8, 8]"
  have q: "length (probe_dns_query qid) = 32"
    by (simp add: probe_dns_query_def utf8_encode_def utf8_char_def)
  have p: "build_dns_probe_packet src ip_id sport qid =
      (?a @ to_be16 (ipv4_header_checksum (?a @ [0, 0] @ ?b)) @ ?b)
      @ to_be16 sport @ to_be16 53 @ to_be16 40 @ [0, 0] @ probe_dns_query qid"
    by (simp add: build_dns_probe_packet_def q Let_def)
  define c where "c = to_be16 (ipv4_header_checksum (?a @ [0, 0] @ ?b))"
  have chk: "ipv4_header_checksum (?a @ c @ ?b) = 0"
    unfolding c_def by (rule checksum_inserted [OF _ _ refl]) simp_all
  have len: "length c = 2" "length (octets4 src) = 4" by (simp_all add: c_def)
  have be: "to_be16 60 = [0, 60]" "to_be16 40 = [0, 40]" by code_simp+
  have "take 20 (build_dns_probe_packet src ip_id sport qid) = ?a @ c @ ?b"
    by (simp add: p [folded c_def] len)
  moreover have "length (build_dns_probe_packet src ip_id sport qid) = 60"
    by (simp add: p [folded c_def] len q)
  moreover have "build_dns_probe_packet src ip_id sport qid ! 2 = 0"
      "build_dns_probe_packet src ip_id sport qid ! 3 = 60"
      "build_dns_probe_packet src ip_id sport qid ! 24 = 0"
      "build_dns_probe_packet src ip_id sport qid ! 25 = 40"
    by (simp_all add: p [folded c_def] be nth_append len)
  ultimately show ?thesis using chk by (simp add: unat_from_be16)
qed

end
