(* ===== verification/Masque_H2.thy ===== *)
theory Masque_H2
  imports Masque_Proto
begin

text \<open>
  The HTTP/2 transport of \<open>masque_h2.rs\<close>: its settings, the capsule receive path
  (\<open>drain_capsules\<close>), flow-controlled sending (\<open>send_capsule\<close>), the data-plane check of \<open>verify_h2\<close>
  and the event loop of \<open>run\<close> after the CONNECT response. TLS, the \<open>h2\<close> crate, the timers and the
  channels of \<open>tokio\<close> are the environment: what they answer is an input of each step, what the code
  asks of them is an action in its output.

  Instants and durations are milliseconds since an arbitrary origin.
\<close>

subsection \<open>Settings\<close>

text \<open>\<open>std::env::var\<close>: \<^term>\<open>None\<close> for an unset (or not Unicode) variable.\<close>

type_synonym env_vars = "str \<Rightarrow> str option"

definition env_secs :: "env_vars \<Rightarrow> str \<Rightarrow> nat \<Rightarrow> nat" where
  "env_secs env name dflt =
     (case Option.bind (env name) (parse_uint 64) of
        None \<Rightarrow> dflt
      | Some v \<Rightarrow> if 0 < v then v else dflt)"

definition data_check_enabled :: "env_vars \<Rightarrow> bool" where
  "data_check_enabled env \<longleftrightarrow> env (lit ''AETHER_MASQUE_NO_DATA_CHECK'') = None"

definition validation_timeout :: "env_vars \<Rightarrow> nat" where
  "validation_timeout env = 1000 * env_secs env (lit ''AETHER_MASQUE_VALIDATE_SECS'') 10"

definition h2_keepalive_interval :: "env_vars \<Rightarrow> nat" where
  "h2_keepalive_interval env = 1000 * env_secs env (lit ''AETHER_MASQUE_H2_KEEPALIVE_SECS'') 15"

definition h2_keepalive_timeout :: "env_vars \<Rightarrow> nat" where
  "h2_keepalive_timeout env =
     1000 * env_secs env (lit ''AETHER_MASQUE_H2_KEEPALIVE_TIMEOUT_SECS'') 20"

definition DATA_PROBE_REQUIRED_SUCCESSES :: nat where
  "DATA_PROBE_REQUIRED_SUCCESSES = 2"

definition h2_enabled :: "unicode \<Rightarrow> env_vars \<Rightarrow> bool" where
  "h2_enabled U env =
     (case env (lit ''AETHER_MASQUE_HTTP2'') of
        Some v \<Rightarrow>
          let v = to_lowercase U (trim v) in
          v = lit ''1'' \<or> v = lit ''true'' \<or> v = lit ''h2'' \<or> v = lit ''yes'' \<or> v = lit ''on''
      | None \<Rightarrow> False)"

definition h2_peer :: "env_vars \<Rightarrow> sock_addr \<Rightarrow> sock_addr" where
  "h2_peer env quic_peer =
     (case env (lit ''AETHER_MASQUE_H2_PEER'') of
        Some v \<Rightarrow> (case parse_sock_addr (trim v) of Some a \<Rightarrow> a | None \<Rightarrow> quic_peer)
      | None \<Rightarrow> quic_peer)"

subsection \<open>Receiving\<close>

definition bytes_to_ip :: "u8 \<Rightarrow> bytes \<Rightarrow> ip_addr option" where
  "bytes_to_ip version bs =
     (if version = 4 \<and> length bs = 4 then Some (V4 (ipv4_from bs))
      else if version = 6 \<and> length bs = 16 then Some (V6 (ipv6_from bs))
      else None)"

text \<open>
  What the receive path hands on: a packet offered to the inbound queue, or an assigned address
  offered to the address queue. The inbound queue's answer to an offer may depend on all offers
  so far; the answer of the address queue is ignored by the code.
\<close>

datatype h2_offer = Inbound bytes | Assigned ip_addr u8

type_synonym inbound_queue = "h2_offer list \<Rightarrow> bytes \<Rightarrow> send_result"

definition assigned_offers :: "bool \<Rightarrow> assigned_address list \<Rightarrow> h2_offer list" where
  "assigned_offers addr_tx addrs =
     concat (map (\<lambda>a. case bytes_to_ip (aa_ip_version a) (address a) of
                        Some ip \<Rightarrow> if addr_tx then [Assigned ip (prefix_len a)] else []
                      | None \<Rightarrow> []) addrs)"

lemma capsule_next_consumes:
  "capsule_next p = Ret (Inr (Some c), p') \<Longrightarrow> length (cp_buf p') < length (cp_buf p)"
  using frame_dec_bounds [of "cp_buf p"]
  by (fastforce simp: capsule_next_frame out_bind_eq_Ret split: option.splits prod.splits)

function drain_capsules ::
  "inbound_queue \<Rightarrow> bool \<Rightarrow> capsule_parser \<Rightarrow> bool \<Rightarrow> h2_offer list
    \<Rightarrow> (bool \<times> capsule_parser \<times> h2_offer list) outcome" where
  "drain_capsules queue addr_tx capsules delivered offers =
     out_bind (capsule_next capsules) (\<lambda>(r, capsules').
       case r of
         Inl _ \<Rightarrow> Ret (delivered, capsules', offers)
       | Inr None \<Rightarrow> Ret (delivered, capsules', offers)
       | Inr (Some c) \<Rightarrow>
           (case c of
              Datagram payload \<Rightarrow>
                out_bind (strip_datagram_context payload) (\<lambda>inner.
                case inner of
                  None \<Rightarrow> drain_capsules queue addr_tx capsules' delivered offers
                | Some pkt \<Rightarrow>
                    if queue offers pkt = SendClosed
                    then Ret (True, capsules', offers @ [Inbound pkt])
                    else drain_capsules queue addr_tx capsules' True (offers @ [Inbound pkt]))
            | AddressAssign addrs \<Rightarrow>
                drain_capsules queue addr_tx capsules' delivered
                  (offers @ assigned_offers addr_tx addrs)
            | _ \<Rightarrow> drain_capsules queue addr_tx capsules' delivered offers))"
  by pat_completeness auto
termination
  by (relation "measure (\<lambda>(_, _, p, _, _). length (cp_buf p))") (auto dest: capsule_next_consumes)

declare drain_capsules.simps [simp del]

subsection \<open>Sending\<close>

text \<open>
  \<open>send_capsule\<close> waits for flow-control capacity. The environment gives the capacity after
  \<open>reserve_capacity\<close>, then for each poll either the new capacity, an error, or the end of the
  stream; the result is \<^term>\<open>None\<close> as long as the polls so far leave it waiting.
\<close>

datatype capacity_poll = CapReady nat | CapErr str | CapClosed

fun wait_capacity :: "nat \<Rightarrow> nat \<Rightarrow> capacity_poll list \<Rightarrow> unit result option" where
  "wait_capacity len c polls =
     (if len \<le> c then Some (Inr ())
      else case polls of
             [] \<Rightarrow> None
           | CapReady c' # polls' \<Rightarrow> wait_capacity len c' polls'
           | CapErr e # _ \<Rightarrow> Some (Inl (Masque (lit ''h2 capacity: '' @ e)))
           | CapClosed # _ \<Rightarrow> Some (Inl (Masque (lit ''h2 stream closed''))))"

declare wait_capacity.simps [simp del]

record send_env =
  se_capacity :: nat
  se_polls :: "capacity_poll list"
  se_send_data :: "str + unit"

text \<open>The second component is what was handed to \<open>send_data\<close>.\<close>

definition send_capsule :: "send_env \<Rightarrow> bytes \<Rightarrow> (unit result \<times> bytes option) option" where
  "send_capsule se data =
     (if length data = 0 then Some (Inr (), None)
      else case wait_capacity (length data) (se_capacity se) (se_polls se) of
             None \<Rightarrow> None
           | Some (Inl e) \<Rightarrow> Some (Inl e, None)
           | Some (Inr _) \<Rightarrow>
               (case se_send_data se of
                  Inl e \<Rightarrow> Some (Inl (Masque (lit ''h2 send_data: '' @ e)), None)
                | Inr _ \<Rightarrow> Some (Inr (), Some data)))"

subsection \<open>The event loop\<close>

record h2_cfg =
  hc_data_check :: bool
  hc_probe :: bytes
  hc_validation :: nat
  hc_keepalive :: nat
  hc_addr_tx :: bool

record h2_state =
  ready_fired :: bool
  ready_tx :: bool
  validate_successes :: nat
  validate_deadline :: "nat option"
  awaiting_pong :: bool
  pong_deadline :: "nat option"
  capsules :: capsule_parser

datatype h2_action =
    SendCapsule bytes
  | SendEnd
  | SendPing
  | SignalReady
  | Offer h2_offer

datatype control = Close | Migrate

text \<open>
  The branch the \<open>select!\<close> takes, with the answers the environment gives in it. Every send carries
  the flow-control environment it meets.
\<close>

datatype h2_event =
    KeepaliveTick "str + unit" nat
  | Pong "str + unit"
  | ProbeTick send_env
  | Ctrl "control option"
  | Outbound "bytes option" send_env
  | Data "(str + bytes) option" inbound_queue send_env

definition h2_guard :: "h2_cfg \<Rightarrow> h2_state \<Rightarrow> h2_event \<Rightarrow> bool" where
  "h2_guard cfg st ev =
     (case ev of
        KeepaliveTick _ _ \<Rightarrow> ready_fired st \<and> \<not> awaiting_pong st
      | Pong _ \<Rightarrow> awaiting_pong st
      | ProbeTick _ \<Rightarrow> hc_data_check cfg \<and> \<not> ready_fired st
      | _ \<Rightarrow> True)"

text \<open>The result of one iteration: the loop goes on with a state, or \<open>run\<close> returns.\<close>

type_synonym h2_next = "h2_action list \<times> (unit result + h2_state)"

definition fire_ready :: "h2_state \<Rightarrow> h2_action list \<times> h2_state" where
  "fire_ready st = (if ready_tx st then [SignalReady] else [], st\<lparr>ready_tx := False\<rparr>)"

definition sent_action :: "bytes option \<Rightarrow> h2_action list" where
  "sent_action d = (case d of None \<Rightarrow> [] | Some bs \<Rightarrow> [SendCapsule bs])"

definition h2_init :: "h2_cfg \<Rightarrow> bool \<Rightarrow> nat \<Rightarrow> send_env \<Rightarrow> (h2_action list \<times> h2_state) option outcome" where
  "h2_init cfg has_ready_tx now se =
     (let st = \<lparr>ready_fired = False, ready_tx = has_ready_tx, validate_successes = 0,
                validate_deadline = None, awaiting_pong = False, pong_deadline = None,
                capsules = capsule_parser_new\<rparr> in
      if hc_data_check cfg then
        out_bind (encode_datagram_capsule (hc_probe cfg)) (\<lambda>framed.
        Ret (map_option (\<lambda>(_, d). (sent_action d, st\<lparr>validate_deadline := Some (now + hc_validation cfg)\<rparr>))
               (send_capsule se framed)))
      else
        let (acts, st) = fire_ready (st\<lparr>ready_fired := True\<rparr>) in Ret (Some (acts, st)))"

definition h2_head :: "h2_cfg \<Rightarrow> h2_state \<Rightarrow> nat \<Rightarrow> nat \<Rightarrow> h2_next option" where
  "h2_head cfg st now1 now2 =
     (if hc_data_check cfg \<and> \<not> ready_fired st
         \<and> (case validate_deadline st of Some dl \<Rightarrow> dl \<le> now1 | None \<Rightarrow> False)
      then Some ([SendEnd], Inl (Inl (Masque (lit ''h2 data-plane validation timeout (handshake ok, no traffic)''))))
      else if (case pong_deadline st of Some dl \<Rightarrow> dl \<le> now2 | None \<Rightarrow> False)
      then Some ([SendEnd], Inl (Inl (Masque (lit ''h2 keepalive timeout''))))
      else None)"

definition h2_data :: "h2_cfg \<Rightarrow> h2_state \<Rightarrow> bytes \<Rightarrow> inbound_queue \<Rightarrow> send_env \<Rightarrow> h2_next option outcome" where
  "h2_data cfg st chunk queue se =
     out_bind (drain_capsules queue (hc_addr_tx cfg) (capsule_push (capsules st) chunk) False [])
       (\<lambda>(got_data, capsules', offers).
        let acts = map Offer offers; st = st\<lparr>capsules := capsules'\<rparr> in
        if got_data \<and> \<not> ready_fired st then
          let st = st\<lparr>validate_successes := validate_successes st + 1\<rparr> in
          if DATA_PROBE_REQUIRED_SUCCESSES \<le> validate_successes st then
            let (sig, st) = fire_ready (st\<lparr>ready_fired := True, validate_deadline := None\<rparr>)
            in Ret (Some (acts @ sig, Inr st))
          else
            out_bind (encode_datagram_capsule (hc_probe cfg)) (\<lambda>framed.
            Ret (map_option (\<lambda>(_, d). (acts @ sent_action d, Inr st)) (send_capsule se framed)))
        else Ret (Some (acts, Inr st)))"

definition h2_branch :: "h2_cfg \<Rightarrow> h2_state \<Rightarrow> h2_event \<Rightarrow> h2_next option outcome" where
  "h2_branch cfg st ev =
     (case ev of
        KeepaliveTick (Inr _) now \<Rightarrow>
          Ret (Some ([SendPing], Inr (st\<lparr>awaiting_pong := True, pong_deadline := Some (now + hc_keepalive cfg)\<rparr>)))
      | KeepaliveTick (Inl _) _ \<Rightarrow> Ret (Some ([], Inr st))
      | Pong (Inr _) \<Rightarrow> Ret (Some ([], Inr (st\<lparr>awaiting_pong := False, pong_deadline := None\<rparr>)))
      | Pong (Inl e) \<Rightarrow> Ret (Some ([SendEnd], Inl (Inl (Masque (lit ''h2 keepalive: '' @ e)))))
      | ProbeTick se \<Rightarrow>
          out_bind (encode_datagram_capsule (hc_probe cfg)) (\<lambda>framed.
          Ret (map_option (\<lambda>(_, d). (sent_action d, Inr st)) (send_capsule se framed)))
      | Ctrl (Some Migrate) \<Rightarrow> Ret (Some ([], Inr st))
      | Ctrl _ \<Rightarrow> Ret (Some ([SendEnd], Inl (Inr ())))
      | Outbound (Some pkt) se \<Rightarrow>
          out_bind (encode_datagram_capsule pkt) (\<lambda>framed.
          Ret (map_option (\<lambda>(r, d). (sent_action d, case r of Inl e \<Rightarrow> Inl (Inl e) | Inr _ \<Rightarrow> Inr st))
                 (send_capsule se framed)))
      | Outbound None se \<Rightarrow> Ret (Some ([SendEnd], Inl (Inr ())))
      | Data (Some (Inr chunk)) queue se \<Rightarrow> h2_data cfg st chunk queue se
      | Data (Some (Inl e)) _ _ \<Rightarrow> Ret (Some ([], Inl (Inl (Masque (lit ''h2 body: '' @ e)))))
      | Data None _ _ \<Rightarrow> Ret (Some ([], Inl (Inr ()))))"

text \<open>One iteration of the loop: the deadline checks, then the branch that is taken.\<close>

inductive h2_step :: "h2_cfg \<Rightarrow> h2_state \<Rightarrow> h2_action list \<Rightarrow> unit result + h2_state \<Rightarrow> bool"
  for cfg where
  head: "h2_head cfg st now1 now2 = Some (acts, res) \<Longrightarrow> h2_step cfg st acts res"
| branch: "h2_head cfg st now1 now2 = None \<Longrightarrow> h2_guard cfg st ev
    \<Longrightarrow> h2_branch cfg st ev = Ret (Some (acts, res)) \<Longrightarrow> h2_step cfg st acts res"

inductive h2_run :: "h2_cfg \<Rightarrow> h2_action list \<Rightarrow> h2_state \<Rightarrow> bool"
  for cfg where
  init: "h2_init cfg has_tx now se = Ret (Some (acts, st)) \<Longrightarrow> h2_run cfg acts st"
| step: "h2_run cfg acts st \<Longrightarrow> h2_step cfg st acts' (Inr st') \<Longrightarrow> h2_run cfg (acts @ acts') st'"

subsection \<open>The data-plane check of \<open>verify_h2\<close>\<close>

text \<open>
  One chunk: the number of successes so far goes in and, unless the check ends, comes out; probes
  counts the follow-up probes sent. \<open>send\<close> gives the outcome of the n-th follow-up probe's send.
\<close>

datatype verify_result = Verified | VerifyFailed aether_error | VerifyGoesOn nat

function verify_drain ::
  "(nat \<Rightarrow> unit result) \<Rightarrow> capsule_parser \<Rightarrow> nat \<Rightarrow> (verify_result \<times> capsule_parser) outcome" where
  "verify_drain send p successes =
     out_bind (capsule_next p) (\<lambda>(r, p').
       case r of
         Inl _ \<Rightarrow> Ret (VerifyGoesOn successes, p')
       | Inr None \<Rightarrow> Ret (VerifyGoesOn successes, p')
       | Inr (Some c) \<Rightarrow>
           (case c of
              Datagram _ \<Rightarrow>
                if DATA_PROBE_REQUIRED_SUCCESSES \<le> successes + 1 then Ret (Verified, p')
                else (case send (successes + 1) of
                        Inl e \<Rightarrow> Ret (VerifyFailed e, p')
                      | Inr _ \<Rightarrow> verify_drain send p' (successes + 1))
            | _ \<Rightarrow> verify_drain send p' successes))"
  by pat_completeness auto
termination
  by (relation "measure (\<lambda>(_, p, _). length (cp_buf p))") (auto dest: capsule_next_consumes)

declare verify_drain.simps [simp del]

text \<open>
  The receive loop over what \<open>poll_data\<close> yields. A list that ends without a result stands for a
  body that stays silent: the attempt then runs into its timeout.
\<close>

fun verify_loop ::
  "(nat \<Rightarrow> unit result) \<Rightarrow> capsule_parser \<Rightarrow> nat \<Rightarrow> (str + bytes) option list \<Rightarrow> unit result outcome" where
  "verify_loop send p successes [] = Ret (Inl (Other (lit ''h2 verify timeout'')))"
| "verify_loop send p successes (Some (Inr chunk) # evs) =
     out_bind (verify_drain send (capsule_push p chunk) successes) (\<lambda>(r, p').
       case r of
         Verified \<Rightarrow> Ret (Inr ())
       | VerifyFailed e \<Rightarrow> Ret (Inl e)
       | VerifyGoesOn n \<Rightarrow> verify_loop send p' n evs)"
| "verify_loop send p successes (Some (Inl e) # evs) = Ret (Inl (Masque (lit ''h2 body: '' @ e)))"
| "verify_loop send p successes (None # evs) = Ret (Inl (Masque (lit ''h2 stream closed before data'')))"

definition verify_attempt ::
  "bool \<Rightarrow> nat \<Rightarrow> (nat \<Rightarrow> unit result) \<Rightarrow> (str + bytes) option list \<Rightarrow> unit result outcome" where
  "verify_attempt data_check status send evs =
     (if \<not> (200 \<le> status \<and> status < 300)
      then Ret (Inl (Masque (lit ''h2 connect-ip status '' @ show_nat status)))
      else if \<not> data_check then Ret (Inr ())
      else case send 0 of
             Inl e \<Rightarrow> Ret (Inl e)
           | Inr _ \<Rightarrow> verify_loop send capsule_parser_new 0 evs)"

subsection \<open>Lemmas\<close>

definition ip_payload :: "bytes \<Rightarrow> bool" where
  "ip_payload pkt \<longleftrightarrow> looks_like_ip_packet pkt \<and> hd pkt \<noteq> 0x40 \<and> length pkt \<le> 65535"

abbreviation datagram_frame :: "bytes \<Rightarrow> u64 \<times> bytes" where
  "datagram_frame pkt \<equiv> (CAPSULE_DATAGRAM, pkt)"

lemma datagram_frame_valid: "length pkt \<le> 65535 \<Longrightarrow> frame_valid (datagram_frame pkt)"
  by (simp add: frame_valid_def CAPSULE_DATAGRAM_def)

lemma encode_datagram_frame:
  "length pkt \<le> 65535 \<Longrightarrow> encode_datagram_capsule pkt = Ret (frame_enc (datagram_frame pkt))"
  using datagram_frame_valid [of pkt]
  by (simp add: encode_datagram_capsule_def encode_capsule_frame)

lemma length_frame_enc: "length (frame_enc m) \<le> length (snd m) + 16"
  using length_varint_bytes [of "fst m"] length_varint_bytes [of "word_of_nat (length (snd m))"]
  by (auto simp: frame_enc_def)

lemma capsule_next_datagram:
  "frame_dec (cp_buf p) = Some (datagram_frame pkt, n) \<Longrightarrow>
   capsule_next p = Ret (Inr (Some (Datagram pkt)), p\<lparr>cp_buf := drop n (cp_buf p)\<rparr>)"
  by (simp add: capsule_next_frame capsule_of_def CAPSULE_DATAGRAM_def CAPSULE_ADDRESS_ASSIGN_def
      CAPSULE_ADDRESS_REQUEST_def CAPSULE_ROUTE_ADVERTISEMENT_def)

lemma drain_capsules_None:
  "frame_dec (cp_buf p) = None \<Longrightarrow> drain_capsules queue tx p d offers = Ret (d, p, offers)"
  by (simp add: drain_capsules.simps [of queue tx p] capsule_next_frame)

lemma drain_capsules_packets:
  assumes "list_all ip_payload pkts" "\<forall>tr pkt. queue tr pkt \<noteq> SendClosed" "frame_dec rest = None"
  shows "drain_capsules queue tx \<lparr>cp_buf = concat (map (\<lambda>p. frame_enc (datagram_frame p)) pkts) @ rest\<rparr> d offers
    = Ret (d \<or> pkts \<noteq> [], \<lparr>cp_buf = rest\<rparr>, offers @ map Inbound pkts)"
  using assms(1)
proof (induction pkts arbitrary: d offers)
  case Nil
  then show ?case using assms(3) by (simp add: drain_capsules_None)
next
  case (Cons pkt pkts)
  let ?tl = "concat (map (\<lambda>p. frame_enc (datagram_frame p)) pkts) @ rest"
  have "frame_dec (frame_enc (datagram_frame pkt) @ ?tl) = Some (datagram_frame pkt, length (frame_enc (datagram_frame pkt)))"
    using Cons.prems by (intro frame_dec_enc datagram_frame_valid) (simp add: ip_payload_def)
  then have "capsule_next \<lparr>cp_buf = frame_enc (datagram_frame pkt) @ ?tl\<rparr>
      = Ret (Inr (Some (Datagram pkt)), \<lparr>cp_buf = ?tl\<rparr>)"
    using capsule_next_datagram [of "\<lparr>cp_buf = frame_enc (datagram_frame pkt) @ ?tl\<rparr>"] by simp
  moreover have "strip_datagram_context pkt = Ret (Some pkt)"
    using Cons.prems by (simp add: ip_payload_def strip_bare)
  ultimately show ?case
    using Cons assms(2) by (subst drain_capsules.simps) simp
qed

text \<open>A pushed chunk completes a number of frames and leaves less than one.\<close>

lemma push_frames:
  assumes "list_all (\<lambda>p. length p \<le> 65535) pkts" "length chunk \<le> 131072" "length (cp_buf p) \<le> 65551"
    "cp_buf p @ chunk @ post = concat (map (\<lambda>p. frame_enc (datagram_frame p)) pkts)"
  obtains p1 p2 rest where "pkts = p1 @ p2"
    "capsule_push p chunk = \<lparr>cp_buf = concat (map (\<lambda>p. frame_enc (datagram_frame p)) p1) @ rest\<rparr>"
    "frame_dec rest = None" "length rest \<le> 65551"
    "rest @ post = concat (map (\<lambda>p. frame_enc (datagram_frame p)) p2)"
proof -
  have "(cp_buf p @ chunk) @ post = concat (map frame_enc (map datagram_frame pkts))"
    using assms(4) by (simp add: comp_def)
  then obtain ms1 ms2 rest where ms: "map datagram_frame pkts = ms1 @ ms2"
      "cp_buf p @ chunk = concat (map frame_enc ms1) @ rest" "rest @ post = concat (map frame_enc ms2)"
      "case ms2 of [] \<Rightarrow> rest = [] | m # _ \<Rightarrow> length rest < length (frame_enc m)"
    by (rule frames.prefix_split)
  obtain p1 p2 where p12: "pkts = p1 @ p2" "ms1 = map datagram_frame p1" "ms2 = map datagram_frame p2"
    using ms(1) by (auto simp: map_eq_append_conv)
  have sizes: "list_all (\<lambda>p. length p \<le> 65535) p2" using assms(1) p12(1) by simp
  then have "list_all frame_valid ms2"
    by (auto simp: p12(3) list_all_iff datagram_frame_valid)
  with ms(3,4) have none: "frame_dec rest = None" by (intro frames.dec_prefix_None)
  have len: "length rest \<le> 65551"
  proof (cases p2)
    case (Cons x xs)
    then show ?thesis using ms(4) p12(3) sizes length_frame_enc [of "datagram_frame x"] by simp
  qed (use ms(4) p12(3) in simp)
  have "length (cp_buf p) + length chunk \<le> MAX_CAPSULE_BUF"
    using assms(2,3) by (simp add: MAX_CAPSULE_BUF_def)
  then have "capsule_push p chunk = \<lparr>cp_buf = concat (map (\<lambda>p. frame_enc (datagram_frame p)) p1) @ rest\<rparr>"
    using ms(2) by (simp add: capsule_push_def saturating_add_def p12(2) comp_def)
  then show ?thesis using that [of p1 p2 rest] p12(1) none len ms(3) by (simp add: p12(3) comp_def)
qed

text \<open>The receive side of the loop over a sequence of body chunks.\<close>

fun h2_receive ::
  "inbound_queue \<Rightarrow> bool \<Rightarrow> capsule_parser \<Rightarrow> bytes list \<Rightarrow> h2_offer list
    \<Rightarrow> (capsule_parser \<times> h2_offer list) outcome" where
  "h2_receive queue tx p [] offers = Ret (p, offers)"
| "h2_receive queue tx p (chunk # chunks) offers =
     out_bind (drain_capsules queue tx (capsule_push p chunk) False offers)
       (\<lambda>(_, p', offers'). h2_receive queue tx p' chunks offers')"

lemma h2_receive_packets:
  assumes "list_all ip_payload pkts" "\<forall>tr pkt. queue tr pkt \<noteq> SendClosed"
    "\<forall>c \<in> set chunks. length c \<le> 131072" "length (cp_buf p) \<le> 65551"
    "cp_buf p @ concat chunks = concat (map (\<lambda>p. frame_enc (datagram_frame p)) pkts)"
    "frame_dec (cp_buf p) = None"
  shows "h2_receive queue tx p chunks offers = Ret (capsule_parser_new, offers @ map Inbound pkts)"
  using assms(1,3-6)
proof (induction chunks arbitrary: p pkts offers)
  case Nil
  then show ?case
  proof (cases pkts)
    case (Cons pkt rest)
    then have "frame_valid (datagram_frame pkt)"
      using Nil.prems(1) by (simp add: ip_payload_def datagram_frame_valid)
    then show ?thesis using Nil.prems(4,5) Cons frame_dec_enc by simp
  qed (simp add: capsule_parser_new_def)
next
  case (Cons chunk chunks)
  have "list_all (\<lambda>p. length p \<le> 65535) pkts" using Cons.prems(1) by (auto simp: list_all_iff ip_payload_def)
  then obtain p1 p2 rest where split: "pkts = p1 @ p2"
    "capsule_push p chunk = \<lparr>cp_buf = concat (map (\<lambda>p. frame_enc (datagram_frame p)) p1) @ rest\<rparr>"
    "frame_dec rest = None" "length rest \<le> 65551"
    "rest @ concat chunks = concat (map (\<lambda>p. frame_enc (datagram_frame p)) p2)"
    using Cons.prems by (elim push_frames [where post = "concat chunks"]) auto
  have "h2_receive queue tx \<lparr>cp_buf = rest\<rparr> chunks (offers @ map Inbound p1)
      = Ret (capsule_parser_new, (offers @ map Inbound p1) @ map Inbound p2)"
    by (rule Cons.IH) (use Cons.prems split in simp_all)
  then show ?case
    using drain_capsules_packets [OF _ assms(2) split(3), of p1] Cons.prems(1) by (simp add: split(1,2))
qed

subsection \<open>Invariants of the event loop\<close>

definition is_inbound :: "h2_action \<Rightarrow> bool" where
  "is_inbound a = (case a of Offer (Inbound _) \<Rightarrow> True | _ \<Rightarrow> False)"

lemma is_inbound_simps [simp]:
  "is_inbound (Offer (Inbound p))" "\<not> is_inbound SignalReady" "\<not> is_inbound SendPing"
  "\<not> is_inbound SendEnd" "\<not> is_inbound (SendCapsule b)" "\<not> is_inbound (Offer (Assigned ip n))"
  by (simp_all add: is_inbound_def)

lemma assigned_offers_Assigned: "x \<in> set (assigned_offers tx addrs) \<Longrightarrow> \<exists>ip n. x = Assigned ip n"
  by (auto simp: assigned_offers_def split: option.splits if_splits)

lemma capsule_next_returns: "\<exists>r p'. capsule_next p = Ret (r, p')"
proof (cases "frame_dec (cp_buf p)")
  case (Some f)
  then show ?thesis
    using capsule_of_returns [of "fst (fst f)" "snd (fst f)"]
    by (auto simp: capsule_next_frame returns_iff split: prod.splits)
qed (simp add: capsule_next_frame)

lemma drain_capsules_one:
  assumes "capsule_next p = Ret (Inr (Some c), p1)"
  obtains d1 new1 where "d1 \<longleftrightarrow> d \<or> (\<exists>pkt. Inbound pkt \<in> set new1)"
    "drain_capsules queue tx p d offers = drain_capsules queue tx p1 d1 (offers @ new1)
     \<or> drain_capsules queue tx p d offers = Ret (d1, p1, offers @ new1)"
proof (cases c)
  case (Datagram payload)
  obtain inner where "strip_datagram_context payload = Ret inner" using strip_returns by blast
  with assms Datagram have start: "drain_capsules queue tx p d offers =
      (case inner of None \<Rightarrow> drain_capsules queue tx p1 d offers
       | Some pkt \<Rightarrow> if queue offers pkt = SendClosed then Ret (True, p1, offers @ [Inbound pkt])
                     else drain_capsules queue tx p1 True (offers @ [Inbound pkt]))"
    by (subst drain_capsules.simps) simp
  show ?thesis
    using that [of d "[]"] that [of True "[Inbound (the inner)]"] start by (cases inner) auto
next
  case (AddressAssign addrs)
  with assms show ?thesis
    by (intro that [of d "assigned_offers tx addrs"])
      (auto simp: drain_capsules.simps [of queue tx p] dest: assigned_offers_Assigned)
qed (use assms that [of d "[]"] in \<open>simp_all add: drain_capsules.simps [of queue tx p]\<close>)

lemma drain_capsules_effect:
  "\<exists>d' p' new. drain_capsules queue tx p d offers = Ret (d', p', offers @ new)
    \<and> length (cp_buf p') \<le> length (cp_buf p)
    \<and> (d' \<longleftrightarrow> d \<or> (\<exists>pkt. Inbound pkt \<in> set new))"
proof (induction "length (cp_buf p)" arbitrary: p d offers rule: less_induct)
  case less
  obtain r p1 where n: "capsule_next p = Ret (r, p1)" using capsule_next_returns by blast
  have shrink: "length (cp_buf p1) \<le> length (cp_buf p)"
    using n by (auto simp: capsule_next_frame out_bind_eq_Ret split: option.splits prod.splits)
  show ?case
  proof (cases "\<exists>c. r = Inr (Some c)")
    case False
    then show ?thesis using n shrink
      by (subst drain_capsules.simps) (auto split: sum.splits option.splits)
  next
    case True
    then obtain c where c: "capsule_next p = Ret (Inr (Some c), p1)" using n by blast
    obtain d1 new1 where one: "d1 \<longleftrightarrow> d \<or> (\<exists>pkt. Inbound pkt \<in> set new1)"
      "drain_capsules queue tx p d offers = drain_capsules queue tx p1 d1 (offers @ new1)
       \<or> drain_capsules queue tx p d offers = Ret (d1, p1, offers @ new1)"
      by (rule drain_capsules_one [OF c])
    obtain d' p' new where "drain_capsules queue tx p1 d1 (offers @ new1) = Ret (d', p', (offers @ new1) @ new)"
        "length (cp_buf p') \<le> length (cp_buf p1)" "d' \<longleftrightarrow> d1 \<or> (\<exists>pkt. Inbound pkt \<in> set new)"
      using less.hyps [OF capsule_next_consumes [OF c], of d1 "offers @ new1"] by blast
    with one shrink show ?thesis by (elim disjE) fastforce+
  qed
qed

definition signal_ok :: "h2_cfg \<Rightarrow> h2_action list \<Rightarrow> bool" where
  "signal_ok cfg acts \<longleftrightarrow> (\<forall>a b. acts = a @ SignalReady # b \<longrightarrow>
     SignalReady \<notin> set (a @ b) \<and> SendPing \<notin> set a
     \<and> (hc_data_check cfg \<longrightarrow> DATA_PROBE_REQUIRED_SUCCESSES \<le> length (filter is_inbound a)))"

lemma signal_ok_none: "SignalReady \<notin> set acts \<Longrightarrow> signal_ok cfg acts"
  by (auto simp: signal_ok_def)

lemma signal_ok_append:
  assumes "signal_ok cfg acts" "SignalReady \<notin> set acts'"
  shows "signal_ok cfg (acts @ acts')"
  unfolding signal_ok_def
proof (intro allI impI)
  fix a b
  assume eq: "acts @ acts' = a @ SignalReady # b"
  with assms(2) obtain b' where "acts = a @ SignalReady # b'" "b = b' @ acts'"
    by (auto simp: append_eq_append_conv2 append_eq_Cons_conv)
  then show "SignalReady \<notin> set (a @ b) \<and> SendPing \<notin> set a
     \<and> (hc_data_check cfg \<longrightarrow> DATA_PROBE_REQUIRED_SUCCESSES \<le> length (filter is_inbound a))"
    using assms by (simp add: signal_ok_def)
qed

lemma signal_ok_last:
  assumes "SignalReady \<notin> set acts" "SendPing \<notin> set acts"
    "hc_data_check cfg \<Longrightarrow> DATA_PROBE_REQUIRED_SUCCESSES \<le> length (filter is_inbound acts)"
  shows "signal_ok cfg (acts @ [SignalReady])"
  unfolding signal_ok_def
proof (intro allI impI)
  fix a b
  assume eq: "acts @ [SignalReady] = a @ SignalReady # b"
  with assms(1) have "a = acts" "b = []"
    by (auto simp: append_eq_append_conv2 Cons_eq_append_conv append_eq_Cons_conv)
  then show "SignalReady \<notin> set (a @ b) \<and> SendPing \<notin> set a
     \<and> (hc_data_check cfg \<longrightarrow> DATA_PROBE_REQUIRED_SUCCESSES \<le> length (filter is_inbound a))"
    using assms by simp
qed

definition h2_inv :: "h2_cfg \<Rightarrow> h2_action list \<Rightarrow> h2_state \<Rightarrow> bool" where
  "h2_inv cfg acts st \<longleftrightarrow>
     (awaiting_pong st \<longleftrightarrow> pong_deadline st \<noteq> None)
   \<and> (\<not> ready_fired st \<longrightarrow>
        SignalReady \<notin> set acts \<and> SendPing \<notin> set acts \<and> hc_data_check cfg \<and> validate_deadline st \<noteq> None
        \<and> validate_successes st \<le> length (filter is_inbound acts)
        \<and> validate_successes st < DATA_PROBE_REQUIRED_SUCCESSES)
   \<and> signal_ok cfg acts
   \<and> length (cp_buf (capsules st)) \<le> MAX_CAPSULE_BUF"

lemma sent_action_clean [simp]:
  "SignalReady \<notin> set (sent_action d)" "SendPing \<notin> set (sent_action d)" "filter is_inbound (sent_action d) = []"
  by (auto simp: sent_action_def split: option.splits)

lemma h2_inv_init: "h2_init cfg has_tx now se = Ret (Some (acts, st)) \<Longrightarrow> h2_inv cfg acts st"
  using signal_ok_last [of "[]" cfg] signal_ok_none [of _ cfg]
  by (auto simp: h2_init_def h2_inv_def fire_ready_def capsule_parser_new_def out_bind_eq_Ret
      DATA_PROBE_REQUIRED_SUCCESSES_def Let_def MAX_CAPSULE_BUF_def split: if_splits)

lemma h2_branch_simps:
  "h2_branch cfg st (KeepaliveTick (Inr u) now) =
     Ret (Some ([SendPing], Inr (st\<lparr>awaiting_pong := True, pong_deadline := Some (now + hc_keepalive cfg)\<rparr>)))"
  "h2_branch cfg st (KeepaliveTick (Inl e) now) = Ret (Some ([], Inr st))"
  "h2_branch cfg st (Pong (Inr u)) = Ret (Some ([], Inr (st\<lparr>awaiting_pong := False, pong_deadline := None\<rparr>)))"
  "h2_branch cfg st (Pong (Inl e)) = Ret (Some ([SendEnd], Inl (Inl (Masque (lit ''h2 keepalive: '' @ e)))))"
  "h2_branch cfg st (ProbeTick se) =
     out_bind (encode_datagram_capsule (hc_probe cfg)) (\<lambda>framed.
     Ret (map_option (\<lambda>(_, d). (sent_action d, Inr st)) (send_capsule se framed)))"
  "h2_branch cfg st (Ctrl (Some Migrate)) = Ret (Some ([], Inr st))"
  "h2_branch cfg st (Ctrl (Some Close)) = Ret (Some ([SendEnd], Inl (Inr ())))"
  "h2_branch cfg st (Ctrl None) = Ret (Some ([SendEnd], Inl (Inr ())))"
  "h2_branch cfg st (Outbound (Some pkt) se) =
     out_bind (encode_datagram_capsule pkt) (\<lambda>framed.
     Ret (map_option (\<lambda>(r, d). (sent_action d, case r of Inl e \<Rightarrow> Inl (Inl e) | Inr _ \<Rightarrow> Inr st))
            (send_capsule se framed)))"
  "h2_branch cfg st (Outbound None se) = Ret (Some ([SendEnd], Inl (Inr ())))"
  "h2_branch cfg st (Data (Some (Inr chunk)) queue se) = h2_data cfg st chunk queue se"
  "h2_branch cfg st (Data (Some (Inl e)) queue se) =
     Ret (Some ([], Inl (Inl (Masque (lit ''h2 body: '' @ e)))))"
  "h2_branch cfg st (Data None queue se) = Ret (Some ([], Inl (Inr ())))"
  by (simp_all only: h2_branch_def h2_event.case sum.case option.case control.case)

text \<open>An iteration that changes neither the readiness nor its counters.\<close>

definition h2_quiet :: "h2_state \<Rightarrow> h2_action list \<Rightarrow> h2_state \<Rightarrow> bool" where
  "h2_quiet st acts st' \<longleftrightarrow>
     SignalReady \<notin> set acts \<and> (SendPing \<notin> set acts \<or> ready_fired st)
   \<and> ready_fired st' = ready_fired st \<and> validate_deadline st' = validate_deadline st
   \<and> validate_successes st' = validate_successes st
   \<and> (length (cp_buf (capsules st)) \<le> MAX_CAPSULE_BUF \<longrightarrow> length (cp_buf (capsules st')) \<le> MAX_CAPSULE_BUF)
   \<and> ((awaiting_pong st \<longleftrightarrow> pong_deadline st \<noteq> None) \<longrightarrow> (awaiting_pong st' \<longleftrightarrow> pong_deadline st' \<noteq> None))"

lemma h2_inv_quiet: "h2_inv cfg acts st \<Longrightarrow> h2_quiet st acts' st' \<Longrightarrow> h2_inv cfg (acts @ acts') st'"
  by (auto simp: h2_inv_def h2_quiet_def intro: signal_ok_append)

lemma option_control_cases:
  obtains "c = None" | "c = Some Close" | "c = Some Migrate"
  by (cases c; cases "the c") auto

lemma option_sum_cases:
  obtains "d = None" | e where "d = Some (Inl e)" | x where "d = Some (Inr x)"
  by (cases d; cases "the d") auto

lemma h2_branch_quiet:
  assumes "h2_guard cfg st ev" "h2_branch cfg st ev = Ret (Some (acts, Inr st'))"
    "\<nexists>chunk queue se. ev = Data (Some (Inr chunk)) queue se"
  shows "h2_quiet st acts st'"
proof (cases ev)
  case (KeepaliveTick r now)
  with assms(1,2) have "ready_fired st" "acts = [] \<and> st' = st
      \<or> acts = [SendPing] \<and> st' = st\<lparr>awaiting_pong := True, pong_deadline := Some (now + hc_keepalive cfg)\<rparr>"
    by (cases r; simp add: h2_branch_simps h2_guard_def)+
  then show ?thesis by (elim disjE conjE) (simp_all add: h2_quiet_def)
next
  case (Pong r)
  with assms(2) have "acts = []" "st' = st\<lparr>awaiting_pong := False, pong_deadline := None\<rparr>"
    by (cases r; simp add: h2_branch_simps)+
  then show ?thesis by (simp add: h2_quiet_def)
next
  case (ProbeTick se)
  with assms(2) show ?thesis by (auto simp: h2_branch_simps h2_quiet_def out_bind_eq_Ret)
next
  case (Ctrl c)
  with assms(2) show ?thesis
    by (cases c rule: option_control_cases) (simp_all add: h2_branch_simps h2_quiet_def)
next
  case (Outbound pkt se)
  show ?thesis
  proof (cases pkt)
    case None
    with Outbound assms(2) show ?thesis by (simp add: h2_branch_simps)
  next
    case (Some bs)
    with Outbound assms(2) obtain r :: "unit result" and d
      where "acts = sent_action d" "(case r of Inl e \<Rightarrow> Inl (Inl e) | Inr _ \<Rightarrow> Inr st) = (Inr st' :: unit result + h2_state)"
      by (auto simp: h2_branch_simps out_bind_eq_Ret)
    then show ?thesis by (cases r) (simp_all add: h2_quiet_def)
  qed
next
  case (Data d queue se)
  with assms(2,3) show ?thesis
    by (cases d rule: option_sum_cases) (auto simp: h2_branch_simps)
qed

lemma length_capsule_push: "length (cp_buf (capsule_push p data)) \<le> MAX_CAPSULE_BUF"
  by (auto simp: capsule_push_def saturating_add_def MAX_CAPSULE_BUF_def)

lemma h2_inv_data:
  assumes inv: "h2_inv cfg acts st" and d: "h2_data cfg st chunk queue se = Ret (Some (acts', Inr st'))"
  shows "h2_inv cfg (acts @ acts') st'"
proof -
  obtain got p' offers where dr: "drain_capsules queue (hc_addr_tx cfg) (capsule_push (capsules st) chunk) False []
        = Ret (got, p', offers)" "length (cp_buf p') \<le> length (cp_buf (capsule_push (capsules st) chunk))"
      "got \<longleftrightarrow> (\<exists>pkt. Inbound pkt \<in> set offers)"
    using drain_capsules_effect [of queue "hc_addr_tx cfg" "capsule_push (capsules st) chunk" False "[]"] by auto
  have len: "length (cp_buf p') \<le> MAX_CAPSULE_BUF" using dr(2) length_capsule_push by (rule le_trans)
  have offers: "SignalReady \<notin> set (map Offer offers)" "SendPing \<notin> set (map Offer offers)" by auto
  have pos: "0 < length (filter is_inbound (map Offer offers))" if g: got
  proof -
    obtain pkt where "Inbound pkt \<in> set offers" using dr(3) g by blast
    then have "Offer (Inbound pkt) \<in> set (filter is_inbound (map Offer offers))" by simp
    then show ?thesis by (rule length_pos_if_in_set)
  qed
  show ?thesis
  proof (cases "got \<and> \<not> ready_fired st")
    case False
    then have "acts' = map Offer offers" "st' = st\<lparr>capsules := p'\<rparr>"
      using d dr(1) by (auto simp: h2_data_def Let_def)
    then show ?thesis using inv offers len by (intro h2_inv_quiet [OF inv]) (auto simp: h2_quiet_def)
  next
    case True
    note st = inv [unfolded h2_inv_def]
    have "1 \<le> length (filter is_inbound (map Offer offers))" using pos True by linarith
    moreover have "validate_successes st \<le> length (filter is_inbound acts)" using st True by blast
    ultimately have count: "Suc (validate_successes st) \<le> length (filter is_inbound (acts @ map Offer offers))"
      by (simp only: filter_append length_append)
    show ?thesis
    proof (cases "DATA_PROBE_REQUIRED_SUCCESSES \<le> validate_successes st + 1")
      case True
      then have "acts' = map Offer offers @ (if ready_tx st then [SignalReady] else [])"
          and st': "st' = st\<lparr>capsules := p', validate_successes := validate_successes st + 1, ready_fired := True,
                    validate_deadline := None, ready_tx := False\<rparr>"
        using d dr(1) \<open>got \<and> \<not> ready_fired st\<close> by (auto simp: h2_data_def Let_def fire_ready_def)
      moreover have "DATA_PROBE_REQUIRED_SUCCESSES \<le> length (filter is_inbound (acts @ map Offer offers))"
        using count True by simp
      moreover from this have "signal_ok cfg ((acts @ map Offer offers) @ (if ready_tx st then [SignalReady] else []))"
        using signal_ok_last [of "acts @ map Offer offers" cfg] signal_ok_none [of "acts @ map Offer offers" cfg]
          st \<open>got \<and> \<not> ready_fired st\<close> offers by auto
      ultimately show ?thesis using st len by (simp add: h2_inv_def)
    next
      case False
      then obtain dd where "acts' = map Offer offers @ sent_action dd"
          and st': "st' = st\<lparr>capsules := p', validate_successes := validate_successes st + 1\<rparr>"
        using d dr(1) \<open>got \<and> \<not> ready_fired st\<close>
        by (auto simp: h2_data_def Let_def out_bind_eq_Ret)
      then show ?thesis
        using st len offers count False \<open>got \<and> \<not> ready_fired st\<close>
        by (auto simp: h2_inv_def intro!: signal_ok_none)
    qed
  qed
qed

lemma h2_inv_step:
  assumes inv: "h2_inv cfg acts st" and s: "h2_step cfg st acts' (Inr st')"
  shows "h2_inv cfg (acts @ acts') st'"
  using s
proof cases
  case (branch now1 now2 ev)
  show ?thesis
  proof (cases "\<exists>chunk queue se. ev = Data (Some (Inr chunk)) queue se")
    case True
    then show ?thesis using branch(3) inv h2_inv_data by (auto simp: h2_branch_simps)
  next
    case False
    with branch(2,3) have "h2_quiet st acts' st'" by (intro h2_branch_quiet) auto
    then show ?thesis by (rule h2_inv_quiet [OF inv])
  qed
qed (auto simp: h2_head_def split: if_splits)

lemma h2_run_inv: "h2_run cfg acts st \<Longrightarrow> h2_inv cfg acts st"
  by (induction rule: h2_run.induct) (auto intro: h2_inv_init h2_inv_step)

lemma verify_drain_packets:
  assumes "list_all (\<lambda>p. length p \<le> 65535) pkts" "send = (\<lambda>_. Inr ())" "frame_dec rest = None"
    "successes < DATA_PROBE_REQUIRED_SUCCESSES"
  shows "\<exists>p'. verify_drain send \<lparr>cp_buf = concat (map (\<lambda>p. frame_enc (datagram_frame p)) pkts) @ rest\<rparr> successes
    = (if successes + length pkts < DATA_PROBE_REQUIRED_SUCCESSES
       then Ret (VerifyGoesOn (successes + length pkts), \<lparr>cp_buf = rest\<rparr>) else Ret (Verified, p'))"
  using assms(1,4)
proof (induction pkts arbitrary: successes)
  case Nil
  then show ?case using assms(3) by (simp add: verify_drain.simps [of send] capsule_next_frame)
next
  case (Cons pkt pkts)
  let ?tl = "concat (map (\<lambda>p. frame_enc (datagram_frame p)) pkts) @ rest"
  have "frame_dec (frame_enc (datagram_frame pkt) @ ?tl) = Some (datagram_frame pkt, length (frame_enc (datagram_frame pkt)))"
    using Cons.prems by (intro frame_dec_enc datagram_frame_valid) simp
  then have "capsule_next \<lparr>cp_buf = frame_enc (datagram_frame pkt) @ ?tl\<rparr>
      = Ret (Inr (Some (Datagram pkt)), \<lparr>cp_buf = ?tl\<rparr>)"
    using capsule_next_datagram [of "\<lparr>cp_buf = frame_enc (datagram_frame pkt) @ ?tl\<rparr>"] by simp
  then show ?case
    using Cons.IH [of "Suc successes"] Cons.prems assms(2) by (subst verify_drain.simps) auto
qed

lemma verify_loop_packets:
  assumes "list_all (\<lambda>p. length p \<le> 65535) pkts" "send = (\<lambda>_. Inr ())"
    "\<forall>c \<in> set chunks. length c \<le> 131072" "length (cp_buf p) \<le> 65551"
    "cp_buf p @ concat chunks = concat (map (\<lambda>p. frame_enc (datagram_frame p)) pkts)"
    "frame_dec (cp_buf p) = None" "n < DATA_PROBE_REQUIRED_SUCCESSES"
  shows "verify_loop send p n (map (\<lambda>c. Some (Inr c)) chunks) =
    Ret (if n + length pkts < DATA_PROBE_REQUIRED_SUCCESSES then Inl (Other (lit ''h2 verify timeout'')) else Inr ())"
  using assms(1,3-7)
proof (induction chunks arbitrary: p pkts n)
  case Nil
  then show ?case
  proof (cases pkts)
    case (Cons pkt rest)
    then show ?thesis using Nil.prems frame_dec_enc datagram_frame_valid [of pkt] by simp
  qed simp
next
  case (Cons chunk chunks)
  obtain p1 p2 rest where split: "pkts = p1 @ p2"
    "capsule_push p chunk = \<lparr>cp_buf = concat (map (\<lambda>p. frame_enc (datagram_frame p)) p1) @ rest\<rparr>"
    "frame_dec rest = None" "length rest \<le> 65551"
    "rest @ concat chunks = concat (map (\<lambda>p. frame_enc (datagram_frame p)) p2)"
    using Cons.prems by (elim push_frames [where post = "concat chunks"]) auto
  have go: "verify_loop send \<lparr>cp_buf = rest\<rparr> m (map (\<lambda>c. Some (Inr c)) chunks) =
      Ret (if m + length p2 < DATA_PROBE_REQUIRED_SUCCESSES then Inl (Other (lit ''h2 verify timeout'')) else Inr ())"
    if "m < DATA_PROBE_REQUIRED_SUCCESSES" for m
    by (rule Cons.IH) (use Cons.prems split that in simp_all)
  show ?case
    using verify_drain_packets [OF _ assms(2) split(3) Cons.prems(6), of p1] go [of "n + length p1"] Cons.prems(1)
    by (auto simp: split(1,2) simp del: lit_simps)
qed

subsection \<open>Properties\<close>

text \<open>
  C3: Packets that the peer sends as datagram capsules are handed to the inbound queue exactly once
  each and in order, however the byte stream is cut into body chunks, and nothing is left in the
  parser: the receive path is the inverse of \<open>encode_datagram_capsule\<close>. Packets are IP packets of at
  most 65535 bytes and chunks at most 128 KiB, so that a partial capsule and a chunk stay below the
  parser's limit; the queue is not closed (a full queue drops the packet after the offer).
\<close>

theorem h2_delivers_in_order:
  assumes "list_all ip_payload pkts" "map encode_datagram_capsule pkts = map Ret frames"
    "concat chunks = concat frames" "\<forall>c \<in> set chunks. length c \<le> 131072"
    "\<forall>tr pkt. queue tr pkt \<noteq> SendClosed"
  shows "h2_receive queue tx capsule_parser_new chunks [] = Ret (capsule_parser_new, map Inbound pkts)"
proof -
  have "map encode_datagram_capsule pkts = map Ret (map (\<lambda>p. frame_enc (datagram_frame p)) pkts)"
    using assms(1) by (auto simp: list_all_iff ip_payload_def encode_datagram_frame)
  then have "map Ret frames = map Ret (map (\<lambda>p. frame_enc (datagram_frame p)) pkts)"
    using assms(2) by simp
  then have "frames = map (\<lambda>p. frame_enc (datagram_frame p)) pkts"
    by (rule map_injective) (simp add: inj_on_def)
  then show ?thesis
    using assms h2_receive_packets [of pkts queue chunks capsule_parser_new tx "[]"]
    by (simp add: capsule_parser_new_def frame_dec_def varint_dec_def)
qed

theorem h2_delivers_in_order_witness:
  "h2_receive (\<lambda>_ _. SendFull) False capsule_parser_new [[0, 20, 0x45], replicate 19 0] []
     = Ret (capsule_parser_new, map Inbound [0x45 # replicate 19 0])"
proof (rule h2_delivers_in_order)
  show "list_all ip_payload [0x45 # replicate 19 0]"
    by (simp add: ip_payload_def looks_like_ip_packet_def)
  show "map encode_datagram_capsule [0x45 # replicate 19 0] = map Ret [[0, 20, 0x45] @ replicate 19 0]"
    by (simp add: encode_datagram_frame frame_enc_def varint_bytes_def CAPSULE_DATAGRAM_def)
qed simp_all

text \<open>
  C5: Readiness is signalled at most once. No keepalive ping is sent before it, and with the data
  check on it is signalled only after at least two packets have come back through the tunnel and
  been offered to the inbound queue: the SOCKS listener is never exposed on a tunnel that only
  completed its handshake.
\<close>

theorem h2_ready_only_after_data:
  assumes "h2_run cfg (before @ SignalReady # after) st"
  shows "SignalReady \<notin> set (before @ after) \<and> SendPing \<notin> set before
    \<and> (hc_data_check cfg \<longrightarrow> 2 \<le> length (filter is_inbound before))"
  using h2_run_inv [OF assms]
  by (auto simp: h2_inv_def signal_ok_def DATA_PROBE_REQUIRED_SUCCESSES_def)

text \<open>A run for the witnesses: two echoes of a 20-byte packet validate the tunnel.\<close>

definition sample_packet :: bytes where
  "sample_packet = 0x45 # replicate 19 0"

definition sample_cfg :: h2_cfg where
  "sample_cfg = \<lparr>hc_data_check = True, hc_probe = sample_packet, hc_validation = 10000, hc_keepalive = 20000, hc_addr_tx = False\<rparr>"

definition sample_send :: send_env where
  "sample_send = \<lparr>se_capacity = 1000, se_polls = [], se_send_data = Inr ()\<rparr>"

definition sample_state :: "bool \<Rightarrow> nat \<Rightarrow> h2_state" where
  "sample_state fired n = \<lparr>ready_fired = fired, ready_tx = \<not> fired, validate_successes = n,
     validate_deadline = (if fired then None else Some 10000), awaiting_pong = False, pong_deadline = None,
     capsules = capsule_parser_new\<rparr>"

lemma sample_packet_facts:
  "ip_payload sample_packet" "encode_datagram_capsule sample_packet = Ret ([0, 20] @ sample_packet)"
  "send_capsule sample_send ([0, 20] @ sample_packet) = Some (Inr (), Some ([0, 20] @ sample_packet))"
proof -
  show "ip_payload sample_packet" by (simp add: ip_payload_def looks_like_ip_packet_def sample_packet_def)
  show "encode_datagram_capsule sample_packet = Ret ([0, 20] @ sample_packet)"
    by (simp add: encode_datagram_frame frame_enc_def varint_bytes_def CAPSULE_DATAGRAM_def sample_packet_def)
  show "send_capsule sample_send ([0, 20] @ sample_packet) = Some (Inr (), Some ([0, 20] @ sample_packet))"
    by (simp add: send_capsule_def sample_send_def wait_capacity.simps sample_packet_def)
qed

lemma sample_drain:
  "drain_capsules (\<lambda>_ _. SendOk) False (capsule_push capsule_parser_new ([0, 20] @ sample_packet)) False []
     = Ret (True, capsule_parser_new, [Inbound sample_packet])"
proof -
  have "frame_enc (datagram_frame sample_packet) = [0, 20] @ sample_packet"
    using encode_datagram_frame [of sample_packet] sample_packet_facts(1,2) by (simp add: ip_payload_def)
  moreover have "capsule_push capsule_parser_new ([0, 20] @ sample_packet) = \<lparr>cp_buf = [0, 20] @ sample_packet\<rparr>"
    by (simp add: capsule_push_def capsule_parser_new_def saturating_add_def MAX_CAPSULE_BUF_def sample_packet_def)
  ultimately show ?thesis
    using drain_capsules_packets [of "[sample_packet]" "\<lambda>_ _. SendOk" "[]" False False "[]"] sample_packet_facts(1)
    by (simp add: frame_dec_def varint_dec_def capsule_parser_new_def)
qed

lemma sample_run:
  "h2_run sample_cfg [SendCapsule ([0, 20] @ sample_packet)] (sample_state False 0)"
  "h2_run sample_cfg ([SendCapsule ([0, 20] @ sample_packet)]
     @ [Offer (Inbound sample_packet), SendCapsule ([0, 20] @ sample_packet)]) (sample_state False 1)"
  "h2_run sample_cfg (([SendCapsule ([0, 20] @ sample_packet)]
     @ [Offer (Inbound sample_packet), SendCapsule ([0, 20] @ sample_packet)])
     @ [Offer (Inbound sample_packet), SignalReady]) (sample_state True 2)"
proof -
  let ?ev = "Data (Some (Inr ([0, 20] @ sample_packet))) (\<lambda>_ _. SendOk) sample_send"
  have head: "h2_head sample_cfg (sample_state False n) 0 0 = None" for n
    by (simp add: h2_head_def sample_cfg_def sample_state_def)
  note defs = sample_cfg_def sample_state_def h2_data_def sample_drain sample_packet_facts
    DATA_PROBE_REQUIRED_SUCCESSES_def fire_ready_def sent_action_def
  show 1: "h2_run sample_cfg [SendCapsule ([0, 20] @ sample_packet)] (sample_state False 0)"
    by (rule h2_run.init [where has_tx = True and now = 0 and se = sample_send])
      (simp add: h2_init_def defs del: append_Cons append_Nil)
  have "h2_branch sample_cfg (sample_state False 0) ?ev
      = Ret (Some ([Offer (Inbound sample_packet), SendCapsule ([0, 20] @ sample_packet)], Inr (sample_state False 1)))"
    by (simp add: h2_branch_simps defs del: append_Cons)
  then show 2: "h2_run sample_cfg ([SendCapsule ([0, 20] @ sample_packet)]
     @ [Offer (Inbound sample_packet), SendCapsule ([0, 20] @ sample_packet)]) (sample_state False 1)"
    by (intro h2_run.step [OF 1] h2_step.branch [OF head]) (simp_all add: h2_guard_def)
  have "h2_branch sample_cfg (sample_state False 1) ?ev
      = Ret (Some ([Offer (Inbound sample_packet), SignalReady], Inr (sample_state True 2)))"
    by (simp add: h2_branch_simps defs numeral_2_eq_2 del: append_Cons)
  then show "h2_run sample_cfg (([SendCapsule ([0, 20] @ sample_packet)]
     @ [Offer (Inbound sample_packet), SendCapsule ([0, 20] @ sample_packet)])
     @ [Offer (Inbound sample_packet), SignalReady]) (sample_state True 2)"
    by (intro h2_run.step [OF 2] h2_step.branch [OF head]) (simp_all add: h2_guard_def)
qed

theorem h2_ready_only_after_data_witness:
  "\<exists>before. h2_run sample_cfg (before @ SignalReady # []) (sample_state True 2)
     \<and> SignalReady \<notin> set before \<and> SendPing \<notin> set before \<and> 2 \<le> length (filter is_inbound before)"
proof -
  let ?b = "[SendCapsule ([0, 20] @ sample_packet), Offer (Inbound sample_packet),
     SendCapsule ([0, 20] @ sample_packet), Offer (Inbound sample_packet)]"
  have run: "h2_run sample_cfg (?b @ SignalReady # []) (sample_state True 2)"
    using sample_run(3) by simp
  show ?thesis
    using h2_ready_only_after_data [OF run] run by (intro exI [of _ ?b]) (simp add: sample_cfg_def)
qed

text \<open>
  No stall goes unnoticed. In every reachable state a pending ping has a deadline, and an
  unvalidated tunnel has one too; the first iteration that reads a clock at or past such a deadline
  ends the stream and makes \<open>run\<close> return an error. An iteration goes on only while both clocks are
  before their deadlines. The capsule buffer stays bounded throughout.
\<close>

lemma h2_deadlines_enforced:
  assumes "h2_run cfg acts st"
  shows "(awaiting_pong st \<longleftrightarrow> pong_deadline st \<noteq> None)
    \<and> (ready_fired st \<or> hc_data_check cfg \<and> validate_deadline st \<noteq> None)
    \<and> (h2_head cfg st now1 now2 = None \<longleftrightarrow>
         (ready_fired st \<or> now1 < the (validate_deadline st))
         \<and> (\<not> awaiting_pong st \<or> now2 < the (pong_deadline st)))
    \<and> (\<forall>n. h2_head cfg st now1 now2 = Some n \<longrightarrow> (\<exists>e. n = ([SendEnd], Inl (Inl e))))
    \<and> length (cp_buf (capsules st)) \<le> MAX_CAPSULE_BUF"
proof -
  have inv: "h2_inv cfg acts st" using assms by (rule h2_run_inv)
  have ends: "h2_head cfg st now1 now2 = Some n \<Longrightarrow> \<exists>e. n = ([SendEnd], Inl (Inl e))" for n
    by (cases n) (auto simp only: h2_head_def option.inject prod.inject split: if_splits)
  moreover have "h2_head cfg st now1 now2 = None \<longleftrightarrow>
      (ready_fired st \<or> now1 < the (validate_deadline st)) \<and> (\<not> awaiting_pong st \<or> now2 < the (pong_deadline st))"
    using inv unfolding h2_inv_def h2_head_def
    by (cases "validate_deadline st"; cases "pong_deadline st") (simp_all only: option.case, auto)
  ultimately show ?thesis using inv by (auto simp only: h2_inv_def)
qed

text \<open>
  C13: \<open>verify_h2\<close> with the data check accepts an endpoint exactly when its answer is a success status
  and two datagram capsules come back, however they are cut into chunks; with fewer the attempt runs
  into its timeout.
\<close>

theorem verify_needs_two_echoes:
  assumes "list_all (\<lambda>p. length p \<le> 65535) pkts" "map encode_datagram_capsule pkts = map Ret frames"
    "concat chunks = concat frames" "\<forall>c \<in> set chunks. length c \<le> 131072" "\<forall>i. send i = Inr ()"
  shows "verify_attempt True status send (map (\<lambda>c. Some (Inr c)) chunks) = Ret (Inr ())
    \<longleftrightarrow> 200 \<le> status \<and> status < 300 \<and> 2 \<le> length pkts"
proof -
  have "map encode_datagram_capsule pkts = map Ret (map (\<lambda>p. frame_enc (datagram_frame p)) pkts)"
    using assms(1) by (auto simp: list_all_iff encode_datagram_frame)
  then have "map Ret frames = map Ret (map (\<lambda>p. frame_enc (datagram_frame p)) pkts)"
    using assms(2) by simp
  then have "frames = map (\<lambda>p. frame_enc (datagram_frame p)) pkts"
    by (rule map_injective) (simp add: inj_on_def)
  then show ?thesis
    using assms verify_loop_packets [of pkts send chunks capsule_parser_new 0] fun_eq_iff [of send]
    by (auto simp: verify_attempt_def capsule_parser_new_def frame_dec_def varint_dec_def
        DATA_PROBE_REQUIRED_SUCCESSES_def simp del: lit_simps)
qed

theorem verify_needs_two_echoes_witness:
  "verify_attempt True 200 (\<lambda>_. Inr ()) (map (\<lambda>c. Some (Inr c)) [[0], [1, 9, 0, 1, 7]]) = Ret (Inr ())"
proof -
  have e: "map encode_datagram_capsule [[9], [7]] = map Ret [[0, 1, 9], [0, 1, 7]]"
    by (simp add: encode_datagram_frame frame_enc_def varint_bytes_def CAPSULE_DATAGRAM_def)
  show ?thesis
    using verify_needs_two_echoes [OF _ e, of "[[0], [1, 9, 0, 1, 7]]" "\<lambda>_. Inr ()" 200] by simp
qed

end
