(* ===== verification/Quic.thy ===== *)
theory Quic
  imports Masque_H2
begin

text \<open>
  MASQUE over QUIC, \<open>quic.rs\<close>: the loop of \<open>run\<close> and the check of \<open>verify_masque\<close>. The QUIC and HTTP/3
  library is not part of the model: what its connection says in an iteration (whether it is established
  or closed, its HTTP/3 events, the datagrams it has received, the results of its calls) is the
  observation of that iteration, and what the code asks of it is an action.
\<close>

section \<open>The model\<close>

subsection \<open>HTTP/3 events and datagrams\<close>

text \<open>
  A \<open>Data\<close> event comes with the non-empty chunks that \<open>recv_body\<close> gives before it fails or yields nothing.
\<close>

datatype h3_event = H3Headers u64 "(bytes \<times> bytes) list" | H3Data u64 "bytes list" | H3Other

function quic_drain_capsules :: "bool \<Rightarrow> capsule_parser \<Rightarrow> h2_offer list \<Rightarrow> (capsule_parser \<times> h2_offer list) outcome" where
  "quic_drain_capsules addr_tx p offers =
     out_bind (capsule_next p) (\<lambda>(r, p').
       case r of
         Inl _ \<Rightarrow> Ret (p', offers)
       | Inr None \<Rightarrow> Ret (p', offers)
       | Inr (Some c) \<Rightarrow>
           (case c of
              AddressAssign addrs \<Rightarrow> quic_drain_capsules addr_tx p' (offers @ assigned_offers addr_tx addrs)
            | _ \<Rightarrow> quic_drain_capsules addr_tx p' offers))"
  by pat_completeness auto
termination
  by (relation "measure (\<lambda>(_, p, _). length (cp_buf p))") (auto dest: capsule_next_consumes)

declare quic_drain_capsules.simps [simp del]

text \<open>\<open>poll_h3\<close>: the events until the library has no more, or fails (\<open>end\<close>).\<close>

fun poll_h3 ::
  "bool \<Rightarrow> u64 \<Rightarrow> str option \<Rightarrow> h3_event list \<Rightarrow> capsule_parser \<Rightarrow> h2_offer list \<Rightarrow> (capsule_parser \<times> h2_offer list \<times> unit result) outcome" where
  "poll_h3 addr_tx sid fail [] p offers = Ret (p, offers, case fail of None \<Rightarrow> Inr () | Some e \<Rightarrow> Inl (H3 e))"
| "poll_h3 addr_tx sid fail (H3Headers _ _ # evs) p offers = poll_h3 addr_tx sid fail evs p offers"
| "poll_h3 addr_tx sid fail (H3Data stream chunks # evs) p offers =
     (if stream \<noteq> sid then poll_h3 addr_tx sid fail evs p offers
      else out_bind (quic_drain_capsules addr_tx (foldl capsule_push p chunks) offers) (\<lambda>(p, offers).
        poll_h3 addr_tx sid fail evs p offers))"
| "poll_h3 addr_tx sid fail (H3Other # evs) p offers = poll_h3 addr_tx sid fail evs p offers"

text \<open>\<open>drain_datagrams\<close> over the datagrams that \<open>dgram_recv\<close> gives before it has no more.\<close>

fun drain_datagrams :: "inbound_queue \<Rightarrow> u64 \<Rightarrow> bytes list \<Rightarrow> bool \<Rightarrow> h2_offer list \<Rightarrow> (bool \<times> h2_offer list) outcome" where
  "drain_datagrams queue sid [] delivered offers = Ret (delivered, offers)"
| "drain_datagrams queue sid (d # ds) delivered offers =
     out_bind (decode_ip_datagram d sid) (\<lambda>r.
       case r of
         Inr (Some pkt) \<Rightarrow>
           if queue offers pkt = SendClosed then Ret (True, offers @ [Inbound pkt])
           else drain_datagrams queue sid ds True (offers @ [Inbound pkt])
       | _ \<Rightarrow> drain_datagrams queue sid ds delivered offers)"

subsection \<open>The tunnel loop\<close>

record quic_cfg =
  qc_data_check :: bool
  qc_probe :: bytes
  qc_validation :: nat
  qc_addr_tx :: bool

record quic_state =
  qs_ready_fired :: bool
  qs_ready_tx :: bool
  qs_deadline :: "nat option"
  qs_successes :: nat
  qs_h3 :: bool
  qs_stream :: "u64 option"
  qs_capsules :: capsule_parser
  qs_established_ever :: bool
  qs_ech :: "bytes option"
  qs_ech_retried :: bool
  qs_ctrl_open :: bool
  qs_outbound_open :: bool
  qs_sockets :: "sock_addr list"

datatype quic_action =
    DgramSend bytes
  | AckEliciting
  | ConnRecv sock_addr sock_addr bytes
  | OnTimeout
  | ConnClose str
  | RequestSent u64
  | Redial "bytes option"
  | QuicReady
  | QuicOffer h2_offer

text \<open>
  What the \<open>select!\<close> yields. A migration that got as far as its new socket keeps it, whatever then fails.
\<close>

datatype quic_event =
    QKeepalive bool
  | QProbe
  | QPacket sock_addr sock_addr bytes
  | QCtrl "control option" "sock_addr option"
  | QOutbound "bytes option"
  | QTimeout

definition quic_guard :: "quic_cfg \<Rightarrow> quic_state \<Rightarrow> quic_event \<Rightarrow> bool" where
  "quic_guard cfg st ev =
     (case ev of
        QProbe \<Rightarrow> qc_data_check cfg \<and> \<not> qs_ready_fired st
      | QCtrl _ _ \<Rightarrow> qs_ctrl_open st
      | QOutbound _ \<Rightarrow> qs_outbound_open st
      | _ \<Rightarrow> True)"

definition send_packet_on :: "u64 option \<Rightarrow> bytes \<Rightarrow> quic_action list outcome" where
  "send_packet_on stream pkt =
     (case stream of
        None \<Rightarrow> Ret []
      | Some sid \<Rightarrow> out_bind (encode_ip_datagram sid pkt) (\<lambda>r. Ret (case r of Inr framed \<Rightarrow> [DgramSend framed] | Inl _ \<Rightarrow> [])))"

definition quic_select :: "quic_cfg \<Rightarrow> quic_event \<Rightarrow> quic_state \<Rightarrow> (quic_action list \<times> quic_state) outcome" where
  "quic_select cfg ev st =
     (case ev of
        QKeepalive established \<Rightarrow> Ret (if established then [AckEliciting] else [], st)
      | QProbe \<Rightarrow> out_bind (send_packet_on (qs_stream st) (qc_probe cfg)) (\<lambda>acts. Ret (acts, st))
      | QPacket to_local from data \<Rightarrow> Ret ([ConnRecv to_local from data], st)
      | QCtrl (Some Migrate) new \<Rightarrow>
          Ret ([], case new of Some s \<Rightarrow> st\<lparr>qs_sockets := qs_sockets st @ [s]\<rparr> | None \<Rightarrow> st)
      | QCtrl _ _ \<Rightarrow> Ret ([ConnClose (lit ''bye'')], st\<lparr>qs_ctrl_open := False\<rparr>)
      | QOutbound (Some pkt) \<Rightarrow> out_bind (send_packet_on (qs_stream st) pkt) (\<lambda>acts. Ret (acts, st))
      | QOutbound None \<Rightarrow> Ret ([ConnClose (lit ''eof'')], st\<lparr>qs_outbound_open := False\<rparr>)
      | QTimeout \<Rightarrow> Ret ([OnTimeout], st))"

record quic_obs =
  qo_now :: nat
  qo_event :: quic_event
  qo_established :: bool
  qo_open :: "str + u64"
  qo_opened_at :: nat
  qo_polled :: "h3_event list"
  qo_poll_fails :: "str option"
  qo_dgrams :: "bytes list"
  qo_queue :: inbound_queue
  qo_flush :: "unit result"
  qo_closed :: bool
  qo_retry :: "bytes option"
  qo_redial :: "unit result"

definition signal_ready :: "quic_state \<Rightarrow> quic_action list \<times> quic_state" where
  "signal_ready st = (if qs_ready_tx st then [QuicReady] else [], st\<lparr>qs_ready_fired := True, qs_ready_tx := False\<rparr>)"

text \<open>The handshake has completed: HTTP/3 starts and the request is sent.\<close>

definition quic_open :: "quic_cfg \<Rightarrow> quic_obs \<Rightarrow> quic_state \<Rightarrow> quic_action list \<times> (aether_error + quic_state)" where
  "quic_open cfg ob st =
     (if qo_established ob \<and> \<not> qs_h3 st then
        case qo_open ob of
          Inl e \<Rightarrow> ([], Inl (H3 e))
        | Inr sid \<Rightarrow>
            let st = st\<lparr>qs_established_ever := True, qs_h3 := True, qs_stream := Some sid\<rparr>;
                (sig, st) =
                  (if qc_data_check cfg then ([], st\<lparr>qs_deadline := Some (qo_opened_at ob + qc_validation cfg)\<rparr>)
                   else if \<not> qs_ready_fired st then signal_ready st
                   else ([], st)) in
            (RequestSent sid # sig, Inr st)
      else ([], Inr st))"

definition quic_poll :: "quic_cfg \<Rightarrow> quic_obs \<Rightarrow> quic_state \<Rightarrow> (quic_action list \<times> (aether_error + quic_state)) outcome" where
  "quic_poll cfg ob st =
     (case qs_stream st of
        Some sid \<Rightarrow>
          if qs_h3 st then
            out_bind (poll_h3 (qc_addr_tx cfg) sid (qo_poll_fails ob) (qo_polled ob) (qs_capsules st) []) (\<lambda>(p, offers, r).
            Ret (map QuicOffer offers, case r of Inl e \<Rightarrow> Inl e | Inr _ \<Rightarrow> Inr (st\<lparr>qs_capsules := p\<rparr>)))
          else Ret ([], Inr st)
      | None \<Rightarrow> Ret ([], Inr st))"

definition quic_receive :: "quic_obs \<Rightarrow> quic_state \<Rightarrow> (quic_action list \<times> quic_state) outcome" where
  "quic_receive ob st =
     out_bind (case qs_stream st of
         None \<Rightarrow> Ret (False, [])
       | Some sid \<Rightarrow> drain_datagrams (qo_queue ob) sid (qo_dgrams ob) False []) (\<lambda>(got_data, offers).
     let acts = map QuicOffer offers in
     if got_data \<and> \<not> qs_ready_fired st then
       let st = st\<lparr>qs_successes := qs_successes st + 1\<rparr> in
       if DATA_PROBE_REQUIRED_SUCCESSES \<le> qs_successes st then
         let (sig, st) = signal_ready (st\<lparr>qs_deadline := None\<rparr>) in Ret (acts @ sig, st)
       else Ret (acts, st)
     else Ret (acts, st))"

text \<open>The end of an iteration: what is left to send is flushed; a closed connection ends the loop, or is dialled once more with the ECH configuration the server sent.\<close>

definition quic_finish :: "quic_obs \<Rightarrow> quic_state \<Rightarrow> quic_action list \<times> (unit result + quic_state)" where
  "quic_finish ob st =
     (case qo_flush ob of
        Inl e \<Rightarrow> ([], Inl (Inl e))
      | Inr _ \<Rightarrow>
          if \<not> qo_closed ob then ([], Inr st)
          else
            case (if \<not> qs_established_ever st \<and> \<not> qs_ech_retried st \<and> qs_ech st \<noteq> None then qo_retry ob else None) of
              None \<Rightarrow> ([], Inl (Inr ()))
            | Some retry \<Rightarrow>
                ([Redial (Some retry)],
                 case qo_redial ob of
                   Inl e \<Rightarrow> Inl (Inl e)
                 | Inr _ \<Rightarrow>
                     Inr (st\<lparr>qs_ech_retried := True, qs_ech := Some retry, qs_h3 := False, qs_stream := None,
                       qs_capsules := capsule_parser_new\<rparr>)))"

definition quic_expired :: "quic_cfg \<Rightarrow> nat \<Rightarrow> quic_state \<Rightarrow> bool" where
  "quic_expired cfg now st \<longleftrightarrow>
     qc_data_check cfg \<and> \<not> qs_ready_fired st \<and> (case qs_deadline st of Some dl \<Rightarrow> dl \<le> now | None \<Rightarrow> False)"

text \<open>One iteration of the loop.\<close>

definition quic_iter :: "quic_cfg \<Rightarrow> quic_obs \<Rightarrow> quic_state \<Rightarrow> (quic_action list \<times> (unit result + quic_state)) outcome" where
  "quic_iter cfg ob st =
     (if quic_expired cfg (qo_now ob) st then
        Ret ([ConnClose (lit ''validation-timeout'')],
             Inl (Inl (Masque (lit ''data-plane validation timeout (handshake ok, no traffic)''))))
      else
        out_bind (quic_select cfg (qo_event ob) st) (\<lambda>(a1, st).
        case quic_open cfg ob st of
          (a2, Inl e) \<Rightarrow> Ret (a1 @ a2, Inl (Inl e))
        | (a2, Inr st) \<Rightarrow>
            out_bind (quic_poll cfg ob st) (\<lambda>(a3, r).
            case r of
              Inl e \<Rightarrow> Ret (a1 @ a2 @ a3, Inl (Inl e))
            | Inr st \<Rightarrow>
                out_bind (quic_receive ob st) (\<lambda>(a4, st).
                let (a5, r) = quic_finish ob st in Ret (a1 @ a2 @ a3 @ a4 @ a5, r)))))"

definition quic_start :: "bool \<Rightarrow> bytes option \<Rightarrow> sock_addr \<Rightarrow> quic_state" where
  "quic_start has_tx ech local =
     \<lparr>qs_ready_fired = False, qs_ready_tx = has_tx, qs_deadline = None, qs_successes = 0, qs_h3 = False, qs_stream = None,
      qs_capsules = capsule_parser_new, qs_established_ever = False, qs_ech = ech, qs_ech_retried = False,
      qs_ctrl_open = True, qs_outbound_open = True, qs_sockets = [local]\<rparr>"

inductive quic_run :: "quic_cfg \<Rightarrow> quic_state \<Rightarrow> (quic_obs \<times> quic_action list) list \<Rightarrow> quic_state \<Rightarrow> bool" for cfg st0 where
  quic_init: "quic_run cfg st0 [] st0"
| quic_step: "quic_run cfg st0 tr st \<Longrightarrow> quic_guard cfg st (qo_event ob) \<Longrightarrow> quic_iter cfg ob st = Ret (acts, Inr st')
    \<Longrightarrow> quic_run cfg st0 (tr @ [(ob, acts)]) st'"

subsection \<open>The check of an edge\<close>

record verify_state =
  vs_stream :: "u64 option"
  vs_connected :: bool
  vs_last_probe :: nat
  vs_probes :: nat
  vs_successes :: nat

text \<open>Either the check has a result or it goes on. \<open>vs_probes\<close> counts the probes that were sent.\<close>

datatype 'a check = CheckEnds "unit result" | CheckOn 'a

text \<open>
  The status headers of a response: anything but 200 is an error; without the data check, 200 is enough,
  with it a probe is sent. The result counts these probes.
\<close>

fun check_headers :: "bool \<Rightarrow> (bytes \<times> bytes) list \<Rightarrow> nat \<Rightarrow> nat check" where
  "check_headers data_check [] sent = CheckOn sent"
| "check_headers data_check ((name, v) # hs) sent =
     (if name \<noteq> utf8_encode (lit '':status'') then check_headers data_check hs sent
      else if v \<noteq> utf8_encode (lit ''200'') then CheckEnds (Inl (Other (lit ''status '' @ from_utf8_lossy v)))
      else if \<not> data_check then CheckEnds (Inr ())
      else check_headers data_check hs (sent + 1))"

fun check_poll :: "bool \<Rightarrow> u64 \<Rightarrow> str option \<Rightarrow> h3_event list \<Rightarrow> nat \<Rightarrow> nat check" where
  "check_poll data_check sid fail [] sent = (case fail of None \<Rightarrow> CheckOn sent | Some e \<Rightarrow> CheckEnds (Inl (H3 e)))"
| "check_poll data_check sid fail (H3Headers stream hs # evs) sent =
     (if stream \<noteq> sid then check_poll data_check sid fail evs sent
      else case check_headers data_check hs sent of
        CheckEnds r \<Rightarrow> CheckEnds r
      | CheckOn sent \<Rightarrow> check_poll data_check sid fail evs sent)"
| "check_poll data_check sid fail (H3Data _ _ # evs) sent = check_poll data_check sid fail evs sent"
| "check_poll data_check sid fail (H3Other # evs) sent = check_poll data_check sid fail evs sent"

fun check_datagrams :: "u64 \<Rightarrow> bytes list \<Rightarrow> nat \<Rightarrow> nat check outcome" where
  "check_datagrams sid [] successes = Ret (CheckOn successes)"
| "check_datagrams sid (d # ds) successes =
     out_bind (decode_ip_datagram d sid) (\<lambda>r.
       case r of
         Inr (Some _) \<Rightarrow>
           if DATA_PROBE_REQUIRED_SUCCESSES \<le> successes + 1 then Ret (CheckEnds (Inr ()))
           else check_datagrams sid ds (successes + 1)
       | _ \<Rightarrow> check_datagrams sid ds successes)"

record verify_obs =
  vo_now :: nat
  vo_recv :: "io_error option"
  vo_established :: bool
  vo_open :: "str + u64"
  vo_polled :: "h3_event list"
  vo_poll_fails :: "str option"
  vo_dgrams :: "bytes list"
  vo_flush :: "unit result"
  vo_closed :: bool

definition verify_opened :: "verify_obs \<Rightarrow> verify_state \<Rightarrow> verify_state check" where
  "verify_opened ob st =
     (if vo_established ob \<and> vs_stream st = None then
        (case vo_open ob of Inl e \<Rightarrow> CheckEnds (Inl (H3 e)) | Inr sid \<Rightarrow> CheckOn (st\<lparr>vs_stream := Some sid\<rparr>))
      else CheckOn st)"

definition verify_polled :: "bool \<Rightarrow> verify_obs \<Rightarrow> verify_state \<Rightarrow> verify_state check" where
  "verify_polled data_check ob st =
     (case vs_stream st of
        None \<Rightarrow> CheckOn st
      | Some sid \<Rightarrow>
          (case check_poll data_check sid (vo_poll_fails ob) (vo_polled ob) 0 of
             CheckEnds r \<Rightarrow> CheckEnds r
           | CheckOn sent \<Rightarrow>
               CheckOn (if 0 < sent then st\<lparr>vs_connected := True, vs_last_probe := vo_now ob, vs_probes := vs_probes st + sent\<rparr> else st)))"

text \<open>Once connected: a probe every 700 milliseconds and one after each answer but the last that is needed.\<close>

definition verify_data :: "verify_obs \<Rightarrow> verify_state \<Rightarrow> verify_state check outcome" where
  "verify_data ob st =
     (case vs_stream st of
        Some sid \<Rightarrow>
          if vs_connected st then
            let st = (if vs_last_probe st + 700 \<le> vo_now ob then st\<lparr>vs_probes := vs_probes st + 1, vs_last_probe := vo_now ob\<rparr> else st) in
            out_bind (check_datagrams sid (vo_dgrams ob) (vs_successes st)) (\<lambda>r. Ret (
              case r of
                CheckEnds r \<Rightarrow> CheckEnds r
              | CheckOn n \<Rightarrow>
                  CheckOn (if vs_successes st < n
                    then st\<lparr>vs_successes := n, vs_probes := vs_probes st + (n - vs_successes st), vs_last_probe := vo_now ob\<rparr> else st)))
          else Ret (CheckOn st)
      | None \<Rightarrow> Ret (CheckOn st))"

definition verify_iter :: "bool \<Rightarrow> nat \<Rightarrow> verify_obs \<Rightarrow> verify_state \<Rightarrow> verify_state check outcome" where
  "verify_iter data_check deadline ob st =
     (if deadline \<le> vo_now ob then Ret (CheckEnds (Inl (Other (lit ''verify timeout''))))
      else case vo_recv ob of
        Some e \<Rightarrow> Ret (CheckEnds (Inl (Io e)))
      | None \<Rightarrow>
          (case verify_opened ob st of
             CheckEnds r \<Rightarrow> Ret (CheckEnds r)
           | CheckOn st \<Rightarrow>
               (case verify_polled data_check ob st of
                  CheckEnds r \<Rightarrow> Ret (CheckEnds r)
                | CheckOn st \<Rightarrow>
                    out_bind (verify_data ob st) (\<lambda>r.
                    Ret (case r of
                        CheckEnds r \<Rightarrow> CheckEnds r
                      | CheckOn st \<Rightarrow>
                          (case vo_flush ob of
                             Inl e \<Rightarrow> CheckEnds (Inl e)
                           | Inr _ \<Rightarrow>
                               if vo_closed ob then CheckEnds (Inl (Other (lit ''closed before data-plane confirmation'')))
                               else CheckOn st))))))"

text \<open>The check over its iterations; \<open>None\<close> while the next one has not come.\<close>

fun verify_masque :: "bool \<Rightarrow> nat \<Rightarrow> verify_obs list \<Rightarrow> verify_state \<Rightarrow> unit result option outcome" where
  "verify_masque data_check deadline [] st = Ret None"
| "verify_masque data_check deadline (ob # obs) st =
     out_bind (verify_iter data_check deadline ob st) (\<lambda>r.
       case r of CheckEnds r \<Rightarrow> Ret (Some r) | CheckOn st \<Rightarrow> verify_masque data_check deadline obs st)"

definition verify_start :: "nat \<Rightarrow> verify_state" where
  "verify_start now = \<lparr>vs_stream = None, vs_connected = False, vs_last_probe = now, vs_probes = 0, vs_successes = 0\<rparr>"


section \<open>Correctness\<close>

subsection \<open>What comes in\<close>

lemma decode_ip_datagram_returns: "\<exists>r. decode_ip_datagram d sid = Ret r"
  by (auto simp: decode_ip_datagram_def get_varint_inv get_bytes_inv dest!: varint_dec_bounds split: option.splits prod.splits)

definition inbound_packets :: "h2_offer list \<Rightarrow> bytes list" where
  "inbound_packets os = List.map_filter (\<lambda>x. case x of Inbound p \<Rightarrow> Some p | Assigned _ _ \<Rightarrow> None) os"

lemma inbound_packets_simps [simp]:
  "inbound_packets [] = []" "inbound_packets (Inbound p # os) = p # inbound_packets os"
  "inbound_packets (Assigned ip n # os) = inbound_packets os" "inbound_packets (xs @ ys) = inbound_packets xs @ inbound_packets ys"
  by (simp_all add: inbound_packets_def map_filter_def)

text \<open>The packets of the datagrams that belong to the stream, up to the one that finds the queue closed.\<close>

lemma drain_datagrams_effect:
  "\<exists>got os. drain_datagrams queue sid ds delivered offers = Ret (got, offers @ os) \<and> (got \<longleftrightarrow> delivered \<or> os \<noteq> [])
     \<and> os = map Inbound (inbound_packets os)"
proof (induction ds arbitrary: delivered offers)
  case (Cons d ds)
  obtain r where r: "decode_ip_datagram d sid = Ret r" using decode_ip_datagram_returns by blast
  show ?case
  proof (cases "\<exists>pkt. r = Inr (Some pkt)")
    case True
    then obtain pkt where pkt: "r = Inr (Some pkt)" by blast
    show ?thesis
    proof (cases "queue offers pkt = SendClosed")
      case True
      with r pkt show ?thesis by (intro exI [of _ True] exI [of _ "[Inbound pkt]"]) simp
    next
      case False
      from Cons.IH [of True "offers @ [Inbound pkt]"] obtain got os where
        "drain_datagrams queue sid ds True (offers @ [Inbound pkt]) = Ret (got, (offers @ [Inbound pkt]) @ os)" "got" "os = map Inbound (inbound_packets os)"
        by auto
      with r pkt False show ?thesis by (intro exI [of _ got] exI [of _ "Inbound pkt # os"]) simp
    qed
  next
    case False
    then have "drain_datagrams queue sid (d # ds) delivered offers = drain_datagrams queue sid ds delivered offers"
      using r by (cases r) (auto split: option.splits)
    with Cons.IH [of delivered offers] show ?thesis by simp
  qed
qed simp

lemma quic_drain_capsules_effect:
  "\<exists>p' os. quic_drain_capsules addr_tx p offers = Ret (p', offers @ os) \<and> inbound_packets os = []"
proof (induction addr_tx p offers rule: quic_drain_capsules.induct)
  case (1 addr_tx p offers)
  obtain r p' where n: "capsule_next p = Ret (r, p')" using capsule_next_returns by blast
  show ?case
  proof (cases "\<exists>c. r = Inr (Some c)")
    case False
    with n have "quic_drain_capsules addr_tx p offers = Ret (p', offers)"
      by (subst quic_drain_capsules.simps) (auto split: sum.splits option.splits)
    then show ?thesis by (intro exI [of _ p'] exI [of _ "[]"]) simp
  next
    case True
    then obtain c where c: "r = Inr (Some c)" by blast
    show ?thesis
    proof (cases "\<exists>addrs. c = AddressAssign addrs")
      case True
      then obtain addrs where a: "c = AddressAssign addrs" by blast
      have none: "inbound_packets (assigned_offers addr_tx addrs) = []"
        using assigned_offers_Assigned [of _ addr_tx addrs] by (induction "assigned_offers addr_tx addrs") (fastforce simp: inbound_packets_def map_filter_def split: h2_offer.splits)+
      from 1(1) n c a obtain q os where "quic_drain_capsules addr_tx p' (offers @ assigned_offers addr_tx addrs) = Ret (q, (offers @ assigned_offers addr_tx addrs) @ os)"
        "inbound_packets os = []" by blast
      with n c a none show ?thesis
        by (intro exI [of _ q] exI [of _ "assigned_offers addr_tx addrs @ os"]) (simp add: quic_drain_capsules.simps [of addr_tx p])
    next
      case False
      with n c have "quic_drain_capsules addr_tx p offers = quic_drain_capsules addr_tx p' offers"
        by (subst quic_drain_capsules.simps) (cases c; simp)
      moreover have "\<exists>q os. quic_drain_capsules addr_tx p' offers = Ret (q, offers @ os) \<and> inbound_packets os = []"
        using 1 n c False by (cases c) auto
      ultimately show ?thesis by simp
    qed
  qed
qed

lemma poll_h3_effect:
  "\<exists>p' os r. poll_h3 addr_tx sid fail evs p offers = Ret (p', offers @ os, r) \<and> inbound_packets os = []"
proof (induction addr_tx sid fail evs p offers rule: poll_h3.induct)
  case (3 addr_tx sid fail stream chunks evs p offers)
  show ?case
  proof (cases "stream = sid")
    case True
    obtain q os where q: "quic_drain_capsules addr_tx (foldl capsule_push p chunks) offers = Ret (q, offers @ os)" "inbound_packets os = []"
      using quic_drain_capsules_effect by blast
    from 3(2) [of "(q, offers @ os)" q "offers @ os"] True q(1) obtain p' os' r where
      "poll_h3 addr_tx sid fail evs q (offers @ os) = Ret (p', (offers @ os) @ os', r)" "inbound_packets os' = []" by auto
    with True q show ?thesis by (intro exI [of _ p'] exI [of _ "os @ os'"] exI [of _ r]) simp
  qed (use 3(1) in simp)
qed simp_all


subsection \<open>The tunnel loop\<close>

definition quic_inbound :: "quic_action list \<Rightarrow> bytes list" where
  "quic_inbound acts = List.map_filter (\<lambda>a. case a of QuicOffer (Inbound p) \<Rightarrow> Some p | _ \<Rightarrow> None) acts"

definition quic_redials :: "quic_action list \<Rightarrow> nat" where
  "quic_redials acts = length (filter (\<lambda>a. case a of Redial _ \<Rightarrow> True | _ \<Rightarrow> False) acts)"

lemma quic_counts_append [simp]:
  "quic_inbound (xs @ ys) = quic_inbound xs @ quic_inbound ys" "quic_redials (xs @ ys) = quic_redials xs + quic_redials ys"
  "quic_inbound [] = []" "quic_redials [] = 0"
  by (simp_all add: quic_inbound_def quic_redials_def map_filter_def)

lemma quic_counts_simps [simp]:
  "quic_inbound (DgramSend b # as) = quic_inbound as" "quic_inbound (AckEliciting # as) = quic_inbound as"
  "quic_inbound (ConnRecv x y b # as) = quic_inbound as" "quic_inbound (OnTimeout # as) = quic_inbound as"
  "quic_inbound (ConnClose t # as) = quic_inbound as" "quic_inbound (RequestSent s # as) = quic_inbound as"
  "quic_inbound (Redial e # as) = quic_inbound as" "quic_inbound (QuicReady # as) = quic_inbound as"
  "quic_inbound (QuicOffer (Inbound p) # as) = p # quic_inbound as" "quic_inbound (QuicOffer (Assigned ip n) # as) = quic_inbound as"
  "quic_redials (DgramSend b # as) = quic_redials as" "quic_redials (AckEliciting # as) = quic_redials as"
  "quic_redials (ConnRecv x y b # as) = quic_redials as" "quic_redials (OnTimeout # as) = quic_redials as"
  "quic_redials (ConnClose t # as) = quic_redials as" "quic_redials (RequestSent s # as) = quic_redials as"
  "quic_redials (Redial e # as) = Suc (quic_redials as)" "quic_redials (QuicReady # as) = quic_redials as"
  "quic_redials (QuicOffer z # as) = quic_redials as"
  by (simp_all add: quic_inbound_def quic_redials_def map_filter_def)

lemma quic_offers [simp]:
  "quic_inbound (map QuicOffer os) = inbound_packets os" "quic_redials (map QuicOffer os) = 0" "QuicReady \<notin> set (map QuicOffer os)"
  "RequestSent s \<notin> set (map QuicOffer os)"
proof -
  show "quic_inbound (map QuicOffer os) = inbound_packets os"
  proof (induction os)
    case (Cons x os)
    then show ?case by (cases x) simp_all
  qed simp
qed (induction os, auto)

text \<open>The part of the state that decides on the signal and on a second dial.\<close>

definition quic_core :: "quic_state \<Rightarrow> bool \<times> bool \<times> nat \<times> bool \<times> u64 option \<times> bool \<times> bool \<times> nat option" where
  "quic_core st =
     (qs_ready_fired st, qs_ready_tx st, qs_successes st, qs_h3 st, qs_stream st, qs_established_ever st, qs_ech_retried st, qs_deadline st)"

definition plain_actions :: "quic_action list \<Rightarrow> bool" where
  "plain_actions acts \<longleftrightarrow> quic_inbound acts = [] \<and> quic_redials acts = 0 \<and> QuicReady \<notin> set acts \<and> (\<forall>s. RequestSent s \<notin> set acts)"

lemma plain_actions_simps [simp]:
  "plain_actions []" "plain_actions [DgramSend b]" "plain_actions [AckEliciting]" "plain_actions [ConnRecv x y b]" "plain_actions [OnTimeout]"
  "plain_actions [ConnClose t]"
  by (simp_all add: plain_actions_def)

lemma send_packet_on_effect: "\<exists>acts. send_packet_on stream pkt = Ret acts \<and> plain_actions acts"
proof (cases stream)
  case (Some sid)
  obtain w where "encode_ip_datagram sid pkt = Ret (Inr w)" using ip_datagram_roundtrip [of sid pkt sid] by blast
  with Some show ?thesis by (simp add: send_packet_on_def)
qed (simp add: send_packet_on_def)

lemma quic_select_effect: "\<exists>acts st'. quic_select cfg ev st = Ret (acts, st') \<and> plain_actions acts \<and> quic_core st' = quic_core st"
proof (cases ev)
  case QProbe
  obtain acts where "send_packet_on (qs_stream st) (qc_probe cfg) = Ret acts" "plain_actions acts" using send_packet_on_effect by blast
  with QProbe show ?thesis by (simp add: quic_select_def)
next
  case (QCtrl c new)
  show ?thesis
  proof (cases "c = Some Migrate")
    case True
    with QCtrl show ?thesis by (auto simp: quic_select_def quic_core_def split: option.splits)
  next
    case False
    with QCtrl have "quic_select cfg ev st = Ret ([ConnClose (lit ''bye'')], st\<lparr>qs_ctrl_open := False\<rparr>)"
      by (cases c) (auto simp: quic_select_def simp del: lit_simps split: control.splits)
    then show ?thesis by (simp add: quic_core_def)
  qed
next
  case (QOutbound p)
  show ?thesis
  proof (cases p)
    case (Some pkt)
    obtain acts where "send_packet_on (qs_stream st) pkt = Ret acts" "plain_actions acts" using send_packet_on_effect by blast
    with QOutbound Some show ?thesis by (simp add: quic_select_def)
  qed (use QOutbound in \<open>simp add: quic_select_def quic_core_def\<close>)
qed (simp_all add: quic_select_def)

lemma quic_poll_effect:
  "\<exists>acts r. quic_poll cfg ob st = Ret (acts, r) \<and> plain_actions acts \<and> (\<forall>st'. r = Inr st' \<longrightarrow> quic_core st' = quic_core st)"
proof (cases "qs_stream st")
  case (Some sid)
  obtain p os r where "poll_h3 (qc_addr_tx cfg) sid (qo_poll_fails ob) (qo_polled ob) (qs_capsules st) [] = Ret (p, os, r)" "inbound_packets os = []"
    using poll_h3_effect [of "qc_addr_tx cfg" sid "qo_poll_fails ob" "qo_polled ob" "qs_capsules st" "[]"] by auto
  with Some show ?thesis by (auto simp: quic_poll_def plain_actions_def quic_core_def split: sum.splits)
qed (simp add: quic_poll_def)

text \<open>
  The invariant of the actions so far and the state: the signal is given at most once, and with the data
  check only behind two packets from the edge; the connection is dialled a second time at most once
  and never after a request; while a request is checked its deadline stands.
\<close>

definition signal_sound :: "quic_cfg \<Rightarrow> quic_action list \<Rightarrow> bool" where
  "signal_sound cfg acts \<longleftrightarrow>
     (\<forall>pre post. acts = pre @ QuicReady # post \<longrightarrow>
        QuicReady \<notin> set pre \<and> QuicReady \<notin> set post
        \<and> (if qc_data_check cfg then 2 \<le> length (quic_inbound pre) else \<exists>s. RequestSent s \<in> set pre))"

definition quic_inv :: "quic_cfg \<Rightarrow> quic_action list \<Rightarrow> quic_state \<Rightarrow> bool" where
  "quic_inv cfg acts st \<longleftrightarrow>
     signal_sound cfg acts
     \<and> (QuicReady \<in> set acts \<longrightarrow> qs_ready_fired st \<and> \<not> qs_ready_tx st)
     \<and> (\<not> qs_ready_fired st \<longrightarrow> qs_successes st \<le> length (quic_inbound acts))
     \<and> (qs_h3 st \<longleftrightarrow> qs_stream st \<noteq> None)
     \<and> (qs_h3 st \<longrightarrow> qs_established_ever st \<and> (qc_data_check cfg \<and> \<not> qs_ready_fired st \<longrightarrow> qs_deadline st \<noteq> None)
          \<and> (\<not> qc_data_check cfg \<longrightarrow> qs_ready_fired st))
     \<and> quic_redials acts = (if qs_ech_retried st then 1 else 0)
     \<and> ((\<exists>s. RequestSent s \<in> set acts) \<longrightarrow> qs_established_ever st)"

lemma signal_sound_plain: "QuicReady \<notin> set ys \<Longrightarrow> signal_sound cfg xs \<Longrightarrow> signal_sound cfg (xs @ ys)"
proof -
  assume y: "QuicReady \<notin> set ys" and x: "signal_sound cfg xs"
  show ?thesis
    unfolding signal_sound_def
  proof (intro allI impI)
    fix pre post assume "xs @ ys = pre @ QuicReady # post"
    then obtain us where "xs = pre @ us \<and> us @ ys = QuicReady # post \<or> xs @ us = pre \<and> ys = us @ QuicReady # post"
      by (auto simp: append_eq_append_conv2)
    with y obtain us' where "xs = pre @ QuicReady # us'" "post = us' @ ys" by (auto simp: append_eq_Cons_conv)
    with x y show "QuicReady \<notin> set pre \<and> QuicReady \<notin> set post
        \<and> (if qc_data_check cfg then 2 \<le> length (quic_inbound pre) else \<exists>s. RequestSent s \<in> set pre)"
      unfolding signal_sound_def by auto
  qed
qed

lemma signal_sound_first:
  assumes "QuicReady \<notin> set xs" "if qc_data_check cfg then 2 \<le> length (quic_inbound xs) else \<exists>s. RequestSent s \<in> set xs"
  shows "signal_sound cfg (xs @ [QuicReady])"
  unfolding signal_sound_def
proof (intro allI impI)
  fix pre post assume e: "xs @ [QuicReady] = pre @ QuicReady # post"
  with assms(1) have "pre = xs \<and> post = []"
    by (metis append_Cons append_eq_append_conv2 append_self_conv2 butlast_append butlast_snoc in_set_conv_decomp list.distinct(1))
  with assms show "QuicReady \<notin> set pre \<and> QuicReady \<notin> set post
      \<and> (if qc_data_check cfg then 2 \<le> length (quic_inbound pre) else \<exists>s. RequestSent s \<in> set pre)" by auto
qed

lemma signal_sound_empty: "signal_sound cfg []" by (simp add: signal_sound_def)

lemma quic_inv_plain:
  assumes "quic_inv cfg acts st" "plain_actions as" "quic_core st' = quic_core st"
  shows "quic_inv cfg (acts @ as) st'"
proof -
  have "signal_sound cfg (acts @ as)" using assms signal_sound_plain by (auto simp: quic_inv_def plain_actions_def)
  then show ?thesis using assms by (simp add: quic_inv_def plain_actions_def quic_core_def)
qed

lemma quic_inv_open:
  assumes "quic_inv cfg acts st" "quic_open cfg ob st = (as, Inr st')"
  shows "quic_inv cfg (acts @ as) st'"
proof (cases "qo_established ob \<and> \<not> qs_h3 st")
  case True
  then obtain sid where sid: "qo_open ob = Inr sid"
    using assms(2) by (cases "qo_open ob") (auto simp: quic_open_def)
  show ?thesis
  proof (cases "\<not> qc_data_check cfg \<and> \<not> qs_ready_fired st \<and> qs_ready_tx st")
    case True
    have "signal_sound cfg ((acts @ [RequestSent sid]) @ [QuicReady])"
      using True assms(1) by (intro signal_sound_first) (auto simp: quic_inv_def)
    with True sid \<open>qo_established ob \<and> \<not> qs_h3 st\<close> assms show ?thesis
      by (auto simp: quic_open_def quic_inv_def signal_ready_def Let_def)
  next
    case False
    with sid \<open>qo_established ob \<and> \<not> qs_h3 st\<close> assms have as: "as = [RequestSent sid]"
      by (auto simp: quic_open_def signal_ready_def Let_def split: if_split_asm)
    have "signal_sound cfg (acts @ as)"
      using assms(1) as by (intro signal_sound_plain) (auto simp: quic_inv_def)
    with as False sid \<open>qo_established ob \<and> \<not> qs_h3 st\<close> assms show ?thesis
      by (auto simp: quic_open_def quic_inv_def signal_ready_def Let_def split: if_split_asm)
  qed
next
  case False
  with assms show ?thesis by (simp add: quic_open_def)
qed


lemma quic_receive_effect:
  assumes "quic_inv cfg acts st"
  shows "\<exists>as st'. quic_receive ob st = Ret (as, st') \<and> quic_inv cfg (acts @ as) st'"
proof -
  obtain got os where d: "(case qs_stream st of None \<Rightarrow> Ret (False, []) | Some sid \<Rightarrow> drain_datagrams (qo_queue ob) sid (qo_dgrams ob) False []) = Ret (got, os)"
    "got \<longleftrightarrow> os \<noteq> []" "os = map Inbound (inbound_packets os)"
  proof (cases "qs_stream st")
    case (Some sid)
    with drain_datagrams_effect [of "qo_queue ob" sid "qo_dgrams ob" False "[]"] that show ?thesis by auto
  next
    case None
    with that [of False "[]"] show ?thesis by simp
  qed
  have len: "length (inbound_packets os) = length os" by (metis d(3) length_map)
  have plain: "signal_sound cfg (acts @ map QuicOffer os)"
    using assms by (intro signal_sound_plain) (auto simp: quic_inv_def)
  show ?thesis
  proof (cases "got \<and> \<not> qs_ready_fired st")
    case False
    then have "quic_receive ob st = Ret (map QuicOffer os, st)" using d(1) by (auto simp: quic_receive_def Let_def)
    moreover have "quic_inv cfg (acts @ map QuicOffer os) st" using assms plain False by (auto simp: quic_inv_def)
    ultimately show ?thesis by blast
  next
    case True
    then have os: "1 \<le> length os" using d(2) by (cases os) auto
    have req: "qs_h3 st" using True d by (cases "qs_stream st") (use assms in \<open>auto simp: quic_inv_def\<close>)
    then have check: "qc_data_check cfg" using assms True by (auto simp: quic_inv_def)
    have two: "qs_successes st + 1 \<le> length (quic_inbound (acts @ map QuicOffer os))"
      using assms True os len by (auto simp: quic_inv_def)
    show ?thesis
    proof (cases "DATA_PROBE_REQUIRED_SUCCESSES \<le> qs_successes st + 1")
      case False
      with True d(1) have "quic_receive ob st = Ret (map QuicOffer os, st\<lparr>qs_successes := qs_successes st + 1\<rparr>)"
        by (simp add: quic_receive_def Let_def)
      moreover have "quic_inv cfg (acts @ map QuicOffer os) (st\<lparr>qs_successes := qs_successes st + 1\<rparr>)"
        using assms plain two by (auto simp: quic_inv_def)
      ultimately show ?thesis by blast
    next
      case enough: True
      let ?st = "st\<lparr>qs_successes := qs_successes st + 1, qs_deadline := None, qs_ready_fired := True, qs_ready_tx := False\<rparr>"
      let ?as = "map QuicOffer os @ (if qs_ready_tx st then [QuicReady] else [])"
      have "quic_receive ob st = Ret (?as, ?st)"
        using True enough d(1) by (simp add: quic_receive_def signal_ready_def Let_def)
      moreover have "signal_sound cfg (acts @ ?as)"
      proof (cases "qs_ready_tx st")
        case tx: True
        have "signal_sound cfg ((acts @ map QuicOffer os) @ [QuicReady])"
          using tx assms check two enough by (intro signal_sound_first) (auto simp: quic_inv_def DATA_PROBE_REQUIRED_SUCCESSES_def)
        with tx show ?thesis by simp
      qed (use plain in simp)
      then have "quic_inv cfg (acts @ ?as) ?st"
        using assms check by (auto simp: quic_inv_def)
      ultimately show ?thesis by blast
    qed
  qed
qed

lemma quic_inv_finish:
  assumes "quic_inv cfg acts st" "quic_finish ob st = (as, Inr st')"
  shows "quic_inv cfg (acts @ as) st'"
proof (cases "qo_closed ob")
  case True
  then obtain retry where r: "\<not> qs_established_ever st" "\<not> qs_ech_retried st" "as = [Redial (Some retry)]"
    "st' = st\<lparr>qs_ech_retried := True, qs_ech := Some retry, qs_h3 := False, qs_stream := None, qs_capsules := capsule_parser_new\<rparr>"
    using assms(2) by (auto simp: quic_finish_def split: sum.split_asm option.split_asm if_split_asm)
  have "signal_sound cfg (acts @ as)" using assms(1) r by (intro signal_sound_plain) (auto simp: quic_inv_def)
  with assms(1) r show ?thesis by (auto simp: quic_inv_def)
next
  case False
  with assms show ?thesis by (auto simp: quic_finish_def split: sum.split_asm)
qed

lemma quic_iter_inv:
  assumes "quic_inv cfg acts st"
  shows "\<exists>as r. quic_iter cfg ob st = Ret (as, r) \<and> (\<forall>st'. r = Inr st' \<longrightarrow> quic_inv cfg (acts @ as) st')"
proof (cases "quic_expired cfg (qo_now ob) st")
  case False
  obtain a1 s1 where s1: "quic_select cfg (qo_event ob) st = Ret (a1, s1)" "plain_actions a1" "quic_core s1 = quic_core st"
    using quic_select_effect by blast
  have i1: "quic_inv cfg (acts @ a1) s1" using quic_inv_plain [OF assms s1(2,3)] .
  obtain a2 r2 where o: "quic_open cfg ob s1 = (a2, r2)" by force
  show ?thesis
  proof (cases r2)
    case (Inr s2)
    have i2: "quic_inv cfg ((acts @ a1) @ a2) s2" using quic_inv_open [OF i1] o Inr by simp
    obtain a3 r3 where p: "quic_poll cfg ob s2 = Ret (a3, r3)" "plain_actions a3" "\<forall>s. r3 = Inr s \<longrightarrow> quic_core s = quic_core s2"
      using quic_poll_effect by blast
    show ?thesis
    proof (cases r3)
      case r3: (Inr s3)
      have i3: "quic_inv cfg (((acts @ a1) @ a2) @ a3) s3" using quic_inv_plain [OF i2 p(2)] p(3) r3 by simp
      obtain a4 s4 where q: "quic_receive ob s3 = Ret (a4, s4)" "quic_inv cfg ((((acts @ a1) @ a2) @ a3) @ a4) s4"
        using quic_receive_effect [OF i3] by blast
      obtain a5 r5 where f: "quic_finish ob s4 = (a5, r5)" by force
      have "\<forall>st'. r5 = Inr st' \<longrightarrow> quic_inv cfg (((((acts @ a1) @ a2) @ a3) @ a4) @ a5) st'"
        using quic_inv_finish [OF q(2)] f by blast
      with False s1(1) o Inr p(1) r3 q(1) f show ?thesis by (simp add: quic_iter_def)
    qed (use False s1(1) o Inr p(1) in \<open>simp add: quic_iter_def\<close>)
  qed (use False s1(1) o in \<open>simp add: quic_iter_def\<close>)
qed (simp add: quic_iter_def)

definition quic_done :: "(quic_obs \<times> quic_action list) list \<Rightarrow> quic_action list" where
  "quic_done tr = concat (map snd tr)"

lemma quic_run_inv: "quic_run cfg (quic_start has_tx ech local) tr st \<Longrightarrow> quic_inv cfg (quic_done tr) st"
proof (induction rule: quic_run.induct)
  case quic_init
  show ?case by (simp add: quic_inv_def quic_done_def quic_start_def signal_sound_empty)
next
  case (quic_step tr st ob acts st')
  from quic_iter_inv [OF quic_step.IH, of ob] quic_step.hyps show ?case by (auto simp: quic_done_def)
qed

text \<open>
  C16: In every run of the QUIC tunnel, whatever the library and the edge do, an iteration never panics, and
  the proxies are told that the tunnel is ready at most once and, with the data check, only after two
  packets came back from the edge; a tunnel that is still unchecked at its deadline ends with an error,
  and the deadline stands from the request on. A connection is dialled again at most once, and only
  before it was ever established.
\<close>

theorem quic_ready_only_after_data:
  assumes "quic_run cfg (quic_start has_tx ech local) tr st"
  shows "signal_sound cfg (quic_done tr)
    \<and> quic_redials (quic_done tr) \<le> 1
    \<and> (\<exists>as r. quic_iter cfg ob st = Ret (as, r))
    \<and> (qc_data_check cfg \<and> qs_stream st \<noteq> None \<and> \<not> qs_ready_fired st \<longrightarrow>
         (\<exists>dl. qs_deadline st = Some dl \<and> (dl \<le> qo_now ob \<longrightarrow>
            quic_iter cfg ob st = Ret ([ConnClose (lit ''validation-timeout'')],
              Inl (Inl (Masque (lit ''data-plane validation timeout (handshake ok, no traffic)'')))))))"
proof -
  note inv = quic_run_inv [OF assms]
  have "\<exists>as r. quic_iter cfg ob st = Ret (as, r)" using quic_iter_inv [OF inv] by blast
  with inv show ?thesis by (auto simp: quic_inv_def quic_iter_def quic_expired_def simp del: lit_simps)
qed


subsection \<open>The check of an edge\<close>

text \<open>The packets in what an edge sends on a stream.\<close>

definition stream_packets :: "u64 \<Rightarrow> bytes list \<Rightarrow> bytes list" where
  "stream_packets sid ds = List.map_filter (\<lambda>d. case decode_ip_datagram d sid of Ret (Inr (Some p)) \<Rightarrow> Some p | _ \<Rightarrow> None) ds"

lemma stream_packets_Cons:
  "stream_packets sid (d # ds) = (case decode_ip_datagram d sid of Ret (Inr (Some p)) \<Rightarrow> p # stream_packets sid ds | _ \<Rightarrow> stream_packets sid ds)"
  by (simp add: stream_packets_def map_filter_def split: outcome.splits sum.splits option.splits)

lemma check_datagrams_count:
  "n < 2 \<Longrightarrow> check_datagrams sid ds n = Ret (if 2 \<le> n + length (stream_packets sid ds) then CheckEnds (Inr ()) else CheckOn (n + length (stream_packets sid ds)))"
proof (induction ds arbitrary: n)
  case Nil
  then show ?case by (simp add: stream_packets_def map_filter_def)
next
  case (Cons d ds)
  obtain r where r: "decode_ip_datagram d sid = Ret r" using decode_ip_datagram_returns by blast
  show ?case
  proof (cases "\<exists>p. r = Inr (Some p)")
    case True
    moreover have "n = 0 \<or> n = 1" using Cons.prems by auto
    ultimately show ?thesis
      using r Cons.IH [of 1] by (elim disjE) (auto simp: stream_packets_Cons DATA_PROBE_REQUIRED_SUCCESSES_def)
  next
    case False
    with r Cons show ?thesis by (cases r) (auto simp: stream_packets_Cons split: option.splits)
  qed
qed

definition accepted :: "u64 \<Rightarrow> h3_event list \<Rightarrow> bool" where
  "accepted sid evs \<longleftrightarrow>
     (\<exists>hs. H3Headers sid hs \<in> set evs \<and> (utf8_encode (lit '':status''), utf8_encode (lit ''200'')) \<in> set hs)"

lemma check_headers_sound:
  "check_headers data_check hs n = CheckEnds (Inr ()) \<Longrightarrow> \<not> data_check \<and> (utf8_encode (lit '':status''), utf8_encode (lit ''200'')) \<in> set hs"
  "check_headers data_check hs n = CheckOn m \<Longrightarrow> n \<le> m \<and> (n < m \<longrightarrow> data_check \<and> (utf8_encode (lit '':status''), utf8_encode (lit ''200'')) \<in> set hs)"
proof (induction data_check hs n rule: check_headers.induct)
  case (2 data_check name v hs sent)
  { case 1 with 2 show ?case by (auto split: if_split_asm simp del: lit_simps) }
  { case 2 with "2.IH" show ?case by (fastforce split: if_split_asm simp del: lit_simps) }
qed auto

lemma check_poll_sound:
  "check_poll data_check sid fail evs n = CheckEnds (Inr ()) \<Longrightarrow> \<not> data_check \<and> accepted sid evs"
  "check_poll data_check sid fail evs n = CheckOn m \<Longrightarrow> n \<le> m \<and> (n < m \<longrightarrow> accepted sid evs)"
proof (induction data_check sid fail evs n rule: check_poll.induct)
  case (2 data_check sid fail stream hs evs sent)
  { case 1
    with 2 show ?case
      using check_headers_sound [of data_check hs sent]
      by (auto simp: accepted_def split: if_split_asm check.split_asm simp del: lit_simps) }
  { case 2
    with "2.IH" show ?case
      using check_headers_sound [of data_check hs sent]
      by (fastforce simp: accepted_def split: if_split_asm check.split_asm simp del: lit_simps) }
qed (auto simp: accepted_def split: option.split_asm simp del: lit_simps)


lemma stream_packets_append: "stream_packets sid (xs @ ys) = stream_packets sid xs @ stream_packets sid ys"
  by (simp add: stream_packets_def map_filter_def)

definition verify_inv :: "nat \<Rightarrow> verify_obs list \<Rightarrow> verify_state \<Rightarrow> bool" where
  "verify_inv deadline past st \<longleftrightarrow>
     (\<forall>ob\<in>set past. vo_now ob < deadline)
     \<and> vs_successes st < 2
     \<and> (case vs_stream st of
          None \<Rightarrow> \<not> vs_connected st \<and> vs_successes st = 0
        | Some sid \<Rightarrow>
            (\<exists>ob\<in>set past. vo_established ob \<and> vo_open ob = Inr sid)
            \<and> (vs_connected st \<longrightarrow> (\<exists>ob\<in>set past. accepted sid (vo_polled ob)))
            \<and> vs_successes st \<le> length (stream_packets sid (concat (map vo_dgrams past))))"

definition edge_verified :: "bool \<Rightarrow> nat \<Rightarrow> verify_obs list \<Rightarrow> bool" where
  "edge_verified data_check deadline past \<longleftrightarrow>
     (\<exists>sid. (\<exists>ob\<in>set past. vo_established ob \<and> vo_open ob = Inr sid)
        \<and> (\<exists>ob\<in>set past. accepted sid (vo_polled ob))
        \<and> (data_check \<longrightarrow> 2 \<le> length (stream_packets sid (concat (map vo_dgrams past)))))
     \<and> (\<forall>ob\<in>set past. vo_now ob < deadline)"

lemma verify_data_effect:
  assumes inv: "verify_inv deadline (past @ [ob]) st"
    and prior: "\<forall>sid. vs_stream st = Some sid \<longrightarrow> vs_successes st \<le> length (stream_packets sid (concat (map vo_dgrams past)))"
  shows "\<exists>d. verify_data ob st = Ret d \<and> (d = CheckEnds (Inr ()) \<longrightarrow> edge_verified data_check deadline (past @ [ob]))
    \<and> (\<forall>e. d \<noteq> CheckEnds (Inl e)) \<and> (\<forall>s. d = CheckOn s \<longrightarrow> verify_inv deadline (past @ [ob]) s)"
proof (cases "\<exists>sid. vs_stream st = Some sid \<and> vs_connected st")
  case True
  then obtain sid where sid: "vs_stream st = Some sid" "vs_connected st" by blast
  let ?n = "vs_successes st + length (stream_packets sid (vo_dgrams ob))"
  let ?s = "if vs_last_probe st + 700 \<le> vo_now ob then st\<lparr>vs_probes := vs_probes st + 1, vs_last_probe := vo_now ob\<rparr> else st"
  let ?t = "if vs_successes st < ?n then ?s\<lparr>vs_successes := ?n, vs_probes := vs_probes ?s + (?n - vs_successes st), vs_last_probe := vo_now ob\<rparr> else ?s"
  have "check_datagrams sid (vo_dgrams ob) (vs_successes st) = Ret (if 2 \<le> ?n then CheckEnds (Inr ()) else CheckOn ?n)"
    using check_datagrams_count [of "vs_successes st" sid "vo_dgrams ob"] inv by (simp add: verify_inv_def)
  then have d: "verify_data ob st = Ret (if 2 \<le> ?n then CheckEnds (Inr ()) else CheckOn ?t)"
    using sid by (simp add: verify_data_def Let_def)
  show ?thesis
  proof (cases "2 \<le> ?n")
    case True
    with inv sid prior have "edge_verified data_check deadline (past @ [ob])"
      by (auto simp: edge_verified_def verify_inv_def stream_packets_append)
    with d True show ?thesis by simp
  next
    case False
    with inv sid prior have "verify_inv deadline (past @ [ob]) ?t" by (auto simp: verify_inv_def stream_packets_append)
    with d False show ?thesis by simp
  qed
next
  case False
  then have "verify_data ob st = Ret (CheckOn st)" by (auto simp: verify_data_def split: option.splits)
  with inv show ?thesis by simp
qed

lemma verify_iter_cases:
  assumes inv: "verify_inv deadline past st"
  shows "\<exists>r. verify_iter data_check deadline ob st = Ret r
    \<and> (r = CheckEnds (Inr ()) \<longrightarrow> edge_verified data_check deadline (past @ [ob]))
    \<and> (\<forall>st'. r = CheckOn st' \<longrightarrow> verify_inv deadline (past @ [ob]) st')"
proof (cases "deadline \<le> vo_now ob \<or> vo_recv ob \<noteq> None")
  case True
  then show ?thesis by (cases "deadline \<le> vo_now ob") (auto simp: verify_iter_def)
next
  case False
  let ?past = "past @ [ob]"
  show ?thesis
  proof (cases "verify_opened ob st")
    case (CheckEnds r)
    then have "r \<noteq> Inr ()" by (auto simp: verify_opened_def split: if_split_asm sum.split_asm)
    with CheckEnds False show ?thesis by (simp add: verify_iter_def)
  next
    case o: (CheckOn s1)
    have inv1: "verify_inv deadline ?past s1"
      using o inv False by (auto simp: verify_opened_def verify_inv_def stream_packets_append split: if_split_asm sum.split_asm option.splits)
    show ?thesis
    proof (cases "verify_polled data_check ob s1")
      case (CheckEnds r)
      then obtain sid where sid: "vs_stream s1 = Some sid" "check_poll data_check sid (vo_poll_fails ob) (vo_polled ob) 0 = CheckEnds r"
        by (auto simp: verify_polled_def split: option.split_asm check.split_asm)
      have "edge_verified data_check deadline ?past" if "r = Inr ()"
        using check_poll_sound(1) [OF sid(2) [unfolded that]] inv1 sid(1) by (auto simp: edge_verified_def verify_inv_def)
      with CheckEnds o False show ?thesis by (auto simp: verify_iter_def)
    next
      case p: (CheckOn s2)
      have inv2: "verify_inv deadline ?past s2"
      proof (cases "vs_stream s1")
        case None
        with p inv1 show ?thesis by (simp add: verify_polled_def)
      next
        case (Some sid)
        with p obtain sent where sent: "check_poll data_check sid (vo_poll_fails ob) (vo_polled ob) 0 = CheckOn sent"
          "s2 = (if 0 < sent then s1\<lparr>vs_connected := True, vs_last_probe := vo_now ob, vs_probes := vs_probes s1 + sent\<rparr> else s1)"
          by (auto simp: verify_polled_def split: check.split_asm)
        with check_poll_sound(2) [OF sent(1)] Some inv1 show ?thesis by (auto simp: verify_inv_def)
      qed
      have same: "vs_successes s2 = vs_successes s1 \<and> vs_stream s2 = vs_stream s1"
        using p by (auto simp: verify_polled_def split: option.split_asm check.split_asm if_split_asm)
      have old: "vs_successes s1 = vs_successes st" "vs_stream st \<noteq> None \<Longrightarrow> vs_stream s1 = vs_stream st"
        using o by (auto simp: verify_opened_def split: if_split_asm sum.split_asm)
      have "\<forall>sid. vs_stream s2 = Some sid \<longrightarrow> vs_successes s2 \<le> length (stream_packets sid (concat (map vo_dgrams past)))"
        using inv same old by (cases "vs_stream st") (auto simp: verify_inv_def)
      from verify_data_effect [OF inv2 this] obtain d where d: "verify_data ob s2 = Ret d"
        "d = CheckEnds (Inr ()) \<longrightarrow> edge_verified data_check deadline ?past" "\<forall>e. d \<noteq> CheckEnds (Inl e)"
        "\<forall>s. d = CheckOn s \<longrightarrow> verify_inv deadline ?past s" by blast
      show ?thesis
      proof (cases d)
        case (CheckEnds r)
        with d o p False show ?thesis by (auto simp: verify_iter_def)
      next
        case (CheckOn s3)
        with d o p False show ?thesis by (auto simp: verify_iter_def split: sum.splits)
      qed
    qed
  qed
qed


lemma verify_masque_inv:
  assumes "verify_inv deadline past st" "verify_masque data_check deadline obs st = Ret (Some (Inr ()))"
  shows "\<exists>used rest. obs = used @ rest \<and> edge_verified data_check deadline (past @ used)"
  using assms
proof (induction obs arbitrary: past st)
  case (Cons ob obs)
  from verify_iter_cases [OF Cons.prems(1), of data_check ob] obtain r where r: "verify_iter data_check deadline ob st = Ret r"
    "r = CheckEnds (Inr ()) \<longrightarrow> edge_verified data_check deadline (past @ [ob])" "\<forall>st'. r = CheckOn st' \<longrightarrow> verify_inv deadline (past @ [ob]) st'" by blast
  show ?case
  proof (cases r)
    case (CheckEnds x)
    with r Cons.prems(2) have "edge_verified data_check deadline (past @ [ob])" by simp
    then show ?thesis by (intro exI [of _ "[ob]"] exI [of _ obs]) simp
  next
    case (CheckOn st')
    with r Cons.prems(2) have "verify_inv deadline (past @ [ob]) st'" "verify_masque data_check deadline obs st' = Ret (Some (Inr ()))" by simp_all
    from Cons.IH [OF this] obtain used rest where "obs = used @ rest" "edge_verified data_check deadline ((past @ [ob]) @ used)" by blast
    then show ?thesis by (intro exI [of _ "ob # used"] exI [of _ rest]) simp
  qed
qed simp

text \<open>
  An edge passes the check only within the time it has, after it accepted the request with status 200 on
  the stream it was sent on, and with the data check only after two packets came back on that stream.
\<close>

lemma verify_masque_sound:
  assumes "verify_masque data_check deadline obs (verify_start now) = Ret (Some (Inr ()))"
  shows "\<exists>used rest. obs = used @ rest \<and> edge_verified data_check deadline used"
  using verify_masque_inv [OF _ assms, of "[]"] by (simp add: verify_inv_def verify_start_def)

text \<open>The tunnel itself does not look at the status: a request that the edge refused is treated as one that it accepted.\<close>

lemma quic_status_ignored: "poll_h3 addr_tx sid fail (H3Headers stream hs # evs) p offers = poll_h3 addr_tx sid fail evs p offers"
  by simp

lemma quic_ready_on_refusal:
  assumes "\<not> qc_data_check cfg" "\<not> qs_ready_fired st" "qs_ready_tx st" "qo_established ob" "\<not> qs_h3 st" "qo_open ob = Inr sid"
    and "qo_polled ob = [H3Headers sid [(utf8_encode (lit '':status''), utf8_encode (lit ''403''))]]" "qo_poll_fails ob = None"
    and "qo_dgrams ob = []" "qo_flush ob = Inr ()" "\<not> qo_closed ob" "qo_event ob = QTimeout"
  shows "\<exists>st'. quic_iter cfg ob st = Ret ([OnTimeout, RequestSent sid, QuicReady], Inr st')"
  using assms by (simp add: quic_iter_def quic_expired_def quic_select_def quic_open_def signal_ready_def quic_poll_def quic_receive_def
      quic_finish_def Let_def)

definition demo_obs :: quic_obs where
  "demo_obs = \<lparr>qo_now = 0, qo_event = QTimeout, qo_established = True, qo_open = Inr 0, qo_opened_at = 0, qo_polled = [], qo_poll_fails = None,
     qo_dgrams = [], qo_queue = (\<lambda>_ _. SendOk), qo_flush = Inr (), qo_closed = False, qo_retry = None, qo_redial = Inr ()\<rparr>"

definition demo_quic :: quic_cfg where
  "demo_quic = \<lparr>qc_data_check = True, qc_probe = [], qc_validation = 10, qc_addr_tx = False\<rparr>"

theorem quic_ready_only_after_data_witness:
  "\<forall>local. \<exists>st. quic_run demo_quic (quic_start True None local) [(demo_obs, [OnTimeout, RequestSent 0])] st
     \<and> quic_iter demo_quic (demo_obs\<lparr>qo_now := 10\<rparr>) st = Ret ([ConnClose (lit ''validation-timeout'')],
         Inl (Inl (Masque (lit ''data-plane validation timeout (handshake ok, no traffic)''))))"
proof
  fix local
  let ?s = "quic_start True None local"
  let ?t = "?s\<lparr>qs_established_ever := True, qs_h3 := True, qs_stream := Some 0, qs_deadline := Some 10\<rparr>"
  have "quic_iter demo_quic demo_obs ?s = Ret ([OnTimeout, RequestSent 0], Inr ?t)"
    by (simp add: quic_iter_def quic_expired_def quic_select_def quic_open_def quic_poll_def quic_receive_def quic_finish_def
        demo_obs_def demo_quic_def quic_start_def Let_def)
  moreover have "quic_guard demo_quic ?s (qo_event demo_obs)" by (simp add: quic_guard_def demo_obs_def)
  ultimately have run: "quic_run demo_quic ?s [(demo_obs, [OnTimeout, RequestSent 0])] ?t"
    using quic_step [OF quic_init, of demo_quic ?s demo_obs] by simp
  from quic_ready_only_after_data [OF run, of "demo_obs\<lparr>qo_now := 10\<rparr>"] run
  show "\<exists>st. quic_run demo_quic ?s [(demo_obs, [OnTimeout, RequestSent 0])] st
     \<and> quic_iter demo_quic (demo_obs\<lparr>qo_now := 10\<rparr>) st = Ret ([ConnClose (lit ''validation-timeout'')],
         Inl (Inl (Masque (lit ''data-plane validation timeout (handshake ok, no traffic)''))))"
    by (intro exI [of _ ?t]) (simp add: demo_quic_def quic_start_def del: lit_simps)
qed


subsection \<open>Packets\<close>

text \<open>A packet for the edge leaves as one datagram from which the edge reads exactly that packet.\<close>

lemma quic_outbound_exact:
  assumes "qs_stream st = Some sid"
  shows "\<exists>w. quic_select cfg (QOutbound (Some pkt)) st = Ret ([DgramSend w], st) \<and> decode_ip_datagram w sid = Ret (Inr (Some pkt))"
proof -
  obtain w where "encode_ip_datagram sid pkt = Ret (Inr w)" "decode_ip_datagram w sid = Ret (Inr (Some pkt))"
    using ip_datagram_roundtrip [of sid pkt sid] by auto
  with assms show ?thesis by (simp add: quic_select_def send_packet_on_def)
qed

text \<open>The packets that the edge sends are handed to the stack in their order, none lost as long as its queue takes them.\<close>

lemma quic_inbound_exact:
  assumes "list_all2 (\<lambda>pkt d. encode_ip_datagram sid pkt = Ret (Inr d)) pkts ds" "\<And>os p. queue os p \<noteq> SendClosed"
  shows "drain_datagrams queue sid ds delivered offers = Ret (delivered \<or> pkts \<noteq> [], offers @ map Inbound pkts)"
  using assms(1)
proof (induction pkts ds arbitrary: delivered offers rule: list_all2_induct)
  case (Cons pkt pkts d ds)
  have "decode_ip_datagram d sid = Ret (Inr (Some pkt))"
    using ip_datagram_roundtrip [of sid pkt sid] Cons.hyps(1) by auto
  with Cons.IH assms(2) show ?case by simp
qed simp

end
