(* ===== verification/Dns.thy ===== *)
theory Dns
  imports Aether_Error
begin

text \<open>
  The two DNS clients of the program: \<open>dns.rs\<close>, which fetches an ECH configuration from public
  resolvers, and the resolver of \<open>socks.rs\<close>, which looks up host names through the tunnel. Both build
  a query, accept only a reply that repeats its id and question, and walk over the records of an
  untrusted message. Indexing panics out of range, as in the source; random ids and the arrival of
  datagrams are inputs.
\<close>

unbundle bit_operations_syntax

definition RR_HTTPS :: u16 where "RR_HTTPS = 65"
definition SVCPARAM_ECH :: u16 where "SVCPARAM_ECH = 5"
definition QTYPE_A :: u16 where "QTYPE_A = 1"

definition BOOTSTRAP_DNS :: "str list" where
  "BOOTSTRAP_DNS = map lit [''1.1.1.1:53'', ''1.0.0.1:53'', ''8.8.8.8:53'']"

definition ECH_HOSTS :: "str list" where
  "ECH_HOSTS = map lit [''cloudflare-ech.com'', ''crypto.cloudflare.com'']"

definition lower_u8 :: "u8 \<Rightarrow> u8" where
  "lower_u8 b = (if 65 \<le> b \<and> b \<le> 90 then b + 32 else b)"

definition bytes_eq_ignore_case :: "bytes \<Rightarrow> bytes \<Rightarrow> bool" where
  "bytes_eq_ignore_case a b \<longleftrightarrow> map lower_u8 a = map lower_u8 b"

subsection \<open>Matching a reply\<close>

text \<open>The loop over the labels of the expected name: the position after them, or \<^term>\<open>None\<close> on a mismatch.\<close>

fun match_labels :: "bytes \<Rightarrow> str list \<Rightarrow> nat \<Rightarrow> nat option outcome" where
  "match_labels msg [] pos = Ret (Some pos)"
| "match_labels msg (label # labels) pos =
     (if label = [] then match_labels msg labels pos
      else case get_at msg pos of
             None \<Rightarrow> Ret None
           | Some v \<Rightarrow>
               let len = unat v in
               if len \<noteq> str_len label then Ret None
               else case checked_add (pos + 1) len of
                      None \<Rightarrow> Ret None
                    | Some e \<Rightarrow>
                        if e \<le> length msg then
                          slice msg (pos + 1) e (\<lambda>part.
                          if bytes_eq_ignore_case part (utf8_encode label) then match_labels msg labels e
                          else Ret None)
                        else Ret None)"

definition response_matches :: "bytes \<Rightarrow> u16 \<Rightarrow> str \<Rightarrow> u16 \<Rightarrow> bool outcome" where
  "response_matches msg expected_id expected_name expected_qtype =
     (if length msg < 12 then Ret False else
      index msg 0 (\<lambda>m0. index msg 1 (\<lambda>m1.
      if from_be16 m0 m1 \<noteq> expected_id then Ret False else
      index msg 2 (\<lambda>m2.
      if m2 AND 0x80 = 0 then Ret False else
      index msg 4 (\<lambda>m4. index msg 5 (\<lambda>m5.
      if from_be16 m4 m5 \<noteq> 1 then Ret False else
      out_bind (match_labels msg (split_on (\<lambda>c. c = 46) expected_name) 12) (\<lambda>r.
      case r of
        None \<Rightarrow> Ret False
      | Some pos \<Rightarrow>
          if get_at msg pos \<noteq> Some 0 then Ret False
          else if length msg < pos + 1 + 4 then Ret False
          else index msg (pos + 1) (\<lambda>q0. index msg (pos + 2) (\<lambda>q1.
               Ret (from_be16 q0 q1 = expected_qtype))))))))))"

text \<open>The copy of the same check in \<open>socks.rs\<close>.\<close>

definition dns_response_matches :: "bytes \<Rightarrow> u16 \<Rightarrow> str \<Rightarrow> u16 \<Rightarrow> bool outcome" where
  "dns_response_matches resp expected_id expected_name expected_qtype =
     (if length resp < 12 then Ret False else
      index resp 0 (\<lambda>m0. index resp 1 (\<lambda>m1.
      if from_be16 m0 m1 \<noteq> expected_id then Ret False else
      index resp 2 (\<lambda>m2.
      if m2 AND 0x80 = 0 then Ret False else
      index resp 4 (\<lambda>m4. index resp 5 (\<lambda>m5.
      if from_be16 m4 m5 \<noteq> 1 then Ret False else
      out_bind (match_labels resp (split_on (\<lambda>c. c = 46) expected_name) 12) (\<lambda>r.
      case r of
        None \<Rightarrow> Ret False
      | Some pos \<Rightarrow>
          if get_at resp pos \<noteq> Some 0 then Ret False
          else if length resp < pos + 1 + 4 then Ret False
          else index resp (pos + 1) (\<lambda>q0. index resp (pos + 2) (\<lambda>q1.
               Ret (from_be16 q0 q1 = expected_qtype))))))))))"

subsection \<open>Building a query\<close>

definition label_bytes :: "str \<Rightarrow> bytes" where
  "label_bytes label = word_of_nat (str_len label) # utf8_encode label"

definition query_header :: "u16 \<Rightarrow> bytes" where
  "query_header qid = to_be16 qid @ [0x01, 0x00] @ [0x00, 0x01] @ [0, 0, 0, 0, 0, 0]"

definition build_query :: "u16 \<Rightarrow> str \<Rightarrow> u16 \<Rightarrow> bytes \<times> u16" where
  "build_query qid name qtype =
     (query_header qid
      @ concat (map (\<lambda>label. if label = [] then [] else label_bytes label) (split_on (\<lambda>c. c = 46) name))
      @ [0x00] @ to_be16 qtype @ [0x00, 0x01], qid)"

definition build_dns_query :: "u16 \<Rightarrow> str \<Rightarrow> u16 \<Rightarrow> bytes \<times> u16" where
  "build_dns_query qid name qtype =
     (query_header qid
      @ concat (map label_bytes (split_on (\<lambda>c. c = 46) name))
      @ [0x00] @ to_be16 qtype @ [0x00, 0x01], qid)"

subsection \<open>Walking over records\<close>

function skip_name :: "bytes \<Rightarrow> nat \<Rightarrow> nat option" where
  "skip_name buf pos =
     (case get_at buf pos of
        None \<Rightarrow> None
      | Some len \<Rightarrow>
          if len AND 0xc0 = 0xc0 then Some (pos + 2)
          else if len = 0 then Some (pos + 1)
          else skip_name buf (pos + 1 + unat len))"
  by pat_completeness auto
termination
  by (relation "measure (\<lambda>(buf, pos). length buf - pos)") auto

declare skip_name.simps [simp del]

definition u16_at :: "bytes \<Rightarrow> nat \<Rightarrow> (u16 \<Rightarrow> 'a outcome) \<Rightarrow> 'a outcome" where
  "u16_at msg i k = index msg i (\<lambda>a. index msg (i + 1) (\<lambda>b. k (from_be16 a b)))"

fun skip_questions :: "bytes \<Rightarrow> nat \<Rightarrow> nat \<Rightarrow> nat option" where
  "skip_questions msg 0 pos = Some pos"
| "skip_questions msg (Suc qd) pos = do {
     pos \<leftarrow> skip_name msg pos;
     pos \<leftarrow> checked_add pos 4;
     skip_questions msg qd pos }"

function svcparams_from :: "bytes \<Rightarrow> nat \<Rightarrow> nat \<Rightarrow> bytes option outcome" where
  "svcparams_from msg e p =
     (if p + 4 \<le> e then
        u16_at msg p (\<lambda>key. u16_at msg (p + 2) (\<lambda>len.
        if e < p + 4 + unat len then Ret None
        else if key = SVCPARAM_ECH then slice msg (p + 4) (p + 4 + unat len) (\<lambda>s. Ret (Some s))
        else svcparams_from msg e (p + 4 + unat len)))
      else Ret None)"
  by pat_completeness auto
termination
  by (relation "measure (\<lambda>(_, e, p). e - p)") auto

declare svcparams_from.simps [simp del]

definition parse_svcparams_ech :: "bytes \<Rightarrow> nat \<Rightarrow> nat \<Rightarrow> bytes option outcome" where
  "parse_svcparams_ech msg rdata_start rdlen =
     (let e = rdata_start + rdlen in
      if e < rdata_start + 2 then Ret None
      else qmark (skip_name msg (rdata_start + 2)) (\<lambda>p. svcparams_from msg e p))"

fun ech_answers :: "bytes \<Rightarrow> nat \<Rightarrow> nat \<Rightarrow> bytes option outcome" where
  "ech_answers msg 0 pos = Ret None"
| "ech_answers msg (Suc an) pos =
     qmark (skip_name msg pos) (\<lambda>pos.
     if length msg < pos + 10 then Ret None else
     u16_at msg pos (\<lambda>rtype. u16_at msg (pos + 8) (\<lambda>rdlen.
     if length msg < pos + 10 + unat rdlen then Ret None
     else if rtype = RR_HTTPS then
       out_bind (parse_svcparams_ech msg (pos + 10) (unat rdlen)) (\<lambda>r.
       case r of
         Some ech \<Rightarrow> Ret (Some ech)
       | None \<Rightarrow> ech_answers msg an (pos + 10 + unat rdlen))
     else ech_answers msg an (pos + 10 + unat rdlen))))"

definition parse_https_ech :: "bytes \<Rightarrow> bytes option outcome" where
  "parse_https_ech msg =
     (if length msg < 12 then Ret None else
      u16_at msg 4 (\<lambda>qd. u16_at msg 6 (\<lambda>an.
      qmark (skip_questions msg (unat qd) 12) (\<lambda>pos. ech_answers msg (unat an) pos))))"

fun a_answers :: "bytes \<Rightarrow> nat \<Rightarrow> nat \<Rightarrow> ip_addr option outcome" where
  "a_answers resp 0 pos = Ret None"
| "a_answers resp (Suc an) pos =
     qmark (skip_name resp pos) (\<lambda>pos.
     if length resp < pos + 10 then Ret None else
     u16_at resp pos (\<lambda>rtype. u16_at resp (pos + 8) (\<lambda>rdlen.
     if length resp < pos + 10 + unat rdlen then Ret None
     else if rtype = 1 \<and> rdlen = 4 then
       index resp (pos + 10) (\<lambda>a. index resp (pos + 11) (\<lambda>b.
       index resp (pos + 12) (\<lambda>c. index resp (pos + 13) (\<lambda>d.
       Ret (Some (V4 (ipv4_from [a, b, c, d])))))))
     else a_answers resp an (pos + 10 + unat rdlen))))"

definition parse_dns_a :: "bytes \<Rightarrow> ip_addr option outcome" where
  "parse_dns_a resp =
     (if length resp < 12 then Ret None else
      u16_at resp 4 (\<lambda>qd. u16_at resp 6 (\<lambda>an.
      qmark (skip_questions resp (unat qd) 12) (\<lambda>pos. a_answers resp (unat an) pos))))"

subsection \<open>Exchanges\<close>

text \<open>What a receive on a socket, or on the channel from the network stack, yields before the deadline.\<close>

datatype sock_event = SockData bytes | SockError io_error | SockTimeout

datatype chan_event = ChanData bytes | ChanClosed | ChanTimeout

text \<open>
  The receive loop of \<open>query_ech\<close>; \<^term>\<open>None\<close> while it is still waiting. A UDP read into the
  4096-byte buffer drops what does not fit.
\<close>

fun ech_receive :: "u16 \<Rightarrow> str \<Rightarrow> sock_event list \<Rightarrow> bytes result option outcome" where
  "ech_receive qid host [] = Ret None"
| "ech_receive qid host (SockData d # evs) =
     (let m = take 4096 d in
      out_bind (response_matches m qid host RR_HTTPS) (\<lambda>ok.
      if \<not> ok then ech_receive qid host evs
      else out_bind (parse_https_ech m) (\<lambda>r.
           Ret (Some (case r of Some ech \<Rightarrow> Inr ech | None \<Rightarrow> Inl (Ech (lit ''no ech svcparam'')))))))"
| "ech_receive qid host (SockError e # evs) = Ret (Some (Inl (Io e)))"
| "ech_receive qid host (SockTimeout # evs) = Ret (Some (Inl (Ech (lit ''dns timeout''))))"

text \<open>\<open>query\<close> stands for one \<open>query_ech\<close> exchange with a server about a host.\<close>

fun first_ech :: "(sock_addr \<Rightarrow> str \<Rightarrow> bytes result) \<Rightarrow> (str \<times> str) list \<Rightarrow> bytes result" where
  "first_ech query [] = Inl (Ech (lit ''no ECHConfigList resolved''))"
| "first_ech query ((host, server) # rest) =
     (case parse_sock_addr server of
        None \<Rightarrow> first_ech query rest
      | Some addr \<Rightarrow>
          (case query addr host of
             Inr ech \<Rightarrow> if ech \<noteq> [] then Inr ech else first_ech query rest
           | Inl _ \<Rightarrow> first_ech query rest))"

definition fetch_ech_config :: "(sock_addr \<Rightarrow> str \<Rightarrow> bytes result) \<Rightarrow> bytes result" where
  "fetch_ech_config query =
     first_ech query (concat (map (\<lambda>host. map (\<lambda>server. (host, server)) BOOTSTRAP_DNS) ECH_HOSTS))"

definition parse_server :: "str \<Rightarrow> sock_addr option" where
  "parse_server e =
     (case parse_sock_addr e of
        Some a \<Rightarrow> Some a
      | None \<Rightarrow> map_option (\<lambda>ip. sock_addr_new ip 53) (parse_ip e))"

fun push_servers :: "sock_addr list \<Rightarrow> str list \<Rightarrow> sock_addr list" where
  "push_servers servers [] = servers"
| "push_servers servers (token # rest) =
     (let e = trim token in
      if e = [] then push_servers servers rest
      else case parse_server e of
             Some a \<Rightarrow> push_servers (if a \<in> set servers then servers else servers @ [a]) rest
           | None \<Rightarrow> push_servers servers rest)"

definition resolver_addresses :: "str option \<Rightarrow> sock_addr list outcome" where
  "resolver_addresses aether_dns =
     (let configured = (case aether_dns of Some v \<Rightarrow> v | None \<Rightarrow> []);
          servers = push_servers [] (split_on (\<lambda>c. c = 44 \<or> c = 32 \<or> c = 59) configured) in
      if servers \<noteq> [] then Ret servers
      else case (parse_sock_addr (lit ''1.1.1.1:53''), parse_sock_addr (lit ''1.0.0.1:53'')) of
             (Some a, Some b) \<Rightarrow> Ret [a, b]
           | _ \<Rightarrow> Panic)"

text \<open>
  The exchange with one server after the query is sent: the wait ends with an answer, with an error
  that ends the whole lookup, or with the deadline, after which the next server is tried.
\<close>

datatype exchange = Answer "ip_addr result" | NextServer | Waiting

fun dns_receive :: "u16 \<Rightarrow> str \<Rightarrow> chan_event list \<Rightarrow> exchange outcome" where
  "dns_receive qid name [] = Ret Waiting"
| "dns_receive qid name (ChanData resp # evs) =
     out_bind (dns_response_matches resp qid name QTYPE_A) (\<lambda>ok.
     if \<not> ok then dns_receive qid name evs
     else out_bind (parse_dns_a resp) (\<lambda>r.
          Ret (Answer (case r of Some ip \<Rightarrow> Inr ip
                       | None \<Rightarrow> Inl (Other (lit ''no A record for '' @ name))))))"
| "dns_receive qid name (ChanClosed # evs) = Ret (Answer (Inl (Other (lit ''dns channel closed''))))"
| "dns_receive qid name (ChanTimeout # evs) = Ret NextServer"

text \<open>
  Each server comes with the random id of its query, the outcome of sending it a datagram and the events
  that follow. The value \<^term>\<open>None\<close> means the lookup is still waiting.
\<close>

fun dns_exchange_with ::
  "str \<Rightarrow> aether_error \<Rightarrow> (sock_addr \<times> u16 \<times> (bytes \<Rightarrow> unit result) \<times> chan_event list) list
    \<Rightarrow> ip_addr result option outcome" where
  "dns_exchange_with name last_err [] = Ret (Some (Inl last_err))"
| "dns_exchange_with name last_err ((server, random, send_to, evs) # rest) =
     (let (query, qid) = build_dns_query random name QTYPE_A in
      case send_to query of
        Inl e \<Rightarrow> dns_exchange_with name e rest
      | Inr _ \<Rightarrow>
          out_bind (dns_receive qid name evs) (\<lambda>x.
          case x of
            Answer r \<Rightarrow> Ret (Some r)
          | Waiting \<Rightarrow> Ret None
          | NextServer \<Rightarrow>
              dns_exchange_with name (Other (lit ''dns timeout from '' @ show_sock_addr server)) rest))"

definition dns_exchange ::
  "str \<Rightarrow> (sock_addr \<times> u16 \<times> (bytes \<Rightarrow> unit result) \<times> chan_event list) list \<Rightarrow> ip_addr result option outcome" where
  "dns_exchange name servers = dns_exchange_with name (Other (lit ''dns timeout'')) servers"

subsection \<open>Accepted replies\<close>

definition name_bytes :: "bytes list \<Rightarrow> bytes" where
  "name_bytes parts = concat (map (\<lambda>p. word_of_nat (length p) # p) parts)"

lemma name_bytes_simps [simp]:
  "name_bytes [] = []" "name_bytes (p # ps) = word_of_nat (length p) # p @ name_bytes ps"
  by (simp_all add: name_bytes_def)

text \<open>A label on the wire that repeats an expected label up to ASCII case.\<close>

definition same_label :: "bytes \<Rightarrow> str \<Rightarrow> bool" where
  "same_label p l \<longleftrightarrow> length p < 256 \<and> bytes_eq_ignore_case p (utf8_encode l)"

definition labels_of :: "str \<Rightarrow> str list" where
  "labels_of name = filter (\<lambda>l. l \<noteq> []) (split_on (\<lambda>c. c = 46) name)"

lemma same_label_length: "same_label p l \<Longrightarrow> length p = str_len l"
  by (auto simp: same_label_def bytes_eq_ignore_case_def str_len_def dest: arg_cong [where f = length])

lemma match_labels_skip: "match_labels msg labels pos = match_labels msg (filter (\<lambda>l. l \<noteq> []) labels) pos"
proof (induction labels arbitrary: pos)
  case (Cons l ls)
  have "match_labels msg ls = match_labels msg (filter (\<lambda>l. l \<noteq> []) ls)" by (rule ext) (rule Cons.IH)
  then have eq: "match_labels msg (l # filter (\<lambda>l. l \<noteq> []) ls) pos = match_labels msg (l # ls) pos"
    unfolding match_labels.simps(2) by (simp only:)
  show ?case using Cons.IH eq by (cases "l = []") (simp_all del: match_labels.simps(2), simp)
qed simp

lemma match_labels_Cons:
  assumes "length msg < 2 ^ 63" "l \<noteq> []"
  shows "match_labels msg (l # ls) pos =
    (if \<exists>p rest. drop pos msg = word_of_nat (length p) # p @ rest \<and> same_label p l
     then match_labels msg ls (pos + 1 + str_len l) else Ret None)"
proof (cases "pos < length msg")
  case False
  then show ?thesis using assms(2) by (simp add: get_at_def)
next
  case True
  let ?v = "msg ! pos" and ?e = "pos + 1 + unat (msg ! pos)"
  have d: "drop pos msg = ?v # drop (pos + 1) msg" using True by (simp add: Cons_nth_drop_Suc)
  have step: "match_labels msg (l # ls) pos =
      (if unat ?v = str_len l \<and> ?e \<le> length msg
          \<and> bytes_eq_ignore_case (take (unat ?v) (drop (pos + 1) msg)) (utf8_encode l)
       then match_labels msg ls (pos + 1 + str_len l) else Ret None)"
    using assms True by (auto simp: get_at_def checked_add_def Let_def)
  have eqv: "(\<exists>p rest. drop pos msg = word_of_nat (length p) # p @ rest \<and> same_label p l) \<longleftrightarrow>
      unat ?v = str_len l \<and> ?e \<le> length msg \<and> bytes_eq_ignore_case (take (unat ?v) (drop (pos + 1) msg)) (utf8_encode l)"
    (is "?L \<longleftrightarrow> ?R")
  proof
    assume ?L
    then obtain p rest where p: "?v = word_of_nat (length p)" "drop (pos + 1) msg = p @ rest" "same_label p l"
      using d by auto
    then have v: "unat ?v = length p" by (simp add: same_label_def unsigned_of_nat take_bit_eq_mod)
    moreover have "length p \<le> length msg - (pos + 1)" using p(2) by (metis length_append length_drop le_add1)
    ultimately show ?R using p(2,3) same_label_length [OF p(3)] True by (auto simp: same_label_def)
  next
    assume R: ?R
    let ?p = "take (unat ?v) (drop (pos + 1) msg)"
    have len: "length ?p = unat ?v" using R by (simp only: length_take length_drop) linarith
    have "drop pos msg = word_of_nat (length ?p) # ?p @ drop (unat ?v) (drop (pos + 1) msg)"
      unfolding len using d by (simp only: word_nat_id append_take_drop_id)
    moreover have "str_len l < 256" using R by (metis unat_u8_less)
    then have "same_label ?p l" unfolding same_label_def len using R by auto
    ultimately show ?L by blast
  qed
  show ?thesis unfolding step eqv ..
qed

lemma match_labels_returns: "returns (match_labels msg labels pos)"
  by (induction msg labels pos rule: match_labels.induct)
    (auto simp: Let_def intro!: no_panic split: option.splits)

lemma match_labels_iff:
  assumes "length msg < 2 ^ 63" "list_all (\<lambda>l. l \<noteq> []) labels"
  shows "match_labels msg labels pos = Ret (Some pos') \<longleftrightarrow>
    (\<exists>parts rest. drop pos msg = name_bytes parts @ rest \<and> list_all2 same_label parts labels
       \<and> pos' = pos + length (name_bytes parts))"
  using assms(2)
proof (induction labels arbitrary: pos)
  case Nil
  then show ?case by auto
next
  case (Cons l ls)
  have l: "l \<noteq> []" "list_all (\<lambda>l. l \<noteq> []) ls" using Cons.prems by simp_all
  show ?case (is "?L \<longleftrightarrow> ?R")
  proof
    assume L: ?L
    then obtain p rest where p: "drop pos msg = word_of_nat (length p) # p @ rest" "same_label p l"
      and m: "match_labels msg ls (pos + 1 + str_len l) = Ret (Some pos')"
      using match_labels_Cons [OF assms(1) l(1)] by (auto split: if_splits)
    have len: "length p = str_len l" using p(2) by (rule same_label_length)
    have "drop (pos + 1 + str_len l) msg = drop (1 + length p) (drop pos msg)" by (simp add: len ac_simps)
    then have tail: "drop (pos + 1 + str_len l) msg = rest" using p(1) by simp
    obtain ps rest' where "rest = name_bytes ps @ rest'" "list_all2 same_label ps ls"
        "pos' = pos + 1 + str_len l + length (name_bytes ps)"
      using Cons.IH [OF l(2), of "pos + 1 + str_len l"] m tail by auto
    then show ?R using p len by (intro exI [of _ "p # ps"]) auto
  next
    assume ?R
    then obtain parts rest where r: "drop pos msg = name_bytes parts @ rest" "list_all2 same_label parts (l # ls)"
        "pos' = pos + length (name_bytes parts)" by blast
    then obtain p ps where ps: "parts = p # ps" "same_label p l" "list_all2 same_label ps ls"
      by (auto simp: list_all2_Cons2)
    have len: "length p = str_len l" using ps(2) by (rule same_label_length)
    have d: "drop pos msg = word_of_nat (length p) # p @ (name_bytes ps @ rest)" using r(1) ps(1) by simp
    have "drop (pos + 1 + str_len l) msg = drop (1 + length p) (drop pos msg)" by (simp add: len ac_simps)
    then have "drop (pos + 1 + str_len l) msg = name_bytes ps @ rest" using d by simp
    then have "match_labels msg ls (pos + 1 + str_len l) = Ret (Some pos')"
      using Cons.IH [OF l(2), of "pos + 1 + str_len l"] ps(3) r(3) ps(1) len by auto
    then show ?L using match_labels_Cons [OF assms(1) l(1), of ls pos] d ps(2) by (auto split: if_splits)
  qed
qed

text \<open>The messages a query with this id, name and type accepts as its reply.\<close>

definition is_reply :: "bytes \<Rightarrow> u16 \<Rightarrow> str \<Rightarrow> u16 \<Rightarrow> bool" where
  "is_reply msg qid name qtype \<longleftrightarrow>
     (\<exists>f0 f1 counts parts rest.
        msg = to_be16 qid @ [f0, f1] @ to_be16 1 @ counts @ name_bytes parts @ [0] @ to_be16 qtype @ rest
        \<and> f0 AND 0x80 \<noteq> 0 \<and> length counts = 6 \<and> 2 \<le> length rest
        \<and> list_all2 same_label parts (labels_of name))"

lemma header_split:
  assumes "12 \<le> length msg"
  obtains m0 m1 m2 m3 m4 m5 counts rest where "msg = [m0, m1, m2, m3, m4, m5] @ counts @ rest" "length counts = 6"
proof -
  have "length (take 6 msg) = Suc (Suc (Suc (Suc (Suc (Suc 0)))))" using assms by simp
  then obtain m0 m1 m2 m3 m4 m5 where "take 6 msg = [m0, m1, m2, m3, m4, m5]"
    by (auto simp only: length_Suc_conv length_0_conv)
  then show ?thesis
    using that [of m0 m1 m2 m3 m4 m5 "take 6 (drop 6 msg)" "drop 12 msg"] assms
      append_take_drop_id [of 6 msg] append_take_drop_id [of 6 "drop 6 msg"] by simp
qed

lemma response_matches_header:
  assumes "length counts = 6"
  shows "response_matches ([m0, m1, m2, m3, m4, m5] @ counts @ body) qid name qtype =
    (if from_be16 m0 m1 \<noteq> qid \<or> m2 AND 0x80 = 0 \<or> from_be16 m4 m5 \<noteq> 1 then Ret False
     else out_bind (match_labels ([m0, m1, m2, m3, m4, m5] @ counts @ body) (split_on (\<lambda>c. c = 46) name) 12) (\<lambda>r.
       case r of
         None \<Rightarrow> Ret False
       | Some pos \<Rightarrow>
           let msg = [m0, m1, m2, m3, m4, m5] @ counts @ body in
           if get_at msg pos \<noteq> Some 0 then Ret False
           else if length msg < pos + 1 + 4 then Ret False
           else index msg (pos + 1) (\<lambda>q0. index msg (pos + 2) (\<lambda>q1. Ret (from_be16 q0 q1 = qtype)))))"
  using assms by (simp add: response_matches_def Let_def)

lemma is_reply_header:
  assumes "length counts = 6"
  shows "is_reply ([m0, m1, m2, m3, m4, m5] @ counts @ body) qid name qtype \<longleftrightarrow>
    from_be16 m0 m1 = qid \<and> m2 AND 0x80 \<noteq> 0 \<and> from_be16 m4 m5 = 1 \<and>
    (\<exists>parts rest. body = name_bytes parts @ [0] @ to_be16 qtype @ rest \<and> 2 \<le> length rest
       \<and> list_all2 same_label parts (labels_of name))"
proof -
  obtain a b where ab: "to_be16 qid = [a, b]" by (rule be16_cases)
  obtain c d where cd: "to_be16 1 = [c, d]" by (rule be16_cases)
  have hdr: "[m0, m1, m2, m3, m4, m5] @ counts @ body = to_be16 qid @ [f0, f1] @ to_be16 1 @ counts' @ tl \<longleftrightarrow>
      [m0, m1] = to_be16 qid \<and> m2 = f0 \<and> m3 = f1 \<and> [m4, m5] = to_be16 1 \<and> counts = counts' \<and> body = tl"
    if "length counts' = 6" for f0 f1 counts' tl
    using assms that by (auto simp: ab cd)
  show ?thesis (is "?L \<longleftrightarrow> ?R")
  proof
    assume ?L
    then show ?R unfolding is_reply_def from_be16_eq by (elim exE conjE) (simp only: hdr, blast)
  next
    assume ?R
    then obtain parts rest where "[m0, m1] = to_be16 qid" "m2 AND 0x80 \<noteq> 0" "[m4, m5] = to_be16 1"
      "body = name_bytes parts @ [0] @ to_be16 qtype @ rest" "2 \<le> length rest"
      "list_all2 same_label parts (labels_of name)" unfolding from_be16_eq by blast
    moreover from this have "[m0, m1, m2, m3, m4, m5] @ counts @ body
        = to_be16 qid @ [m2, m3] @ to_be16 1 @ counts @ name_bytes parts @ [0] @ to_be16 qtype @ rest"
      using ab cd by simp
    ultimately show ?L unfolding is_reply_def using assms by blast
  qed
qed

lemma question_end:
  "get_at msg pos = Some 0 \<and> pos + 1 + 4 \<le> length msg \<and> from_be16 (msg ! (pos + 1)) (msg ! (pos + 2)) = qtype \<longleftrightarrow>
   (\<exists>rest. drop pos msg = [0] @ to_be16 qtype @ rest \<and> 2 \<le> length rest)" (is "?L \<longleftrightarrow> ?R")
proof
  assume L: ?L
  then have "drop pos msg = [0, msg ! (pos + 1), msg ! (pos + 2)] @ drop (pos + 3) msg"
    using Cons_nth_drop_Suc [of pos msg] Cons_nth_drop_Suc [of "pos + 1" msg] Cons_nth_drop_Suc [of "pos + 2" msg]
    by (simp add: numeral_3_eq_3)
  moreover have "[msg ! (pos + 1), msg ! (pos + 2)] = to_be16 qtype" using L by (simp only: from_be16_eq)
  moreover have "2 \<le> length (drop (pos + 3) msg)" using L by (simp only: length_drop) linarith
  ultimately show ?R by (intro exI [of _ "drop (pos + 3) msg"]) simp
next
  assume ?R
  then obtain rest where r: "drop pos msg = [0] @ to_be16 qtype @ rest" "2 \<le> length rest" by blast
  obtain a b where ab: "to_be16 qtype = [a, b]" "from_be16 a b = qtype" by (rule be16_cases)
  have len: "length msg - pos = 3 + length rest" using arg_cong [OF r(1), of length] ab by simp
  have "drop pos msg ! 0 = 0" "drop pos msg ! 1 = a" "drop pos msg ! 2 = b" using r(1) ab(1) by simp_all
  moreover have "pos < length msg" "pos + 1 + 4 \<le> length msg" using len r(2) by linarith+
  ultimately show ?L using ab(2) by (simp add: get_at_def)
qed

lemma response_matches_is_reply:
  assumes "length msg < 2 ^ 63"
  shows "response_matches msg qid name qtype = Ret (is_reply msg qid name qtype)"
proof (cases "12 \<le> length msg")
  case False
  then have "\<not> is_reply msg qid name qtype" by (auto simp: is_reply_def)
  with False show ?thesis by (simp add: response_matches_def)
next
  case True
  then obtain m0 m1 m2 m3 m4 m5 counts body where
    msg: "msg = [m0, m1, m2, m3, m4, m5] @ counts @ body" and c: "length counts = 6"
    by (rule header_split)
  have body: "drop 12 msg = body" using msg c by simp
  have ne: "list_all (\<lambda>l. l \<noteq> []) (labels_of name)" by (auto simp: labels_of_def list_all_iff)
  have skip: "match_labels msg (split_on (\<lambda>c. c = 46) name) 12 = match_labels msg (labels_of name) 12"
    unfolding labels_of_def by (rule match_labels_skip)
  obtain r where r: "match_labels msg (labels_of name) 12 = Ret r"
    using match_labels_returns [of msg "labels_of name" 12] by (auto simp: returns_iff)
  note iff = match_labels_iff [OF assms ne, of 12, unfolded body]
  have tail: "(\<exists>parts rest. body = name_bytes parts @ [0] @ to_be16 qtype @ rest \<and> 2 \<le> length rest
      \<and> list_all2 same_label parts (labels_of name))
     \<longleftrightarrow> (\<exists>pos. r = Some pos \<and> (\<exists>rest. drop pos msg = [0] @ to_be16 qtype @ rest \<and> 2 \<le> length rest))"
    (is "?A \<longleftrightarrow> ?B")
  proof
    assume ?A
    then obtain parts rest where p: "body = name_bytes parts @ [0] @ to_be16 qtype @ rest" "2 \<le> length rest"
      "list_all2 same_label parts (labels_of name)" by blast
    then have "r = Some (12 + length (name_bytes parts))"
      using iff [of "12 + length (name_bytes parts)"] r by auto
    moreover have "drop (12 + length (name_bytes parts)) msg = drop (length (name_bytes parts)) (drop 12 msg)" by (simp add: add.commute)
    ultimately show ?B using p body by simp
  next
    assume ?B
    then obtain pos rest where p: "r = Some pos" "drop pos msg = [0] @ to_be16 qtype @ rest" "2 \<le> length rest" by blast
    then obtain parts rest' where q: "body = name_bytes parts @ rest'" "list_all2 same_label parts (labels_of name)"
      "pos = 12 + length (name_bytes parts)" using iff [of pos] r by auto
    then have "drop pos msg = rest'" using body by (metis add.commute append_eq_conv_conj drop_drop)
    with p q have "body = name_bytes parts @ [0] @ to_be16 qtype @ rest" by simp
    with p(3) q(2) show ?A by blast
  qed
  show ?thesis
  proof (cases "from_be16 m0 m1 = qid \<and> m2 AND 0x80 \<noteq> 0 \<and> from_be16 m4 m5 = 1")
    case False
    then show ?thesis
      unfolding msg response_matches_header [OF c] is_reply_header [OF c] by auto
  next
    case True
    then have start: "response_matches msg qid name qtype = (case r of
         None \<Rightarrow> Ret False
       | Some pos \<Rightarrow>
           if get_at msg pos \<noteq> Some 0 then Ret False
           else if length msg < pos + 1 + 4 then Ret False
           else index msg (pos + 1) (\<lambda>q0. index msg (pos + 2) (\<lambda>q1. Ret (from_be16 q0 q1 = qtype))))"
      using response_matches_header [OF c, of m0 m1 m2 m3 m4 m5 body qid name qtype] skip r
      unfolding msg [symmetric] Let_def by (simp del: get_at_Some)
    have "is_reply msg qid name qtype \<longleftrightarrow>
        (\<exists>pos. r = Some pos \<and> (\<exists>rest. drop pos msg = [0] @ to_be16 qtype @ rest \<and> 2 \<le> length rest))"
      unfolding tail [symmetric] using True is_reply_header [OF c, of m0 m1 m2 m3 m4 m5 body qid name qtype]
      unfolding msg [symmetric] by blast
    then show ?thesis unfolding start question_end [symmetric] by (cases r) auto
  qed
qed

lemma dns_response_matches_same: "dns_response_matches = response_matches"
  by (intro ext) (simp only: dns_response_matches_def response_matches_def)

subsection \<open>Records\<close>

lemma skip_name_bounds: "skip_name buf pos = Some p \<Longrightarrow> pos < p \<and> p \<le> length buf + 1"
proof (induction buf pos rule: skip_name.induct)
  case (1 buf pos)
  show ?case
  proof (cases "get_at buf pos")
    case (Some len)
    note unfold = "1.prems" [unfolded skip_name.simps [of buf pos] Some option.case]
    show ?thesis
    proof (cases "len AND 0xc0 = 0xc0 \<or> len = 0")
      case True
      then show ?thesis using unfold Some by (auto split: if_splits)
    next
      case False
      then have "skip_name buf (pos + 1 + unat len) = Some p" using unfold by simp
      then show ?thesis using "1.IH" [OF Some] False by force
    qed
  qed (use "1.prems" in \<open>simp add: skip_name.simps [of buf pos] del: get_at_None\<close>)
qed

lemma returns_u16_at: "i + 2 \<le> length msg \<Longrightarrow> (\<And>v. returns (k v)) \<Longrightarrow> returns (u16_at msg i k)"
  by (simp add: u16_at_def)

lemma u16_at_eq: "i + 2 \<le> length msg \<Longrightarrow> u16_at msg i k = k (from_be16 (msg ! i) (msg ! (i + 1)))"
  by (simp add: u16_at_def)

definition part_of :: "bytes \<Rightarrow> bytes \<Rightarrow> bool" where
  "part_of x msg \<longleftrightarrow> (\<exists>a b. msg = a @ x @ b)"

lemma part_of_slice: "part_of (take n (drop i msg)) msg"
  unfolding part_of_def
  by (rule exI [of _ "take i msg"], rule exI [of _ "drop (i + n) msg"])
    (metis append_take_drop_id drop_drop add.commute)

lemma svcparams_total:
  "e \<le> length msg \<Longrightarrow> \<exists>r. svcparams_from msg e p = Ret r \<and> (\<forall>x. r = Some x \<longrightarrow> part_of x msg \<and> length x < 65536)"
proof (induction msg e p rule: svcparams_from.induct)
  case (1 msg e p)
  show ?case
  proof (cases "p + 4 \<le> e")
    case True
    let ?len = "from_be16 (msg ! (p + 2)) (msg ! (p + 3))"
    have "unat ?len < 65536" using unsigned_less [of ?len, where ?'a = nat] by simp
    with True "1.prems" "1.IH" [OF True, of ?len "from_be16 (msg ! p) (msg ! (p + 1))"] show ?thesis
      by (subst svcparams_from.simps) (auto simp: u16_at_eq part_of_slice numeral_3_eq_3)
  qed (subst svcparams_from.simps, simp)
qed

lemma parse_svcparams_total:
  "rdata + rdlen \<le> length msg \<Longrightarrow>
   \<exists>r. parse_svcparams_ech msg rdata rdlen = Ret r \<and> (\<forall>x. r = Some x \<longrightarrow> part_of x msg \<and> length x < 65536)"
  using svcparams_total [of "rdata + rdlen" msg]
  by (cases "skip_name msg (rdata + 2)") (auto simp: parse_svcparams_ech_def Let_def)

lemma ech_answers_total:
  "\<exists>r. ech_answers msg an pos = Ret r \<and> (\<forall>x. r = Some x \<longrightarrow> part_of x msg \<and> length x < 65536)"
proof (induction an arbitrary: pos)
  case (Suc an)
  show ?case
  proof (cases "skip_name msg pos")
    case (Some p)
    let ?rdlen = "from_be16 (msg ! (p + 8)) (msg ! (9 + p))"
    show ?thesis
    proof (cases "p + 10 \<le> length msg \<and> p + 10 + unat ?rdlen \<le> length msg")
      case True
      then show ?thesis
        using Some Suc [of "p + 10 + unat ?rdlen"] parse_svcparams_total [of "p + 10" "unat ?rdlen" msg]
        by (auto simp: u16_at_eq split: option.splits)
    next
      case False
      then show ?thesis using Some by (auto simp: u16_at_eq)
    qed
  qed simp
qed simp

lemma a_answers_returns: "returns (a_answers resp an pos)"
proof (induction an arbitrary: pos)
  case (Suc an)
  have "unat (v :: u16) = 4" if "v = 4" for v using that by simp
  then show ?case using Suc by (auto intro!: no_panic returns_u16_at)
qed simp

subsection \<open>Exchanges with servers\<close>

lemma parse_dns_a_returns: "returns (parse_dns_a resp)"
  by (auto simp: parse_dns_a_def intro!: no_panic returns_u16_at a_answers_returns)

lemma dns_matches_returns: "returns (dns_response_matches resp qid name qtype)"
  by (auto simp: dns_response_matches_def match_labels_returns intro!: no_panic returns_out_bind split: option.splits)

lemma dns_receive_returns: "returns (dns_receive qid name evs)"
  by (induction qid name evs rule: dns_receive.induct)
    (auto intro!: no_panic dns_matches_returns parse_dns_a_returns)

lemma dns_exchange_with_returns: "returns (dns_exchange_with name err servers)"
  by (induction name err servers rule: dns_exchange_with.induct)
    (auto simp: build_dns_query_def intro!: no_panic dns_receive_returns split: sum.splits exchange.splits)

text \<open>What is ignored while the answer to a query is awaited: datagrams that are not a reply to it.\<close>

definition stray :: "u16 \<Rightarrow> str \<Rightarrow> chan_event \<Rightarrow> bool" where
  "stray qid name ev = (case ev of ChanData d \<Rightarrow> \<not> is_reply d qid name QTYPE_A | _ \<Rightarrow> False)"

definition answers_with :: "u16 \<Rightarrow> str \<Rightarrow> chan_event list \<Rightarrow> ip_addr \<Rightarrow> bool" where
  "answers_with qid name evs ip \<longleftrightarrow>
     (\<exists>ignored resp later. evs = ignored @ ChanData resp # later \<and> list_all (stray qid name) ignored
        \<and> is_reply resp qid name QTYPE_A \<and> parse_dns_a resp = Ret (Some ip))"

text \<open>A server that is given up: the query could not be sent, or no reply came before the deadline.\<close>

definition given_up :: "str \<Rightarrow> sock_addr \<times> u16 \<times> (bytes \<Rightarrow> unit result) \<times> chan_event list \<Rightarrow> bool" where
  "given_up name s = (case s of (server, qid, send_to, evs) \<Rightarrow>
     case send_to (fst (build_dns_query qid name QTYPE_A)) of
       Inl _ \<Rightarrow> True
     | Inr _ \<Rightarrow> (\<exists>ignored later. evs = ignored @ ChanTimeout # later \<and> list_all (stray qid name) ignored))"

lemma ignored_Cons:
  "(\<exists>ignored later. ev # evs = ignored @ e # later \<and> list_all (stray qid name) ignored) \<longleftrightarrow>
    ev = e \<or> stray qid name ev \<and> (\<exists>ignored later. evs = ignored @ e # later \<and> list_all (stray qid name) ignored)"
proof
  assume "\<exists>ignored later. ev # evs = ignored @ e # later \<and> list_all (stray qid name) ignored"
  then obtain ignored later where "ev # evs = ignored @ e # later" "list_all (stray qid name) ignored" by blast
  then show "ev = e \<or> stray qid name ev \<and> (\<exists>ignored later. evs = ignored @ e # later \<and> list_all (stray qid name) ignored)"
    by (cases ignored) auto
next
  assume "ev = e \<or> stray qid name ev \<and> (\<exists>ignored later. evs = ignored @ e # later \<and> list_all (stray qid name) ignored)"
  then obtain ignored later where "ev # evs = ignored @ e # later" "list_all (stray qid name) ignored"
    by (metis append_Cons append_Nil list.pred_inject)
  then show "\<exists>ignored later. ev # evs = ignored @ e # later \<and> list_all (stray qid name) ignored" by blast
qed

lemma answers_with_Cons:
  "answers_with qid name (ChanData resp # evs) ip \<longleftrightarrow>
    (if is_reply resp qid name QTYPE_A then parse_dns_a resp = Ret (Some ip) else answers_with qid name evs ip)"
proof -
  have found: "answers_with qid name es ip \<longleftrightarrow> (\<exists>resp. is_reply resp qid name QTYPE_A \<and> parse_dns_a resp = Ret (Some ip)
      \<and> (\<exists>ignored later. es = ignored @ ChanData resp # later \<and> list_all (stray qid name) ignored))" for es
    unfolding answers_with_def by blast
  show ?thesis unfolding found ignored_Cons by (auto simp: stray_def)
qed

lemma answers_with_other: "\<not> answers_with qid name [] ip" "\<not> answers_with qid name (ChanClosed # evs) ip" "\<not> answers_with qid name (ChanTimeout # evs) ip"
  by (auto simp: answers_with_def Cons_eq_append_conv stray_def)

lemma dns_receive_iff:
  assumes "\<forall>d. ChanData d \<in> set evs \<longrightarrow> length d < 2 ^ 63"
  shows "dns_receive qid name evs = Ret (Answer (Inr ip)) \<longleftrightarrow> answers_with qid name evs ip"
    "dns_receive qid name evs = Ret NextServer \<longleftrightarrow> (\<exists>ignored later. evs = ignored @ ChanTimeout # later \<and> list_all (stray qid name) ignored)"
proof -
  show "dns_receive qid name evs = Ret (Answer (Inr ip)) \<longleftrightarrow> answers_with qid name evs ip"
    using assms
  proof (induction qid name evs rule: dns_receive.induct)
    case (2 qid name resp evs)
    have m: "dns_response_matches resp qid name QTYPE_A = Ret (is_reply resp qid name QTYPE_A)"
      using 2(2) by (simp add: dns_response_matches_same response_matches_is_reply)
    with 2 show ?case by (auto simp: answers_with_Cons out_bind_eq_Ret split: option.splits)
  qed (simp_all add: answers_with_other)
  show "dns_receive qid name evs = Ret NextServer \<longleftrightarrow> (\<exists>ignored later. evs = ignored @ ChanTimeout # later \<and> list_all (stray qid name) ignored)"
    using assms
  proof (induction qid name evs rule: dns_receive.induct)
    case (2 qid name resp evs)
    have m: "dns_response_matches resp qid name QTYPE_A = Ret (is_reply resp qid name QTYPE_A)"
      using 2(2) by (simp add: dns_response_matches_same response_matches_is_reply)
    have "stray qid name (ChanData resp) \<longleftrightarrow> \<not> is_reply resp qid name QTYPE_A" by (simp add: stray_def)
    with m 2 show ?case unfolding ignored_Cons by (cases "is_reply resp qid name QTYPE_A") (auto simp: out_bind_eq_Ret)
  qed (simp_all only: ignored_Cons dns_receive.simps, simp_all add: stray_def)
qed

lemma dns_exchange_with_iff:
  assumes "\<forall>(server, qid, send_to, evs) \<in> set servers. \<forall>d. ChanData d \<in> set evs \<longrightarrow> length d < 2 ^ 63"
  shows "dns_exchange_with name err servers = Ret (Some (Inr ip)) \<longleftrightarrow>
    (\<exists>earlier server qid send_to evs later. servers = earlier @ (server, qid, send_to, evs) # later
       \<and> list_all (given_up name) earlier \<and> send_to (fst (build_dns_query qid name QTYPE_A)) = Inr () \<and> answers_with qid name evs ip)"
  using assms
proof (induction name err servers rule: dns_exchange_with.induct)
  case (2 name err server qid send_to evs rest)
  let ?s = "(server, qid, send_to, evs)"
  let ?found = "\<lambda>servers. \<exists>earlier server qid send_to evs later. servers = earlier @ (server, qid, send_to, evs) # later
       \<and> list_all (given_up name) earlier \<and> send_to (fst (build_dns_query qid name QTYPE_A)) = Inr () \<and> answers_with qid name evs ip"
  have small: "\<forall>d. ChanData d \<in> set evs \<longrightarrow> length d < 2 ^ 63" using 2(3) by simp
  have id: "build_dns_query qid name QTYPE_A = (fst (build_dns_query qid name QTYPE_A), qid)" by (simp add: build_dns_query_def)
  have found: "?found (?s # rest) \<longleftrightarrow> (send_to (fst (build_dns_query qid name QTYPE_A)) = Inr () \<and> answers_with qid name evs ip)
      \<or> given_up name ?s \<and> ?found rest"
    (is "_ \<longleftrightarrow> ?here \<or> _")
  proof
    assume "?found (?s # rest)"
    then obtain earlier server' qid' send' evs' later where f: "?s # rest = earlier @ (server', qid', send', evs') # later"
      "list_all (given_up name) earlier" "send' (fst (build_dns_query qid' name QTYPE_A)) = Inr ()" "answers_with qid' name evs' ip" by blast
    show "?here \<or> given_up name ?s \<and> ?found rest"
    proof (cases earlier)
      case Nil
      with f show ?thesis by simp
    next
      case (Cons x more)
      with f have "rest = more @ (server', qid', send', evs') # later" "list_all (given_up name) more" "given_up name ?s" by auto
      with f(3,4) show ?thesis by blast
    qed
  next
    assume "?here \<or> given_up name ?s \<and> ?found rest"
    then show "?found (?s # rest)"
    proof
      assume ?here
      then show ?thesis by (intro exI [of _ "[]"]) auto
    next
      assume "given_up name ?s \<and> ?found rest"
      then obtain earlier server' qid' send' evs' later where "rest = earlier @ (server', qid', send', evs') # later"
        "list_all (given_up name) (?s # earlier)" "send' (fst (build_dns_query qid' name QTYPE_A)) = Inr ()" "answers_with qid' name evs' ip" by auto
      then show ?thesis by (intro exI [of _ "?s # earlier"]) auto
    qed
  qed
  show ?case
  proof (cases "send_to (fst (build_dns_query qid name QTYPE_A))")
    case (Inl e)
    then have "dns_exchange_with name err (?s # rest) = dns_exchange_with name e rest" by (simp add: build_dns_query_def)
    moreover have "dns_exchange_with name e rest = Ret (Some (Inr ip)) \<longleftrightarrow> ?found rest"
      by (rule 2(1) [OF id [symmetric] refl Inl]) (use 2(3) in auto)
    moreover have "given_up name ?s" using Inl by (simp add: given_up_def)
    ultimately show ?thesis unfolding found using Inl by simp
  next
    case (Inr u)
    obtain x where x: "dns_receive qid name evs = Ret x" using dns_receive_returns [of qid name evs] by (auto simp: returns_iff)
    have run: "dns_exchange_with name err (?s # rest) = (case x of Answer r \<Rightarrow> Ret (Some r) | Waiting \<Rightarrow> Ret None
        | NextServer \<Rightarrow> dns_exchange_with name (Other (lit ''dns timeout from '' @ show_sock_addr server)) rest)"
      using Inr x by (simp add: build_dns_query_def del: lit_simps) 
    have nxt: "given_up name ?s \<longleftrightarrow> x = NextServer" and here: "answers_with qid name evs ip \<longleftrightarrow> x = Answer (Inr ip)"
      using Inr x dns_receive_iff [OF small, of qid name] by (auto simp: given_up_def)
    show ?thesis
    proof (cases x)
      case NextServer
      have "dns_exchange_with name (Other (lit ''dns timeout from '' @ show_sock_addr server)) rest = Ret (Some (Inr ip)) \<longleftrightarrow> ?found rest"
        by (rule 2(2) [OF id [symmetric] refl Inr x NextServer]) (use 2(3) in auto)
      with NextServer run nxt here show ?thesis unfolding found by simp
    qed (unfold found, use run nxt here Inr in auto)
  qed
qed simp


subsection \<open>Queries\<close>

lemma bytes_eq_refl [simp]: "bytes_eq_ignore_case x x"
  by (simp add: bytes_eq_ignore_case_def)

lemma label_bytes_parts:
  "concat (map label_bytes ls) = name_bytes (map utf8_encode ls)"
  by (induction ls) (simp_all add: label_bytes_def str_len_def)

lemma skip_empty_labels:
  "concat (map (\<lambda>l. if l = [] then [] else label_bytes l) ls) = concat (map label_bytes (filter (\<lambda>l. l \<noteq> []) ls))"
  by (induction ls) simp_all

lemma same_labels_self: "list_all (\<lambda>l. str_len l < 256) ls \<Longrightarrow> list_all2 same_label (map utf8_encode ls) ls"
  by (induction ls) (simp_all add: same_label_def str_len_def)

text \<open>A message with the flag byte of a query replaced and records appended, as a server answers.\<close>

definition echo :: "bytes \<Rightarrow> u8 \<Rightarrow> bytes \<Rightarrow> bytes" where
  "echo q f records = take 2 q @ [f] @ drop 3 q @ records"

lemma echo_header: "echo (query_header qid @ body) f records
    = to_be16 qid @ [f, 0] @ to_be16 1 @ [0, 0, 0, 0, 0, 0] @ body @ records"
proof -
  have "to_be16 1 = [0, 1]" by code_simp
  moreover obtain a b where "to_be16 qid = [a, b]" by (rule be16_cases)
  ultimately show ?thesis by (simp add: echo_def query_header_def)
qed

lemma split_on_last: "p c \<Longrightarrow> split_on p (d @ [c]) = split_on p d @ [[]]"
  by (induction d) (auto split: list.splits)

lemma same_labels_length: "list_all2 same_label ps ls \<Longrightarrow> length (name_bytes ps) = sum_list (map (\<lambda>l. 1 + str_len l) ls)"
  by (induction rule: list_all2_induct) (simp_all add: same_label_length)

lemma trailing_dot_not_reply:
  assumes "list_all (\<lambda>l. l \<noteq> [] \<and> str_len l < 256) (split_on (\<lambda>c. c = 46) d)"
  shows "\<not> is_reply (echo (fst (build_dns_query qid (d @ [46]) QTYPE_A)) f records) qid (d @ [46]) QTYPE_A"
proof
  let ?ls = "split_on (\<lambda>c. c = 46) d"
  let ?parts = "map utf8_encode ?ls"
  assume reply: "is_reply (echo (fst (build_dns_query qid (d @ [46]) QTYPE_A)) f records) qid (d @ [46]) QTYPE_A"
  have one: "to_be16 1 = [0, 1]" "to_be16 QTYPE_A = [0, 1]" by code_simp+
  have labels: "labels_of (d @ [46]) = ?ls"
    using assms by (auto simp: labels_of_def split_on_last list_all_iff filter_id_conv)
  have "split_on (\<lambda>c. c = 46) (d @ [46]) = ?ls @ [[]]" by (simp add: split_on_last)
  then have "fst (build_dns_query qid (d @ [46]) QTYPE_A) = query_header qid @ name_bytes ?parts @ [0, 0, 0, 1, 0, 1]"
    by (simp add: build_dns_query_def label_bytes_parts one) (simp add: label_bytes_def str_len_def)
  then have e: "echo (fst (build_dns_query qid (d @ [46]) QTYPE_A)) f records
      = to_be16 qid @ [f, 0] @ to_be16 1 @ [0, 0, 0, 0, 0, 0] @ (name_bytes ?parts @ [0, 0, 0, 1, 0, 1] @ records)"
    by (simp add: echo_header)
  obtain a b where ab: "to_be16 qid = [a, b]" by (rule be16_cases)
  have "is_reply ([a, b, f, 0, 0, 1] @ [0, 0, 0, 0, 0, 0] @ (name_bytes ?parts @ [0, 0, 0, 1, 0, 1] @ records)) qid (d @ [46]) QTYPE_A"
    using reply unfolding e by (simp add: ab one)
  then obtain parts rest where p: "name_bytes ?parts @ [0, 0, 0, 1, 0, 1] @ records = name_bytes parts @ [0] @ to_be16 QTYPE_A @ rest"
      "list_all2 same_label parts ?ls"
    using is_reply_header [of "[0, 0, 0, 0, 0, 0]"] labels by auto
  have "list_all2 same_label ?parts ?ls" using assms by (intro same_labels_self) (auto simp: list_all_iff)
  then have "length (name_bytes ?parts) = length (name_bytes parts)" using p(2) by (simp only: same_labels_length)
  then show False using p(1) by (simp add: one)
qed

text \<open>There is always a resolver to ask; without a usable setting, the two defaults.\<close>

lemma resolver_addresses_usable:
  "\<exists>servers. resolver_addresses v = Ret servers \<and> servers \<noteq> [] \<and> distinct servers
     \<and> (push_servers [] (split_on (\<lambda>c. c = 44 \<or> c = 32 \<or> c = 59) (case v of Some s \<Rightarrow> s | None \<Rightarrow> [])) = [] \<longrightarrow>
          servers = [sock_addr_new (V4 0x01010101) 53, sock_addr_new (V4 0x01000001) 53])"
proof -
  have dist: "distinct ss \<Longrightarrow> distinct (push_servers ss ts)" for ss ts
    by (induction ss ts rule: push_servers.induct) (auto simp: Let_def split: option.splits)
  have "parse_sock_addr (lit ''1.1.1.1:53'') = Some (sock_addr_new (V4 0x01010101) 53)"
    "parse_sock_addr (lit ''1.0.0.1:53'') = Some (sock_addr_new (V4 0x01000001) 53)"
    by (simp_all add: addr_eval)
  then show ?thesis
    using dist [of "[]"] by (auto simp: resolver_addresses_def Let_def sock_addr_new_def simp del: lit_simps)
qed

subsection \<open>Properties\<close>

text \<open>
  C9: Both DNS clients accept a message as the reply to their query exactly when it repeats the
  query's id, has the response bit set, asks exactly one question, and that question is the expected
  name, label by label up to ASCII case, with the expected type. No message makes the check panic,
  and the two copies of it agree.
\<close>

theorem reply_accepted_iff:
  assumes "length msg < 2 ^ 63"
  shows "response_matches msg qid name qtype = Ret (is_reply msg qid name qtype)
    \<and> dns_response_matches msg qid name qtype = response_matches msg qid name qtype"
  using response_matches_is_reply [OF assms] by (simp add: dns_response_matches_same)

theorem reply_accepted_iff_witness:
  "response_matches [1, 2, 3] 5 (lit ''a.b'') 1 = Ret (is_reply [1, 2, 3] 5 (lit ''a.b'') 1)
    \<and> dns_response_matches [1, 2, 3] 5 (lit ''a.b'') 1 = response_matches [1, 2, 3] 5 (lit ''a.b'') 1"
  by (rule reply_accepted_iff) simp

text \<open>
  A server that repeats the question is understood: for a query built by \<open>build_query\<close>, the same
  message with the response bit set and any records appended is accepted, for every name whose labels
  are shorter than 256 bytes, empty labels and a trailing dot included.
\<close>

lemma own_query_echo_accepted:
  assumes "list_all (\<lambda>l. str_len l < 256) (labels_of name)" "f AND 0x80 \<noteq> 0"
    "length (echo (fst (build_query qid name qtype)) f records) < 2 ^ 63"
  shows "response_matches (echo (fst (build_query qid name qtype)) f records) qid name qtype = Ret True"
proof -
  let ?parts = "map utf8_encode (labels_of name)"
  have "concat (map (\<lambda>l. if l = [] then [] else label_bytes l) (split_on (\<lambda>c. c = 46) name)) = name_bytes ?parts"
    by (simp only: skip_empty_labels label_bytes_parts labels_of_def)
  then have "echo (fst (build_query qid name qtype)) f records
      = to_be16 qid @ [f, 0] @ to_be16 1 @ [0, 0, 0, 0, 0, 0] @ name_bytes ?parts @ [0] @ to_be16 qtype @ ([0, 1] @ records)"
    by (simp add: build_query_def echo_header)
  moreover have "list_all2 same_label ?parts (labels_of name)" using assms(1) by (rule same_labels_self)
  ultimately have "is_reply (echo (fst (build_query qid name qtype)) f records) qid name qtype"
    unfolding is_reply_def using assms(2)
    by (intro exI [of _ f] exI [of _ 0] exI [of _ "[0, 0, 0, 0, 0, 0]"] exI [of _ ?parts] exI [of _ "[0, 1] @ records"]) simp
  then show ?thesis using response_matches_is_reply [OF assms(3)] by simp
qed

text \<open>
  The resolver of the SOCKS server cannot look up a name with a trailing dot: its query
  (\<open>build_dns_query\<close>) writes the empty last label as a terminator, so the type field is read one byte
  early, and even a server that repeats the question exactly is not accepted. The other client's
  query for the same name is.
\<close>

lemma trailing_dot_query_never_answered:
  assumes "list_all (\<lambda>l. l \<noteq> [] \<and> str_len l < 256) (split_on (\<lambda>c. c = 46) d)"
    "length (echo (fst (build_dns_query qid (d @ [46]) QTYPE_A)) f records) < 2 ^ 63"
  shows "dns_response_matches (echo (fst (build_dns_query qid (d @ [46]) QTYPE_A)) f records) qid (d @ [46]) QTYPE_A
    = Ret False"
  using response_matches_is_reply [OF assms(2)] trailing_dot_not_reply [OF assms(1)]
  by (simp add: dns_response_matches_same)

text \<open>
  No message from the network makes the record parsers panic or loop, and an ECH configuration
  they return is a contiguous part of the message of less than 64 KiB.
\<close>

lemma dns_parsers_total:
  "returns (parse_dns_a msg) \<and>
   (\<exists>r. parse_https_ech msg = Ret r \<and> (r = None \<or> (\<exists>a ech b. r = Some ech \<and> msg = a @ ech @ b \<and> length ech < 65536)))"
proof (rule conjI [OF parse_dns_a_returns])
  show "\<exists>r. parse_https_ech msg = Ret r \<and> (r = None \<or> (\<exists>a ech b. r = Some ech \<and> msg = a @ ech @ b \<and> length ech < 65536))"
  proof (cases "length msg < 12")
    case False
    let ?qs = "skip_questions msg (unat (from_be16 (msg ! 4) (msg ! 5))) 12"
    show ?thesis
    proof (cases ?qs)
      case (Some pos)
      then obtain r where r: "parse_https_ech msg = Ret r" "\<forall>x. r = Some x \<longrightarrow> part_of x msg \<and> length x < 65536"
        using False ech_answers_total [of msg _ pos] by (auto simp: parse_https_ech_def u16_at_eq)
      then show ?thesis by (cases r) (auto simp: part_of_def)
    qed (use False in \<open>simp add: parse_https_ech_def u16_at_eq\<close>)
  qed (simp add: parse_https_ech_def)
qed

text \<open>
  C14: A lookup through the tunnel never panics, and it yields an address exactly when some server answers
  with it: the query was sent to that server, every server before it could not be sent its query or let
  its deadline pass, and the first datagram that is a reply to the query (its id and its question)
  carries the address. Datagrams with another id or another question are ignored, whoever sent them.
\<close>

theorem dns_lookup_sound:
  assumes "\<forall>(server, qid, send_to, evs) \<in> set servers. \<forall>d. ChanData d \<in> set evs \<longrightarrow> length d < 2 ^ 63"
  shows "\<exists>r. dns_exchange name servers = Ret r \<and>
    (\<forall>ip. r = Some (Inr ip) \<longleftrightarrow>
       (\<exists>earlier server qid send_to evs later. servers = earlier @ (server, qid, send_to, evs) # later
          \<and> list_all (given_up name) earlier \<and> send_to (fst (build_dns_query qid name QTYPE_A)) = Inr ()
          \<and> answers_with qid name evs ip))"
  using dns_exchange_with_returns [of name "Other (lit ''dns timeout'')" servers] dns_exchange_with_iff [OF assms]
  unfolding dns_exchange_def returns_iff by (metis outcome.inject)

text \<open>A reply to the query for \<open>a\<close> with the id 9 and the address 1.2.3.4.\<close>

definition sample_reply :: bytes where
  "sample_reply = [0, 9, 0x81, 0x80, 0, 1, 0, 1, 0, 0, 0, 0, 1, 97, 0, 0, 1, 0, 1, 1, 97, 0, 0, 1, 0, 1, 0, 0, 0, 60, 0, 4, 1, 2, 3, 4]"

theorem dns_lookup_sound_witness:
  "dns_exchange (lit ''a'')
     [(sock_addr_new (V4 1) 53, 7, (\<lambda>_. Inl Cancelled), []),
      (sock_addr_new (V4 2) 53, 9, (\<lambda>_. Inr ()), [ChanData [1], ChanData sample_reply])] = Ret (Some (Inr (V4 0x01020304)))"
proof -
  let ?a = "(sock_addr_new (V4 1) 53, 7, (\<lambda>_. Inl Cancelled), []) :: sock_addr \<times> u16 \<times> (bytes \<Rightarrow> unit result) \<times> chan_event list"
  let ?b = "(sock_addr_new (V4 2) 53, 9, (\<lambda>_. Inr ()), [ChanData [1], ChanData sample_reply]) :: sock_addr \<times> u16 \<times> (bytes \<Rightarrow> unit result) \<times> chan_event list"
  have l: "length sample_reply < 2 ^ 63" by (simp add: sample_reply_def)
  have be: "to_be16 9 = [0, 9]" "to_be16 1 = [0, 1]" "to_be16 QTYPE_A = [0, 1]" by code_simp+
  have "sample_reply = to_be16 9 @ [0x81, 0x80] @ to_be16 1 @ [0, 1, 0, 0, 0, 0] @ name_bytes [[97]] @ [0] @ to_be16 QTYPE_A
      @ [0, 1, 1, 97, 0, 0, 1, 0, 1, 0, 0, 0, 60, 0, 4, 1, 2, 3, 4]"
    by (simp add: sample_reply_def be)
  moreover have "list_all2 same_label [[97]] (labels_of (lit ''a''))"
    by (simp add: labels_of_def same_label_def utf8_encode_ascii bytes_eq_ignore_case_def)
  moreover have "(0x81 :: u8) AND 0x80 \<noteq> 0" by code_simp
  ultimately have "is_reply sample_reply 9 (lit ''a'') QTYPE_A"
    unfolding is_reply_def by (intro exI conjI) (assumption | simp)+
  moreover have "\<not> is_reply [1] 9 (lit ''a'') QTYPE_A" by (auto simp: is_reply_def to_be16_def dest: arg_cong [where f = length])
  moreover have "parse_dns_a sample_reply = Ret (Some (V4 0x01020304))"
  proof -
    have g: "get_at sample_reply 12 = Some 1" "get_at sample_reply 14 = Some 0" "get_at sample_reply 19 = Some 1" "get_at sample_reply 21 = Some 0"
      by (simp_all add: sample_reply_def get_at_def)
    have "skip_name sample_reply 14 = Some 15" "skip_name sample_reply 21 = Some 22"
      by (simp_all add: skip_name.simps [of _ 14] skip_name.simps [of _ 21] g)
    then have n: "skip_name sample_reply 12 = Some 15" "skip_name sample_reply 19 = Some 22"
      by (simp_all add: skip_name.simps [of _ 12] skip_name.simps [of _ 19] g)
    have w: "from_be16 0 1 = 1" "from_be16 0 4 = 4" "ipv4_from [1, 2, 3, 4] = 0x01020304"
      by (simp_all add: from_be16_def ipv4_from_def be_dec_def)
    have i: "length sample_reply = 36" "sample_reply ! 4 = 0" "sample_reply ! 5 = 1" "sample_reply ! 6 = 0" "sample_reply ! 7 = 1"
      "sample_reply ! 22 = 0" "sample_reply ! 23 = 1" "sample_reply ! 30 = 0" "sample_reply ! 31 = 4"
      "sample_reply ! 32 = 1" "sample_reply ! 33 = 2" "sample_reply ! 34 = 3" "sample_reply ! 35 = 4"
      by (simp_all add: sample_reply_def)
    have "skip_questions sample_reply 1 12 = Some 19" using n(1) by (simp add: checked_add_def)
    moreover have "a_answers sample_reply 1 19 = Ret (Some (V4 0x01020304))"
      using n(2) w by (simp add: u16_at_eq i)
    ultimately show ?thesis using w(1) by (simp add: parse_dns_a_def u16_at_eq i)
  qed
  ultimately have "answers_with 9 (lit ''a'') [ChanData [1], ChanData sample_reply] (V4 0x01020304)"
    unfolding answers_with_def by (intro exI [of _ "[ChanData [1]]"] exI [of _ sample_reply] exI [of _ "[]"]) (simp add: stray_def)
  then have found: "\<exists>earlier server qid send_to evs later. [?a, ?b] = earlier @ (server, qid, send_to, evs) # later
      \<and> list_all (given_up (lit ''a'')) earlier \<and> send_to (fst (build_dns_query qid (lit ''a'') QTYPE_A)) = Inr ()
      \<and> answers_with qid (lit ''a'') evs (V4 0x01020304)"
    by (intro exI [of _ "[?a]"] exI [of _ "sock_addr_new (V4 2) 53"] exI [of _ 9] exI [of _ "\<lambda>_. Inr ()"]
        exI [of _ "[ChanData [1], ChanData sample_reply]"] exI [of _ "[]"]) (simp add: given_up_def)
  have "\<forall>(server, qid, send_to, evs) \<in> set [?a, ?b]. \<forall>d. ChanData d \<in> set evs \<longrightarrow> length d < 2 ^ 63" using l by auto
  from dns_lookup_sound [OF this, of "lit ''a''"] obtain r where r: "dns_exchange (lit ''a'') [?a, ?b] = Ret r"
    "\<forall>ip. r = Some (Inr ip) \<longleftrightarrow> (\<exists>earlier server qid send_to evs later. [?a, ?b] = earlier @ (server, qid, send_to, evs) # later
      \<and> list_all (given_up (lit ''a'')) earlier \<and> send_to (fst (build_dns_query qid (lit ''a'') QTYPE_A)) = Inr ()
      \<and> answers_with qid (lit ''a'') evs ip)" by (elim exE conjE)
  from r(2) [rule_format, THEN iffD2, OF found] r(1) show ?thesis by simp
qed

end
