(* ===== verification/Routing.thy ===== *)
theory Routing
  imports Rust_Net
begin

text \<open>
  The routing rules of \<open>routing.rs\<close>: entries are parsed into matchers, a rule set decides for a host
  and a port whether a connection is blocked, goes out directly or through the tunnel. The crates
  \<open>ipnet\<close> and \<open>regex\<close> are third-party: the record \<open>route_lib\<close> holds the functions the code calls and
  is an argument of the definitions; the lower-casing tables of Unicode are the record \<open>unicode\<close>.
\<close>

unbundle bit_operations_syntax

datatype action = Proxy | Direct | Block

datatype host = Domain str | Ip ip_addr

record ('re, 'net) route_lib =
  regex_new :: "str \<Rightarrow> 're option"
  is_match :: "'re \<Rightarrow> str \<Rightarrow> bool"
  parse_ipnet :: "str \<Rightarrow> 'net option"
  ipnet_from :: "ip_addr \<Rightarrow> 'net"
  net_contains :: "'net \<Rightarrow> ip_addr \<Rightarrow> bool"

datatype ('re, 'net) matcher =
    DomainSuffix str
  | DomainFull str
  | DomainKeyword str
  | DomainRegex 're
  | Net 'net
  | Ports u16 u16
  | Private

definition action_label :: "action \<Rightarrow> str" where
  "action_label a = (case a of Proxy \<Rightarrow> lit ''proxy'' | Direct \<Rightarrow> lit ''direct'' | Block \<Rightarrow> lit ''block'')"

definition normalize_domain :: "unicode \<Rightarrow> str \<Rightarrow> str option" where
  "normalize_domain U v =
     (let cleaned = to_lowercase U (trim_end_matches 46 (trim_start_matches 46 (trim_start_matches 42 (trim v)))) in
      if cleaned = [] then None else Some cleaned)"

definition parse_net :: "('re, 'net) route_lib \<Rightarrow> str \<Rightarrow> 'net option" where
  "parse_net L v =
     (let v = trim v in
      case parse_ipnet L v of
        Some net \<Rightarrow> Some net
      | None \<Rightarrow> map_option (ipnet_from L) (parse_ip v))"

definition parse_u16 :: "str \<Rightarrow> u16 option" where
  "parse_u16 s = map_option word_of_nat (parse_uint 16 s)"

definition parse_ports :: "str \<Rightarrow> (u16 \<times> u16) option" where
  "parse_ports v =
     (let v = trim v in
      case split_once 45 v of
        Some (lo, hi) \<Rightarrow> do {
          lo \<leftarrow> parse_u16 (trim lo);
          hi \<leftarrow> parse_u16 (trim hi);
          Some (if hi < lo then (hi, lo) else (lo, hi)) }
      | None \<Rightarrow> do {
          single \<leftarrow> parse_u16 v;
          Some (single, single) })"

definition is_private :: "ip_addr \<Rightarrow> bool" where
  "is_private ip =
     (case ip of
        V4 a \<Rightarrow>
          v4_is_private a \<or> is_loopback (V4 a) \<or> v4_is_link_local a \<or> v4_is_broadcast a
          \<or> v4_is_documentation a \<or> is_unspecified (V4 a)
          \<or> octets4 a ! 0 = 100 \<and> 64 \<le> octets4 a ! 1 \<and> octets4 a ! 1 < 128
      | V6 a \<Rightarrow>
          is_loopback (V6 a) \<or> is_unspecified (V6 a)
          \<or> segments a ! 0 AND 0xfe00 = 0xfc00 \<or> segments a ! 0 AND 0xffc0 = 0xfe80)"

text \<open>The prefix of an entry before its first colon, unless it contains a dot or a slash.\<close>

definition entry_kind :: "unicode \<Rightarrow> str \<Rightarrow> str \<times> str" where
  "entry_kind U entry =
     (case split_once 58 entry of
        Some (kind, v) \<Rightarrow>
          if 46 \<notin> set kind \<and> 47 \<notin> set kind then (to_lowercase U (trim kind), trim v) else ([], entry)
      | None \<Rightarrow> ([], entry))"

definition parse_matcher :: "unicode \<Rightarrow> ('re, 'net) route_lib \<Rightarrow> str \<Rightarrow> ('re, 'net) matcher option" where
  "parse_matcher U L raw =
     (let entry = trim raw in
      if entry = [] \<or> starts_with entry [35] then None
      else let (kind, v) = entry_kind U entry in
        if kind = lit ''domain'' \<or> kind = lit ''suffix'' then map_option DomainSuffix (normalize_domain U v)
        else if kind = lit ''full'' \<or> kind = lit ''exact'' then map_option DomainFull (normalize_domain U v)
        else if kind = lit ''keyword'' then
          (let needle = to_lowercase U (trim v) in if needle = [] then None else Some (DomainKeyword needle))
        else if kind = lit ''regexp'' \<or> kind = lit ''regex'' then map_option DomainRegex (regex_new L v)
        else if kind = lit ''ip'' \<or> kind = lit ''cidr'' then map_option Net (parse_net L v)
        else if kind = lit ''port'' then map_option (\<lambda>(lo, hi). Ports lo hi) (parse_ports v)
        else if kind = lit ''geoip'' \<or> kind = lit ''geosite'' then
          (if eq_ignore_ascii_case v (lit ''private'') then Some Private else None)
        else if kind = [] then
          (if eq_ignore_ascii_case v (lit ''private'') then Some Private
           else case parse_net L v of
                  Some net \<Rightarrow> Some (Net net)
                | None \<Rightarrow> map_option DomainSuffix (normalize_domain U v))
        else None)"

definition matches :: "unicode \<Rightarrow> ('re, 'net) route_lib \<Rightarrow> ('re, 'net) matcher \<Rightarrow> host \<Rightarrow> u16 \<Rightarrow> bool" where
  "matches U L m h port =
     (case m of
        Ports lo hi \<Rightarrow> lo \<le> port \<and> port \<le> hi
      | Private \<Rightarrow>
          (case h of Ip ip \<Rightarrow> is_private ip | Domain name \<Rightarrow> eq_ignore_ascii_case name (lit ''localhost''))
      | Net net \<Rightarrow> (case h of Ip ip \<Rightarrow> net_contains L net ip | Domain _ \<Rightarrow> False)
      | DomainSuffix suffix \<Rightarrow>
          (case h of
             Domain name \<Rightarrow>
               let name = to_lowercase U name in name = suffix \<or> ends_with name (lit ''.'' @ suffix)
           | Ip _ \<Rightarrow> False)
      | DomainFull full \<Rightarrow> (case h of Domain name \<Rightarrow> eq_ignore_ascii_case name full | Ip _ \<Rightarrow> False)
      | DomainKeyword needle \<Rightarrow>
          (case h of Domain name \<Rightarrow> contains_str (to_lowercase U name) needle | Ip _ \<Rightarrow> False)
      | DomainRegex pattern \<Rightarrow> (case h of Domain name \<Rightarrow> is_match L pattern name | Ip _ \<Rightarrow> False))"

subsection \<open>Rule sets\<close>

record ('re, 'net) rule_set =
  rs_block :: "('re, 'net) matcher list"
  rs_direct :: "('re, 'net) matcher list"

definition is_sep :: "nat \<Rightarrow> bool" where
  "is_sep c \<longleftrightarrow> c = 10 \<or> c = 44 \<or> c = 59"

definition parse_list :: "unicode \<Rightarrow> ('re, 'net) route_lib \<Rightarrow> str \<Rightarrow> ('re, 'net) matcher list" where
  "parse_list U L raw = List.map_filter (parse_matcher U L) (split_on is_sep raw)"

definition push_list :: "str \<Rightarrow> str \<Rightarrow> str" where
  "push_list target extra =
     (if trim extra = [] then target
      else if trim target \<noteq> [] then target @ [10] @ extra
      else target @ extra)"

datatype rule_section = InBlock | InDirect | Elsewhere

fun split_lines :: "unicode \<Rightarrow> rule_section \<Rightarrow> str \<times> str \<Rightarrow> str list \<Rightarrow> str \<times> str" where
  "split_lines U cur (block, direct) [] = (block, direct)"
| "split_lines U cur (block, direct) (line # rest) =
     (let trimmed = trim line in
      if trimmed = [] \<or> starts_with trimmed [35] then split_lines U cur (block, direct) rest
      else let lowered = to_lowercase U trimmed in
        if lowered = lit ''[block]'' then split_lines U InBlock (block, direct) rest
        else if lowered = lit ''[direct]'' then split_lines U InDirect (block, direct) rest
        else if starts_with lowered [91] then split_lines U Elsewhere (block, direct) rest
        else split_lines U cur
          (case cur of InBlock \<Rightarrow> (block @ trimmed @ [10], direct)
                     | InDirect \<Rightarrow> (block, direct @ trimmed @ [10])
                     | Elsewhere \<Rightarrow> (block, direct)) rest)"

definition split_sections :: "unicode \<Rightarrow> str \<Rightarrow> str \<times> str" where
  "split_sections U text = split_lines U Elsewhere ([], []) (lines text)"

definition rule_set_parse :: "unicode \<Rightarrow> ('re, 'net) route_lib \<Rightarrow> str \<Rightarrow> str \<Rightarrow> ('re, 'net) rule_set" where
  "rule_set_parse U L block direct = \<lparr>rs_block = parse_list U L block, rs_direct = parse_list U L direct\<rparr>"

text \<open>\<open>read\<close> is \<open>std::fs::read_to_string\<close>: \<^term>\<open>None\<close> when the file cannot be read as text.\<close>

definition rule_set_from_env ::
  "unicode \<Rightarrow> ('re, 'net) route_lib \<Rightarrow> (str \<Rightarrow> str option) \<Rightarrow> (str \<Rightarrow> str option) \<Rightarrow> ('re, 'net) rule_set" where
  "rule_set_from_env U L env read =
     (let block = (case env (lit ''AETHER_ROUTE_BLOCK'') of Some v \<Rightarrow> v | None \<Rightarrow> []);
          direct = (case env (lit ''AETHER_ROUTE_DIRECT'') of Some v \<Rightarrow> v | None \<Rightarrow> []);
          (block, direct) =
            (case env (lit ''AETHER_ROUTES_FILE'') of
               None \<Rightarrow> (block, direct)
             | Some path \<Rightarrow>
                 (case read path of
                    None \<Rightarrow> (block, direct)
                  | Some text \<Rightarrow>
                      let (file_block, file_direct) = split_sections U text in
                      (push_list block file_block, push_list direct file_direct)))
      in rule_set_parse U L block direct)"

definition rules_empty :: "('re, 'net) rule_set \<Rightarrow> bool" where
  "rules_empty rs \<longleftrightarrow> rs_block rs = [] \<and> rs_direct rs = []"

definition is_domain_rule :: "('re, 'net) matcher \<Rightarrow> bool" where
  "is_domain_rule m =
     (case m of DomainSuffix _ \<Rightarrow> True | DomainFull _ \<Rightarrow> True | DomainKeyword _ \<Rightarrow> True | DomainRegex _ \<Rightarrow> True
      | _ \<Rightarrow> False)"

definition has_domain_rules :: "('re, 'net) rule_set \<Rightarrow> bool" where
  "has_domain_rules rs \<longleftrightarrow> list_ex is_domain_rule (rs_block rs @ rs_direct rs)"

definition decide :: "unicode \<Rightarrow> ('re, 'net) route_lib \<Rightarrow> ('re, 'net) rule_set \<Rightarrow> host \<Rightarrow> u16 \<Rightarrow> action" where
  "decide U L rs h port =
     (if list_ex (\<lambda>rule. matches U L rule h port) (rs_block rs) then Block
      else if list_ex (\<lambda>rule. matches U L rule h port) (rs_direct rs) then Direct
      else Proxy)"

subsection \<open>Lists of entries\<close>

lemma split_on_sep: "p c \<Longrightarrow> split_on p (a @ c # b) = split_on p a @ split_on p b"
  by (induction a) (auto split: list.splits)

lemma parse_list_sep: "is_sep c \<Longrightarrow> parse_list U L (a @ c # b) = parse_list U L a @ parse_list U L b"
  by (simp add: parse_list_def split_on_sep List.map_filter_def)

lemma parse_list_one:
  "list_all (\<lambda>x. \<not> is_sep x) e \<Longrightarrow>
   parse_list U L e = (case parse_matcher U L e of None \<Rightarrow> [] | Some m \<Rightarrow> [m])"
  by (simp add: parse_list_def split_on_none List.map_filter_simps split: option.splits)

lemma parse_list_lines:
  assumes "list_all (list_all (\<lambda>x. \<not> is_sep x)) es"
  shows "parse_list U L (concat (map (\<lambda>e. e @ [10]) es)) = List.map_filter (parse_matcher U L) es"
  using assms
proof (induction es)
  case Nil
  then show ?case
    by (simp add: parse_list_def List.map_filter_simps parse_matcher_def trim_def trim_start_def trim_end_def)
next
  case (Cons e es)
  then show ?case
    using parse_list_sep [of 10 U L e] parse_list_one [of e U L]
    by (simp add: is_sep_def List.map_filter_simps split: option.splits)
qed

subsection \<open>Entries\<close>

abbreviation ascii :: "str \<Rightarrow> bool" where
  "ascii s \<equiv> list_all (\<lambda>c. c < 128) s"

definition name_char :: "nat \<Rightarrow> bool" where
  "name_char c \<longleftrightarrow> is_alnum c \<or> c = 45 \<or> c = 46"

text \<open>A domain name as users write it: letters, digits, hyphens and inner dots.\<close>

definition plain_name :: "str \<Rightarrow> bool" where
  "plain_name d \<longleftrightarrow> d \<noteq> [] \<and> list_all name_char d \<and> hd d \<noteq> 46 \<and> last d \<noteq> 46"

lemma name_char_facts:
  "name_char c \<Longrightarrow> c < 128 \<and> \<not> is_whitespace c \<and> c \<noteq> 58 \<and> c \<noteq> 42 \<and> c \<noteq> 35 \<and> \<not> is_sep c"
  by (auto simp: name_char_def chr_defs is_sep_def)

lemma plain_name_facts:
  assumes "plain_name d"
  shows "ascii d" "list_all (\<lambda>c. \<not> is_whitespace c) d" "58 \<notin> set d" "list_all (\<lambda>x. \<not> is_sep x) d"
    "trim d = d" "\<not> starts_with d [35]"
proof -
  have all: "list_all name_char d" and ne: "d \<noteq> []" using assms by (auto simp: plain_name_def)
  then show "ascii d" "58 \<notin> set d" "list_all (\<lambda>x. \<not> is_sep x) d"
    and ws: "list_all (\<lambda>c. \<not> is_whitespace c) d"
    using name_char_facts by (auto simp: list_all_iff)
  show "trim d = d" using ws by (rule trim_none)
  show "\<not> starts_with d [35]"
    using ne all name_char_facts by (cases d) (auto simp: starts_with_def)
qed

lemma trim_start_matches_hd: "s \<noteq> [] \<Longrightarrow> hd s \<noteq> c \<Longrightarrow> trim_start_matches c s = s"
  by (cases s) (simp_all add: trim_start_matches_def)

lemma normalize_plain:
  assumes "plain_name d"
  shows "normalize_domain U d = Some (map ascii_lower d)"
proof -
  have "hd d \<noteq> 42" "hd d \<noteq> 46" "last d \<noteq> 46" "d \<noteq> []"
    using assms name_char_facts [of "hd d"] by (auto simp: plain_name_def list_all_iff)
  then show ?thesis
    using plain_name_facts [OF assms]
    by (simp add: normalize_domain_def trim_start_matches_hd trim_end_matches_last to_lowercase_ascii)
qed

lemma normalize_wildcard:
  assumes "plain_name d"
  shows "normalize_domain U (lit ''*.'' @ d) = Some (map ascii_lower d)"
proof -
  have "trim (lit ''*.'' @ d) = lit ''*.'' @ d"
    using plain_name_facts(2) [OF assms] by (intro trim_none) (simp add: chr_defs)
  moreover have "d \<noteq> []" "hd d \<noteq> 46" "last d \<noteq> 46" "hd d \<noteq> 42"
    using assms name_char_facts [of "hd d"] by (auto simp: plain_name_def list_all_iff)
  ultimately show ?thesis
    using plain_name_facts(1) [OF assms]
    by (cases d) (simp_all add: normalize_domain_def trim_start_matches_def trim_end_matches_last to_lowercase_ascii)
qed

lemma parse_matcher_bare:
  assumes "trim e = e" "e \<noteq> []" "\<not> starts_with e [35]" "58 \<notin> set e"
    "\<not> eq_ignore_ascii_case e (lit ''private'')" "parse_net L e = None"
  shows "parse_matcher U L e = map_option DomainSuffix (normalize_domain U e)"
  using assms split_once_None [of 58 e] by (simp add: parse_matcher_def entry_kind_def)

lemma ends_with_append: "ends_with s p \<longleftrightarrow> (\<exists>pre. s = pre @ p)"
  by (auto simp: ends_with_def) (metis append_take_drop_id)

lemma suffix_matches:
  assumes "ascii name"
  shows "matches U L (DomainSuffix d) (Domain name) port \<longleftrightarrow>
    map ascii_lower name = d \<or> (\<exists>sub. map ascii_lower name = sub @ [46] @ d)"
  using assms by (simp add: matches_def to_lowercase_ascii ends_with_append Let_def)

subsection \<open>Ports\<close>

lemma show_nat_chars: "list_all is_digit (show_nat n)"
  using show_nat_digits by blast

lemma digit_facts: "is_digit c \<Longrightarrow> \<not> is_whitespace c \<and> c \<noteq> 45 \<and> c \<noteq> 58 \<and> c < 128"
  by (simp add: chr_defs)

lemma trim_show_nat: "trim (show_nat n) = show_nat n"
  using show_nat_chars [of n] digit_facts by (intro trim_none) (auto simp: list_all_iff)

lemma parse_u16_show: "parse_u16 (show_nat (unat p)) = Some p"
proof -
  have "unat p < 2 ^ 16" using unsigned_less [of p, where ?'a = nat] by simp
  then show ?thesis by (simp add: parse_u16_def parse_uint_show del: show_nat.simps)
qed

lemma parse_ports_range:
  "parse_ports (show_nat (unat a) @ lit ''-'' @ show_nat (unat b)) = Some (if b < a then (b, a) else (a, b))"
proof -
  have "45 \<notin> set (show_nat (unat a))"
    using show_nat_chars [of "unat a"] digit_facts by (auto simp: list_all_iff)
  then have "split_once 45 (show_nat (unat a) @ 45 # show_nat (unat b)) = Some (show_nat (unat a), show_nat (unat b))"
    by (simp add: split_once_Some)
  moreover have "trim (show_nat (unat a) @ 45 # show_nat (unat b)) = show_nat (unat a) @ 45 # show_nat (unat b)"
    using show_nat_chars digit_facts by (intro trim_none) (fastforce simp: list_all_iff chr_defs)
  ultimately show ?thesis
    by (simp add: parse_ports_def trim_show_nat parse_u16_show del: show_nat.simps)
qed

subsection \<open>Sections\<close>

definition plain_line :: "str \<Rightarrow> bool" where
  "plain_line e \<longleftrightarrow> e \<noteq> [] \<and> \<not> is_whitespace (hd e) \<and> \<not> is_whitespace (last e) \<and> ascii e \<and> hd e \<noteq> 35 \<and> hd e \<noteq> 91 \<and> list_all (\<lambda>x. \<not> is_sep x) e"

lemma trim_plain_line: "plain_line e \<Longrightarrow> trim e = e"
proof -
  assume "plain_line e"
  then have "e \<noteq> []" "\<not> is_whitespace (hd e)" "\<not> is_whitespace (last e)" by (auto simp: plain_line_def)
  moreover from this have "trim_start e = e" by (cases e) (simp_all add: trim_start_def)
  ultimately show ?thesis
    by (cases e rule: rev_cases) (simp_all add: trim_def trim_end_def)
qed

lemma lower_91: "ascii_lower c = 91 \<longleftrightarrow> c = 91"
  by (simp add: chr_defs)

lemma split_lines_plain:
  assumes "plain_line e"
  shows "split_lines U cur bd (e # rest) =
    split_lines U cur (case cur of InBlock \<Rightarrow> (fst bd @ e @ [10], snd bd)
                        | InDirect \<Rightarrow> (fst bd, snd bd @ e @ [10]) | Elsewhere \<Rightarrow> bd) rest"
proof -
  obtain c cs where e: "e = c # cs" using assms by (cases e) (auto simp: plain_line_def)
  then have "c \<noteq> 35" "c \<noteq> 91" using assms by (auto simp: plain_line_def)
  then have "\<not> starts_with e [35]" "hd (to_lowercase U e) \<noteq> 91" "to_lowercase U e \<noteq> []"
    using assms e by (auto simp: starts_with_def plain_line_def to_lowercase_ascii lower_91)
  moreover from this(2,3) have "\<not> starts_with (to_lowercase U e) [91]" "to_lowercase U e \<noteq> lit ''[block]''"
      "to_lowercase U e \<noteq> lit ''[direct]''"
    by (cases "to_lowercase U e"; simp add: starts_with_def)+
  ultimately show ?thesis
    using assms trim_plain_line [OF assms] by (cases bd) (simp add: plain_line_def split: rule_section.splits)
qed

lemma split_lines_plains:
  assumes "list_all plain_line es"
  shows "split_lines U cur bd (es @ rest) =
    split_lines U cur (case cur of InBlock \<Rightarrow> (fst bd @ concat (map (\<lambda>e. e @ [10]) es), snd bd)
                        | InDirect \<Rightarrow> (fst bd, snd bd @ concat (map (\<lambda>e. e @ [10]) es)) | Elsewhere \<Rightarrow> bd) rest"
  using assms
proof (induction es arbitrary: bd)
  case Nil
  then show ?case by (simp split: rule_section.splits)
next
  case (Cons e es)
  then show ?case by (simp add: split_lines_plain split: rule_section.splits)
qed

lemma lines_unlines:
  assumes "list_all (\<lambda>e. 10 \<notin> set e \<and> (e = [] \<or> last e \<noteq> 13)) es"
  shows "lines (concat (map (\<lambda>e. e @ [10]) es)) = es"
  using assms
proof (induction es)
  case Nil
  then show ?case by (simp add: lines_def)
next
  case (Cons e es)
  let ?rest = "concat (map (\<lambda>e. e @ [10]) es)"
  have "split_on (\<lambda>c. c = 10) (e @ 10 # ?rest) = e # split_on (\<lambda>c. c = 10) ?rest"
  proof -
    have "list_all (\<lambda>c. \<not> c = 10) e" using Cons.prems by (auto simp: list_all_iff)
    then show ?thesis by (simp add: split_on_sep split_on_none)
  qed
  moreover obtain w ws where "split_on (\<lambda>c. c = 10) ?rest = w # ws" by (meson split_on_ne neq_Nil_conv)
  ultimately show ?case using Cons by (auto simp: lines_def strip_cr_def)
qed

lemma plain_line_newlines: "plain_line e \<Longrightarrow> 10 \<notin> set e \<and> (e = [] \<or> last e \<noteq> 13)"
  by (auto simp: plain_line_def list_all_iff is_sep_def chr_defs)

lemma split_lines_headers:
  "split_lines U cur bd (lit ''[block]'' # rest) = split_lines U InBlock bd rest"
  "split_lines U cur bd (lit ''[direct]'' # rest) = split_lines U InDirect bd rest"
proof -
  have "trim (lit ''[block]'') = lit ''[block]''" "trim (lit ''[direct]'') = lit ''[direct]''"
    by (simp_all add: trim_def trim_start_def trim_end_def chr_defs)
  moreover have "to_lowercase U (lit ''[block]'') = lit ''[block]''" "to_lowercase U (lit ''[direct]'') = lit ''[direct]''"
    by (simp_all add: to_lowercase_ascii chr_defs)
  ultimately show "split_lines U cur bd (lit ''[block]'' # rest) = split_lines U InBlock bd rest"
      "split_lines U cur bd (lit ''[direct]'' # rest) = split_lines U InDirect bd rest"
    by (cases bd; simp add: starts_with_def)+
qed

lemma split_sections_render:
  assumes "list_all plain_line bs" "list_all plain_line ds"
  shows "split_sections U (concat (map (\<lambda>e. e @ [10]) ([lit ''[block]''] @ bs @ [lit ''[direct]''] @ ds)))
    = (concat (map (\<lambda>e. e @ [10]) bs), concat (map (\<lambda>e. e @ [10]) ds))"
proof -
  let ?ls = "lit ''[block]'' # bs @ lit ''[direct]'' # ds"
  have "list_all (\<lambda>e. 10 \<notin> set e \<and> (e = [] \<or> last e \<noteq> 13)) ?ls"
    using assms plain_line_newlines by (auto simp: list_all_iff)
  then have "lines (concat (map (\<lambda>e. e @ [10]) ?ls)) = ?ls" by (rule lines_unlines)
  then show ?thesis
    using assms split_lines_plains [OF assms(1), of U InBlock] split_lines_plains [OF assms(2), of U InDirect _ "[]"]
    by (simp add: split_sections_def split_lines_headers del: lit_simps)
qed

subsection \<open>Properties\<close>


text \<open>Concrete libraries for the witnesses: networks are single addresses, no pattern compiles.\<close>

definition tiny_lib :: "(unit, ip_addr) route_lib" where
  "tiny_lib = \<lparr>regex_new = (\<lambda>_. None), is_match = (\<lambda>_ _. False), parse_ipnet = (\<lambda>_. None),
     ipnet_from = (\<lambda>a. a), net_contains = (\<lambda>a b. a = b)\<rparr>"


text \<open>
  A bare domain entry matches the domain itself and its subdomains, at a label boundary and
  without regard to ASCII case, and nothing else: not a name that merely ends in the same letters,
  and no address. A leading \<open>*.\<close> changes nothing. The entry is a name of letters, digits, hyphens
  and inner dots that is neither the word \<open>private\<close> nor an address or network.
\<close>

lemma bare_domain_rule:
  assumes "plain_name d" "\<not> eq_ignore_ascii_case d (lit ''private'')"
    "parse_net L d = None" "parse_net L (lit ''*.'' @ d) = None" "ascii name"
  shows "\<exists>m. parse_matcher U L d = Some m \<and> parse_matcher U L (lit ''*.'' @ d) = Some m
    \<and> (matches U L m (Domain name) port \<longleftrightarrow>
         map ascii_lower name = map ascii_lower d
         \<or> (\<exists>sub. map ascii_lower name = sub @ [46] @ map ascii_lower d))
    \<and> \<not> matches U L m (Ip ip) port"
proof -
  let ?m = "DomainSuffix (map ascii_lower d)" and ?w = "lit ''*.'' @ d"
  note facts = plain_name_facts [OF assms(1)]
  have "d \<noteq> []" using assms(1) by (simp add: plain_name_def)
  then have "parse_matcher U L d = Some ?m"
    using facts assms by (simp add: parse_matcher_bare normalize_plain)
  moreover have "parse_matcher U L ?w = Some ?m"
  proof -
    have "trim ?w = ?w" using facts(2) by (intro trim_none) (simp add: chr_defs)
    moreover have "\<not> eq_ignore_ascii_case ?w (lit ''private'')"
      by (simp add: eq_ignore_ascii_case_def chr_defs)
    ultimately show ?thesis
      using facts(3) assms normalize_wildcard [OF assms(1), of U]
      by (subst parse_matcher_bare) (simp_all add: starts_with_def)
  qed
  ultimately show ?thesis
    using suffix_matches [OF assms(5)] by (intro exI [of _ ?m]) (simp add: matches_def)
qed

text \<open>
  A port rule in decimal, single or a range in either order, matches exactly the ports from the
  smaller to the larger bound, on every host.
\<close>

lemma port_rule_exact:
  "\<exists>m. parse_matcher U L (lit ''port:'' @ show_nat (unat a) @ lit ''-'' @ show_nat (unat b)) = Some m
    \<and> (matches U L m h port \<longleftrightarrow> min a b \<le> port \<and> port \<le> max a b)"
proof -
  let ?r = "show_nat (unat a) @ lit ''-'' @ show_nat (unat b)"
  have chars: "list_all (\<lambda>c. \<not> is_whitespace c) ?r"
    using show_nat_chars digit_facts by (fastforce simp: list_all_iff chr_defs)
  then have "trim (lit ''port:'' @ ?r) = lit ''port:'' @ ?r" "trim ?r = ?r"
    by (intro trim_none; simp add: chr_defs)+
  moreover have "split_once 58 (lit ''port:'' @ ?r) = Some (lit ''port'', ?r)"
    by (simp add: split_once_Some)
  moreover have "trim (lit ''port'') = lit ''port''" "to_lowercase U (lit ''port'') = lit ''port''"
    by (simp_all add: trim_none to_lowercase_ascii chr_defs)
  ultimately have "parse_matcher U L (lit ''port:'' @ ?r) = map_option (\<lambda>(lo, hi). Ports lo hi) (parse_ports ?r)"
    by (simp add: parse_matcher_def entry_kind_def starts_with_def del: show_nat.simps)
  then show ?thesis
    unfolding parse_ports_range by (auto simp: matches_def min_def max_def)
qed

text \<open>
  \<open>is_private\<close> is membership in these networks: for IPv4 10/8, 172.16/12, 192.168/16, 127/8,
  169.254/16, 100.64/10, the three documentation networks, the broadcast and the unspecified address;
  for IPv6 the loopback and unspecified address, fc00::/7 and fe80::/10.
\<close>

lemma is_private_networks:
  "is_private (V4 a) =
     (\<exists>(net, len) \<in> {([10, 0, 0, 0], 8), ([172, 16, 0, 0], 12), ([192, 168, 0, 0], 16), ([127, 0, 0, 0], 8),
        ([169, 254, 0, 0], 16), ([255, 255, 255, 255], 32), ([192, 0, 2, 0], 24), ([198, 51, 100, 0], 24),
        ([203, 0, 113, 0], 24), ([0, 0, 0, 0], 32), ([100, 64, 0, 0], 10)}. in_cidr a net len)
   \<and> is_private (V6 b) = (b = 1 \<or> b = 0 \<or> drop_bit 121 b = 0x7e \<or> drop_bit 118 b = 0x3fa)"
proof -
  obtain o0 o1 o2 o3 where o: "octets4 a = [o0, o1, o2, o3]" by (rule octets4_cases)
  have b8: "in_cidr a [n, 0, 0, 0] 8 \<longleftrightarrow> o0 = n" for n using in_cidr_octets [of "[n, 0, 0, 0]" 1 a] o by simp
  have b16: "in_cidr a [n, m, 0, 0] 16 \<longleftrightarrow> o0 = n \<and> o1 = m" for n m
    using in_cidr_octets [of "[n, m, 0, 0]" 2 a] o by (simp add: numeral_2_eq_2)
  have b24: "in_cidr a [n, m, k, 0] 24 \<longleftrightarrow> o0 = n \<and> o1 = m \<and> o2 = k" for n m k
    using in_cidr_octets [of "[n, m, k, 0]" 3 a] o by (simp add: numeral_3_eq_3)
  have b32: "in_cidr a [255, 255, 255, 255] 32 \<longleftrightarrow> a = 0xffffffff" "in_cidr a [0, 0, 0, 0] 32 \<longleftrightarrow> a = 0"
    by (simp_all add: in_cidr_def ipv4_from_def be_dec_Cons)
  have "take 3 (octets4 a) = [o0, o1, o2]" by (simp add: o)
  then have "is_private (V4 a) \<longleftrightarrow>
      o0 = 10 \<or> (o0 = 172 \<and> 16 \<le> o1 \<and> o1 \<le> 31) \<or> (o0 = 192 \<and> o1 = 168) \<or> o0 = 127 \<or> (o0 = 169 \<and> o1 = 254)
      \<or> a = 0xffffffff \<or> (o0 = 192 \<and> o1 = 0 \<and> o2 = 2) \<or> (o0 = 198 \<and> o1 = 51 \<and> o2 = 100)
      \<or> (o0 = 203 \<and> o1 = 0 \<and> o2 = 113) \<or> a = 0 \<or> (o0 = 100 \<and> 64 \<le> o1 \<and> o1 < 128)"
    unfolding is_private_def ip_addr.case v4_is_private_def is_loopback_def v4_is_link_local_def v4_is_broadcast_def
      v4_is_documentation_def is_unspecified_def Let_def o by simp
  also have "\<dots> \<longleftrightarrow> (\<exists>(net, len) \<in> {([10, 0, 0, 0], 8), ([172, 16, 0, 0], 12), ([192, 168, 0, 0], 16), ([127, 0, 0, 0], 8),
        ([169, 254, 0, 0], 16), ([255, 255, 255, 255], 32), ([192, 0, 2, 0], 24), ([198, 51, 100, 0], 24),
        ([203, 0, 113, 0], 24), ([0, 0, 0, 0], 32), ([100, 64, 0, 0], 10)}. in_cidr a net len)"
    by (simp only: bex_simps prod.case b8 b16 b24 b32 in_cidr_second o nth_Cons_0 nth_Cons_Suc One_nat_def simp_thms)
  finally show ?thesis
    by (simp add: is_private_def [of "V6 b"] is_loopback_def is_unspecified_def v6_prefixes)
qed

text \<open>
  A routing file with a block and a direct section, given by \<open>AETHER_ROUTES_FILE\<close>, yields exactly
  the rules of its lines, each in its own list and in order.
\<close>

lemma routes_file_rules:
  assumes "list_all plain_line bs" "list_all plain_line ds"
    "env (lit ''AETHER_ROUTE_BLOCK'') = None" "env (lit ''AETHER_ROUTE_DIRECT'') = None"
    "env (lit ''AETHER_ROUTES_FILE'') = Some path"
    "read path = Some (concat (map (\<lambda>l. l @ [10]) ([lit ''[block]''] @ bs @ [lit ''[direct]''] @ ds)))"
  shows "rule_set_from_env U L env read =
    \<lparr>rs_block = List.map_filter (parse_matcher U L) bs, rs_direct = List.map_filter (parse_matcher U L) ds\<rparr>"
proof -
  let ?un = "\<lambda>es. concat (map (\<lambda>l. l @ [10]) es)"
  have "list_all (list_all (\<lambda>x. \<not> is_sep x)) bs" "list_all (list_all (\<lambda>x. \<not> is_sep x)) ds"
    using assms(1,2) by (auto simp: list_all_iff plain_line_def)
  then have rules: "parse_list U L (?un bs) = List.map_filter (parse_matcher U L) bs"
      "parse_list U L (?un ds) = List.map_filter (parse_matcher U L) ds"
    by (simp_all only: parse_list_lines)
  have none: "parse_list U L [] = []" using parse_list_lines [of "[]" U L] by (simp add: List.map_filter_simps)
  have push: "parse_list U L (push_list [] x) = parse_list U L x" if "trim x \<noteq> [] \<or> parse_list U L x = []" for x
    using that none by (auto simp: push_list_def trim_def trim_start_def trim_end_def)
  have ne: "trim (?un es) \<noteq> []" if plain: "list_all plain_line es" and "es \<noteq> []" for es
  proof -
    obtain e es' where "es = e # es'" using \<open>es \<noteq> []\<close> by (cases es) auto
    then obtain c cs where "?un es = c # cs" "\<not> is_whitespace c"
      using plain by (cases e) (auto simp: plain_line_def)
    then show ?thesis by (auto simp: trim_def trim_start_def trim_end_def dropWhile_eq_Nil_conv)
  qed
  have "parse_list U L (push_list [] (?un es)) = parse_list U L (?un es)" if "list_all plain_line es" for es
    using ne [OF that] none by (intro push) (cases "es = []", auto)
  then show ?thesis
    using assms split_sections_render [OF assms(1,2), of U] rules
    by (simp add: rule_set_from_env_def rule_set_parse_def del: lit_simps map_append concat_append)
qed

text \<open>
  An IPv6 address or network written as an entry of its own is not recognised: its first group
  is taken for the kind of the rule, and the entry is dropped. (IPv6 rules need the prefix \<open>ip:\<close>.)
\<close>

lemma bare_ipv6_entry_dropped:
  assumes "grp \<noteq> []" "list_all (\<lambda>c. is_digit c \<or> c \<in> {97, 98, 99, 100, 101, 102}) grp"
    "list_all (\<lambda>c. \<not> is_whitespace c) rest"
  shows "parse_matcher U L (grp @ [58] @ rest) = None"
proof -
  have hex: "c < 128 \<and> \<not> is_whitespace c \<and> c \<noteq> 58 \<and> c \<noteq> 46 \<and> c \<noteq> 47 \<and> c \<noteq> 35 \<and> ascii_lower c = c \<and> c \<le> 102"
    if "c \<in> set grp" for c
    using assms(2) that by (fastforce simp: list_all_iff chr_defs)
  have "trim (grp @ [58] @ rest) = grp @ [58] @ rest" "trim grp = grp"
    using assms(3) hex by (intro trim_none; auto simp: list_all_iff chr_defs)+
  moreover have "split_once 58 (grp @ [58] @ rest) = Some (grp, rest)"
    using hex by (auto simp: split_once_Some)
  moreover have "to_lowercase U grp = grp"
    using hex by (auto simp: to_lowercase_ascii list_all_iff map_idI)
  moreover have "46 \<notin> set grp" "47 \<notin> set grp" using hex by auto
  ultimately have kind: "entry_kind U (grp @ [58] @ rest) = (grp, trim rest)" by (simp add: entry_kind_def)
  have "\<not> starts_with (grp @ [58] @ rest) [35]"
    using hex assms(1) by (cases grp) (auto simp: starts_with_def)
  moreover have "kw \<noteq> grp" if "\<exists>c \<in> set kw. 102 < c" for kw using hex that by force
  ultimately show ?thesis
    using kind assms(1) \<open>trim (grp @ [58] @ rest) = grp @ [58] @ rest\<close>
    by (simp add: parse_matcher_def eq_commute [of grp])
qed

end
