(* ===== verification/Sniff.thy ===== *)
theory Sniff
  imports Rust_Net
begin

text \<open>
  \<open>sniff.rs\<close>: the host name in the first bytes of a connection, read from the server-name extension
  of a TLS ClientHello or from the \<open>Host\<close> header of an HTTP request. All accesses are checked, so the
  functions return an option; the two loops end because every entry moves the position forward.
\<close>

definition TLS_HANDSHAKE :: u8 where "TLS_HANDSHAKE = 0x16"
definition TLS_CLIENT_HELLO :: u8 where "TLS_CLIENT_HELLO = 0x01"
definition EXT_SERVER_NAME :: nat where "EXT_SERVER_NAME = 0"
definition SNI_HOST_NAME :: u8 where "SNI_HOST_NAME = 0"
definition MAX_HOST_LEN :: nat where "MAX_HOST_LEN = 253"
definition PEEK_BUDGET :: nat where "PEEK_BUDGET = 4096"

definition be16 :: "bytes \<Rightarrow> nat \<Rightarrow> nat option" where
  "be16 buf at = do {
     hi \<leftarrow> get_at buf at;
     lo \<leftarrow> get_at buf (at + 1);
     Some (unat hi * 256 + unat lo) }"

definition be24 :: "bytes \<Rightarrow> nat \<Rightarrow> nat option" where
  "be24 buf at = do {
     a \<leftarrow> get_at buf at;
     b \<leftarrow> get_at buf (at + 1);
     c \<leftarrow> get_at buf (at + 2);
     Some (unat a * 65536 + unat b * 256 + unat c) }"

definition host_char :: "nat \<Rightarrow> bool" where
  "host_char c \<longleftrightarrow> is_alnum c \<or> c = 45 \<or> c = 46 \<or> c = 95"

definition plausible_host :: "unicode \<Rightarrow> bytes \<Rightarrow> str option" where
  "plausible_host U raw =
     (if raw = [] \<or> MAX_HOST_LEN < length raw then None
      else do {
        text \<leftarrow> from_utf8 raw;
        let name = trim_end_matches 46 (trim text);
        if name = [] \<or> MAX_HOST_LEN < str_len name then None
        else if \<not> list_all (\<lambda>b. host_char (unat b)) (utf8_encode name) \<or> 46 \<notin> set name then None
        else if parse_ip name \<noteq> None then None
        else Some (to_lowercase U name) })"

function first_server_name_from :: "unicode \<Rightarrow> bytes \<Rightarrow> nat \<Rightarrow> nat \<Rightarrow> str option" where
  "first_server_name_from U data list_end at =
     (if at + 3 \<le> list_end then do {
        kind \<leftarrow> get_at data at;
        len \<leftarrow> be16 data (at + 1);
        end \<leftarrow> checked_add (at + 3) len;
        if list_end < end then None
        else if kind = SNI_HOST_NAME then Option.bind (get_range data (at + 3) end) (plausible_host U)
        else first_server_name_from U data list_end end }
      else None)"
  by pat_completeness auto
termination
  by (relation "measure (\<lambda>(_, _, list_end, at). list_end - at)") auto

declare first_server_name_from.simps [simp del]

definition first_server_name :: "unicode \<Rightarrow> bytes \<Rightarrow> str option" where
  "first_server_name U data = do {
     list_len \<leftarrow> be16 data 0;
     list_end \<leftarrow> checked_add 2 list_len;
     first_server_name_from U data (min list_end (length data)) 2 }"

function scan_extensions :: "unicode \<Rightarrow> bytes \<Rightarrow> nat \<Rightarrow> nat \<Rightarrow> str option" where
  "scan_extensions U hello extensions_end at =
     (if at + 4 \<le> extensions_end then do {
        kind \<leftarrow> be16 hello at;
        len \<leftarrow> be16 hello (at + 2);
        data_end \<leftarrow> checked_add (at + 4) len;
        if extensions_end < data_end then None
        else if kind = EXT_SERVER_NAME then Option.bind (get_range hello (at + 4) data_end) (first_server_name U)
        else scan_extensions U hello extensions_end data_end }
      else None)"
  by pat_completeness auto
termination
  by (relation "measure (\<lambda>(_, _, extensions_end, at). extensions_end - at)") auto

declare scan_extensions.simps [simp del]

definition tls_sni :: "unicode \<Rightarrow> bytes \<Rightarrow> str option" where
  "tls_sni U buf = do {
     first \<leftarrow> get_at buf 0;
     if first \<noteq> TLS_HANDSHAKE then None else do {
     record_len \<leftarrow> be16 buf 3;
     record_end \<leftarrow> checked_add 5 record_len;
     body \<leftarrow> get_range buf 5 (min record_end (length buf));
     kind \<leftarrow> get_at body 0;
     if kind \<noteq> TLS_CLIENT_HELLO then None else do {
     hello_len \<leftarrow> be24 body 1;
     hello_end \<leftarrow> checked_add 4 hello_len;
     hello \<leftarrow> get_range body 4 (min hello_end (length body));
     session_len \<leftarrow> get_at hello 34;
     at \<leftarrow> checked_add 34 (1 + unat session_len);
     cipher_len \<leftarrow> be16 hello at;
     at \<leftarrow> checked_add at (2 + cipher_len);
     compression_len \<leftarrow> get_at hello at;
     at \<leftarrow> checked_add at (1 + unat compression_len);
     extensions_len \<leftarrow> be16 hello at;
     at \<leftarrow> checked_add at 2;
     extensions_end \<leftarrow> checked_add at extensions_len;
     scan_extensions U hello (min extensions_end (length hello)) at }}}"

definition http_methods :: "str list" where
  "http_methods = map lit [''GET '', ''POST '', ''PUT '', ''HEAD '', ''DELETE '', ''OPTIONS '', ''PATCH '',
     ''TRACE '', ''CONNECT '']"

definition looks_like_http :: "str \<Rightarrow> bool" where
  "looks_like_http line \<longleftrightarrow> list_ex (starts_with line) http_methods \<and> contains_str line (lit ''HTTP/'')"

definition without_port :: "str \<Rightarrow> str" where
  "without_port v =
     (case rsplit_once 58 v of
        Some (host, port) \<Rightarrow> if list_all is_digit port then host else v
      | None \<Rightarrow> v)"

fun host_header :: "unicode \<Rightarrow> str list \<Rightarrow> str option" where
  "host_header U [] = None"
| "host_header U (line # rest) =
     (if line = [] then None
      else case split_once 58 line of
             None \<Rightarrow> host_header U rest
           | Some (name, v) \<Rightarrow>
               if \<not> eq_ignore_ascii_case name (lit ''host'') then host_header U rest
               else plausible_host U (utf8_encode (without_port (trim v))))"

definition http_host :: "unicode \<Rightarrow> bytes \<Rightarrow> str option" where
  "http_host U buf = do {
     head \<leftarrow> get_range buf 0 (min (length buf) PEEK_BUDGET);
     case split_two 13 10 (from_utf8_lossy head) of
       [] \<Rightarrow> None
     | request_line # rest \<Rightarrow> if looks_like_http request_line then host_header U rest else None }"

definition hostname :: "unicode \<Rightarrow> bytes \<Rightarrow> str option" where
  "hostname U buf = (case tls_sni U buf of Some h \<Rightarrow> Some h | None \<Rightarrow> http_host U buf)"

subsection \<open>Plausible names\<close>

definition good_host :: "str \<Rightarrow> bool" where
  "good_host n \<longleftrightarrow> n \<noteq> [] \<and> length n \<le> MAX_HOST_LEN \<and> 46 \<in> set n \<and> last n \<noteq> 46
     \<and> list_all (\<lambda>c. host_char c \<and> \<not> is_upper c) n"

lemma utf8_char_ascii:
  assumes "list_all (\<lambda>b. unat b < 128) (utf8_char c)"
  shows "c < 128"
proof (rule ccontr)
  assume "\<not> c < 128"
  then have "\<exists>pre. utf8_char c = pre @ [word_of_nat (0x80 + c mod 64)]"
    by (simp add: utf8_char_def)
  then have "unat (word_of_nat (0x80 + c mod 64) :: u8) < 128" using assms by auto
  moreover have "c mod 64 < 64" by simp
  then have "0x80 + c mod 64 < 256" by linarith
  then have "unat (word_of_nat (0x80 + c mod 64) :: u8) = 0x80 + c mod 64"
    by (simp only: unsigned_of_nat take_bit_eq_mod) simp
  ultimately show False by linarith
qed

lemma utf8_encode_all_ascii:
  "list_all (\<lambda>b. unat b < 128) (utf8_encode s) \<Longrightarrow> list_all (\<lambda>c. c < 128) s"
  by (induction s) (auto simp: utf8_encode_def intro: utf8_char_ascii)

lemma host_char_facts: "host_char c \<Longrightarrow> c < 128 \<and> \<not> is_whitespace c"
  by (auto simp: host_char_def chr_defs)

lemma trim_end_matches_ne: "trim_end_matches c s \<noteq> [] \<Longrightarrow> last (trim_end_matches c s) \<noteq> c"
  using hd_dropWhile [of "\<lambda>x. x = c" "rev s"] by (auto simp: trim_end_matches_def last_rev)

lemma host_bytes:
  assumes "list_all (\<lambda>b. host_char (unat b)) (utf8_encode name)"
  shows "list_all host_char name" "str_len name = length name"
proof -
  have "list_all (\<lambda>b. unat b < 128) (utf8_encode name)"
    using assms host_char_facts by (auto simp: list_all_iff)
  then have asc: "list_all (\<lambda>c. c < 128) name" by (rule utf8_encode_all_ascii)
  then show "str_len name = length name" by (rule str_len_ascii)
  show "list_all host_char name"
    using assms asc utf8_encode_ascii [OF asc] by (induction name) (auto simp: utf8_encode_def utf8_char_def unat_of_nat)
qed

lemma plausible_host_good: "plausible_host U raw = Some n \<Longrightarrow> good_host n"
proof -
  assume "plausible_host U raw = Some n"
  then obtain name where n: "name \<noteq> []" "str_len name \<le> MAX_HOST_LEN" "list_all (\<lambda>b. host_char (unat b)) (utf8_encode name)"
      "46 \<in> set name" "n = to_lowercase U name" "last name \<noteq> 46"
    using trim_end_matches_ne by (auto simp: plausible_host_def Let_def bind_eq_Some_conv split: if_splits)
  note h = host_bytes [OF n(3)]
  have "list_all (\<lambda>c. c < 128) name" using h(1) host_char_facts by (auto simp: list_all_iff)
  then have low: "n = map ascii_lower name" using n(5) by (simp add: to_lowercase_ascii)
  have "list_all (\<lambda>c. host_char c \<and> \<not> is_upper c) (map ascii_lower name)"
    using h(1) by (auto simp: list_all_iff host_char_def chr_defs)
  moreover have "ascii_lower c = 46 \<longleftrightarrow> c = 46" for c by (simp add: chr_defs)
  moreover have "ascii_lower 46 = 46" by (simp add: chr_defs)
  ultimately show ?thesis
    using n(1,2,4,6) h(2) by (auto simp: good_host_def low last_map image_iff)
qed

lemma first_server_name_good: "first_server_name_from U data list_end at = Some n \<Longrightarrow> good_host n"
proof (induction U data list_end at rule: first_server_name_from.induct)
  case (1 U data list_end at)
  from "1.prems" show ?case
    by (subst (asm) first_server_name_from.simps)
      (auto simp: bind_eq_Some_conv split: if_splits intro: plausible_host_good "1.IH")
qed

lemma scan_extensions_good: "scan_extensions U hello e at = Some n \<Longrightarrow> good_host n"
proof (induction U hello e at rule: scan_extensions.induct)
  case (1 U hello e at)
  from "1.prems" show ?case
    by (subst (asm) scan_extensions.simps)
      (auto simp: bind_eq_Some_conv first_server_name_def split: if_splits intro: first_server_name_good "1.IH")
qed

lemma host_header_good: "host_header U ls = Some n \<Longrightarrow> good_host n"
  by (induction ls) (auto split: if_splits option.splits intro: plausible_host_good)

subsection \<open>Reading what was written\<close>

lemma get_at_mid: "get_at (a @ x # b) (length a) = Some x"
  by (simp add: get_at_def)

lemma get_range_mid: "get_range (a @ m @ b) (length a) (length a + length m) = Some m"
  by (simp add: get_range_def)

lemma be_enc_2_nth: "n < 65536 \<Longrightarrow> be_enc 2 n = [word_of_nat (n div 256), word_of_nat n]
    \<and> unat (word_of_nat (n div 256) :: u8) * 256 + unat (word_of_nat n :: u8) = n"
proof -
  assume n: "n < 65536"
  have e: "be_enc 2 n = [word_of_nat (n div 256), word_of_nat n]"
    using be_enc.simps(2) [of 1 n] by (simp add: numeral_2_eq_2)
  then show ?thesis using be_dec_be_enc [of 2 n] n by simp
qed

lemma be16_mid: "n < 65536 \<Longrightarrow> be16 (a @ be_enc 2 n @ b) (length a) = Some n"
  using be_enc_2_nth [of n] by (simp add: be16_def get_at_def nth_append)

lemma be24_mid:
  assumes "n < 16777216"
  shows "be24 (a @ be_enc 3 n @ b) (length a) = Some n"
proof -
  have "be_enc 3 n = [word_of_nat (n div 256 div 256), word_of_nat (n div 256), word_of_nat n]"
    using be_enc.simps(2) [of 2 n] be_enc.simps(2) [of 1 "n div 256"] be_enc.simps(2) [of 0 "n div 256 div 256"]
    by (simp add: numeral_3_eq_3 numeral_2_eq_2)
  moreover have "be_dec (be_enc 3 n) = n" using assms by (simp add: be_dec_be_enc)
  ultimately have "be24 (a @ be_enc 3 n @ b) (length a) = Some (be_dec (be_enc 3 n))"
    by (simp add: be24_def get_at_def nth_append be_dec_def)
  then show ?thesis using \<open>be_dec (be_enc 3 n) = n\<close> by simp
qed

lemma mid_at:
  "xs = a @ x # b \<Longrightarrow> i = length a \<Longrightarrow> get_at xs i = Some x"
  "ys = a' @ m @ b' \<Longrightarrow> i = length a' \<Longrightarrow> j = length a' + length m \<Longrightarrow> get_range ys i j = Some m"
  "zs = a'' @ be_enc 2 n @ b'' \<Longrightarrow> i = length a'' \<Longrightarrow> n < 65536 \<Longrightarrow> be16 zs i = Some n"
  "ws = u @ be_enc 3 k @ v \<Longrightarrow> i = length u \<Longrightarrow> k < 16777216 \<Longrightarrow> be24 ws i = Some k"
  by (simp_all only: get_at_mid get_range_mid be16_mid be24_mid)

text \<open>
  The layout of a ClientHello record, as a specification: a list of extensions before and after the
  server name, arbitrary session id, cipher suites and compression methods.
\<close>

definition ext_bytes :: "nat \<times> bytes \<Rightarrow> bytes" where
  "ext_bytes e = be_enc 2 (fst e) @ be_enc 2 (length (snd e)) @ snd e"

definition sni_data :: "bytes \<Rightarrow> bytes" where
  "sni_data name = be_enc 2 (3 + length name) @ [0] @ be_enc 2 (length name) @ name"

definition hello_body :: "bytes \<Rightarrow> bytes \<Rightarrow> bytes \<Rightarrow> bytes \<Rightarrow> bytes \<Rightarrow> bytes" where
  "hello_body fixed sid ciphers cmp exts =
     fixed @ [word_of_nat (length sid)] @ sid @ be_enc 2 (length ciphers) @ ciphers
     @ [word_of_nat (length cmp)] @ cmp @ be_enc 2 (length exts) @ exts"

definition hello_record :: "bytes \<Rightarrow> bytes" where
  "hello_record hello = [0x16, 3, 1] @ be_enc 2 (4 + length hello) @ [1] @ be_enc 3 (length hello) @ hello"

definition ext_ok :: "nat \<times> bytes \<Rightarrow> bool" where
  "ext_ok e \<longleftrightarrow> 0 < fst e \<and> fst e < 65536 \<and> length (snd e) < 65536"

lemma first_server_name_written:
  assumes "length name < 65000"
  shows "first_server_name U (sni_data name) = plausible_host U name"
proof -
  let ?d = "sni_data name"
  have "be16 ?d 0 = Some (3 + length name)"
    using assms be16_mid [of "3 + length name" "[]" "[0] @ be_enc 2 (length name) @ name"] by (simp add: sni_data_def)
  moreover have "length ?d = 5 + length name" by (simp add: sni_data_def)
  moreover have "get_at ?d 2 = Some 0"
    using get_at_mid [of "be_enc 2 (3 + length name)" 0 "be_enc 2 (length name) @ name"] by (simp add: sni_data_def)
  moreover have "be16 ?d 3 = Some (length name)"
    using assms be16_mid [of "length name" "be_enc 2 (3 + length name) @ [0]" name] by (simp add: sni_data_def)
  moreover have "get_range ?d 5 (5 + length name) = Some name"
    using get_range_mid [of "be_enc 2 (3 + length name) @ [0] @ be_enc 2 (length name)" name "[]"]
    by (simp add: sni_data_def)
  ultimately show ?thesis
    using assms
    by (simp add: first_server_name_def first_server_name_from.simps [of U ?d] checked_add_def SNI_HOST_NAME_def
        del: get_range_Some get_at_Some)
qed

lemma scan_extensions_written:
  assumes "list_all ext_ok pre" "length name < 65000" "hello = a @ concat (map ext_bytes pre) @ ext_bytes (0, sni_data name) @ post"
    "length hello \<le> e" "length hello < 2 ^ 32"
  shows "scan_extensions U hello (min e (length hello)) (length a) = plausible_host U name"
  using assms(1,3)
proof (induction pre arbitrary: a)
  case Nil
  let ?d = "sni_data name"
  have len: "length ?d = 5 + length name" by (simp add: sni_data_def)
  have h: "hello = a @ be_enc 2 0 @ be_enc 2 (length ?d) @ ?d @ post" using Nil by (simp add: ext_bytes_def)
  have "be16 hello (length a) = Some 0" unfolding h by (rule be16_mid) simp
  moreover have "be16 hello (length a + 2) = Some (length ?d)"
    using be16_mid [of "length ?d" "a @ be_enc 2 0" "?d @ post"] assms(2) len by (simp add: h)
  moreover have "get_range hello (length a + 4) (length a + 4 + length ?d) = Some ?d"
    using get_range_mid [of "a @ be_enc 2 0 @ be_enc 2 (length ?d)" ?d post] by (simp add: h)
  moreover have "length a + 4 + length ?d \<le> length hello" by (simp add: h)
  ultimately show ?case
    using assms(4,5) first_server_name_written [OF assms(2)]
    by (subst scan_extensions.simps) (simp add: checked_add_def EXT_SERVER_NAME_def del: get_range_Some)
next
  case (Cons x pre)
  obtain k d where x: "x = (k, d)" by (cases x)
  let ?tl = "concat (map ext_bytes pre) @ ext_bytes (0, sni_data name) @ post"
  have ok: "0 < k" "k < 65536" "length d < 65536" using Cons.prems(1) x by (simp_all add: ext_ok_def)
  have h: "hello = a @ be_enc 2 k @ be_enc 2 (length d) @ d @ ?tl"
    using Cons.prems(2) x ext_bytes_def [of x] by simp
  have "be16 hello (length a) = Some k" unfolding h using ok(2) by (rule be16_mid)
  moreover have "be16 hello (length a + 2) = Some (length d)"
    using be16_mid [of "length d" "a @ be_enc 2 k" "d @ ?tl"] ok(3) by (simp add: h)
  moreover have "length a + 4 + length d \<le> length hello" by (simp add: h)
  moreover have "scan_extensions U hello (min e (length hello)) (length (a @ ext_bytes x)) = plausible_host U name"
    using Cons.prems by (intro Cons.IH) simp_all
  moreover have "length (a @ ext_bytes x) = length a + 4 + length d" by (simp add: x ext_bytes_def)
  ultimately show ?case
    using assms(4,5) ok(1)
    by (subst scan_extensions.simps) (simp add: checked_add_def EXT_SERVER_NAME_def del: length_append)
qed

lemma tls_sni_written:
  assumes "length fixed = 34" "length sid < 256" "length ciphers < 65536" "length cmp < 256"
    "exts = concat (map ext_bytes pre) @ ext_bytes (0, sni_data name) @ concat (map ext_bytes post)"
    "list_all ext_ok pre" "length name < 65000" "length (hello_body fixed sid ciphers cmp exts) < 65532"
  shows "tls_sni U (hello_record (hello_body fixed sid ciphers cmp exts) @ rest) = plausible_host U name"
proof -
  let ?h = "hello_body fixed sid ciphers cmp exts"
  let ?body = "[1] @ be_enc 3 (length ?h) @ ?h"
  let ?buf = "hello_record ?h @ rest"
  have buf: "?buf = [0x16, 3, 1] @ be_enc 2 (4 + length ?h) @ ?body @ rest" by (simp add: hello_record_def)
  have 1: "be16 ?buf 3 = Some (4 + length ?h)"
    by (rule mid_at(3) [where a'' = "[0x16, 3, 1]" and b'' = "?body @ rest"]) (use assms(8) in \<open>simp_all add: buf\<close>)
  have 2: "get_range ?buf 5 (5 + length ?body) = Some ?body"
    by (rule mid_at(2) [where a' = "[0x16, 3, 1] @ be_enc 2 (4 + length ?h)" and b' = rest]) (simp_all add: buf)
  have 3: "be24 ?body 1 = Some (length ?h)"
    by (rule mid_at(4) [where u = "[1]" and v = ?h]) (use assms(8) in simp_all)
  have 4: "get_range ?body 4 (4 + length ?h) = Some ?h"
    by (rule mid_at(2) [where a' = "[1] @ be_enc 3 (length ?h)" and b' = "[]"]) simp_all
  let ?e = "be_enc 2 (length exts) @ exts"
  let ?c = "be_enc 2 (length ciphers) @ ciphers @ [word_of_nat (length cmp)] @ cmp @ ?e"
  have 5: "get_at ?h 34 = Some (word_of_nat (length sid))"
    by (rule mid_at(1) [where a = fixed and b = "sid @ ?c"]) (use assms(1) in \<open>simp_all add: hello_body_def\<close>)
  have 6: "be16 ?h (35 + length sid) = Some (length ciphers)"
    by (rule mid_at(3) [where a'' = "fixed @ [word_of_nat (length sid)] @ sid"
          and b'' = "ciphers @ [word_of_nat (length cmp)] @ cmp @ ?e"])
      (use assms(1,3) in \<open>simp_all add: hello_body_def\<close>)
  have 7: "get_at ?h (37 + length sid + length ciphers) = Some (word_of_nat (length cmp))"
    by (rule mid_at(1) [where a = "fixed @ [word_of_nat (length sid)] @ sid @ be_enc 2 (length ciphers) @ ciphers"
          and b = "cmp @ ?e"]) (use assms(1) in \<open>simp_all add: hello_body_def\<close>)
  let ?a = "fixed @ [word_of_nat (length sid)] @ sid @ be_enc 2 (length ciphers) @ ciphers @ [word_of_nat (length cmp)] @ cmp"
  have lens: "length exts < 65536" "40 + (length sid + (length ciphers + (length cmp + length exts))) = length ?h"
    using assms(1,8) by (simp_all add: hello_body_def)
  have 8: "be16 ?h (38 + length sid + length ciphers + length cmp) = Some (length exts)"
    by (rule mid_at(3) [where a'' = ?a and b'' = exts]) (use assms(1) lens(1) in \<open>simp_all add: hello_body_def\<close>)
  have "scan_extensions U ?h (min (length ?h) (length ?h)) (length (?a @ be_enc 2 (length exts))) = plausible_host U name"
    using assms(5-8) by (intro scan_extensions_written [where pre = pre]) (simp_all add: hello_body_def)
  moreover have "length (?a @ be_enc 2 (length exts)) = 40 + length sid + length ciphers + length cmp"
    using assms(1) by simp
  ultimately have 9: "scan_extensions U ?h (length ?h) (40 + length sid + length ciphers + length cmp) = plausible_host U name"
    by (simp only: min.idem)
  have small: "unat (word_of_nat (length sid) :: u8) = length sid" "unat (word_of_nat (length cmp) :: u8) = length cmp"
    using assms(2,4) by (simp_all add: unsigned_of_nat take_bit_eq_mod)
  have "get_at ?buf 0 = Some TLS_HANDSHAKE" "get_at ?body 0 = Some TLS_CLIENT_HELLO"
    by (simp_all add: buf TLS_HANDSHAKE_def TLS_CLIENT_HELLO_def)
  moreover have "min (5 + (4 + length ?h)) (length ?buf) = 5 + length ?body" "min (4 + length ?h) (length ?body) = 4 + length ?h"
      "min (40 + length sid + length ciphers + length cmp + length exts) (length ?h) = length ?h"
    using lens(2) by (simp_all add: buf)
  ultimately show ?thesis
    using 1 2 3 4 5 6 7 8 9 small lens assms(8)
    by (simp add: tls_sni_def checked_add_def add.assoc del: get_at_Some get_range_Some append.simps)
qed

subsection \<open>Requests\<close>

lemma split_two_line: "13 \<notin> set l \<Longrightarrow> split_two 13 10 (l @ 13 # 10 # s) = l # split_two 13 (10 :: nat) s"
proof (induction l)
  case (Cons x l)
  then show ?case by (cases l) simp_all
qed simp

lemma split_two_lines:
  "list_all (\<lambda>l. 13 \<notin> set l) ls \<Longrightarrow>
   split_two 13 10 (concat (map (\<lambda>l. l @ [13, 10]) ls) @ s) = ls @ split_two 13 (10 :: nat) s"
  by (induction ls) (simp_all add: split_two_line)

lemma lossy_ascii_append: "list_all (\<lambda>c. c < 128) a \<Longrightarrow> lossy (a @ b) = a @ lossy b"
  by (induction a) (simp_all add: utf8_ascii_Cons)

lemma from_utf8_lossy_append:
  "list_all (\<lambda>c. c < 128) a \<Longrightarrow> from_utf8_lossy (utf8_encode a @ bs) = a @ from_utf8_lossy bs"
  by (simp add: from_utf8_lossy_def utf8_encode_ascii lossy_ascii_append map_unat_of_nat comp_def)

definition other_header :: "str \<Rightarrow> bool" where
  "other_header l \<longleftrightarrow> l \<noteq> [] \<and> (case split_once 58 l of None \<Rightarrow> True
     | Some (name, _) \<Rightarrow> \<not> eq_ignore_ascii_case name (lit ''host''))"

lemma host_header_others: "list_all other_header hs \<Longrightarrow> host_header U (hs @ ls) = host_header U ls"
  by (induction hs) (auto simp: other_header_def split: option.splits)

definition port_suffix :: "str \<Rightarrow> bool" where
  "port_suffix p \<longleftrightarrow> p = [] \<or> (\<exists>ds. p = 58 # ds \<and> list_all is_digit ds)"

lemma without_port_suffix:
  assumes "58 \<notin> set name" "port_suffix p"
  shows "without_port (name @ p) = name"
proof (cases "p = []")
  case True
  then show ?thesis using assms(1) rsplit_once_None [of 58 name] by (simp add: without_port_def)
next
  case False
  then obtain ds where p: "p = 58 # ds" "list_all is_digit ds" using assms(2) by (auto simp: port_suffix_def)
  moreover have "58 \<notin> set ds" using p(2) by (auto simp: list_all_iff chr_defs)
  ultimately have "rsplit_once 58 (name @ p) = Some (name, ds)" by (simp add: rsplit_once_Some)
  with p(2) show ?thesis by (simp add: without_port_def)
qed

lemma host_port_chars:
  assumes "list_all host_char name" "port_suffix p"
  shows "list_all (\<lambda>c. c < 128 \<and> \<not> is_whitespace c) (name @ p)" "58 \<notin> set name"
proof -
  have dig: "is_digit c \<Longrightarrow> c < 128 \<and> \<not> is_whitespace c" for c by (simp add: chr_defs)
  have colon: "\<not> is_whitespace 58" by (simp add: chr_defs)
  show "list_all (\<lambda>c. c < 128 \<and> \<not> is_whitespace c) (name @ p)"
    using assms host_char_facts dig colon by (auto simp: list_all_iff port_suffix_def)
  have "\<not> host_char 58" by (simp add: host_char_def chr_defs)
  then show "58 \<notin> set name" using assms(1) by (auto simp: list_all_iff)
qed

lemma host_header_found:
  assumes "list_all host_char name" "name \<noteq> []" "port_suffix p"
  shows "host_header U ((lit ''Host: '' @ name @ p) # ls) = plausible_host U (utf8_encode name)"
proof -
  have "58 \<notin> set name" using assms(1,3) by (rule host_port_chars)
  moreover have "split_once 58 (lit ''Host: '' @ name @ p) = Some (lit ''Host'', 32 # name @ p)"
    by (simp add: split_once_Some)
  moreover have "list_all (\<lambda>c. \<not> is_whitespace c) (name @ p)"
    using host_port_chars(1) [OF assms(1,3)] by (simp only: list_all_iff) blast
  then have "trim (32 # name @ p) = name @ p"
    using trim_none [of "name @ p"] by (simp add: trim_def trim_start_def chr_defs)
  moreover have "eq_ignore_ascii_case (lit ''Host'') (lit ''host'')" by (simp add: eq_ignore_ascii_case_def chr_defs)
  ultimately show ?thesis using assms(3) by (simp add: without_port_suffix)
qed

lemma plausible_www: "plausible_host U (utf8_encode (lit ''www.test'')) = Some (lit ''www.test'')"
proof -
  have asc: "list_all (\<lambda>c. c < 128) (lit ''www.test'')" by simp
  have "trim (lit ''www.test'') = lit ''www.test''" by (rule trim_none) (simp add: chr_defs)
  moreover have "trim_end_matches 46 (lit ''www.test'') = lit ''www.test''" by (rule trim_end_matches_last) simp_all
  moreover have "to_lowercase U (lit ''www.test'') = lit ''www.test''"
    using to_lowercase_ascii [OF asc] by (simp add: chr_defs)
  moreover have "parse_ip (lit ''www.test'') = None" by (simp add: parse_ip_no_digit digit_value_def chr_defs)
  moreover have "from_utf8 (utf8_encode (lit ''www.test'')) = Some (lit ''www.test'')"
    using asc by (rule from_utf8_encode_ascii)
  moreover have "length (utf8_encode (lit ''www.test'')) = 8" "str_len (lit ''www.test'') = 8"
    using str_len_ascii [OF asc] by (simp_all add: str_len_def)
  moreover have "list_all (\<lambda>b. host_char (unat b)) (utf8_encode (lit ''www.test''))"
    by (simp add: utf8_encode_def utf8_char_def host_char_def chr_defs)
  ultimately show ?thesis by (simp add: plausible_host_def MAX_HOST_LEN_def del: lit_simps) simp
qed

subsection \<open>Properties\<close>

text \<open>
  Whatever bytes a client sends, a name that \<open>hostname\<close> returns is fit for the rules: between one
  and 253 characters, only lower-case letters, digits, hyphens, underscores and dots, with at least
  one dot and none at its end.
\<close>

lemma hostname_always_plausible:
  assumes "hostname U buf = Some n"
  shows "n \<noteq> [] \<and> length n \<le> 253 \<and> 46 \<in> set n \<and> last n \<noteq> 46 \<and> list_all (\<lambda>c. host_char c \<and> \<not> is_upper c) n"
proof -
  have "tls_sni U buf = Some n \<or> http_host U buf = Some n"
    using assms by (auto simp: hostname_def split: option.splits)
  then have "good_host n"
  proof
    assume "tls_sni U buf = Some n"
    then show ?thesis
      by (simp only: tls_sni_def bind_eq_Some_conv if_split_eq1 option.distinct)
        (auto split: if_splits simp del: get_at_Some get_range_Some checked_add_Some intro: scan_extensions_good)
  next
    assume "http_host U buf = Some n"
    then show ?thesis
      by (auto simp: http_host_def bind_eq_Some_conv split: list.splits if_splits intro: host_header_good)
  qed
  then show ?thesis by (simp add: good_host_def MAX_HOST_LEN_def)
qed



text \<open>
  The host of a plain HTTP request is found: in a request of at most \<open>PEEK_BUDGET\<close> bytes whose
  other headers are not \<open>Host\<close>, the name is read from the \<open>Host\<close> header with a port removed, and the
  body after it has no influence.
\<close>

lemma http_host_found:
  assumes "looks_like_http req" "list_all other_header hs" "list_all host_char name" "name \<noteq> []" "port_suffix p"
    "msg = concat (map (\<lambda>l. l @ [13, 10]) (req # hs @ [lit ''Host: '' @ name @ p]))"
    "list_all (\<lambda>l. 13 \<notin> set l \<and> list_all (\<lambda>c. c < 128) l) (req # hs)" "length msg \<le> PEEK_BUDGET"
  shows "http_host U (utf8_encode msg @ rest) = plausible_host U (utf8_encode name)"
proof -
  let ?ls = "req # hs @ [lit ''Host: '' @ name @ p]"
  have np: "list_all (\<lambda>c. c < 128 \<and> c \<noteq> 13) (name @ p)"
  proof -
    have "is_whitespace 13" by (simp add: is_whitespace_def)
    then show ?thesis using host_port_chars(1) [OF assms(3,5)] by (simp only: list_all_iff) blast
  qed
  have asc: "list_all (\<lambda>c. c < 128) msg" using assms(7) np by (auto simp: assms(6) list_all_iff)
  have cr: "list_all (\<lambda>l. 13 \<notin> set l) ?ls" using assms(7) np by (auto simp: list_all_iff)
  let ?cut = "take (min (length (utf8_encode msg @ rest)) PEEK_BUDGET - length msg) rest"
  have len: "length (utf8_encode msg) = length msg" using asc by (simp add: utf8_encode_ascii)
  have "take (min (length (utf8_encode msg @ rest)) PEEK_BUDGET) (utf8_encode msg @ rest) = utf8_encode msg @ ?cut"
    using assms(8) len by simp
  then have "from_utf8_lossy (take (min (length (utf8_encode msg @ rest)) PEEK_BUDGET) (utf8_encode msg @ rest))
      = msg @ from_utf8_lossy ?cut"
    using asc by (simp only: from_utf8_lossy_append)
  moreover have "split_two 13 10 (msg @ from_utf8_lossy ?cut) = ?ls @ split_two 13 10 (from_utf8_lossy ?cut)"
    unfolding assms(6) using cr by (rule split_two_lines)
  ultimately have "http_host U (utf8_encode msg @ rest)
      = host_header U (hs @ (lit ''Host: '' @ name @ p) # split_two 13 10 (from_utf8_lossy ?cut))"
    using assms(1) by (simp add: http_host_def get_range_def del: lit_simps)
  then show ?thesis by (simp only: host_header_others [OF assms(2)] host_header_found [OF assms(3-5)])
qed

end
