(* ===== verification/Proxy_Io.thy ===== *)
theory Proxy_Io
  imports Dns Routing Sniff "HOL-Library.State_Monad"
begin

text \<open>
  The effects of one proxied client connection (\<open>socks.rs\<close>). A handler is a program in the state
  monad over the record \<open>conn\<close>: the bytes the client has sent and that are not read yet, the
  events the handler has caused so far, and the health flag of the gateway, which all connections
  share. What sockets, the user-space stack, the resolver and the clock answer is a function of the
  events so far, in the record \<open>world\<close>; the settings the code reads once are there too.
\<close>

datatype event =
    WriteClient bytes
  | ReadClient
  | ShutdownClient
  | OpenTcp sock_addr
  | GatewaySend bytes
  | TunnelSend bytes
  | TunnelClose
  | OpenUdp
  | TunnelLookup str
  | TunnelUdp sock_addr bytes
  | CloseUdp
  | DirectConnect str
  | DirectSend bytes
  | DirectRelay
  | DirectLookup str u16
  | DirectUdp sock_addr bytes
  | BindUdp sock_addr
  | RelayReply sock_addr bytes

record conn =
  conn_input :: bytes
  conn_events :: "event list"
  gateway_healthy :: bool

text \<open>
  An event is an attempt: a write that fails is an event too. \<open>GatewaySend\<close> is a send on a connection
  to the gateway that has not been answered yet, \<open>TunnelSend\<close> one on an open connection. Handles that
  go out of scope are not events here: their destructors belong to the stack (\<open>netstack.rs\<close>).
\<close>

text \<open>
  \<open>SomeReady n\<close>: the client's socket is readable with up to \<open>n\<close> bytes buffered (at least one unless
  the client has finished sending); \<open>ReadStalls\<close>: nothing before the time limit (in milliseconds).
\<close>

datatype readiness = SomeReady nat | ReadFails | ReadStalls

text \<open>
  What reaches the relay loop of an open connection, in the order it is served: bytes of the client, a
  failed read, a chunk from the other side (the stack, or the server of a direct connection). The list
  ends when the other side does.
\<close>

datatype relay_input = ClientReady nat | ClientFails | StackChunk bytes

datatype udp_input =
    ClientDatagram sock_addr bytes
  | RelayFails
  | StackDatagram sock_addr bytes
  | StackGone
  | DirectDatagram sock_addr bytes
  | DirectFails
  | ControlData
  | ControlEnds

type_synonym history = "event list"

record ('re, 'net) world =
  w_unicode :: unicode
  w_lib :: "('re, 'net) route_lib"
  w_rules :: "('re, 'net) rule_set"
  w_env :: "str \<Rightarrow> str option"
  w_gateway :: "sock_addr option"
  w_client_write :: "history \<Rightarrow> io_error + unit"
  w_client_ready :: "history \<Rightarrow> nat \<Rightarrow> readiness"
  w_input_end :: io_error
  w_open_tcp :: "history \<Rightarrow> unit result"
  w_gateway_open :: "history \<Rightarrow> unit result option"
  w_gateway_recv :: "history \<Rightarrow> chan_event list"
  w_tunnel_send :: "history \<Rightarrow> unit result"
  w_open_udp :: "history \<Rightarrow> unit result"
  w_dns :: "history \<Rightarrow> sock_addr \<Rightarrow> u16 \<times> (bytes \<Rightarrow> unit result) \<times> chan_event list"
  w_direct_connect :: "history \<Rightarrow> (io_error + unit) option"
  w_direct_write :: "history \<Rightarrow> io_error + unit"
  w_relay :: "history \<Rightarrow> relay_input list"
  w_direct_relay :: "history \<Rightarrow> relay_input list"
  w_peeks :: "history \<Rightarrow> readiness list"
  w_http_connect :: "history \<Rightarrow> io_error + unit"
  w_peer_addr :: "io_error + sock_addr"
  w_bind_udp :: "history \<Rightarrow> io_error + sock_addr"
  w_lookup_host :: "history \<Rightarrow> io_error + sock_addr list"
  w_udp_inputs :: "history \<Rightarrow> udp_input list"

type_synonym 'a handler = "(conn, 'a) state"

definition emit :: "event \<Rightarrow> unit handler" where
  "emit e = State_Monad.update (conn_events_update (\<lambda>es. es @ [e]))"

definition ask :: "(history \<Rightarrow> 'a) \<Rightarrow> 'a handler" where
  "ask f = do { s \<leftarrow> State_Monad.get; State_Monad.return (f (conn_events s)) }"

text \<open>An operation that has an effect and an answer: the answer may depend on the effect itself.\<close>

definition perform :: "event \<Rightarrow> (history \<Rightarrow> 'a) \<Rightarrow> 'a handler" where
  "perform e f = do { emit e; ask f }"

text \<open>The operator \<open>?\<close> in a handler that returns a \<open>Result\<close>.\<close>

definition try_then :: "('e + 'a) handler \<Rightarrow> ('a \<Rightarrow> ('e + 'b) handler) \<Rightarrow> ('e + 'b) handler" where
  "try_then m k = do { r \<leftarrow> m; case r of Inl e \<Rightarrow> State_Monad.return (Inl e) | Inr x \<Rightarrow> k x }"

text \<open>\<open>write_all\<close> on the client's socket, and its I/O error as the error of the crate.\<close>

definition write_client :: "('re, 'net) world \<Rightarrow> bytes \<Rightarrow> unit result handler" where
  "write_client W bs = do {
     r \<leftarrow> perform (WriteClient bs) (w_client_write W);
     State_Monad.return (map_sum Io (\<lambda>_. ()) r) }"

text \<open>
  \<open>read_exact\<close>: the client's bytes end with an end of stream or a connection error, \<open>w_input_end\<close>.
  \<open>read\<close> returns what is buffered, at most \<open>limit\<close> bytes, and nothing only at the end of stream.
\<close>

definition read_exact :: "('re, 'net) world \<Rightarrow> nat \<Rightarrow> bytes result handler" where
  "read_exact W n = do {
     s \<leftarrow> State_Monad.get;
     if length (conn_input s) < n
     then do { State_Monad.set (s\<lparr>conn_input := []\<rparr>); State_Monad.return (Inl (Io (w_input_end W))) }
     else do { State_Monad.set (s\<lparr>conn_input := drop n (conn_input s)\<rparr>);
               State_Monad.return (Inr (take n (conn_input s))) } }"

definition read_some :: "nat \<Rightarrow> nat \<Rightarrow> bytes handler" where
  "read_some limit n = do {
     s \<leftarrow> State_Monad.get;
     (let k = min limit (max 1 n) in do {
        State_Monad.set (s\<lparr>conn_input := drop k (conn_input s)\<rparr>);
        State_Monad.return (take k (conn_input s)) }) }"

subsection \<open>Running a handler\<close>

lemma drop_min_length [simp]: "drop (min (length xs) n) xs = drop n xs"
  by (simp add: min_def)

named_theorems run_simps \<open>equations for running handlers\<close>

lemma run_emit [run_simps]: "run_state (emit e) s = ((), s\<lparr>conn_events := conn_events s @ [e]\<rparr>)"
  by (simp add: emit_def State_Monad.update_def)

lemma run_ask [run_simps]: "run_state (ask f) s = (f (conn_events s), s)"
  by (simp add: ask_def)

lemma run_perform [run_simps]:
  "run_state (perform e f) s = (f (conn_events s @ [e]), s\<lparr>conn_events := conn_events s @ [e]\<rparr>)"
  by (simp add: perform_def run_emit run_ask)

lemma run_write_client [run_simps]:
  "run_state (write_client W bs) s =
     (map_sum Io (\<lambda>_. ()) (w_client_write W (conn_events s @ [WriteClient bs])),
      s\<lparr>conn_events := conn_events s @ [WriteClient bs]\<rparr>)"
  by (simp add: write_client_def run_perform)

lemma run_try [run_simps]:
  "run_state (try_then m k) s =
     (case run_state m s of (Inl e, t) \<Rightarrow> (Inl e, t) | (Inr x, t) \<Rightarrow> run_state (k x) t)"
  by (auto simp: try_then_def split: prod.splits sum.splits)

lemma run_read_exact [run_simps]:
  "run_state (read_exact W n) s =
     (if length (conn_input s) < n then (Inl (Io (w_input_end W)), s\<lparr>conn_input := []\<rparr>)
      else (Inr (take n (conn_input s)), s\<lparr>conn_input := drop n (conn_input s)\<rparr>))"
  by (simp add: read_exact_def)

lemma run_read_some [run_simps]:
  "run_state (read_some limit n) s =
     (take (min limit (max 1 n)) (conn_input s), s\<lparr>conn_input := drop (min limit (max 1 n)) (conn_input s)\<rparr>)"
  by (simp add: read_some_def Let_def)

subsection \<open>Contracts of handlers\<close>

text \<open>
  A contract relates the state before and after a handler, whatever the answers of the world. A
  contract that is reflexive and transitive is kept by a handler when its parts keep it: the rules
  of the locale follow the structure of a handler.
\<close>

locale contract =
  fixes R :: "conn \<Rightarrow> conn \<Rightarrow> bool"
  assumes refl: "R s s" and trans: "R s t \<Longrightarrow> R t u \<Longrightarrow> R s u"
begin

lemma keep_pure: "state_io_rel R (State_Monad.return x)" "state_io_rel R State_Monad.get" "state_io_rel R (ask f)"
  by (simp_all add: state_io_rel_def run_simps refl)

lemma keep_bind:
  "state_io_rel R m \<Longrightarrow> (\<And>x. state_io_rel R (k x)) \<Longrightarrow> state_io_rel R (State_Monad.bind m k)"
  unfolding state_io_rel_def by (auto split: prod.split intro: trans)

lemma keep_if: "(b \<Longrightarrow> state_io_rel R x) \<Longrightarrow> (\<not> b \<Longrightarrow> state_io_rel R y) \<Longrightarrow> state_io_rel R (if b then x else y)"
  by simp

lemma keep_case_sum:
  "(\<And>e. r = Inl e \<Longrightarrow> state_io_rel R (f e)) \<Longrightarrow> (\<And>x. r = Inr x \<Longrightarrow> state_io_rel R (g x))
    \<Longrightarrow> state_io_rel R (case_sum f g r)"
  by (cases r) simp_all

lemma keep_case_option:
  "(r = None \<Longrightarrow> state_io_rel R f) \<Longrightarrow> (\<And>x. r = Some x \<Longrightarrow> state_io_rel R (g x)) \<Longrightarrow> state_io_rel R (case_option f g r)"
  by (cases r) simp_all

lemma keep_try: "state_io_rel R m \<Longrightarrow> (\<And>x. state_io_rel R (k x)) \<Longrightarrow> state_io_rel R (try_then m k)"
  unfolding try_then_def by (auto intro!: keep_bind keep_case_sum keep_pure)

lemmas keep = keep_pure keep_bind keep_if keep_case_sum keep_case_option keep_try

lemma keep_effects:
  assumes "\<And>s. R s (s\<lparr>conn_events := conn_events s @ [e]\<rparr>)"
  shows "state_io_rel R (emit e)" "state_io_rel R (perform e f)" "e = WriteClient bs \<Longrightarrow> state_io_rel R (write_client W bs)"
  using assms by (auto simp: state_io_rel_def run_simps)

lemma keep_reads:
  assumes "\<And>s k. R s (s\<lparr>conn_input := drop k (conn_input s)\<rparr>)"
  shows "state_io_rel R (read_exact W n)" "state_io_rel R (read_some limit n)"
proof -
  have "R s (s\<lparr>conn_input := []\<rparr>)" for s using assms [of s "length (conn_input s)"] by simp
  with assms show "state_io_rel R (read_exact W n)" "state_io_rel R (read_some limit n)"
    by (auto simp: state_io_rel_def run_simps)
qed

end

text \<open>
  \<open>emits P m\<close>: every event \<open>m\<close> adds satisfies \<open>P\<close>, and none is taken back.
\<close>

definition emitted :: "(event \<Rightarrow> bool) \<Rightarrow> conn \<Rightarrow> conn \<Rightarrow> bool" where
  "emitted P s t \<longleftrightarrow> (\<exists>es. conn_events t = conn_events s @ es \<and> list_all P es)"

abbreviation emits :: "(event \<Rightarrow> bool) \<Rightarrow> 'a handler \<Rightarrow> bool" where
  "emits P \<equiv> state_io_rel (emitted P)"

lemma emits_def: "emits P m \<longleftrightarrow> (\<forall>s. \<exists>es. conn_events (snd (run_state m s)) = conn_events s @ es \<and> list_all P es)"
  by (simp add: state_io_rel_def emitted_def)

interpretation em: contract "emitted P" for P
proof
  show "emitted P s s" for s by (simp add: emitted_def)
  show "emitted P s u" if "emitted P s t" "emitted P t u" for s t u
    using that unfolding emitted_def by (metis append.assoc list_all_append)
qed

named_theorems emits_rules \<open>introduction rules: the events of a handler\<close>

lemmas [emits_rules] = em.keep

lemma emits_effects [emits_rules]:
  "P e \<Longrightarrow> emits P (emit e)" "P e \<Longrightarrow> emits P (perform e f)" "P (WriteClient bs) \<Longrightarrow> emits P (write_client W bs)"
  "emits P (read_exact W n)" "emits P (read_some limit n)"
  by (auto intro!: em.keep_effects em.keep_reads simp: emitted_def)

lemma emits_weaken: "emits P m \<Longrightarrow> (\<And>e. P e \<Longrightarrow> Q e) \<Longrightarrow> emits Q m"
  unfolding emits_def by (meson list.pred_mono_strong)

subsection \<open>Servers that respect the routing decision\<close>

definition tunnel_event :: "event \<Rightarrow> bool" where
  "tunnel_event e =
     (case e of OpenTcp _ \<Rightarrow> True | GatewaySend _ \<Rightarrow> True | TunnelSend _ \<Rightarrow> True | TunnelClose \<Rightarrow> True | OpenUdp \<Rightarrow> True
      | TunnelLookup _ \<Rightarrow> True | TunnelUdp _ _ \<Rightarrow> True | CloseUdp \<Rightarrow> True | _ \<Rightarrow> False)"

definition direct_event :: "event \<Rightarrow> bool" where
  "direct_event e =
     (case e of DirectConnect _ \<Rightarrow> True | DirectSend _ \<Rightarrow> True | DirectRelay \<Rightarrow> True | DirectLookup _ _ \<Rightarrow> True
      | DirectUdp _ _ \<Rightarrow> True | _ \<Rightarrow> False)"

definition gateway_event :: "event \<Rightarrow> bool" where
  "gateway_event e = (case e of GatewaySend _ \<Rightarrow> True | _ \<Rightarrow> False)"

text \<open>
  What a connection may do under a verdict: a blocked one, and one that ends before it is routed,
  talks to its client only; a direct one keeps off the tunnel; a proxied one never contacts the
  outside except through the tunnel.
\<close>

definition honours :: "action option \<Rightarrow> event list \<Rightarrow> bool" where
  "honours v es =
     (case v of
        Some Direct \<Rightarrow> list_all (\<lambda>e. \<not> tunnel_event e) es
      | Some Proxy \<Rightarrow> list_all (\<lambda>e. \<not> direct_event e) es
      | _ \<Rightarrow> list_all (\<lambda>e. \<not> tunnel_event e \<and> \<not> direct_event e) es)"

definition new_events :: "'a handler \<Rightarrow> conn \<Rightarrow> event list" where
  "new_events m s = drop (length (conn_events s)) (conn_events (snd (run_state m s)))"

text \<open>
  Connections served one after the other, each with the bytes its client sends; the verdict and the
  events of each. The gateway's health is carried from one to the next.
\<close>

primrec session ::
  "('req \<Rightarrow> 'a handler) \<Rightarrow> ('req \<Rightarrow> conn \<Rightarrow> action option) \<Rightarrow> ('req \<times> bytes) list \<Rightarrow> conn
    \<Rightarrow> (action option \<times> event list) list" where
  "session handle verdict [] s = []"
| "session handle verdict (r # rs) s =
     (let s0 = s\<lparr>conn_input := snd r\<rparr> in
      (verdict (fst r) s0, new_events (handle (fst r)) s0)
      # session handle verdict rs (snd (run_state (handle (fst r)) s0)))"

lemma list_all_new_events: "emits P m \<Longrightarrow> list_all P (new_events m s)"
  unfolding emits_def new_events_def by (metis append_eq_conv_conj)

lemma event_class_simps [simp]:
  "\<not> tunnel_event (WriteClient b)" "\<not> direct_event (WriteClient b)" "\<not> gateway_event (WriteClient b)"
  "\<not> tunnel_event ReadClient" "\<not> direct_event ReadClient" "\<not> gateway_event ReadClient"
  "\<not> tunnel_event ShutdownClient" "\<not> direct_event ShutdownClient" "\<not> gateway_event ShutdownClient"
  "tunnel_event (OpenTcp a)" "\<not> direct_event (OpenTcp a)" "\<not> gateway_event (OpenTcp a)"
  "tunnel_event (GatewaySend b)" "\<not> direct_event (GatewaySend b)" "gateway_event (GatewaySend b)"
  "tunnel_event (TunnelSend b)" "\<not> direct_event (TunnelSend b)" "\<not> gateway_event (TunnelSend b)"
  "tunnel_event TunnelClose" "\<not> direct_event TunnelClose" "\<not> gateway_event TunnelClose"
  "tunnel_event OpenUdp" "\<not> direct_event OpenUdp" "\<not> gateway_event OpenUdp"
  "tunnel_event (TunnelLookup n)" "\<not> direct_event (TunnelLookup n)" "\<not> gateway_event (TunnelLookup n)"
  "tunnel_event (TunnelUdp a b)" "\<not> direct_event (TunnelUdp a b)" "\<not> gateway_event (TunnelUdp a b)"
  "tunnel_event CloseUdp" "\<not> direct_event CloseUdp" "\<not> gateway_event CloseUdp"
  "\<not> tunnel_event (DirectConnect n)" "direct_event (DirectConnect n)" "\<not> gateway_event (DirectConnect n)"
  "\<not> tunnel_event (DirectSend b)" "direct_event (DirectSend b)" "\<not> gateway_event (DirectSend b)"
  "\<not> tunnel_event DirectRelay" "direct_event DirectRelay" "\<not> gateway_event DirectRelay"
  "\<not> tunnel_event (DirectLookup n p)" "direct_event (DirectLookup n p)" "\<not> gateway_event (DirectLookup n p)"
  "\<not> tunnel_event (DirectUdp a b)" "direct_event (DirectUdp a b)" "\<not> gateway_event (DirectUdp a b)"
  "\<not> tunnel_event (RelayReply a b)" "\<not> direct_event (RelayReply a b)" "\<not> gateway_event (RelayReply a b)"
  "\<not> tunnel_event (BindUdp a)" "\<not> direct_event (BindUdp a)" "\<not> gateway_event (BindUdp a)"
  by (simp_all only: tunnel_event_def direct_event_def gateway_event_def event.case not_False_eq_True not_True_eq_False)

text \<open>
  \<open>quiet m\<close>: when the gateway is retired, a run of \<open>m\<close> leaves it retired and sends it nothing. The
  rules follow the structure of a handler.
\<close>

definition left_alone :: "conn \<Rightarrow> conn \<Rightarrow> bool" where
  "left_alone s t \<longleftrightarrow> (gateway_healthy s \<or> \<not> gateway_healthy t \<and> emitted (\<lambda>e. \<not> gateway_event e) s t)"

abbreviation quiet :: "'a handler \<Rightarrow> bool" where
  "quiet \<equiv> state_io_rel left_alone"

interpretation qu: contract left_alone
proof
  show "left_alone s s" for s by (simp add: left_alone_def em.refl)
  show "left_alone s u" if "left_alone s t" "left_alone t u" for s t u
    using that em.trans unfolding left_alone_def by blast
qed

named_theorems quiet_rules \<open>introduction rules: a retired gateway is left alone\<close>

lemmas [quiet_rules] = qu.keep

lemma quiet_effects [quiet_rules]:
  "\<not> gateway_event e \<Longrightarrow> quiet (emit e)" "\<not> gateway_event e \<Longrightarrow> quiet (perform e f)" "quiet (write_client W bs)"
  "quiet (read_exact W n)" "quiet (read_some limit n)"
  by (auto intro!: qu.keep_effects qu.keep_reads simp: left_alone_def emitted_def)

lemma emits_events: "emits P m \<Longrightarrow> conn_events (snd (run_state m s)) = conn_events s @ new_events m s"
  unfolding emits_def new_events_def by (metis append_eq_conv_conj)

lemma honours_simps [simp]:
  "honours v (es @ fs) \<longleftrightarrow> honours v es \<and> honours v fs"
  "honours v []"
  "honours v (WriteClient b # es) \<longleftrightarrow> honours v es"
  "honours v (ReadClient # es) \<longleftrightarrow> honours v es"
  by (auto simp: honours_def split: option.splits action.splits)

lemma quiet_new_events:
  assumes "quiet m" "\<not> gateway_healthy s"
  shows "\<not> gateway_healthy (snd (run_state m s)) \<and> list_all (\<lambda>e. \<not> gateway_event e) (new_events m s)"
  using assms unfolding state_io_rel_def left_alone_def emitted_def new_events_def by (metis append_eq_conv_conj)

locale routed_server =
  fixes handle :: "'req \<Rightarrow> 'a handler" and verdict :: "'req \<Rightarrow> conn \<Rightarrow> action option"
  assumes honoured: "honours (verdict r s) (new_events (handle r) s)"
    and retired: "quiet (handle r)"
begin

lemma session_honours: "list_all (\<lambda>(v, es). honours v es) (session handle verdict rs s)"
  by (induction rs arbitrary: s) (simp_all add: Let_def honoured)

lemma session_without_gateway:
  "\<not> gateway_healthy s \<Longrightarrow>
   list_all (\<lambda>(v, es). list_all (\<lambda>e. \<not> gateway_event e) es) (session handle verdict rs s)"
proof (induction rs arbitrary: s)
  case (Cons r rs)
  let ?s0 = "s\<lparr>conn_input := snd r\<rparr>"
  have "\<not> gateway_healthy (snd (run_state (handle (fst r)) ?s0))
      \<and> list_all (\<lambda>e. \<not> gateway_event e) (new_events (handle (fst r)) ?s0)"
    using Cons.prems by (intro quiet_new_events retired) simp
  with Cons.IH show ?case by (simp add: Let_def)
qed simp

end

subsection \<open>Bytes in both directions\<close>

text \<open>What was sent upstream for the client, and what was written to the client.\<close>

definition uploaded :: "event list \<Rightarrow> bytes" where
  "uploaded es = concat (map (\<lambda>e. case e of TunnelSend b \<Rightarrow> b | DirectSend b \<Rightarrow> b | _ \<Rightarrow> []) es)"

text \<open>Whether bytes were relayed: a direct relay starts with an event of its own, the one through the tunnel ends with one.\<close>

definition relayed :: "event list \<Rightarrow> bool" where
  "relayed es \<longleftrightarrow> DirectRelay \<in> set es \<or> ShutdownClient \<in> set es"

definition client_written :: "event list \<Rightarrow> bytes" where
  "client_written es = concat (map (\<lambda>e. case e of WriteClient b \<Rightarrow> b | _ \<Rightarrow> []) es)"

text \<open>\<open>idle m\<close>: \<open>m\<close> reads nothing from the client, uploads and relays nothing.\<close>

definition untouched :: "conn \<Rightarrow> conn \<Rightarrow> bool" where
  "untouched s t \<longleftrightarrow> conn_input t = conn_input s \<and> (\<exists>es. conn_events t = conn_events s @ es \<and> uploaded es = [] \<and> \<not> relayed es)"

abbreviation idle :: "'a handler \<Rightarrow> bool" where
  "idle \<equiv> state_io_rel untouched"

lemma stream_append [simp]:
  "uploaded (es @ fs) = uploaded es @ uploaded fs" "client_written (es @ fs) = client_written es @ client_written fs"
  by (simp_all add: uploaded_def client_written_def)

lemma stream_simps [simp]:
  "uploaded [] = []" "client_written [] = []"
  "uploaded (e # es) = (case e of TunnelSend b \<Rightarrow> b | DirectSend b \<Rightarrow> b | _ \<Rightarrow> []) @ uploaded es"
  "client_written (e # es) = (case e of WriteClient b \<Rightarrow> b | _ \<Rightarrow> []) @ client_written es"
  by (simp_all add: uploaded_def client_written_def)

lemma relayed_simps [simp]:
  "\<not> relayed []" "relayed (es @ fs) \<longleftrightarrow> relayed es \<or> relayed fs"
  "relayed (e # es) \<longleftrightarrow> e = DirectRelay \<or> e = ShutdownClient \<or> relayed es"
  by (auto simp: relayed_def)

interpretation id: contract untouched
proof
  show "untouched s s" for s by (simp add: untouched_def)
  show "untouched s u" if "untouched s t" "untouched t u" for s t u
    using that unfolding untouched_def by (metis append.assoc append_Nil stream_append(1) relayed_simps(2))
qed

named_theorems idle_rules \<open>introduction rules: nothing is read or uploaded\<close>

lemmas [idle_rules] = id.keep

lemma idle_effects [idle_rules]:
  "uploaded [e] = [] \<Longrightarrow> \<not> relayed [e] \<Longrightarrow> idle (emit e)" "uploaded [e] = [] \<Longrightarrow> \<not> relayed [e] \<Longrightarrow> idle (perform e f)"
  "idle (write_client W bs)"
  by (auto intro!: id.keep_effects simp: untouched_def)

end
