(* ===== verification/Socks_Connect.thy ===== *)
theory Socks_Connect
  imports Proxy_Io
begin

text \<open>
  The CONNECT side of the SOCKS server and what the HTTP proxy shares with it (\<open>socks.rs\<close>): targets,
  replies, name resolution through the tunnel, the gateway, the routing decision with a sniffed
  name, the relay loop and the two ways to serve a connection, through the tunnel and directly.
\<close>

subsection \<open>Targets and replies\<close>

definition VER :: u8 where "VER = 0x05"
definition CMD_CONNECT :: u8 where "CMD_CONNECT = 0x01"
definition CMD_UDP_ASSOCIATE :: u8 where "CMD_UDP_ASSOCIATE = 0x03"
definition ATYP_V4 :: u8 where "ATYP_V4 = 0x01"
definition ATYP_DOMAIN :: u8 where "ATYP_DOMAIN = 0x03"
definition ATYP_V6 :: u8 where "ATYP_V6 = 0x04"
definition REP_OK :: u8 where "REP_OK = 0x00"
definition REP_GENERAL :: u8 where "REP_GENERAL = 0x01"
definition REP_NOT_ALLOWED :: u8 where "REP_NOT_ALLOWED = 0x02"
definition REP_NOT_SUPPORTED :: u8 where "REP_NOT_SUPPORTED = 0x07"

lemmas socks_consts = VER_def CMD_CONNECT_def CMD_UDP_ASSOCIATE_def ATYP_V4_def ATYP_DOMAIN_def ATYP_V6_def
  REP_OK_def REP_GENERAL_def REP_NOT_ALLOWED_def REP_NOT_SUPPORTED_def

datatype target = TargetIp ip_addr | TargetDomain str

definition show_target :: "target \<Rightarrow> str" where
  "show_target t = (case t of TargetIp ip \<Rightarrow> show_ip ip | TargetDomain name \<Rightarrow> name)"

definition host_of :: "target \<Rightarrow> host" where
  "host_of t = (case t of TargetDomain name \<Rightarrow> Domain name | TargetIp ip \<Rightarrow> Ip ip)"

definition addr_bytes :: "sock_addr \<Rightarrow> bytes" where
  "addr_bytes a =
     (case sa_ip a of V4 v4 \<Rightarrow> ATYP_V4 # octets4 v4 | V6 v6 \<Rightarrow> ATYP_V6 # octets6 v6) @ to_be16 (sa_port a)"

definition reply :: "('re, 'net) world \<Rightarrow> u8 \<Rightarrow> unit result handler" where
  "reply W code = write_client W [VER, code, 0x00, ATYP_V4, 0, 0, 0, 0, 0, 0]"

definition reply_bound :: "('re, 'net) world \<Rightarrow> sock_addr \<Rightarrow> unit result handler" where
  "reply_bound W bound = write_client W ([VER, REP_OK, 0x00] @ addr_bytes bound)"

text \<open>The address \<open>0.0.0.0:0\<close> every accepted CONNECT is answered with.\<close>

definition any_addr :: sock_addr where
  "any_addr = sock_addr_new (V4 0) 0"

subsection \<open>Resolution\<close>

text \<open>
  The lookup of a name through the tunnel. Each resolver is given the random id, the outcome of the
  send and the datagrams of its turn; the turn ends at its deadline. \<open>dns_lookup_answers\<close> below
  shows that the last case does not arise.
\<close>

definition dns_lookup :: "('re, 'net) world \<Rightarrow> str \<Rightarrow> history \<Rightarrow> ip_addr result" where
  "dns_lookup W name h =
     (case out_bind (resolver_addresses (w_env W (lit ''AETHER_DNS''))) (\<lambda>servers.
             dns_exchange name
               (map (\<lambda>a. let (qid, sent, evs) = w_dns W h a in (a, qid, sent, evs @ [ChanTimeout])) servers)) of
        Ret (Some r) \<Rightarrow> r
      | _ \<Rightarrow> Inl Cancelled)"

definition dns_resolve :: "('re, 'net) world \<Rightarrow> str \<Rightarrow> ip_addr result handler" where
  "dns_resolve W name =
     try_then (perform OpenUdp (w_open_udp W)) (\<lambda>_. do {
       outcome \<leftarrow> perform (TunnelLookup name) (dns_lookup W name);
       emit CloseUdp;
       State_Monad.return outcome })"

definition resolve :: "('re, 'net) world \<Rightarrow> target \<Rightarrow> ip_addr result handler" where
  "resolve W t =
     (case t of
        TargetIp ip \<Rightarrow> State_Monad.return (Inr ip)
      | TargetDomain name \<Rightarrow>
          (case parse_ip name of
             Some ip \<Rightarrow> State_Monad.return (Inr ip)
           | None \<Rightarrow> dns_resolve W name))"

subsection \<open>The gateway\<close>

definition set_gateway_proxy :: "sock_addr option \<Rightarrow> str \<Rightarrow> sock_addr option" where
  "set_gateway_proxy cur address =
     (let trimmed = trim address in
      if trimmed = [] then cur
      else case parse_sock_addr trimmed of
             Some parsed \<Rightarrow> (case cur of None \<Rightarrow> Some parsed | Some first \<Rightarrow> Some first)
           | None \<Rightarrow> cur)"

definition gateway_proxy :: "('re, 'net) world \<Rightarrow> sock_addr option handler" where
  "gateway_proxy W = do {
     s \<leftarrow> State_Monad.get;
     State_Monad.return (if \<not> gateway_healthy s then None else w_gateway W) }"

definition retire_gateway :: "unit handler" where
  "retire_gateway = State_Monad.update (gateway_healthy_update (\<lambda>_. False))"

definition should_use_gateway :: "u16 \<Rightarrow> bool" where
  "should_use_gateway port \<longleftrightarrow> port = 80 \<or> port = 443"

definition UA_REGISTER :: str where
  "UA_REGISTER = lit ''WARP for Android''"

abbreviation crlf :: str where
  "crlf \<equiv> [13, 10]"

definition build_proxy_connect :: "str \<Rightarrow> u16 \<Rightarrow> bytes" where
  "build_proxy_connect t port =
     (let authority =
            (if 58 \<in> set t \<and> \<not> starts_with t [91] then lit ''['' @ t @ lit '']:'' @ show_nat (unat port)
             else t @ lit '':'' @ show_nat (unat port))
      in utf8_encode (lit ''CONNECT '' @ authority @ lit '' HTTP/1.1'' @ crlf @ lit ''Host: '' @ authority @ crlf
           @ lit ''User-Agent: '' @ UA_REGISTER @ crlf @ crlf))"

definition proxy_connect_succeeded :: "bytes \<Rightarrow> bool option" where
  "proxy_connect_succeeded head = do {
     let text = from_utf8_lossy head;
     line_end \<leftarrow> find_sub crlf text;
     word \<leftarrow> get_at (split_whitespace (take line_end text)) 1;
     status \<leftarrow> parse_u16 word;
     Some (200 \<le> status \<and> status < 300) }"

definition GATEWAY_HEAD_LIMIT :: nat where "GATEWAY_HEAD_LIMIT = 8192"

definition find_head_end :: "bytes \<Rightarrow> nat option" where
  "find_head_end buffer = map_option (\<lambda>at. at + 4) (find_sub [13, 10, 13, 10] buffer)"

text \<open>
  The receive loop of \<open>open_through_gateway\<close>: every receive has its own time limit, so the list of
  what arrives ends in a timeout. The value is what the gateway sent after its response head.
\<close>

fun gateway_head :: "sock_addr \<Rightarrow> str \<Rightarrow> u16 \<Rightarrow> bytes \<Rightarrow> chan_event list \<Rightarrow> bytes result handler" where
  "gateway_head proxy authority port head (ChanData chunk # evs) =
     (let head = head @ chunk in
      case find_head_end head of
        Some at \<Rightarrow>
          (case proxy_connect_succeeded head of
             None \<Rightarrow> State_Monad.return (Inl (Other
               (lit ''gateway '' @ show_sock_addr proxy @ lit '' sent a malformed response'')))
           | Some accepted \<Rightarrow>
               if \<not> accepted then
                 (let status = trim (case lines (from_utf8_lossy (take at head)) of [] \<Rightarrow> lit ''no status'' | l # _ \<Rightarrow> l)
                  in do {
                    emit TunnelClose;
                    State_Monad.return (Inl (Other (lit ''gateway refused '' @ authority @ lit '':''
                      @ show_nat (unat port) @ lit '' ('' @ status @ lit '')''))) })
               else State_Monad.return (Inr (drop at head)))
      | None \<Rightarrow>
          if GATEWAY_HEAD_LIMIT < length head then do {
            emit TunnelClose;
            State_Monad.return (Inl (Other
              (lit ''gateway '' @ show_sock_addr proxy @ lit '' sent an oversized response head''))) }
          else gateway_head proxy authority port head evs)"
| "gateway_head proxy authority port head (ChanClosed # evs) =
     State_Monad.return (Inl (Other (lit ''gateway '' @ show_sock_addr proxy @ lit '' closed the connection'')))"
| "gateway_head proxy authority port head _ =
     State_Monad.return (Inl (Other (lit ''gateway '' @ show_sock_addr proxy @ lit '' did not answer in time'')))"

definition open_through_gateway ::
  "('re, 'net) world \<Rightarrow> sock_addr \<Rightarrow> str \<Rightarrow> u16 \<Rightarrow> bytes result handler" where
  "open_through_gateway W proxy authority port = do {
     opened \<leftarrow> perform (OpenTcp proxy) (w_gateway_open W);
     case opened of
       None \<Rightarrow> State_Monad.return (Inl (Other
         (lit ''gateway '' @ show_sock_addr proxy @ lit '' did not accept a connection'')))
     | Some r \<Rightarrow> try_then (State_Monad.return r) (\<lambda>_.
         try_then (perform (GatewaySend (build_proxy_connect authority port)) (w_tunnel_send W)) (\<lambda>_. do {
           evs \<leftarrow> ask (w_gateway_recv W);
           gateway_head proxy authority port [] evs })) }"

subsection \<open>Routing\<close>

definition decide_route ::
  "unicode \<Rightarrow> ('re, 'net) route_lib \<Rightarrow> ('re, 'net) rule_set \<Rightarrow> target \<Rightarrow> str option \<Rightarrow> u16 \<Rightarrow> action" where
  "decide_route U L rs t sniffed port =
     (case sniffed of
        Some name \<Rightarrow>
          (case decide U L rs (Domain name) port of
             Proxy \<Rightarrow> decide U L rs (host_of t) port
           | decided \<Rightarrow> decided)
      | None \<Rightarrow> decide U L rs (host_of t) port)"

definition sniff_enabled :: "(str \<Rightarrow> str option) \<Rightarrow> bool" where
  "sniff_enabled env \<longleftrightarrow>
     (case env (lit ''AETHER_ROUTE_SNIFF'') of
        Some v \<Rightarrow> \<not> (v = lit ''0'' \<or> v = lit ''off'' \<or> v = lit ''false'')
      | None \<Rightarrow> True)"

definition sniff_window :: "(str \<Rightarrow> str option) \<Rightarrow> nat" where
  "sniff_window env =
     (case Option.bind (env (lit ''AETHER_ROUTE_SNIFF_MS'')) (\<lambda>v. parse_uint 64 (trim v)) of
        Some ms \<Rightarrow> if 0 < ms then ms else 400
      | None \<Rightarrow> 400)"

definition read_sniff_head :: "('re, 'net) world \<Rightarrow> bytes option handler" where
  "read_sniff_head W = do {
     ready \<leftarrow> perform ReadClient (\<lambda>h. w_client_ready W h (sniff_window (w_env W)));
     case ready of
       SomeReady n \<Rightarrow> do {
         head \<leftarrow> read_some PEEK_BUDGET n;
         State_Monad.return (if head = [] then None else Some head) }
     | ReadFails \<Rightarrow> State_Monad.return None
     | ReadStalls \<Rightarrow> State_Monad.return (Some []) }"

subsection \<open>Serving a connection\<close>

text \<open>
  The two tasks of an open connection: \<open>up\<close> copies from the client to the tunnel until it ends, the
  main loop copies from the tunnel to the client, and when it ends \<open>up\<close> is aborted.
\<close>

fun relay :: "('re, 'net) world \<Rightarrow> bool \<Rightarrow> relay_input list \<Rightarrow> unit handler" where
  "relay W up [] = emit ShutdownClient"
| "relay W up (ClientReady n # ins) =
     (if \<not> up then relay W up ins
      else do {
        chunk \<leftarrow> read_some 16384 n;
        if chunk = [] then do { emit TunnelClose; relay W False ins }
        else do {
          r \<leftarrow> perform (TunnelSend chunk) (w_tunnel_send W);
          case r of Inl _ \<Rightarrow> relay W False ins | Inr _ \<Rightarrow> relay W up ins } })"
| "relay W up (ClientFails # ins) =
     (if \<not> up then relay W up ins else do { emit TunnelClose; relay W False ins })"
| "relay W up (StackChunk chunk # ins) = do {
     r \<leftarrow> write_client W chunk;
     case r of Inl _ \<Rightarrow> emit ShutdownClient | Inr _ \<Rightarrow> relay W up ins }"

text \<open>
  The relay of a direct connection: one task copies from the client to the server until its input or
  the server's socket ends, the other from the server to the client. When \<open>joined\<close> the two are one
  \<open>copy_bidirectional\<close>, which an error in either direction ends.
\<close>

fun copy_direct :: "('re, 'net) world \<Rightarrow> bool \<Rightarrow> bool \<Rightarrow> relay_input list \<Rightarrow> unit handler" where
  "copy_direct W joined up [] = State_Monad.return ()"
| "copy_direct W joined up (ClientReady n # ins) =
     (if \<not> up then copy_direct W joined up ins
      else do {
        chunk \<leftarrow> read_some 8192 n;
        if chunk = [] then copy_direct W joined False ins
        else do {
          r \<leftarrow> perform (DirectSend chunk) (w_direct_write W);
          case r of
            Inl _ \<Rightarrow> if joined then State_Monad.return () else copy_direct W joined False ins
          | Inr _ \<Rightarrow> copy_direct W joined up ins } })"
| "copy_direct W joined up (ClientFails # ins) =
     (if \<not> up then copy_direct W joined up ins
      else if joined then State_Monad.return () else copy_direct W joined False ins)"
| "copy_direct W joined up (StackChunk chunk # ins) = do {
     r \<leftarrow> write_client W chunk;
     case r of Inl _ \<Rightarrow> State_Monad.return () | Inr _ \<Rightarrow> copy_direct W joined up ins }"

definition relay_direct :: "('re, 'net) world \<Rightarrow> bool \<Rightarrow> unit handler" where
  "relay_direct W joined = do {
     ins \<leftarrow> perform DirectRelay (w_direct_relay W);
     copy_direct W joined True ins }"

definition handle_direct :: "('re, 'net) world \<Rightarrow> target \<Rightarrow> u16 \<Rightarrow> bytes \<Rightarrow> bool \<Rightarrow> unit result handler" where
  "handle_direct W t port head replied =
     (let address = (case t of TargetDomain name \<Rightarrow> name @ lit '':'' @ show_nat (unat port)
                     | TargetIp ip \<Rightarrow> show_sock_addr (sock_addr_new ip port));
          refuse = (if \<not> replied then do { _ \<leftarrow> reply W REP_GENERAL; State_Monad.return (Inr ()) }
                    else State_Monad.return (Inr ())) in
      do {
        upstream \<leftarrow> perform (DirectConnect address) (w_direct_connect W);
        case upstream of
          None \<Rightarrow> refuse
        | Some (Inl _) \<Rightarrow> refuse
        | Some (Inr _) \<Rightarrow> do {
            sent \<leftarrow> (if head \<noteq> [] then perform (DirectSend head) (w_direct_write W) else State_Monad.return (Inr ()));
            case sent of
              Inl _ \<Rightarrow> State_Monad.return (Inr ())
            | Inr _ \<Rightarrow>
                try_then (if \<not> replied then reply_bound W any_addr else State_Monad.return (Inr ())) (\<lambda>_. do {
                  relay_direct W False;
                  emit ShutdownClient;
                  State_Monad.return (Inr ()) }) } })"

text \<open>Resolving the target and opening it in the stack; a failure is reported to the client.\<close>

definition open_plain :: "('re, 'net) world \<Rightarrow> target \<Rightarrow> u16 \<Rightarrow> bytes result handler" where
  "open_plain W t port = do {
     r \<leftarrow> resolve W t;
     case r of
       Inl e \<Rightarrow> do { _ \<leftarrow> reply W REP_GENERAL; State_Monad.return (Inl e) }
     | Inr ip \<Rightarrow> do {
         c \<leftarrow> perform (OpenTcp (sock_addr_new ip port)) (w_open_tcp W);
         case c of
           Inr _ \<Rightarrow> State_Monad.return (Inr [])
         | Inl e \<Rightarrow> do { _ \<leftarrow> reply W REP_GENERAL; State_Monad.return (Inl e) } } }"

definition open_channel :: "('re, 'net) world \<Rightarrow> target \<Rightarrow> u16 \<Rightarrow> bytes result handler" where
  "open_channel W t port = do {
     proxy \<leftarrow> gateway_proxy W;
     let via_gateway = (if should_use_gateway port then proxy else None);
     case via_gateway of
       Some proxy \<Rightarrow> do {
         r \<leftarrow> open_through_gateway W proxy (show_target t) port;
         case r of
           Inr leftover \<Rightarrow> State_Monad.return (Inr leftover)
         | Inl e \<Rightarrow> do { retire_gateway; open_plain W t port } }
     | None \<Rightarrow> open_plain W t port }"

text \<open>Serving an open connection: the answer, the sniffed bytes, what the gateway sent, the relay.\<close>

definition serve_channel :: "('re, 'net) world \<Rightarrow> bytes \<Rightarrow> bool \<Rightarrow> bytes \<Rightarrow> unit result handler" where
  "serve_channel W head replied leftover =
     try_then (if \<not> replied then reply_bound W any_addr else State_Monad.return (Inr ())) (\<lambda>_. do {
       sent \<leftarrow> (if head \<noteq> [] then perform (TunnelSend head) (w_tunnel_send W) else State_Monad.return (Inr ()));
       case sent of
         Inl _ \<Rightarrow> State_Monad.return (Inr ())
       | Inr _ \<Rightarrow> do {
           written \<leftarrow> (if leftover \<noteq> [] then write_client W leftover else State_Monad.return (Inr ()));
           case written of
             Inl _ \<Rightarrow> State_Monad.return (Inr ())
           | Inr _ \<Rightarrow> do {
               ins \<leftarrow> ask (w_relay W);
               relay W True ins;
               State_Monad.return (Inr ()) } } })"

definition connect_routed ::
  "('re, 'net) world \<Rightarrow> target \<Rightarrow> u16 \<Rightarrow> bytes \<Rightarrow> bool \<Rightarrow> str option \<Rightarrow> unit result handler" where
  "connect_routed W t port head replied named =
     (case decide_route (w_unicode W) (w_lib W) (w_rules W) t named port of
        Block \<Rightarrow>
          if \<not> replied then do { _ \<leftarrow> reply W REP_NOT_ALLOWED; State_Monad.return (Inr ()) }
          else State_Monad.return (Inr ())
      | Direct \<Rightarrow> handle_direct W t port head replied
      | Proxy \<Rightarrow> try_then (open_channel W t port) (serve_channel W head replied))"

definition handle_connect :: "('re, 'net) world \<Rightarrow> target \<Rightarrow> u16 \<Rightarrow> unit result handler" where
  "handle_connect W t port =
     (if (case t of TargetIp _ \<Rightarrow> True | TargetDomain _ \<Rightarrow> False) \<and> sniff_enabled (w_env W)
         \<and> has_domain_rules (w_rules W)
      then try_then (reply_bound W any_addr) (\<lambda>_. do {
        read \<leftarrow> read_sniff_head W;
        case read of
          None \<Rightarrow> State_Monad.return (Inr ())
        | Some head \<Rightarrow>
            connect_routed W t port head True (if head = [] then None else hostname (w_unicode W) head) })
      else connect_routed W t port [] False None)"

subsection \<open>The lookup always ends\<close>

lemma dns_receive_ends: "\<exists>r. dns_receive qid name (evs @ [ChanTimeout]) = Ret r \<and> r \<noteq> Waiting"
proof (induction qid name evs rule: dns_receive.induct)
  case (2 qid name resp evs)
  then show ?case
    using dns_matches_returns [of resp qid name QTYPE_A] parse_dns_a_returns [of resp] by (auto simp: returns_iff)
qed simp_all

lemma dns_exchange_ends:
  assumes "list_all (\<lambda>(server, qid, sent, evs). \<exists>evs'. evs = evs' @ [ChanTimeout]) servers"
  shows "\<exists>r. dns_exchange_with name err servers = Ret (Some r)"
  using assms
proof (induction name err servers rule: dns_exchange_with.induct)
  case (2 name err server qid sent evs rest)
  then obtain evs' where evs: "evs = evs' @ [ChanTimeout]" by auto
  obtain r where r: "dns_receive qid name evs = Ret r" "r \<noteq> Waiting"
    using dns_receive_ends [of qid name evs'] evs by auto
  have q: "build_dns_query qid name QTYPE_A = (fst (build_dns_query qid name QTYPE_A), qid)" by (simp add: build_dns_query_def)
  have rest: "list_all (\<lambda>(server, qid, sent, evs). \<exists>evs'. evs = evs' @ [ChanTimeout]) rest" using 2(3) by simp
  show ?case
  proof (cases "sent (fst (build_dns_query qid name QTYPE_A))")
    case (Inl e)
    have "dns_exchange_with name err ((server, qid, sent, evs) # rest) = dns_exchange_with name e rest"
      by (subst dns_exchange_with.simps, subst q) (simp add: Inl)
    with 2(1) [OF refl q [symmetric] Inl rest] show ?thesis by simp
  next
    case (Inr u)
    have "dns_exchange_with name err ((server, qid, sent, evs) # rest) = (case r of Answer r \<Rightarrow> Ret (Some r) | Waiting \<Rightarrow> Ret None
        | NextServer \<Rightarrow> dns_exchange_with name (Other (lit ''dns timeout from '' @ show_sock_addr server)) rest)"
      by (subst dns_exchange_with.simps, subst q) (simp add: Inr r del: lit_simps)
    with 2(2) [OF refl q [symmetric] Inr r(1) _ rest] r(2) show ?thesis by (cases r) auto
  qed
qed simp

lemma dns_lookup_answers:
  "\<exists>servers r. resolver_addresses (w_env W (lit ''AETHER_DNS'')) = Ret servers
     \<and> dns_exchange name (map (\<lambda>a. let (qid, sent, evs) = w_dns W h a in (a, qid, sent, evs @ [ChanTimeout])) servers)
         = Ret (Some r)
     \<and> dns_lookup W name h = r"
proof -
  obtain servers where s: "resolver_addresses (w_env W (lit ''AETHER_DNS'')) = Ret servers"
    using resolver_addresses_usable by blast
  obtain r where "dns_exchange name (map (\<lambda>a. let (qid, sent, evs) = w_dns W h a in (a, qid, sent, evs @ [ChanTimeout])) servers)
      = Ret (Some r)"
    unfolding dns_exchange_def
    using dns_exchange_ends by (fastforce simp: list_all_iff Let_def split: prod.splits)
  with s show ?thesis by (auto simp: dns_lookup_def)
qed

subsection \<open>Events of the building blocks\<close>

lemma emits_reply [emits_rules]: "(\<And>b. P (WriteClient b)) \<Longrightarrow> emits P (reply W c)"
  and emits_reply_bound [emits_rules]: "(\<And>b. P (WriteClient b)) \<Longrightarrow> emits P (reply_bound W a)"
  by (simp_all add: reply_def reply_bound_def emits_rules)

lemma emits_gateway_proxy [emits_rules]: "emits P (gateway_proxy W)"
  by (simp add: gateway_proxy_def emits_rules)

lemma emits_retire [emits_rules]: "emits P retire_gateway"
  by (simp add: emits_def retire_gateway_def State_Monad.update_def)

lemma emits_resolve [emits_rules]:
  "P OpenUdp \<Longrightarrow> (\<And>n. P (TunnelLookup n)) \<Longrightarrow> P CloseUdp \<Longrightarrow> emits P (resolve W t)"
  unfolding resolve_def dns_resolve_def by (cases t) (auto intro!: emits_rules)

lemma emits_gateway_head [emits_rules]: "P TunnelClose \<Longrightarrow> emits P (gateway_head proxy authority port head evs)"
  by (induction proxy authority port head evs rule: gateway_head.induct) (auto simp: Let_def intro!: emits_rules)

lemma emits_open_through_gateway [emits_rules]:
  "(\<And>a. P (OpenTcp a)) \<Longrightarrow> (\<And>b. P (GatewaySend b)) \<Longrightarrow> P TunnelClose \<Longrightarrow> emits P (open_through_gateway W proxy authority port)"
  unfolding open_through_gateway_def by (auto intro!: emits_rules)

lemma emits_relay [emits_rules]:
  "P ShutdownClient \<Longrightarrow> P TunnelClose \<Longrightarrow> (\<And>b. P (TunnelSend b)) \<Longrightarrow> (\<And>b. P (WriteClient b)) \<Longrightarrow> emits P (relay W up ins)"
  by (induction W up ins rule: relay.induct) (auto intro!: emits_rules)

lemma emits_relay_direct [emits_rules]:
  assumes "P DirectRelay" "\<And>b. P (DirectSend b)" "\<And>b. P (WriteClient b)"
  shows "emits P (relay_direct W joined)"
proof -
  have "emits P (copy_direct W joined up ins)" for up ins
    using assms by (induction W joined up ins rule: copy_direct.induct) (auto intro!: emits_rules)
  then show ?thesis using assms unfolding relay_direct_def by (auto intro!: emits_rules)
qed

lemma emits_open_plain [emits_rules]:
  "(\<And>b. P (WriteClient b)) \<Longrightarrow> (\<And>a. P (OpenTcp a)) \<Longrightarrow> P OpenUdp \<Longrightarrow> (\<And>n. P (TunnelLookup n)) \<Longrightarrow> P CloseUdp
    \<Longrightarrow> emits P (open_plain W t port)"
  unfolding open_plain_def by (auto intro!: emits_rules)

lemma emits_open_channel [emits_rules]: "emits (\<lambda>e. \<not> direct_event e) (open_channel W t port)"
  unfolding open_channel_def Let_def by (auto intro!: emits_rules)

lemma emits_serve_channel [emits_rules]:
  "P ShutdownClient \<Longrightarrow> P TunnelClose \<Longrightarrow> (\<And>b. P (TunnelSend b)) \<Longrightarrow> (\<And>b. P (WriteClient b))
    \<Longrightarrow> emits P (serve_channel W head replied leftover)"
  unfolding serve_channel_def by (auto intro!: emits_rules)

lemma emits_handle_direct [emits_rules]: "emits (\<lambda>e. \<not> tunnel_event e) (handle_direct W t port head replied)"
  unfolding handle_direct_def Let_def by (auto intro!: emits_rules split: option.splits sum.splits)

lemma quiet_gateway_proxy [quiet_rules]:
  "quiet (k None) \<Longrightarrow> quiet (State_Monad.bind (gateway_proxy W) k)"
  by (auto simp: gateway_proxy_def state_io_rel_def left_alone_def)

lemma quiet_blocks [quiet_rules]: "quiet (reply W c)" "quiet (reply_bound W a)" "quiet (resolve W t)"
  unfolding reply_def reply_bound_def resolve_def dns_resolve_def
  by (cases t; auto intro!: quiet_rules)+

lemma quiet_open_plain [quiet_rules]: "quiet (open_plain W t port)"
  unfolding open_plain_def by (auto intro!: quiet_rules)

lemma quiet_open_channel [quiet_rules]: "quiet (open_channel W t port)"
  unfolding open_channel_def Let_def by (rule quiet_gateway_proxy) (simp add: quiet_rules)

lemma quiet_relay [quiet_rules]: "quiet (relay W up ins)"
  by (induction W up ins rule: relay.induct) (auto intro!: quiet_rules)

lemma quiet_relay_direct [quiet_rules]: "quiet (relay_direct W joined)"
proof -
  have "quiet (copy_direct W joined up ins)" for up ins
    by (induction W joined up ins rule: copy_direct.induct) (auto intro!: quiet_rules)
  then show ?thesis unfolding relay_direct_def by (auto intro!: quiet_rules)
qed

lemma quiet_serve_channel [quiet_rules]: "quiet (serve_channel W head replied leftover)"
  unfolding serve_channel_def by (auto intro!: quiet_rules)

lemma quiet_handle_direct [quiet_rules]: "quiet (handle_direct W t port head replied)"
  unfolding handle_direct_def Let_def by (auto intro!: quiet_rules split: option.splits sum.splits)

lemma quiet_connect_routed [quiet_rules]: "quiet (connect_routed W t port head replied named)"
  unfolding connect_routed_def by (auto intro!: quiet_rules split: action.splits)

lemma quiet_read_sniff_head [quiet_rules]: "quiet (read_sniff_head W)"
  unfolding read_sniff_head_def by (auto intro!: quiet_rules split: readiness.splits)

lemma quiet_handle_connect [quiet_rules]: "quiet (handle_connect W t port)"
  unfolding handle_connect_def by (auto intro!: quiet_rules)

subsection \<open>The verdict a connection is served under\<close>

text \<open>
  What routing decides for a connection, from the rules, the target and the bytes the client has
  sent: \<^term>\<open>None\<close> when the connection ends before it is routed.
\<close>

definition ok_reply :: bytes where
  "ok_reply = [VER, REP_OK, 0, ATYP_V4, 0, 0, 0, 0, 0, 0]"

definition sniffs :: "('re, 'net) world \<Rightarrow> target \<Rightarrow> bool" where
  "sniffs W t \<longleftrightarrow> (\<exists>ip. t = TargetIp ip) \<and> sniff_enabled (w_env W) \<and> has_domain_rules (w_rules W)"

definition sniffed_head :: "('re, 'net) world \<Rightarrow> conn \<Rightarrow> bytes option" where
  "sniffed_head W s =
     (case w_client_write W (conn_events s @ [WriteClient ok_reply]) of
        Inl _ \<Rightarrow> None
      | Inr _ \<Rightarrow>
          (case w_client_ready W (conn_events s @ [WriteClient ok_reply, ReadClient]) (sniff_window (w_env W)) of
             SomeReady n \<Rightarrow> if conn_input s = [] then None else Some (take (min PEEK_BUDGET (max 1 n)) (conn_input s))
           | ReadFails \<Rightarrow> None
           | ReadStalls \<Rightarrow> Some []))"

definition connect_verdict :: "('re, 'net) world \<Rightarrow> target \<Rightarrow> u16 \<Rightarrow> conn \<Rightarrow> action option" where
  "connect_verdict W t port s =
     (if sniffs W t
      then map_option (\<lambda>head. decide_route (w_unicode W) (w_lib W) (w_rules W) t
             (if head = [] then None else hostname (w_unicode W) head) port) (sniffed_head W s)
      else Some (decide_route (w_unicode W) (w_lib W) (w_rules W) t None port))"

text \<open>The state in which a sniffed connection is routed.\<close>

definition sniffed_state :: "('re, 'net) world \<Rightarrow> conn \<Rightarrow> bytes \<Rightarrow> conn" where
  "sniffed_state W s head =
     s\<lparr>conn_events := conn_events s @ [WriteClient ok_reply, ReadClient], conn_input := drop (length head) (conn_input s)\<rparr>"

lemma any_addr_parses: "parse_sock_addr (lit ''0.0.0.0:0'') = Some any_addr"
  by (simp add: any_addr_def addr_eval)

lemma addr_bytes_any: "[VER, REP_OK, 0] @ addr_bytes any_addr = ok_reply"
proof -
  have "octets4 0 = [0, 0, 0, 0]" "to_be16 0 = [0, 0]" by code_simp+
  then show ?thesis by (simp add: addr_bytes_def any_addr_def sock_addr_new_def ok_reply_def)
qed

lemma reply_bound_any: "reply_bound W any_addr = write_client W ok_reply"
  unfolding reply_bound_def addr_bytes_any ..

lemma handle_connect_plain: "\<not> sniffs W t \<Longrightarrow> handle_connect W t port = connect_routed W t port [] False None"
  by (cases t) (auto simp: handle_connect_def sniffs_def)

lemma handle_connect_sniffed:
  assumes "sniffs W t"
  shows "case sniffed_head W s of
      None \<Rightarrow> \<exists>es. conn_events (snd (run_state (handle_connect W t port) s)) = conn_events s @ es
        \<and> (es = [WriteClient ok_reply] \<or> es = [WriteClient ok_reply, ReadClient])
    | Some head \<Rightarrow> run_state (handle_connect W t port) s =
        run_state (connect_routed W t port head True (if head = [] then None else hostname (w_unicode W) head))
          (sniffed_state W s head)"
proof -
  have min: "PEEK_BUDGET \<noteq> 0" by (simp add: PEEK_BUDGET_def)
  obtain ip where t: "t = TargetIp ip" and "sniff_enabled (w_env W)" "has_domain_rules (w_rules W)"
    using assms by (auto simp: sniffs_def)
  then have "handle_connect W t port = try_then (write_client W ok_reply) (\<lambda>_. do {
        read \<leftarrow> read_sniff_head W;
        case read of None \<Rightarrow> State_Monad.return (Inr ())
        | Some head \<Rightarrow> connect_routed W t port head True (if head = [] then None else hostname (w_unicode W) head) })"
    unfolding t by (simp add: handle_connect_def reply_bound_any)
  then show ?thesis
    using min
    by (auto simp: run_simps sniffed_head_def sniffed_state_def read_sniff_head_def split: sum.splits readiness.splits)
qed

lemma connect_routed_emits:
  "case decide_route (w_unicode W) (w_lib W) (w_rules W) t named port of
     Direct \<Rightarrow> emits (\<lambda>e. \<not> tunnel_event e) (connect_routed W t port head replied named)
   | Proxy \<Rightarrow> emits (\<lambda>e. \<not> direct_event e) (connect_routed W t port head replied named)
   | Block \<Rightarrow> emits (\<lambda>e. \<not> tunnel_event e \<and> \<not> direct_event e) (connect_routed W t port head replied named)"
  unfolding connect_routed_def by (auto intro!: emits_rules split: action.split)

lemma connect_routed_honours:
  "honours (Some (decide_route (w_unicode W) (w_lib W) (w_rules W) t named port))
     (new_events (connect_routed W t port head replied named) s)"
  using connect_routed_emits [where W = W and t = t and named = named and port = port and head = head and replied = replied]
  by (auto simp: honours_def intro: list_all_new_events split: action.splits)

lemma connect_routed_events:
  "conn_events (snd (run_state (connect_routed W t port head replied named) s))
     = conn_events s @ new_events (connect_routed W t port head replied named) s"
  using connect_routed_emits [where W = W and t = t and named = named and port = port and head = head and replied = replied] by (auto intro: emits_events split: action.splits)

lemma sniffed_state_events [simp]:
  "conn_events (sniffed_state W s head) = conn_events s @ [WriteClient ok_reply, ReadClient]"
  by (simp add: sniffed_state_def)

lemma handle_connect_honours:
  "honours (connect_verdict W t port s) (new_events (handle_connect W t port) s)"
proof (cases "sniffs W t")
  case False
  then show ?thesis using connect_routed_honours by (simp add: handle_connect_plain connect_verdict_def)
next
  case True
  note run = handle_connect_sniffed [OF True, of port s]
  show ?thesis
  proof (cases "sniffed_head W s")
    case None
    then show ?thesis using run True by (auto simp: new_events_def connect_verdict_def)
  next
    case (Some head)
    define named where "named = (if head = [] then None else hostname (w_unicode W) head)"
    have "new_events (handle_connect W t port) s = [WriteClient ok_reply, ReadClient]
        @ new_events (connect_routed W t port head True named) (sniffed_state W s head)"
      using run Some connect_routed_events [where W = W and t = t and port = port and replied = True and named = named
          and head = head and s = "sniffed_state W s head"]
      by (simp add: new_events_def [of "handle_connect W t port"] flip: named_def)
    then show ?thesis
      using Some True connect_routed_honours [where named = named and head = head and s = "sniffed_state W s head"]
      by (simp add: connect_verdict_def flip: named_def)
  qed
qed

interpretation socks: routed_server "case_prod (handle_connect W)" "case_prod (connect_verdict W)" for W
  by unfold_locales (auto intro: handle_connect_honours quiet_handle_connect)

subsection \<open>Streams\<close>

definition stack_chunks :: "relay_input list \<Rightarrow> bytes list" where
  "stack_chunks ins = List.map_filter (\<lambda>i. case i of StackChunk c \<Rightarrow> Some c | _ \<Rightarrow> None) ins"

lemma stack_chunks_simps [simp]:
  "stack_chunks [] = []" "stack_chunks (ClientReady n # ins) = stack_chunks ins"
  "stack_chunks (ClientFails # ins) = stack_chunks ins" "stack_chunks (StackChunk c # ins) = c # stack_chunks ins"
  by (simp_all add: stack_chunks_def List.map_filter_simps)

text \<open>
  The relay loses, adds and reorders nothing: what it uploads is what it read, and what it writes to
  the client is a prefix of what the stack delivered.
\<close>

definition streams :: "bytes list \<Rightarrow> conn \<Rightarrow> conn \<Rightarrow> bool" where
  "streams chunks s t \<longleftrightarrow> (\<exists>es k. conn_events t = conn_events s @ es \<and> uploaded es @ conn_input t = conn_input s
     \<and> client_written es = concat (take k chunks))"

lemma streams_up:
  assumes "streams chunks t u" "conn_events t = conn_events s @ [e]" "uploaded [e] @ conn_input t = conn_input s"
    "client_written [e] = []"
  shows "streams chunks s u"
proof -
  obtain es k where "conn_events u = conn_events t @ es" "uploaded es @ conn_input u = conn_input t"
    "client_written es = concat (take k chunks)" using assms(1) by (auto simp: streams_def)
  then show ?thesis
    using assms(2-4) unfolding streams_def by (intro exI [of _ "e # es"] exI [of _ k]) auto
qed

lemma streams_down:
  assumes "streams chunks (s\<lparr>conn_events := conn_events s @ [WriteClient c]\<rparr>) u"
  shows "streams (c # chunks) s u"
proof -
  obtain es k where "conn_events u = conn_events s @ WriteClient c # es" "uploaded es @ conn_input u = conn_input s"
    "client_written es = concat (take k chunks)" using assms by (auto simp: streams_def)
  then show ?thesis
    unfolding streams_def by (intro exI [of _ "WriteClient c # es"] exI [of _ "Suc k"]) auto
qed

lemma streams_end: "streams chunks s (s\<lparr>conn_events := conn_events s @ [ShutdownClient]\<rparr>)"
  unfolding streams_def by (intro exI [of _ "[ShutdownClient]"] exI [of _ 0]) simp

lemma relay_streams: "streams (stack_chunks ins) s (snd (run_state (relay W up ins) s))"
proof (induction ins arbitrary: up s)
  case Nil
  then show ?case by (simp add: run_simps streams_end)
next
  case (Cons i ins)
  note up = streams_up [OF Cons.IH]
  show ?case
  proof (cases i)
    case (ClientReady n)
    then show ?thesis using Cons.IH
      by (cases up) (auto simp: run_simps split: sum.splits intro!: up)
  next
    case ClientFails
    then show ?thesis using Cons.IH by (cases up) (auto simp: run_simps intro!: up)
  next
    case (StackChunk c)
    then show ?thesis using Cons.IH
      by (auto simp: run_simps streams_down split: sum.splits) (auto simp: streams_def intro!: exI [of _ 1])
  qed
qed

lemma copy_direct_streams: "streams (stack_chunks ins) s (snd (run_state (copy_direct W joined up ins) s))"
proof (induction ins arbitrary: up s)
  case Nil
  then show ?case by (simp add: streams_def)
next
  case (Cons i ins)
  note up = streams_up [OF Cons.IH]
  have stop: "streams chunks s t" if "conn_events t = conn_events s @ es" "uploaded es @ conn_input t = conn_input s" "client_written es = []"
    for chunks s t es using that unfolding streams_def by (intro exI [of _ es] exI [of _ 0]) simp
  show ?case
  proof (cases i)
    case (ClientReady n)
    let ?k = "min 8192 (max 1 n)"
    let ?t = "s\<lparr>conn_input := drop ?k (conn_input s), conn_events := conn_events s @ [DirectSend (take ?k (conn_input s))]\<rparr>"
    have t: "conn_events ?t = conn_events s @ [DirectSend (take ?k (conn_input s))]"
      "uploaded [DirectSend (take ?k (conn_input s))] @ conn_input ?t = conn_input s" by simp_all
    have go: "streams (stack_chunks ins) s (snd (run_state (copy_direct W joined b ins) ?t))" for b
      using streams_up [OF Cons.IH t] by simp
    have "streams (stack_chunks ins) s ?t" by (rule stop [OF t]) simp
    moreover have "streams (stack_chunks ins) s (snd (run_state (copy_direct W joined False ins) (s\<lparr>conn_input := []\<rparr>)))"
      if "conn_input s = []"
    proof -
      have "s\<lparr>conn_input := []\<rparr> = s" using that by (cases s) simp
      then show ?thesis using Cons.IH by presburger
    qed
    ultimately show ?thesis using ClientReady Cons.IH go
      by (cases "conn_input s = []") (auto simp: run_simps split: sum.split)
  next
    case ClientFails
    have "streams (stack_chunks ins) s s" by (rule stop [where es = "[]"]) simp_all
    with ClientFails Cons.IH show ?thesis by (cases up; cases joined) simp_all
  next
    case (StackChunk c)
    then show ?thesis using Cons.IH
      by (auto simp: run_simps streams_down split: sum.splits) (auto simp: streams_def intro!: exI [of _ 1])
  qed
qed

subsection \<open>A connection that fails after it was answered\<close>

definition general_reply :: bytes where
  "general_reply = [VER, REP_GENERAL, 0, ATYP_V4, 0, 0, 0, 0, 0, 0]"

text \<open>\<open>mute m\<close>: a handler that writes nothing to the client.\<close>

definition mute :: "event \<Rightarrow> bool" where
  "mute e = (case e of WriteClient _ \<Rightarrow> False | _ \<Rightarrow> True)"

lemma mute_simps [simp]:
  "\<not> mute (WriteClient b)" "mute (OpenTcp a)" "mute (GatewaySend b)" "mute TunnelClose" "mute OpenUdp" "mute (TunnelLookup n)"
  "mute CloseUdp"
  by (simp_all add: mute_def)

lemma client_written_mute: "list_all mute es \<Longrightarrow> client_written es = []"
  by (induction es) (auto simp: mute_def split: event.splits)

lemma mute_run:
  assumes "emits mute m" "run_state m s = (r, u)"
  shows "\<exists>es. conn_events u = conn_events s @ es \<and> client_written es = []"
  using assms client_written_mute unfolding emits_def by (metis snd_conv)

text \<open>A failed attempt to open the target writes exactly one reply, the general failure.\<close>

lemma open_plain_fails:
  assumes "run_state (open_plain W t port) s = (Inl e, s')"
  shows "\<exists>es. conn_events s' = conn_events s @ es \<and> client_written es = general_reply"
proof -
  obtain r u where r: "run_state (resolve W t) s = (r, u)" by fastforce
  have "emits mute (resolve W t)" by (rule emits_resolve) simp_all
  from mute_run [OF this r] obtain es where es: "conn_events u = conn_events s @ es" "client_written es = []" by blast
  show ?thesis
  proof (cases r)
    case (Inl x)
    then show ?thesis using assms r es
      by (intro exI [of _ "es @ [WriteClient general_reply]"]) (auto simp: open_plain_def reply_def run_simps general_reply_def)
  next
    case (Inr ip)
    then show ?thesis using assms r es
      by (intro exI [of _ "es @ [OpenTcp (sock_addr_new ip port), WriteClient general_reply]"])
        (auto simp: open_plain_def reply_def run_simps general_reply_def split: sum.splits)
  qed
qed

lemma open_channel_fails:
  assumes "run_state (open_channel W t port) s = (Inl e, s')"
  shows "\<exists>es. conn_events s' = conn_events s @ es \<and> client_written es = general_reply"
proof (cases "if should_use_gateway port \<and> gateway_healthy s then w_gateway W else None")
  case None
  then have "run_state (open_channel W t port) s = run_state (open_plain W t port) s"
    by (auto simp: open_channel_def gateway_proxy_def split: if_splits)
  then show ?thesis using assms open_plain_fails [of W t port s e s'] by simp
next
  case (Some proxy)
  let ?m = "open_through_gateway W proxy (show_target t) port"
  obtain r u where r: "run_state ?m s = (r, u)" by fastforce
  have "emits mute ?m" by (rule emits_open_through_gateway) simp_all
  from mute_run [OF this r] obtain es where es: "conn_events u = conn_events s @ es" "client_written es = []" by blast
  have "run_state (open_plain W t port) (u\<lparr>gateway_healthy := False\<rparr>) = (Inl e, s')"
    using assms Some r
    by (auto simp: open_channel_def gateway_proxy_def retire_gateway_def State_Monad.update_def split: if_splits sum.splits)
  then obtain fs where "conn_events s' = conn_events u @ fs" "client_written fs = general_reply"
    using open_plain_fails by fastforce
  with es show ?thesis by (intro exI [of _ "es @ fs"]) simp
qed

subsection \<open>What a gateway answers\<close>

lemma find_head_end_Some:
  "find_head_end buf = Some at \<Longrightarrow> at \<le> length buf \<and> 4 \<le> at \<and> take 4 (drop (at - 4) buf) = [13, 10, 13, 10]"
proof -
  have "starts_with (drop i b) p \<and> i \<le> length b" if "find_sub p b = Some i" for p b :: bytes and i
    using that by (induction b arbitrary: i) (auto simp: starts_with_def split: if_splits)
  moreover assume "find_head_end buf = Some at"
  ultimately have "starts_with (drop (at - 4) buf) [13, 10, 13, 10]" "4 \<le> at"
    by (auto simp: find_head_end_def)
  then have t: "take 4 (drop (at - 4) buf) = [13, 10, 13, 10]" by (simp add: starts_with_def numeral_eq_Suc)
  from arg_cong [OF t, of length] \<open>4 \<le> at\<close> have "at \<le> length buf" by (simp add: min_def split: if_splits)
  with t \<open>4 \<le> at\<close> show ?thesis by simp
qed

definition chan_bytes :: "chan_event list \<Rightarrow> bytes" where
  "chan_bytes evs = concat (map (\<lambda>e. case e of ChanData b \<Rightarrow> b | _ \<Rightarrow> []) evs)"

text \<open>
  The gateway's answer is taken apart at the end of its head, however it was cut into chunks: what
  is handed on is exactly what followed.
\<close>

lemma gateway_head_exact:
  assumes "run_state (gateway_head proxy authority port head evs) s = (Inr leftover, s')"
  shows "\<exists>k at. find_head_end (head @ chan_bytes (take k evs)) = Some at
    \<and> leftover = drop at (head @ chan_bytes (take k evs))
    \<and> proxy_connect_succeeded (head @ chan_bytes (take k evs)) = Some True
    \<and> list_all (\<lambda>e. e \<noteq> ChanClosed \<and> e \<noteq> ChanTimeout) (take k evs) \<and> s' = s"
  using assms
proof (induction proxy authority port head evs rule: gateway_head.induct)
  case (1 proxy authority port head chunk evs)
  have step: "head @ chan_bytes (take (Suc k) (ChanData chunk # evs)) = (head @ chunk) @ chan_bytes (take k evs)" for k
    by (simp add: chan_bytes_def)
  show ?case
  proof (cases "find_head_end (head @ chunk)")
    case (Some at)
    then have "proxy_connect_succeeded (head @ chunk) = Some True \<and> leftover = drop at (head @ chunk) \<and> s' = s"
      using "1.prems" by (auto simp: Let_def run_simps split: option.splits if_splits)
    then show ?thesis using Some by (intro exI [of _ "Suc 0"] exI [of _ at]) (simp add: chan_bytes_def)
  next
    case None
    then have "run_state (gateway_head proxy authority port (head @ chunk) evs) s = (Inr leftover, s')"
      "\<not> GATEWAY_HEAD_LIMIT < length (head @ chunk)"
      using "1.prems" by (auto simp: Let_def run_simps split: if_splits)
    then obtain k at where "find_head_end ((head @ chunk) @ chan_bytes (take k evs)) = Some at"
      "leftover = drop at ((head @ chunk) @ chan_bytes (take k evs))"
      "proxy_connect_succeeded ((head @ chunk) @ chan_bytes (take k evs)) = Some True"
      "list_all (\<lambda>e. e \<noteq> ChanClosed \<and> e \<noteq> ChanTimeout) (take k evs)" "s' = s"
      using "1.IH" [OF refl None] by blast
    then show ?thesis by (intro exI [of _ "Suc k"] exI [of _ at]) (simp only: step, simp)
  qed
qed simp_all

subsection \<open>Upstream and downstream of a connection\<close>

lemma idle_resolve [idle_rules]: "idle (resolve W t)"
  unfolding resolve_def dns_resolve_def by (cases t) (auto intro!: idle_rules)

lemma idle_open_through_gateway [idle_rules]: "idle (open_through_gateway W proxy authority port)"
proof -
  have "idle (gateway_head proxy a p head evs)" for a p head evs
    by (induction proxy a p head evs rule: gateway_head.induct) (auto simp: Let_def intro!: idle_rules)
  then show ?thesis unfolding open_through_gateway_def by (auto intro!: idle_rules)
qed

lemma idle_retire [idle_rules]: "idle retire_gateway"
  by (simp add: retire_gateway_def state_io_rel_def State_Monad.update_def untouched_def)

lemma idle_open_channel [idle_rules]: "idle (open_channel W t port)"
  unfolding open_channel_def open_plain_def reply_def gateway_proxy_def Let_def by (auto intro!: idle_rules)

text \<open>Either nothing was uploaded or relayed, or everything read was uploaded, after what had been read before.\<close>

definition upload_exact :: "bytes \<Rightarrow> conn \<Rightarrow> conn \<Rightarrow> bool" where
  "upload_exact head s t \<longleftrightarrow> (\<exists>es. conn_events t = conn_events s @ es
     \<and> (uploaded es = [] \<and> \<not> relayed es \<or> uploaded es @ conn_input t = head @ conn_input s))"

lemma untouched_upload: "untouched s t \<Longrightarrow> upload_exact head s t"
  by (auto simp: untouched_def upload_exact_def)

lemma upload_after: "untouched s t \<Longrightarrow> upload_exact head t u \<Longrightarrow> upload_exact head s u"
  unfolding untouched_def upload_exact_def by (metis append.assoc append_Nil stream_append(1) relayed_simps(2))

lemma idle_run: "idle m \<Longrightarrow> run_state m s = (r, t) \<Longrightarrow> untouched s t"
  by (auto simp: state_io_rel_def) (metis snd_conv)

lemma relay_upload:
  assumes "take (length (conn_events s)) (conn_events t) = conn_events s" "conn_input t = conn_input s"
    "uploaded (drop (length (conn_events s)) (conn_events t)) = head"
  shows "upload_exact head s (snd (run_state (relay W True ins) t))"
proof -
  obtain fs where "conn_events (snd (run_state (relay W True ins) t)) = conn_events t @ fs"
    "uploaded fs @ conn_input (snd (run_state (relay W True ins) t)) = conn_input t"
    using relay_streams [of ins t W True] by (auto simp: streams_def)
  moreover have "conn_events t = conn_events s @ drop (length (conn_events s)) (conn_events t)"
    using assms(1) by (metis append_take_drop_id)
  ultimately show ?thesis using assms(2,3) unfolding upload_exact_def
    by (intro exI [of _ "drop (length (conn_events s)) (conn_events t) @ fs"]) simp
qed

lemma relay_direct_upload:
  assumes "take (length (conn_events s)) (conn_events t) = conn_events s" "conn_input t = conn_input s"
    "uploaded (drop (length (conn_events s)) (conn_events t)) = head"
  shows "upload_exact head s (snd (run_state (relay_direct W joined) t))"
    "upload_exact head s (snd (run_state (relay_direct W joined) t)\<lparr>conn_events := conn_events (snd (run_state (relay_direct W joined) t)) @ [ShutdownClient]\<rparr>)"
proof -
  let ?t = "t\<lparr>conn_events := conn_events t @ [DirectRelay]\<rparr>"
  let ?u = "snd (run_state (relay_direct W joined) t)"
  obtain fs where "conn_events ?u = conn_events t @ DirectRelay # fs" "uploaded fs @ conn_input ?u = conn_input t"
    using copy_direct_streams [of "w_direct_relay W (conn_events t @ [DirectRelay])" ?t W joined True]
    by (auto simp: streams_def relay_direct_def run_simps)
  moreover have "conn_events t = conn_events s @ drop (length (conn_events s)) (conn_events t)"
    using assms(1) by (metis append_take_drop_id)
  ultimately obtain es where "conn_events ?u = conn_events s @ es" "uploaded es @ conn_input ?u = head @ conn_input s"
    using assms(2,3) by (metis append.assoc append_Nil stream_append(1) stream_simps(3) event.case(14))
  then show "upload_exact head s ?u" "upload_exact head s (?u\<lparr>conn_events := conn_events ?u @ [ShutdownClient]\<rparr>)"
    unfolding upload_exact_def by (auto intro!: exI [of _ es] exI [of _ "es @ [ShutdownClient]"])
qed

lemma upload_stop:
  "uploaded es = [] \<and> \<not> relayed es \<or> uploaded es = head \<Longrightarrow> upload_exact head s (s\<lparr>conn_events := conn_events s @ es\<rparr>)"
  by (auto simp: upload_exact_def)

lemma serve_channel_upload:
  "upload_exact head s (snd (run_state (serve_channel W head replied leftover) s))"
  unfolding serve_channel_def reply_bound_any
  by (cases replied; cases "head = []"; cases "leftover = []")
    (simp_all add: run_simps relay_upload upload_stop case_prod_beta split: sum.split)

lemma handle_direct_upload: "upload_exact head s (snd (run_state (handle_direct W t port head replied) s))"
  unfolding handle_direct_def reply_bound_any reply_def Let_def
  by (cases replied; cases "head = []")
    (simp_all add: run_simps upload_stop relay_direct_upload case_prod_beta split: option.split sum.split)

lemma connect_routed_upload: "upload_exact head s (snd (run_state (connect_routed W t port head replied named) s))"
proof (cases "decide_route (w_unicode W) (w_lib W) (w_rules W) t named port")
  case Proxy
  obtain r u where r: "run_state (open_channel W t port) s = (r, u)" by fastforce
  note u = idle_run [OF idle_open_channel r]
  show ?thesis
  proof (cases r)
    case (Inl e)
    then show ?thesis using Proxy r u untouched_upload by (simp add: connect_routed_def run_simps)
  next
    case (Inr leftover)
    then show ?thesis using Proxy r upload_after [OF u serve_channel_upload] by (simp add: connect_routed_def run_simps)
  qed
next
  case Direct
  then show ?thesis by (simp add: connect_routed_def handle_direct_upload)
next
  case Block
  then show ?thesis by (auto simp: connect_routed_def reply_def run_simps upload_exact_def)
qed

lemma handle_connect_upload: "upload_exact [] s (snd (run_state (handle_connect W t port) s))"
proof (cases "sniffs W t")
  case False
  then show ?thesis using connect_routed_upload by (simp add: handle_connect_plain)
next
  case True
  note run = handle_connect_sniffed [OF True, of port s]
  show ?thesis
  proof (cases "sniffed_head W s")
    case None
    then show ?thesis using run by (auto simp: upload_exact_def)
  next
    case (Some head)
    then have "head @ conn_input (sniffed_state W s head) = conn_input s"
      by (auto simp: sniffed_head_def sniffed_state_def split: sum.splits readiness.splits if_splits)
    then show ?thesis
      using run Some connect_routed_upload [where s = "sniffed_state W s head" and head = head]
      unfolding upload_exact_def by fastforce
  qed
qed

text \<open>A world in which everything succeeds and nothing arrives.\<close>

definition sample_world :: "(unit, ip_addr) rule_set \<Rightarrow> (unit, ip_addr) world" where
  "sample_world rs =
     \<lparr>w_unicode = tiny_unicode, w_lib = tiny_lib, w_rules = rs, w_env = (\<lambda>_. None), w_gateway = None,
      w_client_write = (\<lambda>_. Inr ()), w_client_ready = (\<lambda>_ _. ReadStalls),
      w_input_end = \<lparr>io_kind = UnexpectedEof, raw_os_error = None\<rparr>,
      w_open_tcp = (\<lambda>_. Inr ()), w_gateway_open = (\<lambda>_. Some (Inr ())), w_gateway_recv = (\<lambda>_. []),
      w_tunnel_send = (\<lambda>_. Inr ()), w_open_udp = (\<lambda>_. Inr ()), w_dns = (\<lambda>_ _. (0, (\<lambda>_. Inr ()), [])),
      w_direct_connect = (\<lambda>_. Some (Inr ())), w_direct_write = (\<lambda>_. Inr ()), w_relay = (\<lambda>_. []), w_direct_relay = (\<lambda>_. []), w_peeks = (\<lambda>_. []), w_http_connect = (\<lambda>_. Inr ()),
      w_peer_addr = Inr (sock_addr_new (V4 0x7f000001) 4000), w_bind_udp = (\<lambda>_. Inr (sock_addr_new (V4 0x7f000001) 5000)),
      w_lookup_host = (\<lambda>_. Inr []), w_udp_inputs = (\<lambda>_. [])\<rparr>"

definition fresh_conn :: conn where
  "fresh_conn = \<lparr>conn_input = [], conn_events = [], gateway_healthy = True\<rparr>"

subsection \<open>Properties\<close>

text \<open>
  A connection whose name is sniffed is answered before it is routed. When its target then cannot
  be opened, the code still writes the failure reply, so the client receives two replies; it takes
  the second for data of the server it asked for.
\<close>

lemma late_failure_second_reply:
  assumes "sniffs W t" "sniffed_head W s = Some head" "connect_verdict W t port s = Some Proxy"
    "run_state (open_channel W t port) (sniffed_state W s head) = (Inl e, s')"
  shows "run_state (handle_connect W t port) s = (Inl e, s')
    \<and> client_written (new_events (handle_connect W t port) s) = ok_reply @ general_reply"
proof -
  define named where "named = (if head = [] then None else hostname (w_unicode W) head)"
  have "decide_route (w_unicode W) (w_lib W) (w_rules W) t named port = Proxy"
    using assms(1,2,3) by (simp add: connect_verdict_def named_def)
  then have run: "run_state (handle_connect W t port) s = (Inl e, s')"
    using handle_connect_sniffed [OF assms(1), of port s] assms(2,4)
    by (simp add: connect_routed_def run_simps flip: named_def)
  moreover obtain es where "conn_events s' = conn_events (sniffed_state W s head) @ es" "client_written es = general_reply"
    using open_channel_fails [OF assms(4)] by blast
  ultimately show ?thesis by (simp add: new_events_def)
qed

text \<open>
  The gateway's channel is used only after a response head with a 2xx status, and what is then
  handed to the client as the first bytes of the connection is exactly what the gateway sent after
  that head, however the answer was cut into chunks. The request is the only thing sent before.
\<close>

lemma gateway_answer_exact:
  assumes "run_state (open_through_gateway W proxy authority port) s = (Inr leftover, s')"
  shows "let es = [OpenTcp proxy, GatewaySend (build_proxy_connect authority port)]; h = conn_events s @ es in
    \<exists>k at. find_head_end (chan_bytes (take k (w_gateway_recv W h))) = Some at
      \<and> proxy_connect_succeeded (chan_bytes (take k (w_gateway_recv W h))) = Some True
      \<and> leftover = drop at (chan_bytes (take k (w_gateway_recv W h)))
      \<and> conn_events s' = h \<and> conn_input s' = conn_input s"
proof -
  let ?s = "s\<lparr>conn_events := conn_events s @ [OpenTcp proxy, GatewaySend (build_proxy_connect authority port)]\<rparr>"
  have "run_state (gateway_head proxy authority port [] (w_gateway_recv W (conn_events ?s))) ?s = (Inr leftover, s')"
    using assms by (auto simp: open_through_gateway_def run_simps split: option.splits sum.splits)
  from gateway_head_exact [OF this] show ?thesis unfolding Let_def append_Nil by (elim exE) (intro exI, auto)
qed

text \<open>
  The name a client announces is routed first, and a verdict other than Proxy for it is final: a rule
  that blocks the address the client asked for is then not consulted.
\<close>

lemma sniffed_name_overrides_block:
  "decide tiny_unicode tiny_lib \<lparr>rs_block = [Net (V4 1), DomainFull (lit ''x'')], rs_direct = [Ports 443 443]\<rparr>
      (Ip (V4 1)) 443 = Block"
  "decide_route tiny_unicode tiny_lib \<lparr>rs_block = [Net (V4 1), DomainFull (lit ''x'')], rs_direct = [Ports 443 443]\<rparr>
      (TargetIp (V4 1)) (Some (lit ''y'')) 443 = Direct"
  by (simp_all add: decide_route_def decide_def matches_def tiny_lib_def eq_ignore_ascii_case_def chr_defs host_of_def)

end
