(* ===== verification/Socks_Udp.thy ===== *)
theory Socks_Udp
  imports Socks_Connect
begin

text \<open>
  The UDP ASSOCIATE side of the SOCKS server (\<open>socks.rs\<close>): the datagram format, the rule that binds
  an association to one client address, and the loop that serves the client's datagrams, those of
  the tunnel, those of the direct socket and the control connection, in the order they are served.
\<close>

subsection \<open>Datagrams\<close>

text \<open>\<open>parse_udp_request\<close>: the code after the address, at position \<open>pos\<close>, is the same for all kinds.\<close>

definition udp_port_payload :: "bytes \<Rightarrow> target \<Rightarrow> nat \<Rightarrow> (target \<times> u16 \<times> bytes) option outcome" where
  "udp_port_payload buf t pos =
     (if length buf < pos + 2 then Ret None
      else index buf pos (\<lambda>p0. index buf (pos + 1) (\<lambda>p1.
           slice buf (pos + 2) (length buf) (\<lambda>payload. Ret (Some (t, from_be16 p0 p1, payload))))))"

definition parse_udp_request :: "bytes \<Rightarrow> (target \<times> u16 \<times> bytes) option outcome" where
  "parse_udp_request buf =
     (if length buf < 4 then Ret None
      else index buf 2 (\<lambda>frag.
        if frag \<noteq> 0 then Ret None
        else index buf 3 (\<lambda>atyp.
          if atyp = ATYP_V4 then
            if length buf < 4 + 4 then Ret None
            else index buf 4 (\<lambda>a. index buf (4 + 1) (\<lambda>b. index buf (4 + 2) (\<lambda>c. index buf (4 + 3) (\<lambda>d.
                 udp_port_payload buf (TargetIp (V4 (ipv4_from [a, b, c, d]))) (4 + 4)))))
          else if atyp = ATYP_V6 then
            if length buf < 4 + 16 then Ret None
            else slice buf 4 (4 + 16) (\<lambda>b. udp_port_payload buf (TargetIp (V6 (ipv6_from b))) (4 + 16))
          else if atyp = ATYP_DOMAIN then
            qmark (get_at buf 4) (\<lambda>len.
              if length buf < 5 + unat len then Ret None
              else slice buf 5 (5 + unat len) (\<lambda>name.
                   udp_port_payload buf (TargetDomain (from_utf8_lossy name)) (5 + unat len)))
          else Ret None)))"

definition build_udp_reply :: "sock_addr \<Rightarrow> bytes \<Rightarrow> bytes" where
  "build_udp_reply src data = [0x00, 0x00, 0x00] @ addr_bytes src @ data"

subsection \<open>The client of an association\<close>

definition normalize_ip :: "ip_addr \<Rightarrow> ip_addr" where
  "normalize_ip ip =
     (case ip of V6 v6 \<Rightarrow> (case to_ipv4_mapped v6 of Some v4 \<Rightarrow> V4 v4 | None \<Rightarrow> V6 v6) | other \<Rightarrow> other)"

definition expected_udp_source :: "sock_addr \<Rightarrow> target \<Rightarrow> ip_addr" where
  "expected_udp_source control_peer requested =
     (case requested of
        TargetIp ip \<Rightarrow> if \<not> is_unspecified ip then normalize_ip ip else normalize_ip (sa_ip control_peer)
      | _ \<Rightarrow> normalize_ip (sa_ip control_peer))"

definition udp_source_allowed :: "ip_addr \<Rightarrow> sock_addr option \<Rightarrow> sock_addr \<Rightarrow> bool" where
  "udp_source_allowed expected_ip latched src =
     (case latched of
        Some known \<Rightarrow> known = src
      | None \<Rightarrow> normalize_ip (sa_ip src) = normalize_ip expected_ip)"

subsection \<open>Serving datagrams\<close>

definition udp_forward :: "('re, 'net) world \<Rightarrow> target \<Rightarrow> u16 \<Rightarrow> bytes \<Rightarrow> unit handler" where
  "udp_forward W dst port payload =
     (case decide (w_unicode W) (w_lib W) (w_rules W) (host_of dst) port of
        Block \<Rightarrow> State_Monad.return ()
      | Direct \<Rightarrow> do {
          outside \<leftarrow>
            (case dst of
               TargetIp ip \<Rightarrow> State_Monad.return (Some (sock_addr_new ip port))
             | TargetDomain name \<Rightarrow> do {
                 found \<leftarrow> perform (DirectLookup name port) (w_lookup_host W);
                 State_Monad.return (case found of Inr (a # _) \<Rightarrow> Some a | _ \<Rightarrow> None) });
          case outside of
            Some addr \<Rightarrow> emit (DirectUdp addr payload)
          | None \<Rightarrow> State_Monad.return () }
      | Proxy \<Rightarrow>
          (case dst of
             TargetIp ip \<Rightarrow> emit (TunnelUdp (sock_addr_new ip port) payload)
           | TargetDomain name \<Rightarrow> do {
               r \<leftarrow> dns_resolve W name;
               case r of
                 Inr ip \<Rightarrow> emit (TunnelUdp (sock_addr_new ip port) payload)
               | Inl _ \<Rightarrow> State_Monad.return () }))"

definition udp_answer :: "sock_addr option \<Rightarrow> sock_addr \<Rightarrow> bytes \<Rightarrow> unit handler" where
  "udp_answer client src data =
     (case client of
        Some c \<Rightarrow> emit (RelayReply c (build_udp_reply src data))
      | None \<Rightarrow> State_Monad.return ())"

text \<open>
  The loop over what the four sources deliver. Receive buffers hold 65535 bytes. A panic in the
  parser would end the task; \<open>parse_udp_request_returns\<close> shows that there is none. The list ends
  when the association is dropped.
\<close>

fun udp_loop :: "('re, 'net) world \<Rightarrow> ip_addr \<Rightarrow> sock_addr option \<Rightarrow> u64 \<Rightarrow> udp_input list \<Rightarrow> unit handler" where
  "udp_loop W expected_ip client refused [] = State_Monad.return ()"
| "udp_loop W expected_ip client refused (ClientDatagram src data # ins) =
     (if \<not> udp_source_allowed expected_ip client src then udp_loop W expected_ip client (refused + 1) ins
      else let client = (case client of None \<Rightarrow> Some src | Some c \<Rightarrow> Some c) in
        case parse_udp_request (take 65535 data) of
          Ret (Some (dst, port, payload)) \<Rightarrow> do {
            udp_forward W dst port payload;
            udp_loop W expected_ip client refused ins }
        | Ret None \<Rightarrow> udp_loop W expected_ip client refused ins
        | Panic \<Rightarrow> State_Monad.return ())"
| "udp_loop W expected_ip client refused (RelayFails # ins) = State_Monad.return ()"
| "udp_loop W expected_ip client refused (StackDatagram src data # ins) = do {
     udp_answer client src data;
     udp_loop W expected_ip client refused ins }"
| "udp_loop W expected_ip client refused (StackGone # ins) = State_Monad.return ()"
| "udp_loop W expected_ip client refused (DirectDatagram src data # ins) = do {
     udp_answer client src (take 65535 data);
     udp_loop W expected_ip client refused ins }"
| "udp_loop W expected_ip client refused (DirectFails # ins) = udp_loop W expected_ip client refused ins"
| "udp_loop W expected_ip client refused (ControlData # ins) = udp_loop W expected_ip client refused ins"
| "udp_loop W expected_ip client refused (ControlEnds # ins) = State_Monad.return ()"

definition handle_udp_associate :: "('re, 'net) world \<Rightarrow> ip_addr \<Rightarrow> target \<Rightarrow> unit result handler" where
  "handle_udp_associate W bind_ip requested =
     try_then (State_Monad.return (map_sum Io id (w_peer_addr W))) (\<lambda>control_peer.
     let expected_ip = expected_udp_source control_peer requested in
     try_then (do { r \<leftarrow> perform (BindUdp (sock_addr_new bind_ip 0)) (w_bind_udp W);
                    State_Monad.return (map_sum Io id r) }) (\<lambda>relay_addr.
     try_then (reply_bound W relay_addr) (\<lambda>_.
     try_then (perform OpenUdp (w_open_udp W)) (\<lambda>_.
     try_then (do { r \<leftarrow> perform (BindUdp any_addr) (w_bind_udp W);
                    State_Monad.return (map_sum Io id r) }) (\<lambda>_. do {
       ins \<leftarrow> ask (w_udp_inputs W);
       udp_loop W expected_ip None 0 ins;
       emit CloseUdp;
       State_Monad.return (Inr ()) })))))"

subsection \<open>The datagram format\<close>

lemma parse_udp_request_returns: "returns (parse_udp_request buf)"
proof -
  have "returns (udp_port_payload buf t pos)" for t pos by (auto simp: udp_port_payload_def intro!: no_panic)
  then show ?thesis by (auto simp: parse_udp_request_def intro!: no_panic)
qed

definition target_bytes :: "target \<Rightarrow> bytes" where
  "target_bytes t =
     (case t of
        TargetIp (V4 v4) \<Rightarrow> ATYP_V4 # octets4 v4
      | TargetIp (V6 v6) \<Rightarrow> ATYP_V6 # octets6 v6
      | TargetDomain name \<Rightarrow> ATYP_DOMAIN # word_of_nat (str_len name) # utf8_encode name)"

text \<open>A target that fits the wire format: addresses, and ASCII names of at most 255 bytes.\<close>

definition wire_target :: "target \<Rightarrow> bool" where
  "wire_target t = (case t of TargetIp _ \<Rightarrow> True | TargetDomain name \<Rightarrow> ascii name \<and> length name < 256)"

lemma from_to_be16: "to_be16 v = [a, b] \<Longrightarrow> from_be16 a b = v"
  by (simp add: from_be16_eq)

lemma udp_port_payload_exact:
  assumes "buf = pre @ to_be16 port @ payload" "pos = length pre"
  shows "udp_port_payload buf t pos = Ret (Some (t, port, payload))"
proof -
  obtain a b where "to_be16 port = [a, b]" by (rule be16_cases)
  with assms from_to_be16 [OF this] show ?thesis by (simp add: udp_port_payload_def nth_append)
qed

lemma parse_udp_request_exact:
  assumes "wire_target t"
  shows "parse_udp_request ([r0, r1, 0] @ target_bytes t @ to_be16 port @ payload) = Ret (Some (t, port, payload))"
proof (cases t)
  case (TargetIp ip)
  show ?thesis
  proof (cases ip)
    case (V4 v4)
    obtain a b c d where o: "octets4 v4 = [a, b, c, d]" by (rule octets4_cases)
    then have "ipv4_from [a, b, c, d] = v4" using ipv4_from_octets [of v4] by simp
    then show ?thesis
      using TargetIp V4 o by (simp add: parse_udp_request_def target_bytes_def udp_port_payload_exact [where pre = "[r0, r1, 0, ATYP_V4, a, b, c, d]"])
  next
    case (V6 v6)
    then show ?thesis
      using TargetIp by (simp add: parse_udp_request_def target_bytes_def socks_consts
          udp_port_payload_exact [where pre = "[r0, r1, 0, 4] @ octets6 v6"])
  qed
next
  case (TargetDomain name)
  then have n: "ascii name" "length name < 256" using assms by (simp_all add: wire_target_def)
  then have len: "unat (word_of_nat (str_len name) :: u8) = length name" "length (utf8_encode name) = length name"
    by (simp_all add: str_len_ascii unat_of_nat) (metis str_len_ascii str_len_def)
  show ?thesis
    using TargetDomain n len by (simp add: get_at_def parse_udp_request_def target_bytes_def socks_consts from_utf8_lossy_encode_ascii
        udp_port_payload_exact [where pre = "[r0, r1, 0, 3, word_of_nat (str_len name)] @ utf8_encode name"])
qed

subsection \<open>Exclusive service\<close>

text \<open>
  The client an association is bound to: the source of the first datagram from the expected address,
  if one arrives before the association ends.
\<close>

fun latched_source :: "ip_addr \<Rightarrow> udp_input list \<Rightarrow> sock_addr option" where
  "latched_source expected_ip [] = None"
| "latched_source expected_ip (i # ins) =
     (case i of
        ClientDatagram src _ \<Rightarrow>
          if normalize_ip (sa_ip src) = normalize_ip expected_ip then Some src else latched_source expected_ip ins
      | RelayFails \<Rightarrow> None | StackGone \<Rightarrow> None | ControlEnds \<Rightarrow> None
      | _ \<Rightarrow> latched_source expected_ip ins)"

definition from_source :: "sock_addr option \<Rightarrow> udp_input \<Rightarrow> bool" where
  "from_source c i = (case i of ClientDatagram src _ \<Rightarrow> c = Some src | _ \<Rightarrow> True)"

definition reply_to :: "sock_addr option \<Rightarrow> event \<Rightarrow> bool" where
  "reply_to c e = (case e of RelayReply a _ \<Rightarrow> c = Some a | _ \<Rightarrow> True)"

lemma from_source_simps [simp]:
  "from_source c (ClientDatagram src d) \<longleftrightarrow> c = Some src" "from_source c RelayFails" "from_source c (StackDatagram src d)"
  "from_source c StackGone" "from_source c (DirectDatagram src d)" "from_source c DirectFails" "from_source c ControlData"
  "from_source c ControlEnds"
  by (simp_all add: from_source_def)

lemma udp_loop_latched: "udp_loop W x (Some c) r ins = udp_loop W x (Some c) r' (filter (from_source (Some c)) ins)"
proof (induction ins arbitrary: r r')
  case (Cons i ins)
  show ?case
  proof (cases i)
    case (ClientDatagram src d)
    then show ?thesis
      using Cons [of r r'] Cons [of "r + 1" r'] by (auto simp: udp_source_allowed_def Let_def split: outcome.split option.split)
  qed (use Cons [of r r'] in auto)
qed simp

lemma udp_loop_filter:
  "udp_loop W x None r ins = udp_loop W x None r' (filter (from_source (latched_source x ins)) ins)"
proof (induction ins arbitrary: r r')
  case (Cons i ins)
  show ?case
  proof (cases i)
    case (ClientDatagram src d)
    show ?thesis
    proof (cases "normalize_ip (sa_ip src) = normalize_ip x")
      case True
      then show ?thesis
        using ClientDatagram udp_loop_latched [of W x src r ins r']
        by (auto simp: udp_source_allowed_def Let_def split: outcome.split option.split)
    next
      case False
      have "latched_source x ins = Some src \<Longrightarrow> False"
      proof (induction ins)
        case (Cons j js)
        then show ?case using False by (cases j) (auto split: if_splits)
      qed simp
      then show ?thesis using ClientDatagram False Cons [of "r + 1" r'] by (auto simp: udp_source_allowed_def)
    qed
  qed (use Cons [of r r'] in auto)
qed simp

lemma reply_to_RelayReply [simp]: "reply_to c (RelayReply a b) \<longleftrightarrow> c = Some a"
  by (simp add: reply_to_def)

lemma emits_udp_forward:
  "(\<And>e. (\<forall>a b. e \<noteq> RelayReply a b) \<Longrightarrow> P e) \<Longrightarrow> emits P (udp_forward W dst port payload)"
  unfolding udp_forward_def dns_resolve_def by (auto intro!: emits_rules split: action.splits target.splits)

lemma udp_forward_reply_to [emits_rules]: "emits (reply_to c) (udp_forward W dst port payload)"
  by (rule emits_udp_forward) (auto simp: reply_to_def split: event.splits)

lemma udp_answer_reply_to [emits_rules]: "emits (reply_to c) (udp_answer c src d)" "emits (reply_to c) (udp_answer None src d)"
  unfolding udp_answer_def by (auto intro!: emits_rules)

lemma udp_loop_replies: "emits (reply_to (Some c)) (udp_loop W x (Some c) r ins)"
proof (induction ins arbitrary: r)
  case (Cons i ins)
  then show ?case
    by (cases i) (auto intro!: emits_rules simp: Let_def split: outcome.splits option.splits)
qed (simp add: emits_rules)

lemma udp_loop_replies_latched: "emits (reply_to (latched_source x ins)) (udp_loop W x None r ins)"
proof (induction ins arbitrary: r)
  case (Cons i ins)
  then show ?case
    using udp_loop_replies
    by (cases i) (auto intro!: emits_rules simp: udp_source_allowed_def Let_def split: outcome.splits option.splits)
qed (simp add: emits_rules)

lemma udp_forward_honours:
  "honours (Some (decide (w_unicode W) (w_lib W) (w_rules W) (host_of dst) port)) (new_events (udp_forward W dst port payload) s)"
proof -
  let ?v = "decide (w_unicode W) (w_lib W) (w_rules W) (host_of dst) port" and ?m = "udp_forward W dst port payload"
  have "case ?v of Direct \<Rightarrow> emits (\<lambda>e. \<not> tunnel_event e) ?m | Proxy \<Rightarrow> emits (\<lambda>e. \<not> direct_event e) ?m
      | Block \<Rightarrow> emits (\<lambda>e. \<not> tunnel_event e \<and> \<not> direct_event e) ?m"
    unfolding udp_forward_def dns_resolve_def by (auto intro!: emits_rules split: action.split target.splits)
  then show ?thesis by (auto simp: honours_def intro: list_all_new_events split: action.splits)
qed

text \<open>The datagrams a run of a handler sends on, with their destinations.\<close>

definition datagrams_out :: "event list \<Rightarrow> bytes list" where
  "datagrams_out es = List.map_filter (\<lambda>e. case e of TunnelUdp _ b \<Rightarrow> Some b | DirectUdp _ b \<Rightarrow> Some b | _ \<Rightarrow> None) es"

lemma udp_forward_once:
  "datagrams_out (new_events (udp_forward W dst port payload) s) \<in> {[], [payload]}"
  unfolding udp_forward_def dns_resolve_def
  by (auto simp: new_events_def run_simps datagrams_out_def List.map_filter_simps split: action.splits target.splits sum.splits
      list.splits)

lemma addr_bytes_target: "addr_bytes a = target_bytes (TargetIp (sa_ip a)) @ to_be16 (sa_port a)"
  by (cases "sa_ip a") (simp_all add: addr_bytes_def target_bytes_def)

subsection \<open>Properties\<close>

text \<open>
  C10: An association serves one client only. It is bound to the source of the first datagram that
  comes from the expected address; datagrams from any other source, before or after, change nothing
  at all in what the association does; and every datagram it returns goes to the bound client, so
  none is returned before a client is bound.
\<close>

theorem udp_association_exclusive:
  "let c = latched_source expected_ip ins; m = udp_loop W expected_ip None 0 ins in
   m = udp_loop W expected_ip None 0 (filter (from_source c) ins) \<and> list_all (reply_to c) (new_events m s)"
  using udp_loop_filter [of W expected_ip 0 ins 0] udp_loop_replies_latched [of expected_ip ins W 0]
  by (auto simp: Let_def intro: list_all_new_events)

text \<open>
  C15: Every datagram of an association is routed on its own: one whose destination is blocked causes
  no traffic at all, not even a name lookup, a direct one keeps off the tunnel, a proxied one is
  resolved and sent in the tunnel only. It is sent at most once, with the payload it came with.
\<close>

theorem udp_datagram_routed:
  "let es = new_events (udp_forward W dst port payload) s in
   honours (Some (decide (w_unicode W) (w_lib W) (w_rules W) (host_of dst) port)) es \<and> datagrams_out es \<in> {[], [payload]}"
  unfolding Let_def by (intro conjI udp_forward_honours udp_forward_once)

text \<open>
  The UDP wrapper of SOCKS is read back exactly: a request for an address or for an ASCII name of
  at most 255 bytes yields its target, port and payload, and so does a datagram the server returns to
  its client, which names the source it came from. No datagram makes the parser panic.
\<close>

lemma udp_request_roundtrip:
  assumes "wire_target t"
  shows "parse_udp_request ([0, 0, 0] @ target_bytes t @ to_be16 port @ payload) = Ret (Some (t, port, payload))
    \<and> parse_udp_request (build_udp_reply src data) = Ret (Some (TargetIp (sa_ip src), sa_port src, data))
    \<and> returns (parse_udp_request buf)"
  using parse_udp_request_exact [OF assms, of 0 0] parse_udp_request_returns
    parse_udp_request_exact [of "TargetIp (sa_ip src)" 0 0 "sa_port src" data]
  by (simp add: build_udp_reply_def addr_bytes_target wire_target_def)

end
