(* ===== verification/Socks_Server.thy ===== *)
theory Socks_Server
  imports Socks_Udp
begin

text \<open>
  The SOCKS5 server (\<open>socks.rs\<close>): greeting, request, dispatch of a client, and the accept loop with its
  policy for failed accepts, which the HTTP proxy shares.
\<close>

subsection \<open>One client\<close>

definition handshake :: "('re, 'net) world \<Rightarrow> unit result handler" where
  "handshake W =
     try_then (read_exact W 2) (\<lambda>prefix.
       if prefix ! 0 \<noteq> VER then State_Monad.return (Inl (Other (lit ''bad greeting version'')))
       else try_then (read_exact W (unat (prefix ! 1))) (\<lambda>methods. write_client W [VER, 0x00]))"

definition read_address :: "('re, 'net) world \<Rightarrow> u8 \<Rightarrow> target result handler" where
  "read_address W atyp =
     (if atyp = ATYP_V4 then
        try_then (read_exact W 4) (\<lambda>b. State_Monad.return (Inr (TargetIp (V4 (ipv4_from b)))))
      else if atyp = ATYP_V6 then
        try_then (read_exact W 16) (\<lambda>b. State_Monad.return (Inr (TargetIp (V6 (ipv6_from b)))))
      else if atyp = ATYP_DOMAIN then
        try_then (read_exact W 1) (\<lambda>len.
        try_then (read_exact W (unat (len ! 0))) (\<lambda>name.
        State_Monad.return (Inr (TargetDomain (from_utf8_lossy name)))))
      else State_Monad.return (Inl (Other (lit ''bad atyp''))))"

definition read_target :: "('re, 'net) world \<Rightarrow> u8 \<Rightarrow> (target \<times> u16) result handler" where
  "read_target W atyp =
     try_then (read_address W atyp) (\<lambda>t.
     try_then (read_exact W 2) (\<lambda>port.
     State_Monad.return (Inr (t, from_be16 (port ! 0) (port ! 1)))))"

definition handle_client :: "('re, 'net) world \<Rightarrow> ip_addr \<Rightarrow> unit result handler" where
  "handle_client W bind_ip =
     try_then (handshake W) (\<lambda>_.
     try_then (read_exact W 4) (\<lambda>head.
       if head ! 0 \<noteq> VER then State_Monad.return (Inl (Other (lit ''bad socks version'')))
       else let cmd = head ! 1; atyp = head ! 3 in
         try_then (read_target W atyp) (\<lambda>(t, port).
           if cmd = CMD_CONNECT then handle_connect W t port
           else if cmd = CMD_UDP_ASSOCIATE then handle_udp_associate W bind_ip t
           else try_then (reply W REP_NOT_SUPPORTED) (\<lambda>_.
             State_Monad.return (Inl (Other (lit ''unsupported socks command'')))))))"

subsection \<open>Accepting\<close>

text \<open>The numbers of the four resource errors on Linux and Android.\<close>

definition ENOMEM :: int where "ENOMEM = 12"
definition ENFILE :: int where "ENFILE = 23"
definition EMFILE :: int where "EMFILE = 24"
definition ENOBUFS :: int where "ENOBUFS = 105"

text \<open>The delay before the next accept, in milliseconds; \<^term>\<open>None\<close> when the listener has to stop.\<close>

definition accept_backoff :: "io_error \<Rightarrow> nat option" where
  "accept_backoff error =
     (if io_kind error \<in> {ConnectionAborted, ConnectionReset, ConnectionRefused, Interrupted, WouldBlock, TimedOut, PermissionDenied}
      then Some 0
      else case raw_os_error error of
             Some n \<Rightarrow> if n = EMFILE \<or> n = ENFILE \<or> n = ENOBUFS \<or> n = ENOMEM then Some 100 else None
           | None \<Rightarrow> None)"

datatype 'c listener_action = Spawn 'c | Pause nat

text \<open>
  The accept loop over what \<open>accept\<close> returns: what it does in turn, and the error it returns, if it
  returns. Finished clients are reaped in between, which has no effect of its own.
\<close>

fun serve :: "(io_error + 'c) list \<Rightarrow> 'c listener_action list \<times> aether_error option" where
  "serve [] = ([], None)"
| "serve (Inr client # rest) = (let (acts, r) = serve rest in (Spawn client # acts, r))"
| "serve (Inl error # rest) =
     (case accept_backoff error of
        Some delay \<Rightarrow> (let (acts, r) = serve rest in (Pause delay # acts, r))
      | None \<Rightarrow> ([], Some (Io error)))"

subsection \<open>Reading a request\<close>

lemma run_read_exact_prefix:
  assumes "conn_input s = xs @ rest" "length xs = n"
  shows "run_state (read_exact W n) s = (Inr xs, s\<lparr>conn_input := rest\<rparr>)"
  using assms by (simp add: run_read_exact)

lemma run_read_address:
  assumes "wire_target t" "conn_input s = tl (target_bytes t) @ rest"
  shows "run_state (read_address W (hd (target_bytes t))) s = (Inr t, s\<lparr>conn_input := rest\<rparr>)"
proof (cases t)
  case (TargetIp ip)
  then show ?thesis
    using assms run_read_exact_prefix [where W = W and s = s and n = "length (tl (target_bytes t))"]
    by (cases ip) (simp_all add: read_address_def run_try target_bytes_def socks_consts)
next
  case (TargetDomain name)
  then have n: "ascii name" "length name < 256" using assms by (simp_all add: wire_target_def)
  then have len: "unat (word_of_nat (str_len name) :: u8) = length name" "length (utf8_encode name) = length name"
    by (simp_all add: str_len_ascii unat_of_nat) (metis str_len_ascii str_len_def)
  then show ?thesis
    using TargetDomain assms n
    by (simp add: read_address_def run_simps target_bytes_def socks_consts from_utf8_lossy_encode_ascii)
qed

lemma run_read_target:
  assumes "wire_target t" "conn_input s = tl (target_bytes t) @ to_be16 port @ rest"
  shows "run_state (read_target W (hd (target_bytes t))) s = (Inr (t, port), s\<lparr>conn_input := rest\<rparr>)"
proof -
  obtain a b where p: "to_be16 port = [a, b]" by (rule be16_cases)
  show ?thesis
    using run_read_address [OF assms, of W] from_to_be16 [OF p] p by (simp add: read_target_def run_simps)
qed

text \<open>The bytes a client sends before its data: a greeting with its methods, and a request.\<close>

definition greeting :: "bytes \<Rightarrow> bytes" where
  "greeting methods = [VER, word_of_nat (length methods)] @ methods"

definition request_bytes :: "u8 \<Rightarrow> u8 \<Rightarrow> target \<Rightarrow> u16 \<Rightarrow> bytes" where
  "request_bytes cmd rsv t port = [VER, cmd, rsv] @ target_bytes t @ to_be16 port"

lemma run_handshake:
  assumes "conn_input s = greeting methods @ rest" "length methods < 256"
  shows "run_state (handshake W) s =
    (map_sum Io (\<lambda>_. ()) (w_client_write W (conn_events s @ [WriteClient [VER, 0]])),
     s\<lparr>conn_input := rest, conn_events := conn_events s @ [WriteClient [VER, 0]]\<rparr>)"
  using assms by (simp add: handshake_def greeting_def run_simps unat_of_nat)

lemma target_bytes_ne: "target_bytes t \<noteq> []"
  by (cases t rule: target.exhaust; simp add: target_bytes_def split: ip_addr.splits)

lemma serve_survives:
  assumes "list_all (\<lambda>a. case a of Inl e \<Rightarrow> accept_backoff e \<noteq> None | Inr _ \<Rightarrow> True) accepts"
  shows "snd (serve accepts) = None
    \<and> [c. Spawn c \<leftarrow> fst (serve accepts)] = [c. Inr c \<leftarrow> accepts] \<and> length (fst (serve accepts)) = length accepts"
  using assms
  by (induction accepts rule: serve.induct) (auto simp: case_prod_beta Let_def split: option.splits)

subsection \<open>Properties\<close>

text \<open>
  A client that speaks SOCKS5 gets what it asks for: after any greeting and a CONNECT request for
  an address or an ASCII name of at most 255 bytes, the server has answered the greeting and handles
  a connection to exactly that target and port, with exactly the bytes after the request still to
  be read. An UDP ASSOCIATE request is dispatched likewise.
\<close>

lemma socks_request_dispatched:
  assumes "conn_input s = greeting methods @ request_bytes cmd rsv t port @ rest"
    "length methods < 256" "wire_target t" "cmd = CMD_CONNECT \<or> cmd = CMD_UDP_ASSOCIATE"
    "w_client_write W (conn_events s @ [WriteClient [VER, 0]]) = Inr ()"
  shows "run_state (handle_client W bind_ip) s =
    run_state (if cmd = CMD_CONNECT then handle_connect W t port else handle_udp_associate W bind_ip t)
      (s\<lparr>conn_events := conn_events s @ [WriteClient [VER, 0]], conn_input := rest\<rparr>)"
proof -
  obtain atyp addr where t: "target_bytes t = atyp # addr" using target_bytes_ne [of t] by (cases "target_bytes t") auto
  let ?r = "addr @ to_be16 port @ rest"
  have "run_state (handshake W) s = (Inr (), s\<lparr>conn_input := [VER, cmd, rsv, atyp] @ ?r,
      conn_events := conn_events s @ [WriteClient [VER, 0]]\<rparr>)"
    using run_handshake [of s methods "[VER, cmd, rsv, atyp] @ ?r" W] assms(1,2,5) by (simp add: request_bytes_def t)
  moreover have "run_state (read_target W atyp) (s\<lparr>conn_events := conn_events s @ [WriteClient [VER, 0]], conn_input := ?r\<rparr>)
      = (Inr (t, port), s\<lparr>conn_events := conn_events s @ [WriteClient [VER, 0]], conn_input := rest\<rparr>)"
    using run_read_target [OF assms(3), of "s\<lparr>conn_events := conn_events s @ [WriteClient [VER, 0]], conn_input := ?r\<rparr>" port rest W]
    by (simp add: t)
  ultimately show ?thesis
    using assms(4) by (auto simp: handle_client_def run_simps Let_def socks_consts)
qed

end
