(* ===== verification/Http_Proxy.thy ===== *)
theory Http_Proxy
  imports Socks_Server
begin

text \<open>
  The HTTP proxy (\<open>socks.rs\<close>, second half): reading a request head without consuming what follows it,
  the request line, and serving CONNECT and absolute-form requests through the tunnel or directly.
\<close>

definition HTTP_HEAD_LIMIT :: nat where "HTTP_HEAD_LIMIT = 16 * 1024"

subsection \<open>The request line\<close>

record http_request_line =
  req_method :: str
  req_authority :: str
  req_port :: u16
  req_rewritten :: "str option"

definition parse_authority :: "str \<Rightarrow> u16 \<Rightarrow> (str \<times> u16) option" where
  "parse_authority raw default_port =
     (let raw = trim raw in
      if raw = [] then None
      else case strip_prefix [91] raw of
        Some rest \<Rightarrow> do {
          (host, tl) \<leftarrow> split_once 93 rest;
          if host = [] then None
          else do {
            port \<leftarrow> (case strip_prefix [58] tl of Some v \<Rightarrow> parse_u16 v | None \<Rightarrow> Some default_port);
            Some (host, port) } }
      | None \<Rightarrow>
          (case rsplit_once 58 raw of
             Some (host, port) \<Rightarrow>
               if 58 \<notin> set host then
                 (if host = [] then None else map_option (\<lambda>p. (host, p)) (parse_u16 port))
               else Some (raw, default_port)
           | None \<Rightarrow> Some (raw, default_port)))"

definition parse_request_line :: "str \<Rightarrow> http_request_line option" where
  "parse_request_line line =
     (let parts = split_whitespace line in do {
      meth \<leftarrow> get_at parts 0;
      t \<leftarrow> get_at parts 1;
      let version = (case get_at parts 2 of Some v \<Rightarrow> v | None \<Rightarrow> lit ''HTTP/1.1'');
      if eq_ignore_ascii_case meth (lit ''CONNECT'') then do {
        (authority, port) \<leftarrow> parse_authority t 443;
        Some \<lparr>req_method = meth, req_authority = authority, req_port = port, req_rewritten = None\<rparr> }
      else do {
        without_scheme \<leftarrow> (case strip_prefix (lit ''http://'') t of
            Some r \<Rightarrow> Some r | None \<Rightarrow> strip_prefix (lit ''HTTP://'') t);
        let (authority_part, path) = (case find_sub [47] without_scheme of
            Some i \<Rightarrow> (take i without_scheme, drop i without_scheme) | None \<Rightarrow> (without_scheme, lit ''/''));
        (authority, port) \<leftarrow> parse_authority authority_part 80;
        Some \<lparr>req_method = meth, req_authority = authority, req_port = port,
              req_rewritten = Some (meth @ lit '' '' @ path @ lit '' '' @ version @ crlf)\<rparr> } })"

subsection \<open>The request head\<close>

text \<open>
  One iteration of \<open>read_head\<close>: what a peek shows of the bytes \<open>input\<close> the client has sent, when \<open>n\<close> of
  them are buffered and \<open>seen\<close> were seen before.
\<close>

datatype head_scan = HeadClosed | HeadEnds nat | HeadTooLarge | HeadMore nat

definition peek_len :: "nat \<Rightarrow> nat \<Rightarrow> bytes \<Rightarrow> nat" where
  "peek_len seen n input =
     (let window = min (seen + 1024) (HTTP_HEAD_LIMIT + 4) in min window (min (max 1 n) (length input)))"

definition scan_head :: "nat \<Rightarrow> nat \<Rightarrow> bytes \<Rightarrow> head_scan" where
  "scan_head seen n input =
     (let available = peek_len seen n input in
      if available = 0 then HeadClosed
      else let search_from = seen - 3 in
        case find_sub [13, 10, 13, 10] (drop search_from (take available input)) of
          Some pos \<Rightarrow> HeadEnds (search_from + pos + 4)
        | None \<Rightarrow> if HTTP_HEAD_LIMIT < available then HeadTooLarge else HeadMore available)"

text \<open>
  The loop over what successive peeks find buffered; a peek that fails, and the end of the list, is
  a connection error. A peek leaves the bytes where they are.
\<close>

fun read_head_loop :: "('re, 'net) world \<Rightarrow> nat \<Rightarrow> readiness list \<Rightarrow> bytes result handler" where
  "read_head_loop W seen (SomeReady n # peeks) = do {
     s \<leftarrow> State_Monad.get;
     case scan_head seen n (conn_input s) of
       HeadClosed \<Rightarrow> State_Monad.return (Inl (Other (lit ''the http client closed before sending a request'')))
     | HeadEnds n \<Rightarrow> read_exact W n
     | HeadTooLarge \<Rightarrow> State_Monad.return (Inl (Other (lit ''http request head too large'')))
     | HeadMore available \<Rightarrow> read_head_loop W available peeks }"
| "read_head_loop W seen (ReadStalls # peeks) = read_head_loop W seen peeks"
| "read_head_loop W seen (ReadFails # peeks) = State_Monad.return (Inl (Io (w_input_end W)))"
| "read_head_loop W seen [] = State_Monad.return (Inl (Io (w_input_end W)))"

definition read_head :: "('re, 'net) world \<Rightarrow> bytes result handler" where
  "read_head W = do { peeks \<leftarrow> ask (w_peeks W); read_head_loop W 0 peeks }"

subsection \<open>Serving a request\<close>

definition open_tunneled :: "('re, 'net) world \<Rightarrow> target \<Rightarrow> u16 \<Rightarrow> bytes result handler" where
  "open_tunneled W t port =
     (let plain = try_then (resolve W t) (\<lambda>ip.
            try_then (perform (OpenTcp (sock_addr_new ip port)) (w_open_tcp W)) (\<lambda>_.
            State_Monad.return (Inr []))) in
      do {
        proxy \<leftarrow> gateway_proxy W;
        let via_gateway = (if should_use_gateway port then proxy else None);
        case via_gateway of
          Some proxy \<Rightarrow> do {
            r \<leftarrow> open_through_gateway W proxy (show_target t) port;
            case r of
              Inr conn \<Rightarrow> State_Monad.return (Inr conn)
            | Inl e \<Rightarrow> do { retire_gateway; plain } }
        | None \<Rightarrow> plain })"

definition http_status :: "str \<Rightarrow> bytes" where
  "http_status s = utf8_encode (lit ''HTTP/1.1 '' @ s @ crlf @ lit ''Connection: close'' @ crlf @ crlf)"

definition http_established :: bytes where
  "http_established = utf8_encode (lit ''HTTP/1.1 200 Connection established'' @ crlf @ crlf)"

text \<open>The head to send upstream: the rewritten request line and what followed the first line.\<close>

definition http_preamble :: "str \<Rightarrow> str \<Rightarrow> bytes" where
  "http_preamble line text =
     utf8_encode (line @ (case find_sub crlf text of Some i \<Rightarrow> drop (i + 2) text | None \<Rightarrow> []))"

definition relay_http_direct :: "('re, 'net) world \<Rightarrow> http_request_line \<Rightarrow> bytes \<Rightarrow> unit result handler" where
  "relay_http_direct W request head = do {
     upstream \<leftarrow> perform (DirectConnect (req_authority request @ lit '':'' @ show_nat (unat (req_port request))))
       (w_http_connect W);
     case upstream of
       Inl e \<Rightarrow> do {
         _ \<leftarrow> write_client W (http_status (lit ''502 Bad Gateway''));
         State_Monad.return (Inl (Io e)) }
     | Inr _ \<Rightarrow>
         try_then
           (case req_rewritten request of
              Some line \<Rightarrow> do {
                r \<leftarrow> perform (DirectSend (http_preamble line (from_utf8_lossy head))) (w_direct_write W);
                State_Monad.return (map_sum Io id r) }
            | None \<Rightarrow> write_client W http_established) (\<lambda>_. do {
           relay_direct W True;
           State_Monad.return (Inr ()) }) }"

definition first_line :: "str \<Rightarrow> str" where
  "first_line text = (case lines text of [] \<Rightarrow> [] | l # _ \<Rightarrow> l)"

definition http_target :: "http_request_line \<Rightarrow> target" where
  "http_target request =
     (case parse_ip (req_authority request) of Some ip \<Rightarrow> TargetIp ip | None \<Rightarrow> TargetDomain (req_authority request))"

text \<open>Serving a request over an open channel.\<close>

definition serve_http_channel :: "('re, 'net) world \<Rightarrow> http_request_line \<Rightarrow> str \<Rightarrow> bytes \<Rightarrow> unit result handler" where
  "serve_http_channel W request text leftover =
     (let preamble = map_option (\<lambda>line. http_preamble line text) (req_rewritten request) in
      try_then (if req_rewritten request = None then write_client W http_established else State_Monad.return (Inr ())) (\<lambda>_. do {
        written \<leftarrow> (if leftover \<noteq> [] then write_client W leftover else State_Monad.return (Inr ()));
        case written of
          Inl _ \<Rightarrow> State_Monad.return (Inr ())
        | Inr _ \<Rightarrow> do {
            sent \<leftarrow> (case preamble of
                Some bs \<Rightarrow> perform (TunnelSend bs) (w_tunnel_send W) | None \<Rightarrow> State_Monad.return (Inr ()));
            case sent of
              Inl _ \<Rightarrow> State_Monad.return (Inr ())
            | Inr _ \<Rightarrow> do {
                ins \<leftarrow> ask (w_relay W);
                relay W True ins;
                State_Monad.return (Inr ()) } } }))"

definition http_routed :: "('re, 'net) world \<Rightarrow> http_request_line \<Rightarrow> bytes \<Rightarrow> unit result handler" where
  "http_routed W request head =
     (case decide (w_unicode W) (w_lib W) (w_rules W) (host_of (http_target request)) (req_port request) of
        Block \<Rightarrow> do {
          _ \<leftarrow> write_client W (http_status (lit ''403 Forbidden''));
          State_Monad.return (Inr ()) }
      | Direct \<Rightarrow> relay_http_direct W request head
      | Proxy \<Rightarrow> do {
          channel \<leftarrow> open_tunneled W (http_target request) (req_port request);
          case channel of
            Inl error \<Rightarrow> do {
              _ \<leftarrow> write_client W (http_status (lit ''502 Bad Gateway''));
              State_Monad.return (Inl error) }
          | Inr leftover \<Rightarrow> serve_http_channel W request (from_utf8_lossy head) leftover })"

definition handle_http_client :: "('re, 'net) world \<Rightarrow> unit result handler" where
  "handle_http_client W =
     try_then (read_head W) (\<lambda>head.
       let line = first_line (from_utf8_lossy head) in
       case parse_request_line line of
         None \<Rightarrow> do {
           _ \<leftarrow> write_client W (http_status (lit ''400 Bad Request''));
           State_Monad.return (Inl (Other (lit ''unsupported http proxy request: '' @ line))) }
       | Some request \<Rightarrow> http_routed W request head)"

text \<open>The accept loop of the HTTP proxy; its policy for failed accepts is that of the SOCKS server.\<close>

fun serve_http :: "(io_error + 'c) list \<Rightarrow> 'c listener_action list \<times> aether_error option" where
  "serve_http [] = ([], None)"
| "serve_http (accept # rest) =
     (case accept of
        Inr client \<Rightarrow> (let (acts, r) = serve_http rest in (Spawn client # acts, r))
      | Inl error \<Rightarrow>
          (case accept_backoff error of
             Some delay \<Rightarrow> (let (acts, r) = serve_http rest in (Pause delay # acts, r))
           | None \<Rightarrow> ([], Some (Io error))))"

lemma serve_http_eq: "serve_http accepts = serve accepts"
  by (induction accepts rule: serve.induct) (simp_all split: option.split)

subsection \<open>Opening\<close>

lemma open_plain_eq:
  "open_plain W t port = do {
     r \<leftarrow> try_then (resolve W t) (\<lambda>ip.
            try_then (perform (OpenTcp (sock_addr_new ip port)) (w_open_tcp W)) (\<lambda>_. State_Monad.return (Inr [])));
     case r of Inl e \<Rightarrow> do { _ \<leftarrow> reply W REP_GENERAL; State_Monad.return (Inl e) }
             | Inr l \<Rightarrow> State_Monad.return (Inr l) }"
  unfolding open_plain_def by (rule state_ext) (auto simp: run_simps split: prod.split sum.split)

lemma open_channel_tunneled:
  "open_channel W t port = do {
     r \<leftarrow> open_tunneled W t port;
     case r of Inl e \<Rightarrow> do { _ \<leftarrow> reply W REP_GENERAL; State_Monad.return (Inl e) }
             | Inr leftover \<Rightarrow> State_Monad.return (Inr leftover) }"
  unfolding open_channel_def open_plain_eq open_tunneled_def Let_def
  by (rule state_ext) (auto simp: case_prod_beta split: sum.split option.split)

subsection \<open>Finding the end of the head\<close>

lemma find_sub_Some_iff:
  assumes "p \<noteq> []"
  shows "find_sub p xs = Some i \<longleftrightarrow> starts_with (drop i xs) p \<and> (\<forall>j<i. \<not> starts_with (drop j xs) p)"
proof (induction xs arbitrary: i)
  case Nil
  then show ?case using assms by (auto simp: starts_with_def)
next
  case (Cons x xs)
  show ?case
  proof (cases i)
    case 0
    then show ?thesis by (auto split: if_splits)
  next
    case (Suc k)
    then show ?thesis using Cons [of k] by (auto simp: less_Suc_eq_0_disj)
  qed
qed

lemma find_sub_None_iff: "p \<noteq> [] \<Longrightarrow> find_sub p xs = None \<longleftrightarrow> (\<forall>j. \<not> starts_with (drop j xs) p)"
proof (induction xs)
  case (Cons x xs)
  have "(\<forall>j. \<not> starts_with (drop j (x # xs)) p) \<longleftrightarrow> \<not> starts_with (x # xs) p \<and> (\<forall>j. \<not> starts_with (drop j xs) p)"
    by (metis drop0 drop_Suc_Cons not0_implies_Suc)
  then show ?case using Cons by simp
qed (simp add: starts_with_def)

abbreviation head_at :: "bytes \<Rightarrow> nat \<Rightarrow> bool" where
  "head_at xs j \<equiv> starts_with (drop j xs) [13, 10, 13, 10]"

lemma head_at_take: "head_at (take a xs) j \<longleftrightarrow> j + 4 \<le> a \<and> head_at xs j"
proof -
  have "take 4 (take (a - j) ys) = [13, 10, 13, 10] \<longleftrightarrow> 4 \<le> a - j \<and> take 4 ys = [13, 10, 13, 10 :: u8]" for ys
  proof (cases "4 \<le> a - j")
    case False
    then have "length (take 4 (take (a - j) ys)) < length [13, 10, 13, 10 :: u8]" by simp
    then show ?thesis using False by (metis less_irrefl)
  qed (simp add: min_def)
  then have "take 4 (drop j (take a xs)) = [13, 10, 13, 10] \<longleftrightarrow> 4 \<le> a - j \<and> take 4 (drop j xs) = [13, 10, 13, 10]"
    by (simp add: drop_take)
  then show ?thesis by (auto simp: starts_with_def numeral_eq_Suc)
qed

lemma find_head_end_iff:
  "find_head_end xs = Some e \<longleftrightarrow> 4 \<le> e \<and> head_at xs (e - 4) \<and> (\<forall>j. j + 4 < e \<longrightarrow> \<not> head_at xs j)"
proof -
  have "find_head_end xs = Some e \<longleftrightarrow> 4 \<le> e \<and> find_sub [13, 10, 13, 10] xs = Some (e - 4)"
    by (auto simp: find_head_end_def)
  then show ?thesis by (auto simp: find_sub_Some_iff)
qed

text \<open>No head ends within the first \<open>seen\<close> bytes: the invariant of the loop.\<close>

definition no_head_before :: "nat \<Rightarrow> bytes \<Rightarrow> bool" where
  "no_head_before seen input \<longleftrightarrow> (\<forall>j. j + 4 \<le> seen \<longrightarrow> \<not> head_at input j)"

lemma scan_head_ends:
  assumes "no_head_before seen input" "scan_head seen n input = HeadEnds e"
  shows "find_head_end input = Some e"
proof -
  let ?a = "peek_len seen n input"
  obtain pos where pos: "find_sub [13, 10, 13, 10] (drop (seen - 3) (take ?a input)) = Some pos" "e = seen - 3 + pos + 4"
    using assms(2) by (auto simp: scan_head_def Let_def split: option.splits if_splits)
  then have "head_at (take ?a input) (seen - 3 + pos)" "\<forall>j<pos. \<not> head_at (take ?a input) (seen - 3 + j)"
    by (simp_all add: find_sub_Some_iff drop_drop add.commute)
  then have at: "head_at input (seen - 3 + pos)" "seen - 3 + pos + 4 \<le> ?a"
    and before: "\<And>j. j < pos \<Longrightarrow> \<not> head_at input (seen - 3 + j)"
    by (auto simp: head_at_take)
  have "\<not> head_at input j" if j: "j + 4 < e" for j
  proof (cases "seen - 3 \<le> j")
    case True
    then show ?thesis using before [of "j - (seen - 3)"] j pos(2) by simp
  next
    case False
    then show ?thesis using assms(1) by (simp add: no_head_before_def)
  qed
  then show ?thesis using at pos(2) by (auto simp: find_head_end_iff)
qed

lemma scan_head_more:
  assumes "no_head_before seen input" "scan_head seen n input = HeadMore a \<or> scan_head seen n input = HeadTooLarge"
  shows "no_head_before (peek_len seen n input) input"
    "scan_head seen n input = HeadMore a \<Longrightarrow> a = peek_len seen n input"
    "scan_head seen n input = HeadTooLarge \<Longrightarrow> HTTP_HEAD_LIMIT < peek_len seen n input"
proof -
  let ?a = "peek_len seen n input"
  have none: "find_sub [13, 10, 13, 10] (drop (seen - 3) (take ?a input)) = None"
    using assms(2) by (auto simp: scan_head_def Let_def split: option.splits if_splits)
  have "\<not> head_at input j" if j: "j + 4 \<le> ?a" for j
  proof (cases "seen - 3 \<le> j")
    case True
    have "\<not> starts_with (drop (j - (seen - 3)) (drop (seen - 3) (take ?a input))) [13, 10, 13, 10]"
      using none by (simp add: find_sub_None_iff del: drop_drop)
    then show ?thesis using True j by (simp add: head_at_take)
  next
    case False
    then show ?thesis using assms(1) by (simp add: no_head_before_def)
  qed
  then show "no_head_before ?a input" by (simp add: no_head_before_def)
  show "scan_head seen n input = HeadMore a \<Longrightarrow> a = ?a" "scan_head seen n input = HeadTooLarge \<Longrightarrow> HTTP_HEAD_LIMIT < ?a"
    using none by (simp_all add: scan_head_def Let_def split: if_splits)
qed

lemma head_end_le: "find_head_end input = Some e \<Longrightarrow> e \<le> length input"
  using find_head_end_Some by blast

lemma read_head_loop_sound:
  assumes "no_head_before seen (conn_input s)" "run_state (read_head_loop W seen peeks) s = (Inr head, s')"
  shows "\<exists>e. find_head_end (conn_input s) = Some e \<and> head = take e (conn_input s)
    \<and> s' = s\<lparr>conn_input := drop e (conn_input s)\<rparr>"
  using assms
proof (induction W seen peeks rule: read_head_loop.induct)
  case (1 W seen n peeks)
  show ?case
  proof (cases "scan_head seen n (conn_input s)")
    case (HeadEnds e)
    then have "find_head_end (conn_input s) = Some e" using scan_head_ends "1.prems"(1) by blast
    then show ?thesis using HeadEnds "1.prems"(2) head_end_le [of "conn_input s" e] by (simp add: run_simps)
  next
    case (HeadMore a)
    have "no_head_before a (conn_input s)"
      using scan_head_more(1,2) [OF "1.prems"(1) disjI1 [OF HeadMore]] HeadMore by metis
    then show ?thesis using "1.IH" [OF HeadMore] "1.prems"(2) HeadMore by simp
  qed (use "1.prems"(2) in simp_all)
qed simp_all

text \<open>With everything the client has sent buffered, each peek sees 1024 more bytes.\<close>

lemma read_head_loop_complete:
  assumes "no_head_before seen (conn_input s)" "find_head_end (conn_input s) = Some e" "e \<le> HTTP_HEAD_LIMIT"
    "list_all (\<lambda>p. \<exists>n. p = SomeReady n \<and> e \<le> n) peeks" "e \<le> seen + 1024 * length peeks" "seen < e"
  shows "run_state (read_head_loop W seen peeks) s = (Inr (take e (conn_input s)), s\<lparr>conn_input := drop e (conn_input s)\<rparr>)"
  using assms
proof (induction peeks arbitrary: seen)
  case (Cons p peeks)
  then obtain n where p: "p = SomeReady n" and n: "e \<le> n" by auto
  let ?a = "peek_len seen n (conn_input s)"
  have e: "e \<le> length (conn_input s)" "4 \<le> e" "head_at (conn_input s) (e - 4)"
    using Cons.prems(2) head_end_le find_head_end_iff by blast+
  have a: "?a \<noteq> 0" "e \<le> ?a \<or> ?a = seen + 1024"
    using n e Cons.prems(3) by (auto simp: peek_len_def Let_def)
  show ?case
  proof (cases "scan_head seen n (conn_input s)")
    case (HeadEnds e')
    then have "e' = e" using scan_head_ends Cons.prems(1,2) by fastforce
    then show ?thesis using HeadEnds p e by (simp add: run_simps)
  next
    case (HeadMore b)
    note more = scan_head_more [OF Cons.prems(1) disjI1 [OF HeadMore]]
    have b: "b = ?a" using more(2) HeadMore by blast
    have "\<not> e \<le> ?a" using more(1) e by (auto simp: no_head_before_def)
    then have "?a = seen + 1024" "?a < e" using a by auto
    then show ?thesis using Cons.IH [of ?a] Cons.prems HeadMore b p more(1) by simp
  next
    case HeadTooLarge
    note more = scan_head_more [OF Cons.prems(1) disjI2 [OF HeadTooLarge]]
    have "\<not> e \<le> ?a" using more(1) e by (auto simp: no_head_before_def)
    moreover have "HTTP_HEAD_LIMIT < ?a" using more(3) HeadTooLarge by blast
    ultimately show ?thesis using Cons.prems(3) by simp
  next
    case HeadClosed
    then show ?thesis using a by (auto simp: scan_head_def Let_def split: option.splits if_splits)
  qed
qed simp

subsection \<open>The verdict of a request\<close>

definition http_verdict :: "('re, 'net) world \<Rightarrow> conn \<Rightarrow> action option" where
  "http_verdict W s =
     (case fst (run_state (read_head W) s) of
        Inl _ \<Rightarrow> None
      | Inr head \<Rightarrow>
          map_option (\<lambda>request. decide (w_unicode W) (w_lib W) (w_rules W) (host_of (http_target request)) (req_port request))
            (parse_request_line (first_line (from_utf8_lossy head))))"

lemma emits_read_head [emits_rules]: "emits P (read_head W)"
proof -
  have "emits P (read_head_loop W seen peeks)" for seen peeks
    by (induction W seen peeks rule: read_head_loop.induct) (auto intro!: emits_rules split: head_scan.splits)
  then show ?thesis unfolding read_head_def by (auto intro!: emits_rules)
qed

lemma quiet_read_head [quiet_rules]: "quiet (read_head W)"
proof -
  have "quiet (read_head_loop W seen peeks)" for seen peeks
    by (induction W seen peeks rule: read_head_loop.induct) (auto intro!: quiet_rules split: head_scan.splits)
  then show ?thesis unfolding read_head_def by (auto intro!: quiet_rules)
qed

lemma emits_open_tunneled [emits_rules]: "emits (\<lambda>e. \<not> direct_event e) (open_tunneled W t port)"
  unfolding open_tunneled_def Let_def by (auto intro!: emits_rules)

lemma quiet_open_tunneled [quiet_rules]: "quiet (open_tunneled W t port)"
  unfolding open_tunneled_def Let_def
  by (rule quiet_gateway_proxy) (auto intro!: quiet_rules)

lemma http_routed_emits:
  "case decide (w_unicode W) (w_lib W) (w_rules W) (host_of (http_target request)) (req_port request) of
     Direct \<Rightarrow> emits (\<lambda>e. \<not> tunnel_event e) (http_routed W request head)
   | Proxy \<Rightarrow> emits (\<lambda>e. \<not> direct_event e) (http_routed W request head)
   | Block \<Rightarrow> emits (\<lambda>e. \<not> tunnel_event e \<and> \<not> direct_event e) (http_routed W request head)"
  unfolding http_routed_def relay_http_direct_def serve_http_channel_def Let_def
  by (auto intro!: emits_rules split: action.split)

lemma quiet_http_routed [quiet_rules]: "quiet (http_routed W request head)"
  unfolding http_routed_def relay_http_direct_def serve_http_channel_def Let_def
  by (auto intro!: quiet_rules split: action.split)

lemma read_head_events:
  assumes "run_state (read_head W) s = (r, t)"
  shows "conn_events t = conn_events s"
proof -
  have "emits (\<lambda>_. False) (read_head W)" by (rule emits_read_head)
  then obtain es where "conn_events t = conn_events s @ es" "list_all (\<lambda>_. False) es"
    using assms unfolding emits_def by (metis snd_conv)
  then show ?thesis by (cases es) simp_all
qed

lemma handle_http_client_honours: "honours (http_verdict W s) (new_events (handle_http_client W) s)"
proof -
  obtain r t where r: "run_state (read_head W) s = (r, t)" by fastforce
  have t: "conn_events t = conn_events s" using read_head_events [OF r] .
  show ?thesis
  proof (cases r)
    case (Inl e)
    then show ?thesis using r t by (simp add: handle_http_client_def run_simps new_events_def http_verdict_def)
  next
    case (Inr head)
    let ?req = "parse_request_line (first_line (from_utf8_lossy head))"
    show ?thesis
    proof (cases ?req)
      case None
      then show ?thesis using r t Inr by (simp add: handle_http_client_def run_simps new_events_def http_verdict_def)
    next
      case (Some request)
      then have "new_events (handle_http_client W) s = new_events (http_routed W request head) t"
        using r t Inr by (simp add: handle_http_client_def run_simps new_events_def)
      then show ?thesis
        using Some r Inr http_routed_emits [of W request head]
        by (auto simp: http_verdict_def honours_def intro: list_all_new_events split: action.splits)
    qed
  qed
qed

lemma quiet_handle_http_client [quiet_rules]: "quiet (handle_http_client W)"
  unfolding handle_http_client_def Let_def by (auto intro!: quiet_rules)

interpretation http: routed_server "\<lambda>_ :: unit. handle_http_client W" "\<lambda>_. http_verdict W" for W
  by unfold_locales (auto intro: handle_http_client_honours quiet_handle_http_client)

subsection \<open>Authorities and request lines\<close>

definition word :: "str \<Rightarrow> bool" where
  "word s \<longleftrightarrow> s \<noteq> [] \<and> list_all (\<lambda>c. \<not> is_whitespace c) s"

lemma split_whitespace_words:
  assumes "word a" "word b" "word c"
  shows "split_whitespace (a @ lit '' '' @ b @ lit '' '' @ c) = [a, b, c]"
proof -
  have ws: "is_whitespace 32" by (simp add: is_whitespace_def)
  then have "split_on is_whitespace (a @ 32 # b @ 32 # c) = [a, b, c]"
    using assms by (simp add: word_def split_on_append split_on_none)
  then show ?thesis using assms by (simp add: split_whitespace_def word_def)
qed

lemma word_append: "word a \<Longrightarrow> list_all (\<lambda>c. \<not> is_whitespace c) b \<Longrightarrow> word (a @ b)"
  by (simp add: word_def)

lemma word_show_nat: "word (show_nat n)"
  using show_nat_chars [of n] digit_facts by (auto simp: word_def list_all_iff)

text \<open>A host as it appears in an authority: no white space, no colon, slash or opening bracket.\<close>

definition plain_host :: "str \<Rightarrow> bool" where
  "plain_host h \<longleftrightarrow> word h \<and> 58 \<notin> set h \<and> 47 \<notin> set h \<and> 91 \<notin> set h"

lemma host_not_bracket: "plain_host h \<Longrightarrow> strip_prefix [91] (h @ x) = None"
  by (cases h) (auto simp: plain_host_def word_def strip_prefix_def starts_with_def)

lemma parse_authority_port:
  assumes "plain_host h"
  shows "parse_authority (h @ lit '':'' @ show_nat (unat p)) d = Some (h, p)"
proof -
  have w: "word (h @ lit '':'' @ show_nat (unat p))"
    using assms word_show_nat by (intro word_append) (auto simp: plain_host_def word_def chr_defs)
  have "58 \<notin> set (show_nat (unat p))" using show_nat_chars [of "unat p"] digit_facts by (auto simp: list_all_iff)
  then have "rsplit_once 58 (h @ 58 # show_nat (unat p)) = Some (h, show_nat (unat p))" by (simp add: rsplit_once_Some)
  then show ?thesis
    using assms w host_not_bracket [OF assms, of "58 # show_nat (unat p)"]
    by (simp add: parse_authority_def word_def trim_none parse_u16_show plain_host_def)
qed

lemma parse_authority_default:
  assumes "plain_host h"
  shows "parse_authority h d = Some (h, d)"
  using assms host_not_bracket [OF assms, of "[]"]
  by (simp add: parse_authority_def word_def trim_none plain_host_def rsplit_once_None [THEN iffD2])

lemma parse_authority_v6:
  assumes "word h" "93 \<notin> set h"
  shows "parse_authority (lit ''['' @ h @ lit '']:'' @ show_nat (unat p)) d = Some (h, p)"
proof -
  have "word (lit ''['' @ h @ lit '']:'' @ show_nat (unat p))"
    using assms word_show_nat by (auto simp: word_def chr_defs)
  moreover have "split_once 93 (h @ 93 # 58 # show_nat (unat p)) = Some (h, 58 # show_nat (unat p))"
    using assms by (simp add: split_once_Some)
  ultimately show ?thesis
    using assms by (simp add: parse_authority_def word_def trim_none strip_prefix_def starts_with_def parse_u16_show)
qed

lemma find_slash: "47 \<notin> set a \<Longrightarrow> find_sub [47] (a @ 47 # b) = Some (length a)"
  by (induction a) (auto simp: starts_with_def)

subsection \<open>What goes upstream\<close>

lemma find_crlf: "13 \<notin> set a \<Longrightarrow> find_sub crlf (a @ 13 # 10 # b) = Some (length a)"
  by (induction a) (auto simp: starts_with_def)

lemma http_preamble_exact:
  assumes "13 \<notin> set line"
  shows "http_preamble rewritten (line @ crlf @ rest) = utf8_encode (rewritten @ rest)"
  using find_crlf [OF assms, of rest] by (simp add: http_preamble_def)

definition upstream_head :: "http_request_line \<Rightarrow> bytes \<Rightarrow> bytes" where
  "upstream_head request head =
     (case req_rewritten request of None \<Rightarrow> [] | Some line \<Rightarrow> http_preamble line (from_utf8_lossy head))"

lemma serve_http_upload:
  "upload_exact (upstream_head request head) s (snd (run_state (serve_http_channel W request (from_utf8_lossy head) leftover) s))"
  unfolding serve_http_channel_def upstream_head_def
  by (cases "req_rewritten request"; cases "leftover = []")
    (simp_all add: run_simps relay_upload upload_stop case_prod_beta split: sum.split)

lemma relay_http_direct_upload:
  "upload_exact (upstream_head request head) s (snd (run_state (relay_http_direct W request head) s))"
  unfolding relay_http_direct_def upstream_head_def
  by (cases "req_rewritten request")
    (simp_all add: run_simps upload_stop relay_direct_upload case_prod_beta split: sum.split)

lemma idle_open_tunneled [idle_rules]: "idle (open_tunneled W t port)"
  unfolding open_tunneled_def gateway_proxy_def Let_def by (auto intro!: idle_rules)

lemma http_routed_upload:
  "upload_exact (upstream_head request head) s (snd (run_state (http_routed W request head) s))"
proof (cases "decide (w_unicode W) (w_lib W) (w_rules W) (host_of (http_target request)) (req_port request)")
  case Proxy
  obtain r u where r: "run_state (open_tunneled W (http_target request) (req_port request)) s = (r, u)" by fastforce
  note u = idle_run [OF idle_open_tunneled r]
  show ?thesis
  proof (cases r)
    case (Inl e)
    have "untouched u (u\<lparr>conn_events := conn_events u @ [WriteClient (http_status (lit ''502 Bad Gateway''))]\<rparr>)"
      by (simp add: untouched_def)
    then show ?thesis using Proxy r Inl untouched_upload id.trans [OF u] by (simp add: http_routed_def run_simps)
  next
    case (Inr leftover)
    then show ?thesis using Proxy r upload_after [OF u serve_http_upload] by (simp add: http_routed_def run_simps)
  qed
next
  case Direct
  then show ?thesis by (simp add: http_routed_def relay_http_direct_upload)
next
  case Block
  then show ?thesis by (auto simp: http_routed_def run_simps upload_exact_def)
qed

lemma no_head_before_0 [simp]: "no_head_before 0 input"
  by (simp add: no_head_before_def)

subsection \<open>Properties\<close>

text \<open>
  The proxy reads exactly the request head, up to and including the first empty line, and leaves
  what the client sent after it untouched: whatever the timing of the peeks, nothing else is ever
  taken for the head; and when the client's bytes keep being there, a head of at most 16 KiB is
  found after one peek per 1024 bytes.
\<close>

lemma http_head_exact:
  assumes "find_head_end (conn_input s) = Some e"
  shows "(case run_state (read_head W) s of
      (Inr head, s') \<Rightarrow> head = take e (conn_input s) \<and> s' = s\<lparr>conn_input := drop e (conn_input s)\<rparr>
    | (Inl _, _) \<Rightarrow> \<not> (e \<le> HTTP_HEAD_LIMIT \<and> e \<le> 1024 * length (w_peeks W (conn_events s))
        \<and> list_all (\<lambda>p. \<exists>n. p = SomeReady n \<and> e \<le> n) (w_peeks W (conn_events s))))"
proof -
  have e: "0 < e" using assms find_head_end_Some by fastforce
  have run: "run_state (read_head W) s = run_state (read_head_loop W 0 (w_peeks W (conn_events s))) s"
    by (simp add: read_head_def run_simps)
  obtain r s' where r: "run_state (read_head W) s = (r, s')" by fastforce
  show ?thesis
  proof (cases r)
    case (Inl x)
    then show ?thesis
      using r read_head_loop_complete [OF no_head_before_0 assms, of "w_peeks W (conn_events s)" W] e by (auto simp: run)
  next
    case (Inr head)
    then show ?thesis
      using r read_head_loop_sound [where W = W and s = s, OF no_head_before_0] assms by (force simp: run)
  qed
qed

text \<open>
  The SOCKS server and the HTTP proxy open a proxied connection in the same way: the code inlined
  in the SOCKS handler does exactly what the HTTP proxy's routine does, in the same order (gateway,
  its retirement, resolution, the stack), followed by a failure reply when it fails.
\<close>

lemma openings_agree:
  "open_channel W t port = do {
     r \<leftarrow> open_tunneled W t port;
     case r of
       Inl e \<Rightarrow> do { _ \<leftarrow> reply W REP_GENERAL; State_Monad.return (Inl e) }
     | Inr leftover \<Rightarrow> State_Monad.return (Inr leftover) }"
  by (rule open_channel_tunneled)

text \<open>
  Request lines are read as they are meant: CONNECT to a host and port, to a bracketed IPv6
  address and to a host without a port (443), and an absolute-form request for any other method,
  whose line is rewritten to the origin form with the same method, path and version.
\<close>

lemma http_request_line_exact:
  assumes "plain_host h" "word v6" "93 \<notin> set v6" "word meth" "\<not> eq_ignore_ascii_case meth (lit ''CONNECT'')"
    "list_all (\<lambda>c. \<not> is_whitespace c) path" "word version"
  shows "parse_request_line (lit ''CONNECT '' @ h @ lit '':'' @ show_nat (unat p) @ lit '' '' @ version)
      = Some \<lparr>req_method = lit ''CONNECT'', req_authority = h, req_port = p, req_rewritten = None\<rparr>
    \<and> parse_request_line (lit ''CONNECT '' @ h @ lit '' '' @ version)
      = Some \<lparr>req_method = lit ''CONNECT'', req_authority = h, req_port = 443, req_rewritten = None\<rparr>
    \<and> parse_request_line (lit ''CONNECT ['' @ v6 @ lit '']:'' @ show_nat (unat p) @ lit '' '' @ version)
      = Some \<lparr>req_method = lit ''CONNECT'', req_authority = v6, req_port = p, req_rewritten = None\<rparr>
    \<and> parse_request_line (meth @ lit '' http://'' @ h @ lit '':'' @ show_nat (unat p) @ lit ''/'' @ path @ lit '' '' @ version)
      = Some \<lparr>req_method = meth, req_authority = h, req_port = p,
          req_rewritten = Some (meth @ lit '' /'' @ path @ lit '' '' @ version @ crlf)\<rparr>"
    (is "?connect \<and> ?default \<and> ?bracket \<and> ?absolute")
proof (intro conjI)
  have c: "word (lit ''CONNECT'')" by (simp add: word_def chr_defs)
  have p: "list_all (\<lambda>c. \<not> is_whitespace c) (show_nat n)" for n using word_show_nat [of n] by (simp add: word_def)
  have hp: "word (h @ lit '':'' @ show_nat (unat p))"
    using assms(1) p by (simp add: plain_host_def word_def chr_defs)
  have connect: "parse_request_line (lit ''CONNECT '' @ a @ lit '' '' @ version) = (case parse_authority a 443 of
      None \<Rightarrow> None
    | Some (x, y) \<Rightarrow> Some \<lparr>req_method = lit ''CONNECT'', req_authority = x, req_port = y, req_rewritten = None\<rparr>)"
    if "word a" for a
  proof -
    have "split_whitespace (lit ''CONNECT '' @ a @ lit '' '' @ version) = [lit ''CONNECT'', a, version]"
      using split_whitespace_words [OF c that assms(7)] by simp
    then show ?thesis
      by (simp add: parse_request_line_def get_at_def eq_ignore_ascii_case_def split: option.split)
  qed
  show ?connect using connect [OF hp] parse_authority_port [OF assms(1), of p 443] by simp
  show ?default using connect [of h] assms(1) parse_authority_default [OF assms(1), of 443] by (simp add: plain_host_def)
  have "word (lit ''['' @ v6 @ lit '']:'' @ show_nat (unat p))" using assms(2) p by (simp add: word_def chr_defs)
  from connect [OF this] show ?bracket using parse_authority_v6 [OF assms(2,3), of p 443] by simp
  let ?url = "lit ''http://'' @ h @ lit '':'' @ show_nat (unat p) @ lit ''/'' @ path"
  have "word ?url" using assms(1,6) p by (simp add: plain_host_def word_def chr_defs)
  then have s: "split_whitespace (meth @ lit '' '' @ ?url @ lit '' '' @ version) = [meth, ?url, version]"
    using assms(4,7) by (intro split_whitespace_words)
  have "47 \<notin> set (h @ lit '':'' @ show_nat (unat p))"
    using assms(1) show_nat_chars [of "unat p"] by (auto simp: plain_host_def list_all_iff is_digit_def)
  from find_slash [OF this, of path] have slash: "find_sub [47] (h @ 58 # show_nat (unat p) @ 47 # path) = Some (length h + 1 + length (show_nat (unat p)))"
    by simp
  have strip: "strip_prefix (lit ''http://'') ?url = Some (h @ 58 # show_nat (unat p) @ 47 # path)"
    by (simp add: strip_prefix_def starts_with_def)
  have "parse_request_line (meth @ lit '' '' @ ?url @ lit '' '' @ version) = Some \<lparr>req_method = meth, req_authority = h, req_port = p,
          req_rewritten = Some (meth @ lit '' /'' @ path @ lit '' '' @ version @ crlf)\<rparr>"
    unfolding parse_request_line_def Let_def s
    using assms(5) parse_authority_port [OF assms(1), of p 80] strip slash
    by (simp add: get_at_def del: lit_simps) simp
  then show ?absolute by simp
qed

end
