(* ===== verification/Sysprofile.thy ===== *)
theory Sysprofile
  imports Rust_Str
begin

text \<open>
  The performance profile (\<open>sysprofile.rs\<close>): the tier of the machine from its processors, its memory
  and the override in the environment, and the buffer sizes that follow from it. The number of
  processors and the text of \<open>/proc/meminfo\<close> (Linux and Android) are arguments.
\<close>

datatype tier = Low | Medium | High

record tuning =
  tn_tier :: tier
  tn_cpus :: nat
  tn_mem_mb :: "nat option"
  scan_concurrency_cap :: nat
  udp_socket_buf :: nat
  netstack_tcp_buf :: nat
  netstack_udp_buf :: nat
  tn_channel_capacity :: nat

definition detected_cpus :: "nat option \<Rightarrow> nat" where
  "detected_cpus parallelism = (case parallelism of Some n \<Rightarrow> n | None \<Rightarrow> 1)"

text \<open>\<open>trim_end_matches("kB")\<close>, on the reversed text.\<close>

fun strip_kb :: "str \<Rightarrow> str" where
  "strip_kb (b # k # s) = (if b = 66 \<and> k = 107 then strip_kb s else b # k # s)"
| "strip_kb s = s"

fun mem_line :: "str list \<Rightarrow> nat option" where
  "mem_line [] = None"
| "mem_line (line # rest) =
     (case strip_prefix (lit ''MemTotal:'') line of
        Some v \<Rightarrow>
          map_option (\<lambda>kb. kb div 1024) (parse_uint 64 (trim (rev (strip_kb (rev (trim v))))))
      | None \<Rightarrow> mem_line rest)"

definition total_mem_mb :: "str option \<Rightarrow> nat option" where
  "total_mem_mb meminfo = Option.bind meminfo (\<lambda>data. mem_line (lines data))"

definition detect_tier :: "unicode \<Rightarrow> str option \<Rightarrow> nat \<Rightarrow> nat option \<Rightarrow> tier" where
  "detect_tier U profile cpus mem_mb =
     (let mem_low = (case mem_mb of Some m \<Rightarrow> m \<le> 384 | None \<Rightarrow> False);
          mem_medium = (case mem_mb of Some m \<Rightarrow> m \<le> 1536 | None \<Rightarrow> False);
          by_machine = (if cpus \<le> 2 \<or> mem_low then Low else if cpus \<le> 4 \<or> mem_medium then Medium else High) in
      case profile of
        Some v \<Rightarrow>
          (let v = to_lowercase U (trim v) in
           if v = lit ''low'' then Low
           else if v = lit ''medium'' \<or> v = lit ''mid'' then Medium
           else if v = lit ''high'' then High
           else by_machine)
      | None \<Rightarrow> by_machine)"

definition build_tuning :: "unicode \<Rightarrow> str option \<Rightarrow> nat option \<Rightarrow> str option \<Rightarrow> tuning" where
  "build_tuning U profile parallelism meminfo =
     (let cpus = detected_cpus parallelism;
          mem_mb = total_mem_mb meminfo;
          t = detect_tier U profile cpus mem_mb;
          (cap, ubuf, ntcp, nudp, ch) =
            (case t of
               Low \<Rightarrow> (4, 256 * 1024, 128 * 1024, 32 * 1024, 128)
             | Medium \<Rightarrow> (10, 2 * 1024 * 1024, 256 * 1024, 64 * 1024, 512)
             | High \<Rightarrow> (2 ^ 64 - 1, 7 * 1024 * 1024, 512 * 1024, 128 * 1024, 1024))
      in \<lparr>tn_tier = t, tn_cpus = cpus, tn_mem_mb = mem_mb, scan_concurrency_cap = cap, udp_socket_buf = ubuf,
          netstack_tcp_buf = ntcp, netstack_udp_buf = nudp, tn_channel_capacity = ch\<rparr>)"

definition cap_concurrency :: "tuning \<Rightarrow> nat \<Rightarrow> nat" where
  "cap_concurrency T requested = min requested (scan_concurrency_cap T)"

definition udp_socket_buf_bytes :: "tuning \<Rightarrow> nat" where
  "udp_socket_buf_bytes T = udp_socket_buf T"

definition netstack_tcp_buf_bytes :: "tuning \<Rightarrow> nat" where
  "netstack_tcp_buf_bytes T = netstack_tcp_buf T"

definition netstack_udp_buf_bytes :: "tuning \<Rightarrow> nat" where
  "netstack_udp_buf_bytes T = netstack_udp_buf T"

definition channel_capacity :: "tuning \<Rightarrow> nat" where
  "channel_capacity T = tn_channel_capacity T"

subsection \<open>Facts\<close>

text \<open>Whatever the machine, every size is positive.\<close>

lemma build_tuning_positive:
  "0 < scan_concurrency_cap (build_tuning U p n m)" "0 < udp_socket_buf (build_tuning U p n m)"
  "65536 \<le> 2 * netstack_tcp_buf (build_tuning U p n m)" "0 < netstack_udp_buf (build_tuning U p n m)"
  "128 \<le> tn_channel_capacity (build_tuning U p n m)"
  by (simp_all add: build_tuning_def Let_def split: tier.split)

end
