(* ===== verification/Netstack.thy ===== *)
theory Netstack
  imports Aether_Error Sysprofile "HOL-Library.Sublist"
begin

text \<open>
  The user-space TCP/IP stack (\<open>netstack.rs\<close>): the table of connections between the proxies and the
  sockets of smoltcp, the queue of application data with its back-pressure, the service passes over
  TCP and UDP connections and the main loop.

  smoltcp itself is the record \<open>smoltcp\<close> of operations on its interface and sockets. The stack keeps
  its sockets in a set and refers to each by a handle that only one connection holds; here a
  connection holds the socket itself. What the code reports to others (answers to open requests,
  data for applications, packets for the tunnel) and hands to sockets is recorded in \<open>ns_events\<close>.
\<close>

subsection \<open>The library\<close>

datatype tcp_phase =
    Closed | Listen | SynSent | SynReceived | Established | FinWait1 | FinWait2 | CloseWait | Closing | LastAck | TimeWait

type_synonym endpoint = "ip_addr \<times> u16"

record ('i, 't, 'u) smoltcp =
  iface_new :: 'i
  update_ip_addrs :: "(ip_addr \<times> u8) list \<Rightarrow> 'i \<Rightarrow> 'i"
  add_default_route :: "ip_addr \<Rightarrow> 'i \<Rightarrow> 'i"
  tcp_connect :: "'i \<Rightarrow> nat \<Rightarrow> endpoint \<Rightarrow> u16 \<Rightarrow> str + 't"
  tcp_state :: "'t \<Rightarrow> tcp_phase"
  tcp_can_send :: "'t \<Rightarrow> bool"
  tcp_send_slice :: "bytes \<Rightarrow> 't \<Rightarrow> nat option \<times> 't"
  tcp_close :: "'t \<Rightarrow> 't"
  tcp_can_recv :: "'t \<Rightarrow> bool"
  tcp_recv :: "'t \<Rightarrow> bytes option \<times> 't"
  udp_bind :: "nat \<Rightarrow> nat \<Rightarrow> u16 \<Rightarrow> str + 'u"
  udp_send_slice :: "bytes \<Rightarrow> endpoint \<Rightarrow> 'u \<Rightarrow> 'u"
  udp_can_recv :: "'u \<Rightarrow> bool"
  udp_recv :: "'u \<Rightarrow> (bytes \<times> endpoint) option \<times> 'u"
  poll :: "nat \<Rightarrow> 'i \<times> bytes list \<times> bytes list \<times> (nat \<rightharpoonup> 't) \<times> (nat \<rightharpoonup> 'u)
    \<Rightarrow> bool \<times> 'i \<times> bytes list \<times> bytes list \<times> (nat \<rightharpoonup> 't) \<times> (nat \<rightharpoonup> 'u)"
  poll_delay :: "'i \<Rightarrow> (nat \<rightharpoonup> 't) \<Rightarrow> (nat \<rightharpoonup> 'u) \<Rightarrow> nat option"

subsection \<open>Sizes\<close>

definition tcp_buf :: "tuning \<Rightarrow> nat" where "tcp_buf T = netstack_tcp_buf_bytes T"
definition udp_buf :: "tuning \<Rightarrow> nat" where "udp_buf T = netstack_udp_buf_bytes T"
definition udp_meta :: "tuning \<Rightarrow> nat" where
  "udp_meta T = (case tn_tier T of Low \<Rightarrow> 32 | Medium \<Rightarrow> 64 | High \<Rightarrow> 128)"
definition app_queue :: "tuning \<Rightarrow> nat" where "app_queue T = channel_capacity T"

definition MAX_INGEST_PER_TICK :: nat where "MAX_INGEST_PER_TICK = 512"
definition MAX_RECV_CHUNKS :: nat where "MAX_RECV_CHUNKS = 128"
definition BACKPRESSURE_RETRY :: nat where "BACKPRESSURE_RETRY = 2000"
definition DROP_REPORT_STEP :: nat where "DROP_REPORT_STEP = 512"
definition MAX_IDLE_TICK :: nat where "MAX_IDLE_TICK = 250000"

definition max_tcp_pending :: "tuning \<Rightarrow> nat" where
  "max_tcp_pending T = max (min (tcp_buf T * 2) (2 ^ 64 - 1)) (64 * 1024)"

subsection \<open>Commands and data\<close>

text \<open>The answer channel of an open request is the number of the request.\<close>

datatype cmd =
    CmdOpenTcp sock_addr nat
  | CmdOpenUdp nat
  | CmdSetAddrs "(ipv4 \<times> u8) option" "(ipv6 \<times> u8) option"

datatype data_in = DataTcp nat bytes | DataTcpClose nat | DataUdp nat sock_addr bytes | DataUdpClose nat

datatype stack_event =
    Answer nat "str + nat"
  | Deliver nat bytes
  | DeliverUdp nat sock_addr bytes
  | SocketSent nat bytes
  | UdpSent nat endpoint bytes
  | Outbound bytes

text \<open>
  The queue of application data (\<open>data_in\<close>): a send waits for room, so it fails only once the stack is
  gone; \<open>try_send\<close>, which the destructors use, gives up when the queue is full.
\<close>

record data_queue =
  dq_items :: "data_in list"
  dq_cap :: nat
  dq_closed :: bool

definition queue_send :: "data_in \<Rightarrow> data_queue \<Rightarrow> unit result \<times> data_queue" where
  "queue_send d q =
     (if dq_closed q then (Inl (Other (lit ''netstack closed'')), q)
      else (Inr (), q\<lparr>dq_items := dq_items q @ [d]\<rparr>))"

definition queue_try_send :: "data_in \<Rightarrow> data_queue \<Rightarrow> data_queue" where
  "queue_try_send d q =
     (if dq_closed q \<or> dq_cap q \<le> length (dq_items q) then q else q\<lparr>dq_items := dq_items q @ [d]\<rparr>)"

text \<open>The two kinds of connection handles; \<open>into_split\<close> moves the duty to close to the sender.\<close>

record conn_handle =
  ch_id :: nat
  ch_split :: bool

definition tcp_conn_send :: "conn_handle \<Rightarrow> bytes \<Rightarrow> data_queue \<Rightarrow> unit result \<times> data_queue" where
  "tcp_conn_send c data q = queue_send (DataTcp (ch_id c) data) q"

definition tcp_conn_close :: "conn_handle \<Rightarrow> data_queue \<Rightarrow> data_queue" where
  "tcp_conn_close c q = snd (queue_send (DataTcpClose (ch_id c)) q)"

definition conn_into_split :: "conn_handle \<Rightarrow> nat \<times> conn_handle" where
  "conn_into_split c = (ch_id c, c\<lparr>ch_split := True\<rparr>)"

definition tcp_conn_drop :: "conn_handle \<Rightarrow> data_queue \<Rightarrow> data_queue" where
  "tcp_conn_drop c q = (if \<not> ch_split c then queue_try_send (DataTcpClose (ch_id c)) q else q)"

definition tcp_sender_drop :: "nat \<Rightarrow> data_queue \<Rightarrow> data_queue" where
  "tcp_sender_drop i q = queue_try_send (DataTcpClose i) q"

definition udp_conn_send_to :: "conn_handle \<Rightarrow> sock_addr \<Rightarrow> bytes \<Rightarrow> data_queue \<Rightarrow> unit result \<times> data_queue" where
  "udp_conn_send_to c dst data q = queue_send (DataUdp (ch_id c) dst data) q"

definition udp_conn_close :: "conn_handle \<Rightarrow> data_queue \<Rightarrow> data_queue" where
  "udp_conn_close c q = snd (queue_send (DataUdpClose (ch_id c)) q)"

definition udp_conn_drop :: "conn_handle \<Rightarrow> data_queue \<Rightarrow> data_queue" where
  "udp_conn_drop c q = (if \<not> ch_split c then queue_try_send (DataUdpClose (ch_id c)) q else q)"

definition udp_sender_drop :: "nat \<Rightarrow> data_queue \<Rightarrow> data_queue" where
  "udp_sender_drop i q = queue_try_send (DataUdpClose i) q"

text \<open>
  \<open>StackHandle::open_tcp\<close> and \<open>open_udp\<close>: the command may not be accepted, and its answer channel may be
  dropped (\<^term>\<open>None\<close>) or answered.
\<close>

definition open_outcome :: "bool \<Rightarrow> (str + nat) option \<Rightarrow> nat result" where
  "open_outcome accepted answer =
     (if \<not> accepted then Inl (Other (lit ''netstack closed''))
      else case answer of
             None \<Rightarrow> Inl (Other (lit ''netstack dropped''))
           | Some (Inl e) \<Rightarrow> Inl (Other e)
           | Some (Inr i) \<Rightarrow> Inr i)"

subsection \<open>State\<close>

text \<open>A channel to an application: its free places, and whether the receiver is gone.\<close>

record app_chan =
  room :: nat
  gone :: bool

record 't tcp_conn =
  tc_handle :: 't
  tc_to_app :: app_chan
  tc_rx_held :: bool
  connect_resp :: "nat option"
  pending :: bytes
  established :: bool
  half_closed :: bool

record 'u udp_conn =
  uc_handle :: 'u
  uc_to_app :: app_chan

record ('i, 't, 'u) netstack =
  iface :: 'i
  dev_rx :: "bytes list"
  dev_tx :: "bytes list"
  tcp_conns :: "nat \<rightharpoonup> 't tcp_conn"
  udp_conns :: "nat \<rightharpoonup> 'u udp_conn"
  next_id :: nat
  next_port :: u16
  ns_events :: "stack_event list"

definition new_chan :: "tuning \<Rightarrow> app_chan" where
  "new_chan T = \<lparr>room = app_queue T, gone = False\<rparr>"

subsection \<open>Addresses\<close>

definition strip_cidr :: "str \<Rightarrow> str" where
  "strip_cidr s = (case split_once 47 s of Some (ip, _) \<Rightarrow> ip | None \<Rightarrow> s)"

definition to_ip_endpoint :: "sock_addr \<Rightarrow> endpoint" where
  "to_ip_endpoint a = (sa_ip a, sa_port a)"

definition endpoint_to_socketaddr :: "endpoint \<Rightarrow> sock_addr" where
  "endpoint_to_socketaddr ep = sock_addr_new (fst ep) (snd ep)"

definition cidr_prefix :: "str \<Rightarrow> u8 option" where
  "cidr_prefix s = Option.bind (split_once 47 s) (\<lambda>(_, p). map_option word_of_nat (parse_uint 8 p))"

definition parse_v4 :: "str \<Rightarrow> (ipv4 \<times> u8) option result" where
  "parse_v4 s =
     (if s = [] then Inr None
      else case parse_ipv4 (strip_cidr s) of
             None \<Rightarrow> Inl (Other (lit ''bad ipv4 '' @ s))
           | Some ip \<Rightarrow> Inr (Some (ip, case cidr_prefix s of Some p \<Rightarrow> p | None \<Rightarrow> 32)))"

definition parse_v6 :: "str \<Rightarrow> (ipv6 \<times> u8) option result" where
  "parse_v6 s =
     (if s = [] then Inr None
      else case parse_ipv6 (strip_cidr s) of
             None \<Rightarrow> Inl (Other (lit ''bad ipv6 '' @ s))
           | Some ip \<Rightarrow> Inr (Some (ip, case cidr_prefix s of Some p \<Rightarrow> p | None \<Rightarrow> 128)))"

definition routable_prefix_v4 :: "u8 \<Rightarrow> u8" where
  "routable_prefix_v4 p = (if 31 \<le> p then 24 else p)"

definition routable_prefix_v6 :: "u8 \<Rightarrow> u8" where
  "routable_prefix_v6 p = (if 127 \<le> p then 64 else p)"

definition gateway_v4 :: "ipv4 \<Rightarrow> ipv4" where
  "gateway_v4 ip = (let q = octets4 ip; host = (if q ! 3 = 1 then 2 else 1) in ipv4_from [q ! 0, q ! 1, q ! 2, host])"

definition gateway_v6 :: "ipv6 \<Rightarrow> ipv6" where
  "gateway_v6 ip = (let q = octets6 ip in ipv6_from (q[15 := (if q ! 15 = 1 then 2 else 1)]))"

definition apply_addrs ::
  "('i, 't, 'u) smoltcp \<Rightarrow> 'i \<Rightarrow> (ipv4 \<times> u8) option \<Rightarrow> (ipv6 \<times> u8) option \<Rightarrow> 'i" where
  "apply_addrs L i v4 v6 =
     (let addrs = (case v4 of Some (ip, p) \<Rightarrow> [(V4 ip, routable_prefix_v4 p)] | None \<Rightarrow> [])
                @ (case v6 of Some (ip, p) \<Rightarrow> [(V6 ip, routable_prefix_v6 p)] | None \<Rightarrow> []);
          i = update_ip_addrs L addrs i;
          i = (case v4 of Some (ip, _) \<Rightarrow> add_default_route L (V4 (gateway_v4 ip)) i | None \<Rightarrow> i)
      in (case v6 of Some (ip, _) \<Rightarrow> add_default_route L (V6 (gateway_v6 ip)) i | None \<Rightarrow> i))"

definition spawn :: "('i, 't, 'u) smoltcp \<Rightarrow> str \<Rightarrow> str \<Rightarrow> ('i, 't, 'u) netstack result" where
  "spawn L ipv4 ipv6 =
     (case parse_v4 ipv4 of
        Inl e \<Rightarrow> Inl e
      | Inr v4 \<Rightarrow>
          (case parse_v6 ipv6 of
             Inl e \<Rightarrow> Inl e
           | Inr v6 \<Rightarrow> Inr \<lparr>iface = apply_addrs L (iface_new L) v4 v6, dev_rx = [], dev_tx = [],
               tcp_conns = Map.empty, udp_conns = Map.empty, next_id = 1, next_port = 49152, ns_events = []\<rparr>))"

definition alloc_port :: "u16 \<Rightarrow> u16 \<times> u16" where
  "alloc_port p = (p, if 65000 \<le> p then 49152 else p + 1)"

subsection \<open>Commands\<close>

definition log_event :: "stack_event list \<Rightarrow> ('i, 't, 'u) netstack \<Rightarrow> ('i, 't, 'u) netstack" where
  "log_event es s = s\<lparr>ns_events := ns_events s @ es\<rparr>"

definition handle_cmd :: "tuning \<Rightarrow> ('i, 't, 'u) smoltcp \<Rightarrow> cmd \<Rightarrow> ('i, 't, 'u) netstack \<Rightarrow> ('i, 't, 'u) netstack" where
  "handle_cmd T L c s =
     (case c of
        CmdOpenTcp dst resp \<Rightarrow>
          (let (local_port, port') = alloc_port (next_port s); s = s\<lparr>next_port := port'\<rparr> in
           case tcp_connect L (iface s) (tcp_buf T) (to_ip_endpoint dst) local_port of
             Inl e \<Rightarrow> log_event [Answer resp (Inl (lit ''connect: '' @ e))] s
           | Inr socket \<Rightarrow>
               s\<lparr>next_id := next_id s + 1,
                 tcp_conns := (tcp_conns s)(next_id s \<mapsto>
                   \<lparr>tc_handle = socket, tc_to_app = new_chan T, tc_rx_held = True, connect_resp = Some resp,
                    pending = [], established = False, half_closed = False\<rparr>)\<rparr>)
      | CmdOpenUdp resp \<Rightarrow>
          (let (local_port, port') = alloc_port (next_port s); s = s\<lparr>next_port := port'\<rparr> in
           case udp_bind L (udp_meta T) (udp_buf T) local_port of
             Inl e \<Rightarrow> log_event [Answer resp (Inl (lit ''bind: '' @ e))] s
           | Inr socket \<Rightarrow>
               log_event [Answer resp (Inr (next_id s))]
                 (s\<lparr>next_id := next_id s + 1,
                    udp_conns := (udp_conns s)(next_id s \<mapsto> \<lparr>uc_handle = socket, uc_to_app = new_chan T\<rparr>)\<rparr>))
      | CmdSetAddrs v4 v6 \<Rightarrow> s\<lparr>iface := apply_addrs L (iface s) v4 v6\<rparr>)"

subsection \<open>Application data\<close>

text \<open>The second component is what must be deferred because too much is pending already.\<close>

definition try_handle_data ::
  "tuning \<Rightarrow> ('i, 't, 'u) smoltcp \<Rightarrow> data_in \<Rightarrow> ('i, 't, 'u) netstack \<Rightarrow> ('i, 't, 'u) netstack \<times> data_in option" where
  "try_handle_data T L d s =
     (case d of
        DataTcp i data \<Rightarrow>
          (case tcp_conns s i of
             None \<Rightarrow> (s, None)
           | Some st \<Rightarrow>
               let mx = max_tcp_pending T in
               if mx \<le> length (pending st) then (s, Some (DataTcp i data))
               else let space = mx - length (pending st) in
                 if length data \<le> space
                 then (s\<lparr>tcp_conns := (tcp_conns s)(i \<mapsto> st\<lparr>pending := pending st @ data\<rparr>)\<rparr>, None)
                 else (s\<lparr>tcp_conns := (tcp_conns s)(i \<mapsto> st\<lparr>pending := pending st @ take space data\<rparr>)\<rparr>,
                       Some (DataTcp i (drop space data))))
      | DataTcpClose i \<Rightarrow>
          (case tcp_conns s i of
             None \<Rightarrow> (s, None)
           | Some st \<Rightarrow> (s\<lparr>tcp_conns := (tcp_conns s)(i \<mapsto> st\<lparr>half_closed := True\<rparr>)\<rparr>, None))
      | DataUdp i dst data \<Rightarrow>
          (case udp_conns s i of
             None \<Rightarrow> (s, None)
           | Some st \<Rightarrow>
               (log_event [UdpSent i (to_ip_endpoint dst) data]
                  (s\<lparr>udp_conns := (udp_conns s)(i \<mapsto>
                      st\<lparr>uc_handle := udp_send_slice L data (to_ip_endpoint dst) (uc_handle st)\<rparr>)\<rparr>), None))
      | DataUdpClose i \<Rightarrow> (s\<lparr>udp_conns := (udp_conns s)(i := None)\<rparr>, None))"

subsection \<open>Serving TCP connections\<close>

text \<open>What \<open>try_reserve\<close> answers: a closed channel is reported before a full one.\<close>

datatype reserve = Permit | ChanFull | ChanGone

definition try_reserve :: "app_chan \<Rightarrow> reserve" where
  "try_reserve chan = (if gone chan then ChanGone else if room chan = 0 then ChanFull else Permit)"

text \<open>
  The delivery loop, with the number of chunks it may still deliver: the chunks, the channel and
  socket after them, and why it stopped (full, gone).
\<close>

fun deliver_tcp :: "('i, 't, 'u) smoltcp \<Rightarrow> nat \<Rightarrow> app_chan \<Rightarrow> 't \<Rightarrow> bytes list \<times> app_chan \<times> 't \<times> bool \<times> bool" where
  "deliver_tcp L 0 chan sock = ([], chan, sock, False, False)"
| "deliver_tcp L (Suc n) chan sock =
     (case try_reserve chan of
        ChanFull \<Rightarrow> ([], chan, sock, True, False)
      | ChanGone \<Rightarrow> ([], chan, sock, False, True)
      | Permit \<Rightarrow>
          if \<not> tcp_can_recv L sock then ([], chan, sock, False, False)
          else case tcp_recv L sock of
            (Some v, sock') \<Rightarrow>
              if v \<noteq> [] then
                (let (chunks, r) = deliver_tcp L n (chan\<lparr>room := room chan - 1\<rparr>) sock' in (v # chunks, r))
              else ([], chan, sock', False, False)
          | (None, sock') \<Rightarrow> ([], chan, sock', False, False))"

definition report_established :: "nat \<Rightarrow> tcp_phase \<Rightarrow> 't tcp_conn \<Rightarrow> 't tcp_conn \<times> stack_event list" where
  "report_established i state st =
     (if \<not> established st \<and> state = Established then
        (st\<lparr>established := True, connect_resp := None, tc_rx_held := False\<rparr>,
         case connect_resp st of
           Some resp \<Rightarrow> if tc_rx_held st then [Answer resp (Inr i)] else []
         | None \<Rightarrow> [])
      else (st, []))"

definition flush_pending :: "('i, 't, 'u) smoltcp \<Rightarrow> nat \<Rightarrow> 't tcp_conn \<Rightarrow> 't tcp_conn \<times> stack_event list" where
  "flush_pending L i st =
     (if tcp_can_send L (tc_handle st) \<and> pending st \<noteq> [] then
        (let (r, sock) = tcp_send_slice L (pending st) (tc_handle st);
             sent = (case r of Some n \<Rightarrow> n | None \<Rightarrow> 0) in
         if 0 < sent
         then (st\<lparr>tc_handle := sock, pending := drop sent (pending st)\<rparr>, [SocketSent i (take sent (pending st))])
         else (st\<lparr>tc_handle := sock\<rparr>, []))
      else (st, []))"

definition close_if_done :: "('i, 't, 'u) smoltcp \<Rightarrow> 't tcp_conn \<Rightarrow> 't tcp_conn" where
  "close_if_done L st =
     (if half_closed st \<and> pending st = [] then st\<lparr>tc_handle := tcp_close L (tc_handle st)\<rparr> else st)"

text \<open>The part after the delivery loop: the connection, or \<^term>\<open>None\<close> when it is removed.\<close>

definition finish_tcp :: "('i, 't, 'u) smoltcp \<Rightarrow> bool \<Rightarrow> 't tcp_conn \<Rightarrow> 't tcp_conn option" where
  "finish_tcp L app_gone st =
     (let st = (if app_gone then st\<lparr>tc_handle := tcp_close L (tc_handle st)\<rparr> else st);
          st_state = tcp_state L (tc_handle st);
          st = (if st_state = CloseWait then st\<lparr>tc_handle := tcp_close L (tc_handle st)\<rparr> else st);
          st = (if st_state = TimeWait then st\<lparr>pending := []\<rparr> else st) in
      if (st_state = Closed \<or> st_state = TimeWait) \<and> established st then None else Some st)"

definition serve_tcp_conn ::
  "('i, 't, 'u) smoltcp \<Rightarrow> nat \<Rightarrow> 't tcp_conn \<Rightarrow> 't tcp_conn option \<times> stack_event list \<times> bool" where
  "serve_tcp_conn L i st =
     (let state = tcp_state L (tc_handle st);
          (st, es1) = report_established i state st in
      if \<not> established st \<and> (state = Closed \<or> state = TimeWait) then
        (None, es1 @ (case connect_resp st of
            Some resp \<Rightarrow> [Answer resp (Inl (lit ''connection refused''))] | None \<Rightarrow> []), False)
      else
        let (st, es2) = flush_pending L i st;
            st = close_if_done L st;
            (chunks, chan, sock, full, app_gone) = deliver_tcp L MAX_RECV_CHUNKS (tc_to_app st) (tc_handle st);
            st = st\<lparr>tc_to_app := chan, tc_handle := sock\<rparr> in
        (finish_tcp L app_gone st, es1 @ es2 @ map (Deliver i) chunks, full))"

text \<open>The passes visit the connections in the order the hash map yields its keys, \<open>ids\<close>.\<close>

fun service_tcp ::
  "('i, 't, 'u) smoltcp \<Rightarrow> nat list \<Rightarrow> bool \<Rightarrow> ('i, 't, 'u) netstack \<Rightarrow> ('i, 't, 'u) netstack \<times> bool" where
  "service_tcp L [] bp s = (s, bp)"
| "service_tcp L (i # ids) bp s =
     (case tcp_conns s i of
        None \<Rightarrow> service_tcp L ids bp s
      | Some st \<Rightarrow>
          let (r, es, full) = serve_tcp_conn L i st in
          service_tcp L ids (bp \<or> full) (log_event es (s\<lparr>tcp_conns := (tcp_conns s)(i := r)\<rparr>)))"

subsection \<open>Serving UDP connections and the device\<close>

fun deliver_udp ::
  "('i, 't, 'u) smoltcp \<Rightarrow> nat \<Rightarrow> app_chan \<Rightarrow> 'u \<Rightarrow> (sock_addr \<times> bytes) list \<times> app_chan \<times> 'u \<times> bool" where
  "deliver_udp L 0 chan sock = ([], chan, sock, False)"
| "deliver_udp L (Suc n) chan sock =
     (case try_reserve chan of
        ChanFull \<Rightarrow> ([], chan, sock, True)
      | ChanGone \<Rightarrow> ([], chan, sock, False)
      | Permit \<Rightarrow>
          if \<not> udp_can_recv L sock then ([], chan, sock, False)
          else case udp_recv L sock of
            (Some (data, ep), sock') \<Rightarrow>
              (let (ds, r) = deliver_udp L n (chan\<lparr>room := room chan - 1\<rparr>) sock' in ((endpoint_to_socketaddr ep, data) # ds, r))
          | (None, sock') \<Rightarrow> ([], chan, sock', False))"

fun service_udp ::
  "('i, 't, 'u) smoltcp \<Rightarrow> nat list \<Rightarrow> bool \<Rightarrow> ('i, 't, 'u) netstack \<Rightarrow> ('i, 't, 'u) netstack \<times> bool" where
  "service_udp L [] bp s = (s, bp)"
| "service_udp L (i # ids) bp s =
     (case udp_conns s i of
        None \<Rightarrow> service_udp L ids bp s
      | Some st \<Rightarrow>
          let (ds, chan, sock, full) = deliver_udp L MAX_RECV_CHUNKS (uc_to_app st) (uc_handle st) in
          service_udp L ids (bp \<or> full)
            (log_event (map (\<lambda>(a, d). DeliverUdp i a d) ds)
              (s\<lparr>udp_conns := (udp_conns s)(i \<mapsto> st\<lparr>uc_handle := sock, uc_to_app := chan\<rparr>)\<rparr>)))"

text \<open>The answers of the outbound channel, one per packet; a closed channel loses the packet offered.\<close>

fun flush_packets :: "send_result list \<Rightarrow> bytes list \<Rightarrow> bytes list \<times> bytes list \<times> nat" where
  "flush_packets (SendOk # rs) (pkt # tx) = (let (sent, rest, n) = flush_packets rs tx in (pkt # sent, rest, n))"
| "flush_packets (SendFull # rs) (pkt # tx) = (let (sent, rest, n) = flush_packets rs tx in (sent, rest, n + 1))"
| "flush_packets _ (pkt # tx) = ([], tx, 0)"
| "flush_packets _ [] = ([], [], 0)"

definition flush_tx :: "send_result list \<Rightarrow> ('i, 't, 'u) netstack \<Rightarrow> ('i, 't, 'u) netstack \<times> nat" where
  "flush_tx rs s =
     (let (sent, rest, dropped) = flush_packets rs (dev_tx s) in
      (log_event (map Outbound sent) (s\<lparr>dev_tx := rest\<rparr>), dropped))"

subsection \<open>The main loop\<close>

record ('i, 't, 'u) stack_loop =
  stack :: "('i, 't, 'u) netstack"
  deferred :: "data_in list"
  data_rx :: "data_in list"
  tx_dropped :: nat
  next_drop_report :: nat

definition poll_stack :: "('i, 't, 'u) smoltcp \<Rightarrow> nat \<Rightarrow> ('i, 't, 'u) netstack \<Rightarrow> ('i, 't, 'u) netstack" where
  "poll_stack L now s =
     (let (panicked, i, rx, tx, ts, us) = poll L now (iface s, dev_rx s, dev_tx s,
            map_option tc_handle \<circ> tcp_conns s, map_option uc_handle \<circ> udp_conns s) in
      s\<lparr>iface := i,
        dev_rx := (if panicked then [] else rx),
        dev_tx := (if panicked then [] else tx),
        tcp_conns := (\<lambda>c. case (tcp_conns s c, ts c) of
            (Some st, Some t) \<Rightarrow> Some (st\<lparr>tc_handle := t\<rparr>) | (Some st, None) \<Rightarrow> Some st | (None, _) \<Rightarrow> None),
        udp_conns := (\<lambda>c. case (udp_conns s c, us c) of
            (Some st, Some u) \<Rightarrow> Some (st\<lparr>uc_handle := u\<rparr>) | (Some st, None) \<Rightarrow> Some st | (None, _) \<Rightarrow> None)\<rparr>)"

fun retry_deferred ::
  "tuning \<Rightarrow> ('i, 't, 'u) smoltcp \<Rightarrow> data_in list \<Rightarrow> ('i, 't, 'u) netstack \<Rightarrow> ('i, 't, 'u) netstack \<times> data_in list" where
  "retry_deferred T L [] s = (s, [])"
| "retry_deferred T L (d # ds) s =
     (case try_handle_data T L d s of
        (s, Some back) \<Rightarrow> (s, back # ds)
      | (s, None) \<Rightarrow> retry_deferred T L ds s)"

text \<open>The receive branch for application data: it stops at the first item that must be deferred.\<close>

fun drain_data ::
  "tuning \<Rightarrow> ('i, 't, 'u) smoltcp \<Rightarrow> data_in list \<Rightarrow> ('i, 't, 'u) netstack
    \<Rightarrow> ('i, 't, 'u) netstack \<times> data_in list \<times> data_in list" where
  "drain_data T L [] s = (s, [], [])"
| "drain_data T L (d # ds) s =
     (case try_handle_data T L d s of
        (s, Some back) \<Rightarrow> (s, [back], ds)
      | (s, None) \<Rightarrow> drain_data T L ds s)"

text \<open>
  One pass before the \<open>select!\<close>: the clock, the orders of the two hash maps and the answers of the
  outbound channel are given. The second component is the time until the next pass, if limited.
\<close>

definition loop_pass ::
  "tuning \<Rightarrow> ('i, 't, 'u) smoltcp \<Rightarrow> nat \<Rightarrow> nat list \<Rightarrow> nat list \<Rightarrow> send_result list \<Rightarrow> ('i, 't, 'u) stack_loop
    \<Rightarrow> ('i, 't, 'u) stack_loop \<times> nat option" where
  "loop_pass T L now tcp_ids udp_ids rs l =
     (let s = poll_stack L now (stack l);
          (s, tcp_busy) = service_tcp L tcp_ids False s;
          (s, udp_busy) = service_udp L udp_ids False s;
          (s, dropped) = flush_tx rs s;
          total = (if 0 < dropped then min (tx_dropped l + dropped) (2 ^ 64 - 1) else tx_dropped l);
          report = (if 0 < dropped \<and> next_drop_report l \<le> total then total + DROP_REPORT_STEP else next_drop_report l);
          (s, waiting) = retry_deferred T L (deferred l) s;
          delay =
            (if tcp_busy \<or> udp_busy \<or> waiting \<noteq> [] then Some BACKPRESSURE_RETRY
             else let polled = poll_delay L (iface s) (map_option tc_handle \<circ> tcp_conns s) (map_option uc_handle \<circ> udp_conns s) in
               if tcp_conns s = Map.empty \<and> udp_conns s = Map.empty then polled
               else Some (case polled of None \<Rightarrow> MAX_IDLE_TICK | Some d \<Rightarrow> min d MAX_IDLE_TICK))
      in (l\<lparr>stack := s, deferred := waiting, tx_dropped := total, next_drop_report := report\<rparr>, delay))"

text \<open>The branches of the \<open>select!\<close>; \<^term>\<open>None\<close> when the loop returns.\<close>

datatype select =
    Packets bytes "bytes list"
  | PacketsClosed
  | Command cmd
  | CommandsClosed
  | DataReady
  | Timer

definition loop_select ::
  "tuning \<Rightarrow> ('i, 't, 'u) smoltcp \<Rightarrow> select \<Rightarrow> ('i, 't, 'u) stack_loop \<Rightarrow> ('i, 't, 'u) stack_loop option" where
  "loop_select T L ev l =
     (case ev of
        Packets pkt more_pkts \<Rightarrow>
          Some (l\<lparr>stack := (stack l)\<lparr>dev_rx := dev_rx (stack l) @ pkt # take MAX_INGEST_PER_TICK more_pkts\<rparr>\<rparr>)
      | PacketsClosed \<Rightarrow> None
      | Command c \<Rightarrow> Some (l\<lparr>stack := handle_cmd T L c (stack l)\<rparr>)
      | CommandsClosed \<Rightarrow> None
      | DataReady \<Rightarrow>
          if deferred l \<noteq> [] then Some l
          else (let (s, waiting, rest) = drain_data T L (data_rx l) (stack l) in
                Some (l\<lparr>stack := s, deferred := waiting, data_rx := rest\<rparr>))
      | Timer \<Rightarrow> Some l)"

subsection \<open>Runs\<close>

text \<open>
  What applications do between and during iterations: they take data from their channels or drop
  them, which changes the channels only.
\<close>

definition set_channels ::
  "(nat \<Rightarrow> app_chan) \<Rightarrow> (nat \<Rightarrow> app_chan) \<Rightarrow> ('i, 't, 'u) netstack \<Rightarrow> ('i, 't, 'u) netstack" where
  "set_channels f g s =
     s\<lparr>tcp_conns := (\<lambda>i. map_option (\<lambda>st. st\<lparr>tc_to_app := f i\<rparr>) (tcp_conns s i)),
       udp_conns := (\<lambda>i. map_option (\<lambda>st. st\<lparr>uc_to_app := g i\<rparr>) (udp_conns s i))\<rparr>"

text \<open>The open requests that have been answered, and those a connection still has to answer.\<close>

definition answered :: "stack_event list \<Rightarrow> nat list" where
  "answered es = List.map_filter (\<lambda>e. case e of Answer r _ \<Rightarrow> Some r | _ \<Rightarrow> None) es"

definition awaiting :: "('i, 't, 'u) netstack \<Rightarrow> nat \<Rightarrow> nat \<Rightarrow> bool" where
  "awaiting s i r \<longleftrightarrow> (\<exists>st. tcp_conns s i = Some st \<and> connect_resp st = Some r)"

definition requests :: "('i, 't, 'u) netstack \<Rightarrow> nat set" where
  "requests s = set (answered (ns_events s)) \<union> {r. \<exists>i. awaiting s i r}"

text \<open>
  A step of the stack, with the data applications submit in it: one iteration of the loop, a submission
  to the queue, or a change of channels. An answer channel is used for one request only.
\<close>

fun command_resp :: "select \<Rightarrow> nat option" where
  "command_resp (Command (CmdOpenTcp _ r)) = Some r"
| "command_resp (Command (CmdOpenUdp r)) = Some r"
| "command_resp _ = None"

inductive loop_step ::
  "tuning \<Rightarrow> ('i, 't, 'u) smoltcp \<Rightarrow> ('i, 't, 'u) stack_loop \<Rightarrow> data_in list \<Rightarrow> ('i, 't, 'u) stack_loop \<Rightarrow> bool"
  for T :: tuning and L :: "('i, 't, 'u) smoltcp" where
  iterate: "loop_pass T L now tcp_ids udp_ids rs l = (l1, delay) \<Longrightarrow> loop_select T L ev l1 = Some l2 \<Longrightarrow>
    (\<And>r. command_resp ev = Some r \<Longrightarrow> r \<notin> requests (stack l1)) \<Longrightarrow> loop_step T L l [] l2"
| submit: "loop_step T L l [d] (l\<lparr>data_rx := data_rx l @ [d]\<rparr>)"
| channels: "loop_step T L l [] (l\<lparr>stack := set_channels f g (stack l)\<rparr>)"

inductive loop_run ::
  "tuning \<Rightarrow> ('i, 't, 'u) smoltcp \<Rightarrow> ('i, 't, 'u) stack_loop \<Rightarrow> data_in list \<Rightarrow> ('i, 't, 'u) stack_loop \<Rightarrow> bool"
  for T :: tuning and L :: "('i, 't, 'u) smoltcp" where
  refl: "loop_run T L l [] l"
| step: "loop_run T L l ds l1 \<Longrightarrow> loop_step T L l1 es l2 \<Longrightarrow> loop_run T L l (ds @ es) l2"

definition loop_start :: "('i, 't, 'u) netstack \<Rightarrow> ('i, 't, 'u) stack_loop" where
  "loop_start s = \<lparr>stack = s, deferred = [], data_rx = [], tx_dropped = 0, next_drop_report = DROP_REPORT_STEP\<rparr>"

subsection \<open>The invariant\<close>

definition conn_inv :: "tuning \<Rightarrow> 't tcp_conn \<Rightarrow> bool" where
  "conn_inv T st \<longleftrightarrow> length (pending st) \<le> max_tcp_pending T \<and> (established st \<longleftrightarrow> connect_resp st = None)
     \<and> (tc_rx_held st \<longleftrightarrow> connect_resp st \<noteq> None)"

definition stack_inv :: "tuning \<Rightarrow> ('i, 't, 'u) netstack \<Rightarrow> bool" where
  "stack_inv T s \<longleftrightarrow>
     (\<forall>i st. tcp_conns s i = Some st \<longrightarrow> conn_inv T st \<and> i < next_id s \<and> udp_conns s i = None)
     \<and> (\<forall>i. udp_conns s i \<noteq> None \<longrightarrow> i < next_id s)
     \<and> 49152 \<le> next_port s \<and> next_port s \<le> 65000
     \<and> distinct (answered (ns_events s))
     \<and> (\<forall>i r. awaiting s i r \<longrightarrow> r \<notin> set (answered (ns_events s)))
     \<and> (\<forall>i j r. awaiting s i r \<and> awaiting s j r \<longrightarrow> i = j)"

definition loop_inv :: "tuning \<Rightarrow> ('i, 't, 'u) stack_loop \<Rightarrow> bool" where
  "loop_inv T l \<longleftrightarrow> stack_inv T (stack l) \<and> length (deferred l) \<le> 1"

lemma answered_simps [simp]:
  "answered [] = []" "answered (es @ fs) = answered es @ answered fs"
  "answered (Answer r x # es) = r # answered es" "answered (Deliver i d # es) = answered es"
  "answered (DeliverUdp i a d # es) = answered es" "answered (SocketSent i d # es) = answered es"
  "answered (UdpSent i e d # es) = answered es" "answered (Outbound d # es) = answered es"
  by (simp_all add: answered_def List.map_filter_simps) (simp add: List.map_filter_def)

lemma answered_Deliver [simp]: "answered (map (Deliver i) xs) = []"
  by (induction xs) simp_all

lemma answered_DeliverUdp [simp]: "answered (map (\<lambda>(a, d). DeliverUdp i a d) xs) = []"
  by (induction xs) auto

lemma answered_Outbound [simp]: "answered (map Outbound xs) = []"
  by (induction xs) simp_all

lemma log_event_simps [simp]:
  "tcp_conns (log_event es s) = tcp_conns s" "udp_conns (log_event es s) = udp_conns s" "next_id (log_event es s) = next_id s"
  "next_port (log_event es s) = next_port s" "ns_events (log_event es s) = ns_events s @ es"
  by (simp_all add: log_event_def)

text \<open>
  Most operations change nothing but the sockets, channels, pending data and half-closed flags of the
  connections that exist, and answer nobody.
\<close>

definition req_view :: "'t tcp_conn \<Rightarrow> nat option \<times> bool \<times> bool" where
  "req_view st = (connect_resp st, established st, tc_rx_held st)"

definition same_requests :: "('i, 't, 'u) netstack \<Rightarrow> ('i, 't, 'u) netstack \<Rightarrow> bool" where
  "same_requests s s' \<longleftrightarrow> next_id s' = next_id s \<and> next_port s' = next_port s
     \<and> answered (ns_events s') = answered (ns_events s)
     \<and> map_option req_view \<circ> tcp_conns s' = map_option req_view \<circ> tcp_conns s
     \<and> dom (udp_conns s') \<subseteq> dom (udp_conns s)"

definition small_pending :: "tuning \<Rightarrow> ('i, 't, 'u) netstack \<Rightarrow> bool" where
  "small_pending T s \<longleftrightarrow> (\<forall>i st. tcp_conns s i = Some st \<longrightarrow> length (pending st) \<le> max_tcp_pending T)"

lemma same_requests_view:
  assumes "same_requests s s'"
  shows "map_option req_view (tcp_conns s' i) = map_option req_view (tcp_conns s i)"
  using assms unfolding same_requests_def comp_def by metis

lemma awaiting_view: "awaiting s i r \<longleftrightarrow> (\<exists>v. map_option req_view (tcp_conns s i) = Some (Some r, v))"
  by (auto simp: awaiting_def req_view_def)

lemma same_requests_awaiting: "same_requests s s' \<Longrightarrow> awaiting s' i r \<longleftrightarrow> awaiting s i r"
  by (simp only: awaiting_view same_requests_view)

lemma same_requests_inv:
  assumes "stack_inv T s" "same_requests s s'" "small_pending T s'"
  shows "stack_inv T s'"
proof -
  have "conn_inv T st' \<and> i < next_id s' \<and> udp_conns s' i = None" if st': "tcp_conns s' i = Some st'" for i st'
  proof -
    obtain st where st: "tcp_conns s i = Some st" "req_view st' = req_view st"
      using same_requests_view [OF assms(2), of i] st' by (cases "tcp_conns s i") auto
    then have "conn_inv T st \<and> i < next_id s \<and> udp_conns s i = None" using assms(1) by (simp add: stack_inv_def)
    moreover have "udp_conns s i = None \<Longrightarrow> udp_conns s' i = None" using assms(2) by (auto simp: same_requests_def)
    ultimately show ?thesis
      using st st' assms(2,3) by (auto simp: small_pending_def conn_inv_def req_view_def same_requests_def)
  qed
  moreover have "i < next_id s'" if "udp_conns s' i \<noteq> None" for i
    using that assms(1,2) by (auto simp: stack_inv_def same_requests_def)
  ultimately show ?thesis
    using assms(1,2) unfolding stack_inv_def same_requests_awaiting [OF assms(2)] by (auto simp: same_requests_def)
qed

lemma same_requests_refl [simp]: "same_requests s s"
  by (simp add: same_requests_def)

lemma same_requests_trans: "same_requests s t \<Longrightarrow> same_requests t u \<Longrightarrow> same_requests s u"
  unfolding same_requests_def by (simp, blast)

subsection \<open>Operations that answer nobody\<close>

lemma poll_stack_same: "same_requests s (poll_stack L now s)" "small_pending T s \<Longrightarrow> small_pending T (poll_stack L now s)"
  by (auto simp: same_requests_def small_pending_def poll_stack_def req_view_def case_prod_beta Let_def fun_eq_iff dom_def
      split: option.splits)

lemma req_view_upd [simp]:
  "req_view (st\<lparr>tc_to_app := x\<rparr>) = req_view st" "req_view (st\<lparr>tc_handle := t\<rparr>) = req_view st"
  "req_view (st\<lparr>pending := d\<rparr>) = req_view st" "req_view (st\<lparr>half_closed := b\<rparr>) = req_view st"
  by (simp_all add: req_view_def)

lemma set_channels_same: "same_requests s (set_channels f g s)" "small_pending T s \<Longrightarrow> small_pending T (set_channels f g s)"
  by (auto simp: same_requests_def small_pending_def set_channels_def fun_eq_iff option.map_comp comp_def)

lemma service_udp_same:
  "same_requests s (fst (service_udp L ids bp s)) \<and> tcp_conns (fst (service_udp L ids bp s)) = tcp_conns s"
proof (induction ids arbitrary: bp s)
  case (Cons i ids)
  show ?case
  proof (cases "udp_conns s i")
    case (Some st)
    obtain ds chan sock full where d: "deliver_udp L MAX_RECV_CHUNKS (uc_to_app st) (uc_handle st) = (ds, chan, sock, full)"
      by (metis prod.exhaust)
    let ?s = "log_event (map (\<lambda>(a, d). DeliverUdp i a d) ds) (s\<lparr>udp_conns := (udp_conns s)(i \<mapsto> st\<lparr>uc_handle := sock, uc_to_app := chan\<rparr>)\<rparr>)"
    have "same_requests s ?s" "tcp_conns ?s = tcp_conns s" using Some by (auto simp: same_requests_def)
    then show ?thesis using Cons [of ?s "bp \<or> full"] Some d same_requests_trans by (auto simp: Let_def)
  qed (use Cons in simp)
qed simp

lemma flush_tx_same: "same_requests s (fst (flush_tx rs s)) \<and> tcp_conns (fst (flush_tx rs s)) = tcp_conns s"
  by (auto simp: flush_tx_def same_requests_def case_prod_beta Let_def)

lemma try_handle_data_same:
  "same_requests s (fst (try_handle_data T L d s)) \<and> (small_pending T s \<longrightarrow> small_pending T (fst (try_handle_data T L d s)))"
  by (cases d) (auto simp: try_handle_data_def same_requests_def small_pending_def req_view_def Let_def fun_eq_iff split: option.splits)

lemma retry_deferred_same:
  "same_requests s (fst (retry_deferred T L ds s)) \<and> (small_pending T s \<longrightarrow> small_pending T (fst (retry_deferred T L ds s)))
    \<and> length (snd (retry_deferred T L ds s)) \<le> length ds"
proof (induction T L ds s rule: retry_deferred.induct)
  case (2 T L d ds s)
  obtain s1 r where d: "try_handle_data T L d s = (s1, r)" by fastforce
  with try_handle_data_same [of s T L d]
  have one: "same_requests s s1" "small_pending T s \<longrightarrow> small_pending T s1" by simp_all
  show ?case
  proof (cases r)
    case None
    then show ?thesis using 2 [OF d [symmetric] None] d one same_requests_trans [OF one(1)] by auto
  qed (use d one in simp)
qed simp

lemma drain_data_same:
  "same_requests s (fst (drain_data T L ds s)) \<and> (small_pending T s \<longrightarrow> small_pending T (fst (drain_data T L ds s)))
    \<and> length (fst (snd (drain_data T L ds s))) \<le> 1"
proof (induction T L ds s rule: drain_data.induct)
  case (2 T L d ds s)
  obtain s1 r where d: "try_handle_data T L d s = (s1, r)" by fastforce
  with try_handle_data_same [of s T L d]
  have one: "same_requests s s1" "small_pending T s \<longrightarrow> small_pending T s1" by simp_all
  show ?case
  proof (cases r)
    case None
    then show ?thesis using 2 [OF d [symmetric] None] d one same_requests_trans [OF one(1)] by auto
  qed (use d one in simp)
qed simp

subsection \<open>Serving one connection\<close>

lemma finish_tcp_view:
  assumes "finish_tcp L app_gone st = Some st'"
  shows "req_view st' = req_view st" "pending st' = pending st \<or> pending st' = []"
  using assms by (auto simp: finish_tcp_def req_view_def Let_def split: if_splits)

lemma finish_tcp_None: "finish_tcp L app_gone st = None \<Longrightarrow> established st"
  by (auto simp: finish_tcp_def Let_def split: if_splits)

lemma flush_pending_view:
  assumes "flush_pending L i st = (st', es)"
  shows "req_view st' = req_view st" "answered es = []" "length (pending st') \<le> length (pending st)"
  using assms by (auto simp: flush_pending_def req_view_def case_prod_beta Let_def split: if_splits)

lemma close_if_done_view: "req_view (close_if_done L st) = req_view st" "pending (close_if_done L st) = pending st"
  by (simp_all add: close_if_done_def req_view_def)

lemma report_established_cases:
  assumes "report_established i state st = (st', es)" "conn_inv T st"
  shows "conn_inv T st' \<and> pending st' = pending st \<and>
    (req_view st' = req_view st \<and> es = [] \<or>
     (\<exists>r. connect_resp st = Some r \<and> connect_resp st' = None \<and> es = [Answer r (Inr i)]))"
  using assms by (auto simp: report_established_def conn_inv_def req_view_def split: if_splits option.splits)

text \<open>A request is answered exactly when its connection stops waiting, be it by leaving the table.\<close>

lemma serve_tcp_conn_inv:
  assumes "serve_tcp_conn L i st = (r, es, full)" "conn_inv T st"
  shows "(\<forall>st'. r = Some st' \<longrightarrow> conn_inv T st' \<and> (connect_resp st' = connect_resp st \<or> connect_resp st' = None))
    \<and> answered es = (if Option.bind r connect_resp = connect_resp st then [] else [the (connect_resp st)])
    \<and> (Option.bind r connect_resp \<noteq> connect_resp st \<longrightarrow> connect_resp st \<noteq> None)"
proof -
  obtain st1 es1 where r1: "report_established i (tcp_state L (tc_handle st)) st = (st1, es1)" by fastforce
  note c1 = report_established_cases [OF r1 assms(2)]
  obtain st2 es2 where r2: "flush_pending L i st1 = (st2, es2)" by fastforce
  note c2 = flush_pending_view [OF r2]
  let ?st3 = "close_if_done L st2"
  obtain chunks chan sock f app_gone where d: "deliver_tcp L MAX_RECV_CHUNKS (tc_to_app ?st3) (tc_handle ?st3) = (chunks, chan, sock, f, app_gone)"
    by (metis prod.exhaust)
  let ?st4 = "?st3\<lparr>tc_to_app := chan, tc_handle := sock\<rparr>"
  have v4: "req_view ?st4 = req_view st1" "length (pending ?st4) \<le> length (pending st1)"
    using c2 close_if_done_view [of L st2] by (simp_all add: req_view_def)
  show ?thesis
  proof (cases "\<not> established st1 \<and> (tcp_state L (tc_handle st) = Closed \<or> tcp_state L (tc_handle st) = TimeWait)")
    case True
    then have "r = None" "es = es1 @ (case connect_resp st1 of Some x \<Rightarrow> [Answer x (Inl (lit ''connection refused''))] | None \<Rightarrow> [])"
      using assms(1) r1 by (simp_all add: serve_tcp_conn_def)
    then show ?thesis using True c1 by (auto simp: conn_inv_def req_view_def split: option.splits)
  next
    case False
    then have r: "r = finish_tcp L app_gone ?st4" "es = es1 @ es2 @ map (Deliver i) chunks"
      using assms(1) r1 r2 d by (auto simp: serve_tcp_conn_def Let_def)
    show ?thesis
    proof (cases r)
      case None
      then have "established st1" using r finish_tcp_None [of L app_gone ?st4] v4 by (simp add: req_view_def)
      then show ?thesis using None r c1 c2 by (auto simp: conn_inv_def req_view_def)
    next
      case (Some st')
      then have "req_view st' = req_view st1" "length (pending st') \<le> length (pending st1)"
        using r finish_tcp_view [of L app_gone ?st4 st'] v4 by auto
      then show ?thesis using Some r c1 c2 by (auto simp: conn_inv_def req_view_def)
    qed
  qed
qed

lemma stack_inv_unique: "stack_inv T s \<Longrightarrow> awaiting s j x \<Longrightarrow> awaiting s k x \<Longrightarrow> j = k"
  unfolding stack_inv_def by blast

lemma stack_inv_fresh: "stack_inv T s \<Longrightarrow> awaiting s j x \<Longrightarrow> x \<notin> set (answered (ns_events s))"
  unfolding stack_inv_def by blast

lemma serve_step_inv:
  assumes inv: "stack_inv T s" and i: "tcp_conns s i = Some st" and r: "serve_tcp_conn L i st = (r, es, full)"
  defines "s' \<equiv> log_event es (s\<lparr>tcp_conns := (tcp_conns s)(i := r)\<rparr>)"
  shows "stack_inv T s' \<and> requests s \<subseteq> requests s'"
proof -
  have c: "conn_inv T st" using inv i by (auto simp: stack_inv_def)
  note r = serve_tcp_conn_inv [OF r c]
  have aw: "awaiting s' j x \<longleftrightarrow> (if j = i then Option.bind r connect_resp = Some x else awaiting s j x)" for j x
    by (auto simp: s'_def awaiting_def split: bind_splits)
  have st: "awaiting s i x \<longleftrightarrow> connect_resp st = Some x" for x using i by (simp add: awaiting_def)
  have ans: "answered (ns_events s') = answered (ns_events s) @ answered es" by (simp add: s'_def)
  have old: "awaiting s j x \<Longrightarrow> x \<notin> set (answered (ns_events s))" "awaiting s j x \<Longrightarrow> awaiting s k x \<Longrightarrow> j = k"
    "distinct (answered (ns_events s))" for j k x
    using stack_inv_fresh [OF inv] stack_inv_unique [OF inv] inv by (blast, blast, simp add: stack_inv_def)
  have kept: "Option.bind r connect_resp = Some x \<Longrightarrow> connect_resp st = Some x" for x using r by (auto split: bind_splits)
  have tcp: "tcp_conns s' j = Some st' \<Longrightarrow> conn_inv T st' \<and> j < next_id s' \<and> udp_conns s' j = None" for j st'
    using inv r i by (auto simp: s'_def stack_inv_def split: if_splits)
  have aw_old: "awaiting s' j x \<Longrightarrow> awaiting s j x" for j x using aw [of j x] st [of x] kept [of x] by (auto split: if_splits)
  have fresh: "x \<notin> set (answered es)" if "awaiting s' j x" for j x
  proof (cases "j = i")
    case True
    then have "Option.bind r connect_resp = Some x" "connect_resp st = Some x" using that aw kept by auto
    then show ?thesis using r by auto
  next
    case False
    then have "connect_resp st \<noteq> Some x" using that aw old(2) [of j x i] st by auto
    then show ?thesis using r by (cases "connect_resp st") (auto split: if_splits)
  qed
  have "distinct (answered (ns_events s'))"
    using r old(1) [of i] old(3) st by (auto simp: ans split: if_splits)
  moreover have "awaiting s' j x \<Longrightarrow> x \<notin> set (answered (ns_events s'))" for j x
    using fresh [of j x] aw_old [of j x] old(1) [of j x] by (simp add: ans)
  moreover have "awaiting s' j x \<Longrightarrow> awaiting s' k x \<Longrightarrow> j = k" for j k x using aw_old old(2) by blast
  ultimately have "stack_inv T s'"
    using inv tcp unfolding stack_inv_def by (auto simp: s'_def)
  moreover have "x \<in> requests s'" if "x \<in> requests s" for x
  proof -
    have "\<exists>k. awaiting s' k x" if "awaiting s j x" "x \<notin> set (answered es)" for j
      using that aw [of j x] st r by (cases "j = i") (auto split: if_splits)
    then show ?thesis using that by (auto simp: requests_def ans)
  qed
  ultimately show ?thesis by blast
qed

lemma service_tcp_inv:
  "stack_inv T s \<Longrightarrow> stack_inv T (fst (service_tcp L ids bp s)) \<and> requests s \<subseteq> requests (fst (service_tcp L ids bp s))"
proof (induction ids arbitrary: bp s)
  case (Cons i ids)
  show ?case
  proof (cases "tcp_conns s i")
    case (Some st)
    obtain r es full where r: "serve_tcp_conn L i st = (r, es, full)" by (metis prod.exhaust)
    let ?s = "log_event es (s\<lparr>tcp_conns := (tcp_conns s)(i := r)\<rparr>)"
    show ?thesis using serve_step_inv [OF Cons.prems Some r] Cons.IH [of ?s "bp \<or> full"] Some r by auto
  qed (use Cons in simp)
qed simp

lemma same_requests_requests: "same_requests s s' \<Longrightarrow> requests s' = requests s"
  unfolding requests_def by (simp only: same_requests_awaiting) (simp add: same_requests_def)

lemma small_pending_inv: "stack_inv T s \<Longrightarrow> small_pending T s"
  by (auto simp: stack_inv_def small_pending_def conn_inv_def)

lemma quiet_step:
  assumes "stack_inv T s" "same_requests s s'" "small_pending T s \<Longrightarrow> small_pending T s'"
  shows "stack_inv T s' \<and> requests s \<subseteq> requests s'"
  using assms small_pending_inv same_requests_inv same_requests_requests by blast

lemma alloc_port_range: "49152 \<le> p \<Longrightarrow> p \<le> 65000 \<Longrightarrow> 49152 \<le> snd (alloc_port p) \<and> snd (alloc_port p) \<le> 65000"
proof -
  assume p: "49152 \<le> p" "p \<le> 65000"
  have "p < 65000 \<Longrightarrow> p + 1 \<le> 65000 \<and> 49152 \<le> p + 1" using p(1) by (simp add: word_le_nat_alt word_less_nat_alt unat_word_ariths)
  then show ?thesis by (auto simp: alloc_port_def not_le)
qed

lemma handle_cmd_inv:
  assumes inv: "stack_inv T s" and fresh: "\<And>r. command_resp (Command c) = Some r \<Longrightarrow> r \<notin> requests s"
  shows "stack_inv T (handle_cmd T L c s) \<and> requests s \<subseteq> requests (handle_cmd T L c s)"
proof -
  have free: "tcp_conns s (next_id s) = None" "udp_conns s (next_id s) = None"
    using inv by (auto simp: stack_inv_def) (metis less_irrefl not_None_eq)+
  have port: "49152 \<le> snd (alloc_port (next_port s)) \<and> snd (alloc_port (next_port s)) \<le> 65000"
    using inv alloc_port_range by (simp add: stack_inv_def)
  show ?thesis
  proof (cases c)
    case (CmdOpenTcp dst resp)
    have f: "resp \<notin> set (answered (ns_events s))" "\<not> awaiting s i resp" for i
      using fresh [of resp] CmdOpenTcp by (auto simp: requests_def)
    show ?thesis
    proof (cases "tcp_connect L (iface s) (tcp_buf T) (to_ip_endpoint dst) (next_port s)")
      case (Inl e)
      then show ?thesis
        using inv CmdOpenTcp f port
        by (auto simp: handle_cmd_def stack_inv_def requests_def awaiting_def case_prod_beta alloc_port_def log_event_def)
    next
      case (Inr socket)
      have aw: "awaiting (handle_cmd T L c s) j x \<longleftrightarrow> (if j = next_id s then x = resp else awaiting s j x)" for j x
        using CmdOpenTcp Inr by (auto simp: handle_cmd_def awaiting_def alloc_port_def)
      have ev: "ns_events (handle_cmd T L c s) = ns_events s" "next_id (handle_cmd T L c s) = next_id s + 1"
        "udp_conns (handle_cmd T L c s) = udp_conns s" "next_port (handle_cmd T L c s) = snd (alloc_port (next_port s))"
        using CmdOpenTcp Inr by (simp_all add: handle_cmd_def alloc_port_def)
      have "conn_inv T st \<and> j < next_id s + 1 \<and> udp_conns s j = None" if "tcp_conns (handle_cmd T L c s) j = Some st" for j st
        using that inv free CmdOpenTcp Inr
        by (fastforce simp: handle_cmd_def alloc_port_def stack_inv_def conn_inv_def split: if_splits)
      moreover have new: "\<not> awaiting s (next_id s) x" for x using free by (simp add: awaiting_def)
      moreover have "awaiting (handle_cmd T L c s) j x \<Longrightarrow> awaiting (handle_cmd T L c s) k x \<Longrightarrow> j = k" for j k x
        using aw [of j x] aw [of k x] f(2) stack_inv_unique [OF inv, of j x k] by (auto split: if_splits)
      moreover have "awaiting (handle_cmd T L c s) j x \<Longrightarrow> x \<notin> set (answered (ns_events s))" for j x
        using aw [of j x] f(1) stack_inv_fresh [OF inv, of j x] by (auto split: if_splits)
      ultimately have "stack_inv T (handle_cmd T L c s)"
        using inv port unfolding stack_inv_def ev by (auto simp: less_Suc_eq)
      moreover have "awaiting s j x \<Longrightarrow> awaiting (handle_cmd T L c s) j x" for j x
        using aw [of j x] new [of x] by auto
      then have "requests s \<subseteq> requests (handle_cmd T L c s)" unfolding requests_def ev by blast
      ultimately show ?thesis by blast
    qed
  next
    case (CmdOpenUdp resp)
    have f: "resp \<notin> set (answered (ns_events s))" "\<not> awaiting s i resp" for i
      using fresh [of resp] CmdOpenUdp by (auto simp: requests_def)
    let ?s = "handle_cmd T L c s"
    have ev: "answered (ns_events ?s) = answered (ns_events s) @ [resp]" "tcp_conns ?s = tcp_conns s" "next_id s \<le> next_id ?s"
      "next_port ?s = snd (alloc_port (next_port s))"
      "udp_conns ?s j \<noteq> None \<Longrightarrow> udp_conns s j \<noteq> None \<or> j = next_id s \<and> next_id ?s = next_id s + 1" for j
      using CmdOpenUdp by (cases "udp_bind L (udp_meta T) (udp_buf T) (next_port s)";
        auto simp: handle_cmd_def alloc_port_def Let_def split: if_splits)+
    have aw: "awaiting ?s = awaiting s" by (simp add: awaiting_def fun_eq_iff ev(2))
    have "conn_inv T st \<and> j < next_id ?s \<and> udp_conns ?s j = None" if "tcp_conns ?s j = Some st" for j st
    proof -
      have "conn_inv T st \<and> j < next_id s \<and> udp_conns s j = None" using that inv by (simp add: ev(2) stack_inv_def)
      moreover from this have "udp_conns ?s j = None" using ev(5) [of j] by (metis less_irrefl)
      ultimately show ?thesis using ev(3) by simp
    qed
    moreover have "udp_conns ?s j \<noteq> None \<Longrightarrow> j < next_id ?s" for j
      using ev(3) ev(5) [of j] inv by (auto simp: stack_inv_def)
    ultimately have "stack_inv T ?s"
      using inv f port stack_inv_fresh [OF inv] stack_inv_unique [OF inv] unfolding stack_inv_def aw ev(1,4) by auto
    then show ?thesis unfolding requests_def aw ev(1) by auto
  next
    case (CmdSetAddrs v4 v6)
    then show ?thesis using inv by (simp add: handle_cmd_def stack_inv_def requests_def awaiting_def)
  qed
qed

subsection \<open>The loop keeps the invariant\<close>

lemma loop_pass_inv:
  assumes "loop_inv T l" "loop_pass T L now tcp_ids udp_ids rs l = (l1, delay)"
  shows "loop_inv T l1 \<and> requests (stack l) \<subseteq> requests (stack l1)"
proof -
  let ?s1 = "poll_stack L now (stack l)"
  let ?s2 = "fst (service_tcp L tcp_ids False ?s1)"
  let ?s3 = "fst (service_udp L udp_ids False ?s2)"
  let ?s4 = "fst (flush_tx rs ?s3)"
  let ?s5 = "fst (retry_deferred T L (deferred l) ?s4)"
  have l1: "stack l1 = ?s5" "deferred l1 = snd (retry_deferred T L (deferred l) ?s4)"
    using assms(2) by (auto simp: loop_pass_def case_prod_beta Let_def)
  have 0: "stack_inv T (stack l)" using assms(1) by (simp add: loop_inv_def)
  have 1: "stack_inv T ?s1 \<and> requests (stack l) \<subseteq> requests ?s1" using quiet_step [OF 0 poll_stack_same] by blast
  then have 2: "stack_inv T ?s2 \<and> requests ?s1 \<subseteq> requests ?s2" using service_tcp_inv by blast
  then have 3: "stack_inv T ?s3 \<and> requests ?s2 \<subseteq> requests ?s3"
    using quiet_step [of T ?s2 ?s3] service_udp_same [of ?s2 L udp_ids False] by (simp add: small_pending_def)
  then have 4: "stack_inv T ?s4 \<and> requests ?s3 \<subseteq> requests ?s4"
    using quiet_step [of T ?s3 ?s4] flush_tx_same [of ?s3 rs] by (simp add: small_pending_def)
  then have 5: "stack_inv T ?s5 \<and> requests ?s4 \<subseteq> requests ?s5"
    using quiet_step [of T ?s4 ?s5] retry_deferred_same [of ?s4 T L "deferred l"] by simp
  have "length (deferred l1) \<le> 1"
    using assms(1) retry_deferred_same [of ?s4 T L "deferred l"] by (simp add: l1 loop_inv_def)
  moreover have "requests (stack l) \<subseteq> requests ?s5" using 1 2 3 4 5 by (meson order_trans)
  ultimately show ?thesis using 5 by (simp add: loop_inv_def l1)
qed

lemma loop_select_inv:
  assumes "loop_inv T l" "loop_select T L ev l = Some l'" "\<And>r. command_resp ev = Some r \<Longrightarrow> r \<notin> requests (stack l)"
  shows "loop_inv T l' \<and> requests (stack l) \<subseteq> requests (stack l')"
proof (cases ev)
  case (Packets pkt pkts)
  let ?s = "(stack l)\<lparr>dev_rx := dev_rx (stack l) @ pkt # take MAX_INGEST_PER_TICK pkts\<rparr>"
  have "same_requests (stack l) ?s" "small_pending T (stack l) \<Longrightarrow> small_pending T ?s"
    by (simp_all add: same_requests_def small_pending_def)
  then show ?thesis
    using assms(1,2) Packets quiet_step [of T "stack l" ?s] by (auto simp: loop_select_def loop_inv_def)
next
  case (Command c)
  then show ?thesis
    using assms handle_cmd_inv [of T "stack l" c L] by (auto simp: loop_select_def loop_inv_def)
next
  case DataReady
  show ?thesis
  proof (cases "deferred l = []")
    case True
    have "stack_inv T (stack l)" using assms(1) by (simp add: loop_inv_def)
    then show ?thesis
      using DataReady True assms(2) drain_data_same [of "stack l" T L "data_rx l"]
        quiet_step [of T "stack l" "fst (drain_data T L (data_rx l) (stack l))"]
      by (auto simp: loop_select_def loop_inv_def case_prod_beta)
  qed (use DataReady assms(1,2) in \<open>simp add: loop_select_def\<close>)
qed (use assms(1,2) in \<open>auto simp: loop_select_def\<close>)

lemma loop_step_inv:
  assumes "loop_step T L l ds l'" "loop_inv T l"
  shows "loop_inv T l' \<and> requests (stack l) \<subseteq> requests (stack l')"
  using assms(1)
proof cases
  case (iterate now tcp_ids udp_ids rs l1 delay ev)
  then show ?thesis using loop_pass_inv [OF assms(2) iterate(2)] loop_select_inv [OF _ iterate(3)] by blast
next
  case (submit d)
  then show ?thesis using assms(2) by (simp add: loop_inv_def)
next
  case (channels f g)
  then show ?thesis using assms(2) quiet_step [OF _ set_channels_same(1) set_channels_same(2), of T "stack l" f g]
    by (simp add: loop_inv_def)
qed

lemma loop_run_inv:
  "loop_run T L l ds l' \<Longrightarrow> loop_inv T l \<Longrightarrow> loop_inv T l' \<and> requests (stack l) \<subseteq> requests (stack l')"
  by (induction rule: loop_run.induct) (use loop_step_inv in blast)+

lemma spawn_inv: "spawn L v4 v6 = Inr s \<Longrightarrow> loop_inv T (loop_start s)"
  by (auto simp: spawn_def loop_start_def loop_inv_def stack_inv_def awaiting_def split: sum.splits)

subsection \<open>Streams\<close>

text \<open>
  What is documented of the sockets: a send takes at most what it is given, sending and receiving do
  not change the state of the connection, and closing one does not put it into TIME-WAIT.
\<close>

definition smoltcp_laws :: "('i, 't, 'u) smoltcp \<Rightarrow> bool" where
  "smoltcp_laws L \<longleftrightarrow>
     (\<forall>d t n t'. tcp_send_slice L d t = (Some n, t') \<longrightarrow> n \<le> length d)
     \<and> (\<forall>d t. tcp_state L (snd (tcp_send_slice L d t)) = tcp_state L t)
     \<and> (\<forall>t. tcp_state L (snd (tcp_recv L t)) = tcp_state L t)
     \<and> (\<forall>t. tcp_state L (tcp_close L t) = TimeWait \<longrightarrow> tcp_state L t = TimeWait)"

definition sent_on :: "nat \<Rightarrow> stack_event list \<Rightarrow> bytes" where
  "sent_on i es = concat (map (\<lambda>e. case e of SocketSent j d \<Rightarrow> if j = i then d else [] | _ \<Rightarrow> []) es)"

definition data_for :: "nat \<Rightarrow> data_in list \<Rightarrow> bytes" where
  "data_for i ds = concat (map (\<lambda>d. case d of DataTcp j b \<Rightarrow> if j = i then b else [] | _ \<Rightarrow> []) ds)"

definition pending_on :: "nat \<Rightarrow> ('i, 't, 'u) netstack \<Rightarrow> bytes" where
  "pending_on i s = (case tcp_conns s i of Some st \<Rightarrow> pending st | None \<Rightarrow> [])"

lemma app_stream_simps [simp]:
  "sent_on i [] = []" "sent_on i (es @ fs) = sent_on i es @ sent_on i fs"
  "sent_on i (SocketSent j d # es) = (if j = i then d else []) @ sent_on i es" "sent_on i (Answer r x # es) = sent_on i es"
  "sent_on i (Deliver j d # es) = sent_on i es" "sent_on i (DeliverUdp j a d # es) = sent_on i es"
  "sent_on i (UdpSent j e d # es) = sent_on i es" "sent_on i (Outbound d # es) = sent_on i es"
  "data_for i [] = []" "data_for i (ds @ cs) = data_for i ds @ data_for i cs"
  "data_for i (DataTcp j b # ds) = (if j = i then b else []) @ data_for i ds" "data_for i (DataTcpClose j # ds) = data_for i ds"
  "data_for i (DataUdp j a b # ds) = data_for i ds" "data_for i (DataUdpClose j # ds) = data_for i ds"
  by (simp_all add: sent_on_def data_for_def)

lemma data_for_Cons: "data_for i (d # ds) = data_for i [d] @ data_for i ds"
  by (simp add: data_for_def)

lemma sent_on_none [simp]:
  "sent_on i (map (Deliver j) xs) = []" "sent_on i (map (\<lambda>(a, d). DeliverUdp j a d) ys) = []" "sent_on i (map Outbound zs) = []"
  by (auto simp: sent_on_def concat_eq_Nil_conv)

text \<open>The loop hands on everything for a connection that stays: what it has sent, then what it still owes.\<close>

definition progress :: "nat \<Rightarrow> ('i, 't, 'u) netstack \<Rightarrow> bytes" where
  "progress i s = sent_on i (ns_events s) @ pending_on i s"

definition alive :: "nat \<Rightarrow> ('i, 't, 'u) netstack \<Rightarrow> bool" where
  "alive i s \<longleftrightarrow> tcp_conns s i \<noteq> None"

lemma try_handle_data_progress:
  assumes "alive i s" "try_handle_data T L d s = (s', r)"
  shows "alive i s'" "progress i s' @ data_for i (case r of None \<Rightarrow> [] | Some b \<Rightarrow> [b]) = progress i s @ data_for i [d]"
  using assms
  by (cases d; auto simp: try_handle_data_def alive_def progress_def pending_on_def Let_def split: option.splits if_splits)+

lemma retry_deferred_progress:
  assumes "alive i s" "retry_deferred T L ds s = (s', rest)"
  shows "alive i s' \<and> progress i s' @ data_for i rest = progress i s @ data_for i ds"
  using assms
proof (induction T L ds s rule: retry_deferred.induct)
  case (2 T L d ds s)
  obtain s1 r where d: "try_handle_data T L d s = (s1, r)" by fastforce
  note one = try_handle_data_progress [OF "2.prems"(1) d]
  show ?case
  proof (cases r)
    case None
    then show ?thesis using "2.IH" [OF d [symmetric] None one(1)] "2.prems"(2) d one data_for_Cons [of i d ds] by auto
  next
    case (Some held)
    then show ?thesis using "2.prems"(2) d one data_for_Cons [of i d ds] data_for_Cons [of i held ds] by auto
  qed
qed simp

lemma drain_data_progress:
  assumes "alive i s" "drain_data T L ds s = (s', held, rest)"
  shows "alive i s' \<and> progress i s' @ data_for i held @ data_for i rest = progress i s @ data_for i ds"
  using assms
proof (induction T L ds s rule: drain_data.induct)
  case (2 T L d ds s)
  obtain s1 r where d: "try_handle_data T L d s = (s1, r)" by fastforce
  note one = try_handle_data_progress [OF "2.prems"(1) d]
  show ?case
  proof (cases r)
    case None
    then show ?thesis using "2.IH" [OF d [symmetric] None one(1)] "2.prems"(2) d one data_for_Cons [of i d ds] by auto
  next
    case (Some b)
    then show ?thesis using "2.prems"(2) d one data_for_Cons [of i d ds] by (auto simp flip: append_assoc)
  qed
qed simp

lemma deliver_tcp_state:
  assumes "smoltcp_laws L"
  shows "tcp_state L (fst (snd (snd (deliver_tcp L n chan sock)))) = tcp_state L sock"
proof (induction n arbitrary: chan sock)
  case (Suc n)
  have keep: "tcp_state L (snd (tcp_recv L sock)) = tcp_state L sock" using assms by (simp add: smoltcp_laws_def)
  obtain r sock' where r: "tcp_recv L sock = (r, sock')" by fastforce
  then show ?case
    using Suc.IH [of "chan\<lparr>room := room chan - 1\<rparr>" sock'] keep
    by (cases "try_reserve chan"; cases r) (simp_all add: case_prod_beta)
qed simp

lemma flush_pending_stream:
  assumes "smoltcp_laws L" "flush_pending L i st = (st', es)"
  shows "sent_on i es @ pending st' = pending st" "j \<noteq> i \<Longrightarrow> sent_on j es = []"
    "tcp_state L (tc_handle st') = tcp_state L (tc_handle st)" "established st' = established st"
proof -
  obtain r sock where r: "tcp_send_slice L (pending st) (tc_handle st) = (r, sock)" by fastforce
  have "tcp_state L sock = tcp_state L (tc_handle st)"
    using assms(1) r unfolding smoltcp_laws_def by (metis snd_conv)
  then show "sent_on i es @ pending st' = pending st" "j \<noteq> i \<Longrightarrow> sent_on j es = []"
    "tcp_state L (tc_handle st') = tcp_state L (tc_handle st)" "established st' = established st"
    using assms(2) r by (auto simp: flush_pending_def Let_def split: if_splits option.splits)
qed

lemma finish_tcp_pending:
  assumes "finish_tcp L app_gone st = Some st'"
    "tcp_state L (tc_handle st) = TimeWait \<or> tcp_state L (tcp_close L (tc_handle st)) = TimeWait \<Longrightarrow> established st"
  shows "pending st' = pending st"
  using assms by (auto simp: finish_tcp_def Let_def split: if_splits)

lemma serve_tcp_conn_stream:
  assumes laws: "smoltcp_laws L" and inv: "conn_inv T st" and r: "serve_tcp_conn L i st = (Some st', es, full)"
  shows "sent_on i es @ pending st' = pending st" "j \<noteq> i \<Longrightarrow> sent_on j es = []"
proof -
  let ?state = "tcp_state L (tc_handle st)"
  obtain st1 es1 where r1: "report_established i ?state st = (st1, es1)" by fastforce
  have c1: "pending st1 = pending st" "sent_on k es1 = []" "tc_handle st1 = tc_handle st" for k
    using r1 by (auto simp: report_established_def split: if_splits option.splits)
  obtain st2 es2 where r2: "flush_pending L i st1 = (st2, es2)" by fastforce
  note c2 = flush_pending_stream [OF laws r2]
  let ?st3 = "close_if_done L st2"
  obtain chunks chan sock f app_gone where d: "deliver_tcp L MAX_RECV_CHUNKS (tc_to_app ?st3) (tc_handle ?st3) = (chunks, chan, sock, f, app_gone)"
    by (metis prod.exhaust)
  let ?st4 = "?st3\<lparr>tc_to_app := chan, tc_handle := sock\<rparr>"
  have go: "\<not> (\<not> established st1 \<and> (?state = Closed \<or> ?state = TimeWait))"
    using r r1 by (auto simp: serve_tcp_conn_def)
  then have fin: "finish_tcp L app_gone ?st4 = Some st'" "es = es1 @ es2 @ map (Deliver i) chunks"
    using r r1 r2 d by (auto simp: serve_tcp_conn_def Let_def)
  have closed: "tcp_state L (tcp_close L t) = TimeWait \<Longrightarrow> tcp_state L t = TimeWait" for t
    using laws by (simp add: smoltcp_laws_def)
  have "tcp_state L sock = tcp_state L (tc_handle ?st3)"
    using deliver_tcp_state [OF laws, of MAX_RECV_CHUNKS "tc_to_app ?st3" "tc_handle ?st3"] d by simp
  then have tw: "tcp_state L sock = TimeWait \<Longrightarrow> ?state = TimeWait"
    using c1(3) c2(3) closed by (auto simp: close_if_done_def split: if_splits)
  have "pending st' = pending ?st4"
  proof (rule finish_tcp_pending [OF fin(1)])
    assume "tcp_state L (tc_handle ?st4) = TimeWait \<or> tcp_state L (tcp_close L (tc_handle ?st4)) = TimeWait"
    then show "established ?st4" using tw closed go c2(4) by (auto simp: close_if_done_def)
  qed
  then show "sent_on i es @ pending st' = pending st" using fin(2) c1 c2 by (simp add: close_if_done_view)
  show "j \<noteq> i \<Longrightarrow> sent_on j es = []" using fin(2) c1 c2 by simp
qed

lemma serve_tcp_conn_other:
  assumes "serve_tcp_conn L i st = (r, es, full)" "j \<noteq> i"
  shows "sent_on j es = []"
proof -
  obtain st1 es1 where r1: "report_established i (tcp_state L (tc_handle st)) st = (st1, es1)" by fastforce
  have "sent_on j es1 = []" using r1 by (auto simp: report_established_def split: if_splits option.splits)
  moreover obtain st2 es2 where r2: "flush_pending L i st1 = (st2, es2)" by fastforce
  moreover have "sent_on j es2 = []"
    using r2 assms(2) by (auto simp: flush_pending_def case_prod_beta Let_def split: if_splits)
  ultimately show ?thesis
    using assms r1 by (auto simp: serve_tcp_conn_def case_prod_beta Let_def split: if_splits option.splits)
qed

lemma service_tcp_progress:
  assumes "smoltcp_laws L" "stack_inv T s" "alive i (fst (service_tcp L ids bp s))"
  shows "alive i s \<and> progress i (fst (service_tcp L ids bp s)) = progress i s"
  using assms(2,3)
proof (induction ids arbitrary: bp s)
  case (Cons k ids)
  show ?case
  proof (cases "tcp_conns s k")
    case (Some st)
    obtain r es full where r: "serve_tcp_conn L k st = (r, es, full)" by (metis prod.exhaust)
    let ?s = "log_event es (s\<lparr>tcp_conns := (tcp_conns s)(k := r)\<rparr>)"
    have "stack_inv T ?s" using serve_step_inv [OF Cons.prems(1) Some r] by blast
    then have ih: "alive i ?s \<and> progress i (fst (service_tcp L ids (bp \<or> full) ?s)) = progress i ?s"
      using Cons.IH [of ?s "bp \<or> full"] Cons.prems(2) Some r by simp
    have "conn_inv T st" using Cons.prems(1) Some by (auto simp: stack_inv_def)
    then have "alive i s \<and> progress i ?s = progress i s"
      using ih Some serve_tcp_conn_stream [OF assms(1), of T st k] serve_tcp_conn_other [OF r, of i] r
      by (cases "i = k"; cases r) (auto simp: alive_def progress_def pending_on_def)
    then show ?thesis using ih Some r by simp
  qed (use Cons in simp)
qed simp


text \<open>
  \<open>hands_on\<close>: over a step, everything for connection \<open>i\<close> that was sent, pending or waiting in \<open>ds\<close> is
  afterwards sent, pending or waiting in \<open>es\<close>, in the same order; and no number is used again.
\<close>

definition hands_on ::
  "nat \<Rightarrow> ('i, 't, 'u) netstack \<Rightarrow> data_in list \<Rightarrow> ('i, 't, 'u) netstack \<Rightarrow> data_in list \<Rightarrow> bool" where
  "hands_on i s ds s' es \<longleftrightarrow> next_id s \<le> next_id s' \<and>
     (i < next_id s \<and> alive i s' \<longrightarrow> alive i s \<and> progress i s' @ data_for i es = progress i s @ data_for i ds)"

lemma hands_on_trans [trans]: "hands_on i s ds t es \<Longrightarrow> hands_on i t es u fs \<Longrightarrow> hands_on i s ds u fs"
  unfolding hands_on_def by force

lemma same_requests_alive: "same_requests s s' \<Longrightarrow> alive i s' \<longleftrightarrow> alive i s"
  unfolding alive_def by (metis same_requests_view map_option_is_None)

lemma hands_on_quiet:
  assumes "same_requests s s'" "pending_on i s' = pending_on i s" "sent_on i (ns_events s') = sent_on i (ns_events s)"
  shows "hands_on i s ds s' ds"
  using assms same_requests_alive [OF assms(1), of i] by (simp add: hands_on_def progress_def same_requests_def)

lemma poll_stack_hands_on: "hands_on i s ds (poll_stack L now s) ds"
  by (rule hands_on_quiet [OF poll_stack_same(1)])
    (simp_all add: poll_stack_def pending_on_def case_prod_beta Let_def split: option.split)

lemma set_channels_hands_on: "hands_on i s ds (set_channels f g s) ds"
  by (rule hands_on_quiet [OF set_channels_same(1)]) (simp_all add: set_channels_def pending_on_def split: option.split)

lemma service_udp_sent: "sent_on i (ns_events (fst (service_udp L ids bp s))) = sent_on i (ns_events s)"
proof (induction ids arbitrary: bp s)
  case (Cons k ids)
  then show ?case by (cases "udp_conns s k") (simp_all add: case_prod_beta Let_def)
qed simp

lemma service_udp_hands_on: "hands_on i s ds (fst (service_udp L ids bp s)) ds"
  using service_udp_same [of s L ids bp] by (intro hands_on_quiet) (simp_all add: pending_on_def service_udp_sent)

lemma flush_tx_hands_on: "hands_on i s ds (fst (flush_tx rs s)) ds"
  using flush_tx_same [of s rs]
  by (intro hands_on_quiet) (simp_all add: pending_on_def flush_tx_def case_prod_beta)

lemma service_tcp_next_id: "next_id (fst (service_tcp L ids bp s)) = next_id s"
proof (induction ids arbitrary: bp s)
  case (Cons k ids)
  then show ?case by (cases "tcp_conns s k") (simp_all add: case_prod_beta Let_def)
qed simp

lemma service_tcp_hands_on:
  "smoltcp_laws L \<Longrightarrow> stack_inv T s \<Longrightarrow> hands_on i s ds (fst (service_tcp L ids bp s)) ds"
  using service_tcp_progress [of L T s i ids bp] by (simp add: hands_on_def service_tcp_next_id)

lemma retry_deferred_hands_on:
  assumes "retry_deferred T L ds s = (s', rest)"
  shows "hands_on i s (ds @ es) s' (rest @ es)"
proof -
  have "same_requests s s'" using retry_deferred_same [of s T L ds] assms by simp
  then show ?thesis
    using same_requests_alive [of s s' i] retry_deferred_progress [OF _ assms, of i]
    by (auto simp: hands_on_def same_requests_def)
qed

lemma drain_data_hands_on:
  assumes "drain_data T L ds s = (s', held, rest)"
  shows "hands_on i s ds s' (held @ rest)"
proof -
  have "same_requests s s'" using drain_data_same [of s T L ds] assms by simp
  then show ?thesis
    using same_requests_alive [of s s' i] drain_data_progress [OF _ assms, of i]
    by (auto simp: hands_on_def same_requests_def)
qed

lemma handle_cmd_hands_on: "hands_on i s ds (handle_cmd T L c s) ds"
  by (cases c) (auto simp: hands_on_def handle_cmd_def alloc_port_def alive_def progress_def pending_on_def Let_def split: sum.splits)

lemma loop_pass_hands_on:
  assumes "smoltcp_laws L" "loop_inv T l" "loop_pass T L now tcp_ids udp_ids rs l = (l1, delay)"
  shows "hands_on i (stack l) (deferred l @ data_rx l) (stack l1) (deferred l1 @ data_rx l1)"
proof -
  let ?s1 = "poll_stack L now (stack l)"
  let ?s2 = "fst (service_tcp L tcp_ids False ?s1)"
  let ?s3 = "fst (service_udp L udp_ids False ?s2)"
  let ?s4 = "fst (flush_tx rs ?s3)"
  have l1: "retry_deferred T L (deferred l) ?s4 = (stack l1, deferred l1)" "data_rx l1 = data_rx l"
    using assms(3) by (auto simp: loop_pass_def case_prod_beta Let_def)
  have "stack_inv T (stack l)" using assms(2) by (simp add: loop_inv_def)
  then have inv: "stack_inv T ?s1" using quiet_step [OF _ poll_stack_same] by blast
  let ?ds = "deferred l @ data_rx l"
  have "hands_on i (stack l) ?ds ?s1 ?ds" by (rule poll_stack_hands_on)
  also have "hands_on i ?s1 ?ds ?s2 ?ds" by (rule service_tcp_hands_on [OF assms(1) inv])
  also have "hands_on i ?s2 ?ds ?s3 ?ds" by (rule service_udp_hands_on)
  also have "hands_on i ?s3 ?ds ?s4 ?ds" by (rule flush_tx_hands_on)
  also have "hands_on i ?s4 ?ds (stack l1) (deferred l1 @ data_rx l1)"
    using retry_deferred_hands_on [OF l1(1)] l1(2) by simp
  finally show ?thesis .
qed

lemma loop_select_hands_on:
  assumes "loop_select T L ev l = Some l'"
  shows "hands_on i (stack l) (deferred l @ data_rx l) (stack l') (deferred l' @ data_rx l')"
proof (cases ev)
  case (Packets pkt pkts)
  then show ?thesis
    using assms by (auto simp: loop_select_def hands_on_def alive_def progress_def pending_on_def)
next
  case (Command c)
  then show ?thesis using assms handle_cmd_hands_on by (auto simp: loop_select_def)
next
  case DataReady
  then show ?thesis
    using assms drain_data_hands_on [of T L "data_rx l" "stack l"]
    by (auto simp: loop_select_def hands_on_def split: if_splits prod.splits)
qed (use assms in \<open>auto simp: loop_select_def hands_on_def\<close>)

lemma loop_step_hands_on:
  assumes "smoltcp_laws L" "loop_step T L l ds l'" "loop_inv T l"
  shows "hands_on i (stack l) (deferred l @ data_rx l @ ds) (stack l') (deferred l' @ data_rx l')"
  using assms(2)
proof cases
  case (iterate now tcp_ids udp_ids rs l1 delay ev)
  then show ?thesis
    using hands_on_trans [OF loop_pass_hands_on [OF assms(1,3) iterate(2)] loop_select_hands_on [OF iterate(3)]] by simp
next
  case (submit d)
  then show ?thesis by (simp add: hands_on_def)
next
  case (channels f g)
  then show ?thesis using set_channels_hands_on by simp
qed

lemma hands_on_more: "hands_on i s ds s' es \<Longrightarrow> hands_on i s (ds @ cs) s' (es @ cs)"
  by (simp add: hands_on_def flip: append_assoc)

lemma loop_run_hands_on:
  assumes "smoltcp_laws L" "loop_run T L l ds l'" "loop_inv T l"
  shows "hands_on i (stack l) (deferred l @ data_rx l @ ds) (stack l') (deferred l' @ data_rx l')"
  using assms(2,3)
proof (induction rule: loop_run.induct)
  case (refl l)
  then show ?case by (simp add: hands_on_def)
next
  case (step l ds l1 es l2)
  have "hands_on i (stack l) ((deferred l @ data_rx l @ ds) @ es) (stack l1) ((deferred l1 @ data_rx l1) @ es)"
    using hands_on_more [OF step.IH [OF step.prems]] .
  moreover have "loop_inv T l1" using loop_run_inv [OF step.hyps(1) step.prems] by blast
  ultimately show ?case using hands_on_trans loop_step_hands_on [OF assms(1) step.hyps(2)] by fastforce
qed


subsection \<open>Open requests are answered\<close>

lemma service_tcp_log: "prefix (ns_events s) (ns_events (fst (service_tcp L ids bp s)))"
proof (induction ids arbitrary: bp s)
  case (Cons k ids)
  show ?case
  proof (cases "tcp_conns s k")
    case (Some st)
    obtain r es full where r: "serve_tcp_conn L k st = (r, es, full)" by (metis prod.exhaust)
    show ?thesis
      using Cons [of "log_event es (s\<lparr>tcp_conns := (tcp_conns s)(k := r)\<rparr>)" "bp \<or> full"] Some r
      by (auto simp: intro: prefix_order.trans [rotated])
  qed (use Cons in simp)
qed simp

lemma service_udp_log: "prefix (ns_events s) (ns_events (fst (service_udp L ids bp s)))"
proof (induction ids arbitrary: bp s)
  case (Cons k ids)
  show ?case
  proof (cases "udp_conns s k")
    case (Some st)
    obtain ds chan sock full where d: "deliver_udp L MAX_RECV_CHUNKS (uc_to_app st) (uc_handle st) = (ds, chan, sock, full)"
      by (metis prod.exhaust)
    show ?thesis
      using Cons [of "log_event (map (\<lambda>(a, d). DeliverUdp k a d) ds) (s\<lparr>udp_conns := (udp_conns s)(k \<mapsto> st\<lparr>uc_handle := sock, uc_to_app := chan\<rparr>)\<rparr>)" "bp \<or> full"] Some d
      by (auto simp: Let_def intro: prefix_order.trans [rotated])
  qed (use Cons in simp)
qed simp

lemma try_handle_data_log: "prefix (ns_events s) (ns_events (fst (try_handle_data T L d s)))"
  by (cases d) (simp_all add: try_handle_data_def Let_def split: option.split)

lemma retry_deferred_log: "prefix (ns_events s) (ns_events (fst (retry_deferred T L ds s)))"
proof (induction T L ds s rule: retry_deferred.induct)
  case (2 T L d ds s)
  obtain s1 r where d: "try_handle_data T L d s = (s1, r)" by fastforce
  have "prefix (ns_events s) (ns_events s1)" using try_handle_data_log [of s T L d] d by simp
  then show ?case
    using "2.IH" [OF d [symmetric]] d by (cases r) (auto intro: prefix_order.trans)
qed simp

text \<open>The answer a connection owes once its socket is in a given state.\<close>

definition owed_answer :: "nat \<Rightarrow> tcp_phase \<Rightarrow> str + nat" where
  "owed_answer i state = (if state = Established then Inr i else Inl (lit ''connection refused''))"

lemma serve_tcp_conn_answers:
  assumes "conn_inv T st" "connect_resp st = Some r" "tcp_state L (tc_handle st) \<in> {Established, Closed, TimeWait}"
  shows "Answer r (owed_answer i (tcp_state L (tc_handle st))) \<in> set (fst (snd (serve_tcp_conn L i st)))"
  using assms by (auto simp: serve_tcp_conn_def report_established_def conn_inv_def owed_answer_def case_prod_beta Let_def)

lemma service_tcp_answers:
  assumes "tcp_conns s i = Some st" "conn_inv T st" "connect_resp st = Some r"
    "tcp_state L (tc_handle st) \<in> {Established, Closed, TimeWait}" "i \<in> set ids"
  shows "Answer r (owed_answer i (tcp_state L (tc_handle st))) \<in> set (ns_events (fst (service_tcp L ids bp s)))"
  using assms(1,5)
proof (induction ids arbitrary: bp s)
  case (Cons k ids)
  show ?case
  proof (cases "k = i")
    case True
    obtain x es full where x: "serve_tcp_conn L i st = (x, es, full)" by (metis prod.exhaust)
    let ?s = "log_event es (s\<lparr>tcp_conns := (tcp_conns s)(i := x)\<rparr>)"
    have "Answer r (owed_answer i (tcp_state L (tc_handle st))) \<in> set (ns_events ?s)"
      using serve_tcp_conn_answers [OF assms(2,3,4), of i] x by simp
    then show ?thesis
      using set_mono_prefix [OF service_tcp_log [of ?s L ids "bp \<or> full"]] Cons.prems(1) True x by auto
  next
    case False
    then show ?thesis
      using Cons.prems Cons.IH by (cases "tcp_conns s k") (simp_all add: case_prod_beta Let_def)
  qed
qed simp

lemma loop_pass_log:
  assumes "loop_pass T L now tcp_ids udp_ids rs l = (l1, delay)"
  shows "prefix (ns_events (fst (service_tcp L tcp_ids False (poll_stack L now (stack l))))) (ns_events (stack l1))"
proof -
  let ?s2 = "fst (service_tcp L tcp_ids False (poll_stack L now (stack l)))"
  let ?s3 = "fst (service_udp L udp_ids False ?s2)"
  let ?s4 = "fst (flush_tx rs ?s3)"
  have "stack l1 = fst (retry_deferred T L (deferred l) ?s4)"
    using assms by (auto simp: loop_pass_def case_prod_beta Let_def)
  moreover have "prefix (ns_events ?s3) (ns_events ?s4)" by (simp add: flush_tx_def case_prod_beta)
  ultimately show ?thesis
    using prefix_order.trans [OF service_udp_log [of ?s2 L udp_ids False]
        prefix_order.trans [OF _ retry_deferred_log [of ?s4 T L "deferred l"]]] by simp
qed

text \<open>While there is a connection or deferred data, the loop sleeps for a quarter of a second at most.\<close>

lemma loop_pass_wakes:
  assumes "loop_pass T L now tcp_ids udp_ids rs l = (l1, delay)"
    "tcp_conns (stack l1) \<noteq> Map.empty \<or> udp_conns (stack l1) \<noteq> Map.empty \<or> deferred l1 \<noteq> []"
  shows "\<exists>d. delay = Some d \<and> d \<le> 250000"
proof -
  obtain s1 busy1 where t: "service_tcp L tcp_ids False (poll_stack L now (stack l)) = (s1, busy1)" by fastforce
  obtain s2 busy2 where u: "service_udp L udp_ids False s1 = (s2, busy2)" by fastforce
  obtain s3 n where f: "flush_tx rs s2 = (s3, n)" by fastforce
  obtain s4 waiting where r: "retry_deferred T L (deferred l) s3 = (s4, waiting)" by fastforce
  let ?polled = "poll_delay L (iface s4) (map_option tc_handle \<circ> tcp_conns s4) (map_option uc_handle \<circ> udp_conns s4)"
  have l1: "stack l1 = s4" "deferred l1 = waiting" using assms(1) t u f r by (auto simp: loop_pass_def Let_def)
  have "delay = (if busy1 \<or> busy2 \<or> waiting \<noteq> [] then Some BACKPRESSURE_RETRY
       else if tcp_conns s4 = Map.empty \<and> udp_conns s4 = Map.empty then ?polled
       else Some (case ?polled of None \<Rightarrow> MAX_IDLE_TICK | Some d \<Rightarrow> min d MAX_IDLE_TICK))"
    using assms(1) unfolding loop_pass_def Let_def t u f r prod.case by simp
  then show ?thesis
    using assms(2) unfolding l1 by (cases ?polled) (simp_all add: BACKPRESSURE_RETRY_def MAX_IDLE_TICK_def)
qed


subsection \<open>Addresses and lost closes\<close>

text \<open>The prefixes given to the interface leave room for a gateway, and the gateway is never the own address.\<close>

lemma routable_prefix_bounds: "routable_prefix_v4 p \<le> 30" "routable_prefix_v6 p \<le> 126"
  by (auto simp: routable_prefix_v4_def routable_prefix_v6_def word_le_nat_alt)

lemma gateway_v4_other: "gateway_v4 ip \<noteq> ip"
proof -
  have "octets4 (gateway_v4 ip) ! 3 \<noteq> octets4 ip ! 3" by (simp add: gateway_v4_def Let_def octets4_from)
  then show ?thesis by metis
qed

text \<open>
  A handle dropped while the queue is full does not close its connection. For TCP the next delivery
  notices that the application is gone; for UDP nothing does, the entry stays until the stack ends.
\<close>

lemma udp_drop_lost: "dq_cap q \<le> length (dq_items q) \<Longrightarrow> udp_conn_drop c q = q \<and> udp_sender_drop i q = q"
  by (simp add: udp_conn_drop_def udp_sender_drop_def queue_try_send_def)

lemma service_udp_keeps: "dom (udp_conns (fst (service_udp L ids bp s))) = dom (udp_conns s)"
proof (induction ids arbitrary: bp s)
  case (Cons k ids)
  then show ?case by (cases "udp_conns s k") (auto simp: case_prod_beta Let_def split: if_splits)
qed simp

text \<open>
  When the peer has finished sending, the socket is closed at once, whatever is still pending for it
  (the close on behalf of the application waits until nothing is).
\<close>

lemma close_wait_ignores_pending:
  assumes "tcp_state L (tc_handle st) = CloseWait"
  shows "finish_tcp L False st = Some (st\<lparr>tc_handle := tcp_close L (tc_handle st)\<rparr>)"
  using assms by (simp add: finish_tcp_def Let_def)

subsection \<open>An example library\<close>

text \<open>
  Connections that are established at the first poll and take two bytes at a time; it gives the
  properties below a concrete run.
\<close>

definition echo_net :: "(unit, tcp_phase, unit) smoltcp" where
  "echo_net =
     \<lparr>iface_new = (), update_ip_addrs = (\<lambda>_ i. i), add_default_route = (\<lambda>_ i. i),
      tcp_connect = (\<lambda>_ _ _ _. Inr SynSent), tcp_state = (\<lambda>t. t), tcp_can_send = (\<lambda>t. t = Established),
      tcp_send_slice = (\<lambda>d t. (Some (min 2 (length d)), t)), tcp_close = (\<lambda>t. Closed),
      tcp_can_recv = (\<lambda>t. False), tcp_recv = (\<lambda>t. (None, t)),
      udp_bind = (\<lambda>_ _ _. Inr ()), udp_send_slice = (\<lambda>_ _ u. u), udp_can_recv = (\<lambda>_. False), udp_recv = (\<lambda>u. (None, u)),
      poll = (\<lambda>_ (i, rx, tx, ts, us). (False, i, [], tx, \<lambda>c. map_option (\<lambda>_. Established) (ts c), us)),
      poll_delay = (\<lambda>_ _ _. None)\<rparr>"

definition small_tuning :: tuning where
  "small_tuning = \<lparr>tn_tier = Low, tn_cpus = 1, tn_mem_mb = None, scan_concurrency_cap = 4, udp_socket_buf = 262144,
     netstack_tcp_buf = 131072, netstack_udp_buf = 32768, tn_channel_capacity = 128\<rparr>"

lemma echo_net_laws: "smoltcp_laws echo_net"
  by (auto simp: smoltcp_laws_def echo_net_def)

definition echo_start :: "(unit, tcp_phase, unit) netstack" where
  "echo_start = \<lparr>iface = (), dev_rx = [], dev_tx = [], tcp_conns = Map.empty, udp_conns = Map.empty, next_id = 1,
     next_port = 49152, ns_events = []\<rparr>"

lemma echo_start_spawn: "spawn echo_net [] [] = Inr echo_start"
  by (simp add: spawn_def parse_v4_def parse_v6_def apply_addrs_def echo_net_def echo_start_def Let_def)

definition echo_conn :: "bytes \<Rightarrow> bool \<Rightarrow> tcp_phase tcp_conn" where
  "echo_conn d up = \<lparr>tc_handle = (if up then Established else SynSent), tc_to_app = new_chan small_tuning, tc_rx_held = \<not> up,
     connect_resp = (if up then None else Some 7), pending = d, established = up, half_closed = False\<rparr>"

definition echo_at :: "tcp_phase tcp_conn \<Rightarrow> data_in list \<Rightarrow> stack_event list \<Rightarrow> (unit, tcp_phase, unit) stack_loop" where
  "echo_at st ds es = (loop_start (echo_start\<lparr>next_id := 2, next_port := 49153, tcp_conns := [1 \<mapsto> st], ns_events := es\<rparr>))
     \<lparr>data_rx := ds\<rparr>"

lemmas echo_eval = echo_net_def echo_start_def echo_conn_def echo_at_def small_tuning_def loop_start_def
  loop_select_def flush_tx_def handle_cmd_def alloc_port_def new_chan_def app_queue_def channel_capacity_def
  log_event_def try_handle_data_def max_tcp_pending_def tcp_buf_def netstack_tcp_buf_bytes_def

lemma echo_deliver: "deliver_tcp echo_net n (new_chan small_tuning) sock = ([], new_chan small_tuning, sock, False, False)"
  by (cases n) (simp_all add: echo_net_def try_reserve_def new_chan_def small_tuning_def app_queue_def channel_capacity_def)

lemma echo_poll: "poll_stack echo_net now (stack (echo_at st ds es)) = stack (echo_at (st\<lparr>tc_handle := Established\<rparr>) ds es)"
  by (simp add: poll_stack_def echo_net_def echo_at_def loop_start_def echo_start_def Let_def fun_eq_iff)

lemma echo_net_simps:
  "tcp_state echo_net t = t" "tcp_can_send echo_net t \<longleftrightarrow> t = Established"
  "tcp_send_slice echo_net d t = (Some (min 2 (length d)), t)" "tcp_close echo_net t = Closed"
  by (simp_all add: echo_net_def)

lemma echo_serve:
  "serve_tcp_conn echo_net 1 (echo_conn [10, 20, 30] True) = (Some (echo_conn [30] True), [SocketSent 1 [10, 20]], False)"
  "serve_tcp_conn echo_net 1 ((echo_conn [] False)\<lparr>tc_handle := Established\<rparr>) = (Some (echo_conn [] True), [Answer 7 (Inr 1)], False)"
  by (simp_all add: serve_tcp_conn_def echo_conn_def report_established_def flush_pending_def close_if_done_def echo_deliver
      finish_tcp_def echo_net_simps Let_def)

lemma echo_service:
  "serve_tcp_conn echo_net 1 st = (Some st', es', b) \<Longrightarrow>
   service_tcp echo_net [1] False (stack (echo_at st ds es)) = (stack (echo_at st' ds (es @ es')), b)"
  by (simp add: echo_at_def loop_start_def echo_start_def log_event_def)

lemma echo_pass:
  assumes "serve_tcp_conn echo_net 1 (st\<lparr>tc_handle := Established\<rparr>) = (Some st', es', b)"
  shows "\<exists>delay. loop_pass T echo_net now [1] [] [] (echo_at st ds es) = (echo_at st' ds (es @ es'), delay)"
  using echo_service [OF assms, of ds es]
  by (simp add: loop_pass_def echo_poll flush_tx_def) (simp add: echo_at_def loop_start_def echo_start_def log_event_def)

lemma echo_idle: "\<exists>delay. loop_pass T echo_net now [] [] [] (loop_start echo_start) = (loop_start echo_start, delay)"
  by (simp add: loop_pass_def poll_stack_def flush_tx_def loop_start_def echo_start_def echo_net_def log_event_def Let_def)

lemma echo_open:
  "loop_select small_tuning echo_net (Command (CmdOpenTcp a 7)) (loop_start echo_start) = Some (echo_at (echo_conn [] False) [] [])"
  by (simp add: echo_eval Let_def)

lemma echo_drain:
  "loop_select small_tuning echo_net DataReady (echo_at (echo_conn [] True) [DataTcp 1 [10, 20, 30]] es) =
     Some (echo_at (echo_conn [10, 20, 30] True) [] es)"
  by (simp add: echo_eval Let_def)

lemma echo_run_open: "loop_run small_tuning echo_net (loop_start echo_start) [] (echo_at (echo_conn [] False) [] [])"
proof -
  obtain delay where "loop_pass small_tuning echo_net 0 [] [] [] (loop_start echo_start) = (loop_start echo_start, delay)"
    using echo_idle by blast
  then have "loop_step small_tuning echo_net (loop_start echo_start) [] (echo_at (echo_conn [] False) [] [])"
    using echo_open by (rule loop_step.iterate) (simp add: requests_def awaiting_def loop_start_def echo_start_def)
  then show ?thesis using loop_run.step [OF loop_run.refl] by fastforce
qed

lemma echo_run_submit:
  "loop_run small_tuning echo_net (echo_at (echo_conn [] False) [] []) [DataTcp 1 [10, 20, 30]]
     (echo_at (echo_conn [30] True) [] [Answer 7 (Inr 1), SocketSent 1 [10, 20]])"
proof -
  let ?d = "DataTcp 1 [10, 20, 30]"
  have "(echo_at (echo_conn [] False) [] [])\<lparr>data_rx := data_rx (echo_at (echo_conn [] False) [] []) @ [?d]\<rparr>
      = echo_at (echo_conn [] False) [?d] []"
    by (simp add: echo_at_def loop_start_def)
  then have 1: "loop_run small_tuning echo_net (echo_at (echo_conn [] False) [] []) [?d] (echo_at (echo_conn [] False) [?d] [])"
    using loop_run.step [OF loop_run.refl loop_step.submit, of small_tuning echo_net "echo_at (echo_conn [] False) [] []" ?d] by simp
  have "\<exists>delay. loop_pass small_tuning echo_net 0 [1] [] [] (echo_at (echo_conn [] False) [?d] []) = (echo_at (echo_conn [] True) [?d] [Answer 7 (Inr 1)], delay)"
    using echo_pass [OF echo_serve(2), of small_tuning 0 "[?d]" "[]"] by simp
  then have "loop_step small_tuning echo_net (echo_at (echo_conn [] False) [?d] []) [] (echo_at (echo_conn [10, 20, 30] True) [] [Answer 7 (Inr 1)])"
    using echo_drain loop_step.iterate [of small_tuning echo_net 0 "[1]" "[]" "[]" _ _ _ DataReady] by fastforce
  note 2 = loop_run.step [OF 1 this]
  have "(echo_conn [10, 20, 30] True)\<lparr>tc_handle := Established\<rparr> = echo_conn [10, 20, 30] True" by (simp add: echo_conn_def)
  then have "\<exists>delay. loop_pass small_tuning echo_net 0 [1] [] [] (echo_at (echo_conn [10, 20, 30] True) [] [Answer 7 (Inr 1)])
      = (echo_at (echo_conn [30] True) [] [Answer 7 (Inr 1), SocketSent 1 [10, 20]], delay)"
    using echo_pass [of "echo_conn [10, 20, 30] True" "echo_conn [30] True" "[SocketSent 1 [10, 20]]" False small_tuning 0 "[]" "[Answer 7 (Inr 1)]"] echo_serve(1)
    by simp
  then have "loop_step small_tuning echo_net (echo_at (echo_conn [10, 20, 30] True) [] [Answer 7 (Inr 1)]) []
      (echo_at (echo_conn [30] True) [] [Answer 7 (Inr 1), SocketSent 1 [10, 20]])"
    using loop_step.iterate [of small_tuning echo_net 0 "[1]" "[]" "[]" _ _ _ Timer] by (fastforce simp: loop_select_def)
  then show ?thesis using loop_run.step [OF 2] by fastforce
qed

subsection \<open>Properties\<close>



text \<open>
  C2: what an application writes to a TCP connection reaches the socket unchanged. Over any run during
  which the connection stays in the table, the bytes handed to its socket, then the pending ones, then
  the deferred and queued ones are those of the start of the run followed by exactly what was
  submitted for it: nothing is lost, repeated or reordered by back-pressure, whatever else the stack
  does, as long as the sockets take no more than they are offered and change state only as documented.
\<close>

theorem tcp_stream_exact:
  assumes "smoltcp_laws L" "spawn L v4 v6 = Inr s" "loop_run T L (loop_start s) ds l" "loop_run T L l es l'"
    "i < next_id (stack l)" "tcp_conns (stack l') i \<noteq> None"
  shows "sent_on i (ns_events (stack l')) @ pending_on i (stack l') @ data_for i (deferred l' @ data_rx l')
    = sent_on i (ns_events (stack l)) @ pending_on i (stack l) @ data_for i (deferred l @ data_rx l) @ data_for i es"
proof -
  have "loop_inv T l" using loop_run_inv [OF assms(3) spawn_inv [OF assms(2)]] by blast
  then show ?thesis
    using loop_run_hands_on [OF assms(1,4), of i] assms(5,6) by (auto simp: hands_on_def alive_def progress_def)
qed

theorem tcp_stream_exact_witness:
  "sent_on 1 [Answer 7 (Inr 1), SocketSent 1 [10, 20]] @ pending (echo_conn [30] True) = [10, 20, 30]"
  using tcp_stream_exact [OF echo_net_laws echo_start_spawn echo_run_open echo_run_submit, of 1]
  by (simp add: echo_at_def loop_start_def pending_on_def echo_conn_def)

text \<open>
  C30: an open request does not hang. In a reachable state, if after the poll the socket of a connection
  that still owes an answer is established or closed, the very next pass over it answers: with the
  connection's number when it is established and with \<open>connection refused\<close> otherwise.
\<close>

theorem open_request_answered:
  assumes "loop_inv T l" "loop_pass T L now tcp_ids udp_ids rs l = (l1, delay)"
    "tcp_conns (poll_stack L now (stack l)) i = Some st" "connect_resp st = Some r" "i \<in> set tcp_ids"
    "tcp_state L (tc_handle st) \<in> {Established, Closed, TimeWait}"
  shows "Answer r (if tcp_state L (tc_handle st) = Established then Inr i else Inl (lit ''connection refused''))
    \<in> set (ns_events (stack l1))"
proof -
  have "stack_inv T (poll_stack L now (stack l))"
    using assms(1) quiet_step [OF _ poll_stack_same] unfolding loop_inv_def by blast
  then have "conn_inv T st" using assms(3) by (auto simp: stack_inv_def)
  then show ?thesis
    using service_tcp_answers [OF assms(3) _ assms(4,6,5), of T False] set_mono_prefix [OF loop_pass_log [OF assms(2)]]
    by (auto simp: owed_answer_def split: if_splits)
qed

theorem open_request_answered_witness:
  "Answer 7 (Inr 1) \<in> set (ns_events (stack (echo_at (echo_conn [] True) [] [Answer 7 (Inr 1)])))"
proof -
  let ?l = "echo_at (echo_conn [] False) [] []"
  let ?st = "(echo_conn [] False)\<lparr>tc_handle := Established\<rparr>"
  obtain delay where pass: "loop_pass small_tuning echo_net 0 [1] [] [] ?l = (echo_at (echo_conn [] True) [] [Answer 7 (Inr 1)], delay)"
    using echo_pass [OF echo_serve(2), of small_tuning 0 "[]" "[]"] by auto
  have inv: "loop_inv small_tuning ?l" using loop_run_inv [OF echo_run_open spawn_inv [OF echo_start_spawn]] by blast
  have "tcp_conns (poll_stack echo_net 0 (stack ?l)) 1 = Some ?st" unfolding echo_poll by (simp add: echo_at_def loop_start_def)
  moreover have "connect_resp ?st = Some 7" "tcp_state echo_net (tc_handle ?st) = Established"
    by (simp_all add: echo_conn_def echo_net_def)
  ultimately show ?thesis using open_request_answered [OF inv pass, of 1 ?st 7] by simp
qed

end
