(* ===== verification/Rust_Rand.thy ===== *)
theory Rust_Rand
  imports Prelude "HOL-Library.Stream"
begin

text \<open>
  Code that asks its environment for random numbers and clock readings. The answers are a stream of
  numbers that the code consumes in order; drawing from an empty range panics, as \<open>random_range\<close> does.
  \<open>always P m\<close> says that \<open>m\<close> never panics and that what it yields satisfies \<open>P\<close> whatever the answers are.
\<close>

type_synonym answers = "nat stream"
type_synonym 'a rand = "answers \<Rightarrow> ('a \<times> answers) outcome"

named_theorems rand_intros \<open>introduction rules for \<open>always\<close>\<close>

definition rand_return :: "'a \<Rightarrow> 'a rand" where
  "rand_return x s = Ret (x, s)"

definition rand_bind :: "'a rand \<Rightarrow> ('a \<Rightarrow> 'b rand) \<Rightarrow> 'b rand" where
  "rand_bind m k s = out_bind (m s) (\<lambda>(x, s'). k x s')"

definition answer :: "nat rand" where
  "answer s = Ret (shd s, stl s)"

text \<open>\<open>random_range(lo..=hi)\<close>, \<open>fill_bytes\<close>, and the seconds since 1970, which are 0 on a clock before it.\<close>

definition random_range :: "nat \<Rightarrow> nat \<Rightarrow> nat rand" where
  "random_range lo hi s = (if lo \<le> hi then Ret (lo + shd s mod (hi - lo + 1), stl s) else Panic)"

primrec fill_bytes :: "nat \<Rightarrow> bytes rand" where
  "fill_bytes 0 = rand_return []"
| "fill_bytes (Suc n) = rand_bind answer (\<lambda>x. rand_bind (fill_bytes n) (\<lambda>bs. rand_return (word_of_nat x # bs)))"

definition unix_secs :: "nat rand" where
  "unix_secs = answer"

text \<open>A loop that runs \<open>n\<close> times and one over a list; each collects what its rounds yield.\<close>

primrec repeat_times :: "nat \<Rightarrow> 'a list rand \<Rightarrow> 'a list rand" where
  "repeat_times 0 m = rand_return []"
| "repeat_times (Suc n) m = rand_bind m (\<lambda>xs. rand_bind (repeat_times n m) (\<lambda>ys. rand_return (xs @ ys)))"

primrec for_each :: "'a list \<Rightarrow> ('a \<Rightarrow> 'b list rand) \<Rightarrow> 'b list rand" where
  "for_each [] f = rand_return []"
| "for_each (x # xs) f = rand_bind (f x) (\<lambda>ys. rand_bind (for_each xs f) (\<lambda>zs. rand_return (ys @ zs)))"

definition always :: "('a \<Rightarrow> bool) \<Rightarrow> 'a rand \<Rightarrow> bool" where
  "always P m \<longleftrightarrow> (\<forall>s. \<exists>x s'. m s = Ret (x, s') \<and> P x)"

lemma always_return [rand_intros]: "P x \<Longrightarrow> always P (rand_return x)"
  by (simp add: always_def rand_return_def)

lemma always_bind:
  assumes "always Q m" "\<And>x. Q x \<Longrightarrow> always P (k x)"
  shows "always P (rand_bind m k)"
  unfolding always_def
proof
  fix s
  obtain x s' where "m s = Ret (x, s')" "Q x" using assms(1) unfolding always_def by blast
  then show "\<exists>y s''. rand_bind m k s = Ret (y, s'') \<and> P y"
    using assms(2) [of x] by (simp add: rand_bind_def always_def)
qed

lemma always_weaken: "always Q m \<Longrightarrow> (\<And>x. Q x \<Longrightarrow> P x) \<Longrightarrow> always P m"
  unfolding always_def by meson

lemma always_answer [rand_intros]: "(\<And>x. P x) \<Longrightarrow> always P answer"
  by (simp add: always_def answer_def)

lemma always_unix_secs [rand_intros]: "(\<And>x. P x) \<Longrightarrow> always P unix_secs"
  by (simp add: unix_secs_def always_answer)

lemma always_random_range [rand_intros]:
  assumes "lo \<le> hi" "\<And>x. lo \<le> x \<Longrightarrow> x \<le> hi \<Longrightarrow> P x"
  shows "always P (random_range lo hi)"
proof -
  have "lo + n mod (hi - lo + 1) \<le> hi" for n
  proof -
    have "n mod (hi - lo + 1) < hi - lo + 1" by (rule mod_less_divisor) simp
    then show ?thesis using assms(1) by linarith
  qed
  then show ?thesis using assms by (simp add: always_def random_range_def)
qed

lemma always_range: "lo \<le> hi \<Longrightarrow> always (\<lambda>x. lo \<le> x \<and> x \<le> hi) (random_range lo hi)"
  by (rule always_random_range) simp_all

lemma always_fill_bytes: "always (\<lambda>bs. length bs = n) (fill_bytes n)"
proof (induction n)
  case (Suc n)
  then show ?case by (auto intro!: always_bind [OF always_answer] always_bind [OF Suc] always_return)
qed (simp add: always_return)

lemma always_repeat:
  assumes "always (list_all P) m"
  shows "always (list_all P) (repeat_times n m)"
proof (induction n)
  case (Suc n)
  then show ?case by (auto intro!: always_bind [OF assms] always_bind [OF Suc] always_return)
qed (simp add: always_return)

lemma always_repeat_length:
  assumes "always (\<lambda>xs. length xs = k) m"
  shows "always (\<lambda>xs. length xs = n * k) (repeat_times n m)"
proof (induction n)
  case (Suc n)
  then show ?case by (auto intro!: always_bind [OF assms] always_bind [OF Suc] always_return)
qed (simp add: always_return)

lemma always_for_each:
  assumes "\<And>x. x \<in> set xs \<Longrightarrow> always (list_all P) (f x)"
  shows "always (list_all P) (for_each xs f)"
  using assms
proof (induction xs)
  case (Cons x xs)
  have "always (list_all P) (f x)" "always (list_all P) (for_each xs f)" using Cons by simp_all
  then show ?case by (auto intro!: always_bind [of "list_all P"] always_return)
qed (simp add: always_return)

lemma always_append:
  assumes "always (list_all P) m" "always (list_all P) m'"
  shows "always (list_all P) (rand_bind m (\<lambda>xs. rand_bind m' (\<lambda>ys. rand_return (xs @ ys))))"
  by (auto intro!: always_bind [OF assms(1)] always_bind [OF assms(2)] always_return)

lemma always_conj: "always P m \<Longrightarrow> always Q m \<Longrightarrow> always (\<lambda>x. P x \<and> Q x) m"
  unfolding always_def by (metis Pair_inject outcome.inject)

end
