(* ===== verification/Noize.thy ===== *)
theory Noize
  imports Rust_Rand Rust_Str
begin

text \<open>
  Obfuscation traffic: the junk and signature datagrams sent around a handshake, for the QUIC
  transports (\<open>noize.rs\<close>) and for WireGuard (\<open>aethernoize.rs\<close>). What they do is a list of events:
  datagrams sent to the peer (the result of a send is only logged) and pauses in milliseconds.

  The regular expression of \<open>aethernoize.rs\<close> and the hexadecimal decoder are the record \<open>cps_lib\<close>.
\<close>

datatype noise_event = NoiseSend bytes | NoiseSleep nat

record cps_lib =
  hex_decode :: "str \<Rightarrow> bytes option"
  tag_captures :: "str \<Rightarrow> (str \<times> str) list"

subsection \<open>noize.rs\<close>

record noize_config =
  nc_jc_before_hs :: nat
  nc_jc_after_i1 :: nat
  nc_jmin :: nat
  nc_jmax :: nat
  nc_i1 :: "str option"
  nc_i2 :: "str option"
  nc_junk_interval :: nat

definition noize_off :: noize_config where
  "noize_off = \<lparr>nc_jc_before_hs = 0, nc_jc_after_i1 = 0, nc_jmin = 0, nc_jmax = 0, nc_i1 = None, nc_i2 = None, nc_junk_interval = 0\<rparr>"

definition noize_firewall :: noize_config where
  "noize_firewall = \<lparr>nc_jc_before_hs = 2, nc_jc_after_i1 = 2, nc_jmin = 48, nc_jmax = 190,
     nc_i1 = Some (lit ''<b 0d0a0d0a><t><r 24>''), nc_i2 = Some (lit ''<r 48>''), nc_junk_interval = 4\<rparr>"

definition noize_light :: noize_config where
  "noize_light = \<lparr>nc_jc_before_hs = 1, nc_jc_after_i1 = 0, nc_jmin = 32, nc_jmax = 96,
     nc_i1 = Some (lit ''<b 0d0a0d0a><t><r 16>''), nc_i2 = None, nc_junk_interval = 3\<rparr>"

definition noize_gfw :: noize_config where
  "noize_gfw = \<lparr>nc_jc_before_hs = 2, nc_jc_after_i1 = 1, nc_jmin = 64, nc_jmax = 256,
     nc_i1 = Some (lit ''<b 0d0a0d0a><t><r 24>''), nc_i2 = Some (lit ''<r 32>''), nc_junk_interval = 5\<rparr>"

definition noize_is_enabled :: "noize_config \<Rightarrow> bool" where
  "noize_is_enabled cfg \<longleftrightarrow> nc_jc_before_hs cfg > 0 \<or> nc_jc_after_i1 cfg > 0 \<or> nc_i1 cfg \<noteq> None"

definition noize_from_profile :: "str \<Rightarrow> noize_config" where
  "noize_from_profile name =
     (if name = lit ''off'' \<or> name = lit ''none'' then noize_off
      else if name = lit ''light'' then noize_light
      else if name = lit ''gfw'' \<or> name = lit ''aggressive'' \<or> name = lit ''heavy'' then noize_gfw
      else noize_firewall)"

definition junk_packet :: "noize_config \<Rightarrow> bytes rand" where
  "junk_packet cfg =
     (let (lo, hi) = (if nc_jmax cfg > nc_jmin cfg \<and> nc_jmin cfg > 0 then (nc_jmin cfg, nc_jmax cfg) else (40, 90)) in
      rand_bind (random_range lo hi) fill_bytes)"

text \<open>The scan for tags: the texts between \<open><\<close> and the next \<open>>\<close>; it stops at an open tag without end.\<close>

lemma split_once_shorter: "split_once c s = Some (a, b) \<Longrightarrow> length b < length s"
  by (induction c s arbitrary: a rule: split_once.induct) (fastforce split: if_splits)+

function cps_tags :: "str \<Rightarrow> str list" where
  "cps_tags [] = []"
| "cps_tags (c # s) =
     (if c \<noteq> 60 then cps_tags s
      else case split_once 62 s of None \<Rightarrow> [] | Some (inner, rest) \<Rightarrow> inner # cps_tags rest)"
  by pat_completeness auto
termination
  by (relation "measure length") (auto dest: split_once_shorter)

definition splitn_tag :: "str \<Rightarrow> str \<times> str" where
  "splitn_tag inner =
     (takeWhile (\<lambda>c. \<not> is_whitespace c) inner, trim (drop 1 (dropWhile (\<lambda>c. \<not> is_whitespace c) inner)))"

definition to_be32 :: "nat \<Rightarrow> bytes" where
  "to_be32 n = be_enc 4 n"

definition cps_tag :: "cps_lib \<Rightarrow> str \<Rightarrow> str \<Rightarrow> bytes rand" where
  "cps_tag L tg data =
     (if tg = lit ''b'' then
        rand_return (case hex_decode L (filter (\<lambda>c. \<not> is_whitespace c) data) of Some d \<Rightarrow> d | None \<Rightarrow> [])
      else if tg = lit ''t'' then rand_bind unix_secs (\<lambda>ts. rand_return (to_be32 ts))
      else if tg = lit ''n'' then rand_bind answer (\<lambda>nonce. rand_return (be_enc 8 nonce))
      else if tg = lit ''r'' then
        (let len = min (case parse_uint 64 data of Some n \<Rightarrow> n | None \<Rightarrow> 0) 1024 in
         if len > 0 then fill_bytes len else rand_return [])
      else rand_return [])"

definition parse_cps :: "cps_lib \<Rightarrow> str \<Rightarrow> bytes rand" where
  "parse_cps L spec = for_each (cps_tags spec) (\<lambda>inner. let (tg, data) = splitn_tag (trim inner) in cps_tag L tg data)"

definition pause :: "nat \<Rightarrow> noise_event list" where
  "pause ms = (if ms \<noteq> 0 then [NoiseSleep ms] else [])"

definition noize_junk :: "noize_config \<Rightarrow> noise_event list rand" where
  "noize_junk cfg = rand_bind (junk_packet cfg) (\<lambda>pkt. rand_return (NoiseSend pkt # pause (nc_junk_interval cfg)))"

definition noize_signature :: "cps_lib \<Rightarrow> str option \<Rightarrow> nat \<Rightarrow> noise_event list rand" where
  "noize_signature L spec ms =
     (case spec of
        None \<Rightarrow> rand_return []
      | Some i \<Rightarrow> rand_bind (parse_cps L i) (\<lambda>pkt. rand_return (if pkt \<noteq> [] then NoiseSend pkt # pause ms else [])))"

definition seq_events :: "noise_event list rand list \<Rightarrow> noise_event list rand" where
  "seq_events ms = for_each ms (\<lambda>m. m)"

definition pre_handshake :: "cps_lib \<Rightarrow> noize_config \<Rightarrow> noise_event list rand" where
  "pre_handshake L cfg =
     (if \<not> noize_is_enabled cfg then rand_return []
      else seq_events
        [repeat_times (nc_jc_before_hs cfg) (noize_junk cfg),
         noize_signature L (nc_i1 cfg) 2,
         repeat_times (nc_jc_after_i1 cfg) (noize_junk cfg),
         noize_signature L (nc_i2 cfg) 0])"

subsection \<open>aethernoize.rs\<close>

record aether_noize_config =
  an_i1 :: "str option"
  an_i2 :: "str option"
  an_i3 :: "str option"
  an_i4 :: "str option"
  an_i5 :: "str option"
  an_jc :: nat
  an_jc_before_hs :: nat
  an_jc_after_i1 :: nat
  an_jc_after_hs :: nat
  an_jmin :: nat
  an_jmax :: nat
  an_junk_interval :: nat
  an_handshake_delay :: nat
  an_allow_zero_size :: bool

definition an_off :: aether_noize_config where
  "an_off = \<lparr>an_i1 = None, an_i2 = None, an_i3 = None, an_i4 = None, an_i5 = None,
     an_jc = 0, an_jc_before_hs = 0, an_jc_after_i1 = 0, an_jc_after_hs = 0, an_jmin = 0, an_jmax = 0,
     an_junk_interval = 0, an_handshake_delay = 0, an_allow_zero_size = False\<rparr>"

definition an_light :: aether_noize_config where
  "an_light = \<lparr>an_i1 = Some (lit ''<b 0d0a0d0a><t><r 20-32>''), an_i2 = Some (lit ''<rc 24-48>''),
     an_i3 = None, an_i4 = None, an_i5 = None,
     an_jc = 4, an_jc_before_hs = 2, an_jc_after_i1 = 1, an_jc_after_hs = 1, an_jmin = 48, an_jmax = 190,
     an_junk_interval = 3, an_handshake_delay = 5, an_allow_zero_size = False\<rparr>"

definition an_balanced :: aether_noize_config where
  "an_balanced = \<lparr>an_i1 = Some (lit ''<b 0d0a0d0a><t><rc 20-40>''), an_i2 = Some (lit ''<b 504f5354><rd 10-20><rc 20-30>''),
     an_i3 = Some (lit ''<r 30-50>''), an_i4 = None, an_i5 = None,
     an_jc = 6, an_jc_before_hs = 3, an_jc_after_i1 = 2, an_jc_after_hs = 1, an_jmin = 64, an_jmax = 256,
     an_junk_interval = 2, an_handshake_delay = 8, an_allow_zero_size = False\<rparr>"

definition an_aggressive :: aether_noize_config where
  "an_aggressive = \<lparr>an_i1 = Some (lit ''<b 0d0a0d0a><t><rc 40-64>''), an_i2 = Some (lit ''<b 504f5354><t><rd 15-30><rc 30-50>''),
     an_i3 = Some (lit ''<b 474554><rc 40-60>''), an_i4 = Some (lit ''<r 60-100>''), an_i5 = Some (lit ''<c><rd 20-40>''),
     an_jc = 10, an_jc_before_hs = 4, an_jc_after_i1 = 3, an_jc_after_hs = 3, an_jmin = 80, an_jmax = 384,
     an_junk_interval = 1, an_handshake_delay = 12, an_allow_zero_size = False\<rparr>"

definition an_is_enabled :: "aether_noize_config \<Rightarrow> bool" where
  "an_is_enabled cfg \<longleftrightarrow> an_jc cfg > 0 \<or> an_i1 cfg \<noteq> None"

definition an_from_profile :: "str \<Rightarrow> aether_noize_config" where
  "an_from_profile name =
     (if name = lit ''off'' \<or> name = lit ''none'' then an_off
      else if name = lit ''light'' then an_light
      else if name = lit ''aggressive'' \<or> name = lit ''heavy'' then an_aggressive
      else an_balanced)"

definition parse_len :: "str \<Rightarrow> nat" where
  "parse_len s = (case parse_uint 64 (trim s) of Some n \<Rightarrow> n | None \<Rightarrow> 0)"

definition parse_range :: "str \<Rightarrow> nat rand" where
  "parse_range data =
     (case split_on (\<lambda>c. c = 45) data of
        a # b # _ \<Rightarrow>
          (let mn = parse_len a; mx = parse_len b in
           if mx > mn \<and> mn > 0 then rand_bind (random_range mn mx) (\<lambda>n. rand_return (min n 2048))
           else rand_return (min (parse_len data) 2048))
      | _ \<Rightarrow> rand_return (min (parse_len data) 2048))"

definition letters :: bytes where
  "letters = utf8_encode (lit ''abcdefghijklmnopqrstuvwxyzABCDEFGHIJKLMNOPQRSTUVWXYZ'')"

definition digits :: bytes where
  "digits = utf8_encode (lit ''0123456789'')"

definition pick_from :: "bytes \<Rightarrow> nat \<Rightarrow> bytes rand" where
  "pick_from chars len =
     repeat_times len (rand_bind (random_range 0 (length chars - 1)) (\<lambda>i s. index chars i (\<lambda>b. rand_return [b] s)))"

definition an_tag :: "cps_lib \<Rightarrow> str \<Rightarrow> str \<Rightarrow> bytes rand" where
  "an_tag L tg data =
     (if tg = lit ''b'' then
        (let hex = filter (\<lambda>c. \<not> is_whitespace c) data;
             clean = (case strip_prefix (lit ''0x'') hex of
                        Some r \<Rightarrow> r
                      | None \<Rightarrow> (case strip_prefix (lit ''0X'') hex of Some r \<Rightarrow> r | None \<Rightarrow> hex)) in
         rand_return (case hex_decode L clean of Some d \<Rightarrow> d | None \<Rightarrow> []))
      else if tg = lit ''t'' then rand_bind unix_secs (\<lambda>ts. rand_return (to_be32 ts))
      else if tg = lit ''c'' then rand_bind unix_secs (\<lambda>ts. rand_return (to_be32 (ts mod 0xFFFFFFFF)))
      else if tg = lit ''r'' then rand_bind (parse_range data) (\<lambda>len. if len > 0 then fill_bytes len else rand_return [])
      else if tg = lit ''rc'' then rand_bind (parse_range data) (\<lambda>len. if len > 0 then pick_from letters len else rand_return [])
      else if tg = lit ''rd'' then rand_bind (parse_range data) (\<lambda>len. if len > 0 then pick_from digits len else rand_return [])
      else rand_return [])"

definition an_parse_cps :: "cps_lib \<Rightarrow> str \<Rightarrow> bytes rand" where
  "an_parse_cps L spec = for_each (tag_captures L spec) (\<lambda>(tg, data). an_tag L tg (trim data))"

text \<open>The two lengths are computed at their widths, 32 and 16 bits.\<close>

definition ike_message :: "bytes \<Rightarrow> bytes \<Rightarrow> bytes \<Rightarrow> bytes" where
  "ike_message initiator_spi responder_spi payload =
     (let total_length = (28 + 24 + word_of_nat (length payload) :: u32);
          sa_payload_length = (24 + word_of_nat (length payload) :: u16) in
      initiator_spi @ responder_spi @ [0x21, 0x20, 0x22, 0x08] @ [0x00, 0x00, 0x00, 0x00]
      @ be_enc 4 (unat total_length)
      @ [0x00, 0x00] @ be_enc 2 (unat sa_payload_length)
      @ [0x00, 0x00, 0x00, 0x14, 0x01, 0x01, 0x00, 0x04, 0x03, 0x00, 0x00, 0x08, 0x01, 0x00,
         0x00, 0x0c, 0x00, 0x00, 0x00, 0x00]
      @ payload)"

definition initiator_spi :: "bytes \<Rightarrow> bytes rand" where
  "initiator_spi payload = (if 8 \<le> length payload then rand_return (take 8 payload) else fill_bytes 8)"

definition wrap_ikev2 :: "bytes \<Rightarrow> bytes rand" where
  "wrap_ikev2 payload =
     (if payload = [] then rand_return []
      else rand_bind (initiator_spi payload) (\<lambda>spi_i. rand_bind (fill_bytes 8) (\<lambda>spi_r.
           rand_return (ike_message spi_i spi_r payload))))"

definition junk_sizes :: "aether_noize_config \<Rightarrow> nat \<times> nat" where
  "junk_sizes cfg =
     (if \<not> an_allow_zero_size cfg then
        (if an_jmax cfg = 0 then (max (an_jmin cfg) 1, max (an_jmin cfg) 1)
         else (max (an_jmin cfg) 1, max (an_jmax cfg) (an_jmin cfg)))
      else (an_jmin cfg, max (an_jmax cfg) (an_jmin cfg)))"

definition generate_junk :: "aether_noize_config \<Rightarrow> bytes rand" where
  "generate_junk cfg =
     (if an_jmin cfg = 0 \<and> an_jmax cfg = 0 then rand_return (if an_allow_zero_size cfg then [] else [0x00])
      else let (min_size, max_size) = junk_sizes cfg in
        rand_bind (if max_size = min_size then rand_return min_size else random_range min_size max_size) (\<lambda>size.
        if size = 0 then rand_return (if an_allow_zero_size cfg then [] else [0x00]) else fill_bytes size))"

definition an_junk :: "aether_noize_config \<Rightarrow> noise_event list rand" where
  "an_junk cfg = rand_bind (generate_junk cfg) (\<lambda>junk. rand_return (NoiseSend junk # pause (an_junk_interval cfg)))"

definition an_signature :: "cps_lib \<Rightarrow> str option \<Rightarrow> noise_event list rand" where
  "an_signature L spec =
     (case spec of
        None \<Rightarrow> rand_return []
      | Some s \<Rightarrow> rand_bind (an_parse_cps L s) (\<lambda>pkt. rand_return (if pkt \<noteq> [] then [NoiseSend pkt, NoiseSleep 1] else [])))"

definition an_first :: "cps_lib \<Rightarrow> str option \<Rightarrow> noise_event list rand" where
  "an_first L spec =
     (case spec of
        None \<Rightarrow> rand_return []
      | Some i1 \<Rightarrow> rand_bind (an_parse_cps L i1) (\<lambda>payload.
          if payload \<noteq> [] then rand_bind (wrap_ikev2 payload) (\<lambda>framed. rand_return [NoiseSend framed, NoiseSleep 2])
          else rand_return []))"

definition apply_obfuscation :: "cps_lib \<Rightarrow> aether_noize_config \<Rightarrow> noise_event list rand" where
  "apply_obfuscation L cfg =
     (if \<not> an_is_enabled cfg then rand_return []
      else seq_events
        [an_first L (an_i1 cfg),
         repeat_times (an_jc_after_i1 cfg) (an_junk cfg),
         repeat_times (an_jc_before_hs cfg) (an_junk cfg),
         for_each [an_i2 cfg, an_i3 cfg, an_i4 cfg, an_i5 cfg] (an_signature L),
         rand_return (pause (an_handshake_delay cfg))])"

definition send_post_handshake_junk :: "aether_noize_config \<Rightarrow> noise_event list rand" where
  "send_post_handshake_junk cfg = repeat_times (an_jc_after_hs cfg) (an_junk cfg)"

text \<open>A first byte from 1 to 4 would be the type of a WireGuard message; it is moved out of that range.\<close>

definition mask_first :: "bytes \<Rightarrow> bytes" where
  "mask_first junk =
     (case junk of [] \<Rightarrow> [] | b # rest \<Rightarrow> (if 1 \<le> b \<and> b \<le> 4 then b + 0x40 else b) # rest)"

definition send_keepalive_junk :: "aether_noize_config \<Rightarrow> noise_event list rand" where
  "send_keepalive_junk cfg =
     (if \<not> an_is_enabled cfg then rand_return []
      else let base = max (an_jc_before_hs cfg) 1 in
        rand_bind (random_range 0 base) (\<lambda>extra.
        repeat_times (base + extra)
          (rand_bind (generate_junk cfg) (\<lambda>junk.
           rand_bind (random_range 0 8) (\<lambda>jitter.
           rand_return (NoiseSend (mask_first junk) # pause (an_junk_interval cfg + jitter)))))))"


subsection \<open>Sizes\<close>

text \<open>A datagram that is sent is never empty and has at most \<open>n\<close> bytes.\<close>

definition sized :: "nat \<Rightarrow> noise_event \<Rightarrow> bool" where
  "sized n e = (case e of NoiseSend p \<Rightarrow> p \<noteq> [] \<and> length p \<le> n | NoiseSleep _ \<Rightarrow> True)"

lemma sized_simps [simp]: "sized n (NoiseSend p) \<longleftrightarrow> p \<noteq> [] \<and> length p \<le> n" "sized n (NoiseSleep t)"
  by (simp_all add: sized_def)

lemma sized_pause [simp]: "list_all (sized n) (pause t)"
  by (simp add: pause_def)

lemma always_for_each_length:
  assumes "\<And>x. x \<in> set xs \<Longrightarrow> always (\<lambda>ys. length ys \<le> b x) (f x)"
  shows "always (\<lambda>ys. length ys \<le> sum_list (map b xs)) (for_each xs f)"
  using assms
proof (induction xs)
  case (Cons x xs)
  have x: "always (\<lambda>ys. length ys \<le> b x) (f x)" and xs: "always (\<lambda>ys. length ys \<le> sum_list (map b xs)) (for_each xs f)"
    using Cons by simp_all
  then show ?case by (auto intro!: always_bind [OF x] always_bind [OF xs] always_return)
qed (simp add: always_return)

lemma always_seq_events: "list_all (always (list_all P)) ms \<Longrightarrow> always (list_all P) (seq_events ms)"
  unfolding seq_events_def by (intro always_for_each) (simp add: list_all_iff)

text \<open>The most a length field can yield, and the most bytes a tag and a signature can.\<close>

definition range_max :: "str \<Rightarrow> nat" where
  "range_max data =
     (case split_on (\<lambda>c. c = 45) data of
        a # b # _ \<Rightarrow> if parse_len b > parse_len a \<and> parse_len a > 0 then min (parse_len b) 2048 else min (parse_len data) 2048
      | _ \<Rightarrow> min (parse_len data) 2048)"

definition an_tag_max :: "cps_lib \<Rightarrow> str \<Rightarrow> str \<Rightarrow> nat" where
  "an_tag_max L tg data =
     (if tg = lit ''b'' then (case hex_decode L (filter (\<lambda>c. \<not> is_whitespace c) data) of Some d \<Rightarrow> length d | None \<Rightarrow> 0)
      else if tg = lit ''t'' \<or> tg = lit ''c'' then 4
      else range_max data)"

definition plain_hex :: "str \<Rightarrow> bool" where
  "plain_hex data \<longleftrightarrow> strip_prefix (lit ''0x'') (filter (\<lambda>c. \<not> is_whitespace c) data) = None
     \<and> strip_prefix (lit ''0X'') (filter (\<lambda>c. \<not> is_whitespace c) data) = None"

lemma parse_range_max: "always (\<lambda>n. n \<le> range_max data) (parse_range data)"
  by (auto simp: parse_range_def range_max_def Let_def split: list.split
      intro!: always_bind [OF always_range] always_return)

lemma pick_from_length: "chars \<noteq> [] \<Longrightarrow> always (\<lambda>bs. length bs = n) (pick_from chars n)"
proof -
  assume c: "chars \<noteq> []"
  have "always (\<lambda>bs. length bs = 1) (rand_bind (random_range 0 (length chars - 1)) (\<lambda>i s. index chars i (\<lambda>b. rand_return [b] s)))"
  proof (rule always_bind [OF always_range])
    fix i assume "0 \<le> i \<and> i \<le> length chars - 1"
    then have "i < length chars" using c by (cases chars) auto
    then show "always (\<lambda>bs. length bs = 1) (\<lambda>s. index chars i (\<lambda>b. rand_return [b] s))"
      by (simp add: always_def rand_return_def)
  qed simp
  from always_repeat_length [OF this, of n] show ?thesis by (simp add: pick_from_def)
qed

lemma letters_ne [simp]: "letters \<noteq> []" "digits \<noteq> []"
  by (simp_all add: letters_def digits_def utf8_encode_def utf8_char_def)

lemma always_le: "always (\<lambda>x. f x = n) m \<Longrightarrow> n \<le> k \<Longrightarrow> always (\<lambda>x. f x \<le> k) m"
  by (erule always_weaken) simp

lemma an_tag_length:
  assumes "tg = lit ''b'' \<Longrightarrow> plain_hex data"
  shows "always (\<lambda>bs. length bs \<le> an_tag_max L tg data) (an_tag L tg data)"
proof -
  have "always (\<lambda>bs. length bs \<le> range_max data) (rand_bind (parse_range data) (\<lambda>len. if len > 0 then g len else rand_return []))"
    if "\<And>n. always (\<lambda>bs. length bs = n) (g n)" for g :: "nat \<Rightarrow> bytes rand"
    using always_le [OF that] by (auto intro!: always_bind [OF parse_range_max] always_return)
  note r = this
  show ?thesis
    using assms r [of fill_bytes] r [of "pick_from letters"] r [of "pick_from digits"] always_fill_bytes pick_from_length
    by (auto simp: an_tag_def an_tag_max_def plain_hex_def Let_def to_be32_def
        intro!: always_bind [OF always_unix_secs] always_return split: option.split)
qed

lemma length_ike_message: "length (ike_message a b payload) = length a + length b + 36 + length payload"
  by (simp add: ike_message_def Let_def)

lemma ike_message_ne [simp]: "ike_message a b payload \<noteq> []"
  by (simp add: ike_message_def Let_def)

lemma initiator_spi_length: "always (\<lambda>bs. length bs = 8) (initiator_spi payload)"
  by (auto simp: initiator_spi_def intro: always_return always_fill_bytes)

lemma wrap_ikev2_always:
  assumes "payload \<noteq> []" "\<And>a b. length a = 8 \<Longrightarrow> length b = 8 \<Longrightarrow> P (ike_message a b payload)"
  shows "always P (wrap_ikev2 payload)"
  using assms
  by (auto simp: wrap_ikev2_def intro!: always_bind [OF initiator_spi_length] always_bind [OF always_fill_bytes] always_return)


text \<open>\<open>spec_fits L n s\<close>: a signature yields at most \<open>n\<close> bytes.\<close>

definition spec_fits :: "cps_lib \<Rightarrow> nat \<Rightarrow> str option \<Rightarrow> bool" where
  "spec_fits L n spec = (case spec of
     None \<Rightarrow> True
   | Some s \<Rightarrow> list_all (\<lambda>(tg, data). tg = lit ''b'' \<longrightarrow> plain_hex (trim data)) (tag_captures L s)
       \<and> sum_list (map (\<lambda>(tg, data). an_tag_max L tg (trim data)) (tag_captures L s)) \<le> n)"

lemma an_parse_cps_length:
  assumes "spec_fits L n (Some s)"
  shows "always (\<lambda>bs. length bs \<le> n) (an_parse_cps L s)"
proof -
  have "always (\<lambda>bs. length bs \<le> sum_list (map (\<lambda>(tg, data). an_tag_max L tg (trim data)) (tag_captures L s))) (an_parse_cps L s)"
    unfolding an_parse_cps_def
  proof (rule always_for_each_length)
    fix x assume "x \<in> set (tag_captures L s)"
    then have "fst x = lit ''b'' \<Longrightarrow> plain_hex (trim (snd x))" using assms by (auto simp: spec_fits_def list_all_iff)
    then show "always (\<lambda>ys. length ys \<le> (case x of (tg, data) \<Rightarrow> an_tag_max L tg (trim data))) (case x of (tg, data) \<Rightarrow> an_tag L tg (trim data))"
      using an_tag_length [of "fst x" "trim (snd x)" L] by (simp add: case_prod_beta)
  qed
  then show ?thesis by (rule always_weaken) (use assms in \<open>simp add: spec_fits_def\<close>)
qed

lemma an_signature_sized: "spec_fits L n spec \<Longrightarrow> always (list_all (sized n)) (an_signature L spec)"
  by (cases spec) (auto simp: an_signature_def intro!: always_return always_bind [OF an_parse_cps_length])

lemma an_first_sized:
  assumes "spec_fits L n spec"
  shows "always (list_all (sized (n + 52))) (an_first L spec)"
proof (cases spec)
  case (Some i1)
  have "always (list_all (sized (n + 52)))
      (if payload \<noteq> [] then rand_bind (wrap_ikev2 payload) (\<lambda>framed. rand_return [NoiseSend framed, NoiseSleep 2]) else rand_return [])"
    if "length payload \<le> n" for payload
  proof (cases "payload = []")
    case False
    have "always (\<lambda>bs. bs \<noteq> [] \<and> length bs \<le> n + 52) (wrap_ikev2 payload)"
      using False that by (intro wrap_ikev2_always) (simp_all add: length_ike_message)
    with False show ?thesis by (auto intro!: always_bind [of "\<lambda>bs. bs \<noteq> [] \<and> length bs \<le> n + 52"] always_return)
  qed (simp add: always_return)
  note frame = this
  show ?thesis
    unfolding an_first_def Some option.case
    by (rule always_bind [OF an_parse_cps_length frame]) (use assms Some in auto)
qed (simp add: an_first_def always_return)

lemma junk_sizes_ordered: "fst (junk_sizes cfg) \<le> snd (junk_sizes cfg)"
  by (auto simp: junk_sizes_def)

text \<open>Junk has the configured size; it is empty only where that is allowed.\<close>

lemma generate_junk_length:
  "always (\<lambda>bs. (\<not> an_allow_zero_size cfg \<longrightarrow> bs \<noteq> []) \<and> length bs \<le> max 1 (max (an_jmin cfg) (an_jmax cfg))) (generate_junk cfg)"
proof -
  let ?P = "\<lambda>bs :: bytes. (\<not> an_allow_zero_size cfg \<longrightarrow> bs \<noteq> []) \<and> length bs \<le> max 1 (max (an_jmin cfg) (an_jmax cfg))"
  obtain lo hi where j: "junk_sizes cfg = (lo, hi)" by fastforce
  then have lo: "lo \<le> hi" using junk_sizes_ordered [of cfg] by simp
  have size: "always (\<lambda>n. lo \<le> n \<and> n \<le> hi) (if hi = lo then rand_return lo else random_range lo hi)"
    using lo always_range [OF lo] by (auto intro: always_return)
  have fill: "always ?P (fill_bytes n)" if "lo \<le> n" "n \<le> hi" "0 < n" for n
    using that j by (intro always_weaken [OF always_fill_bytes]) (auto simp: junk_sizes_def split: if_splits)
  have "always ?P (rand_bind (if hi = lo then rand_return lo else random_range lo hi)
      (\<lambda>size. if size = 0 then rand_return (if an_allow_zero_size cfg then [] else [0x00]) else fill_bytes size))"
    using fill by (intro always_bind [OF size]) (auto intro!: always_return)
  then show ?thesis by (auto simp: generate_junk_def j intro: always_return)
qed

lemma an_junk_sized:
  assumes "\<not> an_allow_zero_size cfg" "an_jmin cfg \<le> n" "an_jmax cfg \<le> n" "0 < n"
  shows "always (list_all (sized n)) (an_junk cfg)"
  unfolding an_junk_def by (rule always_bind [OF generate_junk_length], rule always_return) (use assms in auto)

lemma spec_fits_mono: "spec_fits L n spec \<Longrightarrow> spec_fits L (n + m) spec"
  by (auto simp: spec_fits_def split: option.splits)

lemma apply_obfuscation_sized:
  assumes "\<not> an_allow_zero_size cfg" "an_jmin cfg \<le> n + 52" "an_jmax cfg \<le> n + 52"
    "list_all (spec_fits L n) [an_i1 cfg, an_i2 cfg, an_i3 cfg, an_i4 cfg, an_i5 cfg]"
  shows "always (list_all (sized (n + 52))) (apply_obfuscation L cfg)"
proof -
  have "always (list_all (sized (n + 52))) (for_each [an_i2 cfg, an_i3 cfg, an_i4 cfg, an_i5 cfg] (an_signature L))"
    using assms(4) by (intro always_for_each) (auto intro!: an_signature_sized dest: spec_fits_mono)
  then show ?thesis
    using assms unfolding apply_obfuscation_def
    by (auto intro!: always_seq_events always_return an_first_sized always_repeat an_junk_sized)
qed


subsection \<open>The built-in profiles\<close>

text \<open>
  What is documented of the two libraries: on a text that consists of well-formed tags only, the
  matches of \<open><([a-z]+)\s*([^>]*)>\<close> are these tags, and the decoder reads lower-case hexadecimal.
\<close>

definition render_tag :: "str \<times> str \<Rightarrow> str" where
  "render_tag td = (case td of (t, d) \<Rightarrow> 60 # t @ (if d = [] then [] else 32 # d) @ [62])"

definition good_tag :: "str \<times> str \<Rightarrow> bool" where
  "good_tag td = (case td of (t, d) \<Rightarrow>
     t \<noteq> [] \<and> list_all is_lower t \<and> 62 \<notin> set d \<and> (d = [] \<or> \<not> is_whitespace (hd d)))"

definition hex_digit :: "nat \<Rightarrow> nat" where
  "hex_digit n = (if n < 10 then 48 + n else 87 + n)"

definition hex_text :: "bytes \<Rightarrow> str" where
  "hex_text bs = concat (map (\<lambda>b. [hex_digit (unat b div 16), hex_digit (unat b mod 16)]) bs)"

definition cps_lib_laws :: "cps_lib \<Rightarrow> bool" where
  "cps_lib_laws L \<longleftrightarrow>
     (\<forall>tags. list_all good_tag tags \<longrightarrow> tag_captures L (concat (map render_tag tags)) = tags)
     \<and> (\<forall>bs. hex_decode L (hex_text bs) = Some bs)"

definition profile_specs :: "(str \<times> (str \<times> str) list) list" where
  "profile_specs =
     [(lit ''<b 0d0a0d0a><t><r 20-32>'', [(lit ''b'', lit ''0d0a0d0a''), (lit ''t'', []), (lit ''r'', lit ''20-32'')]),
      (lit ''<rc 24-48>'', [(lit ''rc'', lit ''24-48'')]),
      (lit ''<b 0d0a0d0a><t><rc 20-40>'', [(lit ''b'', lit ''0d0a0d0a''), (lit ''t'', []), (lit ''rc'', lit ''20-40'')]),
      (lit ''<b 504f5354><rd 10-20><rc 20-30>'', [(lit ''b'', lit ''504f5354''), (lit ''rd'', lit ''10-20''), (lit ''rc'', lit ''20-30'')]),
      (lit ''<r 30-50>'', [(lit ''r'', lit ''30-50'')]),
      (lit ''<b 0d0a0d0a><t><rc 40-64>'', [(lit ''b'', lit ''0d0a0d0a''), (lit ''t'', []), (lit ''rc'', lit ''40-64'')]),
      (lit ''<b 504f5354><t><rd 15-30><rc 30-50>'',
        [(lit ''b'', lit ''504f5354''), (lit ''t'', []), (lit ''rd'', lit ''15-30''), (lit ''rc'', lit ''30-50'')]),
      (lit ''<b 474554><rc 40-60>'', [(lit ''b'', lit ''474554''), (lit ''rc'', lit ''40-60'')]),
      (lit ''<r 60-100>'', [(lit ''r'', lit ''60-100'')]),
      (lit ''<c><rd 20-40>'', [(lit ''c'', []), (lit ''rd'', lit ''20-40'')])]"

lemma profile_specs_render: "list_all (\<lambda>(s, tags). s = concat (map render_tag tags) \<and> list_all good_tag tags) profile_specs"
  by (simp add: profile_specs_def render_tag_def good_tag_def chr_defs)

lemma hex_literals:
  assumes "cps_lib_laws L"
  shows "hex_decode L (lit ''0d0a0d0a'') = Some [0x0d, 0x0a, 0x0d, 0x0a]" "hex_decode L (lit ''504f5354'') = Some [0x50, 0x4f, 0x53, 0x54]"
    "hex_decode L (lit ''474554'') = Some [0x47, 0x45, 0x54]"
proof -
  have h: "hex_decode L (hex_text bs) = Some bs" for bs using assms by (simp add: cps_lib_laws_def)
  show "hex_decode L (lit ''0d0a0d0a'') = Some [0x0d, 0x0a, 0x0d, 0x0a]" "hex_decode L (lit ''504f5354'') = Some [0x50, 0x4f, 0x53, 0x54]"
    "hex_decode L (lit ''474554'') = Some [0x47, 0x45, 0x54]"
    using h [of "[0x0d, 0x0a, 0x0d, 0x0a]"] h [of "[0x50, 0x4f, 0x53, 0x54]"] h [of "[0x47, 0x45, 0x54]"]
    by (simp_all add: hex_text_def hex_digit_def)
qed

text \<open>The most bytes each tag of the profiles yields.\<close>

lemma range_literals:
  "range_max (lit ''20-32'') = 32" "range_max (lit ''24-48'') = 48" "range_max (lit ''20-40'') = 40"
  "range_max (lit ''10-20'') = 20" "range_max (lit ''20-30'') = 30" "range_max (lit ''30-50'') = 50"
  "range_max (lit ''40-64'') = 64" "range_max (lit ''15-30'') = 30" "range_max (lit ''40-60'') = 60"
  "range_max (lit ''60-100'') = 100"
  by (simp_all add: range_max_def parse_len_def parse_uint_def digits_value_def trim_none chr_defs)

lemma plain_hex_literals:
  "plain_hex (lit ''0d0a0d0a'')" "plain_hex (lit ''504f5354'')" "plain_hex (lit ''474554'')"
  by (simp_all add: plain_hex_def strip_prefix_def starts_with_def chr_defs)

definition tags_fit :: "cps_lib \<Rightarrow> nat \<Rightarrow> (str \<times> str) list \<Rightarrow> bool" where
  "tags_fit L n tags \<longleftrightarrow> list_all (\<lambda>(tg, data). tg = lit ''b'' \<longrightarrow> plain_hex (trim data)) tags
     \<and> sum_list (map (\<lambda>(tg, data). an_tag_max L tg (trim data)) tags) \<le> n"

lemma trim_literals:
  "list_all (\<lambda>s. trim s = s) [[], lit ''0d0a0d0a'', lit ''504f5354'', lit ''474554'', lit ''20-32'', lit ''24-48'', lit ''20-40'',
     lit ''10-20'', lit ''20-30'', lit ''30-50'', lit ''40-64'', lit ''15-30'', lit ''40-60'', lit ''60-100'']"
  by (simp add: trim_none chr_defs trim_def trim_start_def trim_end_def)

lemma an_tag_max_literals:
  assumes "cps_lib_laws L"
  shows "an_tag_max L (lit ''b'') (lit ''0d0a0d0a'') = 4" "an_tag_max L (lit ''b'') (lit ''504f5354'') = 4"
    "an_tag_max L (lit ''b'') (lit ''474554'') = 3" "an_tag_max L (lit ''t'') d = 4" "an_tag_max L (lit ''c'') d = 4"
    "an_tag_max L (lit ''r'') d = range_max d" "an_tag_max L (lit ''rc'') d = range_max d" "an_tag_max L (lit ''rd'') d = range_max d"
  using hex_literals [OF assms] by (simp_all add: an_tag_max_def chr_defs)

lemma tag_names:
  "lit ''t'' \<noteq> lit ''b''" "lit ''c'' \<noteq> lit ''b''" "lit ''r'' \<noteq> lit ''b''" "lit ''rc'' \<noteq> lit ''b''" "lit ''rd'' \<noteq> lit ''b''"
  by simp_all

lemma tags_of_profiles:
  assumes "cps_lib_laws L"
  shows "list_all (\<lambda>(s, tags). tags_fit L 100 tags) profile_specs"
  using trim_literals an_tag_max_literals [OF assms] range_literals plain_hex_literals tag_names
  by (simp add: profile_specs_def tags_fit_def del: lit_simps)

lemma profile_spec_fits:
  assumes "cps_lib_laws L" "s \<in> fst ` set profile_specs" "100 \<le> n"
  shows "spec_fits L n (Some s)"
proof -
  obtain tags where t: "(s, tags) \<in> set profile_specs" using assms(2) by auto
  then have "s = concat (map render_tag tags)" "list_all good_tag tags" using profile_specs_render by (auto simp: list_all_iff)
  then have "tag_captures L s = tags" using assms(1) by (simp add: cps_lib_laws_def)
  moreover have "tags_fit L 100 tags" using tags_of_profiles [OF assms(1)] t by (auto simp: list_all_iff)
  ultimately show ?thesis using assms(3) by (simp add: spec_fits_def tags_fit_def)
qed

lemma an_profile_cases: "an_from_profile name \<in> {an_off, an_light, an_balanced, an_aggressive}"
  by (simp add: an_from_profile_def)

lemma an_profiles_fit:
  assumes "cps_lib_laws L" "cfg \<in> {an_light, an_balanced, an_aggressive}"
  shows "list_all (spec_fits L 332) [an_i1 cfg, an_i2 cfg, an_i3 cfg, an_i4 cfg, an_i5 cfg]"
proof -
  have fit: "s \<in> fst ` set profile_specs \<Longrightarrow> spec_fits L 332 (Some s)" for s using profile_spec_fits [OF assms(1)] by simp
  have "spec_fits L 332 None" by (simp add: spec_fits_def)
  with assms(2) show ?thesis
    unfolding an_light_def an_balanced_def an_aggressive_def
    by (auto intro!: fit simp: profile_specs_def simp del: lit_simps)
qed

lemma an_profiles_junk:
  "cfg \<in> {an_off, an_light, an_balanced, an_aggressive} \<Longrightarrow>
    \<not> an_allow_zero_size cfg \<and> an_jmin cfg \<le> 384 \<and> an_jmax cfg \<le> 384"
  unfolding an_off_def an_light_def an_balanced_def an_aggressive_def by auto


subsection \<open>noize.rs: sizes\<close>

definition cps_tag_max :: "cps_lib \<Rightarrow> str \<Rightarrow> str \<Rightarrow> nat" where
  "cps_tag_max L tg data =
     (if tg = lit ''b'' then (case hex_decode L (filter (\<lambda>c. \<not> is_whitespace c) data) of Some d \<Rightarrow> length d | None \<Rightarrow> 0)
      else if tg = lit ''t'' then 4 else if tg = lit ''n'' then 8
      else min (case parse_uint 64 data of Some n \<Rightarrow> n | None \<Rightarrow> 0) 1024)"

lemma cps_tag_length: "always (\<lambda>bs. length bs \<le> cps_tag_max L tg data) (cps_tag L tg data)"
  by (auto simp: cps_tag_def cps_tag_max_def to_be32_def Let_def split: option.split
      intro!: always_return always_bind [OF always_unix_secs] always_bind [OF always_answer] always_weaken [OF always_fill_bytes])

definition cps_max :: "cps_lib \<Rightarrow> str \<Rightarrow> nat" where
  "cps_max L spec = sum_list (map (\<lambda>inner. let (tg, data) = splitn_tag (trim inner) in cps_tag_max L tg data) (cps_tags spec))"

lemma parse_cps_length: "always (\<lambda>bs. length bs \<le> cps_max L spec) (parse_cps L spec)"
  unfolding parse_cps_def cps_max_def
  by (rule always_for_each_length) (simp add: case_prod_beta cps_tag_length)

lemma noize_junk_sized:
  assumes "nc_jmax cfg \<le> n" "90 \<le> n"
  shows "always (list_all (sized n)) (noize_junk cfg)"
proof -
  have fill: "always (list_all (sized n)) (rand_bind (fill_bytes k) (\<lambda>pkt. rand_return (NoiseSend pkt # pause t)))" if "0 < k" "k \<le> n" for k t
    using that by (auto intro!: always_bind [OF always_fill_bytes] always_return)
  have assoc: "rand_bind (rand_bind m f) g = rand_bind m (\<lambda>x. rand_bind (f x) g)" for m :: "nat rand" and f :: "nat \<Rightarrow> bytes rand" and g :: "bytes \<Rightarrow> noise_event list rand"
    by (auto simp: rand_bind_def fun_eq_iff out_bind_def split: outcome.split)
  show ?thesis
    unfolding noize_junk_def junk_packet_def Let_def case_prod_beta assoc
    by (rule always_bind [OF always_range]) (use assms in \<open>auto intro!: fill split: if_splits\<close>)
qed

lemma noize_signature_sized:
  assumes "\<And>s. spec = Some s \<Longrightarrow> cps_max L s \<le> n"
  shows "always (list_all (sized n)) (noize_signature L spec t)"
proof (cases spec)
  case (Some s)
  have "always (\<lambda>bs. length bs \<le> n) (parse_cps L s)"
    by (rule always_weaken [OF parse_cps_length]) (use assms [OF Some] in simp)
  then show ?thesis by (auto simp: noize_signature_def Some intro!: always_bind [of "\<lambda>bs. length bs \<le> n"] always_return)
qed (simp add: noize_signature_def always_return)

lemma cps_max_literals:
  assumes "cps_lib_laws L"
  shows "cps_max L (lit ''<b 0d0a0d0a><t><r 24>'') = 32" "cps_max L (lit ''<b 0d0a0d0a><t><r 16>'') = 24"
    "cps_max L (lit ''<r 48>'') = 48" "cps_max L (lit ''<r 32>'') = 32"
  using hex_literals(1) [OF assms]
  by (simp_all add: cps_max_def splitn_tag_def cps_tag_max_def trim_def trim_start_def trim_end_def parse_uint_def digits_value_def chr_defs)

lemma noize_profile_cases: "noize_from_profile name \<in> {noize_off, noize_firewall, noize_light, noize_gfw}"
  by (simp add: noize_from_profile_def)

lemma pre_handshake_sized:
  assumes "cps_lib_laws L" "cfg \<in> {noize_off, noize_firewall, noize_light, noize_gfw}"
  shows "always (list_all (sized 256)) (pre_handshake L cfg)"
proof -
  have "nc_jmax cfg \<le> 256" using assms(2) unfolding noize_off_def noize_firewall_def noize_light_def noize_gfw_def by auto
  moreover have "spec = Some s \<Longrightarrow> cps_max L s \<le> 256" if "spec \<in> {nc_i1 cfg, nc_i2 cfg}" for spec s
    using assms(2) that cps_max_literals [OF assms(1)]
    unfolding noize_off_def noize_firewall_def noize_light_def noize_gfw_def by (auto simp del: lit_simps)
  ultimately show ?thesis
    unfolding pre_handshake_def
    by (auto intro!: always_return always_seq_events always_repeat noize_junk_sized noize_signature_sized)
qed

subsection \<open>Keep-alive junk\<close>

text \<open>Datagrams that no WireGuard receiver takes for a message, and the number of datagrams sent.\<close>

definition outside_wg :: "noise_event \<Rightarrow> bool" where
  "outside_wg e = (case e of NoiseSend (b # _) \<Rightarrow> b < 1 \<or> 4 < b | _ \<Rightarrow> True)"

definition sends :: "noise_event list \<Rightarrow> nat" where
  "sends es = length (filter (\<lambda>e. case e of NoiseSend _ \<Rightarrow> True | NoiseSleep _ \<Rightarrow> False) es)"

lemma sends_simps [simp]: "sends [] = 0" "sends (NoiseSend p # es) = Suc (sends es)" "sends (pause t) = 0" "sends (es @ fs) = sends es + sends fs"
  by (simp_all add: sends_def pause_def)

lemma outside_wg_pause [simp]: "list_all outside_wg (pause t)"
  by (simp add: pause_def outside_wg_def)

lemma outside_wg_mask: "outside_wg (NoiseSend (mask_first junk))"
  by (auto simp: outside_wg_def mask_first_def word_less_nat_alt word_le_nat_alt unat_word_ariths split: list.split)

lemma always_repeat_sends:
  assumes "always (\<lambda>es. sends es = 1) m"
  shows "always (\<lambda>es. sends es = n) (repeat_times n m)"
proof (induction n)
  case (Suc n)
  then show ?case by (auto intro!: always_bind [OF assms] always_bind [OF Suc] always_return)
qed (simp add: always_return)

lemma keepalive_round:
  assumes "\<And>junk j. length junk \<le> max 1 (max (an_jmin cfg) (an_jmax cfg)) \<Longrightarrow> (\<not> an_allow_zero_size cfg \<longrightarrow> junk \<noteq> []) \<Longrightarrow>
    P (NoiseSend (mask_first junk) # pause (an_junk_interval cfg + j))"
  shows "always P (rand_bind (generate_junk cfg) (\<lambda>junk. rand_bind (random_range 0 8) (\<lambda>jitter.
      rand_return (NoiseSend (mask_first junk) # pause (an_junk_interval cfg + jitter)))))"
  using assms by (auto intro!: always_bind [OF generate_junk_length] always_bind [OF always_range] always_return)

lemma length_mask_first [simp]: "length (mask_first junk) = length junk" "mask_first junk = [] \<longleftrightarrow> junk = []"
  by (simp_all add: mask_first_def split: list.split)

lemma keepalive_sized:
  assumes "\<not> an_allow_zero_size cfg" "an_jmin cfg \<le> n" "an_jmax cfg \<le> n" "0 < n"
  shows "always (list_all (sized n)) (send_keepalive_junk cfg)"
  using assms
  by (auto simp: send_keepalive_junk_def Let_def intro!: always_return always_bind [OF always_range] always_repeat keepalive_round)


subsection \<open>Obfuscators\<close>

text \<open>A client announces a message: the noise first, then the message itself.\<close>

definition announce :: "noise_event list rand \<Rightarrow> bytes \<Rightarrow> noise_event list rand" where
  "announce noise msg = rand_bind noise (\<lambda>es. rand_return (es @ [NoiseSend msg]))"

text \<open>
  What a client may rely on: a disabled obfuscator does nothing, and the usable configurations send
  small datagrams only. Both clients of the two modules follow the noise with their handshake.
\<close>

locale obfuscator =
  fixes enabled :: "'c \<Rightarrow> bool" and noise :: "'c \<Rightarrow> noise_event list rand" and limit :: nat and usable :: "'c \<Rightarrow> bool"
  assumes silent: "\<not> enabled c \<Longrightarrow> noise c = rand_return []"
    and small: "usable c \<Longrightarrow> always (list_all (sized limit)) (noise c)"
begin

lemma quiet_flight: "\<not> enabled c \<Longrightarrow> announce (noise c) msg = rand_return [NoiseSend msg]"
  by (simp add: announce_def silent rand_bind_def rand_return_def fun_eq_iff)

lemma flight:
  assumes "usable c" "msg \<noteq> []"
  shows "always (\<lambda>es. es \<noteq> [] \<and> last es = NoiseSend msg \<and> list_all (sized (max limit (length msg))) es) (announce (noise c) msg)"
proof -
  have grow: "sized limit e \<Longrightarrow> sized (max limit (length msg)) e" for e by (cases e) auto
  show ?thesis
    unfolding announce_def
    by (rule always_bind [OF small [OF assms(1)]], rule always_return) (use assms(2) grow in \<open>auto simp: list_all_iff\<close>)
qed

end

lemma an_obfuscation_sized:
  assumes "cps_lib_laws L" "cfg \<in> {an_off, an_light, an_balanced, an_aggressive}"
  shows "always (list_all (sized 384)) (apply_obfuscation L cfg)"
proof (cases "cfg = an_off")
  case True
  then show ?thesis by (simp add: apply_obfuscation_def an_is_enabled_def an_off_def always_return)
next
  case False
  then have "cfg \<in> {an_light, an_balanced, an_aggressive}" using assms(2) by blast
  from an_profiles_fit [OF assms(1) this] show ?thesis
    using an_profiles_junk [OF assms(2)] apply_obfuscation_sized [of cfg 332 L] by simp
qed

interpretation wg_noise: obfuscator an_is_enabled "apply_obfuscation L" 384 "\<lambda>c. cps_lib_laws L \<and> c \<in> range an_from_profile" for L
proof
  show "\<not> an_is_enabled c \<Longrightarrow> apply_obfuscation L c = rand_return []" for c by (simp add: apply_obfuscation_def)
  show "cps_lib_laws L \<and> c \<in> range an_from_profile \<Longrightarrow> always (list_all (sized 384)) (apply_obfuscation L c)" for c
    using an_obfuscation_sized an_profile_cases by blast
qed

interpretation quic_noise: obfuscator noize_is_enabled "pre_handshake L" 256 "\<lambda>c. cps_lib_laws L \<and> c \<in> range noize_from_profile" for L
proof
  show "\<not> noize_is_enabled c \<Longrightarrow> pre_handshake L c = rand_return []" for c by (simp add: pre_handshake_def)
  show "cps_lib_laws L \<and> c \<in> range noize_from_profile \<Longrightarrow> always (list_all (sized 256)) (pre_handshake L c)" for c
    using pre_handshake_sized noize_profile_cases by blast
qed

text \<open>A scanner and a decoder with the documented behaviour.\<close>

definition scan_tags :: "str \<Rightarrow> (str \<times> str) list" where
  "scan_tags spec = map (\<lambda>inner. (takeWhile is_lower inner, dropWhile is_whitespace (dropWhile is_lower inner))) (cps_tags spec)"

definition unhex_digit :: "nat \<Rightarrow> nat" where
  "unhex_digit c = (if c < 58 then c - 48 else c - 87)"

fun unhex :: "str \<Rightarrow> bytes option" where
  "unhex (a # b # s) = map_option ((#) (word_of_nat (16 * unhex_digit a + unhex_digit b))) (unhex s)"
| "unhex [] = Some []"
| "unhex _ = None"

definition scan_lib :: cps_lib where
  "scan_lib = \<lparr>hex_decode = unhex, tag_captures = scan_tags\<rparr>"

lemma unhex_hex_digit: "n < 16 \<Longrightarrow> unhex_digit (hex_digit n) = n"
  by (simp add: unhex_digit_def hex_digit_def)

lemma unhex_text: "unhex (hex_text bs) = Some bs"
proof (induction bs)
  case (Cons b bs)
  have "unat b div 16 < 16" using unat_u8_less [of b] by linarith
  then have "unhex_digit (hex_digit (unat b div 16)) = unat b div 16" "unhex_digit (hex_digit (unat b mod 16)) = unat b mod 16"
    using unhex_hex_digit by simp_all
  then show ?case using Cons by (simp add: hex_text_def)
qed (simp add: hex_text_def)

lemma split_once_gt: "62 \<notin> set a \<Longrightarrow> split_once 62 (a @ 62 # b) = Some (a, b)"
  by (induction a) auto

lemma scan_rendered: "list_all good_tag tags \<Longrightarrow> scan_tags (concat (map render_tag tags)) = tags"
proof (induction tags)
  case (Cons td tags)
  obtain t d where td: "td = (t, d)" by fastforce
  have g: "t \<noteq> []" "list_all is_lower t" "62 \<notin> set d" "d = [] \<or> \<not> is_whitespace (hd d)"
    using Cons.prems by (simp_all add: td good_tag_def)
  let ?inner = "t @ (if d = [] then [] else 32 # d)"
  have "62 \<notin> set t" using g(2) by (auto simp: list_all_iff chr_defs)
  then have "cps_tags (concat (map render_tag (td # tags))) = ?inner # cps_tags (concat (map render_tag tags))"
    using g(3) split_once_gt [of ?inner "concat (map render_tag tags)"] by (simp add: td render_tag_def)
  moreover have "takeWhile is_lower ?inner = t" "dropWhile is_lower ?inner = (if d = [] then [] else 32 # d)"
    using g(2) by (auto simp: takeWhile_append dropWhile_append list_all_iff) (simp_all add: is_lower_def)
  moreover have "dropWhile is_whitespace (if d = [] then [] else 32 # d) = d"
    using g(4) by (cases d) (auto simp: is_whitespace_def)
  ultimately show ?case using Cons by (simp add: scan_tags_def td)
qed (simp add: scan_tags_def)

lemma scan_lib_laws: "cps_lib_laws scan_lib"
  by (simp add: cps_lib_laws_def scan_lib_def unhex_text scan_rendered)

subsection \<open>Properties\<close>

text \<open>
  C23: obfuscation never panics and stays small: with every built-in profile, whatever the random
  numbers and the clock, each datagram sent before or after the handshake or with a keep-alive has at
  least one and at most 384 bytes (256 on the QUIC transports), and so is not fragmented on any path.
\<close>

theorem obfuscation_bounded:
  assumes "cps_lib_laws L"
  shows "always (list_all (sized 384)) (apply_obfuscation L (an_from_profile name))
    \<and> always (list_all (sized 384)) (send_post_handshake_junk (an_from_profile name))
    \<and> always (list_all (sized 384)) (send_keepalive_junk (an_from_profile name))
    \<and> always (list_all (sized 256)) (pre_handshake L (noize_from_profile name))"
proof (intro conjI)
  have junk: "\<not> an_allow_zero_size (an_from_profile name)" "an_jmin (an_from_profile name) \<le> 384" "an_jmax (an_from_profile name) \<le> 384"
    using an_profiles_junk [OF an_profile_cases [of name]] by simp_all
  show "always (list_all (sized 384)) (apply_obfuscation L (an_from_profile name))"
    using an_obfuscation_sized [OF assms an_profile_cases] .
  show "always (list_all (sized 384)) (send_post_handshake_junk (an_from_profile name))"
    unfolding send_post_handshake_junk_def using junk by (intro always_repeat an_junk_sized) simp_all
  show "always (list_all (sized 384)) (send_keepalive_junk (an_from_profile name))"
    using junk by (intro keepalive_sized) simp_all
  show "always (list_all (sized 256)) (pre_handshake L (noize_from_profile name))"
    using pre_handshake_sized [OF assms noize_profile_cases] .
qed

theorem obfuscation_bounded_witness:
  "always (list_all (sized 384)) (apply_obfuscation scan_lib an_aggressive)"
  using obfuscation_bounded [OF scan_lib_laws, of "lit ''heavy''"] by (simp add: an_from_profile_def)

text \<open>
  keep-alive junk cannot be taken for WireGuard traffic: for every configuration and all random
  numbers no datagram starts with a byte from 1 to 4, the message types of the protocol; between
  \<open>b\<close> and \<open>2 * b\<close> datagrams are sent for \<open>b\<close> = \<open>jc_before_hs\<close> (at least 1), none when the
  obfuscation is off, and the code never panics.
\<close>

lemma keepalive_junk_outside_wireguard:
  "always (\<lambda>es. list_all outside_wg es \<and>
     (if an_is_enabled cfg
      then max (an_jc_before_hs cfg) 1 \<le> sends es \<and> sends es \<le> 2 * max (an_jc_before_hs cfg) 1
      else es = [])) (send_keepalive_junk cfg)"
proof (cases "an_is_enabled cfg")
  case True
  let ?b = "max (an_jc_before_hs cfg) 1"
  let ?round = "rand_bind (generate_junk cfg) (\<lambda>junk. rand_bind (random_range 0 8) (\<lambda>jitter.
      rand_return (NoiseSend (mask_first junk) # pause (an_junk_interval cfg + jitter))))"
  have "always (list_all outside_wg) (repeat_times n ?round)" for n
    by (intro always_repeat keepalive_round) (simp add: outside_wg_mask)
  moreover have "always (\<lambda>es. sends es = n) (repeat_times n ?round)" for n
    by (intro always_repeat_sends keepalive_round) simp
  ultimately have "always (\<lambda>es. list_all outside_wg es \<and> sends es = n) (repeat_times n ?round)" for n
    by (rule always_conj)
  note exact = this
  have "always (\<lambda>es. list_all outside_wg es \<and> ?b \<le> sends es \<and> sends es \<le> 2 * ?b) (repeat_times (?b + k) ?round)"
    if "k \<le> ?b" for k by (rule always_weaken [OF exact]) (use that in auto)
  then show ?thesis using True by (auto simp: send_keepalive_junk_def Let_def intro!: always_bind [OF always_range])
qed (simp add: send_keepalive_junk_def always_return)

text \<open>
  the first datagram on the wire is a well-formed IKE message: its length field is its length,
  the length of its security association payload is what follows the 28-byte header, it has the
  version and exchange type of an initial exchange, and the signature is its tail.
\<close>

lemma ike_frame_wellformed:
  assumes "payload \<noteq> []" "length payload \<le> 65511"
  shows "always (\<lambda>pkt. be_dec (take 4 (drop 24 pkt)) = length pkt \<and> be_dec (take 2 (drop 30 pkt)) = length pkt - 28
      \<and> take 4 (drop 16 pkt) = [0x21, 0x20, 0x22, 0x08] \<and> drop 52 pkt = payload) (wrap_ikev2 payload)"
proof (rule wrap_ikev2_always [OF assms(1)])
  fix a b :: bytes
  assume ab: "length a = 8" "length b = 8"
  have total: "unat (28 + 24 + word_of_nat (length payload) :: u32) = 52 + length payload"
    "unat (24 + word_of_nat (length payload) :: u16) = 24 + length payload"
    using assms(2) by (simp_all add: unat_word_ariths unat_of_nat)
  let ?m = "ike_message a b payload"
  have parts: "?m = (a @ b @ [0x21, 0x20, 0x22, 0x08, 0, 0, 0, 0]) @ be_enc 4 (52 + length payload) @ [0, 0]
      @ be_enc 2 (24 + length payload) @ [0x00, 0x00, 0x00, 0x14, 0x01, 0x01, 0x00, 0x04, 0x03, 0x00, 0x00, 0x08, 0x01, 0x00,
         0x00, 0x0c, 0x00, 0x00, 0x00, 0x00] @ payload"
    unfolding ike_message_def Let_def total by simp
  have "take 4 (drop 24 ?m) = be_enc 4 (52 + length payload)" "take 2 (drop 30 ?m) = be_enc 2 (24 + length payload)"
    "take 4 (drop 16 ?m) = [0x21, 0x20, 0x22, 0x08]" "drop 52 ?m = payload"
    unfolding parts using ab by (simp_all del: be_enc.simps)
  then show "be_dec (take 4 (drop 24 ?m)) = length ?m \<and> be_dec (take 2 (drop 30 ?m)) = length ?m - 28
      \<and> take 4 (drop 16 ?m) = [0x21, 0x20, 0x22, 0x08] \<and> drop 52 ?m = payload"
    using assms(2) ab by (simp add: be_dec_be_enc length_ike_message del: be_enc.simps)
qed

end
