(* ===== verification/Wireguard.thy ===== *)
theory Wireguard
  imports Noize Masque_Proto
begin

text \<open>
  The WireGuard transport (\<open>wireguard.rs\<close>): the client identifier in the reserved bytes of every
  message, the data-plane probe, the four concurrent tasks of a running tunnel and the verification
  of an endpoint (handshake, then two round trips through the tunnel).

  The protocol itself is the library boringtun, the record \<open>boringtun\<close>. Each task of the tunnel
  works in iterations: one first uses the protocol state under its lock, which leaves a list of
  things to do (\<open>wt_todo\<close>), and then does these one by one while other tasks run, so that every
  interleaving of the tasks is a run of the model. Times are milliseconds.
\<close>

subsection \<open>Protocol library and settings\<close>

datatype tunn_result =
    TunnDone | TunnErr str | WriteToNetwork bytes | WriteToTunnelV4 bytes ipv4 | WriteToTunnelV6 bytes ipv6

record 't boringtun =
  tunn_new :: "bytes \<Rightarrow> bytes \<Rightarrow> bytes option \<Rightarrow> u16 option \<Rightarrow> 't"
  encapsulate :: "bytes \<Rightarrow> 't \<Rightarrow> tunn_result \<times> 't"
  decapsulate :: "bytes \<Rightarrow> 't \<Rightarrow> tunn_result \<times> 't"
  update_timers :: "'t \<Rightarrow> tunn_result \<times> 't"

definition TIMER_TICK :: nat where "TIMER_TICK = 250"
definition VERIFY_RETRY_DELAYS :: "nat list" where "VERIFY_RETRY_DELAYS = [750, 2000]"
definition WG_MSG_TYPE_MIN :: u8 where "WG_MSG_TYPE_MIN = 1"
definition WG_MSG_TYPE_MAX :: u8 where "WG_MSG_TYPE_MAX = 4"
definition MAX_TRANSIENT_RECV_ERRORS :: nat where "MAX_TRANSIENT_RECV_ERRORS = 64"
definition TRANSIENT_RECV_BACKOFF :: nat where "TRANSIENT_RECV_BACKOFF = 50"
definition DATAPLANE_REQUIRED_SUCCESSES :: nat where "DATAPLANE_REQUIRED_SUCCESSES = 2"
definition DATAPLANE_PROBE_GAP :: nat where "DATAPLANE_PROBE_GAP = 600"

definition is_transient_socket_error :: "io_error \<Rightarrow> bool" where
  "is_transient_socket_error e \<longleftrightarrow>
     io_kind e \<in> {ConnectionRefused, ConnectionReset, ConnectionAborted, HostUnreachable, NetworkUnreachable,
       Interrupted, WouldBlock, TimedOut}"

definition wg_stale_timeout :: "(str \<Rightarrow> str option) \<Rightarrow> nat" where
  "wg_stale_timeout env =
     1000 * (case Option.bind (env (lit ''AETHER_WG_STALE_SECS'')) (parse_uint 64) of
               Some v \<Rightarrow> if 0 < v then v else 10
             | None \<Rightarrow> 10)"

subsection \<open>The client identifier\<close>

text \<open>Both routines write three bytes into a slice; packets that are not WireGuard messages stay as they are.\<close>

definition set_reserved :: "bytes \<Rightarrow> bytes \<Rightarrow> bytes" where
  "set_reserved r pkt =
     (if length pkt < 4 then pkt
      else if pkt ! 0 < WG_MSG_TYPE_MIN \<or> pkt ! 0 > WG_MSG_TYPE_MAX then pkt
      else take 1 pkt @ r @ drop 4 pkt)"

type_synonym client_id = "u8 \<times> u8 \<times> u8"

definition id_bytes :: "client_id \<Rightarrow> bytes" where
  "id_bytes cid = (case cid of (a, b, c) \<Rightarrow> [a, b, c])"

definition inject_client_id :: "client_id \<Rightarrow> bytes \<Rightarrow> bytes" where
  "inject_client_id cid pkt = set_reserved (id_bytes cid) pkt"

definition strip_client_id :: "bytes \<Rightarrow> bytes" where
  "strip_client_id pkt = set_reserved [0, 0, 0] pkt"

subsection \<open>The data-plane probe\<close>

definition wg_dns_query :: "bytes rand" where
  "wg_dns_query = rand_bind answer (\<lambda>qid. rand_return
     (be_enc 2 qid @ [0x01, 0x00] @ [0x00, 0x01] @ [0x00, 0x00, 0x00, 0x00, 0x00, 0x00]
      @ concat (map (\<lambda>label. word_of_nat (str_len label) # utf8_encode label) [lit ''cloudflare'', lit ''com''])
      @ [0x00] @ [0x00, 0x01] @ [0x00, 0x01]))"

function wg_sum :: "bytes \<Rightarrow> nat \<Rightarrow> u32 \<Rightarrow> u32" where
  "wg_sum header i acc =
     (if i + 1 < length header then wg_sum header (i + 2) (acc + ucast (from_be16 (header ! i) (header ! (i + 1))))
      else if i < length header then acc + push_bit 8 (ucast (header ! i))
      else acc)"
  by pat_completeness auto
termination
  by (relation "measure (\<lambda>(header, i, acc). length header - i)") auto

declare wg_sum.simps [simp del]

definition ipv4_checksum :: "bytes \<Rightarrow> u16" where
  "ipv4_checksum header = NOT (ucast (fold_carry (wg_sum header 0 0)))"

definition build_dataplane_probe :: "ipv4 \<Rightarrow> bytes rand" where
  "build_dataplane_probe src =
     rand_bind wg_dns_query (\<lambda>dns. rand_bind answer (\<lambda>ip_id. rand_bind (random_range 20000 59999) (\<lambda>sport.
     let udp_len = 8 + length dns;
         total_len = 20 + udp_len;
         pkt = [0x45, 0x00] @ to_be16 (word_of_nat total_len) @ be_enc 2 ip_id @ [0x00, 0x00] @ [64, 17]
               @ [0x00, 0x00] @ octets4 src @ [8, 8, 8, 8];
         csum = ipv4_checksum (take 20 pkt);
         pkt = take 10 pkt @ to_be16 csum @ drop 12 pkt
     in rand_return (pkt @ be_enc 2 sport @ to_be16 53 @ to_be16 (word_of_nat udp_len) @ [0x00, 0x00] @ dns))))"

subsection \<open>A running tunnel\<close>

datatype wg_task = RecvTask | SendTask | TimerTask | HealthTask

datatype wg_action = WgSend bytes | WgNoise noise_event | WgInbound bytes | WgSleep nat

record 't wg_env =
  we_bt :: "'t boringtun"
  we_cps :: cps_lib
  we_noise :: aether_noize_config
  we_client_id :: client_id
  we_stale_timeout :: nat
  we_probe :: bytes

record 't wg_tunnel =
  wt_tunn :: 't
  wt_last_valid_rx :: nat
  wt_obf_sent :: bool
  wt_transient_errors :: nat
  wt_post_hs_junk_sent :: bool
  wt_todo :: "wg_task \<Rightarrow> wg_action list"
  wt_trace :: "wg_action list"

definition wg_start :: "'t \<Rightarrow> bool \<Rightarrow> nat \<Rightarrow> 't wg_tunnel" where
  "wg_start t obf_sent now =
     \<lparr>wt_tunn = t, wt_last_valid_rx = now, wt_obf_sent = obf_sent, wt_transient_errors = 0, wt_post_hs_junk_sent = False,
      wt_todo = (\<lambda>_. []), wt_trace = []\<rparr>"

definition wg_new :: "'t wg_env \<Rightarrow> bytes \<Rightarrow> bytes \<Rightarrow> bytes option \<Rightarrow> u16 option \<Rightarrow> nat \<Rightarrow> 't wg_tunnel" where
  "wg_new E private_key peer_public preshared keepalive now =
     wg_start (tunn_new (we_bt E) private_key peer_public preshared keepalive) False now"

definition wg_from_established :: "'t \<Rightarrow> nat \<Rightarrow> 't wg_tunnel" where
  "wg_from_established t now = wg_start t True now"

definition add_todo :: "wg_task \<Rightarrow> wg_action list \<Rightarrow> 't wg_tunnel \<Rightarrow> 't wg_tunnel" where
  "add_todo task as st = st\<lparr>wt_todo := (wt_todo st)(task := as)\<rparr>"

text \<open>A received datagram; the second component is the packet the tunnel accepted, if it is one for the stack.\<close>

definition recv_datagram :: "'t wg_env \<Rightarrow> nat \<Rightarrow> bytes \<Rightarrow> 't wg_tunnel \<Rightarrow> 't wg_tunnel \<times> (nat \<times> bytes option) list" where
  "recv_datagram E now datagram st =
     (let st = st\<lparr>wt_transient_errors := 0\<rparr>;
          (r, t) = decapsulate (we_bt E) (strip_client_id datagram) (wt_tunn st);
          st = st\<lparr>wt_tunn := t\<rparr> in
      case r of
        TunnDone \<Rightarrow> (st\<lparr>wt_last_valid_rx := now\<rparr>, [(now, None)])
      | TunnErr _ \<Rightarrow> (st, [])
      | WriteToNetwork pkt \<Rightarrow>
          (add_todo RecvTask [WgSend (inject_client_id (we_client_id E) pkt)] (st\<lparr>wt_last_valid_rx := now\<rparr>), [(now, None)])
      | WriteToTunnelV4 pkt _ \<Rightarrow> (add_todo RecvTask [WgInbound pkt] (st\<lparr>wt_last_valid_rx := now\<rparr>), [(now, Some pkt)])
      | WriteToTunnelV6 pkt _ \<Rightarrow> (add_todo RecvTask [WgInbound pkt] (st\<lparr>wt_last_valid_rx := now\<rparr>), [(now, Some pkt)]))"

text \<open>A failed receive; \<^term>\<open>None\<close> when the task ends.\<close>

definition recv_error :: "io_error \<Rightarrow> 't wg_tunnel \<Rightarrow> 't wg_tunnel option" where
  "recv_error e st =
     (if is_transient_socket_error e then
        (let n = wt_transient_errors st + 1 in
         if MAX_TRANSIENT_RECV_ERRORS < n then None
         else Some (add_todo RecvTask [WgSleep TRANSIENT_RECV_BACKOFF] (st\<lparr>wt_transient_errors := n\<rparr>)))
      else None)"

definition send_packet :: "'t wg_env \<Rightarrow> bytes \<Rightarrow> 't wg_tunnel \<Rightarrow> 't wg_tunnel rand" where
  "send_packet E ip_packet st =
     (let (r, t) = encapsulate (we_bt E) ip_packet (wt_tunn st); st = st\<lparr>wt_tunn := t\<rparr> in
      case r of
        WriteToNetwork pkt \<Rightarrow>
          (let obfuscate = (\<not> wt_obf_sent st \<and> an_is_enabled (we_noise E));
               post = (an_jc_after_hs (we_noise E) > 0 \<and> \<not> wt_post_hs_junk_sent st) in
           rand_bind (if obfuscate then apply_obfuscation (we_cps E) (we_noise E) else rand_return []) (\<lambda>before.
           rand_bind (if post then send_post_handshake_junk (we_noise E) else rand_return []) (\<lambda>after.
           rand_return (add_todo SendTask
             (map WgNoise before @ WgSend (inject_client_id (we_client_id E) pkt) # map WgNoise after)
             (st\<lparr>wt_obf_sent := wt_obf_sent st \<or> obfuscate, wt_post_hs_junk_sent := wt_post_hs_junk_sent st \<or> post\<rparr>)))))
      | _ \<Rightarrow> rand_return st)"

definition timer_tick :: "'t wg_env \<Rightarrow> 't wg_tunnel \<Rightarrow> 't wg_tunnel rand" where
  "timer_tick E st =
     (let (r, t) = update_timers (we_bt E) (wt_tunn st); st = st\<lparr>wt_tunn := t\<rparr> in
      case r of
        WriteToNetwork pkt \<Rightarrow>
          rand_bind (if an_is_enabled (we_noise E) then send_keepalive_junk (we_noise E) else rand_return []) (\<lambda>junk.
          rand_return (add_todo TimerTask (map WgNoise junk @ [WgSend (inject_client_id (we_client_id E) pkt)]) st))
      | _ \<Rightarrow> rand_return st)"

text \<open>The health check: the error that ends the tunnel, or the state with a probe to send.\<close>

definition health_tick :: "'t wg_env \<Rightarrow> nat \<Rightarrow> 't wg_tunnel \<Rightarrow> 't wg_tunnel result" where
  "health_tick E now st =
     (if we_stale_timeout E \<le> now - wt_last_valid_rx st
      then Inl (Other (lit ''wireguard tunnel stale: no valid data from peer''))
      else let (r, t) = encapsulate (we_bt E) (we_probe E) (wt_tunn st); st = st\<lparr>wt_tunn := t\<rparr> in
        Inr (case r of
               WriteToNetwork pkt \<Rightarrow> add_todo HealthTask [WgSend (inject_client_id (we_client_id E) pkt)] st
             | _ \<Rightarrow> st))"

text \<open>
  Steps of the tasks, with the datagrams accepted in each (the time, and the packet for the stack);
  a task starts an iteration when it has nothing left to do. The tunnel ends when one of its tasks does.
\<close>

inductive wg_step :: "'t wg_env \<Rightarrow> 't wg_tunnel \<Rightarrow> (nat \<times> bytes option) list \<Rightarrow> 't wg_tunnel \<Rightarrow> bool"
  for E :: "'t wg_env" where
  recv: "wt_todo st RecvTask = [] \<Longrightarrow> recv_datagram E now datagram st = (st', ls) \<Longrightarrow> wg_step E st ls st'"
| fail: "wt_todo st RecvTask = [] \<Longrightarrow> recv_error e st = Some st' \<Longrightarrow> wg_step E st [] st'"
| send: "wt_todo st SendTask = [] \<Longrightarrow> send_packet E pkt st s = Ret (st', s') \<Longrightarrow> wg_step E st [] st'"
| timer: "wt_todo st TimerTask = [] \<Longrightarrow> timer_tick E st s = Ret (st', s') \<Longrightarrow> wg_step E st [] st'"
| health: "wt_todo st HealthTask = [] \<Longrightarrow> health_tick E now st = Inr st' \<Longrightarrow> wg_step E st [] st'"
| act: "wt_todo st task = a # rest \<Longrightarrow>
    wg_step E st [] (st\<lparr>wt_todo := (wt_todo st)(task := rest), wt_trace := wt_trace st @ [a]\<rparr>)"

inductive wg_run :: "'t wg_env \<Rightarrow> 't wg_tunnel \<Rightarrow> (nat \<times> bytes option) list \<Rightarrow> 't wg_tunnel \<Rightarrow> bool"
  for E :: "'t wg_env" where
  refl: "wg_run E st [] st"
| step: "wg_run E st ls st1 \<Longrightarrow> wg_step E st1 ks st2 \<Longrightarrow> wg_run E st (ls @ ks) st2"

inductive wg_exit :: "'t wg_env \<Rightarrow> 't wg_tunnel \<Rightarrow> unit result \<Rightarrow> bool"
  for E :: "'t wg_env" where
  recv_ends: "wt_todo st RecvTask = [] \<Longrightarrow> recv_error e st = None \<Longrightarrow> wg_exit E st (Inr ())"
| outbound_closed: "wt_todo st SendTask = [] \<Longrightarrow> wg_exit E st (Inr ())"
| stale: "wt_todo st HealthTask = [] \<Longrightarrow> health_tick E now st = Inl e \<Longrightarrow> wg_exit E st (Inl e)"

subsection \<open>Verifying an endpoint\<close>

text \<open>
  The socket answers each send with an error or not (\<open>vs_sends\<close>). Beside the protocol state, the
  record keeps the messages sent, the noise, whether the handshake was accepted and the packets that
  came back through the tunnel.
\<close>

record 't verify_state =
  vs_tunn :: 't
  vs_sends :: "io_error option stream"
  vs_wire :: "bytes list"
  vs_noise :: "noise_event list"
  vs_handshake :: bool
  vs_plain :: "bytes list"

definition sock_send :: "bytes \<Rightarrow> 't verify_state \<Rightarrow> unit result \<times> 't verify_state" where
  "sock_send pkt st =
     (case shd (vs_sends st) of None \<Rightarrow> Inr () | Some e \<Rightarrow> Inl (Io e),
      st\<lparr>vs_sends := stl (vs_sends st), vs_wire := vs_wire st @ [pkt]\<rparr>)"

definition send_dataplane_probe :: "'t wg_env \<Rightarrow> bytes \<Rightarrow> 't verify_state \<Rightarrow> unit result \<times> 't verify_state" where
  "send_dataplane_probe E probe st =
     (let (r, t) = encapsulate (we_bt E) probe (vs_tunn st); st = st\<lparr>vs_tunn := t\<rparr> in
      case r of
        WriteToNetwork pkt \<Rightarrow> sock_send (inject_client_id (we_client_id E) pkt) st
      | TunnErr e \<Rightarrow> (Inl (Other (lit ''dataplane encap: '' @ e)), st)
      | _ \<Rightarrow> (Inr (), st))"

datatype dp_select = DpRecv bytes nat | DpFail io_error | DpSleep

text \<open>
  An iteration of \<open>verify_dataplane\<close>: the time it starts, and what its \<open>select!\<close> yields (a datagram with
  the time after it was processed, an error, or the end of the wait). It ends the loop with a result, or
  leaves the number of successes, the time of the last probe, the time of the next and the state.
\<close>

definition dp_accept ::
  "'t wg_env \<Rightarrow> bytes \<Rightarrow> nat \<Rightarrow> nat \<Rightarrow> nat \<Rightarrow> nat \<Rightarrow> bytes \<Rightarrow> 't verify_state
    \<Rightarrow> (nat result \<times> 't verify_state) + (nat \<times> nat \<times> nat \<times> 't verify_state)" where
  "dp_accept E probe start after successes last_probe pkt st =
     (let st = st\<lparr>vs_plain := vs_plain st @ [pkt]\<rparr>; successes = successes + 1 in
      if DATAPLANE_REQUIRED_SUCCESSES \<le> successes then Inl (Inr (after - start), st)
      else let next_at = max after (last_probe + DATAPLANE_PROBE_GAP) in
        Inr (successes, next_at, next_at + 700, snd (send_dataplane_probe E probe st)))"

definition dp_resend :: "'t wg_env \<Rightarrow> bytes \<Rightarrow> nat \<Rightarrow> nat \<times> nat \<times> 't verify_state \<Rightarrow> nat \<times> nat \<times> 't verify_state" where
  "dp_resend E probe now x =
     (case x of (last_probe, resend, st) \<Rightarrow>
        if resend \<le> now then (now, now + 700, snd (send_dataplane_probe E probe st)) else x)"

definition dataplane_step ::
  "'t wg_env \<Rightarrow> bytes \<Rightarrow> nat \<Rightarrow> nat \<Rightarrow> nat \<times> dp_select \<Rightarrow> nat \<times> nat \<times> nat \<times> 't verify_state
    \<Rightarrow> (nat result \<times> 't verify_state) + (nat \<times> nat \<times> nat \<times> 't verify_state)" where
  "dataplane_step E probe start deadline ev x =
     (case (ev, x) of ((now, sel), (successes, timing)) \<Rightarrow>
      if deadline \<le> now then Inl (Inl (Other (lit ''dataplane timeout'')), snd (snd timing))
      else
        let (last_probe, resend, st) = dp_resend E probe now timing in
        case sel of
          DpRecv datagram after \<Rightarrow>
            (let (r, t) = decapsulate (we_bt E) (strip_client_id datagram) (vs_tunn st); st = st\<lparr>vs_tunn := t\<rparr> in
             case r of
               WriteToTunnelV4 pkt _ \<Rightarrow> dp_accept E probe start after successes last_probe pkt st
             | WriteToTunnelV6 pkt _ \<Rightarrow> dp_accept E probe start after successes last_probe pkt st
             | WriteToNetwork pkt \<Rightarrow>
                 Inr (successes, last_probe, resend, snd (sock_send (inject_client_id (we_client_id E) pkt) st))
             | _ \<Rightarrow> Inr (successes, last_probe, resend, st))
        | DpFail e \<Rightarrow> Inl (Inl (Io e), st)
        | DpSleep \<Rightarrow> Inr (successes, last_probe, resend, st))"

fun dataplane_loop ::
  "'t wg_env \<Rightarrow> bytes \<Rightarrow> nat \<Rightarrow> nat \<Rightarrow> (nat \<times> dp_select) list \<Rightarrow> nat \<times> nat \<times> nat \<times> 't verify_state
    \<Rightarrow> (nat result \<times> 't verify_state) option" where
  "dataplane_loop E probe start deadline [] x = None"
| "dataplane_loop E probe start deadline (ev # evs) x =
     (case dataplane_step E probe start deadline ev x of
        Inl r \<Rightarrow> Some r
      | Inr x \<Rightarrow> dataplane_loop E probe start deadline evs x)"

definition verify_dataplane ::
  "'t wg_env \<Rightarrow> bytes \<Rightarrow> nat \<Rightarrow> nat \<Rightarrow> nat \<Rightarrow> (nat \<times> dp_select) list \<Rightarrow> 't verify_state
    \<Rightarrow> (nat result \<times> 't verify_state) option" where
  "verify_dataplane E probe start deadline now evs st =
     (case send_dataplane_probe E probe st of
        (Inl e, st) \<Rightarrow> Some (Inl e, st)
      | (Inr _, st) \<Rightarrow> dataplane_loop E probe start deadline evs (0, now, now + 700, st))"

datatype hs_select = HsRecv bytes nat | HsFail io_error | HsTick nat | HsSleep

text \<open>A tick of the timer: the first message again after each retry delay, then the timers of the protocol.\<close>

definition handshake_tick ::
  "'t wg_env \<Rightarrow> bytes \<Rightarrow> nat \<Rightarrow> nat \<Rightarrow> nat \<Rightarrow> 't verify_state \<Rightarrow> unit result \<times> nat \<times> 't verify_state" where
  "handshake_tick E init_packet start now retry st =
     (let again = retry < length VERIFY_RETRY_DELAYS \<and> VERIFY_RETRY_DELAYS ! retry \<le> now - start;
          retry = (if again then retry + 1 else retry);
          (sent, st) = (if again then sock_send init_packet st else (Inr (), st)) in
      case sent of
        Inl e \<Rightarrow> (Inl e, retry, st)
      | Inr _ \<Rightarrow>
          (let (r, t) = update_timers (we_bt E) (vs_tunn st); st = st\<lparr>vs_tunn := t\<rparr> in
           case r of
             WriteToNetwork pkt \<Rightarrow>
               (let (sent, st) = sock_send (inject_client_id (we_client_id E) pkt) st in (sent, retry, st))
           | TunnErr e \<Rightarrow> (Inl (Other (lit ''wireguard timer failed: '' @ e)), retry, st)
           | _ \<Rightarrow> (Inr (), retry, st)))"

definition handshake_step ::
  "'t wg_env \<Rightarrow> bytes \<Rightarrow> nat \<Rightarrow> nat \<Rightarrow> nat \<times> hs_select \<Rightarrow> nat \<times> 't verify_state
    \<Rightarrow> (nat result \<times> 't verify_state) + (nat \<times> 't verify_state)" where
  "handshake_step E init_packet start deadline ev x =
     (case (ev, x) of ((now, sel), (retry, st)) \<Rightarrow>
      if deadline \<le> now then Inl (Inl (Other (lit ''verify timeout'')), st)
      else case sel of
        HsRecv datagram after \<Rightarrow>
          (let (r, t) = decapsulate (we_bt E) (strip_client_id datagram) (vs_tunn st); st = st\<lparr>vs_tunn := t\<rparr> in
           case r of
             TunnDone \<Rightarrow> Inl (Inr (after - start), st\<lparr>vs_handshake := True\<rparr>)
           | WriteToNetwork pkt \<Rightarrow>
               (let (sent, st) = sock_send (inject_client_id (we_client_id E) pkt) st in
                case sent of
                  Inl e \<Rightarrow> Inl (Inl e, st)
                | Inr _ \<Rightarrow> Inl (Inr (after - start), st\<lparr>vs_handshake := True\<rparr>))
           | _ \<Rightarrow> Inr (retry, st))
      | HsFail e \<Rightarrow> Inl (Inl (Io e), st)
      | HsTick at \<Rightarrow>
          (let (done, retry, st) = handshake_tick E init_packet start at retry st in
           case done of Inl e \<Rightarrow> Inl (Inl e, st) | Inr _ \<Rightarrow> Inr (retry, st))
      | HsSleep \<Rightarrow> Inl (Inl (Other (lit ''verify timeout'')), st))"

fun handshake_loop ::
  "'t wg_env \<Rightarrow> bytes \<Rightarrow> nat \<Rightarrow> nat \<Rightarrow> (nat \<times> hs_select) list \<Rightarrow> nat \<times> 't verify_state
    \<Rightarrow> (nat result \<times> 't verify_state) option" where
  "handshake_loop E init_packet start deadline [] x = None"
| "handshake_loop E init_packet start deadline (ev # evs) x =
     (case handshake_step E init_packet start deadline ev x of
        Inl r \<Rightarrow> Some r
      | Inr x \<Rightarrow> handshake_loop E init_packet start deadline evs x)"

text \<open>The first message, with its error; then the handshake and, unless it is switched off, the data-plane check.\<close>

definition send_init :: "'t wg_env \<Rightarrow> 't verify_state \<Rightarrow> bytes result \<times> 't verify_state" where
  "send_init E st =
     (let (r, t) = encapsulate (we_bt E) [] (vs_tunn st); st = st\<lparr>vs_tunn := t\<rparr> in
      case r of
        WriteToNetwork pkt \<Rightarrow>
          (let init_packet = inject_client_id (we_client_id E) pkt in
           case sock_send init_packet st of
             (Inl e, st) \<Rightarrow> (Inl e, st)
           | (Inr _, st) \<Rightarrow> (Inr init_packet, st))
      | _ \<Rightarrow> (Inl (Other (lit ''handshake init failed'')), st))"

definition verify_exchange ::
  "'t wg_env \<Rightarrow> bool \<Rightarrow> ipv4 \<Rightarrow> nat \<Rightarrow> nat \<Rightarrow> (nat \<times> hs_select) list \<Rightarrow> nat \<Rightarrow> (nat \<times> dp_select) list \<Rightarrow> 't verify_state
    \<Rightarrow> (nat result \<times> 't verify_state) option rand" where
  "verify_exchange E data_check local_ipv4 start deadline evs dp_start dp_evs st =
     (case send_init E st of
        (Inl e, st) \<Rightarrow> rand_return (Some (Inl e, st))
      | (Inr init_packet, st) \<Rightarrow>
          (case handshake_loop E init_packet start deadline evs (0, st) of
             Some (Inr elapsed, st) \<Rightarrow>
               if data_check then
                 rand_bind (build_dataplane_probe local_ipv4) (\<lambda>probe.
                 rand_return (verify_dataplane E probe start deadline dp_start dp_evs st))
               else rand_return (Some (Inr elapsed, st))
           | other \<Rightarrow> rand_return other))"

definition verify_noise :: "'t wg_env \<Rightarrow> noise_event list rand" where
  "verify_noise E = (if an_is_enabled (we_noise E) then apply_obfuscation (we_cps E) (we_noise E) else rand_return [])"

definition verify_endpoint_keep_session ::
  "'t wg_env \<Rightarrow> (str \<Rightarrow> str option) \<Rightarrow> unit result \<Rightarrow> bytes \<Rightarrow> bytes \<Rightarrow> ipv4 \<Rightarrow> nat \<Rightarrow> nat \<Rightarrow> u16 option \<Rightarrow> io_error option stream
    \<Rightarrow> (nat \<times> hs_select) list \<Rightarrow> nat \<Rightarrow> (nat \<times> dp_select) list \<Rightarrow> (nat result \<times> 't verify_state) option rand" where
  "verify_endpoint_keep_session E env bound private_key peer_public local_ipv4 start timeout keepalive outcomes evs dp_start dp_evs =
     (let data_check = (env (lit ''AETHER_WG_NO_DATA_CHECK'') = None);
          t = tunn_new (we_bt E) private_key peer_public None (Some (case keepalive of Some k \<Rightarrow> k | None \<Rightarrow> 25));
          st = \<lparr>vs_tunn = t, vs_sends = outcomes, vs_wire = [], vs_noise = [], vs_handshake = False, vs_plain = []\<rparr> in
      case bound of
        Inl e \<Rightarrow> rand_return (Some (Inl e, st))
      | Inr _ \<Rightarrow>
          rand_bind (verify_noise E) (\<lambda>noise.
          verify_exchange E data_check local_ipv4 start (start + timeout) evs dp_start dp_evs (st\<lparr>vs_noise := noise\<rparr>)))"

definition verify_endpoint :: "(nat result \<times> 't verify_state) option \<Rightarrow> nat result option" where
  "verify_endpoint r = map_option fst r"

inductive_cases wg_step_cases: "wg_step E st ls st'"


subsection \<open>The client identifier: facts\<close>

text \<open>A WireGuard message that carries the identifier; anything else is free.\<close>

definition tagged :: "client_id \<Rightarrow> bytes \<Rightarrow> bool" where
  "tagged cid p \<longleftrightarrow> (4 \<le> length p \<and> 1 \<le> p ! 0 \<and> p ! 0 \<le> 4 \<longrightarrow> take 3 (drop 1 p) = id_bytes cid)"

lemma length_id_bytes [simp]: "length (id_bytes cid) = 3"
  by (simp add: id_bytes_def case_prod_beta)

lemma set_reserved_same: "length r = 3 \<Longrightarrow> length (set_reserved r p) = length p" "set_reserved r p ! 0 = p ! 0 \<or> length p < 1"
  by (auto simp: set_reserved_def nth_append)

lemma inject_tagged [simp]: "tagged cid (inject_client_id cid p)"
  by (auto simp: tagged_def inject_client_id_def set_reserved_def WG_MSG_TYPE_MIN_def WG_MSG_TYPE_MAX_def nth_append)

lemma set_reserved_twice: "length r = 3 \<Longrightarrow> set_reserved q (set_reserved r p) = set_reserved q p"
  by (cases p) (auto simp: set_reserved_def)

text \<open>A peer that echoes the identifier is understood: removing it gives back the message with reserved bytes 0.\<close>

lemma strip_inject: "strip_client_id (inject_client_id cid p) = strip_client_id p"
  by (simp add: strip_client_id_def inject_client_id_def set_reserved_twice)

lemma strip_zero: "take 3 (drop 1 p) = [0, 0, 0] \<Longrightarrow> strip_client_id p = p"
proof -
  assume z: "take 3 (drop 1 p) = [0, 0, 0]"
  have "p = take 1 p @ take 3 (drop 1 p) @ drop 4 p"
    using append_take_drop_id [of 1 p] append_take_drop_id [of 3 "drop 1 p"] by simp
  then show ?thesis unfolding strip_client_id_def set_reserved_def z by simp
qed

subsection \<open>The probe: facts\<close>

lemma wg_sum_words: "wg_sum header i acc = sum_words (drop i header) acc"
proof (induction header i acc rule: wg_sum.induct)
  case (1 header i acc)
  show ?case
  proof (cases "i + 1 < length header")
    case True
    then have "drop i header = header ! i # header ! (i + 1) # drop (i + 2) header"
      by (simp add: Cons_nth_drop_Suc)
    then show ?thesis using True 1 by (simp add: wg_sum.simps [of header i])
  next
    case False
    show ?thesis
    proof (cases "i < length header")
      case True
      then have "drop i header = [header ! i]" using False by (simp add: Cons_nth_drop_Suc [symmetric])
      then show ?thesis using True False by (simp add: wg_sum.simps [of header i])
    qed (use False in \<open>simp add: wg_sum.simps [of header i]\<close>)
  qed
qed

lemma ipv4_checksum_eq: "ipv4_checksum header = ipv4_header_checksum header"
  by (simp add: ipv4_checksum_def ipv4_header_checksum_def wg_sum_words)

lemma be_enc_to_be16: "be_enc 2 n = to_be16 (word_of_nat n)"
proof -
  have "unat (word_of_nat n :: u16) = n mod 65536" by (simp add: unat_of_nat)
  then have "be_dec (be_enc 2 n) = be_dec (to_be16 (word_of_nat n))"
    unfolding to_be16_def be_dec_be_enc by simp
  then show ?thesis using be_dec_inj [of "be_enc 2 n" "to_be16 (word_of_nat n)"] by simp
qed

text \<open>The probe is the packet of the MASQUE transport, for some random choices.\<close>

lemma build_dataplane_probe_eq:
  "always (\<lambda>p. \<exists>ip_id sport qid. p = build_dns_probe_packet src ip_id sport qid) (build_dataplane_probe src)"
proof -
  have dns: "always (\<lambda>d. \<exists>qid. d = probe_dns_query qid) wg_dns_query"
    unfolding wg_dns_query_def
    by (rule always_bind [OF always_answer [where P = "\<lambda>_. True"]]) (auto intro!: always_return simp: probe_dns_query_def be_enc_to_be16)
  show ?thesis
    unfolding build_dataplane_probe_def
    by (rule always_bind [OF dns], rule always_bind [OF always_answer [where P = "\<lambda>_. True"]], simp, rule always_bind [OF always_range])
      (auto intro!: always_return simp: build_dns_probe_packet_def be_enc_to_be16 ipv4_checksum_eq Let_def)
qed


subsection \<open>Runs of a tunnel: facts\<close>

definition action_ok :: "'t wg_env \<Rightarrow> wg_action \<Rightarrow> bool" where
  "action_ok E a = (case a of WgSend p \<Rightarrow> tagged (we_client_id E) p | _ \<Rightarrow> True)"

definition inbound :: "wg_action list \<Rightarrow> bytes list" where
  "inbound as = List.map_filter (\<lambda>a. case a of WgInbound p \<Rightarrow> Some p | _ \<Rightarrow> None) as"

lemma action_ok_simps [simp]:
  "action_ok E (WgSend p) \<longleftrightarrow> tagged (we_client_id E) p" "action_ok E (WgNoise e)" "action_ok E (WgInbound p)" "action_ok E (WgSleep n)"
  by (simp_all add: action_ok_def)

lemma inbound_simps [simp]:
  "inbound [] = []" "inbound (as @ bs) = inbound as @ inbound bs" "inbound (WgInbound p # as) = p # inbound as"
  "inbound (WgSend p # as) = inbound as" "inbound (WgNoise e # as) = inbound as" "inbound (WgSleep n # as) = inbound as"
  by (simp_all add: inbound_def List.map_filter_simps) (simp add: List.map_filter_def)

lemma noise_actions [simp]: "inbound (map WgNoise es) = []" "list_all (action_ok E) (map WgNoise es)"
  by (induction es) simp_all

definition wg_inv :: "'t wg_env \<Rightarrow> 't wg_tunnel \<Rightarrow> bool" where
  "wg_inv E st \<longleftrightarrow> list_all (action_ok E) (wt_trace st) \<and> (\<forall>task. list_all (action_ok E) (wt_todo st task))
     \<and> (\<forall>task. task \<noteq> RecvTask \<longrightarrow> inbound (wt_todo st task) = []) \<and> wt_transient_errors st \<le> MAX_TRANSIENT_RECV_ERRORS"

definition arrived :: "'t wg_tunnel \<Rightarrow> bytes list" where
  "arrived st = inbound (wt_trace st) @ inbound (wt_todo st RecvTask)"

lemma rand_bind_eq_Ret: "rand_bind m k s = Ret y \<longleftrightarrow> (\<exists>x s1. m s = Ret (x, s1) \<and> k x s1 = Ret y)"
  by (auto simp: rand_bind_def out_bind_def split: outcome.splits)

lemma rand_return_eq_Ret: "rand_return x s = Ret (y, s') \<longleftrightarrow> x = y \<and> s = s'"
  by (auto simp: rand_return_def)

text \<open>What each iteration other than a receive leaves to do.\<close>

definition todo_step :: "'t wg_env \<Rightarrow> wg_task \<Rightarrow> 't wg_tunnel \<Rightarrow> 't wg_tunnel \<Rightarrow> bool" where
  "todo_step E task st st' \<longleftrightarrow> wt_trace st' = wt_trace st \<and> wt_last_valid_rx st' = wt_last_valid_rx st
     \<and> wt_transient_errors st' \<le> max (wt_transient_errors st) MAX_TRANSIENT_RECV_ERRORS
     \<and> (\<exists>as. wt_todo st' = (wt_todo st)(task := as) \<and> list_all (action_ok E) as \<and> inbound as = [])"

lemma todo_step_same: "wt_todo st task = [] \<Longrightarrow> todo_step E task st (st\<lparr>wt_tunn := t\<rparr>)"
  by (auto simp: todo_step_def intro!: exI [of _ "[]"])

lemma send_packet_todo:
  assumes "send_packet E pkt st s = Ret (st', s')" "wt_todo st SendTask = []"
  shows "todo_step E SendTask st st'"
proof -
  obtain r t where e: "encapsulate (we_bt E) pkt (wt_tunn st) = (r, t)" by fastforce
  show ?thesis
    using assms e todo_step_same [OF assms(2), of E t]
    by (cases r) (auto simp: send_packet_def rand_bind_eq_Ret rand_return_eq_Ret todo_step_def add_todo_def Let_def)
qed

lemma timer_tick_todo:
  assumes "timer_tick E st s = Ret (st', s')" "wt_todo st TimerTask = []"
  shows "todo_step E TimerTask st st'"
proof -
  obtain r t where e: "update_timers (we_bt E) (wt_tunn st) = (r, t)" by fastforce
  show ?thesis
    using assms e todo_step_same [OF assms(2), of E t]
    by (cases r) (auto simp: timer_tick_def rand_bind_eq_Ret rand_return_eq_Ret todo_step_def add_todo_def)
qed

lemma health_tick_todo:
  assumes "health_tick E now st = Inr st'" "wt_todo st HealthTask = []"
  shows "todo_step E HealthTask st st'"
proof -
  obtain r t where e: "encapsulate (we_bt E) (we_probe E) (wt_tunn st) = (r, t)" by fastforce
  show ?thesis
    using assms e todo_step_same [OF assms(2), of E t]
    by (cases r) (auto simp: health_tick_def todo_step_def add_todo_def split: if_splits)
qed

lemma recv_error_todo:
  assumes "recv_error e st = Some st'" "wt_todo st RecvTask = []"
  shows "todo_step E RecvTask st st'"
  using assms by (auto simp: recv_error_def todo_step_def add_todo_def Let_def split: if_splits)

text \<open>The effect of a step: the invariant, the packets for the stack and the time of the last valid datagram.\<close>

definition wg_effect :: "'t wg_env \<Rightarrow> 't wg_tunnel \<Rightarrow> (nat \<times> bytes option) list \<Rightarrow> 't wg_tunnel \<Rightarrow> bool" where
  "wg_effect E st ls st' \<longleftrightarrow> wg_inv E st' \<and> arrived st' = arrived st @ List.map_filter snd ls
     \<and> wt_last_valid_rx st' = last (wt_last_valid_rx st # map fst ls)"

lemma todo_step_effect:
  assumes "todo_step E task st st'" "wt_todo st task = []" "wg_inv E st"
  shows "wg_effect E st [] st'"
  using assms by (auto simp: todo_step_def wg_effect_def wg_inv_def arrived_def List.map_filter_def)

lemma recv_datagram_effect:
  assumes "recv_datagram E now d st = (st', ls)" "wt_todo st RecvTask = []" "wg_inv E st"
  shows "wg_effect E st ls st'"
proof -
  obtain r t where e: "decapsulate (we_bt E) (strip_client_id d) (wt_tunn st) = (r, t)" by fastforce
  show ?thesis
    using assms e
    by (cases r) (auto simp: recv_datagram_def wg_effect_def wg_inv_def arrived_def add_todo_def List.map_filter_def)
qed

lemma act_effect:
  assumes "wt_todo st task = a # rest" "wg_inv E st"
  shows "wg_effect E st [] (st\<lparr>wt_todo := (wt_todo st)(task := rest), wt_trace := wt_trace st @ [a]\<rparr>)"
proof -
  have ok: "action_ok E a" "list_all (action_ok E) rest" using assms by (auto simp: wg_inv_def dest: spec [of _ task])
  have other: "task \<noteq> RecvTask \<Longrightarrow> inbound [a] = [] \<and> inbound rest = []"
  proof -
    assume "task \<noteq> RecvTask"
    then have "inbound (a # rest) = []" using assms unfolding wg_inv_def by metis
    then show ?thesis by (cases a) simp_all
  qed
  have "inbound (wt_trace st) @ inbound [a] @ inbound ((if task = RecvTask then rest else wt_todo st RecvTask)) = arrived st"
  proof (cases "task = RecvTask")
    case True
    then show ?thesis using assms(1) inbound_simps(2) [of "[a]" rest] by (simp add: arrived_def)
  qed (use other in \<open>simp add: arrived_def\<close>)
  then show ?thesis
    using assms(2) ok other
    by (auto simp: wg_effect_def wg_inv_def arrived_def List.map_filter_def simp del: inbound_simps(3-6))
qed

lemma wg_step_effect:
  assumes "wg_step E st ls st'" "wg_inv E st"
  shows "wg_effect E st ls st'"
  using assms(1)
proof cases
  case (recv now datagram)
  then show ?thesis using recv_datagram_effect assms(2) by blast
next
  case (fail e)
  then show ?thesis using recv_error_todo todo_step_effect assms(2) by blast
next
  case (send pkt s s')
  then show ?thesis using send_packet_todo todo_step_effect assms(2) by blast
next
  case (timer s s')
  then show ?thesis using timer_tick_todo todo_step_effect assms(2) by blast
next
  case (health now)
  then show ?thesis using health_tick_todo todo_step_effect assms(2) by blast
next
  case (act task a rest)
  then show ?thesis using act_effect assms(2) by blast
qed

lemma wg_run_effect:
  assumes "wg_run E st ls st'" "wg_inv E st"
  shows "wg_effect E st ls st'"
  using assms
proof (induction rule: wg_run.induct)
  case (refl st)
  then show ?case by (simp add: wg_effect_def List.map_filter_def)
next
  case (step st ls st1 ks st2)
  have one: "wg_effect E st ls st1" using step by blast
  then have "wg_inv E st1" by (simp add: wg_effect_def)
  with step.hyps(2) have two: "wg_effect E st1 ks st2" by (rule wg_step_effect)
  have "last (last (x # map fst ls) # map fst ks) = last (x # map fst (ls @ ks))" for x :: nat
    by (cases "ks = []") (auto simp: last_append)
  then show ?case using one two by (simp add: wg_effect_def List.map_filter_def)
qed

lemma wg_start_inv: "wg_inv E (wg_start t b now)"
  by (simp add: wg_inv_def wg_start_def)


subsection \<open>Verification: facts\<close>

definition wire_ok :: "'t wg_env \<Rightarrow> 't verify_state \<Rightarrow> bool" where
  "wire_ok E st \<longleftrightarrow> list_all (tagged (we_client_id E)) (vs_wire st)"

text \<open>What no send changes.\<close>

definition verify_view :: "'t verify_state \<Rightarrow> noise_event list \<times> bool \<times> bytes list" where
  "verify_view st = (vs_noise st, vs_handshake st, vs_plain st)"

lemma verify_view_upd [simp]:
  "verify_view (st\<lparr>vs_tunn := t\<rparr>) = verify_view st" "wire_ok E (st\<lparr>vs_tunn := t\<rparr>) = wire_ok E st"
  "wire_ok E (st\<lparr>vs_plain := ps\<rparr>) = wire_ok E st" "wire_ok E (st\<lparr>vs_handshake := b\<rparr>) = wire_ok E st"
  by (simp_all add: verify_view_def wire_ok_def)

lemma sock_send_view: "verify_view (snd (sock_send p st)) = verify_view st"
  by (simp add: sock_send_def verify_view_def)

lemma sock_send_wire: "wire_ok E st \<Longrightarrow> tagged (we_client_id E) p \<Longrightarrow> wire_ok E (snd (sock_send p st))"
  by (simp add: sock_send_def wire_ok_def)

lemma probe_send:
  "verify_view (snd (send_dataplane_probe E probe st)) = verify_view st"
  "wire_ok E st \<Longrightarrow> wire_ok E (snd (send_dataplane_probe E probe st))"
  by (auto simp: send_dataplane_probe_def case_prod_beta Let_def sock_send_view sock_send_wire split: tunn_result.split)

definition dp_result :: "'t wg_env \<Rightarrow> 't verify_state \<Rightarrow> nat result \<times> 't verify_state \<Rightarrow> bool" where
  "dp_result E st res = (case res of (r, st') \<Rightarrow> wire_ok E st' \<and> vs_handshake st' = vs_handshake st
     \<and> vs_noise st' = vs_noise st \<and> (case r of Inr _ \<Rightarrow> length (vs_plain st') = DATAPLANE_REQUIRED_SUCCESSES | Inl _ \<Rightarrow> True))"

definition dp_going :: "'t wg_env \<Rightarrow> 't verify_state \<Rightarrow> nat \<times> nat \<times> nat \<times> 't verify_state \<Rightarrow> bool" where
  "dp_going E st x = (case x of (successes, _, _, st') \<Rightarrow> wire_ok E st' \<and> vs_handshake st' = vs_handshake st
     \<and> vs_noise st' = vs_noise st \<and> length (vs_plain st') = successes \<and> successes < DATAPLANE_REQUIRED_SUCCESSES)"

lemma dp_accept_sound:
  assumes "dp_going E st (successes, last_probe, resend, st1)"
  shows "case dp_accept E probe start after successes last_probe pkt st1 of Inl r \<Rightarrow> dp_result E st r | Inr x \<Rightarrow> dp_going E st x"
proof -
  let ?st2 = "st1\<lparr>vs_plain := vs_plain st1 @ [pkt]\<rparr>"
  have "verify_view (snd (send_dataplane_probe E probe ?st2)) = verify_view ?st2" "wire_ok E (snd (send_dataplane_probe E probe ?st2))"
    using probe_send(1) [of E probe ?st2] probe_send(2) [of E ?st2 probe] assms by (simp_all add: dp_going_def)
  then show ?thesis
    using assms by (auto simp: dp_accept_def dp_going_def dp_result_def verify_view_def Let_def)
qed

lemma dp_resend_sound:
  assumes "dp_going E st (successes, timing)"
  shows "dp_going E st (successes, dp_resend E probe now timing)"
proof -
  obtain l r st1 where t: "timing = (l, r, st1)" by (metis prod.exhaust)
  show ?thesis
    using assms probe_send(1) [of E probe st1] probe_send(2) [of E st1 probe]
    by (simp add: t dp_resend_def dp_going_def verify_view_def)
qed

lemma dataplane_step_sound:
  assumes "dp_going E st x"
  shows "case dataplane_step E probe start deadline ev x of Inl r \<Rightarrow> dp_result E st r | Inr y \<Rightarrow> dp_going E st y"
proof -
  obtain now sel successes timing where e: "ev = (now, sel)" "x = (successes, timing)" by (metis prod.exhaust)
  obtain l r st1 where t: "dp_resend E probe now timing = (l, r, st1)" by (metis prod.exhaust)
  have g: "dp_going E st (successes, l, r, st1)" using dp_resend_sound [of E st successes timing probe now] assms e t by simp
  have quiet: "dp_going E st (successes, l, r, st2)" if "verify_view st2 = verify_view st1" "wire_ok E st2" for st2
    using that g by (simp add: dp_going_def verify_view_def)
  have acc: "case dp_accept E probe start after successes l pkt (st1\<lparr>vs_tunn := t\<rparr>) of Inl r \<Rightarrow> dp_result E st r | Inr x \<Rightarrow> dp_going E st x"
    for after pkt t by (rule dp_accept_sound [of _ _ _ _ r]) (use g in \<open>simp add: dp_going_def\<close>)
  have w: "wire_ok E st1" using g by (simp add: dp_going_def)
  show ?thesis
  proof (cases sel)
    case (DpRecv d after)
    obtain res t where "decapsulate (we_bt E) (strip_client_id d) (vs_tunn st1) = (res, t)" by fastforce
    then show ?thesis
      using DpRecv e t assms acc quiet w
      by (cases res) (auto simp: dataplane_step_def Let_def sock_send_view sock_send_wire dp_result_def dp_going_def)
  qed (use e t assms quiet w g in \<open>auto simp: dataplane_step_def Let_def dp_result_def dp_going_def\<close>)
qed

lemma dataplane_loop_sound: "dp_going E st x \<Longrightarrow> dataplane_loop E probe start deadline evs x = Some r \<Longrightarrow> dp_result E st r"
proof (induction evs arbitrary: x)
  case (Cons ev evs)
  then show ?case
    using dataplane_step_sound [of E st x probe start deadline ev] by (auto split: sum.splits)
qed simp

lemma dataplane_loop_ends:
  "list_ex (\<lambda>ev. deadline \<le> fst ev) evs \<Longrightarrow> \<exists>r. dataplane_loop E probe start deadline evs x = Some r"
proof (induction evs arbitrary: x)
  case (Cons ev evs)
  have "deadline \<le> fst ev \<Longrightarrow> \<exists>r. dataplane_step E probe start deadline ev x = Inl r"
    by (simp add: dataplane_step_def case_prod_beta)
  with Cons show ?case by (cases "dataplane_step E probe start deadline ev x") auto
qed simp

lemma handshake_tick_quiet:
  assumes "handshake_tick E init_packet start now retry st = (r, retry', st')" "wire_ok E st" "tagged (we_client_id E) init_packet"
  shows "verify_view st' = verify_view st \<and> wire_ok E st'"
proof -
  define again where "again \<longleftrightarrow> retry < length VERIFY_RETRY_DELAYS \<and> VERIFY_RETRY_DELAYS ! retry \<le> now - start"
  obtain sent st1 where one: "(if again then sock_send init_packet st else (Inr (), st)) = (sent, st1)" by fastforce
  have st1: "verify_view st1 = verify_view st" "wire_ok E st1"
    using one assms(2,3) sock_send_view [of init_packet st] sock_send_wire [of E st init_packet] by (auto split: if_splits)
  obtain res t where "update_timers (we_bt E) (vs_tunn st1) = (res, t)" by fastforce
  then show ?thesis
    using assms(1) one st1 sock_send_wire [of E "st1\<lparr>vs_tunn := t\<rparr>"]
    unfolding handshake_tick_def again_def [symmetric] Let_def one prod.case
    by (cases sent; cases res) (auto simp: case_prod_beta sock_send_view)
qed

definition hs_result :: "'t wg_env \<Rightarrow> 't verify_state \<Rightarrow> nat result \<times> 't verify_state \<Rightarrow> bool" where
  "hs_result E st res = (case res of (r, st') \<Rightarrow> wire_ok E st' \<and> vs_noise st' = vs_noise st \<and> vs_plain st' = vs_plain st
     \<and> (case r of Inr _ \<Rightarrow> vs_handshake st' | Inl _ \<Rightarrow> True))"

definition hs_going :: "'t wg_env \<Rightarrow> 't verify_state \<Rightarrow> nat \<times> 't verify_state \<Rightarrow> bool" where
  "hs_going E st x = (case x of (_, st') \<Rightarrow> wire_ok E st' \<and> verify_view st' = verify_view st)"

lemma handshake_step_sound:
  assumes "hs_going E st x" "tagged (we_client_id E) init_packet"
  shows "case handshake_step E init_packet start deadline ev x of Inl r \<Rightarrow> hs_result E st r | Inr y \<Rightarrow> hs_going E st y"
proof -
  obtain now sel retry st1 where e: "ev = (now, sel)" "x = (retry, st1)" by (metis prod.exhaust)
  have g: "wire_ok E st1" "verify_view st1 = verify_view st" using assms(1) e by (simp_all add: hs_going_def)
  show ?thesis
  proof (cases sel)
    case (HsRecv d after)
    obtain res t where r: "decapsulate (we_bt E) (strip_client_id d) (vs_tunn st1) = (res, t)" by fastforce
    let ?p = "\<lambda>pkt. sock_send (inject_client_id (we_client_id E) pkt) (st1\<lparr>vs_tunn := t\<rparr>)"
    have "verify_view (snd (?p pkt)) = verify_view st" "wire_ok E (snd (?p pkt))" for pkt
      using g sock_send_view [of _ "st1\<lparr>vs_tunn := t\<rparr>"] sock_send_wire [of E "st1\<lparr>vs_tunn := t\<rparr>"] by simp_all
    then show ?thesis
      using HsRecv e r g
      by (cases res) (auto simp: handshake_step_def hs_result_def hs_going_def verify_view_def case_prod_beta Let_def split: sum.splits)
  next
    case (HsTick at)
    obtain r retry' st2 where t: "handshake_tick E init_packet start at retry st1 = (r, retry', st2)" by (metis prod.exhaust)
    have "verify_view st2 = verify_view st" "wire_ok E st2" using handshake_tick_quiet [OF t g(1) assms(2)] g(2) by simp_all
    then show ?thesis
      using HsTick e t g by (cases r) (auto simp: handshake_step_def hs_result_def hs_going_def verify_view_def)
  qed (use e g in \<open>auto simp: handshake_step_def hs_result_def hs_going_def verify_view_def\<close>)
qed

lemma handshake_loop_sound:
  "hs_going E st x \<Longrightarrow> tagged (we_client_id E) init_packet \<Longrightarrow> handshake_loop E init_packet start deadline evs x = Some r \<Longrightarrow> hs_result E st r"
proof (induction evs arbitrary: x)
  case (Cons ev evs)
  then show ?case
    using handshake_step_sound [of E st x init_packet start deadline ev] by (auto split: sum.splits)
qed simp

lemma handshake_loop_ends:
  "list_ex (\<lambda>ev. deadline \<le> fst ev) evs \<Longrightarrow> \<exists>r. handshake_loop E init_packet start deadline evs x = Some r"
proof (induction evs arbitrary: x)
  case (Cons ev evs)
  have "deadline \<le> fst ev \<Longrightarrow> \<exists>r. handshake_step E init_packet start deadline ev x = Inl r"
    by (simp add: handshake_step_def case_prod_beta)
  with Cons show ?case by (cases "handshake_step E init_packet start deadline ev x") auto
qed simp


lemma send_init_sound:
  assumes "send_init E st = (r, st')" "wire_ok E st"
  shows "wire_ok E st' \<and> verify_view st' = verify_view st \<and> (\<forall>p. r = Inr p \<longrightarrow> tagged (we_client_id E) p)"
proof -
  obtain res t where res: "encapsulate (we_bt E) [] (vs_tunn st) = (res, t)" by fastforce
  let ?p = "\<lambda>pkt. sock_send (inject_client_id (we_client_id E) pkt) (st\<lparr>vs_tunn := t\<rparr>)"
  have "verify_view (snd (?p pkt)) = verify_view st" "wire_ok E (snd (?p pkt))" for pkt
    using assms(2) sock_send_view [of _ "st\<lparr>vs_tunn := t\<rparr>"] sock_send_wire [of E "st\<lparr>vs_tunn := t\<rparr>"] by simp_all
  then show ?thesis
    using assms res by (cases res) (auto simp: send_init_def Let_def case_prod_beta split: sum.splits)
qed

text \<open>What the verification of an endpoint returns.\<close>

definition verified :: "'t wg_env \<Rightarrow> (str \<Rightarrow> str option) \<Rightarrow> (nat result \<times> 't verify_state) option \<Rightarrow> bool" where
  "verified E env r = (case r of
     None \<Rightarrow> False
   | Some (res, st) \<Rightarrow> wire_ok E st \<and> (case res of
       Inl _ \<Rightarrow> True
     | Inr _ \<Rightarrow> vs_handshake st \<and> (env (lit ''AETHER_WG_NO_DATA_CHECK'') = None \<longrightarrow> length (vs_plain st) = 2)))"

lemma verify_dataplane_verified:
  assumes "wire_ok E st" "vs_handshake st" "vs_plain st = []" "list_ex (\<lambda>ev. deadline \<le> fst ev) evs"
  shows "verified E env (verify_dataplane E probe start deadline now evs st)"
proof -
  obtain r st1 where p: "send_dataplane_probe E probe st = (r, st1)" by fastforce
  have st1: "wire_ok E st1" "verify_view st1 = verify_view st"
    using probe_send(1) [of E probe st] probe_send(2) [of E st probe] assms(1) p by simp_all
  obtain x where x: "dataplane_loop E probe start deadline evs (0, now, now + 700, st1) = Some x"
    using dataplane_loop_ends [OF assms(4)] by blast
  have "dp_going E st1 (0, now, now + 700, st1)"
    using st1 assms(3) by (simp add: dp_going_def verify_view_def DATAPLANE_REQUIRED_SUCCESSES_def)
  from dataplane_loop_sound [OF this x] show ?thesis
    using p x st1 assms(2)
    by (cases r) (auto simp: verify_dataplane_def verified_def dp_result_def verify_view_def DATAPLANE_REQUIRED_SUCCESSES_def split: sum.splits)
qed

lemma verify_exchange_verified:
  assumes late: "list_ex (\<lambda>ev. deadline \<le> fst ev) evs" "list_ex (\<lambda>ev. deadline \<le> fst ev) dp_evs"
    and st: "vs_wire st = []" "vs_plain st = []"
  shows "always (verified E env) (verify_exchange E (env (lit ''AETHER_WG_NO_DATA_CHECK'') = None) local_ipv4 start deadline evs dp_start dp_evs st)"
proof -
  obtain r st1 where i: "send_init E st = (r, st1)" by fastforce
  have st1: "wire_ok E st1" "vs_plain st1 = []" "\<And>p. r = Inr p \<Longrightarrow> tagged (we_client_id E) p"
    using send_init_sound [OF i] st by (simp_all add: wire_ok_def verify_view_def)
  show ?thesis
  proof (cases r)
    case (Inl e)
    then show ?thesis using i st1 by (simp add: verify_exchange_def verified_def always_return)
  next
    case (Inr p)
    obtain res st2 where h: "handshake_loop E p start deadline evs (0, st1) = Some (res, st2)"
      using handshake_loop_ends [OF late(1)] by (metis prod.exhaust)
    have "hs_result E st1 (res, st2)"
      using st1 Inr by (intro handshake_loop_sound [OF _ _ h]) (simp_all add: hs_going_def)
    then have st2: "wire_ok E st2" "vs_plain st2 = []" "\<And>x. res = Inr x \<Longrightarrow> vs_handshake st2"
      using st1(2) by (auto simp: hs_result_def)
    then have "verified E env (verify_dataplane E probe start deadline dp_start dp_evs st2)" if "res = Inr x" for probe x
      using verify_dataplane_verified [OF _ _ _ late(2)] that by blast
    then show ?thesis
      using i Inr h st2
      by (cases res) (auto simp: verify_exchange_def verified_def intro!: always_return always_bind [OF build_dataplane_probe_eq])
  qed
qed

lemma verify_session_verified:
  assumes "list_ex (\<lambda>ev. start + timeout \<le> fst ev) evs" "list_ex (\<lambda>ev. start + timeout \<le> fst ev) dp_evs"
    "always P (verify_noise E)"
  shows "always (verified E env)
    (verify_endpoint_keep_session E env bound private_key peer_public local_ipv4 start timeout keepalive outcomes evs dp_start dp_evs)"
  unfolding verify_endpoint_keep_session_def Let_def
  by (cases bound) (auto intro!: always_return always_bind [OF assms(3)] verify_exchange_verified [OF assms(1,2)] simp: verified_def wire_ok_def simp del: lit_simps)


lemma verify_noise_sized:
  assumes "cps_lib_laws (we_cps E)" "we_noise E = an_from_profile name"
  shows "always (list_all (sized 384)) (verify_noise E)"
  using wg_noise.small [of "we_cps E" "we_noise E"] assms by (auto simp: verify_noise_def intro: always_return)

subsection \<open>An example peer\<close>

text \<open>A protocol that puts a four-byte header before a packet and accepts messages of the types 2 and 4.\<close>

definition plain_bt :: "unit boringtun" where
  "plain_bt =
     \<lparr>tunn_new = (\<lambda>_ _ _ _. ()),
      encapsulate = (\<lambda>p t. (WriteToNetwork ((if p = [] then 1 else 4) # [0, 0, 0] @ p), t)),
      decapsulate = (\<lambda>d t. (case d of
          [] \<Rightarrow> TunnErr []
        | b # rest \<Rightarrow> if b = 4 then WriteToTunnelV4 (drop 3 rest) 0 else if b = 2 then TunnDone else TunnErr [], t)),
      update_timers = (\<lambda>t. (TunnDone, t))\<rparr>"

definition plain_env :: "unit wg_env" where
  "plain_env = \<lparr>we_bt = plain_bt, we_cps = scan_lib, we_noise = an_from_profile (lit ''light''), we_client_id = (7, 8, 9),
     we_stale_timeout = 10000, we_probe = [0x45]\<rparr>"

lemma plain_run:
  "\<exists>st. wg_run plain_env (wg_from_established () 0) [(5, Some [0x45, 0])] st \<and> wt_trace st = [WgInbound [0x45, 0]]
     \<and> wt_todo st RecvTask = []"
proof -
  let ?st0 = "wg_from_established () 0"
  let ?st1 = "fst (recv_datagram plain_env 5 [4, 7, 8, 9, 0x45, 0] ?st0)"
  let ?st2 = "?st1\<lparr>wt_todo := (wt_todo ?st1)(RecvTask := []), wt_trace := wt_trace ?st1 @ [WgInbound [0x45, 0]]\<rparr>"
  have d: "recv_datagram plain_env 5 [4, 7, 8, 9, 0x45, 0] ?st0 = (?st1, [(5, Some [0x45, 0])])"
    "wt_todo ?st1 RecvTask = [WgInbound [0x45, 0]]" "wt_trace ?st1 = []"
    by (simp_all add: recv_datagram_def plain_env_def plain_bt_def strip_client_id_def set_reserved_def WG_MSG_TYPE_MIN_def
        WG_MSG_TYPE_MAX_def add_todo_def wg_from_established_def wg_start_def)
  have "wg_run plain_env ?st0 ([] @ [(5, Some [0x45, 0])]) ?st1"
    by (rule wg_run.step [OF wg_run.refl wg_step.recv [OF _ d(1)]]) (simp add: wg_from_established_def wg_start_def)
  then have "wg_run plain_env ?st0 (([] @ [(5, Some [0x45, 0])]) @ []) ?st2" by (rule wg_run.step [OF _ wg_step.act [OF d(2)]])
  then show ?thesis using d(3) by (intro exI [of _ ?st2]) simp
qed

subsection \<open>Properties\<close>

text \<open>
  C11: in every interleaving of the four tasks of a tunnel, new or taken over from the verification:
  each WireGuard message on the wire carries the client identifier; the packets handed to the stack,
  followed by the one still in hand, are exactly the packets the protocol accepted, in order, none lost
  or repeated; and the receiver tolerates at most 64 consecutive transient errors.
\<close>

theorem wg_tunnel_sound:
  assumes "wg_run E st0 ls st"
    "st0 = wg_new E private_key peer_public preshared keepalive t0 \<or> st0 = wg_from_established t t0"
  shows "list_all (\<lambda>a. case a of WgSend p \<Rightarrow> tagged (we_client_id E) p | _ \<Rightarrow> True) (wt_trace st)
    \<and> inbound (wt_trace st) @ inbound (wt_todo st RecvTask) = List.map_filter snd ls
    \<and> wt_transient_errors st \<le> 64"
proof -
  have "wg_inv E st0 \<and> arrived st0 = []"
    using assms(2) wg_start_inv by (auto simp: wg_new_def wg_from_established_def arrived_def wg_start_def)
  then show ?thesis
    using wg_run_effect [OF assms(1)]
    by (auto simp: wg_effect_def wg_inv_def arrived_def action_ok_def [abs_def] MAX_TRANSIENT_RECV_ERRORS_def)
qed

theorem wg_tunnel_sound_witness:
  "\<exists>st. wg_run plain_env (wg_from_established () 0) [(5, Some [0x45, 0])] st \<and> inbound (wt_trace st) = [[0x45, 0]]"
proof -
  obtain st where st: "wg_run plain_env (wg_from_established () 0) [(5, Some [0x45, 0])] st" "wt_todo st RecvTask = []"
    using plain_run by blast
  then show ?thesis using wg_tunnel_sound [OF st(1), of undefined undefined undefined undefined 0 "()"] by (auto simp: List.map_filter_def)
qed

text \<open>
  the health check declares a tunnel dead exactly when no valid datagram has arrived for the stale
  timeout: it compares the time with that of the last datagram the protocol accepted, or with the
  start; junk, forged datagrams and socket errors do not keep a dead tunnel alive, and nothing else
  ends a live one.
\<close>

lemma wg_stale_exact:
  assumes "wg_run E (wg_start t obf_sent t0) ls st"
  shows "health_tick E now st = Inl (Other (lit ''wireguard tunnel stale: no valid data from peer''))
    \<longleftrightarrow> we_stale_timeout E \<le> now - last (t0 # map fst ls)"
proof -
  have "wt_last_valid_rx st = last (t0 # map fst ls)"
    using wg_run_effect [OF assms wg_start_inv] by (simp add: wg_effect_def wg_start_def)
  then show ?thesis by (simp add: health_tick_def case_prod_beta Let_def)
qed

text \<open>
  the verification of an endpoint always comes to an end, and accepts no dead one. With a built-in
  noise profile and whatever the peer, the socket and the clock do, once the deadline has passed in
  each of its loops a result has been returned and no code has panicked; an endpoint is accepted only
  after the protocol accepted its handshake and, unless the check is switched off, exactly two packets
  came back through the tunnel; and every WireGuard message sent carries the client identifier.
\<close>

lemma wg_verification_sound:
  assumes "list_ex (\<lambda>ev. start + timeout \<le> fst ev) evs" "list_ex (\<lambda>ev. start + timeout \<le> fst ev) dp_evs"
    "cps_lib_laws (we_cps E)" "we_noise E = an_from_profile name"
  shows "always (\<lambda>r. \<exists>res st. r = Some (res, st) \<and> list_all (tagged (we_client_id E)) (vs_wire st) \<and>
      (case res of
         Inl _ \<Rightarrow> True
       | Inr _ \<Rightarrow> vs_handshake st \<and> (env (lit ''AETHER_WG_NO_DATA_CHECK'') = None \<longrightarrow> length (vs_plain st) = 2)))
    (verify_endpoint_keep_session E env bound private_key peer_public local_ipv4 start timeout keepalive outcomes evs dp_start dp_evs)"
proof -
  have "always (verified E env)
    (verify_endpoint_keep_session E env bound private_key peer_public local_ipv4 start timeout keepalive outcomes evs dp_start dp_evs)"
    by (rule verify_session_verified [OF assms(1,2) verify_noise_sized [OF assms(3,4)]])
  then show ?thesis
    by (rule always_weaken) (auto simp: verified_def wire_ok_def split: option.splits)
qed

end
