(* ===== verification/Fragment.thy ===== *)
theory Fragment
  imports Rust_Rand Rust_Str
begin

text \<open>
  The fragmenting stream (\<open>fragment.rs\<close>): until the first read, writes go out in small pieces with
  pauses between them, so that the TLS ClientHello is split. The settings come from the environment;
  the stream below answers each poll, and the timer of a pause is either over or not.
\<close>

subsection \<open>Settings\<close>

record fragment_config =
  fg_enabled :: bool
  fg_size_min :: nat
  fg_size_max :: nat
  fg_delay_min_ms :: nat
  fg_delay_max_ms :: nat

definition fragment_disabled :: fragment_config where
  "fragment_disabled = \<lparr>fg_enabled = False, fg_size_min = 1, fg_size_max = 1, fg_delay_min_ms = 0, fg_delay_max_ms = 0\<rparr>"

definition is_truthy :: "unicode \<Rightarrow> str \<Rightarrow> bool" where
  "is_truthy U v = (to_lowercase U (trim v) \<in> {lit ''1'', lit ''true'', lit ''yes'', lit ''on''})"

definition fragment_range :: "str \<Rightarrow> nat \<times> nat \<Rightarrow> nat \<times> nat" where
  "fragment_range spec dflt =
     (let spec = trim spec in
      if spec = [] then dflt
      else case split_once 45 spec of
             Some (a, b) \<Rightarrow>
               (let lo = (case parse_uint 64 (trim a) of Some v \<Rightarrow> v | None \<Rightarrow> fst dflt);
                    hi = (case parse_uint 64 (trim b) of Some v \<Rightarrow> v | None \<Rightarrow> snd dflt) in
                if hi < lo then (hi, lo) else (lo, hi))
           | None \<Rightarrow> (let v = (case parse_uint 64 spec of Some v \<Rightarrow> v | None \<Rightarrow> fst dflt) in (v, v)))"

definition fragment_from_env :: "unicode \<Rightarrow> (str \<Rightarrow> str option) \<Rightarrow> fragment_config" where
  "fragment_from_env U env =
     (let enabled = (case env (lit ''AETHER_MASQUE_H2_FRAGMENT'') of Some v \<Rightarrow> is_truthy U v | None \<Rightarrow> False);
          var = (\<lambda>name. case env name of Some v \<Rightarrow> v | None \<Rightarrow> []);
          (size_min, size_max) = fragment_range (var (lit ''AETHER_MASQUE_H2_FRAGMENT_SIZE'')) (16, 32);
          (delay_min, delay_max) = fragment_range (var (lit ''AETHER_MASQUE_H2_FRAGMENT_DELAY'')) (2, 10);
          size_min = max size_min 1;
          size_max = max size_max size_min
      in \<lparr>fg_enabled = enabled, fg_size_min = size_min, fg_size_max = size_max,
          fg_delay_min_ms = delay_min, fg_delay_max_ms = max delay_max delay_min\<rparr>)"

definition pick_chunk_len :: "fragment_config \<Rightarrow> nat \<Rightarrow> nat rand" where
  "pick_chunk_len cfg remaining =
     (let hi = min (max (fg_size_max cfg) 1) remaining;
          lo = min (max (fg_size_min cfg) 1) hi in
      if hi \<le> lo then rand_return hi else random_range lo hi)"

definition pick_delay :: "fragment_config \<Rightarrow> nat rand" where
  "pick_delay cfg =
     (if fg_delay_max_ms cfg = 0 then rand_return 0
      else if fg_delay_max_ms cfg \<le> fg_delay_min_ms cfg then rand_return (fg_delay_min_ms cfg)
      else random_range (fg_delay_min_ms cfg) (fg_delay_max_ms cfg))"

subsection \<open>The stream\<close>

text \<open>What a poll of a write answers: not ready, an error, or the number of bytes taken.\<close>

datatype poll_result = PollPending | PollError | PollTaken nat

text \<open>
  The stream below is known by what it has taken: the pieces, in order, each with whether the stream was
  fragmenting at that time.
\<close>

record fragment_stream =
  fs_inner :: "(bool \<times> bytes) list"
  fs_fragmenting :: bool
  fs_pending_delay :: "nat option"

definition fragment_new :: "fragment_config \<Rightarrow> fragment_stream" where
  "fragment_new cfg = \<lparr>fs_inner = [], fs_fragmenting = fg_enabled cfg, fs_pending_delay = None\<rparr>"

definition frag_poll_read :: "fragment_stream \<Rightarrow> fragment_stream" where
  "frag_poll_read st = st\<lparr>fs_fragmenting := False\<rparr>"

text \<open>
  A poll of a write: \<open>over\<close> says whether the timer of a pending pause has expired, \<open>inner\<close> answers the
  poll of the stream below.
\<close>

definition inner_poll_write :: "(bytes \<Rightarrow> poll_result) \<Rightarrow> bytes \<Rightarrow> fragment_stream \<Rightarrow> poll_result \<times> fragment_stream" where
  "inner_poll_write inner buf st =
     (case inner buf of
        PollTaken n \<Rightarrow> (PollTaken n, st\<lparr>fs_inner := fs_inner st @ [(fs_fragmenting st, take n buf)]\<rparr>)
      | other \<Rightarrow> (other, st))"

definition offer_chunk ::
  "fragment_config \<Rightarrow> (bytes \<Rightarrow> poll_result) \<Rightarrow> fragment_stream \<Rightarrow> bytes \<Rightarrow> (poll_result \<times> fragment_stream) rand" where
  "offer_chunk cfg inner st chunk =
     (case inner_poll_write inner chunk st of
        (PollTaken n, st) \<Rightarrow>
          if 0 < n then rand_bind (pick_delay cfg) (\<lambda>delay.
            rand_return (PollTaken n, if delay \<noteq> 0 then st\<lparr>fs_pending_delay := Some delay\<rparr> else st))
          else rand_return (PollTaken n, st)
      | (other, st) \<Rightarrow> rand_return (other, st))"

definition frag_poll_write ::
  "fragment_config \<Rightarrow> bool \<Rightarrow> (bytes \<Rightarrow> poll_result) \<Rightarrow> bytes \<Rightarrow> fragment_stream \<Rightarrow> (poll_result \<times> fragment_stream) rand" where
  "frag_poll_write cfg over inner buf st =
     (if buf = [] \<or> \<not> fs_fragmenting st then rand_return (inner_poll_write inner buf st)
      else if fs_pending_delay st \<noteq> None \<and> \<not> over then rand_return (PollPending, st)
      else rand_bind (pick_chunk_len cfg (length buf)) (\<lambda>chunk_len s.
        slice buf 0 chunk_len (\<lambda>chunk. offer_chunk cfg inner (st\<lparr>fs_pending_delay := None\<rparr>) chunk s)))"

text \<open>
  A writer that hands over a buffer as \<open>write_all\<close> does, among reads of the stream.
\<close>

datatype frag_event = FragRead | FragWrite bool "bytes \<Rightarrow> poll_result"

record writer =
  wr_stream :: fragment_stream
  wr_rest :: bytes

definition frag_step :: "fragment_config \<Rightarrow> frag_event \<Rightarrow> writer \<Rightarrow> writer rand" where
  "frag_step cfg ev w =
     (case ev of
        FragRead \<Rightarrow> rand_return (w\<lparr>wr_stream := frag_poll_read (wr_stream w)\<rparr>)
      | FragWrite over inner \<Rightarrow>
          if wr_rest w = [] then rand_return w
          else rand_bind (frag_poll_write cfg over inner (wr_rest w) (wr_stream w)) (\<lambda>(r, st).
            rand_return (case r of
              PollTaken n \<Rightarrow> w\<lparr>wr_stream := st, wr_rest := drop n (wr_rest w)\<rparr>
            | _ \<Rightarrow> w\<lparr>wr_stream := st\<rparr>)))"

fun frag_run :: "fragment_config \<Rightarrow> frag_event list \<Rightarrow> writer \<Rightarrow> writer rand" where
  "frag_run cfg [] w = rand_return w"
| "frag_run cfg (ev # evs) w = rand_bind (frag_step cfg ev w) (frag_run cfg evs)"

definition writer_new :: "fragment_config \<Rightarrow> bytes \<Rightarrow> writer" where
  "writer_new cfg data = \<lparr>wr_stream = fragment_new cfg, wr_rest = data\<rparr>"

subsection \<open>Facts\<close>

text \<open>Whatever the environment says, the settings are ordered and a piece has at least one byte.\<close>

definition config_ok :: "fragment_config \<Rightarrow> bool" where
  "config_ok cfg \<longleftrightarrow> 1 \<le> fg_size_min cfg \<and> fg_size_min cfg \<le> fg_size_max cfg \<and> fg_delay_min_ms cfg \<le> fg_delay_max_ms cfg"

lemma fragment_from_env_ok: "config_ok (fragment_from_env U env)"
  by (auto simp: fragment_from_env_def config_ok_def Let_def split: prod.split)

lemma pick_chunk_len_range:
  "0 < remaining \<Longrightarrow> always (\<lambda>n. 1 \<le> n \<and> n \<le> remaining \<and> n \<le> max (fg_size_max cfg) 1) (pick_chunk_len cfg remaining)"
  by (auto simp: pick_chunk_len_def Let_def intro!: always_return always_random_range)

lemma pick_delay_range: "always (\<lambda>d. d \<le> max (fg_delay_min_ms cfg) (fg_delay_max_ms cfg)) (pick_delay cfg)"
  by (auto simp: pick_delay_def intro!: always_return always_random_range)

text \<open>The stream below takes no more than it is offered.\<close>

definition inner_ok :: "frag_event \<Rightarrow> bool" where
  "inner_ok ev = (case ev of FragRead \<Rightarrow> True | FragWrite _ inner \<Rightarrow>
     \<forall>chunk. case inner chunk of PollTaken n \<Rightarrow> n \<le> length chunk | _ \<Rightarrow> True)"

definition poll_ok :: "fragment_config \<Rightarrow> fragment_stream \<Rightarrow> bytes \<Rightarrow> poll_result \<times> fragment_stream \<Rightarrow> bool" where
  "poll_ok cfg st buf res = (case res of (r, st') \<Rightarrow>
     fs_fragmenting st' = fs_fragmenting st \<and>
     (case r of
        PollTaken n \<Rightarrow> n \<le> length buf \<and> (fs_fragmenting st \<longrightarrow> n \<le> max (fg_size_max cfg) 1)
          \<and> fs_inner st' = fs_inner st @ [(fs_fragmenting st, take n buf)]
      | _ \<Rightarrow> fs_inner st' = fs_inner st))"

lemma offer_chunk_ok:
  assumes "\<And>n. inner chunk = PollTaken n \<Longrightarrow> n \<le> length chunk" "chunk = take len buf" "length chunk \<le> max (fg_size_max cfg) 1"
    "fs_fragmenting st' = fs_fragmenting st" "fs_inner st' = fs_inner st"
  shows "always (poll_ok cfg st buf) (offer_chunk cfg inner st' chunk)"
proof (cases "inner chunk")
  case (PollTaken n)
  then have "n \<le> length chunk" using assms(1) by blast
  moreover from this have "take n chunk = take n buf" unfolding assms(2) by (auto simp: take_take min_def split: if_split_asm)
  moreover have "length chunk \<le> length buf" unfolding assms(2) by simp
  ultimately show ?thesis
    using PollTaken assms(3-5)
    by (auto simp: offer_chunk_def inner_poll_write_def poll_ok_def intro!: always_return always_bind [OF pick_delay_range])
qed (use assms(4,5) in \<open>auto simp: offer_chunk_def inner_poll_write_def poll_ok_def intro!: always_return\<close>)

lemma frag_poll_write_ok:
  assumes "buf \<noteq> []" "inner_ok (FragWrite over inner)"
  shows "always (poll_ok cfg st buf) (frag_poll_write cfg over inner buf st)"
proof -
  have inner: "inner chunk = PollTaken n \<Longrightarrow> n \<le> length chunk" for chunk n
    using assms(2) by (auto simp: inner_ok_def split: poll_result.splits)
  have plain: "\<not> fs_fragmenting st \<Longrightarrow> poll_ok cfg st buf (inner_poll_write inner buf st)"
    using inner [of buf] by (cases "inner buf") (auto simp: poll_ok_def inner_poll_write_def)
  have chunk: "always (poll_ok cfg st buf) (\<lambda>s. slice buf 0 len (\<lambda>chunk. offer_chunk cfg inner (st\<lparr>fs_pending_delay := None\<rparr>) chunk s))"
    if "1 \<le> len \<and> len \<le> length buf \<and> len \<le> max (fg_size_max cfg) 1" for len
    using that offer_chunk_ok [of inner "take len buf" len buf cfg "st\<lparr>fs_pending_delay := None\<rparr>" st] inner [of "take len buf"] by fastforce
  then have "always (poll_ok cfg st buf) (rand_bind (pick_chunk_len cfg (length buf)) (\<lambda>chunk_len s.
        slice buf 0 chunk_len (\<lambda>chunk. offer_chunk cfg inner (st\<lparr>fs_pending_delay := None\<rparr>) chunk s)))"
    using assms(1) by (intro always_bind [OF pick_chunk_len_range]) auto
  then show ?thesis
    using assms(1) plain by (auto simp: frag_poll_write_def poll_ok_def intro!: always_return)
qed

text \<open>
  The invariant of a writer: what was taken and what is left is the data, fragments are small, and
  the stream is fragmenting only as long as all pieces so far were fragments.
\<close>

definition writer_inv :: "fragment_config \<Rightarrow> bytes \<Rightarrow> writer \<Rightarrow> bool" where
  "writer_inv cfg data w \<longleftrightarrow> concat (map snd (fs_inner (wr_stream w))) @ wr_rest w = data
     \<and> (\<forall>(b, piece) \<in> set (fs_inner (wr_stream w)). b \<longrightarrow> length piece \<le> max (fg_size_max cfg) 1)
     \<and> (fs_fragmenting (wr_stream w) \<longrightarrow> list_all fst (fs_inner (wr_stream w)))"

lemma frag_step_inv:
  assumes "writer_inv cfg data w" "inner_ok ev"
  shows "always (\<lambda>w'. writer_inv cfg data w' \<and> (ev = FragRead \<or> \<not> fs_fragmenting (wr_stream w) \<longrightarrow> \<not> fs_fragmenting (wr_stream w')))
    (frag_step cfg ev w)"
proof (cases ev)
  case FragRead
  then show ?thesis using assms(1) by (auto simp: frag_step_def frag_poll_read_def writer_inv_def intro!: always_return)
next
  case (FragWrite over inner)
  show ?thesis
  proof (cases "wr_rest w = []")
    case True
    then show ?thesis using FragWrite assms(1) by (auto simp: frag_step_def intro!: always_return)
  next
    case False
    have "always (poll_ok cfg (wr_stream w) (wr_rest w)) (frag_poll_write cfg over inner (wr_rest w) (wr_stream w))"
      using frag_poll_write_ok [OF False] assms(2) FragWrite by simp
    then show ?thesis
      using FragWrite False assms(1) unfolding frag_step_def
      by (auto simp: poll_ok_def writer_inv_def split: poll_result.splits intro!: always_bind [of "poll_ok cfg (wr_stream w) (wr_rest w)"] always_return)
  qed
qed

lemma frag_run_inv:
  assumes "writer_inv cfg data w" "list_all inner_ok evs"
  shows "always (\<lambda>w'. writer_inv cfg data w' \<and> (FragRead \<in> set evs \<or> \<not> fs_fragmenting (wr_stream w) \<longrightarrow> \<not> fs_fragmenting (wr_stream w')))
    (frag_run cfg evs w)"
  using assms
proof (induction evs arbitrary: w)
  case (Cons ev evs)
  have step: "always (\<lambda>w'. writer_inv cfg data w' \<and> (ev = FragRead \<or> \<not> fs_fragmenting (wr_stream w) \<longrightarrow> \<not> fs_fragmenting (wr_stream w')))
    (frag_step cfg ev w)" using frag_step_inv Cons.prems by simp
  show ?case
    unfolding frag_run.simps
    by (rule always_bind [OF step], rule always_weaken [OF Cons.IH]) (use Cons.prems in auto)
qed (simp add: always_return)


text \<open>A poll that makes progress: the pause is over and the stream below takes at least a byte of what it is offered.\<close>

definition took :: "poll_result \<Rightarrow> bool" where
  "took r = (case r of PollTaken n \<Rightarrow> 0 < n | _ \<Rightarrow> False)"

definition willing :: "frag_event \<Rightarrow> bool" where
  "willing ev = (case ev of FragRead \<Rightarrow> False | FragWrite over inner \<Rightarrow>
     over \<and> (\<forall>chunk. chunk \<noteq> [] \<longrightarrow> took (inner chunk)))"

lemma frag_step_shrinks:
  assumes "inner_ok ev"
  shows "always (\<lambda>w'. length (wr_rest w') \<le> length (wr_rest w) - (if willing ev then 1 else 0)) (frag_step cfg ev w)"
proof (cases ev)
  case FragRead
  then show ?thesis by (auto simp: frag_step_def willing_def intro!: always_return)
next
  case (FragWrite over inner)
  show ?thesis
  proof (cases "wr_rest w = []")
    case True
    then show ?thesis using FragWrite by (auto simp: frag_step_def intro!: always_return)
  next
    case False
    let ?taken = "\<lambda>res :: poll_result \<times> fragment_stream. willing ev \<longrightarrow> took (fst res)"
    have offer: "willing ev \<Longrightarrow> chunk \<noteq> [] \<Longrightarrow> always ?taken (offer_chunk cfg inner st chunk)" for chunk st
      using FragWrite unfolding offer_chunk_def willing_def
      by (cases "inner chunk") (auto simp: took_def inner_poll_write_def intro!: always_return always_bind [OF pick_delay_range])
    have chunk: "always ?taken (\<lambda>s. slice (wr_rest w) 0 len (\<lambda>chunk. offer_chunk cfg inner (st\<lparr>fs_pending_delay := None\<rparr>) chunk s))"
      if "willing ev" "1 \<le> len \<and> len \<le> length (wr_rest w) \<and> len \<le> max (fg_size_max cfg) 1" for len st
      using that offer [of "take len (wr_rest w)"] False by fastforce
    have "always ?taken (frag_poll_write cfg over inner (wr_rest w) (wr_stream w))" if "willing ev"
    proof (cases "fs_fragmenting (wr_stream w)")
      case True
      have "over" using that FragWrite by (simp add: willing_def)
      then show ?thesis
        using True False chunk [OF that] unfolding frag_poll_write_def
        by (auto intro!: always_bind [OF pick_chunk_len_range])
    next
      case no: False
      have "took (inner (wr_rest w))" using FragWrite False that by (simp add: willing_def)
      with no show ?thesis
        by (auto simp: frag_poll_write_def inner_poll_write_def took_def intro!: always_return split: poll_result.splits)
    qed
    moreover have "always (poll_ok cfg (wr_stream w) (wr_rest w)) (frag_poll_write cfg over inner (wr_rest w) (wr_stream w))"
      using frag_poll_write_ok [OF False] assms FragWrite by simp
    ultimately have "always ?taken (frag_poll_write cfg over inner (wr_rest w) (wr_stream w))"
      by (cases "willing ev") (auto elim: always_weaken)
    note taken = this
    have "0 < length (wr_rest w)" using False by simp
    then have "always (\<lambda>w'. length (wr_rest w') \<le> length (wr_rest w) - (if willing ev then 1 else 0))
        (rand_bind (frag_poll_write cfg over inner (wr_rest w) (wr_stream w)) (\<lambda>(r, st).
            rand_return (case r of
              PollTaken n \<Rightarrow> w\<lparr>wr_stream := st, wr_rest := drop n (wr_rest w)\<rparr>
            | _ \<Rightarrow> w\<lparr>wr_stream := st\<rparr>)))"
      by (intro always_bind [OF taken]) (auto simp: took_def intro!: always_return split: poll_result.splits)
    then show ?thesis using FragWrite False by (simp add: frag_step_def)
  qed
qed

lemma frag_run_shrinks:
  assumes "list_all inner_ok evs"
  shows "always (\<lambda>w'. length (wr_rest w') \<le> length (wr_rest w) - length (filter willing evs)) (frag_run cfg evs w)"
  using assms
proof (induction evs arbitrary: w)
  case (Cons ev evs)
  have step: "always (\<lambda>w'. length (wr_rest w') \<le> length (wr_rest w) - (if willing ev then 1 else 0)) (frag_step cfg ev w)"
    using frag_step_shrinks Cons.prems by simp
  show ?case
    unfolding frag_run.simps
  proof (rule always_bind [OF step])
    fix w1 :: writer assume w1: "length (wr_rest w1) \<le> length (wr_rest w) - (if willing ev then 1 else 0)"
    show "always (\<lambda>w'. length (wr_rest w') \<le> length (wr_rest w) - length (filter willing (ev # evs))) (frag_run cfg evs w1)"
      by (rule always_weaken [OF Cons.IH]) (use w1 Cons.prems in \<open>auto split: if_splits\<close>)
  qed
qed (simp add: always_return)

subsection \<open>Properties\<close>



end
