(* ===== verification/Upstream.thy ===== *)
theory Upstream
  imports Aether_Error Routing "HOL-Library.State_Monad"
begin

text \<open>
  The upstream proxy of \<open>upstream.rs\<close>: the setting and its syntax, the SOCKS5 and HTTP handshakes with
  the proxy, the UDP relay of a SOCKS5 proxy, and the detours that carry the datagrams of a local
  socket through such a relay. The proxy is adversarial: what it has sent is any function of what it
  was sent.
\<close>

definition UP_VER :: u8 where "UP_VER = 0x05"
definition UP_AUTH_NONE :: u8 where "UP_AUTH_NONE = 0x00"
definition UP_AUTH_USERPASS :: u8 where "UP_AUTH_USERPASS = 0x02"
definition UP_AUTH_REJECTED :: u8 where "UP_AUTH_REJECTED = 0xff"
definition UP_CMD_CONNECT :: u8 where "UP_CMD_CONNECT = 0x01"
definition UP_CMD_ASSOCIATE :: u8 where "UP_CMD_ASSOCIATE = 0x03"
definition UP_ATYP_V4 :: u8 where "UP_ATYP_V4 = 0x01"
definition UP_ATYP_NAME :: u8 where "UP_ATYP_NAME = 0x03"
definition UP_ATYP_V6 :: u8 where "UP_ATYP_V6 = 0x04"
definition UP_REP_OK :: u8 where "UP_REP_OK = 0x00"

lemmas up_consts = UP_VER_def UP_AUTH_NONE_def UP_AUTH_USERPASS_def UP_AUTH_REJECTED_def UP_CMD_CONNECT_def
  UP_CMD_ASSOCIATE_def UP_ATYP_V4_def UP_ATYP_NAME_def UP_ATYP_V6_def UP_REP_OK_def

subsection \<open>The setting\<close>

datatype proxy_kind = Socks5 | Http

definition kind_label :: "proxy_kind \<Rightarrow> str" where
  "kind_label k = (case k of Socks5 \<Rightarrow> lit ''socks5'' | Http \<Rightarrow> lit ''http'')"

record upstream =
  up_kind :: proxy_kind
  up_host :: str
  up_port :: u16
  up_user :: "str option"
  up_password :: "str option"

text \<open>\<open>str::split_once\<close> with a string, and \<open>u8::from_str_radix(_, 16)\<close>.\<close>

definition split_once_str :: "'a list \<Rightarrow> 'a list \<Rightarrow> ('a list \<times> 'a list) option" where
  "split_once_str p s = map_option (\<lambda>i. (take i s, drop (i + length p) s)) (find_sub p s)"

definition parse_hex_u8 :: "str \<Rightarrow> u8 option" where
  "parse_hex_u8 s = map_option word_of_nat (parse_hex 8 s)"

definition split_endpoint :: "str \<Rightarrow> (str \<times> u16) result" where
  "split_endpoint endpoint =
     (let malformed = Inl (Other (endpoint @ lit '' is not a host and port an upstream proxy can live at''));
          finish = (\<lambda>host port.
            case parse_uint 16 port of
              None \<Rightarrow> malformed
            | Some n \<Rightarrow> if host = [] \<or> n = 0 then malformed else Inr (host, word_of_nat n)) in
      case strip_prefix (lit ''['') endpoint of
        Some rest \<Rightarrow>
          (case split_once (ch (CHR '']'')) rest of
             None \<Rightarrow> malformed
           | Some (host, tail) \<Rightarrow>
               (case strip_prefix (lit '':'') tail of None \<Rightarrow> malformed | Some port \<Rightarrow> finish host port))
      | None \<Rightarrow>
          (case rsplit_once (ch (CHR '':'')) endpoint of None \<Rightarrow> malformed | Some (host, port) \<Rightarrow> finish host port))"

text \<open>
  The decoder works on bytes: an escape needs two more bytes after the percent sign that are valid
  UTF-8 and a hexadecimal number; any other byte stands for itself.
\<close>

fun percent_bytes :: "bytes \<Rightarrow> bytes" where
  "percent_bytes (a # b # c # bs) =
     (if a = 0x25 then
        (case parse_hex_u8 (case from_utf8 [b, c] of None \<Rightarrow> [] | Some s \<Rightarrow> s) of
           Some byte \<Rightarrow> byte # percent_bytes bs
         | None \<Rightarrow> a # percent_bytes (b # c # bs))
      else a # percent_bytes (b # c # bs))"
| "percent_bytes bs = bs"

definition percent_decode :: "str \<Rightarrow> str" where
  "percent_decode s = from_utf8_lossy (percent_bytes (utf8_encode s))"

definition proxy_kind_of :: "str \<Rightarrow> proxy_kind result" where
  "proxy_kind_of scheme =
     (if scheme \<in> {lit ''socks5'', lit ''socks5h'', lit ''socks''} then Inr Socks5
      else if scheme \<in> {lit ''http'', lit ''https''} then Inr Http
      else Inl (Other (scheme @ lit '' is not an upstream proxy kind aether understands'')))"

definition parse_credentials :: "str option \<Rightarrow> str option \<times> str option" where
  "parse_credentials credentials =
     (case credentials of
        None \<Rightarrow> (None, None)
      | Some pair \<Rightarrow>
          (case split_once (ch (CHR '':'')) pair of
             Some (user, password) \<Rightarrow> (Some (percent_decode user), Some (percent_decode password))
           | None \<Rightarrow> (Some (percent_decode pair), None)))"

definition upstream_parse :: "unicode \<Rightarrow> str \<Rightarrow> upstream result" where
  "upstream_parse U raw0 =
     (let raw = trim raw0;
          (scheme, rest) = (case split_once_str (lit ''://'') raw of
            Some (scheme, rest) \<Rightarrow> (to_lowercase U scheme, rest) | None \<Rightarrow> (lit ''socks5'', raw)) in
      case proxy_kind_of scheme of
        Inl e \<Rightarrow> Inl e
      | Inr kind \<Rightarrow>
          (let (credentials, endpoint) = (case rsplit_once (ch (CHR ''@'')) rest of
                 Some (credentials, endpoint) \<Rightarrow> (Some credentials, endpoint) | None \<Rightarrow> (None, rest)) in
           case split_endpoint (trim_end_matches (ch (CHR ''/'')) endpoint) of
             Inl e \<Rightarrow> Inl e
           | Inr (host, port) \<Rightarrow>
               (let (user, password) = parse_credentials credentials in
                Inr \<lparr>up_kind = kind, up_host = host, up_port = port, up_user = user, up_password = password\<rparr>)))"

text \<open>The environment variable: an empty or unusable setting means no upstream proxy.\<close>

definition upstream_from_env :: "unicode \<Rightarrow> (str \<Rightarrow> str option) \<Rightarrow> upstream option" where
  "upstream_from_env U env =
     (case env (lit ''AETHER_UPSTREAM'') of
        None \<Rightarrow> None
      | Some raw \<Rightarrow>
          let trimmed = trim raw in
          if trimmed = [] then None
          else (case upstream_parse U trimmed of Inr u \<Rightarrow> Some u | Inl _ \<Rightarrow> None))"

definition upstream_endpoint :: "upstream \<Rightarrow> str" where
  "upstream_endpoint u = up_host u @ lit '':'' @ show_nat (unat (up_port u))"

definition upstream_url :: "upstream \<Rightarrow> str" where
  "upstream_url u =
     (let host = (if ch (CHR '':'') \<in> set (up_host u) then lit ''['' @ up_host u @ lit '']'' else up_host u);
          scheme = (case up_kind u of Socks5 \<Rightarrow> lit ''socks5h'' | Http \<Rightarrow> lit ''http'') in
      scheme @ lit ''://'' @ host @ lit '':'' @ show_nat (unat (up_port u)))"

subsection \<open>Wire formats\<close>

definition http_answer_status :: "bytes \<Rightarrow> nat option" where
  "http_answer_status head =
     (case lines (from_utf8_lossy head) of
        [] \<Rightarrow> None
      | line # _ \<Rightarrow>
          (case split_whitespace line of
             [] \<Rightarrow> None
           | version # parts \<Rightarrow>
               if \<not> starts_with version (lit ''HTTP/'') then None
               else (case parts of [] \<Rightarrow> None | code # _ \<Rightarrow> parse_uint 16 code)))"

definition encode_address :: "sock_addr \<Rightarrow> bytes" where
  "encode_address target =
     (case sa_ip target of V4 v4 \<Rightarrow> UP_ATYP_V4 # octets4 v4 | V6 v6 \<Rightarrow> UP_ATYP_V6 # octets6 v6)
     @ to_be16 (sa_port target)"

definition encode_request :: "u8 \<Rightarrow> sock_addr \<Rightarrow> bytes" where
  "encode_request command target = [UP_VER, command, 0x00] @ encode_address target"

definition encode_udp_header :: "sock_addr \<Rightarrow> bytes" where
  "encode_udp_header target = [0x00, 0x00, 0x00] @ encode_address target"

definition decode_udp_header :: "bytes \<Rightarrow> (sock_addr \<times> nat) option outcome" where
  "decode_udp_header buf =
     (if length buf < 4 then Ret None else
      index buf 2 (\<lambda>frag.
      if frag \<noteq> 0x00 then Ret None else
      index buf 3 (\<lambda>atyp.
      if atyp = UP_ATYP_V4 then
        (if length buf < 10 then Ret None else
         slice buf 4 8 (\<lambda>ip. index buf 8 (\<lambda>p0. index buf 9 (\<lambda>p1.
         Ret (Some (sock_addr_new (V4 (ipv4_from ip)) (from_be16 p0 p1), 10))))))
      else if atyp = UP_ATYP_V6 then
        (if length buf < 22 then Ret None else
         slice buf 4 20 (\<lambda>ip. index buf 20 (\<lambda>p0. index buf 21 (\<lambda>p1.
         Ret (Some (sock_addr_new (V6 (ipv6_from ip)) (from_be16 p0 p1), 22))))))
      else if atyp = UP_ATYP_NAME then
        qmark (get_at buf 4) (\<lambda>len.
        let end = 5 + unat len in
        if length buf < end + 2 then Ret None else
        index buf end (\<lambda>p0. index buf (end + 1) (\<lambda>p1.
        slice buf 5 end (\<lambda>name.
        qmark (from_utf8 name) (\<lambda>text.
        qmark (parse_ip text) (\<lambda>ip.
        Ret (Some (sock_addr_new ip (from_be16 p0 p1), end + 2))))))))
      else Ret None)))"

subsection \<open>Talking to the proxy\<close>

text \<open>
  One TCP connection to the proxy. \<open>ue_peer\<close> is what the proxy has sent once it has received the given
  bytes, \<open>ue_end\<close> what follows when it sends no more: silence until the time limit, the end of the
  stream or a failure. A handler answers \<open>None\<close> when it is still waiting at the time limit. Bytes of
  a write that fails count as sent.
\<close>

datatype peer_end = PeerSilent | PeerCloses | PeerFails io_error

record upstream_env =
  ue_connect :: "(io_error + unit) option"
  ue_peer :: "bytes \<Rightarrow> bytes"
  ue_end :: peer_end
  ue_write :: "bytes \<Rightarrow> (io_error + unit) option"
  ue_base64 :: "bytes \<Rightarrow> str"
  ue_lookup :: "str \<Rightarrow> u16 \<Rightarrow> (io_error + sock_addr list) option"
  ue_udp_bind :: "(io_error + unit) option"
  ue_udp_connect :: "sock_addr \<Rightarrow> (io_error + unit) option"

record up_stream =
  up_sent :: bytes
  up_read :: nat

type_synonym 'a dial = "(up_stream, 'a result option) state"

definition dial_return :: "'a \<Rightarrow> 'a dial" where
  "dial_return x = State_Monad.return (Some (Inr x))"

definition dial_fail :: "aether_error \<Rightarrow> 'a dial" where
  "dial_fail e = State_Monad.return (Some (Inl e))"

definition dial_try :: "'a dial \<Rightarrow> ('a \<Rightarrow> 'b dial) \<Rightarrow> 'b dial" where
  "dial_try m k = do {
     r \<leftarrow> m;
     case r of
       None \<Rightarrow> State_Monad.return None
     | Some (Inl e) \<Rightarrow> State_Monad.return (Some (Inl e))
     | Some (Inr x) \<Rightarrow> k x }"

definition dial_io :: "(io_error + 'a) option \<Rightarrow> 'a dial" where
  "dial_io r = State_Monad.return (map_option (map_sum Io (\<lambda>x. x)) r)"

definition up_write :: "upstream_env \<Rightarrow> bytes \<Rightarrow> unit dial" where
  "up_write E bs = do {
     s \<leftarrow> State_Monad.get;
     State_Monad.set (s\<lparr>up_sent := up_sent s @ bs\<rparr>);
     dial_io (ue_write E (up_sent s @ bs)) }"

definition unexpected_eof :: io_error where
  "unexpected_eof = \<lparr>io_kind = UnexpectedEof, raw_os_error = None\<rparr>"

definition up_available :: "upstream_env \<Rightarrow> up_stream \<Rightarrow> bytes" where
  "up_available E s = drop (up_read s) (ue_peer E (up_sent s))"

definition up_read_exact :: "upstream_env \<Rightarrow> nat \<Rightarrow> bytes dial" where
  "up_read_exact E n = do {
     s \<leftarrow> State_Monad.get;
     if n \<le> length (up_available E s)
     then do { State_Monad.set (s\<lparr>up_read := up_read s + n\<rparr>); dial_return (take n (up_available E s)) }
     else (case ue_end E of
             PeerSilent \<Rightarrow> State_Monad.return None
           | PeerCloses \<Rightarrow> dial_fail (Io unexpected_eof)
           | PeerFails e \<Rightarrow> dial_fail (Io e)) }"

definition socks_authenticate :: "upstream_env \<Rightarrow> upstream \<Rightarrow> unit dial" where
  "socks_authenticate E u =
     (let user = utf8_encode (case up_user u of None \<Rightarrow> [] | Some s \<Rightarrow> s);
          password = utf8_encode (case up_password u of None \<Rightarrow> [] | Some s \<Rightarrow> s) in
      if 255 < length user \<or> 255 < length password
      then dial_fail (Other (lit ''the upstream proxy credentials are longer than socks5 allows''))
      else
        dial_try (up_write E ([0x01, word_of_nat (length user)] @ user @ [word_of_nat (length password)] @ password)) (\<lambda>_.
        dial_try (up_read_exact E 2) (\<lambda>answer.
        if answer ! 0 \<noteq> 0x01
        then dial_fail (Other (lit ''the upstream proxy answered the password negotiation with the wrong version''))
        else if answer ! 1 \<noteq> 0x00
        then dial_fail (Other (lit ''the upstream proxy refused the credentials supplied''))
        else dial_return ())))"

definition socks_greet :: "upstream_env \<Rightarrow> upstream \<Rightarrow> unit dial" where
  "socks_greet E u =
     (let wants_auth = (up_user u \<noteq> None);
          greeting = (if wants_auth then [UP_VER, 1, UP_AUTH_USERPASS] else [UP_VER, 1, UP_AUTH_NONE]) in
      dial_try (up_write E greeting) (\<lambda>_.
      dial_try (up_read_exact E 2) (\<lambda>answer.
      if answer ! 0 \<noteq> UP_VER then dial_fail (Other (lit ''the upstream proxy did not speak socks5''))
      else if answer ! 1 = UP_AUTH_NONE \<and> wants_auth
      then dial_fail (Other (lit ''the upstream proxy skipped authentication even though credentials are configured''))
      else if answer ! 1 = UP_AUTH_NONE then dial_return ()
      else if answer ! 1 = UP_AUTH_USERPASS then socks_authenticate E u
      else if answer ! 1 = UP_AUTH_REJECTED
      then dial_fail (Other (lit ''the upstream proxy rejected every authentication method offered''))
      else dial_fail (Other (lit ''the upstream proxy asked for authentication method ''
             @ show_nat (unat (answer ! 1)) @ lit '', which aether cannot do'')))))"

definition read_reply_ip :: "upstream_env \<Rightarrow> u8 \<Rightarrow> ip_addr dial" where
  "read_reply_ip E atyp =
     (if atyp = UP_ATYP_V4 then dial_try (up_read_exact E 4) (\<lambda>octets. dial_return (V4 (ipv4_from octets)))
      else if atyp = UP_ATYP_V6 then dial_try (up_read_exact E 16) (\<lambda>octets. dial_return (V6 (ipv6_from octets)))
      else if atyp = UP_ATYP_NAME then
        dial_try (up_read_exact E 1) (\<lambda>len.
        dial_try (up_read_exact E (unat (len ! 0))) (\<lambda>name.
        dial_return (case parse_ip (from_utf8_lossy name) of Some ip \<Rightarrow> ip | None \<Rightarrow> V4 0)))
      else dial_fail (Other (lit ''the upstream proxy sent address type '' @ show_nat (unat atyp)
             @ lit '', which aether cannot read'')))"

definition read_reply :: "upstream_env \<Rightarrow> sock_addr dial" where
  "read_reply E =
     dial_try (up_read_exact E 4) (\<lambda>head.
     if head ! 0 \<noteq> UP_VER
     then dial_fail (Other (lit ''the upstream proxy answered with something other than socks5''))
     else if head ! 1 \<noteq> UP_REP_OK
     then dial_fail (Other (lit ''the upstream proxy refused the request with code '' @ show_nat (unat (head ! 1))))
     else
       dial_try (read_reply_ip E (head ! 3)) (\<lambda>ip.
       dial_try (up_read_exact E 2) (\<lambda>port.
       dial_return (sock_addr_new ip (from_be16 (port ! 0) (port ! 1))))))"

text \<open>
  The head of the answer to an HTTP \<open>CONNECT\<close>, read byte by byte; nothing is written meanwhile. The
  result is the outcome and the number of bytes read.
\<close>

definition crlf2 :: bytes where
  "crlf2 = [13, 10, 13, 10]"

fun http_answer_head :: "peer_end \<Rightarrow> bytes \<Rightarrow> bytes \<Rightarrow> bytes result option \<times> nat" where
  "http_answer_head pe head avail =
     (if 8192 < length head then (Some (Inl (Other (lit ''the upstream proxy sent an oversized answer''))), 0)
      else (case avail of
        [] \<Rightarrow>
          (case pe of
             PeerSilent \<Rightarrow> (None, 0)
           | PeerCloses \<Rightarrow> (Some (Inl (Other (lit ''the upstream proxy closed before answering the connect''))), 0)
           | PeerFails e \<Rightarrow> (Some (Inl (Io e)), 0))
      | b # rest \<Rightarrow>
          if ends_with (head @ [b]) crlf2 then (Some (Inr (head @ [b])), 1)
          else map_prod (\<lambda>r. r) Suc (http_answer_head pe (head @ [b]) rest)))"

definition up_read_head :: "upstream_env \<Rightarrow> bytes dial" where
  "up_read_head E = do {
     s \<leftarrow> State_Monad.get;
     (let (r, n) = http_answer_head (ue_end E) [] (up_available E s) in do {
        State_Monad.set (s\<lparr>up_read := up_read s + n\<rparr>);
        State_Monad.return r }) }"

definition http_connect_request :: "upstream_env \<Rightarrow> upstream \<Rightarrow> sock_addr \<Rightarrow> str" where
  "http_connect_request E u target =
     (let authority = show_sock_addr target; crlf = [13, 10] in
      lit ''CONNECT '' @ authority @ lit '' HTTP/1.1'' @ crlf @ lit ''Host: '' @ authority @ crlf
      @ lit ''Proxy-Connection: Keep-Alive'' @ crlf
      @ (case up_user u of
           None \<Rightarrow> []
         | Some user \<Rightarrow>
             let password = (case up_password u of None \<Rightarrow> [] | Some s \<Rightarrow> s) in
             lit ''Proxy-Authorization: Basic '' @ ue_base64 E (utf8_encode (user @ lit '':'' @ password)) @ crlf)
      @ crlf)"

definition http_connect :: "upstream_env \<Rightarrow> upstream \<Rightarrow> sock_addr \<Rightarrow> unit dial" where
  "http_connect E u target =
     dial_try (up_write E (utf8_encode (http_connect_request E u target))) (\<lambda>_.
     dial_try (up_read_head E) (\<lambda>head.
     case http_answer_status head of
       None \<Rightarrow> dial_fail (Other (lit ''the upstream proxy answer was not http''))
     | Some status \<Rightarrow>
         if \<not> (200 \<le> status \<and> status < 300)
         then dial_fail (Other (lit ''the upstream proxy answered '' @ show_nat status @ lit '' to the connect''))
         else dial_return ()))"

text \<open>\<open>tokio::time::timeout\<close> around an attempt.\<close>

definition with_timeout :: "str \<Rightarrow> 'a dial \<Rightarrow> (up_stream, 'a result) state" where
  "with_timeout message attempt = do {
     r \<leftarrow> attempt;
     State_Monad.return (case r of None \<Rightarrow> Inl (Other message) | Some x \<Rightarrow> x) }"

definition upstream_connect :: "upstream_env \<Rightarrow> upstream \<Rightarrow> sock_addr \<Rightarrow> (up_stream, unit result) state" where
  "upstream_connect E u target =
     with_timeout (lit ''the upstream proxy at '' @ upstream_endpoint u @ lit '' did not answer in time'')
       (dial_try (dial_io (ue_connect E)) (\<lambda>_.
        case up_kind u of
          Socks5 \<Rightarrow>
            dial_try (socks_greet E u) (\<lambda>_.
            dial_try (up_write E (encode_request UP_CMD_CONNECT target)) (\<lambda>_.
            dial_try (read_reply E) (\<lambda>_. dial_return ())))
        | Http \<Rightarrow> http_connect E u target))"

definition relay_address :: "upstream_env \<Rightarrow> sock_addr \<Rightarrow> str \<Rightarrow> u16 \<Rightarrow> sock_addr dial" where
  "relay_address E bound host port =
     (if \<not> is_unspecified (sa_ip bound) \<and> sa_port bound \<noteq> 0 then dial_return bound
      else
        let relay_port = (if sa_port bound = 0 then port else sa_port bound) in
        case parse_ip host of
          Some ip \<Rightarrow> dial_return (sock_addr_new ip relay_port)
        | None \<Rightarrow>
            dial_try (dial_io (ue_lookup E host relay_port)) (\<lambda>found.
            case found of
              [] \<Rightarrow> dial_fail (Other (host @ lit '' does not resolve to a usable relay address''))
            | a # _ \<Rightarrow> dial_return a))"

definition upstream_associate :: "upstream_env \<Rightarrow> upstream \<Rightarrow> (up_stream, sock_addr result) state" where
  "upstream_associate E u =
     (if up_kind u \<noteq> Socks5
      then State_Monad.return (Inl (Other (lit ''only a socks5 proxy can carry udp, an http proxy cannot'')))
      else
        with_timeout (lit ''the upstream proxy at '' @ upstream_endpoint u @ lit '' never opened a udp relay'')
          (dial_try (dial_io (ue_connect E)) (\<lambda>_.
           dial_try (socks_greet E u) (\<lambda>_.
           dial_try (up_write E (encode_request UP_CMD_ASSOCIATE (sock_addr_new (V4 0) 0))) (\<lambda>_.
           dial_try (read_reply E) (\<lambda>bound.
           dial_try (relay_address E bound (up_host u) (up_port u)) (\<lambda>relay.
           dial_try (dial_io (ue_udp_bind E)) (\<lambda>_.
           dial_try (dial_io (ue_udp_connect E relay)) (\<lambda>_.
           dial_return relay)))))))))"

subsection \<open>Detours\<close>

text \<open>
  A local UDP socket whose datagrams go through the relay: the table maps the address of the socket
  to the local shim it must send to and the peer the shim stands for. The mutex around the table is
  never poisoned: nothing panics while it is held.
\<close>

record detour =
  dt_shim :: sock_addr
  dt_peer :: sock_addr

type_synonym detours = "sock_addr \<Rightarrow> detour option"

definition relay_target :: "detours \<Rightarrow> sock_addr \<Rightarrow> sock_addr \<Rightarrow> sock_addr" where
  "relay_target m local intended = (case m local of Some d \<Rightarrow> dt_shim d | None \<Rightarrow> intended)"

definition real_source :: "detours \<Rightarrow> sock_addr \<Rightarrow> sock_addr \<Rightarrow> sock_addr" where
  "real_source m local observed =
     (case m local of
        Some d \<Rightarrow> if dt_shim d = observed then dt_peer d else observed
      | None \<Rightarrow> observed)"

text \<open>
  The operating system's side: binding, the port a socket got, the address of the shim's socket, and
  connecting. A socket keeps the address it was bound to: \<open>local_addr\<close> of a socket bound to the
  wildcard address is the wildcard address.
\<close>

record udp_os =
  uo_bind :: "sock_addr \<Rightarrow> io_error + unit"
  uo_local :: "io_error + u16"
  uo_shim :: "io_error + sock_addr"
  uo_connect :: "sock_addr \<Rightarrow> io_error + unit"

definition fresh_stream :: up_stream where
  "fresh_stream = \<lparr>up_sent = [], up_read = 0\<rparr>"

definition bind_address :: "sock_addr \<Rightarrow> sock_addr" where
  "bind_address peer = sock_addr_new (case sa_ip peer of V4 _ \<Rightarrow> V4 0 | V6 _ \<Rightarrow> V6 0) 0"

definition socket_address :: "sock_addr \<Rightarrow> u16 \<Rightarrow> sock_addr" where
  "socket_address bound port = sock_addr_new (sa_ip bound) port"

text \<open>\<open>attach_detour\<close> on a socket bound to \<open>bound\<close>: its result, the new table and the relay of the spawned pump.\<close>

definition attach_detour ::
  "upstream option \<Rightarrow> upstream_env \<Rightarrow> udp_os \<Rightarrow> sock_addr \<Rightarrow> sock_addr \<Rightarrow> detours
    \<Rightarrow> unit result \<times> detours \<times> sock_addr option" where
  "attach_detour proxy E os bound peer m =
     (case proxy of
        None \<Rightarrow> (Inr (), m, None)
      | Some u \<Rightarrow>
          if is_private (sa_ip peer) then (Inr (), m, None)
          else (case fst (run_state (upstream_associate E u) fresh_stream) of
            Inl e \<Rightarrow> (Inl e, m, None)
          | Inr relay \<Rightarrow>
              (case uo_shim os of
                 Inl e \<Rightarrow> (Inl (Io e), m, None)
               | Inr shim \<Rightarrow>
                   (case uo_local os of
                      Inl e \<Rightarrow> (Inl (Io e), m, None)
                    | Inr port \<Rightarrow>
                        (Inr (), m(socket_address bound port \<mapsto> \<lparr>dt_shim = shim, dt_peer = peer\<rparr>), Some relay)))))"

definition bind_via_upstream ::
  "upstream option \<Rightarrow> upstream_env \<Rightarrow> udp_os \<Rightarrow> sock_addr \<Rightarrow> detours \<Rightarrow> sock_addr result \<times> detours" where
  "bind_via_upstream proxy E os peer m =
     (let bound = bind_address peer in
      case uo_bind os bound of
        Inl e \<Rightarrow> (Inl (Io e), m)
      | Inr _ \<Rightarrow>
          (case attach_detour proxy E os bound peer m of
             (Inl e, m, _) \<Rightarrow> (Inl e, m)
           | (Inr _, m, _) \<Rightarrow>
               (case uo_local os of
                  Inl e \<Rightarrow> (Inl (Io e), m)
                | Inr port \<Rightarrow>
                    let target = relay_target m (socket_address bound port) peer in
                    (case uo_connect os target of Inl e \<Rightarrow> (Inl (Io e), m) | Inr _ \<Rightarrow> (Inr target, m)))))"

subsection \<open>The pump between a shim and its relay\<close>

text \<open>
  An input carries the outcome of the send it leads to. The relay's socket is connected, so only the
  relay's datagrams arrive on it.
\<close>

datatype pump_input =
    ShimDatagram bytes sock_addr "io_error + unit"
  | ShimFails io_error
  | RelayDatagram bytes "io_error + unit"
  | RelayRecvFails io_error

datatype pump_output = ToRelay bytes | ToClient sock_addr bytes

definition invalid_data :: io_error where
  "invalid_data = \<lparr>io_kind = InvalidData, raw_os_error = None\<rparr>"

text \<open>\<open>UdpRelay::send_to\<close> and \<open>UdpRelay::recv_from\<close> into a buffer of \<open>len\<close> bytes.\<close>

definition relay_frame :: "bytes \<Rightarrow> sock_addr \<Rightarrow> bytes" where
  "relay_frame payload target = encode_udp_header target @ payload"

definition relay_recv_from :: "nat \<Rightarrow> bytes \<Rightarrow> (io_error + bytes \<times> sock_addr) outcome" where
  "relay_recv_from len datagram =
     (let framed = take (max len 2048 + 512) datagram in
      out_bind (decode_udp_header framed) (\<lambda>r.
      case r of
        None \<Rightarrow> Ret (Inl invalid_data)
      | Some (origin, offset) \<Rightarrow>
          slice framed offset (length framed) (\<lambda>payload.
          Ret (Inr (take (min (length payload) len) payload, origin)))))"

definition pump_step ::
  "sock_addr \<Rightarrow> sock_addr \<Rightarrow> pump_input \<Rightarrow> (pump_output list \<times> io_error option) outcome" where
  "pump_step client peer i =
     (case i of
        ShimFails e \<Rightarrow> Ret ([], Some e)
      | ShimDatagram data origin sent \<Rightarrow>
          if origin \<noteq> client then Ret ([], None)
          else Ret ([ToRelay (relay_frame data peer)], (case sent of Inl e \<Rightarrow> Some e | Inr _ \<Rightarrow> None))
      | RelayRecvFails e \<Rightarrow> Ret ([], Some e)
      | RelayDatagram datagram sent \<Rightarrow>
          out_bind (relay_recv_from 65535 datagram) (\<lambda>r.
          case r of
            Inl e \<Rightarrow> Ret ([], Some e)
          | Inr (payload, _) \<Rightarrow>
              Ret ([ToClient client payload], (case sent of Inl e \<Rightarrow> Some e | Inr _ \<Rightarrow> None))))"

text \<open>The loop: its outputs and the error it stops with, \<open>None\<close> while it is waiting for the next input.\<close>

fun pump :: "sock_addr \<Rightarrow> sock_addr \<Rightarrow> pump_input list \<Rightarrow> (pump_output list \<times> io_error option) outcome" where
  "pump client peer [] = Ret ([], None)"
| "pump client peer (i # is) =
     out_bind (pump_step client peer i) (\<lambda>(outs, stop).
     case stop of
       Some e \<Rightarrow> Ret (outs, Some e)
     | None \<Rightarrow> out_bind (pump client peer is) (\<lambda>(more_outs, stop). Ret (outs @ more_outs, stop)))"

text \<open>The spawned task: when the pump stops, the detour is forgotten.\<close>

definition pump_task :: "sock_addr \<Rightarrow> sock_addr \<Rightarrow> pump_input list \<Rightarrow> detours \<Rightarrow> (pump_output list \<times> detours) outcome" where
  "pump_task client peer is m =
     out_bind (pump client peer is) (\<lambda>(outs, stop).
     Ret (outs, case stop of None \<Rightarrow> m | Some _ \<Rightarrow> m(client := None)))"

subsection \<open>Running a handshake\<close>

named_theorems dial_simps \<open>equations for running handshakes\<close>

lemma run_dial_pure [dial_simps]:
  "run_state (dial_return x) s = (Some (Inr x), s)"
  "run_state (dial_fail e) s = (Some (Inl e), s)"
  "run_state (dial_io r) s = (map_option (map_sum Io (\<lambda>x. x)) r, s)"
  by (simp_all add: dial_return_def dial_fail_def dial_io_def)

lemma run_dial_try [dial_simps]:
  "run_state (dial_try m k) s =
     (case run_state m s of
        (None, t) \<Rightarrow> (None, t) | (Some (Inl e), t) \<Rightarrow> (Some (Inl e), t) | (Some (Inr x), t) \<Rightarrow> run_state (k x) t)"
  by (auto simp: dial_try_def split: prod.splits option.splits sum.splits)

lemma run_up_write [dial_simps]:
  "run_state (up_write E bs) s =
     (map_option (map_sum Io (\<lambda>x. x)) (ue_write E (up_sent s @ bs)), s\<lparr>up_sent := up_sent s @ bs\<rparr>)"
  by (simp add: up_write_def dial_simps)

lemma run_up_read_exact [dial_simps]:
  "run_state (up_read_exact E n) s =
     (if n \<le> length (up_available E s)
      then (Some (Inr (take n (up_available E s))), s\<lparr>up_read := up_read s + n\<rparr>)
      else (case ue_end E of
              PeerSilent \<Rightarrow> None | PeerCloses \<Rightarrow> Some (Inl (Io unexpected_eof)) | PeerFails e \<Rightarrow> Some (Inl (Io e)), s))"
  by (simp add: up_read_exact_def dial_simps split: peer_end.split)

lemma run_up_read_head [dial_simps]:
  "run_state (up_read_head E) s =
     (fst (http_answer_head (ue_end E) [] (up_available E s)),
      s\<lparr>up_read := up_read s + snd (http_answer_head (ue_end E) [] (up_available E s))\<rparr>)"
  by (simp add: up_read_head_def Let_def case_prod_beta)

lemma run_with_timeout [dial_simps]:
  "run_state (with_timeout msg m) s =
     (case run_state m s of (None, t) \<Rightarrow> (Inl (Other msg), t) | (Some r, t) \<Rightarrow> (r, t))"
  by (auto simp: with_timeout_def split: prod.splits option.splits)

text \<open>What a handshake that goes on has done: it got \<open>x\<close> and left the stream in \<open>t\<close>.\<close>

lemma dial_try_done:
  "run_state (dial_try m k) s = (Some (Inr y), u) \<longleftrightarrow>
     (\<exists>x t. run_state m s = (Some (Inr x), t) \<and> run_state (k x) t = (Some (Inr y), u))"
  by (auto simp: run_dial_try split: prod.splits option.splits sum.splits)

lemma up_write_done:
  "run_state (up_write E bs) s = (Some (Inr x), t) \<Longrightarrow> t = s\<lparr>up_sent := up_sent s @ bs\<rparr>"
  by (simp add: run_up_write)

lemma up_read_exact_done:
  "run_state (up_read_exact E n) s = (Some (Inr x), t) \<Longrightarrow>
     t = s\<lparr>up_read := up_read s + n\<rparr> \<and> x = take n (up_available E s) \<and> length x = n"
  by (auto simp: run_up_read_exact split: if_splits peer_end.splits)

text \<open>Nothing is unsent, and the read position never moves back.\<close>

definition extends_stream :: "up_stream \<Rightarrow> up_stream \<Rightarrow> bool" where
  "extends_stream s t \<longleftrightarrow> (\<exists>bs. up_sent t = up_sent s @ bs) \<and> up_read s \<le> up_read t"

definition reads_only :: "'a dial \<Rightarrow> bool" where
  "reads_only m \<longleftrightarrow> (\<forall>s. up_sent (snd (run_state m s)) = up_sent s)"

lemma reads_only_intros [intro]:
  "reads_only (dial_return x)" "reads_only (dial_fail e)" "reads_only (dial_io r)" "reads_only (up_read_exact E n)"
  "reads_only (up_read_head E)"
  by (simp_all add: reads_only_def dial_simps)

lemma reads_only_try [intro]: "reads_only m \<Longrightarrow> (\<And>x. reads_only (k x)) \<Longrightarrow> reads_only (dial_try m k)"
  by (auto simp: reads_only_def run_dial_try split: prod.splits option.splits sum.splits) (metis snd_conv)+

lemma reads_only_if [intro]: "reads_only a \<Longrightarrow> reads_only b \<Longrightarrow> reads_only (if c then a else b)"
  by simp

lemma read_reply_reads_only: "reads_only (read_reply E)"
  unfolding read_reply_def read_reply_ip_def by (intro reads_only_intros reads_only_try reads_only_if)

subsection \<open>Headers\<close>

lemma decode_udp_total [no_panic]: "returns (decode_udp_header buf)"
  unfolding decode_udp_header_def by (auto intro!: no_panic simp: Let_def)

lemma decode_udp_offset: "decode_udp_header buf = Ret (Some (a, n)) \<Longrightarrow> n \<le> length buf"
  unfolding decode_udp_header_def
  by (auto simp: index_eq_Ret slice_eq_Ret qmark_eq_Some Let_def split: if_splits)

lemma decode_udp_encode:
  "decode_udp_header (encode_udp_header t @ payload) =
     Ret (Some (sock_addr_new (sa_ip t) (sa_port t), length (encode_udp_header t)))"
proof -
  obtain p q where pq: "to_be16 (sa_port t) = [p, q]" "from_be16 p q = sa_port t" by (rule be16_cases)
  show ?thesis
  proof (cases "sa_ip t")
    case (V4 v4)
    obtain a b c d where o: "octets4 v4 = [a, b, c, d]" by (rule octets4_cases)
    then have "ipv4_from [a, b, c, d] = v4" using ipv4_from_octets [of v4] by simp
    then show ?thesis
      using V4 o pq by (simp add: decode_udp_header_def encode_udp_header_def encode_address_def up_consts)
  next
    case (V6 v6)
    have "take 16 (octets6 v6 @ p # q # payload) = octets6 v6" by simp
    then show ?thesis
      using V6 pq
      by (simp add: decode_udp_header_def encode_udp_header_def encode_address_def up_consts nth_append nth_Cons')
  qed
qed

lemma length_udp_header: "length (encode_udp_header t) \<le> 22"
  by (simp add: encode_udp_header_def encode_address_def split: ip_addr.split)

lemma relay_recv_total [no_panic]: "returns (relay_recv_from n d)"
proof -
  have "returns (case r of None \<Rightarrow> Ret (Inl invalid_data)
      | Some (origin, offset) \<Rightarrow> slice f offset (length f) (\<lambda>p. Ret (Inr (take (min (length p) n) p, origin))))"
    if "decode_udp_header f = Ret r" for f r
    using that by (auto split: option.split dest!: decode_udp_offset)
  then show ?thesis
    unfolding relay_recv_from_def Let_def by (intro returns_out_bind decode_udp_total) auto
qed

lemma relay_recv_frame:
  assumes "length payload \<le> 65507"
  shows "relay_recv_from 65535 (relay_frame payload origin) = Ret (Inr (payload, sock_addr_new (sa_ip origin) (sa_port origin)))"
proof -
  have "length (relay_frame payload origin) \<le> 66047"
    using assms length_udp_header [of origin] by (simp add: relay_frame_def)
  with assms show ?thesis by (simp add: relay_recv_from_def relay_frame_def decode_udp_encode)
qed

subsection \<open>The pump\<close>

lemma pump_total: "returns (pump client peer is)"
proof (induction "is")
  case (Cons i js)
  have "returns (pump_step client peer i)"
    by (auto simp: pump_step_def split: pump_input.split sum.split intro!: no_panic)
  with Cons show ?case by (auto intro!: no_panic split: option.split)
qed simp

lemma pump_append:
  "pump client peer is = Ret (outs, None) \<Longrightarrow>
   pump client peer (is @ js) = out_bind (pump client peer js) (\<lambda>(os, stop). Ret (outs @ os, stop))"
proof (induction "is" arbitrary: outs)
  case Nil
  then show ?case by (cases "pump client peer js") auto
next
  case (Cons i "is")
  then obtain o1 o2 where i: "pump_step client peer i = Ret (o1, None)" "pump client peer is = Ret (o2, None)" "outs = o1 @ o2"
    by (auto simp: out_bind_eq_Ret split: option.splits)
  show ?case using i Cons.IH [OF i(2)] by (cases "pump client peer js") auto
qed

text \<open>Datagrams of one detour: the client's, the relay's answers and strangers' at the shim.\<close>

datatype exchange = Request bytes | Answer bytes sock_addr | Stray bytes sock_addr

definition on_the_wire :: "sock_addr \<Rightarrow> exchange \<Rightarrow> pump_input" where
  "on_the_wire client x =
     (case x of
        Request d \<Rightarrow> ShimDatagram d client (Inr ())
      | Answer d origin \<Rightarrow> RelayDatagram (relay_frame d origin) (Inr ())
      | Stray d a \<Rightarrow> ShimDatagram d a (Inr ()))"

definition fits :: "sock_addr \<Rightarrow> exchange \<Rightarrow> bool" where
  "fits client x = (case x of Request _ \<Rightarrow> True | Answer d _ \<Rightarrow> length d \<le> 65507 | Stray _ a \<Rightarrow> a \<noteq> client)"

definition carried :: "sock_addr \<Rightarrow> sock_addr \<Rightarrow> exchange \<Rightarrow> pump_output list" where
  "carried client peer x =
     (case x of Request d \<Rightarrow> [ToRelay (relay_frame d peer)] | Answer d _ \<Rightarrow> [ToClient client d] | Stray _ _ \<Rightarrow> [])"

lemma pump_step_exchange: "fits client x \<Longrightarrow> pump_step client peer (on_the_wire client x) = Ret (carried client peer x, None)"
  by (cases x) (simp_all add: fits_def on_the_wire_def carried_def pump_step_def relay_recv_frame)

lemma pump_exchange:
  "list_all (fits client) xs \<Longrightarrow> pump client peer (map (on_the_wire client) xs) = Ret (concat (map (carried client peer) xs), None)"
  by (induction xs) (simp_all add: pump_step_exchange)

text \<open>A relay that speaks SOCKS5 recovers destination and payload from what the pump sends.\<close>

lemma relay_reads_frame:
  "decode_udp_header (relay_frame d peer) = Ret (Some (sock_addr_new (sa_ip peer) (sa_port peer), length (encode_udp_header peer)))
     \<and> drop (length (encode_udp_header peer)) (relay_frame d peer) = d"
  by (simp add: relay_frame_def decode_udp_encode)

lemma pump_only_client:
  assumes "pump client peer is = Ret (outs, stop)" "ToRelay b \<in> set outs"
  shows "\<exists>d sent. ShimDatagram d client sent \<in> set is \<and> b = relay_frame d peer"
  using assms
proof (induction "is" arbitrary: outs)
  case (Cons i "is")
  then obtain o1 st where i: "pump_step client peer i = Ret (o1, st)"
    by (auto simp: out_bind_eq_Ret)
  have here: "\<exists>d sent. i = ShimDatagram d client sent \<and> b = relay_frame d peer" if "ToRelay b \<in> set o1"
    using i that by (cases i) (auto simp: pump_step_def out_bind_def split: if_splits sum.splits outcome.splits)
  show ?case
  proof (cases st)
    case None
    with Cons.prems(1) i obtain o2 where o: "pump client peer is = Ret (o2, stop)" "outs = o1 @ o2"
      by (auto simp: out_bind_eq_Ret)
    with Cons.prems(2) here Cons.IH [OF o(1)] show ?thesis by auto
  next
    case (Some e)
    with Cons.prems i here show ?thesis by auto
  qed
qed simp

subsection \<open>The handshakes\<close>

definition socks_greeting :: "upstream \<Rightarrow> bytes" where
  "socks_greeting u = [UP_VER, 1, if up_user u = None then UP_AUTH_NONE else UP_AUTH_USERPASS]"

definition auth_message :: "upstream \<Rightarrow> bytes" where
  "auth_message u =
     (let user = utf8_encode (case up_user u of None \<Rightarrow> [] | Some s \<Rightarrow> s);
          password = utf8_encode (case up_password u of None \<Rightarrow> [] | Some s \<Rightarrow> s) in
      [0x01, word_of_nat (length user)] @ user @ [word_of_nat (length password)] @ password)"

lemma two_bytes: "length x = 2 \<Longrightarrow> x ! 0 = a \<Longrightarrow> x ! 1 = b \<Longrightarrow> x = [a, b]"
  by (auto simp: length_Suc_conv numeral_2_eq_2)

lemma socks_authenticate_run:
  assumes "run_state (socks_authenticate E u) s = (r, t)"
  shows "up_sent t \<in> {up_sent s, up_sent s @ auth_message u} \<and>
     (r = Some (Inr ()) \<longrightarrow>
        t = \<lparr>up_sent = up_sent s @ auth_message u, up_read = up_read s + 2\<rparr>
        \<and> take 2 (drop (up_read s) (ue_peer E (up_sent t))) = [1, 0])"
  using assms
  by (auto simp: socks_authenticate_def auth_message_def Let_def dial_simps up_available_def two_bytes
      split: if_splits option.splits sum.splits peer_end.splits)

lemma socks_greet_run:
  assumes "run_state (socks_greet E u) fresh_stream = (r, t)"
  shows "up_sent t \<in> {socks_greeting u, socks_greeting u @ auth_message u}
     \<and> (take 2 (ue_peer E (socks_greeting u)) \<noteq> [5, 2] \<longrightarrow>
          up_sent t = socks_greeting u \<and> (r = Some (Inr ()) \<longrightarrow> up_user u = None))
     \<and> (r = Some (Inr ()) \<and> up_user u \<noteq> None \<longrightarrow>
          t = \<lparr>up_sent = socks_greeting u @ auth_message u, up_read = 4\<rparr>
          \<and> take 2 (drop 2 (ue_peer E (up_sent t))) = [1, 0])"
proof -
  let ?s = "\<lparr>up_sent = socks_greeting u, up_read = Suc (Suc 0)\<rparr>"
  have run: "run_state (socks_greet E u) fresh_stream = (r, t) \<Longrightarrow>
      (up_sent t = socks_greeting u \<and> (r = Some (Inr ()) \<longrightarrow> up_user u = None))
      \<or> (take 2 (ue_peer E (socks_greeting u)) = [5, 2] \<and> run_state (socks_authenticate E u) ?s = (r, t))"
    by (auto simp: socks_greet_def socks_greeting_def fresh_stream_def Let_def dial_simps up_available_def up_consts two_bytes
        split: if_splits option.splits sum.splits peer_end.splits)
  from run [OF assms] show ?thesis
    using socks_authenticate_run [of E u ?s r t] by (auto simp flip: numeral_2_eq_2)
qed

lemma http_answer_head_done:
  assumes "http_answer_head pe head avail = (Some (Inr h), n)"
  shows "h = head @ take n avail \<and> 0 < n \<and> n \<le> length avail \<and> ends_with h crlf2 \<and> length h \<le> 8193
     \<and> list_all (\<lambda>k. \<not> ends_with (head @ take (Suc k) avail) crlf2) [0..<n - 1]"
  using assms
proof (induction avail arbitrary: head n)
  case Nil
  then show ?case by (simp split: if_splits peer_end.splits)
next
  case (Cons b rest)
  show ?case
  proof (cases "ends_with (head @ [b]) crlf2")
    case True
    with Cons.prems show ?thesis by (auto split: if_splits)
  next
    case False
    with Cons.prems obtain k where k: "http_answer_head pe (head @ [b]) rest = (Some (Inr h), k)" "n = Suc k"
      by (cases "http_answer_head pe (head @ [b]) rest") (auto simp del: http_answer_head.simps(1) simp: http_answer_head.simps(1) [of _ _ "b # rest"] split: if_splits)
    have "[0..<k] = 0 # map Suc [0..<k - 1]" if "0 < k"
      using that by (metis map_Suc_upt upt_conv_Cons Suc_pred')
    with Cons.IH [OF k(1)] k(2) False show ?thesis by (auto simp: list.pred_map comp_def simp del: upt_Suc)
  qed
qed

lemma http_connect_run:
  assumes "run_state (http_connect E u target) fresh_stream = (Some (Inr ()), t)"
  shows "up_sent t = utf8_encode (http_connect_request E u target) \<and>
     (\<exists>status. http_answer_status (take (up_read t) (ue_peer E (up_sent t))) = Some status \<and> 200 \<le> status \<and> status < 300)
     \<and> up_read t \<le> length (ue_peer E (up_sent t)) \<and> up_read t \<le> 8193
     \<and> ends_with (take (up_read t) (ue_peer E (up_sent t))) crlf2
     \<and> list_all (\<lambda>k. \<not> ends_with (take (Suc k) (ue_peer E (up_sent t))) crlf2) [0..<up_read t - 1]"
proof -
  let ?q = "utf8_encode (http_connect_request E u target)"
  obtain h n where h: "http_answer_head (ue_end E) [] (ue_peer E ?q) = (Some (Inr h), n)"
    and t: "t = \<lparr>up_sent = ?q, up_read = n\<rparr>"
    and st: "\<exists>status. http_answer_status h = Some status \<and> 200 \<le> status \<and> status < 300"
    using assms
    by (cases "http_answer_head (ue_end E) [] (ue_peer E ?q)")
      (auto simp: http_connect_def fresh_stream_def dial_simps up_available_def split: if_splits option.splits sum.splits)
  from http_answer_head_done [OF h] t st show ?thesis by auto
qed

lemma read_reply_sent: "run_state (read_reply E) v = (q, w) \<Longrightarrow> up_sent w = up_sent v"
  using read_reply_reads_only [of E] unfolding reads_only_def by (metis snd_conv)

lemma read_reply_ok:
  assumes "run_state (read_reply E) v = (Some (Inr a), w)"
  shows "take 2 (up_available E v) = [5, 0] \<and> up_sent w = up_sent v"
proof -
  obtain head t where head: "run_state (up_read_exact E 4) v = (Some (Inr head), t)"
    "head ! 0 = UP_VER" "head ! 1 = UP_REP_OK"
    using assms unfolding read_reply_def by (auto simp: dial_try_done run_dial_pure split: if_splits)
  then have "head = take 4 (up_available E v)" "length head = 4" using up_read_exact_done by blast+
  with head(2,3) read_reply_sent [OF assms] show ?thesis by (intro conjI two_bytes) (auto simp: up_consts)
qed

lemma upstream_connect_socks_run:
  assumes "run_state (upstream_connect E u target) fresh_stream = (r, s)" "up_kind u = Socks5" "up_user u \<noteq> None"
  shows "(take 2 (ue_peer E (socks_greeting u)) \<noteq> [5, 2] \<longrightarrow> r \<noteq> Inr () \<and> up_sent s \<in> {[], socks_greeting u})
     \<and> (r = Inr () \<longrightarrow>
          up_sent s = socks_greeting u @ auth_message u @ encode_request UP_CMD_CONNECT target
          \<and> take 2 (ue_peer E (socks_greeting u)) = [5, 2]
          \<and> take 2 (drop 2 (ue_peer E (socks_greeting u @ auth_message u))) = [1, 0]
          \<and> take 2 (drop 4 (ue_peer E (up_sent s))) = [5, 0])"
proof -
  obtain g t where g: "run_state (socks_greet E u) fresh_stream = (g, t)" by fastforce
  note G = socks_greet_run [OF g]
  let ?k = "dial_try (up_write E (encode_request UP_CMD_CONNECT target)) (\<lambda>_. dial_try (read_reply E) (\<lambda>_. dial_return ()))"
  have start: "(r \<noteq> Inr () \<and> s = fresh_stream) \<or> (r \<noteq> Inr () \<and> s = t \<and> g \<noteq> Some (Inr ()))
      \<or> (g = Some (Inr ()) \<and> (\<exists>q. run_state ?k t = (q, s) \<and> (r = Inr () \<longrightarrow> q = Some (Inr ()))))"
    using assms(1,2) g
    by (auto simp: upstream_connect_def run_with_timeout run_dial_pure run_dial_try [of "dial_io _"] run_dial_try [of "socks_greet _ _"]
        split: option.splits sum.splits prod.splits)
  have fin: "up_sent s = up_sent t @ encode_request UP_CMD_CONNECT target \<and> take 2 (drop (up_read t) (ue_peer E (up_sent s))) = [5, 0]"
    if "run_state ?k t = (Some (Inr ()), s)"
    using that by (auto simp: dial_try_done run_dial_pure up_available_def dest!: up_write_done read_reply_ok)
  from start G fin assms(3) show ?thesis by (elim disjE) (auto simp: fresh_stream_def)
qed

subsection \<open>The syntax of the setting\<close>

text \<open>The percent encoding of every byte of a text.\<close>

definition percent_byte :: "u8 \<Rightarrow> str" where
  "percent_byte b = [37, hex_digit (unat b div 16), hex_digit (unat b mod 16)]"

definition percent_encode :: "str \<Rightarrow> str" where
  "percent_encode s = concat (map percent_byte (utf8_encode s))"

lemma hex_digit_value:
  "d < 16 \<Longrightarrow> digit_value 16 (hex_digit d) = Some d \<and> hex_digit d < 128 \<and> 48 \<le> hex_digit d
     \<and> (is_digit (hex_digit d) \<or> is_lower (hex_digit d))"
  by (auto simp: hex_digit_def digit_value_def chr_defs)

lemma high_nibble: "unat (b :: u8) div 16 < 16"
  using unat_u8_less [of b] by (intro less_mult_imp_div_less) simp

lemma percent_byte_ascii: "list_all (\<lambda>c. c < 128) (percent_byte b)"
  using hex_digit_value [OF high_nibble, of b] hex_digit_value [of "unat b mod 16"]
  by (simp add: percent_byte_def)

lemma percent_encode_ascii: "list_all (\<lambda>c. c < 128) (percent_encode s)"
proof -
  have "list_all (\<lambda>c. c < 128) (concat (map percent_byte bs))" for bs
    by (induction bs) (use percent_byte_ascii in auto)
  then show ?thesis by (simp add: percent_encode_def)
qed

lemma percent_byte_chars: "c \<in> set (percent_byte b) \<Longrightarrow> c = 37 \<or> is_digit c \<or> is_lower c"
  using hex_digit_value [OF high_nibble, of b] hex_digit_value [of "unat b mod 16"] by (auto simp: percent_byte_def)

lemma percent_encode_chars: "c \<in> set (percent_encode s) \<Longrightarrow> c = 37 \<or> is_digit c \<or> is_lower c"
  using percent_byte_chars by (auto simp: percent_encode_def)

lemma parse_hex_pair:
  assumes "a < 16" "b < 16"
  shows "parse_hex_u8 [hex_digit a, hex_digit b] = Some (word_of_nat (a * 16 + b))"
proof -
  have "hex_digit a \<noteq> 43" "a * 16 + b < 256" using hex_digit_value [OF assms(1)] assms by auto
  then show ?thesis using assms by (simp add: parse_hex_u8_def parse_hex_def hex_digit_value Let_def)
qed

lemma percent_bytes_escape: "percent_bytes (map word_of_nat (percent_byte b) @ bs) = b # percent_bytes bs"
proof -
  let ?x = "hex_digit (unat b div 16)" and ?y = "hex_digit (unat b mod 16)"
  have small: "?x < 128" "?y < 128" using hex_digit_value [OF high_nibble, of b] hex_digit_value [of "unat b mod 16"] by auto
  then have "from_utf8 [word_of_nat ?x, word_of_nat ?y] = Some [?x, ?y]"
    using from_utf8_encode_ascii [of "[?x, ?y]"] by (simp add: utf8_encode_ascii)
  then show ?thesis
    using parse_hex_pair [OF high_nibble, of "unat b mod 16" b] by (simp add: percent_byte_def div_mult_mod_eq)
qed

lemma percent_decode_encode:
  assumes "list_all scalar s"
  shows "percent_decode (percent_encode s) = s"
proof -
  have "percent_bytes (map word_of_nat (concat (map percent_byte bs))) = bs" for bs
    by (induction bs) (simp_all add: percent_bytes_escape)
  then have "percent_bytes (utf8_encode (percent_encode s)) = utf8_encode s"
    by (simp add: utf8_encode_ascii percent_encode_ascii) (simp add: percent_encode_def)
  then show ?thesis using utf8_roundtrip [OF assms] by (simp add: percent_decode_def)
qed

lemma find_sub_first: "x \<notin> set s \<Longrightarrow> find_sub (x # p) (s @ (x # p) @ t) = Some (length s)"
  by (induction s) (auto simp: starts_with_def)

lemma split_once_str_first: "x \<notin> set s \<Longrightarrow> split_once_str (x # p) (s @ (x # p) @ t) = Some (s, t)"
  by (simp add: split_once_str_def find_sub_first del: append_Cons)

lemma trim_ends:
  assumes "s \<noteq> []" "\<not> is_whitespace (hd s)" "\<not> is_whitespace (last s)"
  shows "trim s = s"
proof -
  have "dropWhile is_whitespace s = s" using assms(1,2) by (cases s) simp_all
  moreover have "dropWhile is_whitespace (rev s) = rev s" using assms(1,3) by (cases s rule: rev_cases) simp_all
  ultimately show ?thesis by (simp add: trim_def trim_start_def trim_end_def)
qed

text \<open>The text of a setting: the URL with the credentials in front of the host.\<close>

definition host_text :: "str \<Rightarrow> str" where
  "host_text h = (if ch (CHR '':'') \<in> set h then lit ''['' @ h @ lit '']'' else h)"

definition endpoint_text :: "upstream \<Rightarrow> str" where
  "endpoint_text u = host_text (up_host u) @ lit '':'' @ show_nat (unat (up_port u))"

definition credentials_text :: "upstream \<Rightarrow> str" where
  "credentials_text u =
     (case up_user u of
        None \<Rightarrow> []
      | Some user \<Rightarrow>
          percent_encode user
          @ (case up_password u of None \<Rightarrow> [] | Some password \<Rightarrow> lit '':'' @ percent_encode password) @ lit ''@'')"

definition setting_text :: "upstream \<Rightarrow> str" where
  "setting_text u =
     (case up_kind u of Socks5 \<Rightarrow> lit ''socks5h'' | Http \<Rightarrow> lit ''http'') @ lit ''://''
     @ credentials_text u @ endpoint_text u"

definition upstream_ok :: "upstream \<Rightarrow> bool" where
  "upstream_ok u \<longleftrightarrow>
     up_host u \<noteq> [] \<and> up_port u \<noteq> 0 \<and> ch (CHR ''@'') \<notin> set (up_host u)
     \<and> (up_password u \<noteq> None \<longrightarrow> up_user u \<noteq> None)"

text \<open>A host name or address without brackets.\<close>

definition plain_upstream_host :: "str \<Rightarrow> bool" where
  "plain_upstream_host h \<longleftrightarrow> ch (CHR ''['') \<notin> set h \<and> ch (CHR '']'') \<notin> set h"

lemma url_text: "upstream_url u = setting_text (u\<lparr>up_user := None, up_password := None\<rparr>)"
  by (simp add: upstream_url_def setting_text_def credentials_text_def endpoint_text_def host_text_def Let_def)

lemma split_endpoint_text:
  assumes "upstream_ok u" "plain_upstream_host (up_host u)"
  shows "split_endpoint (endpoint_text u) = Inr (up_host u, up_port u)"
proof -
  let ?p = "show_nat (unat (up_port u))"
  have p: "parse_uint 16 ?p = Some (unat (up_port u))"
    using parse_uint_show [of "unat (up_port u)" 16] unsigned_less [of "up_port u", where ?'a = nat] by simp
  have "list_all is_digit ?p" using show_nat_digits by blast
  then have c: "58 \<notin> set ?p" by (auto simp: list_all_iff is_digit_def)
  have "unat (up_port u) \<noteq> 0" "up_host u \<noteq> []" using assms(1) by (auto simp: upstream_ok_def unat_eq_zero)
  note facts = p this
  show ?thesis
  proof (cases "58 \<in> set (up_host u)")
    case True
    have "split_once 93 (up_host u @ 93 # 58 # ?p) = Some (up_host u, 58 # ?p)"
      using assms(2) by (simp add: split_once_Some plain_upstream_host_def ch_def)
    with True facts show ?thesis
      by (simp add: split_endpoint_def endpoint_text_def host_text_def ch_def strip_prefix_def starts_with_def Let_def)
  next
    case False
    have "rsplit_once 58 (up_host u @ 58 # ?p) = Some (up_host u, ?p)" using c by (simp add: rsplit_once_Some)
    moreover have "\<not> starts_with (up_host u @ 58 # ?p) [91]"
      using assms(2) facts(3) by (cases "up_host u") (auto simp: starts_with_def plain_upstream_host_def ch_def)
    ultimately show ?thesis using False facts
      by (simp add: split_endpoint_def endpoint_text_def host_text_def ch_def strip_prefix_def Let_def)
  qed
qed

lemma port_text:
  "show_nat (unat (p :: u16)) \<noteq> []" "last (show_nat (unat p)) \<noteq> 47" "\<not> is_whitespace (last (show_nat (unat p)))"
  "64 \<notin> set (show_nat (unat p))"
proof -
  have "list_all is_digit (show_nat (unat p))" using show_nat_digits by blast
  then have d: "is_digit c" if "c \<in> set (show_nat (unat p))" for c using that by (simp add: list_all_iff)
  have "is_digit (last (show_nat (unat p)))" by (rule d) simp
  with d [of 64] show "last (show_nat (unat p)) \<noteq> 47" "\<not> is_whitespace (last (show_nat (unat p)))" "64 \<notin> set (show_nat (unat p))"
    by (auto simp: chr_defs)
qed simp

lemma percent_encode_plain: "58 \<notin> set (percent_encode s)" "64 \<notin> set (percent_encode s)"
  using percent_encode_chars [of 58 s] percent_encode_chars [of 64 s] by (auto simp: chr_defs)

lemma split_credentials:
  assumes "64 \<notin> set e"
  shows "(case rsplit_once 64 (credentials_text u @ e) of Some (c, endpoint) \<Rightarrow> (Some c, endpoint) | None \<Rightarrow> (None, credentials_text u @ e))
     = (case up_user u of None \<Rightarrow> None
        | Some _ \<Rightarrow> Some (butlast (credentials_text u)), e)"
proof (cases "up_user u")
  case None
  with assms show ?thesis by (simp add: credentials_text_def rsplit_once_None [THEN iffD2])
next
  case (Some n)
  then have c: "credentials_text u = butlast (credentials_text u) @ [64]"
    by (simp add: credentials_text_def butlast_append)
  have "rsplit_once 64 (credentials_text u @ e) = Some (butlast (credentials_text u), e)"
    unfolding rsplit_once_Some using assms by (subst c) simp
  with Some show ?thesis by simp
qed

lemma parse_credentials_text:
  assumes "upstream_ok u" "\<And>s. up_user u = Some s \<or> up_password u = Some s \<Longrightarrow> list_all scalar s"
  shows "parse_credentials (case up_user u of None \<Rightarrow> None | Some _ \<Rightarrow> Some (butlast (credentials_text u)))
     = (up_user u, up_password u)"
proof (cases "up_user u")
  case None
  with assms(1) show ?thesis by (simp add: parse_credentials_def upstream_ok_def)
next
  case (Some n)
  have n: "percent_decode (percent_encode n) = n" using assms(2) Some by (simp add: percent_decode_encode)
  show ?thesis
  proof (cases "up_password u")
    case None
    then show ?thesis using Some n percent_encode_plain(1) [of n]
      by (simp add: parse_credentials_def credentials_text_def butlast_append ch_def split_once_None [THEN iffD2])
  next
    case (Some p)
    have "split_once 58 (percent_encode n @ 58 # percent_encode p) = Some (percent_encode n, percent_encode p)"
      using percent_encode_plain(1) by (simp add: split_once_Some)
    moreover have "percent_decode (percent_encode p) = p" using assms(2) Some by (simp add: percent_decode_encode)
    ultimately show ?thesis using \<open>up_user u = Some n\<close> Some n
      by (simp add: parse_credentials_def credentials_text_def butlast_append ch_def)
  qed
qed

lemma parse_setting:
  assumes "upstream_ok u" "plain_upstream_host (up_host u)" "\<And>s. up_user u = Some s \<or> up_password u = Some s \<Longrightarrow> list_all scalar s"
  shows "upstream_parse U (setting_text u) = Inr u"
proof -
  define scheme where "scheme = (case up_kind u of Socks5 \<Rightarrow> lit ''socks5h'' | Http \<Rightarrow> lit ''http'')"
  let ?rest = "credentials_text u @ endpoint_text u"
  have s: "setting_text u = scheme @ (58 # [47, 47]) @ ?rest" by (simp add: setting_text_def scheme_def)
  have scheme: "58 \<notin> set scheme" "\<not> is_whitespace (hd scheme)" "scheme \<noteq> []" "to_lowercase U scheme = scheme"
    "proxy_kind_of scheme = Inr (up_kind u)"
    by (cases "up_kind u"; simp add: scheme_def chr_defs to_lowercase_ascii proxy_kind_of_def)+
  have e: "last ?rest = last (show_nat (unat (up_port u)))" "last (endpoint_text u) = last (show_nat (unat (up_port u)))"
    "endpoint_text u \<noteq> []"
    using port_text(1) [of "up_port u"] by (simp_all add: endpoint_text_def)
  have "64 \<notin> set (endpoint_text u)"
    using assms(1) port_text(4) by (simp add: endpoint_text_def host_text_def upstream_ok_def ch_def)
  note c = split_credentials [OF this, of u]
  have "trim (setting_text u) = setting_text u"
    by (rule trim_ends) (use scheme e port_text in \<open>simp_all add: s\<close>)
  moreover have "split_once_str (lit ''://'') (setting_text u) = Some (scheme, ?rest)"
    unfolding s using split_once_str_first [OF scheme(1), of "[47, 47]" ?rest] by simp
  moreover have "trim_end_matches 47 (endpoint_text u) = endpoint_text u"
    by (rule trim_end_matches_last) (use e port_text in simp_all)
  ultimately show ?thesis
    using scheme c split_endpoint_text [OF assms(1,2)] parse_credentials_text [OF assms(1,3)]
    by (simp add: upstream_parse_def ch_def Let_def)
qed

lemma split_endpoint_ok: "split_endpoint e = Inr (h, p) \<Longrightarrow> h \<noteq> [] \<and> p \<noteq> 0 \<and> set h \<subseteq> set e"
proof -
  assume *: "split_endpoint e = Inr (h, p)"
  have w: "word_of_nat n \<noteq> (0 :: u16)" if "n \<noteq> 0" "parse_uint 16 t = Some n" for n t
  proof
    assume "word_of_nat n = (0 :: u16)"
    then have "unat (word_of_nat n :: u16) = 0" by simp
    with that parse_uint_less [OF that(2)] show False by (simp add: unat_of_nat)
  qed
  have d: "x \<in> set e" if "drop k e = h @ y" "x \<in> set h" for k x y
    using that set_drop_subset [of k e] by auto
  show ?thesis
    using * by (auto simp: split_endpoint_def Let_def strip_prefix_def split_once_Some rsplit_once_Some w
        split: if_splits option.splits intro: d)
qed

lemma credentials_paired: "parse_credentials c = (a, b) \<Longrightarrow> b \<noteq> None \<Longrightarrow> a \<noteq> None"
  by (auto simp: parse_credentials_def split: option.splits prod.splits)

subsection \<open>Properties\<close>

text \<open>
  An upstream setting that is accepted is well formed: the host is not empty and holds no at sign, the
  port is not zero, and there is no password without a user. For a host without brackets the URL that
  is handed to the API client names the same proxy: parsing it gives the setting without credentials.
\<close>
lemma upstream_setting_sound:
  assumes "upstream_parse U raw = Inr u"
  shows "upstream_ok u
     \<and> (plain_upstream_host (up_host u) \<longrightarrow>
          upstream_parse U (upstream_url u) = Inr (u\<lparr>up_user := None, up_password := None\<rparr>))"
proof -
  obtain c e h p where e: "split_endpoint (trim_end_matches 47 e) = Inr (h, p)" "64 \<notin> set e"
    and u: "up_host u = h" "up_port u = p" "parse_credentials c = (up_user u, up_password u)"
    using assms by (fastforce simp: upstream_parse_def Let_def ch_def rsplit_once_Some rsplit_once_None
        split: sum.splits option.splits prod.splits)
  have "64 \<notin> set h" using split_endpoint_ok [OF e(1)] e(2) set_trim_end_matches [of 47 e] by auto
  moreover have "up_password u \<noteq> None \<Longrightarrow> up_user u \<noteq> None" using credentials_paired [OF u(3)] .
  ultimately have ok: "upstream_ok u" using split_endpoint_ok [OF e(1)] u by (simp add: upstream_ok_def ch_def)
  moreover have "upstream_parse U (upstream_url u) = Inr (u\<lparr>up_user := None, up_password := None\<rparr>)"
    if "plain_upstream_host (up_host u)"
    unfolding url_text by (rule parse_setting) (use ok that in \<open>auto simp: upstream_ok_def\<close>)
  ultimately show ?thesis by blast
qed

definition sample_upstream :: upstream where
  "sample_upstream = \<lparr>up_kind = Socks5, up_host = lit ''proxy.example'', up_port = 1080,
     up_user = Some (lit ''alice''), up_password = Some (lit ''p@ss'')\<rparr>"

lemma sample_upstream_ok:
  "upstream_ok sample_upstream" "plain_upstream_host (up_host sample_upstream)"
  "up_user sample_upstream = Some s \<or> up_password sample_upstream = Some s \<Longrightarrow> list_all scalar s"
  by (auto simp: sample_upstream_def upstream_ok_def plain_upstream_host_def ch_def scalar_def)

text \<open>
  Any user name and password, percent-encoded byte by byte, arrive unchanged: writing a well-formed
  setting whose host has no brackets as a URL and parsing it gives the setting back, whatever the
  credentials contain.
\<close>
lemma upstream_setting_roundtrip:
  assumes "upstream_ok u" "plain_upstream_host (up_host u)"
    and "list_all scalar (case_option [] (\<lambda>s. s) (up_user u))" "list_all scalar (case_option [] (\<lambda>s. s) (up_password u))"
  shows "upstream_parse U (setting_text u) = Inr u"
  by (rule parse_setting) (use assms in auto)


definition sample_proxy :: upstream_env where
  "sample_proxy = \<lparr>ue_connect = Some (Inr ()),
     ue_peer = (\<lambda>sent. take (if length sent < 3 then 0 else if length sent < 6 then 2 else if length sent < 20 then 4 else 14)
       [5, 2, 1, 0, 5, 0, 0, 1, 127, 0, 0, 1, 4, 56]),
     ue_end = PeerSilent, ue_write = (\<lambda>_. Some (Inr ())), ue_base64 = map unat,
     ue_lookup = (\<lambda>_ _. Some (Inr [])), ue_udp_bind = Some (Inr ()), ue_udp_connect = (\<lambda>_. Some (Inr ()))\<rparr>"

lemma sample_greet:
  "run_state (socks_greet sample_proxy sample_upstream) fresh_stream
     = (Some (Inr ()), \<lparr>up_sent = [5, 1, 2] @ auth_message sample_upstream, up_read = 4\<rparr>)"
  "length (auth_message sample_upstream) = 12"
  by (simp_all add: socks_greet_def socks_authenticate_def auth_message_def sample_upstream_def sample_proxy_def fresh_stream_def
      dial_simps up_available_def up_consts utf8_encode_ascii)

lemma sample_connect:
  "run_state (upstream_connect sample_proxy sample_upstream (sock_addr_new (V4 1) 443)) fresh_stream
     = (Inr (), \<lparr>up_sent = [5, 1, 2] @ auth_message sample_upstream @ encode_request UP_CMD_CONNECT (sock_addr_new (V4 1) 443), up_read = 14\<rparr>)"
proof -
  have k: "up_kind sample_upstream = Socks5" by (simp add: sample_upstream_def)
  have len: "length (encode_request UP_CMD_CONNECT (sock_addr_new (V4 1) 443)) = 10"
    by (simp add: encode_request_def encode_address_def sock_addr_new_def)
  show ?thesis
    using sample_greet len
    by (simp add: upstream_connect_def k dial_simps, simp add: sample_proxy_def dial_simps up_available_def read_reply_def read_reply_ip_def up_consts)
qed


lemma attach_detour_done:
  assumes "attach_detour proxy E os bound peer m = (Inr (), m', Some relay)" "uo_local os = Inr port"
  shows "\<exists>shim. uo_shim os = Inr shim \<and> m' = m(socket_address bound port \<mapsto> \<lparr>dt_shim = shim, dt_peer = peer\<rparr>)
     \<and> \<not> is_private (sa_ip peer)"
  using assms by (auto simp: attach_detour_def split: option.splits sum.splits if_splits)


definition sample_os :: udp_os where
  "sample_os = \<lparr>uo_bind = (\<lambda>_. Inr ()), uo_local = Inr 40000, uo_shim = Inr (sock_addr_new (V4 0x7F000001) 50000),
     uo_connect = (\<lambda>_. Inr ())\<rparr>"

definition sample_peer :: sock_addr where
  "sample_peer = sock_addr_new (V4 (ipv4_from [1, 2, 3, 4])) 2408"

lemma sample_associate:
  "fst (run_state (upstream_associate sample_proxy sample_upstream) fresh_stream) = Inr (sock_addr_new (V4 0x7F000001) 1080)"
proof -
  have k: "up_kind sample_upstream = Socks5" by (simp add: sample_upstream_def)
  have len: "length (encode_request UP_CMD_ASSOCIATE (sock_addr_new (V4 0) 0)) = 10"
    by (simp add: encode_request_def encode_address_def sock_addr_new_def)
  have ip: "ipv4_from [127, 0, 0, 1] = 0x7F000001" "from_be16 4 56 = 1080"
    by (simp_all add: ipv4_from_def from_be16_def be_dec_def)
  show ?thesis
    using sample_greet len
    by (simp add: upstream_associate_def k dial_simps,
        simp add: sample_proxy_def dial_simps up_available_def read_reply_def read_reply_ip_def relay_address_def up_consts ip
          is_unspecified_def sock_addr_new_def)
qed

lemma sample_attach:
  "attach_detour (Some sample_upstream) sample_proxy sample_os bound sample_peer (\<lambda>_. None)
     = (Inr (), (\<lambda>_. None)(socket_address bound 40000 \<mapsto> \<lparr>dt_shim = sock_addr_new (V4 0x7F000001) 50000, dt_peer = sample_peer\<rparr>),
        Some (sock_addr_new (V4 0x7F000001) 1080))"
proof -
  have "octets4 (ipv4_from [1, 2, 3, 4]) = [1, 2, 3, 4]" by (rule octets4_from) simp
  moreover have "ipv4_from [1, 2, 3, 4] = 0x01020304" by (simp add: ipv4_from_def be_dec_def)
  ultimately have "\<not> is_private (sa_ip sample_peer)"
    by (simp add: sample_peer_def sock_addr_new_def is_private_def v4_is_private_def is_loopback_def v4_is_link_local_def
        v4_is_broadcast_def v4_is_documentation_def is_unspecified_def Let_def)
  then show ?thesis by (simp add: attach_detour_def sample_associate sample_os_def)
qed


text \<open>
  A detour of a socket that is bound to the wildcard address carries nothing. \<open>bind_via_upstream\<close> binds
  to the wildcard address and the detour is keyed by that address, while the shim compares it with
  the source address of what it receives, which is never the wildcard address: whatever the client
  sends, nothing reaches the relay.
\<close>
lemma wildcard_detour_silent:
  assumes "bind_via_upstream proxy E os peer m = (Inr target, m')" "uo_local os = Inr port"
    and "list_all (\<lambda>i. case i of ShimDatagram _ source _ \<Rightarrow> \<not> is_unspecified (sa_ip source) | _ \<Rightarrow> True) is"
  shows "target = relay_target m' (socket_address (bind_address peer) port) peer
     \<and> (\<exists>outs stop. pump (socket_address (bind_address peer) port) peer is = Ret (outs, stop)
          \<and> list_all (\<lambda>e. case e of ToRelay _ \<Rightarrow> False | _ \<Rightarrow> True) outs)"
proof -
  let ?c = "socket_address (bind_address peer) port"
  obtain outs stop where p: "pump ?c peer is = Ret (outs, stop)"
    using pump_total [of ?c peer "is"] by (auto simp: returns_iff)
  have c: "is_unspecified (sa_ip ?c)"
    by (simp add: socket_address_def bind_address_def sock_addr_new_def is_unspecified_def split: ip_addr.split)
  have "ToRelay b \<notin> set outs" for b
    using pump_only_client [OF p, of b] assms(3) c by (auto simp: list_all_iff split: pump_input.splits)
  then have "list_all (\<lambda>e. case e of ToRelay _ \<Rightarrow> False | _ \<Rightarrow> True) outs"
    by (auto simp: list_all_iff split: pump_output.split)
  moreover have "target = relay_target m' ?c peer"
    using assms(1,2) by (auto simp: bind_via_upstream_def Let_def split: sum.splits prod.splits)
  ultimately show ?thesis using p by blast
qed

text \<open>
  A detour fails open. However much it has carried, one datagram from the relay whose header cannot be
  read ends the pump and forgets the detour, and from then on \<open>relay_target\<close> names the peer itself: a
  socket that asks it for every datagram, as the QUIC transport does, sends past the configured proxy.
\<close>
lemma detour_fails_open:
  assumes "list_all (fits client) xs" "decode_udp_header (take 66047 bad) = Ret None"
  shows "\<exists>m'. pump_task client peer (map (on_the_wire client) xs @ RelayDatagram bad sent # later) m
       = Ret (concat (map (carried client peer) xs), m')
     \<and> relay_target m' client peer = peer"
proof -
  have "pump_step client peer (RelayDatagram bad sent) = Ret ([], Some invalid_data)"
    using assms(2) by (simp add: pump_step_def relay_recv_from_def)
  then have "pump client peer (map (on_the_wire client) xs @ RelayDatagram bad sent # later)
      = Ret (concat (map (carried client peer) xs), Some invalid_data)"
    by (simp add: pump_append [OF pump_exchange [OF assms(1)]])
  then show ?thesis by (simp add: pump_task_def relay_target_def)
qed

end
