(* ===== verification/Prober.thy ===== *)
theory Prober
  imports Aether_Error Sysprofile
begin

text \<open>
  The gateway scanner of \<open>prober.rs\<close>: the scan modes, the candidates built from the built-in ranges or
  from a manual range, and the scan loop that picks the fastest gateway. The random generator is the
  sequence of numbers it yields; verifying one candidate is an input of the loop. Addresses are added
  as the release build does, with wrap-around.
\<close>

type_synonym env = "str \<Rightarrow> str option"

definition MASQUE_CIDRS_V4 :: "str list" where
  "MASQUE_CIDRS_V4 = map lit
     [''162.159.196.0/24'', ''162.159.195.0/24'', ''162.159.192.0/24'', ''162.159.193.0/24'', ''162.159.204.0/24'',
      ''162.159.197.0/24'', ''162.159.198.0/24'', ''172.65.251.0/24'', ''188.114.96.0/24'', ''188.114.97.0/24'',
      ''188.114.98.0/24'', ''188.114.99.0/24'', ''162.159.36.0/24'', ''162.159.46.0/24'']"

definition MASQUE_SEEDS :: "str list" where
  "MASQUE_SEEDS = map lit
     [''162.159.196.1'', ''162.159.195.1'', ''162.159.192.1'', ''162.159.197.3'', ''162.159.197.1'', ''162.159.198.2'',
      ''162.159.198.1'', ''162.159.193.1'']"

definition MASQUE_PORTS :: "u16 list" where
  "MASQUE_PORTS = [443, 500, 1701, 4500, 4443, 8443, 8095]"

definition MASQUE_CIDRS_V6 :: "str list" where
  "MASQUE_CIDRS_V6 = map lit [''2606:4700:d0::/48'', ''2606:4700:102::/48'', ''2606:4700:d1::/48'']"

definition MASQUE_ZT_CIDRS_V4 :: "str list" where
  "MASQUE_ZT_CIDRS_V4 = map lit [''162.159.197.0/24'']"

definition MASQUE_ZT_CIDRS_V6 :: "str list" where
  "MASQUE_ZT_CIDRS_V6 = map lit [''2606:4700:102::/48'']"

definition MASQUE_SEEDS_V6 :: "str list" where
  "MASQUE_SEEDS_V6 = map lit
     [''2606:4700:d0::a29f:c602'', ''2606:4700:d1::a29f:c602'', ''2606:4700:d0::a29f:c601'', ''2606:4700:d0::a29f:c001'']"

definition zero_trust_mode :: "env \<Rightarrow> bool" where
  "zero_trust_mode env = (case env (lit ''AETHER_TEAM'') of Some v \<Rightarrow> trim v \<noteq> [] | None \<Rightarrow> False)"

definition push_absent :: "'a list \<Rightarrow> 'a \<Rightarrow> 'a list" where
  "push_absent out entry = (if entry \<in> set out then out else out @ [entry])"

definition prioritize :: "env \<Rightarrow> str list \<Rightarrow> str list \<Rightarrow> str list" where
  "prioritize env all first =
     (if \<not> zero_trust_mode env then all
      else foldl push_absent (filter (\<lambda>entry. entry \<in> set all) first) all)"

definition masque_cidrs_v4 :: "env \<Rightarrow> str list" where
  "masque_cidrs_v4 env = prioritize env MASQUE_CIDRS_V4 MASQUE_ZT_CIDRS_V4"

definition masque_cidrs_v6 :: "env \<Rightarrow> str list" where
  "masque_cidrs_v6 env = prioritize env MASQUE_CIDRS_V6 MASQUE_ZT_CIDRS_V6"

subsection \<open>Modes\<close>

record probe_result =
  pr_ip :: ip_addr
  pr_port :: u16
  pr_rtt :: nat

datatype ip_scan = ScanV4 | ScanV6 | ScanBoth

definition ip_scan_parse :: "unicode \<Rightarrow> str \<Rightarrow> ip_scan" where
  "ip_scan_parse U s =
     (let v = to_lowercase U (trim s) in
      if v \<in> {lit ''6'', lit ''v6'', lit ''ipv6''} then ScanV6
      else if v \<in> {lit ''both'', lit ''all'', lit ''dual''} then ScanBoth
      else ScanV4)"

definition ip_scan_label :: "ip_scan \<Rightarrow> str" where
  "ip_scan_label s = (case s of ScanV4 \<Rightarrow> lit ''ipv4'' | ScanV6 \<Rightarrow> lit ''ipv6'' | ScanBoth \<Rightarrow> lit ''dual-stack'')"

definition want_v4 :: "ip_scan \<Rightarrow> bool" where
  "want_v4 s \<longleftrightarrow> s = ScanV4 \<or> s = ScanBoth"

definition want_v6 :: "ip_scan \<Rightarrow> bool" where
  "want_v6 s \<longleftrightarrow> s = ScanV6 \<or> s = ScanBoth"

datatype scan_mode = Turbo | Balanced | Thorough | Stealth | Ironclad

definition scan_mode_parse :: "unicode \<Rightarrow> str \<Rightarrow> scan_mode" where
  "scan_mode_parse U s =
     (let v = to_lowercase U (trim s) in
      if v \<in> {lit ''turbo'', lit ''fast''} then Turbo
      else if v \<in> {lit ''thorough'', lit ''deep'', lit ''pro''} then Thorough
      else if v \<in> {lit ''stealth'', lit ''quiet''} then Stealth
      else if v \<in> {lit ''ironclad'', lit ''real'', lit ''verify'', lit ''guaranteed''} then Ironclad
      else Balanced)"

definition scan_mode_label :: "scan_mode \<Rightarrow> str" where
  "scan_mode_label m =
     (case m of Turbo \<Rightarrow> lit ''turbo'' | Balanced \<Rightarrow> lit ''balanced'' | Thorough \<Rightarrow> lit ''thorough''
      | Stealth \<Rightarrow> lit ''stealth'' | Ironclad \<Rightarrow> lit ''ironclad'')"

text \<open>Durations are in milliseconds.\<close>

record strategy =
  concurrency :: nat
  per_probe_timeout :: nat
  overall_deadline :: nat
  quiet_after_first :: nat
  target_successes :: nat
  early_exit_first :: bool
  full_subnet :: bool
  sample_per_cidr :: nat

definition mode_strategy :: "scan_mode \<Rightarrow> strategy" where
  "mode_strategy m =
     (case m of
        Turbo \<Rightarrow> \<lparr>concurrency = 20, per_probe_timeout = 6000, overall_deadline = 45000, quiet_after_first = 0,
          target_successes = 1, early_exit_first = True, full_subnet = False, sample_per_cidr = 64\<rparr>
      | Balanced \<Rightarrow> \<lparr>concurrency = 16, per_probe_timeout = 6000, overall_deadline = 120000, quiet_after_first = 20000,
          target_successes = 6, early_exit_first = False, full_subnet = False, sample_per_cidr = 140\<rparr>
      | Thorough \<Rightarrow> \<lparr>concurrency = 20, per_probe_timeout = 10000, overall_deadline = 300000, quiet_after_first = 30000,
          target_successes = 0, early_exit_first = False, full_subnet = True, sample_per_cidr = 0\<rparr>
      | Stealth \<Rightarrow> \<lparr>concurrency = 3, per_probe_timeout = 12000, overall_deadline = 180000, quiet_after_first = 25000,
          target_successes = 4, early_exit_first = False, full_subnet = False, sample_per_cidr = 64\<rparr>
      | Ironclad \<Rightarrow> \<lparr>concurrency = 4, per_probe_timeout = 15000, overall_deadline = 180000, quiet_after_first = 15000,
          target_successes = 3, early_exit_first = False, full_subnet = False, sample_per_cidr = 140\<rparr>)"

subsection \<open>Ranges\<close>

definition parse_cidr_v4 :: "str \<Rightarrow> (ipv4 \<times> nat) option" where
  "parse_cidr_v4 cidr =
     (case split_once 47 cidr of
        None \<Rightarrow> None
      | Some (ip, prefix) \<Rightarrow>
          (case parse_ipv4 ip of None \<Rightarrow> None | Some a \<Rightarrow> map_option (\<lambda>p. (a, p)) (parse_uint 8 prefix)))"

definition enumerate_cidr_v4 :: "str \<Rightarrow> ipv4 list" where
  "enumerate_cidr_v4 cidr =
     (case parse_cidr_v4 cidr of
        None \<Rightarrow> []
      | Some (base, prefix) \<Rightarrow>
          let host_bits = 32 - prefix in
          if host_bits = 0 then [base]
          else if 12 < host_bits then []
          else map (\<lambda>off. base + word_of_nat off) [1..<2 ^ host_bits - 1])"

text \<open>
  Distinct random offsets: numbers that came up before are drawn again. The result is \<open>None\<close> when the
  given draws are not enough.
\<close>

fun draw_offsets :: "nat \<Rightarrow> nat \<Rightarrow> nat list \<Rightarrow> nat list \<Rightarrow> nat list option" where
  "draw_offsets usable want out draws =
     (if want \<le> length out then Some out
      else (case draws of
        [] \<Rightarrow> None
      | r # rs \<Rightarrow> draw_offsets usable want (push_absent out (1 + r mod usable)) rs))"

definition sample_cidr_v4 :: "str \<Rightarrow> nat \<Rightarrow> nat list \<Rightarrow> ipv4 list option" where
  "sample_cidr_v4 cidr n draws =
     (case parse_cidr_v4 cidr of
        None \<Rightarrow> Some []
      | Some (base, prefix) \<Rightarrow>
          let host_bits = 32 - prefix; size = (if 32 \<le> host_bits then 2 ^ 32 - 1 else 2 ^ host_bits) in
          if size \<le> 2 then Some [base]
          else
            let usable = size - 2; want = min (n mod 2 ^ 32) usable in
            map_option (map (\<lambda>off. base + word_of_nat off)) (draw_offsets usable want [] draws))"

definition parse_cidr_v6 :: "str \<Rightarrow> (ipv6 \<times> nat) option" where
  "parse_cidr_v6 cidr =
     (case split_once 47 cidr of
        None \<Rightarrow> None
      | Some (ip, prefix) \<Rightarrow>
          (case parse_ipv6 ip of None \<Rightarrow> None | Some a \<Rightarrow> map_option (\<lambda>p. (a, p)) (parse_uint 8 prefix)))"

unbundle bit_operations_syntax

text \<open>The IPv4 address embedded in a sampled IPv6 address; \<open>r0\<close> and \<open>r1\<close> are the random numbers used.\<close>

definition embedded_v4 :: "(ipv4 \<times> nat) list \<Rightarrow> nat \<Rightarrow> nat \<Rightarrow> u32" where
  "embedded_v4 v4 r0 r1 =
     (if v4 = [] then word_of_nat r0
      else
        let (b, p) = v4 ! (r0 mod length v4); host_bits = 32 - p;
            host = (if host_bits = 0 then 0 else word_of_nat r1 AND (push_bit (host_bits mod 32) 1 - 1)) in
        b OR host)"

definition sample_cidr_v6 :: "str \<Rightarrow> nat \<Rightarrow> str list \<Rightarrow> (nat \<Rightarrow> nat) \<Rightarrow> ipv6 list" where
  "sample_cidr_v6 cidr n v4_cidrs draw =
     (case parse_cidr_v6 cidr of
        None \<Rightarrow> []
      | Some (base, prefix) \<Rightarrow>
          if 128 - prefix = 0 then [base]
          else
            let v4 = List.map_filter parse_cidr_v4 v4_cidrs in
            map (\<lambda>i. base OR ucast (embedded_v4 v4 (draw (2 * i)) (draw (2 * i + 1)))) [0..<n])"

subsection \<open>Manual ranges\<close>

definition app_normalize_cidr_v4 :: "str \<Rightarrow> str option" where
  "app_normalize_cidr_v4 raw =
     (let v = trim raw in
      if v = [] then None
      else (case split_once 47 v of
        Some (ip, prefix) \<Rightarrow>
          (case parse_ipv4 (trim ip) of
             None \<Rightarrow> None
           | Some addr \<Rightarrow>
               (case parse_uint 8 (trim prefix) of
                  None \<Rightarrow> None
                | Some bits \<Rightarrow> if 32 < bits then None else Some (show_ipv4 addr @ lit ''/'' @ show_nat bits)))
      | None \<Rightarrow>
          if ends_with v (lit ''.x'') \<or> ends_with v (lit ''.X'') \<or> ends_with v (lit ''.*'')
          then map_option (\<lambda>addr. show_ipv4 addr @ lit ''/24'') (parse_ipv4 (butlast v @ lit ''0''))
          else map_option (\<lambda>addr. show_ipv4 addr @ lit ''/32'') (parse_ipv4 v)))"

definition env_nonblank :: "env \<Rightarrow> str \<Rightarrow> str option" where
  "env_nonblank env name = (case env name of Some s \<Rightarrow> if trim s = [] then None else Some s | None \<Rightarrow> None)"

definition manual_cidrs :: "env \<Rightarrow> str \<Rightarrow> str list option" where
  "manual_cidrs env name =
     (case (case env_nonblank env name of Some raw \<Rightarrow> Some raw | None \<Rightarrow> env_nonblank env (lit ''AETHER_SCAN_CIDRS'')) of
        None \<Rightarrow> None
      | Some raw \<Rightarrow>
          let ranges = List.map_filter app_normalize_cidr_v4 (split_on (\<lambda>c. c \<in> {44, 59, 32, 10}) raw) in
          if ranges = [] then None else Some ranges)"

definition custom_masque_cidrs_v4 :: "env \<Rightarrow> str list option" where
  "custom_masque_cidrs_v4 env = manual_cidrs env (lit ''AETHER_MASQUE_CIDRS'')"

subsection \<open>Candidates\<close>

type_synonym candidate = "ip_addr \<times> u16"

text \<open>The random numbers of one scan: the draws of each sampled IPv4 range and of each IPv6 range.\<close>

record scan_rng =
  rng_v4 :: "nat \<Rightarrow> nat list"
  rng_v6 :: "nat \<Rightarrow> nat \<Rightarrow> nat"

text \<open>The list under construction and the set \<open>seen\<close>.\<close>

type_synonym 'a unique = "'a list \<times> 'a set"

definition push_new :: "'a unique \<Rightarrow> 'a \<Rightarrow> 'a unique" where
  "push_new u x = (case u of (out, seen) \<Rightarrow> if x \<in> seen then (out, seen) else (out @ [x], insert x seen))"

definition push_all :: "'a unique \<Rightarrow> 'a list \<Rightarrow> 'a unique" where
  "push_all u xs = foldl push_new u xs"

text \<open>Round robin over the ranges: every first address, then every second one, and so on.\<close>

definition interleave :: "'a list list \<Rightarrow> 'a list" where
  "interleave hosts =
     concat (map (\<lambda>i. concat (map (\<lambda>h. case get_at h i of Some a \<Rightarrow> [a] | None \<Rightarrow> []) hosts))
       [0..<foldl max 0 (map length hosts)])"

fun range_hosts :: "bool \<Rightarrow> nat \<Rightarrow> (nat \<Rightarrow> nat list) \<Rightarrow> str list \<Rightarrow> ipv4 list list option" where
  "range_hosts full n draws [] = Some []"
| "range_hosts full n draws (c # cs) =
     (case (if full then Some (enumerate_cidr_v4 c) else sample_cidr_v4 c n (draws 0)) of
        None \<Rightarrow> None
      | Some hosts \<Rightarrow> map_option (\<lambda>rest. hosts # rest) (range_hosts full n (\<lambda>i. draws (Suc i)) cs))"

definition range_hosts6 :: "nat \<Rightarrow> str list \<Rightarrow> (nat \<Rightarrow> nat \<Rightarrow> nat) \<Rightarrow> str list \<Rightarrow> ipv6 list list" where
  "range_hosts6 per v4_cidrs draws cidrs =
     map (\<lambda>(i, c). sample_cidr_v6 c per v4_cidrs (draws i)) (enumerate 0 cidrs)"

definition primary_port :: "u16 list \<Rightarrow> u16" where
  "primary_port ports = (case ports of [] \<Rightarrow> 443 | p # _ \<Rightarrow> p)"

definition other_ports :: "('a \<Rightarrow> ip_addr) \<Rightarrow> u16 list \<Rightarrow> 'a list \<Rightarrow> candidate list" where
  "other_ports ip ports hosts =
     concat (map (\<lambda>a. map (\<lambda>p. (ip a, p)) (filter (\<lambda>p. p \<noteq> primary_port ports) ports)) hosts)"

definition manual_masque_candidates ::
  "'b strategy_scheme \<Rightarrow> u16 list \<Rightarrow> str list \<Rightarrow> scan_rng \<Rightarrow> candidate list option" where
  "manual_masque_candidates st ports cidrs rng =
     map_option (\<lambda>cidr_hosts.
       let hosts = interleave cidr_hosts;
           u = push_all ([], {}) (map (\<lambda>a. (V4 a, primary_port ports)) hosts) in
       fst (push_all u (other_ports V4 ports hosts)))
     (range_hosts (full_subnet st) (sample_per_cidr st) (rng_v4 rng) cidrs)"

definition masque_v4_pushes :: "u16 \<Rightarrow> ipv4 list \<Rightarrow> ipv4 list list \<Rightarrow> candidate list" where
  "masque_v4_pushes primary seeds cidr_hosts = map (\<lambda>a. (V4 a, primary)) (seeds @ interleave cidr_hosts)"

definition masque_v6_pushes :: "u16 \<Rightarrow> ipv6 list \<Rightarrow> ipv6 list list \<Rightarrow> candidate list" where
  "masque_v6_pushes primary seeds6 cidr6 = map (\<lambda>a. (V6 a, primary)) (seeds6 @ interleave cidr6)"

definition build_candidates :: "env \<Rightarrow> 'b strategy_scheme \<Rightarrow> u16 list \<Rightarrow> ip_scan \<Rightarrow> scan_rng \<Rightarrow> candidate list option" where
  "build_candidates env st ports ip rng =
     (case (if want_v4 ip then custom_masque_cidrs_v4 env else None) of
        Some cidrs \<Rightarrow> manual_masque_candidates st ports cidrs rng
      | None \<Rightarrow>
          let primary = primary_port ports;
              seeds = List.map_filter parse_ipv4 MASQUE_SEEDS;
              seeds6 = List.map_filter parse_ipv6 MASQUE_SEEDS_V6;
              per = (if sample_per_cidr st = 0 then 96 else sample_per_cidr st) in
          map_option (\<lambda>cidr_hosts.
            let u = (if want_v4 ip then push_all ([], {}) (masque_v4_pushes primary seeds cidr_hosts) else ([], {}));
                u = (if want_v6 ip
                     then push_all u (masque_v6_pushes primary seeds6
                            (range_hosts6 per MASQUE_CIDRS_V4 (rng_v6 rng) (masque_cidrs_v6 env)))
                     else u);
                u = (if want_v4 ip then push_all u (other_ports V4 ports seeds) else u);
                u = (if want_v6 ip then push_all u (other_ports V6 ports seeds6) else u) in
            fst u)
          (if want_v4 ip
           then range_hosts (full_subnet st) (sample_per_cidr st) (rng_v4 rng) (masque_cidrs_v4 env)
           else Some []))"

subsection \<open>The scan\<close>

text \<open>
  One candidate whose verification has ended, in the order in which the stream yields them: the time,
  whether the timer is served first when it expires at the same time, the candidate and the round
  trip time of a candidate that passed. The list ends when every candidate is verified.
\<close>

record scan_item =
  si_time :: nat
  si_timer_first :: bool
  si_candidate :: candidate
  si_rtt :: "nat option"

text \<open>\<open>verify_one\<close>: the answer of the verification as a result of the scan.\<close>

definition verify_one :: "scan_item \<Rightarrow> probe_result option" where
  "verify_one i =
     map_option (\<lambda>rtt. \<lparr>pr_ip = fst (si_candidate i), pr_port = snd (si_candidate i), pr_rtt = rtt\<rparr>) (si_rtt i)"

definition effective_deadline :: "nat \<Rightarrow> nat option \<Rightarrow> nat" where
  "effective_deadline deadline quiet_until = (case quiet_until of Some q \<Rightarrow> min q deadline | None \<Rightarrow> deadline)"

text \<open>Whether the loop serves the next item: no time is left, or the timer comes first.\<close>

definition item_served :: "nat \<Rightarrow> nat \<Rightarrow> nat option \<Rightarrow> scan_item \<Rightarrow> bool" where
  "item_served deadline now quiet_until i \<longleftrightarrow>
     (let effective = effective_deadline deadline quiet_until in
      now < effective \<and> (si_time i < effective \<or> si_time i = effective \<and> \<not> si_timer_first i))"

definition better :: "probe_result option \<Rightarrow> probe_result \<Rightarrow> probe_result" where
  "better best pr = (case best of Some cur \<Rightarrow> if pr_rtt cur \<le> pr_rtt pr then cur else pr | None \<Rightarrow> pr)"

text \<open>The quiet period starts when the target is reached for the first time.\<close>

definition target_reached :: "'b strategy_scheme \<Rightarrow> nat \<Rightarrow> nat option \<Rightarrow> bool" where
  "target_reached st found quiet_until \<longleftrightarrow> 0 < target_successes st \<and> target_successes st \<le> found \<and> quiet_until = None"

fun hunt_loop ::
  "'b strategy_scheme \<Rightarrow> nat \<Rightarrow> nat \<Rightarrow> probe_result option \<Rightarrow> nat \<Rightarrow> nat option \<Rightarrow> scan_item list \<Rightarrow> probe_result option" where
  "hunt_loop st deadline now best found quiet_until [] = best"
| "hunt_loop st deadline now best found quiet_until (i # is) =
     (if \<not> item_served deadline now quiet_until i then best
      else (case verify_one i of
        None \<Rightarrow> hunt_loop st deadline (si_time i) best found quiet_until is
      | Some pr \<Rightarrow>
          if early_exit_first st then Some pr
          else
            let best = Some (better best pr); found = found + 1 in
            if target_reached st found quiet_until then
              (if quiet_after_first st \<noteq> 0
               then hunt_loop st deadline (si_time i) best found (Some (si_time i + quiet_after_first st)) is
               else best)
            else hunt_loop st deadline (si_time i) best found quiet_until is))"

definition effective_scan :: "ip_scan \<Rightarrow> bool \<Rightarrow> ip_scan option" where
  "effective_scan ip host_has_ipv6 =
     (if want_v6 ip \<and> \<not> host_has_ipv6 then (if want_v4 ip then Some ScanV4 else None) else Some ip)"

text \<open>
  The whole scan, started at time \<open>now\<close>: \<open>None\<close> while addresses are still being drawn. What the
  verifications yield may depend on the candidates and on how many run at a time.
\<close>

definition hunt_best_gateway ::
  "tuning \<Rightarrow> env \<Rightarrow> scan_mode \<Rightarrow> u16 list \<Rightarrow> ip_scan \<Rightarrow> bool \<Rightarrow> scan_rng \<Rightarrow> nat
    \<Rightarrow> (nat \<Rightarrow> candidate list \<Rightarrow> scan_item list) \<Rightarrow> probe_result result option" where
  "hunt_best_gateway T env mode ports ip host_has_ipv6 rng now probes =
     (let st = mode_strategy mode; st = st\<lparr>concurrency := cap_concurrency T (concurrency st)\<rparr> in
      case effective_scan ip host_has_ipv6 of
        None \<Rightarrow> Some (Inl NoCleanEndpoint)
      | Some ip \<Rightarrow>
          map_option (\<lambda>candidates.
            case hunt_loop st (now + overall_deadline st) now None 0 None (probes (concurrency st) candidates) of
              Some pr \<Rightarrow> Inr pr
            | None \<Rightarrow> Inl NoCleanEndpoint)
          (build_candidates env st ports ip rng))"

subsection \<open>Unique lists\<close>

definition unique_ok :: "'a unique \<Rightarrow> bool" where
  "unique_ok u \<longleftrightarrow> snd u = set (fst u) \<and> distinct (fst u)"

lemma unique_empty [simp]: "unique_ok ([], {})"
  by (simp add: unique_ok_def)

lemma push_new_unique: "unique_ok u \<Longrightarrow> unique_ok (push_new u x) \<and> set (fst (push_new u x)) = insert x (set (fst u))"
  by (cases u) (auto simp: unique_ok_def push_new_def)

lemma push_all_unique: "unique_ok u \<Longrightarrow> unique_ok (push_all u xs) \<and> set (fst (push_all u xs)) = set (fst u) \<union> set xs"
  unfolding push_all_def by (induction xs arbitrary: u) (simp_all add: push_new_unique)

lemma push_all_ok [simp]: "unique_ok u \<Longrightarrow> unique_ok (push_all u xs)"
  and push_all_set [simp]: "unique_ok u \<Longrightarrow> set (fst (push_all u xs)) = set (fst u) \<union> set xs"
  and push_all_distinct [simp]: "unique_ok u \<Longrightarrow> distinct (fst (push_all u xs))"
  using push_all_unique [of u xs] by (simp_all add: unique_ok_def)

lemma foldl_max: "x \<le> foldl max x (ls :: nat list) \<and> (\<forall>l \<in> set ls. l \<le> foldl max x ls)"
  by (induction ls arbitrary: x) (auto, (meson le_trans max.cobounded1 max.cobounded2)+)

lemma set_interleave [simp]: "set (interleave hosts) = (\<Union>h \<in> set hosts. set h)"
proof -
  have "length h \<le> foldl max 0 (map length hosts)" if "h \<in> set hosts" for h
    using foldl_max [of 0 "map length hosts"] that by simp
  then have "a \<in> set (interleave hosts)" if "h \<in> set hosts" "a \<in> set h" for a h
    using that unfolding interleave_def
    by (auto simp: in_set_conv_nth [of a h] get_at_def split: option.splits)
      (metis (no_types, lifting) atLeastLessThan_iff less_le_trans list.set_intros(1) zero_le)
  then show ?thesis
    by (auto simp: interleave_def get_at_def split: option.splits if_splits)
qed

lemma set_other_ports [simp]: "set (other_ports ip ports hosts) = (ip ` set hosts) \<times> (set ports - {primary_port ports})"
  by (auto simp: other_ports_def)

lemma set_on_port [simp]: "set (map (\<lambda>a. (ip a, p)) xs) = (ip ` set xs) \<times> {p}"
  by auto

lemma product_ports: "A \<times> {p} \<union> A \<times> (P - {p}) = A \<times> insert p P"
  by blast

lemma prioritize_set: "set (prioritize env all first) = set all"
proof -
  have "set (foldl push_absent out xs) = set out \<union> set xs" for out xs :: "str list"
    by (induction xs arbitrary: out) (auto simp: push_absent_def)
  then show ?thesis by (auto simp: prioritize_def)
qed

lemma prioritize_distinct: "distinct all \<Longrightarrow> distinct first \<Longrightarrow> distinct (prioritize env all first)"
proof -
  have "distinct (foldl push_absent out xs)" if "distinct out" for out xs :: "str list"
    using that by (induction xs arbitrary: out) (auto simp: push_absent_def)
  then show "distinct all \<Longrightarrow> distinct first \<Longrightarrow> distinct (prioritize env all first)" by (simp add: prioritize_def)
qed

subsection \<open>Candidates\<close>

lemma manual_candidates_exact:
  assumes "manual_masque_candidates st ports cidrs rng = Some cs"
  shows "\<exists>hosts. range_hosts (full_subnet st) (sample_per_cidr st) (rng_v4 rng) cidrs = Some hosts
     \<and> distinct cs \<and> set cs = V4 ` (\<Union>h \<in> set hosts. set h) \<times> insert (primary_port ports) (set ports)"
  using assms by (clarsimp simp: manual_masque_candidates_def Let_def product_ports simp del: set_map)

lemma seed_products:
  "(S \<union> W) \<times> {p} \<union> S \<times> (P - {p}) = S \<times> insert p P \<union> W \<times> {p}"
  "(S \<union> W) \<times> {p} \<union> (S' \<union> W') \<times> {p} \<union> S \<times> (P - {p}) \<union> S' \<times> (P - {p})
     = (S \<times> insert p P \<union> W \<times> {p}) \<union> (S' \<times> insert p P \<union> W' \<times> {p})"
  by blast+

text \<open>The candidates of a default scan as a set.\<close>

definition default_targets ::
  "env \<Rightarrow> nat \<Rightarrow> u16 list \<Rightarrow> ip_scan \<Rightarrow> (nat \<Rightarrow> nat \<Rightarrow> nat) \<Rightarrow> ipv4 list list \<Rightarrow> candidate set" where
  "default_targets env per ports ip draws hosts =
     (let seeds = V4 ` set (List.map_filter parse_ipv4 MASQUE_SEEDS); seeds6 = V6 ` set (List.map_filter parse_ipv6 MASQUE_SEEDS_V6);
          sweep = V4 ` (\<Union>h \<in> set hosts. set h);
          sweep6 = V6 ` (\<Union>h \<in> set (range_hosts6 per MASQUE_CIDRS_V4 draws (masque_cidrs_v6 env)). set h) in
      (if want_v4 ip then seeds \<times> insert (primary_port ports) (set ports) \<union> sweep \<times> {primary_port ports} else {})
      \<union> (if want_v6 ip then seeds6 \<times> insert (primary_port ports) (set ports) \<union> sweep6 \<times> {primary_port ports} else {}))"

lemma default_candidates_exact:
  assumes "build_candidates env st ports ip rng = Some cs" "\<not> want_v4 ip \<or> custom_masque_cidrs_v4 env = None"
  shows "\<exists>hosts. (want_v4 ip \<longrightarrow>
         range_hosts (full_subnet st) (sample_per_cidr st) (rng_v4 rng) (masque_cidrs_v4 env) = Some hosts)
     \<and> distinct cs
     \<and> set cs = default_targets env (if sample_per_cidr st = 0 then 96 else sample_per_cidr st) ports ip (rng_v6 rng) hosts"
proof -
  obtain hosts where h: "(if want_v4 ip then range_hosts (full_subnet st) (sample_per_cidr st) (rng_v4 rng) (masque_cidrs_v4 env)
      else Some []) = Some hosts"
    using assms by (auto simp: build_candidates_def Let_def split: if_splits)
  have none: "(if want_v4 ip then custom_masque_cidrs_v4 env else None) = None" using assms(2) by simp
  let ?per = "if sample_per_cidr st = 0 then 96 else sample_per_cidr st"
  have cs: "distinct cs" "set cs =
      (if want_v4 ip then set (masque_v4_pushes (primary_port ports) (List.map_filter parse_ipv4 MASQUE_SEEDS) hosts) else {})
      \<union> (if want_v6 ip then set (masque_v6_pushes (primary_port ports) (List.map_filter parse_ipv6 MASQUE_SEEDS_V6)
           (range_hosts6 ?per MASQUE_CIDRS_V4 (rng_v6 rng) (masque_cidrs_v6 env))) else {})
      \<union> (if want_v4 ip then set (other_ports V4 ports (List.map_filter parse_ipv4 MASQUE_SEEDS)) else {})
      \<union> (if want_v6 ip then set (other_ports V6 ports (List.map_filter parse_ipv6 MASQUE_SEEDS_V6)) else {})"
    using assms(1) unfolding build_candidates_def none option.case Let_def h
    by (cases "want_v4 ip"; cases "want_v6 ip"; clarsimp simp del: set_other_ports simp: Un_ac)+
  have split: "set cs = default_targets env ?per ports ip (rng_v6 rng) hosts"
    unfolding cs(2) default_targets_def masque_v4_pushes_def masque_v6_pushes_def set_on_port set_other_ports Let_def
    by (cases "want_v4 ip"; cases "want_v6 ip") (simp_all add: image_Un seed_products)
  from h cs(1) split show ?thesis by (intro exI [of _ hosts]) auto
qed

subsection \<open>Sampling\<close>

lemma push_absent_simps:
  "set (push_absent out x) = insert x (set out)" "distinct out \<Longrightarrow> distinct (push_absent out x)"
  "length out \<le> length (push_absent out x)" "length (push_absent out x) \<le> Suc (length out)"
  by (auto simp: push_absent_def)

lemma draw_offsets_enough:
  assumes "distinct out" "set out \<subseteq> {1..usable}" "0 < usable" "length out \<le> want"
    and "want \<le> card (set out \<union> (\<lambda>r. 1 + r mod usable) ` set draws)"
  shows "\<exists>res. draw_offsets usable want out draws = Some res \<and> length res = want \<and> distinct res \<and> set res \<subseteq> {1..usable}"
  using assms
proof (induction draws arbitrary: out)
  case Nil
  then have "want \<le> length out" by (simp add: distinct_card)
  with Nil show ?case by auto
next
  case (Cons r rs)
  show ?case
  proof (cases "want \<le> length out")
    case True
    with Cons.prems show ?thesis by auto
  next
    case False
    let ?out = "push_absent out (1 + r mod usable)"
    have "set ?out \<union> (\<lambda>r. 1 + r mod usable) ` set rs = set out \<union> (\<lambda>r. 1 + r mod usable) ` set (r # rs)"
      by (simp add: push_absent_simps)
    moreover have "1 + r mod usable \<le> usable" using Cons.prems(3) by (simp add: Suc_leI)
    moreover have "length ?out \<le> want" using False push_absent_simps(4) [of out "1 + r mod usable"] by linarith
    ultimately have "\<exists>res. draw_offsets usable want ?out rs = Some res \<and> length res = want \<and> distinct res \<and> set res \<subseteq> {1..usable}"
      using Cons.prems False by (intro Cons.IH) (auto simp: push_absent_simps)
    with False show ?thesis by simp
  qed
qed

text \<open>The number of addresses of a range as the sampler computes it.\<close>

definition range_size :: "nat \<Rightarrow> nat" where
  "range_size prefix = (if prefix = 0 then 2 ^ 32 - 1 else 2 ^ (32 - prefix))"

lemma range_size_less: "range_size prefix < 2 ^ 32"
proof -
  have "(2 :: nat) ^ (32 - prefix) < 2 ^ 32" if "prefix \<noteq> 0" using that by (intro power_strict_increasing) auto
  then show ?thesis by (simp add: range_size_def)
qed

lemma offset_address: "off < 2 ^ 32 \<Longrightarrow> unat ((base :: ipv4) + word_of_nat off - base) = off"
  by (simp add: unat_of_nat)

lemma offset_inj: "inj_on (\<lambda>off. (base :: ipv4) + word_of_nat off) {..<2 ^ 32}"
  by (rule inj_onI) (metis lessThan_iff offset_address)

subsection \<open>Enumerated ranges\<close>

lemma aligned_split:
  fixes base :: ipv4 assumes "h \<le> 32" "off < 2 ^ h" "unat base mod 2 ^ h = 0"
  shows "unat (base + word_of_nat off) = unat base + off"
proof -
  have "unat base div 2 ^ h < 2 ^ (32 - h)"
  proof (rule less_mult_imp_div_less)
    show "unat base < 2 ^ (32 - h) * 2 ^ h"
      using unsigned_less [of base, where ?'a = nat] assms(1) by (simp flip: power_add)
  qed
  then have "unat base div 2 ^ h + 1 \<le> 2 ^ (32 - h)" by simp
  then have "(unat base div 2 ^ h + 1) * 2 ^ h \<le> 2 ^ (32 - h) * 2 ^ h" by (rule mult_le_mono1)
  moreover have "unat base = unat base div 2 ^ h * 2 ^ h" using assms(3) by (metis add.right_neutral div_mult_mod_eq)
  ultimately have "unat base + 2 ^ h \<le> 2 ^ 32" using assms(1) by (simp add: algebra_simps flip: power_add)
  with assms(2) have "unat base + off < 2 ^ 32" by simp
  then show ?thesis by (simp add: unat_word_ariths unat_of_nat)
qed

lemma aligned_prefix:
  fixes base :: ipv4 assumes "h \<le> 32" "off < 2 ^ h" "unat base mod 2 ^ h = 0"
  shows "drop_bit h (base + word_of_nat off) = drop_bit h base"
proof -
  have "(unat base + off) div 2 ^ h = unat base div 2 ^ h"
    using assms(2,3) by (metis add_cancel_right_right div_eq_0_iff div_plus_div_distrib_dvd_left dvd_eq_mod_eq_0)
  then show ?thesis using aligned_split [OF assms] by (simp add: word_unat_eq_iff unat_drop)
qed

lemma unaligned_escape:
  fixes base :: ipv4 assumes "2 \<le> h" "h \<le> 12" "2 \<le> unat base mod 2 ^ h"
  shows "\<exists>off \<in> {1..<2 ^ h - 1}. drop_bit h (base + word_of_nat off) \<noteq> drop_bit h base"
proof -
  define r where "r = unat base mod 2 ^ h"
  define q where "q = unat base div 2 ^ h"
  have r: "r < 2 ^ h" "unat base = q * 2 ^ h + r" unfolding r_def q_def by (simp, rule div_mult_mod_eq [symmetric])
  define off where "off = 2 ^ h - r"
  have off: "1 \<le> off" "off < 2 ^ h - 1" using assms(3) r(1) unfolding off_def r_def [symmetric] by linarith+
  have sum: "unat base + off = (q + 1) * 2 ^ h" using r unfolding off_def by simp
  have two: "(2 :: nat) ^ 32 = 2 ^ (32 - h) * 2 ^ h" using assms(2) by (simp flip: power_add)
  have ql: "q < 2 ^ (32 - h)"
  proof -
    have "q * 2 ^ h \<le> unat base" using r by simp
    also have "\<dots> < 2 ^ (32 - h) * 2 ^ h" using unsigned_less [of base, where ?'a = nat] two by simp
    finally show ?thesis by simp
  qed
  have "off < 2 ^ 32" using off assms(2) power_increasing [of h 32 "2 :: nat"] by simp
  then have "unat (base + word_of_nat off) = (unat base + off) mod 2 ^ 32"
    by (simp add: unat_word_ariths unat_of_nat)
  also have "\<dots> = (q + 1) mod 2 ^ (32 - h) * 2 ^ h" unfolding sum two by (simp add: mult_mod_left)
  finally have "unat (drop_bit h (base + word_of_nat off)) = (q + 1) mod 2 ^ (32 - h)" by (simp add: unat_drop)
  moreover have "(q + 1) mod 2 ^ (32 - h) \<noteq> q"
  proof (cases "q + 1 < 2 ^ (32 - h)")
    case False
    then have "q + 1 = 2 ^ (32 - h)" using ql by simp
    moreover have "(2 :: nat) \<le> 2 ^ (32 - h)" using assms(2) power_increasing [of 1 "32 - h" "2 :: nat"] by simp
    ultimately show ?thesis by simp
  qed simp
  ultimately have "drop_bit h (base + word_of_nat off) \<noteq> drop_bit h base"
    by (auto simp: word_unat_eq_iff unat_drop q_def)
  with off show ?thesis by auto
qed

subsection \<open>The scan loop\<close>

definition successes :: "scan_item list \<Rightarrow> probe_result list" where
  "successes is = List.map_filter verify_one is"

text \<open>\<open>r\<close> is the first of the fastest results.\<close>

definition first_fastest :: "probe_result list \<Rightarrow> probe_result \<Rightarrow> bool" where
  "first_fastest xs r \<longleftrightarrow>
     (\<exists>ys zs. xs = ys @ r # zs \<and> list_all (\<lambda>y. pr_rtt r < pr_rtt y) ys \<and> list_all (\<lambda>z. pr_rtt r \<le> pr_rtt z) zs)"

definition best_of :: "probe_result list \<Rightarrow> probe_result option" where
  "best_of xs = foldl (\<lambda>best pr. Some (better best pr)) None xs"

lemma best_of_snoc: "best_of (xs @ [pr]) = Some (better (best_of xs) pr)"
  by (simp add: best_of_def)

lemma best_of_first_fastest: "case best_of xs of None \<Rightarrow> xs = [] | Some r \<Rightarrow> first_fastest xs r"
proof (induction xs rule: rev_induct)
  case Nil
  then show ?case by (simp add: best_of_def)
next
  case (snoc x xs)
  show ?case
  proof (cases "best_of xs")
    case None
    with snoc have "xs = []" by simp
    then show ?thesis by (auto simp: best_of_def better_def first_fastest_def intro!: exI [of _ "[]"])
  next
    case (Some r)
    with snoc obtain ys zs where r: "xs = ys @ r # zs" "list_all (\<lambda>y. pr_rtt r < pr_rtt y) ys" "list_all (\<lambda>z. pr_rtt r \<le> pr_rtt z) zs"
      by (auto simp: first_fastest_def)
    show ?thesis
    proof (cases "pr_rtt r \<le> pr_rtt x")
      case True
      with Some have "best_of (xs @ [x]) = Some r" by (simp add: best_of_snoc better_def)
      moreover have "first_fastest (xs @ [x]) r"
        unfolding first_fastest_def using r True by (intro exI [of _ ys] exI [of _ "zs @ [x]"]) simp
      ultimately show ?thesis by simp
    next
      case False
      with r have "list_all (\<lambda>y. pr_rtt x < pr_rtt y) xs" by (auto simp: list_all_iff)
      then have "first_fastest (xs @ [x]) x" unfolding first_fastest_def by (intro exI [of _ xs] exI [of _ "[]"]) simp
      with False Some show ?thesis by (simp add: best_of_snoc better_def)
    qed
  qed
qed

lemma best_of_None: "best_of xs = None \<longleftrightarrow> xs = []"
  by (cases xs rule: rev_cases) (simp_all add: best_of_snoc, simp add: best_of_def)

lemma successes_Cons: "successes (i # is) = (case verify_one i of None \<Rightarrow> successes is | Some pr \<Rightarrow> pr # successes is)"
  by (simp add: successes_def List.map_filter_def split: option.split)

text \<open>Whether the loop may leave the \<open>k\<close>-th item unserved: the target is reached or the time is over.\<close>

definition may_stop :: "'b strategy_scheme \<Rightarrow> nat \<Rightarrow> nat \<Rightarrow> nat \<Rightarrow> nat option \<Rightarrow> scan_item list \<Rightarrow> nat \<Rightarrow> bool" where
  "may_stop st deadline now found quiet_until is k \<longleftrightarrow>
     k < length is \<longrightarrow>
       quiet_until \<noteq> None
       \<or> 0 < target_successes st \<and> target_successes st \<le> found + length (successes (take k is))
       \<or> deadline \<le> (if k = 0 then now else si_time (is ! (k - 1))) \<or> deadline \<le> si_time (is ! k)"

lemma may_stop_Suc:
  assumes "may_stop st deadline (si_time i) found' quiet' is k"
    and "found' = found + length (successes [i])"
    and "quiet' \<noteq> None \<Longrightarrow> quiet \<noteq> None \<or> 0 < target_successes st \<and> target_successes st \<le> found'"
  shows "may_stop st deadline now found quiet (i # is) (Suc k)"
  using assms unfolding may_stop_def
  by (cases k) (auto simp: successes_Cons successes_def List.map_filter_def split: option.splits)

lemma item_served_time: "item_served deadline now quiet_until i \<Longrightarrow> si_time i \<le> deadline"
  by (auto simp: item_served_def effective_deadline_def Let_def split: option.splits)

lemma not_served_stops: "\<not> item_served deadline now quiet_until i \<Longrightarrow> may_stop st deadline now found quiet_until (i # is) 0"
  by (auto simp: item_served_def effective_deadline_def may_stop_def Let_def split: option.splits)

lemma hunt_loop_served:
  assumes "\<not> early_exit_first st"
  shows "\<exists>k \<le> length is. hunt_loop st deadline now best found quiet_until is
       = foldl (\<lambda>best pr. Some (better best pr)) best (successes (take k is))
     \<and> list_all (\<lambda>i. si_time i \<le> deadline) (take k is) \<and> may_stop st deadline now found quiet_until is k"
proof (induction "is" arbitrary: now best found quiet_until)
  case Nil
  show ?case by (simp add: successes_def List.map_filter_def may_stop_def)
next
  case (Cons i "is")
  show ?case
  proof (cases "item_served deadline now quiet_until i")
    case False
    with not_served_stops show ?thesis
      by (intro exI [of _ 0]) (fastforce simp: successes_def List.map_filter_def)
  next
    case served: True
    note t = item_served_time [OF served]
    show ?thesis
    proof (cases "verify_one i")
      case None
      obtain k where k: "k \<le> length is" "hunt_loop st deadline (si_time i) best found quiet_until is
          = foldl (\<lambda>best pr. Some (better best pr)) best (successes (take k is))"
        "list_all (\<lambda>i. si_time i \<le> deadline) (take k is)" "may_stop st deadline (si_time i) found quiet_until is k"
        using Cons.IH by blast
      then show ?thesis using served None t may_stop_Suc [OF k(4), of found quiet_until now]
        by (intro exI [of _ "Suc k"]) (simp add: successes_Cons successes_def [of "[]"] List.map_filter_def)
    next
      case (Some pr)
      define quiet' where "quiet' = (if target_reached st (found + 1) quiet_until then Some (si_time i + quiet_after_first st) else quiet_until)"
      have q: "quiet_until \<noteq> None \<or> 0 < target_successes st \<and> target_successes st \<le> found + 1" if "quiet' \<noteq> None"
        using that by (auto simp: quiet'_def target_reached_def split: if_splits)
      have one: "length (successes [i]) = 1" using Some by (simp add: successes_Cons successes_def List.map_filter_def)
      show ?thesis
      proof (cases "target_reached st (found + 1) quiet_until \<and> quiet_after_first st = 0")
        case True
        then have "may_stop st deadline now found quiet_until (i # is) 1"
          using one by (auto simp: may_stop_def target_reached_def)
        with True served Some assms t show ?thesis
          by (intro exI [of _ 1]) (simp add: successes_Cons successes_def [of "[]"] List.map_filter_def)
      next
        case False
        then have step: "hunt_loop st deadline now best found quiet_until (i # is)
            = hunt_loop st deadline (si_time i) (Some (better best pr)) (found + 1) quiet' is"
          using served Some assms by (auto simp: quiet'_def)
        obtain k where k: "k \<le> length is" "hunt_loop st deadline (si_time i) (Some (better best pr)) (found + 1) quiet' is
            = foldl (\<lambda>best pr. Some (better best pr)) (Some (better best pr)) (successes (take k is))"
          "list_all (\<lambda>i. si_time i \<le> deadline) (take k is)" "may_stop st deadline (si_time i) (found + 1) quiet' is k"
          using Cons.IH by blast
        have "may_stop st deadline now found quiet_until (i # is) (Suc k)"
          using may_stop_Suc [OF k(4), of found quiet_until now] one q by simp
        with k t Some show ?thesis unfolding step
          by (intro exI [of _ "Suc k"]) (simp add: successes_Cons)
      qed
    qed
  qed
qed

lemma hunt_loop_early:
  assumes "early_exit_first st"
  shows "hunt_loop st deadline now None found None is = Some pr \<Longrightarrow>
     (\<exists>k < length is. verify_one (is ! k) = Some pr \<and> successes (take k is) = [] \<and> si_time (is ! k) \<le> deadline)"
proof (induction "is" arbitrary: now)
  case (Cons i "is")
  then have served: "item_served deadline now None i" by (auto split: if_splits)
  show ?case
  proof (cases "verify_one i")
    case None
    with Cons served obtain k where "k < length is" "verify_one (is ! k) = Some pr" "successes (take k is) = []" "si_time (is ! k) \<le> deadline"
      by (auto split: if_splits)
    with None show ?thesis by (intro exI [of _ "Suc k"]) (simp add: successes_Cons)
  next
    case (Some q)
    with Cons.prems served assms item_served_time [OF served] show ?thesis
      by (intro exI [of _ 0]) (simp add: successes_def List.map_filter_def)
  qed
qed simp

subsection \<open>Properties\<close>


lemma range_hosts_full: "\<exists>hosts. range_hosts True n draws cidrs = Some hosts"
  by (induction cidrs arbitrary: draws) auto

lemma full_scan_ready: "full_subnet st \<Longrightarrow> \<exists>cs. build_candidates env st ports ip rng = Some cs"
  using range_hosts_full by (auto simp: build_candidates_def manual_masque_candidates_def Let_def split: option.split)

definition sample_rng :: scan_rng where
  "sample_rng = \<lparr>rng_v4 = (\<lambda>_. []), rng_v6 = (\<lambda>_ _. 0)\<rparr>"



text \<open>
  Which addresses an enumerated range has. A range whose address is aligned gives exactly its host
  addresses. An address that is not aligned is not rounded down: the scan then leaves the range. A
  range wider than /20, and a /31, gives no address at all.
\<close>
lemma enumerated_range:
  assumes "parse_cidr_v4 cidr = Some (base, prefix)"
  shows "(20 \<le> prefix \<and> prefix \<le> 31 \<and> unat base mod 2 ^ (32 - prefix) = 0 \<longrightarrow>
            set (enumerate_cidr_v4 cidr) = {a. drop_bit (32 - prefix) a = drop_bit (32 - prefix) base
               \<and> unat a mod 2 ^ (32 - prefix) \<notin> {0, 2 ^ (32 - prefix) - 1}})
     \<and> (20 \<le> prefix \<and> prefix \<le> 30 \<and> 2 \<le> unat base mod 2 ^ (32 - prefix) \<longrightarrow>
            (\<exists>a \<in> set (enumerate_cidr_v4 cidr). drop_bit (32 - prefix) a \<noteq> drop_bit (32 - prefix) base))
     \<and> (prefix < 20 \<or> prefix = 31 \<longrightarrow> enumerate_cidr_v4 cidr = [])"
proof (intro conjI impI)
  let ?h = "32 - prefix"
  assume p: "20 \<le> prefix \<and> prefix \<le> 31 \<and> unat base mod 2 ^ ?h = 0"
  then have set: "set (enumerate_cidr_v4 cidr) = (\<lambda>off. base + word_of_nat off) ` {1..<2 ^ ?h - 1}"
    using assms by (auto simp: enumerate_cidr_v4_def Let_def)
  show "set (enumerate_cidr_v4 cidr) = {a. drop_bit ?h a = drop_bit ?h base \<and> unat a mod 2 ^ ?h \<notin> {0, 2 ^ ?h - 1}}" (is "_ = ?R")
  proof (intro equalityI subsetI)
    fix a assume "a \<in> set (enumerate_cidr_v4 cidr)"
    then obtain off where off: "a = base + word_of_nat off" "1 \<le> off" "off < 2 ^ ?h - 1" unfolding set by auto
    then have "unat a mod 2 ^ ?h = off" using aligned_split [of ?h off base] p by (auto simp: mod_add_eq [symmetric, of "unat base"])
    with off aligned_prefix [of ?h off base] p show "a \<in> ?R" by auto
  next
    fix a assume a: "a \<in> ?R"
    let ?off = "unat a mod 2 ^ ?h"
    have "unat a div 2 ^ ?h = unat base div 2 ^ ?h" using a by (auto simp: word_unat_eq_iff unat_drop)
    then have "unat a = unat base + ?off" using p by (metis (no_types) add.right_neutral div_mult_mod_eq)
    then have "a = base + word_of_nat ?off" using aligned_split [of ?h ?off base] p by (simp add: word_unat_eq_iff)
    moreover have "?off < 2 ^ ?h" "?off \<noteq> 0" "?off \<noteq> 2 ^ ?h - 1" using a by auto
    then have "1 \<le> ?off" "?off < 2 ^ ?h - 1" by linarith+
    ultimately show "a \<in> set (enumerate_cidr_v4 cidr)" unfolding set by auto
  qed
next
  let ?h = "32 - prefix"
  assume p: "20 \<le> prefix \<and> prefix \<le> 30 \<and> 2 \<le> unat base mod 2 ^ ?h"
  then show "\<exists>a \<in> set (enumerate_cidr_v4 cidr). drop_bit ?h a \<noteq> drop_bit ?h base"
    using assms unaligned_escape [of ?h base] by (auto simp: enumerate_cidr_v4_def Let_def)
next
  assume "prefix < 20 \<or> prefix = 31"
  then show "enumerate_cidr_v4 cidr = []" using assms by (auto simp: enumerate_cidr_v4_def Let_def)
qed

lemma sample_addr: "parse_ipv4 (lit ''188.114.96.200'') = Some 0xBC7260C8"
  by (simp add: addr_eval ipv4_from_def be_dec_def)

lemma sample_prefix: "parse_uint 8 (lit ''24'') = Some 24"
  by (simp add: parse_uint_def digits_value_def chr_defs Let_def)

lemma sample_cidr: "parse_cidr_v4 (lit ''188.114.96.200/24'') = Some (0xBC7260C8, 24)"
  using sample_addr sample_prefix by (simp add: parse_cidr_v4_def)

lemma sample_normalize: "app_normalize_cidr_v4 (lit ''188.114.96.200/24'') = Some (lit ''188.114.96.200/24'')"
proof -
  have "octets4 (ipv4_from [188, 114, 96, 200]) = [188, 114, 96, 200]" by (rule octets4_from) simp
  moreover have "ipv4_from [188, 114, 96, 200] = 0xBC7260C8" by (simp add: ipv4_from_def be_dec_def)
  ultimately have s: "show_ipv4 0xBC7260C8 = lit ''188.114.96.200''"
    by (simp add: show_ipv4_def show_nat.simps Let_def)
  have t: "trim (lit ''188.114.96.200'') = lit ''188.114.96.200''" "trim (lit ''24'') = lit ''24''"
    "trim (lit ''188.114.96.200/24'') = lit ''188.114.96.200/24''"
    by (simp_all add: trim_none chr_defs)
  from s t sample_addr sample_prefix show ?thesis
    by (simp add: app_normalize_cidr_v4_def Let_def show_nat.simps)
qed


lemma build_candidates_concurrency: "build_candidates env (st\<lparr>concurrency := c\<rparr>) ports ip rng = build_candidates env st ports ip rng"
  by (simp add: build_candidates_def manual_masque_candidates_def Let_def cong: option.case_cong)

lemma hunt_loop_concurrency: "hunt_loop (st\<lparr>concurrency := c\<rparr>) d now best found q is = hunt_loop st d now best found q is"
  by (induction "is" arbitrary: now best found q) (simp_all add: target_reached_def Let_def split: option.split)



end
