(* ===== verification/Wg_Prober.thy ===== *)
theory Wg_Prober
  imports Prober
begin

text \<open>
  The WireGuard endpoint scanner of \<open>wg_prober.rs\<close> and its tables in \<open>wireguard.rs\<close>. The parsers, the
  samplers and the manual ranges of \<open>wg_prober.rs\<close> are copies of those of \<open>prober.rs\<close>, so the
  definitions of the theory \<open>Prober\<close> stand for both, as do its scan modes.
\<close>

definition WG_PREFIXES_V4 :: "str list" where
  "WG_PREFIXES_V4 = map lit
     [''162.159.192.0/24'', ''162.159.195.0/24'', ''188.114.96.0/24'', ''188.114.97.0/24'', ''188.114.98.0/24'',
      ''188.114.99.0/24'', ''162.159.193.0/24'']"

definition WG_PREFIXES_V6 :: "str list" where
  "WG_PREFIXES_V6 = map lit [''2606:4700:d0::/64'', ''2606:4700:d1::/64'', ''2606:4700:100::/48'']"

definition WG_ZT_PREFIXES_V4 :: "str list" where
  "WG_ZT_PREFIXES_V4 = map lit [''162.159.193.0/24'']"

definition WG_ZT_PREFIXES_V6 :: "str list" where
  "WG_ZT_PREFIXES_V6 = map lit [''2606:4700:100::/48'']"

definition WG_PORTS :: "u16 list" where
  "WG_PORTS =
     [2408, 500, 1701, 4500, 854, 859, 864, 878, 880, 890, 891, 894, 903, 908, 928, 934, 939,
      942, 943, 945, 946, 955, 968, 987, 988, 1002, 1010, 1014, 1018, 1070, 1074, 1180, 1387,
      1843, 2371, 2506, 3138, 3476, 3581, 3854, 4177, 4198, 4233, 5279, 5956, 7103, 7152, 7156,
      7281, 7559, 8319, 8742, 8854, 8886]"

definition WG_SEEDS_V4 :: "str list" where
  "WG_SEEDS_V4 = map lit [''162.159.192.1'', ''162.159.195.1'', ''188.114.96.1'', ''188.114.97.1'', ''162.159.193.1'']"

definition WG_SEEDS_V6 :: "str list" where
  "WG_SEEDS_V6 = map lit
     [''2606:4700:d0::a29f:c001'', ''2606:4700:d1::a29f:c001'', ''2606:4700:d0::a29f:c301'', ''2606:4700:d0::bc72:6001'']"

definition wg_prefixes_v4 :: "env \<Rightarrow> str list" where
  "wg_prefixes_v4 env = prioritize env WG_PREFIXES_V4 WG_ZT_PREFIXES_V4"

definition wg_prefixes_v6 :: "env \<Rightarrow> str list" where
  "wg_prefixes_v6 env = prioritize env WG_PREFIXES_V6 WG_ZT_PREFIXES_V6"

definition wg_seeds_v4 :: "env \<Rightarrow> str list" where
  "wg_seeds_v4 env = prioritize env WG_SEEDS_V4 [lit ''162.159.193.1'']"

record wg_strategy = strategy +
  pool_port_waves :: nat

definition wg_mode_strategy :: "scan_mode \<Rightarrow> wg_strategy" where
  "wg_mode_strategy m =
     (case m of
        Turbo \<Rightarrow> \<lparr>concurrency = 12, per_probe_timeout = 5000, overall_deadline = 30000, quiet_after_first = 0,
          target_successes = 1, early_exit_first = True, full_subnet = False, sample_per_cidr = 40, pool_port_waves = 1\<rparr>
      | Balanced \<Rightarrow> \<lparr>concurrency = 8, per_probe_timeout = 7000, overall_deadline = 80000, quiet_after_first = 12000,
          target_successes = 5, early_exit_first = False, full_subnet = False, sample_per_cidr = 120, pool_port_waves = 3\<rparr>
      | Thorough \<Rightarrow> \<lparr>concurrency = 10, per_probe_timeout = 9000, overall_deadline = 250000, quiet_after_first = 25000,
          target_successes = 0, early_exit_first = False, full_subnet = True, sample_per_cidr = 0, pool_port_waves = 4\<rparr>
      | Stealth \<Rightarrow> \<lparr>concurrency = 3, per_probe_timeout = 10000, overall_deadline = 150000, quiet_after_first = 20000,
          target_successes = 3, early_exit_first = False, full_subnet = False, sample_per_cidr = 50, pool_port_waves = 2\<rparr>
      | Ironclad \<Rightarrow> \<lparr>concurrency = 4, per_probe_timeout = 15000, overall_deadline = 180000, quiet_after_first = 15000,
          target_successes = 3, early_exit_first = False, full_subnet = False, sample_per_cidr = 120, pool_port_waves = 3\<rparr>)"

subsection \<open>Candidates\<close>

definition custom_wg_cidrs_v4 :: "env \<Rightarrow> str list option" where
  "custom_wg_cidrs_v4 env = manual_cidrs env (lit ''AETHER_WG_CIDRS'')"

definition wg_scan_ports :: "u16 list \<Rightarrow> u16 list" where
  "wg_scan_ports ports = (let deduped = fst (push_all ([], {}) ports) in if deduped = [] then [2408] else deduped)"

text \<open>The port waves: in each wave every address is tried on one port, the ports rotating along the addresses.\<close>

definition port_waves :: "nat \<Rightarrow> u16 list \<Rightarrow> ip_addr list \<Rightarrow> candidate list" where
  "port_waves waves ports ips =
     concat (map (\<lambda>wave. map (\<lambda>(idx, ip). (ip, ports ! ((idx + wave) mod length ports))) (enumerate 0 ips)) [0..<max 1 waves])"

definition push_allowed :: "sock_addr set \<Rightarrow> candidate list \<Rightarrow> candidate list" where
  "push_allowed excluded cs =
     fst (push_all ([], {}) (filter (\<lambda>(ip, port). sock_addr_new ip port \<notin> excluded) cs))"

definition manual_wg_candidates ::
  "wg_strategy \<Rightarrow> u16 list \<Rightarrow> str list \<Rightarrow> sock_addr set \<Rightarrow> scan_rng \<Rightarrow> candidate list option" where
  "manual_wg_candidates st ports cidrs excluded rng =
     map_option (\<lambda>cidr_hosts.
       let ips = map V4 (interleave cidr_hosts); ports = (if ports = [] then [2408] else ports) in
       push_allowed excluded (port_waves (pool_port_waves st) ports ips))
     (range_hosts (full_subnet st) (sample_per_cidr st) (rng_v4 rng) cidrs)"

definition build_wg_candidates ::
  "env \<Rightarrow> wg_strategy \<Rightarrow> u16 list \<Rightarrow> ip_scan \<Rightarrow> sock_addr set \<Rightarrow> scan_rng \<Rightarrow> candidate list option" where
  "build_wg_candidates env st ports0 ip excluded rng =
     (let ports = wg_scan_ports ports0 in
      case (if want_v4 ip then custom_wg_cidrs_v4 env else None) of
        Some cidrs \<Rightarrow> manual_wg_candidates st ports cidrs excluded rng
      | None \<Rightarrow>
          map_option (\<lambda>cidr_hosts.
            let anchors4 = (if want_v4 ip then map V4 (List.map_filter parse_ipv4 (wg_seeds_v4 env)) else []);
                pool4 = (if want_v4 ip then map V4 (interleave cidr_hosts) else []);
                anchors6 = (if want_v6 ip then map V6 (List.map_filter parse_ipv6 WG_SEEDS_V6) else []);
                per = (if sample_per_cidr st = 0 then 80 else sample_per_cidr st);
                pool6 = (if want_v6 ip
                         then map V6 (interleave (range_hosts6 per WG_PREFIXES_V4 (rng_v6 rng) (wg_prefixes_v6 env))) else []);
                ips = (anchors4 @ anchors6) @ (pool4 @ pool6) in
            push_allowed excluded (port_waves (pool_port_waves st) ports ips))
          (if want_v4 ip then range_hosts (full_subnet st) (sample_per_cidr st) (rng_v4 rng) (wg_prefixes_v4 env) else Some []))"

subsection \<open>The scan\<close>

text \<open>\<open>sort_by_key\<close> is stable; the filter keeps the first result of each address.\<close>

fun first_per_ip :: "ip_addr set \<Rightarrow> probe_result list \<Rightarrow> probe_result list" where
  "first_per_ip seen [] = []"
| "first_per_ip seen (pr # prs) =
     (if pr_ip pr \<in> seen then first_per_ip seen prs else pr # first_per_ip (insert (pr_ip pr) seen) prs)"

definition distinct_by_ip :: "probe_result list \<Rightarrow> probe_result list" where
  "distinct_by_ip found = first_per_ip {} (sort_key pr_rtt found)"

text \<open>The loop returns the first result of an early exit on the left, the verified endpoints on the right.\<close>

fun wg_hunt_loop ::
  "wg_strategy \<Rightarrow> nat \<Rightarrow> nat \<Rightarrow> nat \<Rightarrow> probe_result list \<Rightarrow> nat \<Rightarrow> nat option \<Rightarrow> scan_item list
    \<Rightarrow> probe_result + probe_result list" where
  "wg_hunt_loop st want deadline now verified found quiet_until [] = Inr verified"
| "wg_hunt_loop st want deadline now verified found quiet_until (i # is) =
     (if \<not> item_served deadline now quiet_until i then Inr verified
      else (case verify_one i of
        None \<Rightarrow> wg_hunt_loop st want deadline (si_time i) verified found quiet_until is
      | Some pr \<Rightarrow>
          if early_exit_first st then Inl pr
          else
            let verified = verified @ [pr]; found = found + 1 in
            if want \<le> length (distinct_by_ip verified) \<and> 1 < want then Inr verified
            else if target_reached st found quiet_until then
              (if quiet_after_first st \<noteq> 0
               then wg_hunt_loop st want deadline (si_time i) verified found (Some (si_time i + quiet_after_first st)) is
               else Inr verified)
            else wg_hunt_loop st want deadline (si_time i) verified found quiet_until is))"

definition wg_scan_strategy :: "scan_mode \<Rightarrow> nat \<Rightarrow> wg_strategy" where
  "wg_scan_strategy mode want =
     (let st = wg_mode_strategy mode in
      if 1 < want then st\<lparr>early_exit_first := False, target_successes := max (target_successes st) (want * 3)\<rparr> else st)"

definition hunt_wg_endpoints ::
  "tuning \<Rightarrow> env \<Rightarrow> scan_mode \<Rightarrow> nat \<Rightarrow> u16 list \<Rightarrow> ip_scan \<Rightarrow> bool \<Rightarrow> sock_addr set \<Rightarrow> scan_rng \<Rightarrow> nat
    \<Rightarrow> (nat \<Rightarrow> candidate list \<Rightarrow> scan_item list) \<Rightarrow> probe_result list result option" where
  "hunt_wg_endpoints T env mode want0 ports ip host_has_ipv6 excluded rng now probes =
     (let want = max want0 1; base = wg_mode_strategy mode; st = wg_scan_strategy mode want in
      case effective_scan ip host_has_ipv6 of
        None \<Rightarrow> Some (Inl NoCleanEndpoint)
      | Some ip \<Rightarrow>
          map_option (\<lambda>candidates.
            case wg_hunt_loop st want (now + overall_deadline st) now [] 0 None
                   (probes (cap_concurrency T (concurrency base)) candidates) of
              Inl pr \<Rightarrow> Inr [pr]
            | Inr verified \<Rightarrow>
                let picked = distinct_by_ip verified in
                if picked = [] then Inl NoCleanEndpoint else Inr (take want picked))
          (build_wg_candidates env base ports ip excluded rng))"

definition hunt_best_wg_endpoint ::
  "tuning \<Rightarrow> env \<Rightarrow> scan_mode \<Rightarrow> u16 list \<Rightarrow> ip_scan \<Rightarrow> bool \<Rightarrow> sock_addr set \<Rightarrow> scan_rng \<Rightarrow> nat
    \<Rightarrow> (nat \<Rightarrow> candidate list \<Rightarrow> scan_item list) \<Rightarrow> probe_result result option" where
  "hunt_best_wg_endpoint T env mode ports ip host_has_ipv6 excluded rng now probes =
     map_option (\<lambda>r. case r of
         Inl e \<Rightarrow> Inl e
       | Inr [] \<Rightarrow> Inl NoCleanEndpoint
       | Inr (pr # _) \<Rightarrow> Inr pr)
     (hunt_wg_endpoints T env mode 1 ports ip host_has_ipv6 excluded rng now probes)"

subsection \<open>Candidates as sets\<close>

lemma wg_scan_ports_set: "set (wg_scan_ports ports) = (if ports = [] then {2408} else set ports)"
proof -
  have s: "set (fst (push_all ([], {}) ports)) = set ports" by simp
  then have "fst (push_all ([], {}) ports) = [] \<longleftrightarrow> ports = []" by (metis set_empty)
  with s show ?thesis by (simp add: wg_scan_ports_def Let_def)
qed

lemma wg_scan_ports_ne: "wg_scan_ports ports \<noteq> []"
  by (simp add: wg_scan_ports_def Let_def)

lemma port_waves_ports: "ports \<noteq> [] \<Longrightarrow> c \<in> set (port_waves waves ports ips) \<Longrightarrow> fst c \<in> set ips \<and> snd c \<in> set ports"
  by (auto simp: port_waves_def in_set_enumerate_eq)

lemma push_allowed_exact:
  "distinct (push_allowed excluded cs)"
  "set (push_allowed excluded cs) = {(ip, port) \<in> set cs. sock_addr_new ip port \<notin> excluded}"
  by (auto simp: push_allowed_def)

lemma port_waves_all:
  assumes "ip \<in> set ips" "ports \<noteq> []"
  shows "\<exists>p \<in> set ports. (ip, p) \<in> set (port_waves waves ports ips)"
proof -
  obtain idx where idx: "idx < length ips" "ips ! idx = ip" using assms(1) by (auto simp: in_set_conv_nth)
  then have "(ip, ports ! (idx mod length ports)) \<in> set (port_waves waves ports ips)"
    unfolding port_waves_def by (force simp: in_set_enumerate_eq intro!: bexI [of _ 0])
  moreover have "ports ! (idx mod length ports) \<in> set ports" using assms(2) by simp
  ultimately show ?thesis by blast
qed

lemma wg_candidates_form:
  assumes "build_wg_candidates env st ports ip excluded rng = Some cs"
  shows "\<exists>ips. cs = push_allowed excluded (port_waves (pool_port_waves st) (wg_scan_ports ports) ips)"
  using assms wg_scan_ports_ne [of ports]
  by (auto simp: build_wg_candidates_def manual_wg_candidates_def Let_def split: option.splits if_splits)

subsection \<open>One endpoint per address\<close>

lemma first_per_ip_subset: "pr \<in> set (first_per_ip seen prs) \<Longrightarrow> pr \<in> set prs \<and> pr_ip pr \<notin> seen"
  by (induction prs arbitrary: seen) (auto split: if_splits)

lemma first_per_ip_distinct: "distinct (map pr_ip (first_per_ip seen prs))"
  by (induction prs arbitrary: seen) (auto dest: first_per_ip_subset)

lemma first_per_ip_sorted: "sorted (map pr_rtt prs) \<Longrightarrow> sorted (map pr_rtt (first_per_ip seen prs))"
  by (induction prs arbitrary: seen) (auto dest: first_per_ip_subset)

lemma first_per_ip_best:
  "sorted (map pr_rtt prs) \<Longrightarrow> pr \<in> set prs \<Longrightarrow> pr_ip pr \<notin> seen \<Longrightarrow>
     \<exists>best \<in> set (first_per_ip seen prs). pr_ip best = pr_ip pr \<and> pr_rtt best \<le> pr_rtt pr"
proof (induction prs arbitrary: seen)
  case (Cons q prs)
  show ?case
  proof (cases "pr = q \<or> pr_ip q = pr_ip pr")
    case True
    with Cons.prems show ?thesis by (intro bexI [of _ q]) auto
  next
    case False
    with Cons.prems Cons.IH [of "if pr_ip q \<in> seen then seen else insert (pr_ip q) seen"] show ?thesis by auto
  qed
qed simp

text \<open>
  The specification of \<open>distinct_by_ip\<close>: sorted by round trip time, no address twice, only results that
  were found, and for every result found one of the same address that is at least as fast.
\<close>

definition best_per_address :: "probe_result list \<Rightarrow> probe_result list \<Rightarrow> bool" where
  "best_per_address found eps \<longleftrightarrow>
     sorted (map pr_rtt eps) \<and> distinct (map pr_ip eps) \<and> set eps \<subseteq> set found
     \<and> (\<forall>pr \<in> set found. \<exists>best \<in> set eps. pr_ip best = pr_ip pr \<and> pr_rtt best \<le> pr_rtt pr)"

lemma distinct_by_ip_correct: "best_per_address found (distinct_by_ip found)"
  using first_per_ip_subset [of _ "{}" "sort_key pr_rtt found"] first_per_ip_best [of "sort_key pr_rtt found" _ "{}"]
  by (auto simp: best_per_address_def distinct_by_ip_def first_per_ip_sorted first_per_ip_distinct)

lemma distinct_by_ip_Nil: "distinct_by_ip found = [] \<longleftrightarrow> found = []"
proof
  assume "distinct_by_ip found = []"
  with distinct_by_ip_correct [of found] show "found = []" by (auto simp: best_per_address_def neq_Nil_conv)
qed (simp add: distinct_by_ip_def)

lemma wg_hunt_loop_served:
  assumes "\<not> early_exit_first st"
  shows "\<exists>k \<le> length is. wg_hunt_loop st want deadline now verified found quiet_until is = Inr (verified @ successes (take k is))
     \<and> list_all (\<lambda>i. si_time i \<le> deadline) (take k is)
     \<and> (k = length is \<or> 1 < want \<and> want \<le> length (distinct_by_ip (verified @ successes (take k is)))
        \<or> may_stop st deadline now found quiet_until is k)"
proof (induction "is" arbitrary: now verified found quiet_until)
  case Nil
  show ?case by (simp add: successes_def List.map_filter_def)
next
  case (Cons i "is")
  show ?case
  proof (cases "item_served deadline now quiet_until i")
    case False
    with not_served_stops show ?thesis
      by (intro exI [of _ 0]) (fastforce simp: successes_def List.map_filter_def)
  next
    case served: True
    note t = item_served_time [OF served]
    show ?thesis
    proof (cases "verify_one i")
      case None
      obtain k where k: "k \<le> length is" "wg_hunt_loop st want deadline (si_time i) verified found quiet_until is
          = Inr (verified @ successes (take k is))"
        "list_all (\<lambda>i. si_time i \<le> deadline) (take k is)"
        "k = length is \<or> 1 < want \<and> want \<le> length (distinct_by_ip (verified @ successes (take k is)))
         \<or> may_stop st deadline (si_time i) found quiet_until is k"
        using Cons.IH by blast
      moreover have "length (successes [i]) = 0" using None by (simp add: successes_Cons successes_def List.map_filter_def)
      ultimately show ?thesis using served None t may_stop_Suc [of st deadline i found quiet_until "is" k found quiet_until now]
        by (intro exI [of _ "Suc k"]) (auto simp: successes_Cons)
    next
      case (Some pr)
      have one: "successes [i] = [pr]" using Some by (simp add: successes_Cons successes_def List.map_filter_def)
      define quiet' where "quiet' = (if target_reached st (found + 1) quiet_until then Some (si_time i + quiet_after_first st) else quiet_until)"
      have q: "quiet_until \<noteq> None \<or> 0 < target_successes st \<and> target_successes st \<le> found + 1" if "quiet' \<noteq> None"
        using that by (auto simp: quiet'_def target_reached_def split: if_splits)
      have stop: "may_stop st deadline now found quiet_until (i # is) 1" if "target_reached st (found + 1) quiet_until"
        using that one by (auto simp: may_stop_def target_reached_def)
      show ?thesis
      proof (cases "want \<le> length (distinct_by_ip (verified @ [pr])) \<and> 1 < want
          \<or> target_reached st (found + 1) quiet_until \<and> quiet_after_first st = 0")
        case True
        then have "wg_hunt_loop st want deadline now verified found quiet_until (i # is) = Inr (verified @ [pr])"
          using served Some assms by (auto simp: Let_def)
        with True one t stop show ?thesis by (intro exI [of _ 1]) auto
      next
        case False
        then have step: "wg_hunt_loop st want deadline now verified found quiet_until (i # is)
            = wg_hunt_loop st want deadline (si_time i) (verified @ [pr]) (found + 1) quiet' is"
          using served Some assms by (auto simp: quiet'_def Let_def)
        obtain k where k: "k \<le> length is" "wg_hunt_loop st want deadline (si_time i) (verified @ [pr]) (found + 1) quiet' is
            = Inr ((verified @ [pr]) @ successes (take k is))"
          "list_all (\<lambda>i. si_time i \<le> deadline) (take k is)"
          "k = length is \<or> 1 < want \<and> want \<le> length (distinct_by_ip ((verified @ [pr]) @ successes (take k is)))
           \<or> may_stop st deadline (si_time i) (found + 1) quiet' is k"
          using Cons.IH by blast
        have "may_stop st deadline (si_time i) (found + 1) quiet' is k \<Longrightarrow> may_stop st deadline now found quiet_until (i # is) (Suc k)"
          using may_stop_Suc [of st deadline i "found + 1" quiet' "is" k found quiet_until now] one q by simp
        with k t Some show ?thesis unfolding step by (intro exI [of _ "Suc k"]) (auto simp: successes_Cons)
      qed
    qed
  qed
qed

lemma wg_hunt_loop_early:
  assumes "early_exit_first st"
  shows "wg_hunt_loop st want deadline now [] found None is = Inr verified \<Longrightarrow> verified = []"
    and "wg_hunt_loop st want deadline now [] found None is = Inl pr \<Longrightarrow>
       \<exists>i \<in> set is. verify_one i = Some pr \<and> si_time i \<le> deadline"
  using assms by (induction "is" arbitrary: now) (auto split: if_splits option.splits dest: item_served_time)

subsection \<open>Properties\<close>

lemma wg_scan_sound:
  assumes "effective_scan ip v6 = Some ip'"
    and "build_wg_candidates env (wg_mode_strategy mode) ports ip' excluded rng = Some cs"
    and "items = probes (cap_concurrency T (concurrency (wg_mode_strategy mode))) cs"
    and "list_all (\<lambda>i. si_candidate i \<in> set cs) items"
    and "hunt_wg_endpoints T env mode want ports ip v6 excluded rng now probes = Some (Inr eps)"
  shows "eps \<noteq> [] \<and> length eps \<le> max want 1 \<and> distinct (map pr_ip eps) \<and> sorted (map pr_rtt eps)
     \<and> list_all (\<lambda>ep. (pr_ip ep, pr_port ep) \<in> set cs
          \<and> pr_port ep \<in> (if ports = [] then {2408} else set ports)
          \<and> sock_addr_new (pr_ip ep) (pr_port ep) \<notin> excluded
          \<and> (\<exists>i \<in> set items. verify_one i = Some ep \<and> si_time i \<le> now + overall_deadline (wg_mode_strategy mode))) eps
     \<and> (mode \<noteq> Turbo \<or> 1 < want \<longrightarrow>
          (\<exists>k all. best_per_address (successes (take k items)) all \<and> eps = take (max want 1) all))"
proof -
  let ?w = "max want 1" and ?st = "wg_scan_strategy mode (max want 1)"
  let ?d = "now + overall_deadline (wg_mode_strategy mode)"
  have d: "overall_deadline (wg_scan_strategy mode w) = overall_deadline (wg_mode_strategy mode)" for w by (simp add: wg_scan_strategy_def Let_def)
  have early: "early_exit_first ?st \<longleftrightarrow> mode = Turbo \<and> want \<le> 1"
    by (cases mode) (auto simp: wg_scan_strategy_def wg_mode_strategy_def Let_def)
  let ?l = "wg_hunt_loop ?st ?w ?d now [] 0 None items"
  have l: "(case ?l of Inl pr \<Rightarrow> Inr [pr]
      | Inr verified \<Rightarrow> if distinct_by_ip verified = [] then Inl NoCleanEndpoint else Inr (take ?w (distinct_by_ip verified))) = Inr eps"
    using assms(1,2,3,5) by (simp add: hunt_wg_endpoints_def Let_def d del: One_nat_def cong: sum.case_cong)
  obtain ips where cs: "cs = push_allowed excluded (port_waves (pool_port_waves (wg_mode_strategy mode)) (wg_scan_ports ports) ips)"
    using wg_candidates_form [OF assms(2)] by blast
  have ok: "(pr_ip ep, pr_port ep) \<in> set cs \<and> pr_port ep \<in> (if ports = [] then {2408} else set ports)
      \<and> sock_addr_new (pr_ip ep) (pr_port ep) \<notin> excluded"
    if "i \<in> set items" "verify_one i = Some ep" for i ep
  proof -
    have "(pr_ip ep, pr_port ep) \<in> set cs" using that assms(4) by (auto simp: verify_one_def list_all_iff)
    then show ?thesis
      using push_allowed_exact(2) port_waves_ports [OF wg_scan_ports_ne, of "(pr_ip ep, pr_port ep)"] wg_scan_ports_set [of ports]
      unfolding cs by fastforce
  qed
  have served: "\<exists>i \<in> set items. verify_one i = Some ep \<and> si_time i \<le> ?d"
    if "ep \<in> set (successes (take k items))" "list_all (\<lambda>i. si_time i \<le> ?d) (take k items)" for ep k
    using that by (auto simp: successes_def List.map_filter_def list_all_iff) (metis in_set_takeD)
  show ?thesis
  proof (cases "early_exit_first ?st")
    case True
    then have eps: "\<exists>pr. ?l = Inl pr \<and> eps = [pr]"
      using l wg_hunt_loop_early(1) [OF True, of ?w ?d now 0 items] by (auto simp: distinct_by_ip_def split: sum.splits if_splits)
    then obtain pr where pr: "?l = Inl pr" "eps = [pr]" by blast
    with wg_hunt_loop_early(2) [OF True, of ?w ?d now 0 items pr] ok True early show ?thesis by auto
  next
    case False
    obtain k where k: "?l = Inr (successes (take k items))" "list_all (\<lambda>i. si_time i \<le> ?d) (take k items)"
      using wg_hunt_loop_served [OF False, of items ?w ?d now "[]" 0 None] by auto
    let ?all = "distinct_by_ip (successes (take k items))"
    have eps: "eps = take ?w ?all" "?all \<noteq> []" using l k(1) by (auto split: if_splits)
    have spec: "best_per_address (successes (take k items)) ?all" by (rule distinct_by_ip_correct)
    have "distinct (map pr_ip eps)" "sorted (map pr_rtt eps)" "eps \<noteq> []" "length eps \<le> ?w"
      using spec eps by (auto simp: best_per_address_def take_map [symmetric] sorted_wrt_take)
    moreover have "\<exists>i \<in> set items. verify_one i = Some ep \<and> si_time i \<le> ?d" if "ep \<in> set eps" for ep
      using that spec eps served [OF _ k(2)] by (auto simp: best_per_address_def dest!: in_set_takeD)
    ultimately show ?thesis using ok spec eps(1) unfolding list_all_iff by blast
  qed
qed

text \<open>
  C26: A WireGuard scan that succeeds gives between one and the wanted number of endpoints, on different
  addresses, the fastest first. Each is a candidate that passed verification before the deadline, on
  a port of the list (2408 when the list is empty), and none is excluded. Except for the early exit
  of the turbo mode, the endpoints are the best of all results the scan waited for, one per address.
\<close>
theorem wg_scan_endpoints:
  assumes "effective_scan ip v6 = Some ip'"
    and "build_wg_candidates env (wg_mode_strategy mode) ports ip' excluded rng = Some cs"
    and "items = probes (cap_concurrency T (concurrency (wg_mode_strategy mode))) cs"
    and "list_all (\<lambda>i. si_candidate i \<in> set cs) items"
    and "hunt_wg_endpoints T env mode want ports ip v6 excluded rng now probes = Some (Inr eps)"
  shows "eps \<noteq> [] \<and> length eps \<le> max want 1 \<and> distinct (map pr_ip eps) \<and> sorted (map pr_rtt eps)
     \<and> list_all (\<lambda>ep. (pr_ip ep, pr_port ep) \<in> set cs
          \<and> pr_port ep \<in> (if ports = [] then {2408} else set ports)
          \<and> sock_addr_new (pr_ip ep) (pr_port ep) \<notin> excluded
          \<and> (\<exists>i \<in> set items. verify_one i = Some ep \<and> si_time i \<le> now + overall_deadline (wg_mode_strategy mode))) eps
     \<and> (mode \<noteq> Turbo \<or> 1 < want \<longrightarrow>
          (\<exists>k all. best_per_address (successes (take k items)) all \<and> eps = take (max want 1) all))"
  using assms by (rule wg_scan_sound)

lemma sample_seed: "parse_ipv4 (lit ''162.159.192.1'') = Some 0xA29FC001"
  by (simp add: addr_eval ipv4_from_def be_dec_def)

definition one_probe :: "nat \<Rightarrow> candidate list \<Rightarrow> scan_item list" where
  "one_probe n cs = map (\<lambda>c. \<lparr>si_time = 7, si_timer_first = False, si_candidate = c, si_rtt = Some 20\<rparr>) (take 1 cs)"

lemma sample_wg_candidates:
  "\<exists>c cs. build_wg_candidates (\<lambda>_. None) (wg_mode_strategy Thorough) WG_PORTS ScanV4 {} sample_rng = Some (c # cs)"
proof -
  obtain hosts where h: "range_hosts True 0 (rng_v4 sample_rng) (wg_prefixes_v4 (\<lambda>_. None)) = Some hosts"
    using range_hosts_full by blast
  have "lit ''162.159.192.1'' \<in> set WG_SEEDS_V4" by (simp add: WG_SEEDS_V4_def)
  then have "0xA29FC001 \<in> set (List.map_filter parse_ipv4 WG_SEEDS_V4)"
    using sample_seed by (force simp: List.map_filter_def simp del: lit_simps)
  then have seed: "V4 0xA29FC001 \<in> set (map V4 (List.map_filter parse_ipv4 WG_SEEDS_V4) @ ips)" for ips by simp
  define ips where "ips = map V4 (List.map_filter parse_ipv4 WG_SEEDS_V4) @ map V4 (interleave hosts)"
  have "build_wg_candidates (\<lambda>_. None) (wg_mode_strategy Thorough) WG_PORTS ScanV4 {} sample_rng
      = Some (push_allowed {} (port_waves 4 (wg_scan_ports WG_PORTS) ips))"
    using h by (simp add: build_wg_candidates_def want_v4_def want_v6_def custom_wg_cidrs_v4_def manual_cidrs_def env_nonblank_def
        wg_mode_strategy_def wg_seeds_v4_def prioritize_def zero_trust_mode_def ips_def Let_def)
  moreover have "push_allowed {} (port_waves 4 (wg_scan_ports WG_PORTS) ips) \<noteq> []"
  proof -
    obtain p where "(V4 0xA29FC001, p) \<in> set (port_waves 4 (wg_scan_ports WG_PORTS) ips)"
      using port_waves_all [OF seed wg_scan_ports_ne] unfolding ips_def by blast
    then have "(V4 0xA29FC001, p) \<in> set (push_allowed {} (port_waves 4 (wg_scan_ports WG_PORTS) ips))"
      by (simp add: push_allowed_exact(2))
    then show ?thesis by (metis empty_iff list.set(1))
  qed
  ultimately show ?thesis by (metis neq_Nil_conv)
qed

theorem wg_scan_endpoints_witness:
  "\<forall>T. \<exists>ep. hunt_wg_endpoints T (\<lambda>_. None) Thorough 1 WG_PORTS ScanV4 True {} sample_rng 0 one_probe = Some (Inr [ep])
     \<and> pr_port ep \<in> set WG_PORTS"
proof
  fix T
  obtain c cs where cs: "build_wg_candidates (\<lambda>_. None) (wg_mode_strategy Thorough) WG_PORTS ScanV4 {} sample_rng = Some (c # cs)"
    using sample_wg_candidates by blast
  have e: "effective_scan ScanV4 True = Some ScanV4" by (simp add: effective_scan_def)
  define ep where "ep = \<lparr>pr_ip = fst c, pr_port = snd c, pr_rtt = 20\<rparr>"
  have r: "hunt_wg_endpoints T (\<lambda>_. None) Thorough 1 WG_PORTS ScanV4 True {} sample_rng 0 one_probe = Some (Inr [ep])"
    using cs e by (simp add: hunt_wg_endpoints_def one_probe_def wg_scan_strategy_def item_served_def effective_deadline_def verify_one_def
        target_reached_def distinct_by_ip_def Let_def ep_def) (simp add: wg_mode_strategy_def)
  have "WG_PORTS \<noteq> []" by (simp add: WG_PORTS_def)
  with wg_scan_endpoints [OF e cs refl _ r] r
  show "\<exists>ep. hunt_wg_endpoints T (\<lambda>_. None) Thorough 1 WG_PORTS ScanV4 True {} sample_rng 0 one_probe = Some (Inr [ep])
     \<and> pr_port ep \<in> set WG_PORTS"
    by (auto simp: one_probe_def)
qed

end
