(* ===== verification/Apifront.thy ===== *)
theory Apifront
  imports Upstream Fragment Sniff
begin

text \<open>
  The camouflaged HTTP client for the account API (\<open>apifront.rs\<close>): random edge addresses, three TLS
  fingerprints, the HTTP/1.1 request and the reading of its answer. TCP, TLS and the resolver answer
  through parameters. The answer is arbitrary bytes; slices of the text are taken by byte offsets and
  may panic.
\<close>

definition EDGE_PREFIX :: bytes where "EDGE_PREFIX = [141, 101, 113]"
definition EDGE_SAMPLES :: nat where "EDGE_SAMPLES = 3"
definition RESOLVED_SAMPLES :: nat where "RESOLVED_SAMPLES = 2"
definition MAX_BODY :: nat where "MAX_BODY = 512 * 1024"

datatype fingerprint = SplitLegacy | Modern | ChromeLike

definition fingerprint_label :: "fingerprint \<Rightarrow> str" where
  "fingerprint_label f =
     (case f of SplitLegacy \<Rightarrow> lit ''split-tls12'' | Modern \<Rightarrow> lit ''plain-tls13'' | ChromeLike \<Rightarrow> lit ''chrome'')"

definition fingerprint_all :: "fingerprint list" where
  "fingerprint_all = [SplitLegacy, Modern, ChromeLike]"

definition fragments :: "fingerprint \<Rightarrow> fragment_config" where
  "fragments f =
     (case f of
        SplitLegacy \<Rightarrow> \<lparr>fg_enabled = True, fg_size_min = 24, fg_size_max = 48, fg_delay_min_ms = 2, fg_delay_max_ms = 8\<rparr>
      | _ \<Rightarrow> fragment_disabled)"

text \<open>
  The TLS set-up of a fingerprint: the calls made on the builder, in order. The TLS library may refuse
  any of them; the first refusal is the error.
\<close>

datatype tls_call =
    NewConnector
  | MinProto nat
  | MaxProto nat
  | Grease bool
  | PermuteExtensions bool
  | CipherList str
  | CurvesList str
  | AlpnProtos bytes
  | SignedCertTimestamps
  | OcspStapling
  | BuildConfigure

definition LEGACY_CIPHERS :: str where
  "LEGACY_CIPHERS = lit ''ECDHE-ECDSA-CHACHA20-POLY1305:ECDHE-ECDSA-AES128-GCM-SHA256:ECDHE-RSA-AES128-GCM-SHA256:ECDHE-ECDSA-AES256-SHA:ECDHE-RSA-AES128-SHA:AES256-SHA''"

definition LEGACY_GROUPS :: str where "LEGACY_GROUPS = lit ''X25519:P-256''"
definition MODERN_GROUPS :: str where "MODERN_GROUPS = lit ''X25519:P-256:P-384''"
definition CHROME_GROUPS :: str where "CHROME_GROUPS = lit ''P-256:X25519:P-384''"

definition ALPN_HTTP1 :: bytes where
  "ALPN_HTTP1 = 8 # map word_of_nat (lit ''http/1.1'')"

definition tls_calls :: "fingerprint \<Rightarrow> tls_call list" where
  "tls_calls f =
     [NewConnector] @
     (case f of
        SplitLegacy \<Rightarrow>
          [MinProto 0x303, MaxProto 0x303, Grease False, CipherList LEGACY_CIPHERS, CurvesList LEGACY_GROUPS, AlpnProtos ALPN_HTTP1]
      | Modern \<Rightarrow>
          [MinProto 0x303, MaxProto 0x304, Grease False, CurvesList MODERN_GROUPS, AlpnProtos ALPN_HTTP1]
      | ChromeLike \<Rightarrow>
          [MinProto 0x303, MaxProto 0x304, Grease True, PermuteExtensions True, CurvesList CHROME_GROUPS, AlpnProtos ALPN_HTTP1,
           SignedCertTimestamps, OcspStapling])
     @ [BuildConfigure]"

fun apply_tls_calls :: "(tls_call \<Rightarrow> str option) \<Rightarrow> tls_call list \<Rightarrow> tls_call list \<Rightarrow> tls_call list result" where
  "apply_tls_calls refuses made [] = Inr made"
| "apply_tls_calls refuses made (c # cs) =
     (case refuses c of Some e \<Rightarrow> Inl (Tls e) | None \<Rightarrow> apply_tls_calls refuses (made @ [c]) cs)"

definition configure :: "(tls_call \<Rightarrow> str option) \<Rightarrow> fingerprint \<Rightarrow> tls_call list result" where
  "configure refuses f = apply_tls_calls refuses [] (tls_calls f)"

record api_request =
  rq_method :: str
  rq_host :: str
  rq_path :: str
  rq_headers :: "(str \<times> str) list"
  rq_body :: "bytes option"

record api_response =
  rs_status :: nat
  rs_body :: str
  rs_route :: str

text \<open>The address for one random number; \<open>random_range\<close> gives a host number from 1 to 254.\<close>

definition random_edge_address :: "nat \<Rightarrow> sock_addr" where
  "random_edge_address r = sock_addr_new (V4 (ipv4_from (EDGE_PREFIX @ [word_of_nat (1 + r mod 254)]))) 443"

fun edge_addresses :: "sock_addr list \<Rightarrow> nat list \<Rightarrow> sock_addr list option" where
  "edge_addresses found draws =
     (if EDGE_SAMPLES \<le> length found then Some found
      else (case draws of
        [] \<Rightarrow> None
      | r # rs \<Rightarrow>
          let candidate = random_edge_address r in
          edge_addresses (if candidate \<in> set found then found else found @ [candidate]) rs))"

declare edge_addresses.simps [simp del]

definition add_absent :: "sock_addr list \<Rightarrow> sock_addr \<Rightarrow> sock_addr list" where
  "add_absent found a = (if a \<in> set found then found else found @ [a])"

definition candidates :: "(io_error + sock_addr list) \<Rightarrow> nat list \<Rightarrow> sock_addr list option" where
  "candidates resolved draws =
     map_option (\<lambda>found.
       case resolved of
         Inl _ \<Rightarrow> found
       | Inr addresses \<Rightarrow>
           foldl add_absent found
             (take RESOLVED_SAMPLES (filter (\<lambda>a. case sa_ip a of V4 _ \<Rightarrow> True | V6 _ \<Rightarrow> False) addresses)))
     (edge_addresses [] draws)"

abbreviation http_crlf :: str where
  "http_crlf \<equiv> [13, 10]"

definition render_request :: "api_request \<Rightarrow> bytes" where
  "render_request q =
     utf8_encode
       (rq_method q @ lit '' '' @ rq_path q @ lit '' HTTP/1.1'' @ http_crlf
        @ lit ''Host: '' @ rq_host q @ http_crlf
        @ concat (map (\<lambda>(name, v). name @ lit '': '' @ v @ http_crlf) (rq_headers q))
        @ lit ''Accept-Encoding: identity'' @ http_crlf
        @ lit ''Content-Length: '' @ show_nat (case rq_body q of None \<Rightarrow> 0 | Some b \<Rightarrow> length b) @ http_crlf
        @ lit ''Connection: close'' @ http_crlf @ http_crlf)
     @ (case rq_body q of None \<Rightarrow> [] | Some b \<Rightarrow> b)"

subsection \<open>Chunked bodies\<close>

text \<open>
  One chunk of a body at a byte offset: \<open>None\<close> when the loop ends, else the data and the offset of the
  next chunk. Sizes are 64-bit and the addition wraps around.
\<close>

definition chunk_token :: "bytes \<Rightarrow> str" where
  "chunk_token line = (let text = from_utf8_lossy line in
     trim (case split_on (\<lambda>c. c = 59) text of [] \<Rightarrow> [] | t # _ \<Rightarrow> t))"

definition dechunk_step :: "bytes \<Rightarrow> nat \<Rightarrow> (bytes \<times> nat) option outcome" where
  "dechunk_step body cursor =
     str_slice body cursor (length body) (\<lambda>rest.
     case find_sub [13, 10] rest of
       None \<Rightarrow> Ret None
     | Some offset \<Rightarrow>
         let line_end = cursor + offset in
         str_slice body cursor line_end (\<lambda>line.
         case parse_hex 64 (chunk_token line) of
           None \<Rightarrow> Ret None
         | Some n \<Rightarrow>
             if n = 0 then Ret None
             else
               let start = line_end + 2; end = (start + n) mod 2 ^ 64 in
               if length body < end then Ret None
               else str_slice body start end (\<lambda>data. Ret (Some (data, end + 2)))))"

lemma dechunk_step_progress: "dechunk_step body cursor = Ret (Some (data, after)) \<Longrightarrow> cursor < after \<and> after \<le> length body + 2"
  by (auto simp: dechunk_step_def str_slice_def char_boundary_def Let_def split: if_splits option.splits)

function dechunk_from :: "bytes \<Rightarrow> bytes \<Rightarrow> nat \<Rightarrow> bytes outcome" where
  "dechunk_from body out cursor =
     (if length body \<le> cursor then Ret out
      else out_bind (dechunk_step body cursor) (\<lambda>r.
        case r of None \<Rightarrow> Ret out | Some (data, after) \<Rightarrow> dechunk_from body (out @ data) after))"
  by pat_completeness auto
termination
  by (relation "measure (\<lambda>(body, _, cursor). length body + 2 - cursor)") (auto dest: dechunk_step_progress)

declare dechunk_from.simps [simp del]

definition dechunk :: "str \<Rightarrow> str outcome" where
  "dechunk body = out_bind (dechunk_from (utf8_encode body) [] 0) (\<lambda>out. Ret (from_utf8_lossy out))"

definition chunked_header :: "unicode \<Rightarrow> str \<Rightarrow> bool" where
  "chunked_header U line =
     (let lowered = to_lowercase U line in
      starts_with lowered (lit ''transfer-encoding:'') \<and> contains_str lowered (lit ''chunked''))"

definition parse_response :: "unicode \<Rightarrow> bytes \<Rightarrow> (nat \<times> str) result outcome" where
  "parse_response U raw =
     (let text = from_utf8_lossy raw in
      case find_sub [13, 10, 13, 10] text of
        None \<Rightarrow> Ret (Inl (Api (lit ''truncated response head'')))
      | Some split \<Rightarrow>
          let head = take split text; body = drop (split + 4) text in
          (case split_two 13 10 head of
             [] \<Rightarrow> Ret (Inl (Api (lit ''empty response'')))
           | status_line # ls \<Rightarrow>
               (case (case split_whitespace status_line of _ # token # _ \<Rightarrow> parse_uint 16 token | _ \<Rightarrow> None) of
                  None \<Rightarrow> Ret (Inl (Api (lit ''bad status line: '' @ status_line)))
                | Some status \<Rightarrow>
                    if list_ex (chunked_header U) ls
                    then out_bind (dechunk body) (\<lambda>body. Ret (Inr (status, body)))
                    else Ret (Inr (status, body)))))"

subsection \<open>One exchange\<close>

text \<open>
  What the network answers to one attempt, stage by stage; \<open>Answered\<close> lists what each read returns
  until the end of the stream.
\<close>

datatype tls_link =
    TlsTimesOut
  | TlsFails str
  | NegotiatedH2
  | ExchangeTimesOut
  | ExchangeFails str
  | Answered "bytes list"

datatype link =
    ConnectTimesOut
  | ConnectFails str
  | Connected "tls_call list \<Rightarrow> str \<Rightarrow> fragment_config \<Rightarrow> bytes \<Rightarrow> tls_link"

fun collect_reads :: "bytes \<Rightarrow> bytes list \<Rightarrow> bytes" where
  "collect_reads buffer [] = buffer"
| "collect_reads buffer (r # rs) =
     (if MAX_BODY < length (buffer @ r) then buffer @ r else collect_reads (buffer @ r) rs)"

text \<open>The tables of the platform, the TLS library, whether an upstream proxy is set, and the network.\<close>

record api_env =
  ae_unicode :: unicode
  ae_refuses :: "tls_call \<Rightarrow> str option"
  ae_proxied :: bool
  ae_network :: "bool \<Rightarrow> sock_addr \<Rightarrow> link"

definition exchange :: "api_env \<Rightarrow> api_request \<Rightarrow> sock_addr \<Rightarrow> fingerprint \<Rightarrow> api_response result outcome" where
  "exchange E q address fp =
     (let at = show_sock_addr address in
      case ae_network E (ae_proxied E) address of
        ConnectTimesOut \<Rightarrow> Ret (Inl (Api (lit ''connect to '' @ at @ lit '' timed out'')))
      | ConnectFails e \<Rightarrow>
          Ret (Inl (Api (lit ''connect to '' @ at @ (if ae_proxied E then lit '' through the proxy: '' else lit '': '') @ e)))
      | Connected tls \<Rightarrow>
          (case configure (ae_refuses E) fp of
             Inl e \<Rightarrow> Ret (Inl e)
           | Inr config \<Rightarrow>
               (case tls config (rq_host q) (fragments fp) (render_request q) of
                  TlsTimesOut \<Rightarrow> Ret (Inl (Api (lit ''tls handshake with '' @ at @ lit '' timed out'')))
                | TlsFails e \<Rightarrow> Ret (Inl (Api (lit ''tls handshake with '' @ at @ lit '': '' @ e)))
                | NegotiatedH2 \<Rightarrow> Ret (Inl (Api (at @ lit '' negotiated http/2 which this path does not speak'')))
                | ExchangeTimesOut \<Rightarrow> Ret (Inl (Api (lit ''exchange with '' @ at @ lit '' timed out'')))
                | ExchangeFails e \<Rightarrow> Ret (Inl (Api (lit ''exchange with '' @ at @ lit '': '' @ e)))
                | Answered reads \<Rightarrow>
                    res_bind (parse_response (ae_unicode E) (collect_reads [] reads)) (\<lambda>(status, body).
                    Ret (Inr \<lparr>rs_status = status, rs_body = body, rs_route = at @ lit '' / '' @ fingerprint_label fp\<rparr>)))))"

subsection \<open>All routes\<close>

definition success_status :: "nat \<Rightarrow> bool" where
  "success_status status \<longleftrightarrow> 200 \<le> status \<and> status < 300"

definition keep_rejection :: "api_response option \<Rightarrow> api_response \<Rightarrow> api_response option" where
  "keep_rejection rejection response =
     (if rejection = None \<or> rs_status response \<noteq> 403 then Some response else rejection)"

text \<open>The loop over the routes that are left, with the rejection and the failure kept so far.\<close>

fun try_routes ::
  "(sock_addr \<times> fingerprint \<Rightarrow> api_response result outcome) \<Rightarrow> api_response option \<Rightarrow> aether_error option
    \<Rightarrow> (sock_addr \<times> fingerprint) list \<Rightarrow> api_response result outcome" where
  "try_routes attempt rejection failure [] =
     Ret (case rejection of
            Some response \<Rightarrow> Inr response
          | None \<Rightarrow> Inl (case failure of Some e \<Rightarrow> e | None \<Rightarrow> Api (lit ''every camouflaged route failed'')))"
| "try_routes attempt rejection failure (r # rs) =
     out_bind (attempt r) (\<lambda>answer.
     case answer of
       Inr response \<Rightarrow>
         if success_status (rs_status response) then Ret (Inr response)
         else try_routes attempt (keep_rejection rejection response) failure rs
     | Inl e \<Rightarrow> try_routes attempt rejection (Some e) rs)"

definition api_fetch ::
  "api_env \<Rightarrow> (io_error + sock_addr list) \<Rightarrow> nat list \<Rightarrow> api_request \<Rightarrow> api_response result outcome option" where
  "api_fetch E resolved draws q =
     map_option (\<lambda>addresses.
       if addresses = [] then Ret (Inl (Api (lit ''no camouflaged route to the api was available'')))
       else try_routes (\<lambda>(address, fp). exchange E q address fp) None None
              (concat (map (\<lambda>fp. map (\<lambda>address. (address, fp)) addresses) fingerprint_all)))
     (candidates resolved draws)"

section \<open>Chunked bodies\<close>

lemma show_hex_ne [simp]: "show_hex n \<noteq> []"
  by (subst show_hex.simps) simp

lemma show_hex_digits:
  "list_all (\<lambda>c. digit_value 16 c \<noteq> None \<and> c < 128 \<and> 48 \<le> c \<and> c \<noteq> 59) (show_hex n)
   \<and> foldl (\<lambda>acc v. acc * 16 + the v) 0 (map (digit_value 16) (show_hex n)) = n"
proof (induction n rule: show_hex.induct)
  case (1 n)
  have digit: "digit_value 16 (hex_digit d) = Some d" "hex_digit d < 128" "48 \<le> hex_digit d" "hex_digit d \<noteq> 59" if "d < 16" for d
    using hex_digit_value [OF that] by (auto simp: chr_defs)
  show ?case
  proof (cases "n < 16")
    case True
    then show ?thesis by (simp add: show_hex.simps [of n] digit)
  next
    case False
    with "1.IH" [OF False] show ?thesis by (simp add: show_hex.simps [of n] digit)
  qed
qed

lemma parse_hex_show: "n < 2 ^ w \<Longrightarrow> parse_hex w (show_hex n) = Some n"
proof -
  assume n: "n < 2 ^ w"
  obtain c cs where s: "show_hex n = c # cs" by (cases "show_hex n") auto
  with show_hex_digits [of n] have "c \<noteq> 43" by simp
  moreover have "list_all (\<lambda>v. v \<noteq> None) (map (digit_value 16) (show_hex n))"
    using show_hex_digits [of n] by (simp add: list_all_length)
  ultimately show ?thesis using n s show_hex_digits [of n] by (simp add: parse_hex_def Let_def)
qed

lemma char_boundary_encoded:
  assumes "list_all scalar s"
  shows "char_boundary (pre @ utf8_encode s) (length pre)"
proof (cases s)
  case Nil
  then show ?thesis by (simp add: char_boundary_def)
next
  case (Cons c r)
  then have c: "c < 0x110000" using assms by (simp add: scalar_def)
  obtain b bs where e: "utf8_char c = b # bs" by (cases "utf8_char c") (auto simp: utf8_char_def split: if_splits)
  with unat_utf8_char [OF c] have "\<not> cont (unat b)"
    using c by (auto simp: cont_def split: if_splits)
  with Cons e show ?thesis by (simp add: char_boundary_def utf8_encode_def nth_append)
qed

lemma utf8_encode_crlf [simp]: "utf8_encode (13 # 10 # s) = 13 # 10 # utf8_encode s"
  by (simp add: utf8_encode_def utf8_char_def)

text \<open>How a server writes a body in chunks.\<close>

definition chunk_of :: "str \<Rightarrow> str" where
  "chunk_of d = show_hex (str_len d) @ http_crlf @ d @ http_crlf"

definition chunked_body :: "str list \<Rightarrow> str" where
  "chunked_body ds = concat (map chunk_of ds) @ lit ''0'' @ http_crlf @ http_crlf"

lemma show_hex_scalar: "list_all scalar (show_hex n)" "list_all (\<lambda>c. c < 128) (show_hex n)"
  using show_hex_digits [of n] by (auto simp: scalar_def list_all_length)

lemma chunk_token_hex: "chunk_token (utf8_encode (show_hex n)) = show_hex n"
proof -
  have "list_all (\<lambda>c. \<not> is_whitespace c) (show_hex n)" "list_all (\<lambda>c. \<not> c = 59) (show_hex n)"
    using show_hex_digits [of n] by (auto simp: is_whitespace_def list_all_length)
  then show ?thesis
    by (simp add: chunk_token_def from_utf8_lossy_encode_ascii show_hex_scalar split_on_none trim_none)
qed

lemma find_crlf_hex: "find_sub [13, 10] (utf8_encode (show_hex n) @ 13 # 10 # t) = Some (length (utf8_encode (show_hex n)))"
proof -
  have "13 \<notin> set (show_hex n)" using show_hex_digits [of n] by (auto simp: list_all_iff)
  have "(13 :: u8) \<noteq> word_of_nat c" if "c \<in> set (show_hex n)" for c
  proof -
    from that show_hex_digits [of n] have "c < 128" "48 \<le> c" by (auto simp: list_all_iff)
    then have "unat (word_of_nat c :: u8) = c" by (simp add: unat_small)
    with \<open>48 \<le> c\<close> show ?thesis by auto
  qed
  then have "(13 :: u8) \<notin> set (utf8_encode (show_hex n))"
    by (auto simp: utf8_encode_ascii show_hex_scalar)
  from find_sub_first [OF this, of "[10]" t] show ?thesis by simp
qed

lemma dechunk_step_chunk:
  assumes "list_all scalar d" "list_all scalar post" "d \<noteq> []"
    and "length (pre @ utf8_encode (chunk_of d @ post)) < 2 ^ 64"
  shows "dechunk_step (pre @ utf8_encode (chunk_of d @ post)) (length pre)
    = Ret (Some (utf8_encode d, length (pre @ utf8_encode (chunk_of d))))"
proof -
  let ?h = "utf8_encode (show_hex (str_len d))"
  let ?w = "pre @ utf8_encode (chunk_of d @ post)"
  have n: "str_len d < 2 ^ 64" "0 < str_len d"
    using assms by (auto simp: chunk_of_def str_len_def)
  have w: "?w = pre @ ?h @ 13 # 10 # utf8_encode d @ 13 # 10 # utf8_encode post" by (simp add: chunk_of_def)
  have bounds: "char_boundary ?w (length pre)" "char_boundary ?w (length pre + length ?h)"
    "char_boundary ?w (length pre + length ?h + 2)" "char_boundary ?w (length pre + length ?h + 2 + str_len d)"
    using char_boundary_encoded [of "show_hex (str_len d) @ 13 # 10 # d @ 13 # 10 # post" pre]
      char_boundary_encoded [of "13 # 10 # d @ 13 # 10 # post" "pre @ ?h"]
      char_boundary_encoded [of "d @ 13 # 10 # post" "pre @ ?h @ [13, 10]"]
      char_boundary_encoded [of "13 # 10 # post" "pre @ ?h @ [13, 10] @ utf8_encode d"]
      assms(1,2) show_hex_scalar(1)
    by (simp_all add: chunk_of_def str_len_def scalar_def add.assoc)
  have end_mod: "(length pre + length ?h + 2 + str_len d) mod 2 ^ 64 = length pre + length ?h + 2 + str_len d"
    using assms(4) by (simp add: chunk_of_def str_len_def)
  have len: "length ?w = length pre + length ?h + 4 + str_len d + length (utf8_encode post)"
    by (simp add: chunk_of_def str_len_def)
  have parts: "drop (length pre) ?w = ?h @ 13 # 10 # utf8_encode d @ 13 # 10 # utf8_encode post"
    "take (length ?h) (drop (length pre) ?w) = ?h"
    "take (str_len d) (drop (length pre + length ?h + 2) ?w) = utf8_encode d"
    unfolding w by (simp_all add: str_len_def)
  have "char_boundary ?w (length ?w)" "length pre \<le> length ?w"
    "take (length ?w - length pre) (drop (length pre) ?w) = drop (length pre) ?w"
    "length (pre @ utf8_encode (chunk_of d)) = length pre + length ?h + 2 + str_len d + 2"
    by (simp_all add: char_boundary_def chunk_of_def str_len_def)
  note facts = this parts n(2) end_mod bounds len
  have "dechunk_step x (length pre) = Ret (Some (utf8_encode d, length (pre @ utf8_encode (chunk_of d))))" if "x = ?w" for x
    using facts unfolding that [symmetric]
    by (simp add: dechunk_step_def str_slice_def find_crlf_hex chunk_token_hex parse_hex_show [OF n(1)] del: length_append)
  then show ?thesis by simp
qed

lemma dechunk_step_last:
  "dechunk_step (pre @ [48, 13, 10, 13, 10]) (length pre) = Ret None"
proof -
  have "parse_hex 64 (chunk_token [48]) = Some 0"
  proof -
    have "from_utf8_lossy [48] = [48]" by (simp add: from_utf8_lossy_def lossy_ascii)
    then show ?thesis by (simp add: chunk_token_def trim_none is_whitespace_def parse_hex_def digit_value_def is_digit_def)
  qed
  then show ?thesis
    by (simp add: dechunk_step_def str_slice_def char_boundary_def cont_def nth_append starts_with_def)
qed

lemma dechunk_from_chunks:
  assumes "list_all (list_all scalar) ds" "list_all (\<lambda>d. d \<noteq> []) ds" "length (pre @ utf8_encode (chunked_body ds)) < 2 ^ 64"
  shows "dechunk_from (pre @ utf8_encode (chunked_body ds)) out (length pre) = Ret (out @ utf8_encode (concat ds))"
  using assms
proof (induction ds arbitrary: pre out)
  case Nil
  have "utf8_encode (chunked_body []) = [48, 13, 10, 13, 10]" by (simp add: chunked_body_def utf8_encode_def utf8_char_def)
  then show ?case by (subst dechunk_from.simps) (simp add: dechunk_step_last)
next
  case (Cons d ds)
  have body: "chunked_body (d # ds) = chunk_of d @ chunked_body ds" by (simp add: chunked_body_def)
  have "list_all scalar (chunked_body ds)"
    using Cons.prems(1) show_hex_scalar(1)
    by (auto simp: chunked_body_def chunk_of_def scalar_def list_all_iff)
  with Cons.prems body dechunk_step_chunk [of d "chunked_body ds" pre]
  have step: "dechunk_step (pre @ utf8_encode (chunked_body (d # ds))) (length pre)
      = Ret (Some (utf8_encode d, length (pre @ utf8_encode (chunk_of d))))"
    by simp
  have "dechunk_from ((pre @ utf8_encode (chunk_of d)) @ utf8_encode (chunked_body ds)) (out @ utf8_encode d)
      (length (pre @ utf8_encode (chunk_of d))) = Ret ((out @ utf8_encode d) @ utf8_encode (concat ds))"
    using Cons.prems body by (intro Cons.IH) simp_all
  moreover have "\<not> length (pre @ utf8_encode (chunked_body (d # ds))) \<le> length pre"
    by (simp add: body chunk_of_def)
  ultimately show ?case
    by (subst dechunk_from.simps) (simp add: step, simp add: body)
qed

lemma dechunk_chunked:
  assumes "list_all (list_all scalar) ds" "list_all (\<lambda>d. d \<noteq> []) ds" "str_len (chunked_body ds) < 2 ^ 64"
  shows "dechunk (chunked_body ds) = Ret (concat ds)"
proof -
  have "list_all scalar (concat ds)" using assms(1) by (auto simp: list_all_iff)
  with assms dechunk_from_chunks [of ds "[]" "[]"] show ?thesis
    by (simp add: dechunk_def str_len_def utf8_roundtrip)
qed

section \<open>Responses\<close>

lemma find_end_skip:
  assumes "13 \<notin> set l" "rest \<noteq> []" "hd rest \<noteq> 13"
  shows "find_sub [13, 10, 13, 10] (l @ 13 # 10 # rest)
    = map_option (\<lambda>i. length l + 2 + i) (find_sub [13, 10, 13, 10 :: nat] rest)"
  using assms by (induction l) (auto simp: starts_with_def option.map_comp comp_def neq_Nil_conv take_Cons')

text \<open>The text of a head: its lines, each with its line end, and an empty line.\<close>

definition line_of :: "str \<Rightarrow> str" where
  "line_of l = l @ http_crlf"

definition response_text :: "str list \<Rightarrow> str \<Rightarrow> str" where
  "response_text ls body = concat (map line_of ls) @ http_crlf @ body"

definition head_lines :: "str list \<Rightarrow> bool" where
  "head_lines ls \<longleftrightarrow> list_all (\<lambda>l. l \<noteq> [] \<and> 13 \<notin> set l \<and> list_all scalar l) ls"

fun joined_lines :: "str list \<Rightarrow> str" where
  "joined_lines [] = []"
| "joined_lines [l] = l"
| "joined_lines (l # ls) = l @ http_crlf @ joined_lines ls"

lemma response_text_joined: "ls \<noteq> [] \<Longrightarrow> response_text ls body = joined_lines ls @ http_crlf @ http_crlf @ body"
  by (induction ls rule: joined_lines.induct) (simp_all add: response_text_def line_of_def)

lemma head_found:
  assumes "head_lines ls" "ls \<noteq> []"
  shows "find_sub [13, 10, 13, 10] (response_text ls body) = Some (length (joined_lines ls))"
  using assms
proof (induction ls rule: joined_lines.induct)
  case (2 l)
  then show ?case
    using find_sub_first [of 13 l "[10, 13, 10]" body] by (simp add: response_text_def line_of_def head_lines_def)
next
  case (3 l m ls)
  have wire: "response_text (l # m # ls) body = l @ 13 # 10 # response_text (m # ls) body"
    by (simp add: response_text_def line_of_def)
  have "response_text (m # ls) body \<noteq> []" "hd (response_text (m # ls) body) \<noteq> 13"
    using "3.prems" by (auto simp: response_text_def line_of_def head_lines_def hd_append neq_Nil_conv)
  with 3 find_end_skip [of l "response_text (m # ls) body"] show ?case by (simp add: wire head_lines_def)
qed simp

lemma split_joined:
  assumes "head_lines ls" "ls \<noteq> []"
  shows "split_two 13 10 (joined_lines ls) = ls"
  using assms
proof (induction ls rule: joined_lines.induct)
  case (2 l)
  then have "13 \<notin> set l" by (simp add: head_lines_def)
  then have "split_two 13 10 l = [l]"
    by (induction "13 :: nat" "10 :: nat" l rule: split_two.induct) auto
  then show ?case by simp
next
  case (3 l m ls)
  then show ?case by (simp add: head_lines_def split_two_line)
qed simp

lemma split_on_word: "split_whitespace (w @ c # s) = w # split_whitespace s"
  if "list_all (\<lambda>x. \<not> is_whitespace x) w" "w \<noteq> []" "is_whitespace c" for w s
  using that split_on_append [of is_whitespace w c s] by (simp add: split_whitespace_def)

definition status_line :: "nat \<Rightarrow> str \<Rightarrow> str" where
  "status_line status reason = lit ''HTTP/1.1 '' @ show_nat status @ lit '' '' @ reason"

lemma status_line_words: "\<exists>ws. split_whitespace (status_line status reason) = lit ''HTTP/1.1'' # show_nat status # ws"
proof -
  have "list_all (\<lambda>x. \<not> is_whitespace x) (show_nat status)"
    using show_nat_digits [of status] by (auto simp: list_all_iff chr_defs)
  moreover have "list_all (\<lambda>x. \<not> is_whitespace x) (lit ''HTTP/1.1'')" by (simp add: is_whitespace_def)
  moreover have "status_line status reason = lit ''HTTP/1.1'' @ 32 # show_nat status @ 32 # reason"
    by (simp add: status_line_def)
  moreover have "is_whitespace 32" by (simp add: is_whitespace_def)
  moreover have "lit ''HTTP/1.1'' \<noteq> []" by simp
  ultimately have "split_whitespace (status_line status reason) = lit ''HTTP/1.1'' # show_nat status # split_whitespace reason"
    by (simp only: split_on_word show_nat_ne not_False_eq_True)
  then show ?thesis by blast
qed

lemma parse_response_text:
  assumes "head_lines (status_line status reason # hs)" "status < 2 ^ 16"
    and "from_utf8_lossy raw = response_text (status_line status reason # hs) body"
  shows "parse_response U raw =
    (if list_ex (chunked_header U) hs then out_bind (dechunk body) (\<lambda>b. Ret (Inr (status, b))) else Ret (Inr (status, body)))"
proof -
  let ?ls = "status_line status reason # hs"
  have parts: "take (length (joined_lines ?ls)) (response_text ?ls body) = joined_lines ?ls"
    "drop (length (joined_lines ?ls) + 4) (response_text ?ls body) = body"
    by (simp_all add: response_text_joined)
  obtain ws where "split_whitespace (status_line status reason) = lit ''HTTP/1.1'' # show_nat status # ws"
    using status_line_words by blast
  then show ?thesis
    unfolding parse_response_def Let_def assms(3) head_found [OF assms(1) list.distinct(2)] option.case parts
      split_joined [OF assms(1) list.distinct(2)] list.case
    using parse_uint_show [OF assms(2)] by simp
qed

lemma response_text_scalar: "head_lines ls \<Longrightarrow> list_all scalar body \<Longrightarrow> list_all scalar (response_text ls body)"
  by (auto simp: response_text_def line_of_def head_lines_def list_all_iff scalar_def)

lemma lossy_encoded_append: "list_all scalar s \<Longrightarrow> lossy (map unat (utf8_encode s) @ bs) = s @ lossy bs"
  by (induction s) (simp_all add: utf8_encode_def utf8_scalar_Cons)

text \<open>
  A response whose head has a status line and header lines, and whose body is sent in one piece or
  (when a header says so) in non-empty chunks of UTF-8 text, is read back as its status and the
  concatenated text.
\<close>

lemma api_response_roundtrip:
  assumes "head_lines (status_line status reason # hs)" "status < 2 ^ 16"
    and "list_all (list_all scalar) ds" "list_all (\<lambda>d. d \<noteq> []) ds" "str_len (chunked_body ds) < 2 ^ 64"
  shows "parse_response U (utf8_encode (response_text (status_line status reason # hs)
      (if list_ex (chunked_header U) hs then chunked_body ds else concat ds))) = Ret (Inr (status, concat ds))"
proof -
  have "list_all scalar (concat ds)" using assms(3) by (auto simp: list_all_iff)
  moreover have "list_all scalar (chunked_body ds)"
    using assms(3) show_hex_scalar(1) by (auto simp: chunked_body_def chunk_of_def scalar_def list_all_iff)
  ultimately show ?thesis
    using dechunk_chunked [OF assms(3-5)] response_text_scalar [OF assms(1)]
    by (subst parse_response_text [OF assms(1,2) utf8_roundtrip(2)]) simp_all
qed

lemma api_response_roundtrip_witness:
  "parse_response tiny_unicode (utf8_encode (response_text [status_line 200 (lit ''OK''), lit ''Transfer-Encoding: chunked'']
     (chunked_body [lit ''ab'', [0x20AC]]))) = Ret (Inr (200, lit ''ab'' @ [0x20AC]))"
proof -
  have digits: "show_nat 200 = lit ''200''" by (simp add: show_nat.simps)
  have lines: "head_lines [status_line 200 (lit ''OK''), lit ''Transfer-Encoding: chunked'']"
    by (simp add: head_lines_def status_line_def digits scalar_def)
  have chunked: "chunked_header tiny_unicode (lit ''Transfer-Encoding: chunked'')"
    by (simp add: chunked_header_def to_lowercase_ascii chr_defs starts_with_def contains_str_def)
  have len: "str_len (chunked_body [lit ''ab'', [0x20AC]]) < 2 ^ 64"
    by (simp add: chunked_body_def chunk_of_def str_len_def utf8_encode_def utf8_char_def show_hex.simps hex_digit_def)
  have "list_all (list_all scalar) [lit ''ab'', [0x20AC]]" by (simp add: scalar_def)
  from api_response_roundtrip [OF lines _ this _ len, of tiny_unicode] chunked show ?thesis by simp
qed

text \<open>A size so large that the end of the chunk wraps around to before its start, and a chunk that ends inside a character.\<close>

lemma dechunk_huge:
  assumes "list_all scalar rest" "str_len rest < 2 ^ 63"
  shows "dechunk (lit ''ffffffffffffffff'' @ http_crlf @ rest) = Panic"
proof -
  let ?h = "lit ''ffffffffffffffff''"
  have hex: "parse_hex 64 (chunk_token (map word_of_nat ?h)) = Some (2 ^ 64 - 1)"
  proof -
    have "from_utf8_lossy (map word_of_nat ?h) = ?h"
      using from_utf8_lossy_encode_ascii [of ?h] by (simp add: utf8_encode_ascii)
    then have "chunk_token (map word_of_nat ?h) = ?h"
      by (simp add: chunk_token_def split_on_none trim_none is_whitespace_def)
    then show ?thesis by (simp add: parse_hex_def digit_value_def chr_defs)
  qed
  have enc: "utf8_encode (?h @ http_crlf @ rest) = map word_of_nat ?h @ 13 # 10 # utf8_encode rest"
    by (simp add: utf8_encode_def utf8_char_def)
  have found: "find_sub [13, 10] (map word_of_nat ?h @ 13 # 10 # utf8_encode rest) = Some (16 :: nat)"
    by (simp add: starts_with_def)
  have bounds: "char_boundary (map word_of_nat ?h @ 13 # 10 # utf8_encode rest) 0"
    "char_boundary (map word_of_nat ?h @ 13 # 10 # utf8_encode rest) 16"
    by (simp_all add: char_boundary_def cont_def)
  have len: "length (map word_of_nat ?h @ 13 # 10 # utf8_encode rest) = 18 + str_len rest"
    by (simp add: str_len_def)
  have "dechunk_step x 0 = Panic" if x: "x = map word_of_nat ?h @ 13 # 10 # utf8_encode rest" for x
  proof -
    have "take 16 x = map word_of_nat ?h" by (simp add: x)
    then show ?thesis
      using found [folded x] bounds [folded x] len [folded x] hex
      by (simp add: dechunk_step_def str_slice_def char_boundary_def del: lit_simps)
  qed
  from this [OF enc] show ?thesis by (simp add: dechunk_def dechunk_from.simps)
qed

lemma dechunk_cut_character: "dechunk (49 # 13 # 10 # replacement # rest) = Panic"
proof -
  have enc: "utf8_encode (49 # 13 # 10 # replacement # rest) = 49 # 13 # 10 # 0xEF # 0xBF # 0xBD # utf8_encode rest"
    by (simp add: utf8_encode_def utf8_char_def replacement_def)
  have "chunk_token [49] = [49]"
    by (simp add: chunk_token_def from_utf8_lossy_def lossy_ascii trim_none is_whitespace_def)
  then have "parse_hex 64 (chunk_token [49]) = Some 1" by (simp add: parse_hex_def digit_value_def chr_defs)
  then have "dechunk_step (49 # 13 # 10 # 0xEF # 0xBF # 0xBD # utf8_encode rest) 0 = Panic"
    by (simp add: dechunk_step_def str_slice_def char_boundary_def cont_def starts_with_def)
  then show ?thesis by (simp add: dechunk_def dechunk_from.simps enc)
qed

text \<open>
  A server can make the client panic with an answer whose head announces chunks: by the chunk size
  \<open>ffffffffffffffff\<close>, and by a legal body whose chunk boundary falls inside a character, since the
  bytes are decoded before the chunks are joined.
\<close>

lemma chunked_answer_panics:
  assumes "head_lines (status_line status reason # hs)" "status < 2 ^ 16" "list_ex (chunked_header U) hs"
  shows "parse_response U (utf8_encode (response_text (status_line status reason # hs) (lit ''ffffffffffffffff'' @ http_crlf))) = Panic"
    and "parse_response U
      (utf8_encode (response_text (status_line status reason # hs) [])
       @ utf8_encode (lit ''1'' @ http_crlf) @ [0xC3] @ utf8_encode (http_crlf @ lit ''1'' @ http_crlf) @ [0xA9]
       @ utf8_encode (http_crlf @ lit ''0'' @ http_crlf @ http_crlf)) = Panic"
proof -
  let ?ls = "status_line status reason # hs"
  show "parse_response U (utf8_encode (response_text ?ls (lit ''ffffffffffffffff'' @ http_crlf))) = Panic"
    using assms dechunk_huge [of "[]"] response_text_scalar [OF assms(1), of "lit ''ffffffffffffffff'' @ http_crlf"]
    by (subst parse_response_text [OF assms(1,2) utf8_roundtrip(2)]) (simp_all add: str_len_def scalar_def)
  let ?s = "response_text ?ls [] @ lit ''1'' @ http_crlf"
  let ?t = "http_crlf @ lit ''1'' @ http_crlf"
  let ?u = "http_crlf @ lit ''0'' @ http_crlf @ http_crlf"
  let ?raw = "utf8_encode (response_text ?ls []) @ utf8_encode (lit ''1'' @ http_crlf) @ [0xC3] @ utf8_encode ?t @ [0xA9] @ utf8_encode ?u"
  have s: "list_all scalar ?s" "list_all scalar ?t" "list_all scalar ?u"
    using response_text_scalar [OF assms(1), of "[]"] by (simp_all add: scalar_def)
  have bad: "lossy (0xC3 # 13 # bs) = replacement # lossy (13 # bs)" "lossy (0xA9 # bs) = replacement # lossy bs" for bs
    by (simp_all add: lossy.simps [of "0xC3 # 13 # bs"] lossy.simps [of "0xA9 # bs"] decode_step_def byte_or_0_def cont_def)
  have "from_utf8_lossy ?raw = ?s @ replacement # ?t @ replacement # ?u"
  proof -
    have "map unat ?raw = map unat (utf8_encode ?s) @ 0xC3 # map unat (utf8_encode ?t) @ 0xA9 # map unat (utf8_encode ?u)"
      by simp
    moreover have "lossy (map unat (utf8_encode ?u)) = ?u"
      using utf8_roundtrip(2) [OF s(3)] by (simp only: from_utf8_lossy_def)
    moreover have "lossy (0xC3 # map unat (utf8_encode ?t) @ bs) = replacement # ?t @ lossy bs" for bs
      using bad(1) lossy_encoded_append [OF s(2), of bs] by (simp add: utf8_encode_def utf8_char_def)
    ultimately show ?thesis by (simp only: from_utf8_lossy_def lossy_encoded_append [OF s(1)] bad(2) append_assoc)
  qed
  then have "from_utf8_lossy ?raw = response_text ?ls (49 # 13 # 10 # replacement # ?t @ replacement # ?u)"
    by (simp add: response_text_def)
  then show "parse_response U ?raw = Panic"
    using parse_response_text [OF assms(1,2)] assms(3) dechunk_cut_character by simp
qed

lemma chunked_answer_panics_witness:
  "parse_response tiny_unicode (utf8_encode (response_text [status_line 200 (lit ''OK''), lit ''Transfer-Encoding: chunked'']
     (lit ''ffffffffffffffff'' @ http_crlf))) = Panic"
proof -
  have digits: "show_nat 200 = lit ''200''" by (simp add: show_nat.simps)
  have lines: "head_lines [status_line 200 (lit ''OK''), lit ''Transfer-Encoding: chunked'']"
    by (simp add: head_lines_def status_line_def digits scalar_def)
  have chunked: "chunked_header tiny_unicode (lit ''Transfer-Encoding: chunked'')"
    by (simp add: chunked_header_def to_lowercase_ascii chr_defs starts_with_def contains_str_def)
  from chunked_answer_panics(1) [OF lines, of tiny_unicode] chunked show ?thesis by simp
qed

section \<open>Routes\<close>

text \<open>What a finished attempt counts as.\<close>

definition succeeded :: "api_response result \<Rightarrow> bool" where
  "succeeded a = (case a of Inr r \<Rightarrow> success_status (rs_status r) | Inl _ \<Rightarrow> False)"

definition rejections :: "api_response result list \<Rightarrow> api_response list" where
  "rejections as = concat (map (\<lambda>a. case a of Inr r \<Rightarrow> [r] | Inl _ \<Rightarrow> []) as)"

definition failures :: "api_response result list \<Rightarrow> aether_error list" where
  "failures as = concat (map (\<lambda>a. case a of Inr _ \<Rightarrow> [] | Inl e \<Rightarrow> [e]) as)"

lemma answer_simps [simp]:
  "rejections [] = []" "rejections (Inr r # as) = r # rejections as" "rejections (Inl e # as) = rejections as"
  "failures [] = []" "failures (Inr r # as) = failures as" "failures (Inl e # as) = e # failures as"
  by (simp_all add: rejections_def failures_def)

text \<open>The last answer that is not a 403, else the first 403.\<close>

definition preferred_rejection :: "api_response list \<Rightarrow> api_response option" where
  "preferred_rejection rs =
     (case rev (filter (\<lambda>r. rs_status r \<noteq> 403) rs) of
        r # _ \<Rightarrow> Some r
      | [] \<Rightarrow> (case rs of r # _ \<Rightarrow> Some r | [] \<Rightarrow> None))"

definition fetch_result :: "api_response result list \<Rightarrow> api_response result" where
  "fetch_result as =
     (case find succeeded as of
        Some a \<Rightarrow> a
      | None \<Rightarrow>
          (case preferred_rejection (rejections as) of
             Some r \<Rightarrow> Inr r
           | None \<Rightarrow> Inl (last (Api (lit ''every camouflaged route failed'') # failures as))))"

lemma keep_rejection_fold: "foldl keep_rejection None rs = preferred_rejection rs"
proof (induction rs rule: rev_induct)
  case (snoc r rs)
  have "preferred_rejection rs = None \<longleftrightarrow> rs = []"
    by (auto simp: preferred_rejection_def split: list.splits)
  with snoc show ?case
    by (cases rs) (auto simp: keep_rejection_def preferred_rejection_def split: list.splits)
qed (simp add: preferred_rejection_def)

lemma try_routes_exact:
  assumes "\<And>r. r \<in> set routes \<Longrightarrow> attempt r = Ret (g r)"
  shows "try_routes attempt rejection failure routes = Ret
    (case find succeeded (map g routes) of
       Some a \<Rightarrow> a
     | None \<Rightarrow>
         (case foldl keep_rejection rejection (rejections (map g routes)) of
            Some r \<Rightarrow> Inr r
          | None \<Rightarrow> Inl (last ((case failure of Some e \<Rightarrow> e | None \<Rightarrow> Api (lit ''every camouflaged route failed'')) # failures (map g routes)))))"
  using assms
proof (induction routes arbitrary: rejection failure)
  case Nil
  then show ?case by (simp split: option.splits)
next
  case (Cons r routes)
  then show ?case
    by (cases "g r") (simp_all add: succeeded_def cong: option.case_cong)
qed

lemma edge_addresses_sound:
  assumes "edge_addresses found draws = Some as" "distinct found" "length found \<le> 3" "set found \<subseteq> range random_edge_address"
  shows "distinct as \<and> length as = 3 \<and> set as \<subseteq> range random_edge_address"
  using assms
proof (induction draws arbitrary: found)
  case Nil
  then show ?case by (auto simp: EDGE_SAMPLES_def edge_addresses.simps split: if_splits)
next
  case (Cons r rs)
  have step: "edge_addresses found (r # rs) =
      (if 3 \<le> length found then Some found
       else edge_addresses (if random_edge_address r \<in> set found then found else found @ [random_edge_address r]) rs)"
    by (simp add: EDGE_SAMPLES_def edge_addresses.simps [of found "r # rs"] Let_def)
  show ?case
  proof (cases "3 \<le> length found")
    case True
    with Cons.prems step show ?thesis by simp
  next
    case False
    show ?thesis
      by (rule Cons.IH [of "if random_edge_address r \<in> set found then found else found @ [random_edge_address r]"])
        (use Cons.prems step False in auto)
  qed
qed

lemma edge_addresses_ends:
  "3 \<le> card (set found \<union> random_edge_address ` set draws) \<Longrightarrow> \<exists>as. edge_addresses found draws = Some as"
proof (induction draws arbitrary: found)
  case Nil
  then have "3 \<le> length found" using card_length [of found] by simp
  then show ?case by (simp add: EDGE_SAMPLES_def edge_addresses.simps)
next
  case (Cons r rs)
  let ?f = "if random_edge_address r \<in> set found then found else found @ [random_edge_address r]"
  have "set ?f \<union> random_edge_address ` set rs = set found \<union> random_edge_address ` set (r # rs)" by auto
  with Cons.IH [of ?f] Cons.prems show ?case
    by (simp add: edge_addresses.simps [of found "r # rs"] Let_def)
qed

lemma add_absent_foldl:
  assumes "distinct found"
  shows "distinct (foldl add_absent found as) \<and> set (foldl add_absent found as) = set found \<union> set as
    \<and> length (foldl add_absent found as) \<le> length found + length as \<and> (\<exists>t. foldl add_absent found as = found @ t)"
  using assms
proof (induction as arbitrary: found)
  case (Cons a as)
  from Cons.IH [of "add_absent found a"] Cons.prems show ?case
    by (auto simp: add_absent_def split: if_splits)
qed simp

definition in_edge_range :: "sock_addr \<Rightarrow> bool" where
  "in_edge_range a \<longleftrightarrow>
     sa_port a = 443 \<and> (\<exists>h. 1 \<le> h \<and> h \<le> 254 \<and> sa_ip a = V4 (ipv4_from [141, 101, 113, word_of_nat h]))"

lemma random_edge_in_range: "in_edge_range (random_edge_address r)"
  unfolding in_edge_range_def
  by (auto simp: random_edge_address_def sock_addr_new_def EDGE_PREFIX_def intro!: exI [of _ "Suc (r mod 254)"])



lemma candidates_sound:
  assumes "candidates resolved draws = Some as"
  shows "distinct as \<and> 3 \<le> length as \<and> length as \<le> 5 \<and> list_all in_edge_range (take 3 as)"
proof -
  let ?v4 = "\<lambda>addresses. take RESOLVED_SAMPLES (filter (\<lambda>a. case sa_ip a of V4 _ \<Rightarrow> True | V6 _ \<Rightarrow> False) addresses)"
  obtain found where found: "edge_addresses [] draws = Some found"
    "as = (case resolved of Inl _ \<Rightarrow> found | Inr addresses \<Rightarrow> foldl add_absent found (?v4 addresses))"
    using assms by (auto simp: candidates_def)
  from edge_addresses_sound [OF found(1)] have f: "distinct found" "length found = 3" "list_all in_edge_range found"
    by (auto simp: list_all_iff intro: random_edge_in_range)
  show ?thesis
  proof (cases resolved)
    case (Inl e)
    with f found show ?thesis by simp
  next
    case (Inr addresses)
    have "length (?v4 addresses) \<le> 2" by (simp add: RESOLVED_SAMPLES_def)
    with Inr f found add_absent_foldl [OF f(1), of "?v4 addresses"] show ?thesis by auto
  qed
qed

text \<open>
  C33: The camouflaged client tries three different random edge addresses (141.101.113.1 to .254, port 443)
  and at most two resolved ones, every address with one fingerprint before the next fingerprint. It
  returns the first successful answer; else the last answer that is not a 403, or the first 403; else the
  last failure. The drawing of addresses ends as soon as three different ones were drawn.
\<close>

theorem camouflaged_fetch_exact:
  assumes "3 \<le> card (random_edge_address ` set draws)"
    and "\<And>address fp. exchange E q address fp = Ret (g address fp)"
  shows "\<exists>addresses. candidates resolved draws = Some addresses \<and> distinct addresses \<and> 3 \<le> length addresses
      \<and> length addresses \<le> 5 \<and> list_all in_edge_range (take 3 addresses)
      \<and> api_fetch E resolved draws q
        = Some (Ret (fetch_result (concat (map (\<lambda>fp. map (\<lambda>address. g address fp) addresses) [SplitLegacy, Modern, ChromeLike]))))"
proof -
  obtain found where "edge_addresses [] draws = Some found"
    using edge_addresses_ends [of "[]" draws] assms(1) by auto
  then obtain as where as: "candidates resolved draws = Some as"
    by (simp add: candidates_def)
  from candidates_sound [OF this] have sound: "distinct as" "3 \<le> length as" "length as \<le> 5" "list_all in_edge_range (take 3 as)" by auto
  let ?routes = "concat (map (\<lambda>fp. map (\<lambda>address. (address, fp)) as) fingerprint_all)"
  have "try_routes (\<lambda>(address, fp). exchange E q address fp) None None ?routes
      = Ret (fetch_result (map (\<lambda>(address, fp). g address fp) ?routes))"
    by (subst try_routes_exact [of _ _ "\<lambda>(address, fp). g address fp"])
      (auto simp: assms(2) fetch_result_def keep_rejection_fold cong: option.case_cong)
  moreover have "map (\<lambda>(address, fp). g address fp) ?routes
      = concat (map (\<lambda>fp. map (\<lambda>address. g address fp) as) [SplitLegacy, Modern, ChromeLike])"
    by (simp add: fingerprint_all_def comp_def)
  ultimately have "api_fetch E resolved draws q
      = Some (Ret (fetch_result (concat (map (\<lambda>fp. map (\<lambda>address. g address fp) as) [SplitLegacy, Modern, ChromeLike]))))"
    using as sound(2) by (auto simp: api_fetch_def)
  with as sound show ?thesis by blast
qed

text \<open>A network that times out on every route.\<close>

definition silent_env :: api_env where
  "silent_env = \<lparr>ae_unicode = tiny_unicode, ae_refuses = (\<lambda>_. None), ae_proxied = False, ae_network = (\<lambda>_ _. ConnectTimesOut)\<rparr>"

lemma three_addresses:
  "random_edge_address 0 \<noteq> random_edge_address 1" "random_edge_address 0 \<noteq> random_edge_address 2" "random_edge_address 1 \<noteq> random_edge_address 2"
proof -
  have oct: "octets4 (ipv4_from [141, 101, 113, b]) = [141, 101, 113, b]" for b by (rule octets4_from) simp
  have differ: "random_edge_address r \<noteq> random_edge_address s" if "(word_of_nat (1 + r mod 254) :: u8) \<noteq> word_of_nat (1 + s mod 254)" for r s
  proof
    assume "random_edge_address r = random_edge_address s"
    then have "ipv4_from [141, 101, 113, word_of_nat (1 + r mod 254)] = ipv4_from [141, 101, 113, word_of_nat (1 + s mod 254)]"
      by (simp add: random_edge_address_def sock_addr_new_def EDGE_PREFIX_def)
    with oct [of "word_of_nat (1 + r mod 254)"] oct [of "word_of_nat (1 + s mod 254)"] that show False by simp
  qed
  show "random_edge_address 0 \<noteq> random_edge_address 1" "random_edge_address 0 \<noteq> random_edge_address 2" "random_edge_address 1 \<noteq> random_edge_address 2"
    by (rule differ, simp)+
qed

lemma silent_addresses: "\<exists>as. edge_addresses [] [0, 1, 2] = Some as \<and> as \<noteq> []"
  using three_addresses by (auto simp: edge_addresses.simps EDGE_SAMPLES_def Let_def)

theorem camouflaged_fetch_exact_witness:
  "\<exists>addresses. candidates (Inr []) [0, 1, 2] = Some addresses \<and> length addresses = 3
      \<and> api_fetch silent_env (Inr []) [0, 1, 2] \<lparr>rq_method = [], rq_host = [], rq_path = [], rq_headers = [], rq_body = None\<rparr>
        = Some (Ret (Inl (Api (lit ''connect to '' @ show_sock_addr (last addresses) @ lit '' timed out''))))"
proof -
  let ?q = "\<lparr>rq_method = [], rq_host = [], rq_path = [], rq_headers = [], rq_body = None\<rparr>"
  let ?g = "\<lambda>address (fp :: fingerprint). Inl (Api (lit ''connect to '' @ show_sock_addr address @ lit '' timed out''))"
  note ne = three_addresses
  then have three: "3 \<le> card (random_edge_address ` set [0, 1, 2])" by simp
  have exch: "exchange silent_env ?q address fp = Ret (?g address fp)" for address fp
    by (simp add: exchange_def silent_env_def)
  from camouflaged_fetch_exact [where resolved = "Inr []", OF three exch]
  obtain as where as: "candidates (Inr []) [0, 1, 2] = Some as"
    "api_fetch silent_env (Inr []) [0, 1, 2] ?q
      = Some (Ret (fetch_result (concat (map (\<lambda>fp. map (\<lambda>address. ?g address fp) as) [SplitLegacy, Modern, ChromeLike]))))"
    by blast
  have "as = [random_edge_address 0, random_edge_address 1, random_edge_address 2]"
    using as(1) ne by (simp add: candidates_def edge_addresses.simps EDGE_SAMPLES_def Let_def)
  with as show ?thesis
    by (simp add: fetch_result_def succeeded_def rejections_def failures_def preferred_rejection_def)
qed

end
