(* ===== verification/Account.thy ===== *)
theory Account
  imports Apifront
begin

text \<open>
  Registration, enrolment and refresh of a device (\<open>account.rs\<close>): the direct API calls with their retries,
  the camouflaged fallback, the identity made from an answer and the life of its MASQUE certificate.
  JSON, base64, the cryptographic library, the random numbers, the clock and the two transports are
  parameters (\<open>account_env\<close>). A call has the outcome \<open>None\<close> only while the random edge addresses of the
  camouflaged client are still being drawn.
\<close>

section \<open>The model\<close>

subsection \<open>Data\<close>

record peer_endpoint =
  pe_v4 :: str
  pe_v6 :: str
  pe_host :: str

record api_peer =
  ap_public_key :: str
  ap_endpoint :: peer_endpoint

record account_data =
  ad_id :: str
  ad_token :: str
  ad_address_v4 :: str
  ad_address_v6 :: str
  ad_peers :: "api_peer list"
  ad_client_id :: str
  ad_http_proxy :: str
  ad_account_id :: str
  ad_account_type :: str
  ad_organization :: str

record identity =
  id_device :: str
  id_token :: str
  id_cert_pem :: bytes
  id_key_pem :: bytes
  id_cert_issued_at :: u64
  id_ipv4 :: str
  id_ipv6 :: str
  id_wg_private_key :: bytes
  id_wg_peer_public_key :: bytes
  id_client_id :: bytes
  id_organization :: str
  id_gateway_proxy :: str
  id_assigned_endpoint :: str
  id_refused :: bool

record masque_key_pair =
  mk_key_pem :: bytes
  mk_cert_pem :: bytes
  mk_spki_der :: bytes

record masque_enrollment =
  me_cert_pem :: bytes
  me_key_pem :: bytes
  me_issued_at :: u64
  me_renewed :: bool

text \<open>JSON values; a number carries its value when it is an integer.\<close>

datatype json =
    JNull
  | JBool bool
  | JNumber "int option"
  | JString str
  | JArray "json list"
  | JObject "(str \<times> json) list"

definition json_get :: "str \<Rightarrow> json \<Rightarrow> json option" where
  "json_get key v = (case v of JObject members \<Rightarrow> map_of members key | _ \<Rightarrow> None)"

definition as_array :: "json \<Rightarrow> json list option" where
  "as_array v = (case v of JArray vs \<Rightarrow> Some vs | _ \<Rightarrow> None)"

definition as_str :: "json \<Rightarrow> str option" where
  "as_str v = (case v of JString s \<Rightarrow> Some s | _ \<Rightarrow> None)"

definition as_i64 :: "json \<Rightarrow> int option" where
  "as_i64 v = (case v of JNumber (Some i) \<Rightarrow> if - (2 ^ 63) \<le> i \<and> i < 2 ^ 63 then Some i else None | _ \<Rightarrow> None)"

definition as_u64 :: "json \<Rightarrow> u64 option" where
  "as_u64 v = (case v of JNumber (Some i) \<Rightarrow> if 0 \<le> i \<and> i < 2 ^ 64 then Some (word_of_int i) else None | _ \<Rightarrow> None)"

text \<open>A request over the direct route, and what comes back for one attempt.\<close>

record direct_request =
  dr_method :: str
  dr_url :: str
  dr_bearer :: "str option"
  dr_jwt :: "str option"
  dr_fields :: "(str \<times> str) list"

datatype direct_answer =
    BuildFails aether_error
  | SendFails str
  | BodyFails nat str
  | DirectAnswer nat "bytes option" str

record account_env =
  ac_show_io :: "io_error \<Rightarrow> str"
  ac_reason :: "nat \<Rightarrow> str option"
  ac_parse_json :: "str \<Rightarrow> json option"
  ac_decode :: "str \<Rightarrow> str + account_data"
  ac_encode :: "(str \<times> str) list \<Rightarrow> str + bytes"
  ac_b64_encode :: "bytes \<Rightarrow> str"
  ac_b64_decode :: "str \<Rightarrow> str + bytes"
  ac_jitter :: "nat \<Rightarrow> u32"
  ac_direct :: "direct_request \<Rightarrow> nat \<Rightarrow> direct_answer"
  ac_api :: api_env
  ac_resolved :: "io_error + sock_addr list"
  ac_draws :: "nat list"
  ac_clock :: "nat \<Rightarrow> u64"

subsection \<open>Retries\<close>

definition API_ATTEMPTS :: nat where "API_ATTEMPTS = 5"
definition API_BACKOFF_BASE_MS :: nat where "API_BACKOFF_BASE_MS = 900"
definition API_BACKOFF_CAP_MS :: nat where "API_BACKOFF_CAP_MS = 15000"
definition API_RETRY_AFTER_CAP_SECS :: nat where "API_RETRY_AFTER_CAP_SECS = 30"

text \<open>The wait in milliseconds; \<open>r\<close> is the random number.\<close>

definition backoff_delay :: "nat \<Rightarrow> u32 \<Rightarrow> nat" where
  "backoff_delay attempt r =
     (let exponential = min (API_BACKOFF_BASE_MS * 2 ^ min attempt 5) (2 ^ 64 - 1);
          capped = min exponential API_BACKOFF_CAP_MS;
          jitter = unat r mod (capped div 3 + 1)
      in capped div 2 + jitter)"

definition header_to_str :: "bytes \<Rightarrow> str option" where
  "header_to_str v =
     (if list_all (\<lambda>b. b = 9 \<or> (32 \<le> unat b \<and> unat b < 127)) v then Some (map unat v) else None)"

definition retry_after :: "bytes option \<Rightarrow> nat option" where
  "retry_after header = do {
     v \<leftarrow> header;
     raw \<leftarrow> header_to_str v;
     seconds \<leftarrow> parse_uint 64 (trim raw);
     Some (min seconds API_RETRY_AFTER_CAP_SECS)
   }"

definition refuses_identity :: "nat \<Rightarrow> bool" where
  "refuses_identity status \<longleftrightarrow> status \<in> {401, 404, 410}"

definition worth_retrying :: "nat \<Rightarrow> bool" where
  "worth_retrying status \<longleftrightarrow> status = 429 \<or> status = 408 \<or> (500 \<le> status \<and> status < 600)"

fun trim_start_str :: "str \<Rightarrow> str \<Rightarrow> str" where
  "trim_start_str p [] = []"
| "trim_start_str p (c # s) =
     (if p \<noteq> [] \<and> starts_with (c # s) p then trim_start_str p (drop (length p - 1) s) else c # s)"

definition API_URL :: str where "API_URL = lit ''https://api.cloudflareclient.com''"
definition API_VERSION :: str where "API_VERSION = lit ''v0a4471''"
definition UA_REGISTER :: str where "UA_REGISTER = lit ''WARP for Android''"
definition CF_CLIENT_VERSION :: str where "CF_CLIENT_VERSION = lit ''a-6.35-4471''"
definition KEY_TYPE_MASQUE :: str where "KEY_TYPE_MASQUE = lit ''secp256r1''"
definition TUN_TYPE_MASQUE :: str where "TUN_TYPE_MASQUE = lit ''masque''"

definition api_host :: str where
  "api_host =
     (case split_on (\<lambda>c. c = 47) (trim_start_str (lit ''http://'') (trim_start_str (lit ''https://'') API_URL)) of
        [] \<Rightarrow> lit ''api.cloudflareclient.com''
      | h # _ \<Rightarrow> h)"

definition front_headers :: "str option \<Rightarrow> str option \<Rightarrow> (str \<times> str) list" where
  "front_headers bearer jwt =
     [(lit ''Content-Type'', lit ''application/json; charset=UTF-8''),
      (lit ''User-Agent'', UA_REGISTER),
      (lit ''CF-Client-Version'', CF_CLIENT_VERSION),
      (lit ''Accept'', lit ''application/json'')]
     @ (case bearer of Some token \<Rightarrow> [(lit ''Authorization'', lit ''Bearer '' @ token)] | None \<Rightarrow> [])
     @ (case jwt of Some token \<Rightarrow> [(lit ''CF-Access-Jwt-Assertion'', token)] | None \<Rightarrow> [])"

subsection \<open>Rejections\<close>

definition show_int :: "int \<Rightarrow> str" where
  "show_int i = (if i < 0 then 45 # show_nat (nat (- i)) else show_nat (nat i))"

fun join_with :: "str \<Rightarrow> str list \<Rightarrow> str" where
  "join_with sep [] = []"
| "join_with sep [s] = s"
| "join_with sep (s # ss) = s @ sep @ join_with sep ss"

definition error_entry :: "json \<Rightarrow> str" where
  "error_entry entry =
     (let message = (case Option.bind (json_get (lit ''message'') entry) as_str of Some m \<Rightarrow> m | None \<Rightarrow> lit ''unknown'') in
      case Option.bind (json_get (lit ''code'') entry) as_i64 of
        Some code \<Rightarrow> message @ lit '' (code '' @ show_int code @ lit '')''
      | None \<Rightarrow> message)"

definition extract_api_error :: "account_env \<Rightarrow> str \<Rightarrow> str option" where
  "extract_api_error E body = do {
     v \<leftarrow> ac_parse_json E body;
     field \<leftarrow> json_get (lit ''errors'') v;
     errors \<leftarrow> as_array field;
     let parts = map error_entry errors;
     if parts = [] then None else Some (join_with (lit ''; '') parts)
   }"

definition show_status :: "account_env \<Rightarrow> nat \<Rightarrow> str" where
  "show_status E status =
     show_nat status @ lit '' '' @ (case ac_reason E status of Some r \<Rightarrow> r | None \<Rightarrow> lit ''<unknown status code>'')"

text \<open>The first 220 bytes of a long body: the slice panics inside a character.\<close>

definition rejection_detail :: "account_env \<Rightarrow> str \<Rightarrow> str outcome" where
  "rejection_detail E body =
     (case extract_api_error E body of
        Some detail \<Rightarrow> Ret detail
      | None \<Rightarrow>
          let trimmed = trim body in
          if trimmed = [] then Ret (lit ''no details returned'')
          else if 220 < str_len trimmed
          then str_slice (utf8_encode trimmed) 0 220 (\<lambda>part. Ret (from_utf8_lossy part @ [0x2026]))
          else Ret trimmed)"

definition rejection_hint :: "nat \<Rightarrow> str" where
  "rejection_hint status =
     (if status = 403 then
        lit '' (cloudflare refused this network; the address looks flagged, try again later, switch network, or import an existing identity)''
      else if status = 429 then
        lit '' (too many registrations from this address; wait a few minutes before trying again)''
      else [])"

definition describe_rejection :: "account_env \<Rightarrow> nat \<Rightarrow> str \<Rightarrow> str outcome" where
  "describe_rejection E status body =
     out_bind (rejection_detail E body) (\<lambda>detail.
     Ret (lit ''status '' @ show_status E status @ lit '': '' @ detail @ rejection_hint status))"

definition describe_status :: "account_env \<Rightarrow> nat \<Rightarrow> str \<Rightarrow> str outcome" where
  "describe_status E status body =
     (if 100 \<le> status \<and> status < 1000 then describe_rejection E status body
      else Ret (lit ''status '' @ show_nat status @ lit '': '' @ body))"

subsection \<open>The two routes\<close>

definition rejection_error :: "nat \<Rightarrow> str \<Rightarrow> aether_error" where
  "rejection_error status described =
     (if refuses_identity status then IdentityRefused described else Api described)"

text \<open>
  The direct route: the attempts from \<open>attempt\<close> on, with the error kept so far. The result comes with the
  waits in milliseconds.
\<close>

fun send_attempts ::
  "account_env \<Rightarrow> str \<Rightarrow> direct_request \<Rightarrow> nat \<Rightarrow> aether_error \<Rightarrow> nat \<Rightarrow> nat list \<times> account_data result outcome" where
  "send_attempts E label q attempt last_error 0 = ([], Ret (Inl last_error))"
| "send_attempts E label q attempt last_error (Suc left) =
     (let wait = (if 0 < attempt then [backoff_delay (attempt - 1) (ac_jitter E attempt)] else []);
          (waits, r) =
            (case ac_direct E q attempt of
               BuildFails e \<Rightarrow> ([], Ret (Inl e))
             | SendFails e \<Rightarrow> send_attempts E label q (Suc attempt) (Api (label @ lit '': '' @ e)) left
             | BodyFails status e \<Rightarrow> ([], Ret (Inl (Api (label @ lit '': '' @ e))))
             | DirectAnswer status header body \<Rightarrow>
                 if success_status status then
                   ([], Ret (case ac_decode E body of
                           Inr account \<Rightarrow> Inr account
                         | Inl e \<Rightarrow> Inl (Api (label @ lit '' decode: '' @ e @ lit ''; body='' @ body))))
                 else (case describe_rejection E status body of
                     Panic \<Rightarrow> ([], Panic)
                   | Ret text \<Rightarrow>
                       let error = rejection_error status (label @ lit '': '' @ text) in
                       if \<not> worth_retrying status then ([], Ret (Inl error))
                       else
                         let (ws, r) = send_attempts E label q (Suc attempt) error left in
                         ((case retry_after header of Some s \<Rightarrow> [s * 1000] | None \<Rightarrow> []) @ ws, r)))
      in (wait @ waits, r))"

definition send_with_retry :: "account_env \<Rightarrow> str \<Rightarrow> direct_request \<Rightarrow> nat list \<times> account_data result outcome" where
  "send_with_retry E label q =
     send_attempts E label q 0 (Api (label @ lit '': no attempt was made'')) API_ATTEMPTS"

type_synonym 'a run = "'a outcome option"

definition run_bind :: "'a run \<Rightarrow> ('a \<Rightarrow> 'b run) \<Rightarrow> 'b run" where
  "run_bind r k = (case r of None \<Rightarrow> None | Some Panic \<Rightarrow> Some Panic | Some (Ret x) \<Rightarrow> k x)"

definition fallback_call ::
  "account_env \<Rightarrow> str \<Rightarrow> str \<Rightarrow> str \<Rightarrow> bytes option \<Rightarrow> str option \<Rightarrow> str option \<Rightarrow> account_data result run" where
  "fallback_call E label meth path body bearer jwt =
     run_bind
       (api_fetch (ac_api E) (ac_resolved E) (ac_draws E)
          \<lparr>rq_method = meth, rq_host = api_host, rq_path = path, rq_headers = front_headers bearer jwt, rq_body = body\<rparr>)
       (\<lambda>fetched.
        case fetched of
          Inl e \<Rightarrow> Some (Ret (Inl e))
        | Inr response \<Rightarrow>
            if success_status (rs_status response) then
              Some (Ret (case ac_decode E (rs_body response) of
                  Inr account \<Rightarrow> Inr account
                | Inl e \<Rightarrow> Inl (Api (label @ lit '' decode over '' @ rs_route response @ lit '': '' @ e @ lit ''; body='' @ rs_body response))))
            else Some (out_bind (describe_status E (rs_status response) (rs_body response)) (\<lambda>text.
              Ret (Inl (rejection_error (rs_status response)
                (label @ lit '' over '' @ rs_route response @ lit '': '' @ text))))))"

text \<open>The fallback of registration and enrolment: both errors are reported in one.\<close>

definition either_route ::
  "account_env \<Rightarrow> str \<Rightarrow> direct_request \<Rightarrow> str \<Rightarrow> bytes \<Rightarrow> account_data result run" where
  "either_route E label q path encoded =
     run_bind (Some (snd (send_with_retry E label q))) (\<lambda>direct.
     case direct of
       Inr account \<Rightarrow> Some (Ret (Inr account))
     | Inl primary \<Rightarrow>
         run_bind (fallback_call E label (dr_method q) path (Some encoded) (dr_bearer q) (dr_jwt q)) (\<lambda>second.
         Some (Ret (case second of
             Inr account \<Rightarrow> Inr account
           | Inl secondary \<Rightarrow>
               Inl (Api (label @ lit '': direct route -> '' @ show_error (ac_show_io E) primary
                 @ lit ''; camouflaged route -> '' @ show_error (ac_show_io E) secondary))))))"

subsection \<open>Registration and enrolment\<close>

text \<open>The bytes of a private key, from 32 random ones.\<close>

definition clamp :: "bytes \<Rightarrow> bytes" where
  "clamp k =
     (let k = k[0 := k ! 0 AND 248]; k = k[31 := k ! 31 AND 127] in k[31 := k ! 31 OR 64])"

text \<open>What a registration draws: the private key's random bytes, its public key, time stamp, serial and names.\<close>

record registration_draw =
  rd_random :: bytes
  rd_public :: "bytes \<Rightarrow> bytes"
  rd_tos :: str
  rd_serial :: str
  rd_install_id :: str
  rd_fcm_token :: str

definition generate_x25519_keypair :: "account_env \<Rightarrow> registration_draw \<Rightarrow> bytes \<times> str" where
  "generate_x25519_keypair E d =
     (let private = clamp (rd_random d) in (private, ac_b64_encode E (rd_public d private)))"

definition registration_fields :: "registration_draw \<Rightarrow> str \<Rightarrow> str \<Rightarrow> str \<Rightarrow> (str \<times> str) list" where
  "registration_fields d public model locale_name =
     [(lit ''key'', public), (lit ''install_id'', []), (lit ''fcm_token'', []), (lit ''tos'', rd_tos d),
      (lit ''model'', model), (lit ''serial_number'', rd_serial d), (lit ''os_version'', []),
      (lit ''key_type'', lit ''curve25519''), (lit ''tunnel_type'', lit ''wireguard''), (lit ''locale'', locale_name)]"

definition team_registration_body :: "registration_draw \<Rightarrow> str \<Rightarrow> str \<Rightarrow> str \<Rightarrow> (str \<times> str) list" where
  "team_registration_body d public model locale_name =
     [(lit ''key'', public), (lit ''install_id'', rd_install_id d), (lit ''fcm_token'', rd_fcm_token d), (lit ''tos'', rd_tos d),
      (lit ''model'', model), (lit ''name'', rd_install_id d), (lit ''serial_number'', rd_install_id d),
      (lit ''locale'', locale_name)]"

definition encoded :: "account_env \<Rightarrow> (str \<times> str) list \<Rightarrow> (bytes \<Rightarrow> 'a result run) \<Rightarrow> 'a result run" where
  "encoded E members k =
     (case ac_encode E members of Inl e \<Rightarrow> Some (Ret (Inl (Api (lit ''encode: '' @ e)))) | Inr bs \<Rightarrow> k bs)"

definition register ::
  "account_env \<Rightarrow> registration_draw \<Rightarrow> str \<Rightarrow> str \<Rightarrow> str option \<Rightarrow> (account_data \<times> bytes) result run" where
  "register E d model locale_name jwt =
     (let (private, public) = generate_x25519_keypair E d;
          body = registration_fields d public model locale_name;
          path = lit ''/'' @ API_VERSION @ lit ''/reg'' in
      encoded E body (\<lambda>bs.
      run_bind (either_route E (lit ''registration'')
          \<lparr>dr_method = lit ''POST'', dr_url = API_URL @ path, dr_bearer = None, dr_jwt = jwt, dr_fields = body\<rparr> path bs)
        (\<lambda>r. Some (Ret (map_sum id (\<lambda>account. (account, private)) r)))))"

definition register_with_team ::
  "account_env \<Rightarrow> registration_draw \<Rightarrow> str \<Rightarrow> str \<Rightarrow> str \<Rightarrow> (account_data \<times> bytes) result run" where
  "register_with_team E d model locale_name token =
     (let (private, public) = generate_x25519_keypair E d;
          body = team_registration_body d public model locale_name;
          path = lit ''/'' @ API_VERSION @ lit ''/reg'' in
      encoded E body (\<lambda>bs.
      run_bind (either_route E (lit ''team registration'')
          \<lparr>dr_method = lit ''POST'', dr_url = API_URL @ path, dr_bearer = None, dr_jwt = Some token, dr_fields = body\<rparr> path bs)
        (\<lambda>r. Some (Ret (map_sum id (\<lambda>account. (account, private)) r)))))"

definition device_path :: "str \<Rightarrow> str" where
  "device_path device = lit ''/'' @ API_VERSION @ lit ''/reg/'' @ device"

definition enroll_key ::
  "account_env \<Rightarrow> str \<Rightarrow> str \<Rightarrow> bytes \<Rightarrow> str option \<Rightarrow> account_data result run" where
  "enroll_key E device token spki name =
     (let body =
            [(lit ''key'', ac_b64_encode E spki), (lit ''key_type'', KEY_TYPE_MASQUE), (lit ''tunnel_type'', TUN_TYPE_MASQUE)]
            @ (case name of Some n \<Rightarrow> [(lit ''name'', n)] | None \<Rightarrow> []) in
      encoded E body (\<lambda>bs.
      either_route E (lit ''key enrollment'')
        \<lparr>dr_method = lit ''PATCH'', dr_url = API_URL @ device_path device, dr_bearer = Some token, dr_jwt = None, dr_fields = body\<rparr>
        (device_path device) bs))"

definition extract_wg_peer :: "account_env \<Rightarrow> account_data \<Rightarrow> bytes result" where
  "extract_wg_peer E reg =
     (case ad_peers reg of
        [] \<Rightarrow> Inl (Api (lit ''no peers in registration response''))
      | p # _ \<Rightarrow>
          (case ac_b64_decode E (ap_public_key p) of
             Inl e \<Rightarrow> Inl (Api (lit ''decode peer pubkey: '' @ e))
           | Inr decoded \<Rightarrow>
               if length decoded \<noteq> 32 then Inl (Api (lit ''invalid peer pubkey length'')) else Inr decoded))"

definition endpoint_from :: "account_data \<Rightarrow> str" where
  "endpoint_from reg =
     (let raw = (case ad_peers reg of [] \<Rightarrow> [] | p # _ \<Rightarrow> trim (pe_v4 (ap_endpoint p))) in
      case rsplit_once 58 raw of
        Some (host, _) \<Rightarrow> if host \<noteq> [] then host else raw
      | None \<Rightarrow> raw)"

definition decoded_client_id :: "account_env \<Rightarrow> account_data \<Rightarrow> bytes" where
  "decoded_client_id E reg =
     (if ad_client_id reg = [] then [0, 0, 0]
      else case ac_b64_decode E (ad_client_id reg) of
          Inr decoded \<Rightarrow> if length decoded = 3 then decoded else [0, 0, 0]
        | Inl _ \<Rightarrow> [0, 0, 0])"

definition finish_provision :: "account_env \<Rightarrow> account_data \<Rightarrow> bytes \<Rightarrow> identity result" where
  "finish_provision E reg wg_private =
     (if ad_token reg = [] then Inl (Api (lit ''registration returned empty token''))
      else case extract_wg_peer E reg of
        Inl e \<Rightarrow> Inl e
      | Inr wg_peer_public \<Rightarrow>
          Inr \<lparr>id_device = ad_id reg, id_token = ad_token reg, id_cert_pem = [], id_key_pem = [], id_cert_issued_at = 0,
               id_ipv4 = ad_address_v4 reg, id_ipv6 = ad_address_v6 reg, id_wg_private_key = wg_private,
               id_wg_peer_public_key = wg_peer_public, id_client_id = decoded_client_id E reg,
               id_organization = trim (ad_organization reg), id_gateway_proxy = trim (ad_http_proxy reg),
               id_assigned_endpoint = endpoint_from reg, id_refused = False\<rparr>)"

definition provision_wg ::
  "account_env \<Rightarrow> registration_draw \<Rightarrow> str \<Rightarrow> str \<Rightarrow> str option \<Rightarrow> identity result run" where
  "provision_wg E d model locale_name jwt =
     run_bind (register E d model locale_name jwt) (\<lambda>r.
     Some (Ret (case r of Inl e \<Rightarrow> Inl e | Inr (reg, private) \<Rightarrow> finish_provision E reg private)))"

text \<open>The sign-in of a team member gives the token.\<close>

definition provision_team ::
  "account_env \<Rightarrow> registration_draw \<Rightarrow> str \<Rightarrow> str \<Rightarrow> str result \<Rightarrow> identity result run" where
  "provision_team E d model locale_name signed_in =
     (case signed_in of
        Inl e \<Rightarrow> Some (Ret (Inl e))
      | Inr token \<Rightarrow>
          run_bind (register_with_team E d model locale_name token) (\<lambda>r.
          Some (Ret (case r of Inl e \<Rightarrow> Inl e | Inr (reg, private) \<Rightarrow> finish_provision E reg private))))"

subsection \<open>Refresh\<close>

definition fetch_device :: "account_env \<Rightarrow> str \<Rightarrow> str \<Rightarrow> account_data result run" where
  "fetch_device E device token =
     run_bind (Some (snd (send_with_retry E (lit ''device refresh'')
         \<lparr>dr_method = lit ''GET'', dr_url = API_URL @ device_path device, dr_bearer = Some token, dr_jwt = None, dr_fields = []\<rparr>)))
       (\<lambda>direct.
        case direct of
          Inr account \<Rightarrow> Some (Ret (Inr account))
        | Inl primary \<Rightarrow>
            fallback_call E (lit ''device refresh'') (lit ''GET'') (device_path device) None (Some token) None)"

definition refreshed :: "identity \<Rightarrow> account_data result \<Rightarrow> identity" where
  "refreshed i r =
     (case r of
        Inl (IdentityRefused reason) \<Rightarrow> i\<lparr>id_refused := True\<rparr>
      | Inl _ \<Rightarrow> i
      | Inr reg \<Rightarrow>
          let ipv4 = trim (ad_address_v4 reg); ipv6 = trim (ad_address_v6 reg) in
          i\<lparr>id_ipv4 := if ipv4 = [] then id_ipv4 i else ipv4,
            id_ipv6 := if ipv6 = [] then id_ipv6 i else ipv6,
            id_organization := trim (ad_organization reg),
            id_gateway_proxy := trim (ad_http_proxy reg),
            id_assigned_endpoint := endpoint_from reg,
            id_refused := False\<rparr>)"

definition refresh_profile :: "account_env \<Rightarrow> identity \<Rightarrow> identity run" where
  "refresh_profile E i =
     run_bind (fetch_device E (id_device i) (id_token i)) (\<lambda>r. Some (Ret (refreshed i r)))"

subsection \<open>The MASQUE certificate\<close>

definition MASQUE_CERT_LIFETIME_DAYS :: u32 where "MASQUE_CERT_LIFETIME_DAYS = 365"
definition MASQUE_CERT_LIFETIME_SECS :: u64 where "MASQUE_CERT_LIFETIME_SECS = ucast MASQUE_CERT_LIFETIME_DAYS * 86400"
definition MASQUE_CERT_RENEW_BEFORE_SECS :: u64 where "MASQUE_CERT_RENEW_BEFORE_SECS = 7 * 86400"

definition masque_cert_expiring :: "u64 \<Rightarrow> u64 \<Rightarrow> bool" where
  "masque_cert_expiring now issued_at =
     (if issued_at = 0 then True
      else if now < issued_at then True
      else let age = now - issued_at in MASQUE_CERT_LIFETIME_SECS \<le> age + MASQUE_CERT_RENEW_BEFORE_SECS)"

definition cert_still_usable :: "u64 \<Rightarrow> identity \<Rightarrow> bool" where
  "cert_still_usable now i =
     (if id_cert_pem i = [] \<or> id_key_pem i = [] then False
      else if id_cert_issued_at i = 0 then False
      else if now < id_cert_issued_at i then False
      else now - id_cert_issued_at i < MASQUE_CERT_LIFETIME_SECS)"

definition has_masque_credentials :: "u64 \<Rightarrow> identity \<Rightarrow> bool" where
  "has_masque_credentials now i \<longleftrightarrow>
     id_cert_pem i \<noteq> [] \<and> id_key_pem i \<noteq> [] \<and> \<not> masque_cert_expiring now (id_cert_issued_at i)"

definition kept_credentials :: "identity \<Rightarrow> masque_enrollment" where
  "kept_credentials i =
     \<lparr>me_cert_pem = id_cert_pem i, me_key_pem = id_key_pem i, me_issued_at = id_cert_issued_at i, me_renewed = False\<rparr>"

text \<open>\<open>generated\<close> is the key pair and certificate made by the cryptographic library, or its error.\<close>

definition ensure_masque_enrolled ::
  "account_env \<Rightarrow> (str + masque_key_pair) \<Rightarrow> identity \<Rightarrow> masque_enrollment result run" where
  "ensure_masque_enrolled E generated i =
     (let usable = (id_cert_pem i \<noteq> [] \<and> id_key_pem i \<noteq> []) in
      if usable \<and> \<not> masque_cert_expiring (ac_clock E 0) (id_cert_issued_at i)
      then Some (Ret (Inr (kept_credentials i)))
      else case generated of
        Inl e \<Rightarrow> Some (Ret (Inl (Tls e)))
      | Inr keypair \<Rightarrow>
          run_bind (enroll_key E (id_device i) (id_token i) (mk_spki_der keypair) None) (\<lambda>r.
          Some (Ret (case r of
              Inr _ \<Rightarrow> Inr \<lparr>me_cert_pem = mk_cert_pem keypair, me_key_pem = mk_key_pem keypair,
                            me_issued_at = ac_clock E 1, me_renewed = True\<rparr>
            | Inl error \<Rightarrow>
                if cert_still_usable (ac_clock E 1) i then Inr (kept_credentials i) else Inl error))))"

section \<open>Correctness\<close>

lemma run_bind_simps [simp]:
  "run_bind None k = None" "run_bind (Some Panic) k = Some Panic" "run_bind (Some (Ret x)) k = k x"
  by (simp_all add: run_bind_def)

lemma run_bind_eq_Ret: "run_bind r k = Some (Ret y) \<longleftrightarrow> (\<exists>x. r = Some (Ret x) \<and> k x = Some (Ret y))"
  by (auto simp: run_bind_def split: option.splits outcome.splits)

lemma api_host_name: "api_host = lit ''api.cloudflareclient.com''"
  by (simp add: api_host_def API_URL_def starts_with_def)

subsection \<open>Retries\<close>

lemma backoff_bounds:
  "backoff_delay attempt r \<le> 12500"
  "attempt < 4 \<Longrightarrow> 450 * 2 ^ attempt \<le> backoff_delay attempt r \<and> backoff_delay attempt r \<le> 750 * 2 ^ attempt"
proof -
  have mod: "x mod (c div 3 + 1) \<le> c div 3" for x c :: nat using mod_less_divisor [of "c div 3 + 1" x] by linarith
  show "backoff_delay attempt r \<le> 12500"
  proof -
    define c where "c = min (min (API_BACKOFF_BASE_MS * 2 ^ min attempt 5) (2 ^ 64 - 1)) API_BACKOFF_CAP_MS"
    have "c \<le> 15000" by (simp add: c_def API_BACKOFF_CAP_MS_def)
    moreover have "backoff_delay attempt r = c div 2 + unat r mod (c div 3 + 1)"
      unfolding c_def backoff_delay_def Let_def ..
    ultimately show ?thesis using mod [of "unat r" c] by linarith
  qed
  assume "attempt < 4"
  then have "attempt \<in> {0, 1, 2, 3}" by auto
  then show "450 * 2 ^ attempt \<le> backoff_delay attempt r \<and> backoff_delay attempt r \<le> 750 * 2 ^ attempt"
    using mod [of "unat r" 900] mod [of "unat r" 1800] mod [of "unat r" 3600] mod [of "unat r" 7200]
    by (auto simp: backoff_delay_def Let_def API_BACKOFF_BASE_MS_def API_BACKOFF_CAP_MS_def)
qed

lemma retry_after_cap: "retry_after header = Some s \<Longrightarrow> s \<le> 30"
  by (auto simp: retry_after_def API_RETRY_AFTER_CAP_SECS_def split: bind_splits)

definition backoff_budget :: "nat \<Rightarrow> nat" where
  "backoff_budget attempt = (if 0 < attempt then 750 * 2 ^ (attempt - 1) else 0)"

lemma send_attempts_waits:
  "attempt + left \<le> 5 \<Longrightarrow>
   sum_list (fst (send_attempts E label q attempt e left))
     \<le> left * 30000 + sum_list (map backoff_budget [attempt..<attempt + left])
   \<and> length (fst (send_attempts E label q attempt e left)) \<le> 2 * left"
proof (induction left arbitrary: attempt e)
  case 0
  then show ?case by simp
next
  case (Suc left)
  have head: "sum_list (if 0 < attempt then [backoff_delay (attempt - 1) (ac_jitter E attempt)] else []) \<le> backoff_budget attempt"
    using backoff_bounds(2) [of "attempt - 1" "ac_jitter E attempt"] Suc.prems by (auto simp: backoff_budget_def)
  have upt: "[attempt..<Suc (attempt + left)] = attempt # [Suc attempt..<Suc (attempt + left)]"
    by (simp add: upt_conv_Cons del: upt_Suc)
  have cool: "sum_list (case retry_after h of Some s \<Rightarrow> [s * 1000] | None \<Rightarrow> []) \<le> 30000" for h
    using retry_after_cap [of h] by (auto split: option.splits)
  have IH: "sum_list (fst (send_attempts E label q (Suc attempt) e' left)) \<le> left * 30000 + sum_list (map backoff_budget [Suc attempt..<Suc attempt + left])"
    "length (fst (send_attempts E label q (Suc attempt) e' left)) \<le> 2 * left" for e'
    using Suc.IH [of "Suc attempt" e'] Suc.prems by auto
  show ?case
  proof (cases "ac_direct E q attempt")
    case (BuildFails x)
    with head show ?thesis by (auto simp: upt simp del: upt_Suc)
  next
    case (SendFails x)
    with head IH [of "Api (label @ lit '': '' @ x)"] show ?thesis
      by (auto simp: upt split_beta simp del: upt_Suc)
  next
    case (BodyFails st x)
    with head show ?thesis by (auto simp: upt simp del: upt_Suc)
  next
    case (DirectAnswer st h body)
    show ?thesis
    proof (cases "describe_rejection E st body")
      case Panic
      with DirectAnswer head show ?thesis by (auto simp: upt simp del: upt_Suc)
    next
      case (Ret t)
      with DirectAnswer head cool [of h] IH [of "rejection_error st (label @ lit '': '' @ t)"] show ?thesis
        by (auto simp: upt split_beta Let_def simp del: upt_Suc split: option.splits)
    qed
  qed
qed

text \<open>An attempt that is followed by another: it failed to be sent, or was answered with a passing error.\<close>

definition transient :: "account_env \<Rightarrow> direct_request \<Rightarrow> nat \<Rightarrow> bool" where
  "transient E q attempt =
     (case ac_direct E q attempt of
        SendFails _ \<Rightarrow> True
      | DirectAnswer status _ body \<Rightarrow> worth_retrying status \<and> returns (describe_rejection E status body)
      | _ \<Rightarrow> False)"

lemma worth_retrying_disjoint: "worth_retrying status \<Longrightarrow> \<not> success_status status \<and> \<not> refuses_identity status"
  by (auto simp: worth_retrying_def success_status_def refuses_identity_def)

lemma send_attempts_transient:
  assumes "transient E q attempt"
  shows "\<exists>e'. snd (send_attempts E label q attempt e (Suc left)) = snd (send_attempts E label q (Suc attempt) e' left)"
  using assms
  by (auto simp: transient_def split_beta Let_def returns_def dest: worth_retrying_disjoint
      split: direct_answer.splits outcome.splits)

lemma send_attempts_skip:
  "(\<And>a. attempt \<le> a \<Longrightarrow> a < attempt + n \<Longrightarrow> transient E q a) \<Longrightarrow>
   \<exists>e'. snd (send_attempts E label q attempt e (n + left)) = snd (send_attempts E label q (attempt + n) e' left)"
proof (induction n arbitrary: attempt e)
  case 0
  then show ?case by auto
next
  case (Suc n)
  obtain e' where "snd (send_attempts E label q attempt e (Suc (n + left))) = snd (send_attempts E label q (Suc attempt) e' (n + left))"
    using send_attempts_transient [of E q attempt label e "n + left"] Suc.prems by auto
  moreover obtain e'' where "snd (send_attempts E label q (Suc attempt) e' (n + left)) = snd (send_attempts E label q (Suc attempt + n) e'' left)"
    using Suc.IH [of "Suc attempt" e'] Suc.prems by auto
  ultimately show ?case by auto
qed

text \<open>
  A direct API call rides out passing failures: if the first \<open>k\<close> of its five attempts cannot be sent or
  are answered with 408, 429 or 5xx, and the next one is answered with success, the call returns the
  decoded account. Whatever the server answers, it waits at most 161.25 seconds in all.
\<close>

lemma api_call_retries:
  assumes "k < 5" "\<forall>a<k. transient E q a"
    and "ac_direct E q k = DirectAnswer status header body" "success_status status" "ac_decode E body = Inr account"
  shows "snd (send_with_retry E label q) = Ret (Inr account) \<and> sum_list (fst (send_with_retry E label q)) \<le> 161250"
proof
  obtain left where left: "5 = k + Suc left" using assms(1) by (metis less_iff_Suc_add add_Suc_right)
  obtain e where "snd (send_attempts E label q 0 (Api (label @ lit '': no attempt was made'')) (k + Suc left))
      = snd (send_attempts E label q k e (Suc left))"
    using send_attempts_skip [of 0 k E q label "Api (label @ lit '': no attempt was made'')" "Suc left"] assms(2) by (auto simp del: send_attempts.simps)
  then show "snd (send_with_retry E label q) = Ret (Inr account)"
    using assms(3-5) by (simp add: send_with_retry_def API_ATTEMPTS_def left)
  have "sum_list (map backoff_budget [0..<5]) = 11250" by (simp add: upt_rec backoff_budget_def)
  then show "sum_list (fst (send_with_retry E label q)) \<le> 161250"
    using send_attempts_waits [of 0 5 E label q] by (simp add: send_with_retry_def API_ATTEMPTS_def del: upt_Suc)
qed

text \<open>A service for concrete runs: the first attempt of every call is answered as given, the second with an account.\<close>

definition demo_account :: account_data where
  "demo_account =
     \<lparr>ad_id = lit ''d'', ad_token = lit ''t'', ad_address_v4 = lit ''172.16.0.2'', ad_address_v6 = [],
      ad_peers = [\<lparr>ap_public_key = lit ''k'', ap_endpoint = \<lparr>pe_v4 = lit ''162.159.193.1:0'', pe_v6 = [], pe_host = []\<rparr>\<rparr>],
      ad_client_id = [], ad_http_proxy = [], ad_account_id = [], ad_account_type = [], ad_organization = []\<rparr>"

definition demo_env :: "direct_answer \<Rightarrow> account_env" where
  "demo_env first =
     \<lparr>ac_show_io = (\<lambda>_. []), ac_reason = (\<lambda>_. None), ac_parse_json = (\<lambda>_. None), ac_decode = (\<lambda>_. Inr demo_account),
      ac_encode = (\<lambda>_. Inr []), ac_b64_encode = (\<lambda>_. []), ac_b64_decode = (\<lambda>_. Inr (replicate 32 7)), ac_jitter = (\<lambda>_. 0),
      ac_direct = (\<lambda>_ a. if a = 0 then first else DirectAnswer 200 None []),
      ac_api = silent_env, ac_resolved = Inr [], ac_draws = [0, 1, 2], ac_clock = (\<lambda>n. 1700000000 + word_of_nat n)\<rparr>"

subsection \<open>Rejections\<close>

text \<open>
  The text of a rejection is always produced for an ASCII body; a body longer than 220 bytes panics when
  its byte 220 lies inside a character.
\<close>

lemma char_boundary_ascii: "list_all (\<lambda>c. c < 128) s \<Longrightarrow> i \<le> length s \<Longrightarrow> char_boundary (utf8_encode s) i"
proof -
  assume s: "list_all (\<lambda>c. c < 128) s" and i: "i \<le> length s"
  have "unat (word_of_nat (s ! i) :: u8) = s ! i \<and> s ! i < 128" if "i < length s"
  proof -
    have "s ! i < 128" using s that by (simp add: list_all_length)
    then show ?thesis by (simp add: unat_small)
  qed
  with s i show ?thesis by (auto simp: char_boundary_def utf8_encode_ascii cont_def)
qed

lemma describe_ascii:
  assumes "list_all (\<lambda>c. c < 128) body"
  shows "returns (describe_rejection E status body)"
proof -
  have "list_all (\<lambda>c. c < 128) (trim body)" using assms set_trim [of body] by (auto simp: list_all_iff)
  with char_boundary_ascii [OF this, of 0] char_boundary_ascii [OF this, of 220]
  show ?thesis
    by (auto simp: describe_rejection_def rejection_detail_def str_slice_def Let_def returns_def str_len_ascii split: option.splits)
qed

lemma rejection_text_panics:
  assumes "extract_api_error E (replicate 219 97 @ 0xE9 # t) = None" "t = [] \<or> \<not> is_whitespace (last t)"
  shows "describe_rejection E status (replicate 219 97 @ 0xE9 # t) = Panic"
proof -
  let ?b = "replicate 219 97 @ 0xE9 # t"
  have b: "?b = 97 # replicate 218 97 @ 0xE9 # t" by (simp add: replicate_Suc [symmetric])
  have "trim ?b = ?b"
  proof (rule trim_ends)
    show "\<not> is_whitespace (hd ?b)" by (simp add: b is_whitespace_def)
    show "\<not> is_whitespace (last ?b)" using assms(2) by (auto simp: is_whitespace_def)
  qed simp
  moreover have enc: "utf8_encode ?b = replicate 219 97 @ 0xC3 # 0xA9 # utf8_encode t"
    by (simp add: utf8_encode_def utf8_char_def map_replicate_const concat_replicate_trivial)
  moreover have "str_len ?b = 221 + str_len t" unfolding str_len_def enc by simp
  moreover have "\<not> char_boundary (utf8_encode ?b) 220"
    unfolding enc by (simp add: char_boundary_def nth_append cont_def)
  ultimately show ?thesis
    using assms(1) by (simp add: describe_rejection_def rejection_detail_def Let_def str_slice_def)
qed

subsection \<open>Certificates\<close>

lemma lifetime_secs: "MASQUE_CERT_LIFETIME_SECS = 31536000" "MASQUE_CERT_RENEW_BEFORE_SECS = 604800"
  by (simp_all add: MASQUE_CERT_LIFETIME_SECS_def MASQUE_CERT_LIFETIME_DAYS_def MASQUE_CERT_RENEW_BEFORE_SECS_def)

text \<open>A certificate that can be used at a time: issued by then and less than 365 days old.\<close>

definition in_lifetime :: "u64 \<Rightarrow> u64 \<Rightarrow> bool" where
  "in_lifetime now issued \<longleftrightarrow> 0 < unat issued \<and> unat issued \<le> unat now \<and> unat now - unat issued < 31536000"

lemma expiring_iff:
  assumes "unat now < 2 ^ 63"
  shows "\<not> masque_cert_expiring now issued \<longleftrightarrow> 0 < unat issued \<and> unat issued \<le> unat now \<and> unat now - unat issued < 30931200"
proof (cases "issued = 0 \<or> now < issued")
  case True
  then show ?thesis by (auto simp: masque_cert_expiring_def word_less_nat_alt)
next
  case False
  then have le: "issued \<le> now" "0 < unat issued" by (auto simp: not_less unat_gt_0)
  have age: "unat (now - issued) = unat now - unat issued" using le by (simp add: unat_sub)
  have "unat (now - issued + 604800) = unat (now - issued) + 604800"
    using assms age by (subst unat_add_lem [THEN iffD1]) simp_all
  with False le age show ?thesis
    by (auto simp: masque_cert_expiring_def lifetime_secs Let_def word_le_nat_alt)
qed

lemma still_usable_iff:
  "cert_still_usable now i \<longleftrightarrow> id_cert_pem i \<noteq> [] \<and> id_key_pem i \<noteq> [] \<and> in_lifetime now (id_cert_issued_at i)"
proof (cases "now < id_cert_issued_at i")
  case True
  then show ?thesis by (auto simp: cert_still_usable_def in_lifetime_def word_less_nat_alt)
next
  case False
  then have "unat (now - id_cert_issued_at i) = unat now - unat (id_cert_issued_at i)" by (simp add: unat_sub)
  with False show ?thesis
    by (auto simp: cert_still_usable_def in_lifetime_def lifetime_secs word_less_nat_alt unat_gt_0)
qed

text \<open>
  C22: Enrolment hands out a certificate that was accepted by the account service in this call, or the saved
  one, and the saved one only while it is within its 365 days; it contacts the service only when fewer
  than seven days of the saved one are left. When the service fails and the saved certificate is still
  within its lifetime, the call succeeds with it.
\<close>

theorem enrolled_certificate_valid:
  assumes "unat (ac_clock E 0) < 2 ^ 63"
    and "ensure_masque_enrolled E (Inr keypair) i = Some (Ret result)"
  shows "(case result of
      Inr m \<Rightarrow>
        (if me_renewed m
         then me_cert_pem m = mk_cert_pem keypair \<and> me_key_pem m = mk_key_pem keypair \<and> me_issued_at m = ac_clock E 1
            \<and> (\<exists>a. enroll_key E (id_device i) (id_token i) (mk_spki_der keypair) None = Some (Ret (Inr a)))
            \<and> \<not> has_masque_credentials (ac_clock E 0) i
         else m = kept_credentials i \<and> id_cert_pem i \<noteq> [] \<and> id_key_pem i \<noteq> []
            \<and> (in_lifetime (ac_clock E 0) (id_cert_issued_at i) \<or> in_lifetime (ac_clock E 1) (id_cert_issued_at i)))
    | Inl e \<Rightarrow>
        enroll_key E (id_device i) (id_token i) (mk_spki_der keypair) None = Some (Ret (Inl e))
        \<and> \<not> (id_cert_pem i \<noteq> [] \<and> id_key_pem i \<noteq> [] \<and> in_lifetime (ac_clock E 1) (id_cert_issued_at i)))"
proof (cases "has_masque_credentials (ac_clock E 0) i")
  case True
  then have "result = Inr (kept_credentials i)"
    using assms(2) by (auto simp: ensure_masque_enrolled_def has_masque_credentials_def)
  with True expiring_iff [OF assms(1), of "id_cert_issued_at i"] show ?thesis
    by (auto simp: kept_credentials_def has_masque_credentials_def in_lifetime_def)
next
  case False
  then obtain r where r: "enroll_key E (id_device i) (id_token i) (mk_spki_der keypair) None = Some (Ret r)"
    "result = (case r of
       Inr _ \<Rightarrow> Inr \<lparr>me_cert_pem = mk_cert_pem keypair, me_key_pem = mk_key_pem keypair, me_issued_at = ac_clock E 1, me_renewed = True\<rparr>
     | Inl error \<Rightarrow> if cert_still_usable (ac_clock E 1) i then Inr (kept_credentials i) else Inl error)"
    using assms(2) by (auto simp: ensure_masque_enrolled_def has_masque_credentials_def run_bind_eq_Ret Let_def split: if_splits)
  with False show ?thesis
    by (cases r) (auto simp: still_usable_iff kept_credentials_def)
qed

theorem enrolled_certificate_valid_witness:
  "\<exists>E keypair i m. unat (ac_clock E 0) < 2 ^ 63 \<and> ensure_masque_enrolled E (Inr keypair) i = Some (Ret (Inr m)) \<and> me_renewed m
      \<and> me_cert_pem m = mk_cert_pem keypair"
proof -
  let ?E = "demo_env (SendFails [])"
  let ?k = "\<lparr>mk_key_pem = [1], mk_cert_pem = [2], mk_spki_der = [3]\<rparr>"
  let ?i = "\<lparr>id_device = lit ''d'', id_token = lit ''t'', id_cert_pem = [], id_key_pem = [], id_cert_issued_at = 0, id_ipv4 = [], id_ipv6 = [],
     id_wg_private_key = [], id_wg_peer_public_key = [], id_client_id = [], id_organization = [], id_gateway_proxy = [],
     id_assigned_endpoint = [], id_refused = False\<rparr>"
  let ?m = "\<lparr>me_cert_pem = [2], me_key_pem = [1], me_issued_at = 1700000001, me_renewed = True\<rparr>"
  have clock: "unat (ac_clock ?E 0) < 2 ^ 63" by (simp add: demo_env_def)
  have run: "ensure_masque_enrolled ?E (Inr ?k) ?i = Some (Ret (Inr ?m))"
    by (simp add: ensure_masque_enrolled_def enroll_key_def encoded_def either_route_def send_with_retry_def API_ATTEMPTS_def
        demo_env_def success_status_def eval_nat_numeral)
  from enrolled_certificate_valid [OF clock run] have "me_cert_pem ?m = mk_cert_pem ?k" by simp
  with clock run show ?thesis by fastforce
qed

subsection \<open>Identities\<close>

text \<open>A usable identity: a token, 32-byte keys with a clamped private key and a 3-byte client id.\<close>

definition wf_identity :: "identity \<Rightarrow> bool" where
  "wf_identity i \<longleftrightarrow>
     id_token i \<noteq> [] \<and> length (id_wg_private_key i) = 32 \<and> length (id_wg_peer_public_key i) = 32 \<and> length (id_client_id i) = 3
     \<and> id_wg_private_key i ! 0 AND 7 = 0 \<and> id_wg_private_key i ! 31 AND 0xC0 = 0x40"

lemma clamp_bits:
  assumes "length k = 32"
  shows "length (clamp k) = 32 \<and> clamp k ! 0 AND 7 = 0 \<and> clamp k ! 31 AND 0xC0 = 0x40"
proof -
  have low: "(x AND 248) AND 7 = 0" for x :: u8
    by (simp add: and.assoc)
  have high: "((x AND 127) OR 64) AND 0xC0 = 0x40" for x :: u8
    by (simp add: bit.conj_disj_distrib2 and.assoc)
  show ?thesis using assms by (simp add: clamp_def Let_def low high)
qed

lemma extract_wg_peer_length: "extract_wg_peer E reg = Inr k \<Longrightarrow> length k = 32"
  by (auto simp: extract_wg_peer_def split: list.splits sum.splits if_splits)

lemma decoded_client_id_length: "length (decoded_client_id E reg) = 3"
  by (auto simp: decoded_client_id_def split: sum.splits)

lemma finish_provision_wf:
  assumes "finish_provision E reg (clamp k) = Inr i" "length k = 32"
  shows "wf_identity i \<and> \<not> id_refused i \<and> id_cert_pem i = [] \<and> \<not> cert_still_usable now i"
  using assms clamp_bits [OF assms(2)]
  by (auto simp: finish_provision_def wf_identity_def decoded_client_id_length cert_still_usable_def
      dest: extract_wg_peer_length split: if_splits sum.splits)

lemma map_sum_Inr: "map_sum f g r = Inr y \<longleftrightarrow> (\<exists>x. r = Inr x \<and> y = g x)"
  by (cases r) auto

lemma registered_key:
  "register E d model loc jwt = Some (Ret (Inr (reg, k))) \<Longrightarrow> k = clamp (rd_random d)"
  "register_with_team E d model loc token = Some (Ret (Inr (reg, k))) \<Longrightarrow> k = clamp (rd_random d)"
  by (auto simp: register_def register_with_team_def encoded_def generate_x25519_keypair_def run_bind_eq_Ret Let_def
      map_sum_Inr split: sum.splits)

lemma refreshed_keeps:
  "id_device (refreshed i r) = id_device i" "id_token (refreshed i r) = id_token i"
  "id_cert_pem (refreshed i r) = id_cert_pem i" "id_key_pem (refreshed i r) = id_key_pem i"
  "id_cert_issued_at (refreshed i r) = id_cert_issued_at i"
  "id_wg_private_key (refreshed i r) = id_wg_private_key i"
  "id_wg_peer_public_key (refreshed i r) = id_wg_peer_public_key i" "id_client_id (refreshed i r) = id_client_id i"
  by (auto simp: refreshed_def Let_def split: sum.splits aether_error.splits)

text \<open>
  Both ways to provision an identity yield one with a token, keys of 32 bytes (the private key clamped
  for X25519), a client id of 3 bytes, no certificate and no mark of refusal, whatever the service answers;
  a refresh keeps that, the keys, the token and the certificate, and marks the identity refused exactly
  when the last route answered that it no longer exists.
\<close>

lemma identities_wellformed:
  assumes "length (rd_random d) = 32"
  shows "(provision_wg E d model loc jwt = Some (Ret (Inr i)) \<or> provision_team E d model loc sign_in = Some (Ret (Inr i))
        \<longrightarrow> wf_identity i \<and> \<not> id_refused i \<and> id_cert_pem i = [])
    \<and> (refresh_profile E i = Some (Ret j) \<longrightarrow>
        (wf_identity i \<longrightarrow> wf_identity j) \<and> id_device j = id_device i \<and> id_token j = id_token i
        \<and> id_cert_pem j = id_cert_pem i \<and> id_key_pem j = id_key_pem i \<and> id_cert_issued_at j = id_cert_issued_at i
        \<and> (\<exists>r. fetch_device E (id_device i) (id_token i) = Some (Ret r)
              \<and> (\<not> id_refused i \<longrightarrow> id_refused j = (\<exists>reason. r = Inl (IdentityRefused reason)))))"
proof (intro conjI impI)
  assume "provision_wg E d model loc jwt = Some (Ret (Inr i)) \<or> provision_team E d model loc sign_in = Some (Ret (Inr i))"
  then obtain r where r: "(case r of Inl e \<Rightarrow> Inl e | Inr (reg, private) \<Rightarrow> finish_provision E reg private) = Inr i"
    "register E d model loc jwt = Some (Ret r) \<or> (\<exists>token. register_with_team E d model loc token = Some (Ret r))"
    by (cases sign_in) (auto simp: provision_wg_def provision_team_def run_bind_eq_Ret elim!: disjE)
  then obtain reg where "finish_provision E reg (clamp (rd_random d)) = Inr i"
    using registered_key by (cases r) (auto split: prod.split_asm)
  from finish_provision_wf [OF this assms] show "wf_identity i" "\<not> id_refused i" "id_cert_pem i = []" by auto
next
  assume "refresh_profile E i = Some (Ret j)"
  then obtain r where r: "fetch_device E (id_device i) (id_token i) = Some (Ret r)" "j = refreshed i r"
    by (auto simp: refresh_profile_def run_bind_eq_Ret)
  show "wf_identity j" if "wf_identity i" using that by (simp add: wf_identity_def r refreshed_keeps)
  show "id_device j = id_device i" "id_token j = id_token i" "id_cert_pem j = id_cert_pem i"
    "id_key_pem j = id_key_pem i" "id_cert_issued_at j = id_cert_issued_at i"
    by (simp_all add: r refreshed_keeps)
  have "\<not> id_refused i \<longrightarrow> id_refused j = (\<exists>reason. r = Inl (IdentityRefused reason))"
    by (auto simp: r refreshed_def Let_def split: sum.splits aether_error.splits)
  with r show "\<exists>r. fetch_device E (id_device i) (id_token i) = Some (Ret r)
      \<and> (\<not> id_refused i \<longrightarrow> id_refused j = (\<exists>reason. r = Inl (IdentityRefused reason)))" by blast
qed

text \<open>
  An identity that the account service says is gone is not reported as gone when the camouflaged route
  then fails: the direct route answers 401, 404 or 410, the fallback cannot be reached, and the refresh
  returns the identity unchanged, not marked refused.
\<close>

lemma direct_refusal_forgotten:
  assumes "ac_direct E \<lparr>dr_method = lit ''GET'', dr_url = API_URL @ device_path (id_device i), dr_bearer = Some (id_token i),
      dr_jwt = None, dr_fields = []\<rparr> 0 = DirectAnswer status header body"
    and "refuses_identity status" "returns (describe_rejection E status body)"
    and "\<And>q. api_fetch (ac_api E) (ac_resolved E) (ac_draws E) q = Some (Ret (Inl (Api (why q))))"
  shows "(\<exists>reason. snd (send_with_retry E (lit ''device refresh'') \<lparr>dr_method = lit ''GET'', dr_url = API_URL @ device_path (id_device i),
      dr_bearer = Some (id_token i), dr_jwt = None, dr_fields = []\<rparr>) = Ret (Inl (IdentityRefused reason)))
    \<and> refresh_profile E i = Some (Ret i)"
proof -
  let ?q = "\<lparr>dr_method = lit ''GET'', dr_url = API_URL @ device_path (id_device i), dr_bearer = Some (id_token i),
      dr_jwt = None, dr_fields = []\<rparr>"
  obtain t where t: "describe_rejection E status body = Ret t" using assms(3) by (auto simp: returns_def split: outcome.splits)
  have status: "\<not> success_status status" "\<not> worth_retrying status"
    using assms(2) by (auto simp: refuses_identity_def success_status_def worth_retrying_def)
  have direct: "snd (send_with_retry E (lit ''device refresh'') ?q) = Ret (Inl (IdentityRefused (lit ''device refresh: '' @ t)))"
    using assms(1,2) t status by (simp add: send_with_retry_def API_ATTEMPTS_def eval_nat_numeral rejection_error_def)
  then have "fetch_device E (id_device i) (id_token i)
      = fallback_call E (lit ''device refresh'') (lit ''GET'') (device_path (id_device i)) None (Some (id_token i)) None"
    by (simp add: fetch_device_def del: lit_simps)
  also have "\<exists>w. \<dots> = Some (Ret (Inl (Api w)))"
    by (simp add: fallback_call_def assms(4))
  finally have "refresh_profile E i = Some (Ret i)"
    by (auto simp: refresh_profile_def refreshed_def)
  with direct show ?thesis by blast
qed

lemma silent_fetch: "\<exists>w. api_fetch silent_env (Inr []) [0, 1, 2] q = Some (Ret (Inl (Api w)))"
proof -
  obtain as where as: "edge_addresses [] [0, 1, 2] = Some as" "as \<noteq> []"
    using silent_addresses by blast
  have "exchange silent_env q a fp = Ret (Inl (Api (lit ''connect to '' @ show_sock_addr a @ lit '' timed out'')))" for a fp
    by (simp add: exchange_def silent_env_def)
  then have "\<exists>w. try_routes (\<lambda>(a, fp). exchange silent_env q a fp) None failure routes = Ret (Inl (Api w))"
    if "failure = None \<or> (\<exists>w. failure = Some (Api w))" for failure routes
    using that by (induction routes arbitrary: failure) (auto split: prod.splits)
  from this [of None] as show ?thesis by (simp add: api_fetch_def candidates_def)
qed

end
