(* ===== verification/Identity_File.thy ===== *)
theory Identity_File
  imports Account
begin

text \<open>
  The files the program keeps: the identity (\<open>config.rs\<close>) and the last connection (\<open>lastconn.rs\<close>). The file
  system is a map from paths to files with contents and permission bits; a save is a list of system
  calls of which any may fail, so that what a crash leaves behind is the state after a prefix of the
  calls. TOML and base64 are parameters.
\<close>

section \<open>The model\<close>

subsection \<open>Paths\<close>

text \<open>
  Unix paths as \<open>std::path\<close> sees them: separators and single dots at the end are ignored. The last
  component is no file name when it is empty, a dot or two dots.
\<close>

fun trim_path_rev :: "str \<Rightarrow> str" where
  "trim_path_rev (a # b # s) =
     (if a = 47 then trim_path_rev (b # s)
      else if a = 46 \<and> b = 47 then trim_path_rev (b # s)
      else a # b # s)"
| "trim_path_rev s = s"

definition trim_path :: "str \<Rightarrow> str" where
  "trim_path p = rev (trim_path_rev (rev p))"

definition path_parts :: "str \<Rightarrow> str \<times> str" where
  "path_parts p =
     (let q = trim_path p in
      case rsplit_once 47 q of
        Some (d, n) \<Rightarrow> (if d = [] then [47] else trim_path d, n)
      | None \<Rightarrow> ([], q))"

definition path_file_name :: "str \<Rightarrow> str option" where
  "path_file_name p =
     (let n = snd (path_parts p) in if n \<in> {[], [46], [46, 46]} then None else Some n)"

definition path_parent :: "str \<Rightarrow> str option" where
  "path_parent p = (if trim_path p \<in> {[], [47]} then None else Some (fst (path_parts p)))"

definition path_push :: "str \<Rightarrow> str \<Rightarrow> str" where
  "path_push dir name = (if dir = [] \<or> last dir = 47 then dir @ name else dir @ [47] @ name)"

definition set_file_name :: "str \<Rightarrow> str \<Rightarrow> str" where
  "set_file_name p name = path_push (if path_file_name p \<noteq> None then fst (path_parts p) else p) name"

subsection \<open>System calls\<close>

text \<open>The permission bits 0600.\<close>

definition owner_only :: nat where "owner_only = 6 * 64"

record fs_file =
  ff_contents :: bytes
  ff_mode :: nat

type_synonym fs = "str \<rightharpoonup> fs_file"

datatype fs_call =
    CreateDirAll str
  | OpenPrivate str
  | WriteAll str bytes
  | FlushFile str
  | SyncAll str
  | SetMode str nat
  | RenameFile str str
  | RemoveFile str

text \<open>What a call does when it succeeds. A new file gets the bits 0600; an old one is emptied and keeps its bits.\<close>

fun fs_apply :: "fs_call \<Rightarrow> fs \<Rightarrow> fs" where
  "fs_apply (CreateDirAll d) s = s"
| "fs_apply (OpenPrivate p) s =
     s(p \<mapsto> \<lparr>ff_contents = [], ff_mode = (case s p of None \<Rightarrow> owner_only | Some f \<Rightarrow> ff_mode f)\<rparr>)"
| "fs_apply (WriteAll p bs) s =
     (case s p of None \<Rightarrow> s | Some f \<Rightarrow> s(p \<mapsto> f\<lparr>ff_contents := ff_contents f @ bs\<rparr>))"
| "fs_apply (FlushFile p) s = s"
| "fs_apply (SyncAll p) s = s"
| "fs_apply (SetMode p m) s = (case s p of None \<Rightarrow> s | Some f \<Rightarrow> s(p \<mapsto> f\<lparr>ff_mode := m\<rparr>))"
| "fs_apply (RenameFile p q) s = (case s p of None \<Rightarrow> s | Some f \<Rightarrow> s(p := None, q \<mapsto> f))"
| "fs_apply (RemoveFile p) s = s(p := None)"

text \<open>A failed call changes nothing, except that a failed write may have written a part.\<close>

record fs_faults =
  fl_error :: "fs_call \<Rightarrow> io_error option"
  fl_partial :: nat

definition fs_fail :: "fs_faults \<Rightarrow> fs_call \<Rightarrow> fs \<Rightarrow> fs" where
  "fs_fail F c s = (case c of WriteAll p bs \<Rightarrow> fs_apply (WriteAll p (take (fl_partial F) bs)) s | _ \<Rightarrow> s)"

text \<open>The calls in order up to the first failure, with every state on the way.\<close>

fun fs_run :: "fs_faults \<Rightarrow> fs_call list \<Rightarrow> fs \<Rightarrow> fs list \<times> io_error option" where
  "fs_run F [] s = ([], None)"
| "fs_run F (c # cs) s =
     (case fl_error F c of
        Some e \<Rightarrow> ([fs_fail F c s], Some e)
      | None \<Rightarrow> let (states, r) = fs_run F cs (fs_apply c s) in (fs_apply c s # states, r))"

definition final :: "fs \<Rightarrow> fs list \<Rightarrow> fs" where
  "final s states = (if states = [] then s else last states)"

subsection \<open>Private files\<close>

definition name_or_default :: "str \<Rightarrow> str" where
  "name_or_default p = (case path_file_name p of Some n \<Rightarrow> n | None \<Rightarrow> lit ''aether.toml'')"

definition temporary_path :: "nat \<Rightarrow> str \<Rightarrow> str" where
  "temporary_path pid path =
     set_file_name path (lit ''.'' @ name_or_default path @ lit ''.'' @ show_nat pid @ lit ''.tmp'')"

definition write_calls :: "nat \<Rightarrow> str \<Rightarrow> str \<Rightarrow> fs_call list" where
  "write_calls pid path contents =
     (let t = temporary_path pid path in
      [OpenPrivate t, WriteAll t (utf8_encode contents), FlushFile t, SyncAll t, SetMode t owner_only, RenameFile t path])"

text \<open>\<open>write_private\<close>: the states on the way and the result.\<close>

definition write_private :: "fs_faults \<Rightarrow> nat \<Rightarrow> str \<Rightarrow> str \<Rightarrow> fs \<Rightarrow> fs list \<times> unit result" where
  "write_private F pid path contents s =
     (let directory = (case path_parent path of Some d \<Rightarrow> if d = [] then [] else [CreateDirAll d] | None \<Rightarrow> []);
          (made, r) = fs_run F directory s in
      case r of
        Some e \<Rightarrow> (made, Inl (Io e))
      | None \<Rightarrow>
          let (written, r) = fs_run F (write_calls pid path contents) (final s made) in
          (case r of
             None \<Rightarrow> (made @ written, Inr ())
           | Some e \<Rightarrow>
               let (removed, _) = fs_run F [RemoveFile (temporary_path pid path)] (final s (made @ written)) in
               (made @ written @ removed, Inl (Io e))))"

subsection \<open>The identity file\<close>

record persisted_identity =
  pi_device_id :: str
  pi_access_token :: str
  pi_cert_pem :: str
  pi_key_pem :: str
  pi_cert_issued_at :: u64
  pi_ipv4 :: str
  pi_ipv6 :: str
  pi_wg_private_key :: str
  pi_wg_peer_public_key :: str
  pi_client_id :: str
  pi_organization :: str
  pi_gateway_proxy :: str
  pi_assigned_endpoint :: str

record codecs =
  cd_b64_encode :: "bytes \<Rightarrow> str"
  cd_b64_decode :: "str \<Rightarrow> str + bytes"
  cd_toml_encode :: "persisted_identity \<Rightarrow> str + str"
  cd_toml_decode :: "str \<Rightarrow> str + persisted_identity"

definition persisted_from :: "codecs \<Rightarrow> identity \<Rightarrow> persisted_identity" where
  "persisted_from D i =
     \<lparr>pi_device_id = id_device i, pi_access_token = id_token i,
      pi_cert_pem = from_utf8_lossy (id_cert_pem i), pi_key_pem = from_utf8_lossy (id_key_pem i),
      pi_cert_issued_at = id_cert_issued_at i, pi_ipv4 = id_ipv4 i, pi_ipv6 = id_ipv6 i,
      pi_wg_private_key = cd_b64_encode D (id_wg_private_key i),
      pi_wg_peer_public_key = cd_b64_encode D (id_wg_peer_public_key i),
      pi_client_id = cd_b64_encode D (id_client_id i), pi_organization = id_organization i,
      pi_gateway_proxy = id_gateway_proxy i, pi_assigned_endpoint = id_assigned_endpoint i\<rparr>"

definition decode_fixed :: "codecs \<Rightarrow> nat \<Rightarrow> str \<Rightarrow> str \<Rightarrow> bytes result" where
  "decode_fixed D n field text =
     (case cd_b64_decode D text of
        Inl e \<Rightarrow> Inl (Other (lit ''config field '' @ field @ lit '' is not valid base64: '' @ e))
      | Inr decoded \<Rightarrow>
          if length decoded \<noteq> n then
            Inl (Other (lit ''config field '' @ field @ lit '' must decode to '' @ show_nat n @ lit '' bytes, found ''
              @ show_nat (length decoded)))
          else Inr decoded)"

definition identity_try_from :: "codecs \<Rightarrow> persisted_identity \<Rightarrow> identity result" where
  "identity_try_from D p =
     (case decode_fixed D 32 (lit ''wg_private_key'') (pi_wg_private_key p) of
        Inl e \<Rightarrow> Inl e
      | Inr private \<Rightarrow>
          (case decode_fixed D 32 (lit ''wg_peer_public_key'') (pi_wg_peer_public_key p) of
             Inl e \<Rightarrow> Inl e
           | Inr public \<Rightarrow>
               let client = (if pi_client_id p = [] then [0, 0, 0]
                 else case decode_fixed D 3 (lit ''client_id'') (pi_client_id p) of Inl _ \<Rightarrow> [0, 0, 0] | Inr c \<Rightarrow> c) in
               Inr \<lparr>id_device = pi_device_id p, id_token = pi_access_token p,
                    id_cert_pem = utf8_encode (pi_cert_pem p), id_key_pem = utf8_encode (pi_key_pem p),
                    id_cert_issued_at = pi_cert_issued_at p, id_ipv4 = pi_ipv4 p, id_ipv6 = pi_ipv6 p,
                    id_wg_private_key = private, id_wg_peer_public_key = public, id_client_id = client,
                    id_organization = pi_organization p, id_gateway_proxy = pi_gateway_proxy p,
                    id_assigned_endpoint = pi_assigned_endpoint p, id_refused = False\<rparr>))"

definition quarantine_path :: "str \<Rightarrow> str" where
  "quarantine_path path = set_file_name path (name_or_default path @ lit ''.corrupt'')"

definition quarantine :: "fs_faults \<Rightarrow> str \<Rightarrow> fs \<Rightarrow> fs \<times> str option" where
  "quarantine F path s =
     (case fl_error F (RenameFile path (quarantine_path path)) of
        None \<Rightarrow> (fs_apply (RenameFile path (quarantine_path path)) s, Some (quarantine_path path))
      | Some _ \<Rightarrow> (s, None))"

text \<open>Reading a file as text: an unreadable file or invalid UTF-8 is an I/O error.\<close>

definition read_to_string :: "(str \<Rightarrow> io_error option) \<Rightarrow> str \<Rightarrow> fs \<Rightarrow> io_error + str" where
  "read_to_string unreadable path s =
     (case unreadable path of
        Some e \<Rightarrow> Inl e
      | None \<Rightarrow>
          (case s path of
             None \<Rightarrow> Inl \<lparr>io_kind = OtherKind, raw_os_error = Some 2\<rparr>
           | Some f \<Rightarrow>
               (case from_utf8 (ff_contents f) of
                  None \<Rightarrow> Inl \<lparr>io_kind = InvalidData, raw_os_error = None\<rparr>
                | Some t \<Rightarrow> Inr t)))"

definition set_aside :: "fs_faults \<Rightarrow> str \<Rightarrow> str \<Rightarrow> fs \<Rightarrow> fs \<times> aether_error" where
  "set_aside F path what s =
     (let (s', moved) = quarantine F path s in
      (s', Other (case moved of
         Some target \<Rightarrow> what @ lit ''; the damaged file was moved to '' @ target @ lit '' so a fresh identity can be provisioned''
       | None \<Rightarrow> what @ lit ''; delete '' @ path @ lit '' to provision a fresh identity'')))"

definition config_load ::
  "codecs \<Rightarrow> fs_faults \<Rightarrow> (io_error \<Rightarrow> str) \<Rightarrow> (str \<Rightarrow> io_error option) \<Rightarrow> str \<Rightarrow> fs \<Rightarrow> fs \<times> identity option result" where
  "config_load D F show_io unreadable path s =
     (if s path = None then (s, Inr None)
      else case read_to_string unreadable path s of
        Inl e \<Rightarrow> (s, Inl (Io e))
      | Inr text \<Rightarrow>
          (case cd_toml_decode D text of
             Inl e \<Rightarrow> map_prod id Inl (set_aside F path (lit ''config parse: '' @ e) s)
           | Inr persisted \<Rightarrow>
               (case identity_try_from D persisted of
                  Inr i \<Rightarrow> (s, Inr (Some i))
                | Inl e \<Rightarrow> map_prod id Inl (set_aside F path (show_error show_io e) s))))"

definition config_save :: "codecs \<Rightarrow> fs_faults \<Rightarrow> nat \<Rightarrow> str \<Rightarrow> identity \<Rightarrow> fs \<Rightarrow> fs list \<times> unit result" where
  "config_save D F pid path i s =
     (case cd_toml_encode D (persisted_from D i) of
        Inl e \<Rightarrow> ([], Inl (Other (lit ''config encode: '' @ e)))
      | Inr text \<Rightarrow> write_private F pid path text s)"

definition save_masque_creds ::
  "codecs \<Rightarrow> fs_faults \<Rightarrow> (str \<Rightarrow> io_error option) \<Rightarrow> nat \<Rightarrow> str \<Rightarrow> bytes \<Rightarrow> bytes \<Rightarrow> u64 \<Rightarrow> fs \<Rightarrow> fs list \<times> unit result" where
  "save_masque_creds D F unreadable pid path cert key issued s =
     (if s path = None then ([], Inr ())
      else case read_to_string unreadable path s of
        Inl e \<Rightarrow> ([], Inl (Io e))
      | Inr text \<Rightarrow>
          (case cd_toml_decode D text of
             Inl e \<Rightarrow> ([], Inl (Other (lit ''config parse: '' @ e)))
           | Inr persisted \<Rightarrow>
               (case cd_toml_encode D (persisted\<lparr>pi_cert_pem := from_utf8_lossy cert, pi_key_pem := from_utf8_lossy key,
                      pi_cert_issued_at := issued\<rparr>) of
                  Inl e \<Rightarrow> ([], Inl (Other (lit ''config encode: '' @ e)))
                | Inr updated \<Rightarrow> write_private F pid path updated s)))"

subsection \<open>The last connection\<close>

record last_connection =
  lc_peer :: str
  lc_profile :: str

record lastconn_codec =
  lcd_encode :: "last_connection \<Rightarrow> str + str"
  lcd_decode :: "str \<Rightarrow> str + last_connection"

definition lastconn_load ::
  "lastconn_codec \<Rightarrow> (str \<Rightarrow> io_error option) \<Rightarrow> str \<Rightarrow> fs \<Rightarrow> last_connection option" where
  "lastconn_load D unreadable path s =
     (case read_to_string unreadable path s of
        Inl _ \<Rightarrow> None
      | Inr text \<Rightarrow> (case lcd_decode D text of Inl _ \<Rightarrow> None | Inr c \<Rightarrow> Some c))"

text \<open>\<open>std::fs::write\<close> truncates the file and writes it in place; \<open>mode\<close> is that of a new file.\<close>

definition lastconn_save :: "lastconn_codec \<Rightarrow> fs_faults \<Rightarrow> nat \<Rightarrow> str \<Rightarrow> str \<Rightarrow> str \<Rightarrow> fs \<Rightarrow> fs list" where
  "lastconn_save D F mode path peer profile s =
     (case lcd_encode D \<lparr>lc_peer = peer, lc_profile = profile\<rparr> of
        Inl _ \<Rightarrow> []
      | Inr text \<Rightarrow>
          (case fl_error F (OpenPrivate path) of
             Some _ \<Rightarrow> [s]
           | None \<Rightarrow>
               let opened = s(path \<mapsto> \<lparr>ff_contents = [], ff_mode = (case s path of None \<Rightarrow> mode | Some f \<Rightarrow> ff_mode f)\<rparr>) in
               opened # fst (fs_run F [WriteAll path (utf8_encode text)] opened)))"

section \<open>Correctness\<close>

subsection \<open>Paths\<close>

lemma trim_path_plain: "p = [] \<or> last p \<notin> {46, 47} \<Longrightarrow> trim_path p = p"
proof -
  assume "p = [] \<or> last p \<notin> {46, 47}"
  then have "rev p = [] \<or> hd (rev p) \<notin> {46, 47}" by (simp add: hd_rev)
  then have "trim_path_rev (rev p) = rev p" by (cases "rev p" rule: trim_path_rev.cases) auto
  then show ?thesis by (simp add: trim_path_def)
qed

lemma file_name_pushed:
  assumes "x \<noteq> []" "47 \<notin> set x" "last x \<notin> {46, 47}"
  shows "path_file_name (path_push d x) = Some x"
proof -
  have "snd (path_parts (path_push d x)) = x"
  proof (cases "d = []")
    case True
    then show ?thesis using assms by (simp add: path_push_def path_parts_def trim_path_plain rsplit_once_None [THEN iffD2])
  next
    case False
    from False obtain ys y where y: "d = ys @ [y]" by (cases d rule: rev_cases) auto
    have "path_push d x = (if y = 47 then ys else d) @ 47 # x" by (simp add: path_push_def y)
    then obtain d' where d': "path_push d x = d' @ 47 # x" by blast
    have "trim_path (path_push d x) = path_push d x"
      using assms by (intro trim_path_plain) (simp add: d')
    moreover have "rsplit_once 47 (path_push d x) = Some (d', x)"
      using assms d' by (simp add: rsplit_once_Some)
    ultimately show ?thesis by (simp add: path_parts_def)
  qed
  moreover have "x \<noteq> [46]" "x \<noteq> [46, 46]" using assms by auto
  ultimately show ?thesis using assms(1) by (simp add: path_file_name_def)
qed

lemma file_name_no_slash: "path_file_name p = Some n \<Longrightarrow> 47 \<notin> set n \<and> n \<noteq> []"
  by (auto simp: path_file_name_def path_parts_def Let_def rsplit_once_None rsplit_once_Some
      split: option.split_asm if_splits)

lemma show_nat_no_slash: "47 \<notin> set (show_nat n)"
  using show_nat_digits [of n] by (auto simp: list_all_iff is_digit_def)

lemma renamed_differs:
  assumes "path_file_name path = Some n" "47 \<notin> set x" "x \<noteq> n" "x \<noteq> []" "last x \<notin> {46, 47}"
  shows "set_file_name path x \<noteq> path"
proof
  assume eq: "set_file_name path x = path"
  have "path_file_name (set_file_name path x) = Some x"
    using assms by (simp add: set_file_name_def file_name_pushed)
  with eq assms show False by simp
qed

lemma temporary_differs: "path_file_name path = Some n \<Longrightarrow> temporary_path pid path \<noteq> path"
  unfolding temporary_path_def
proof (rule renamed_differs)
  assume n: "path_file_name path = Some n"
  show "path_file_name path = Some n" by (rule n)
  show "47 \<notin> set (lit ''.'' @ name_or_default path @ lit ''.'' @ show_nat pid @ lit ''.tmp'')"
    using n file_name_no_slash [OF n] show_nat_no_slash by (auto simp: name_or_default_def)
  have "length (lit ''.'' @ name_or_default path @ lit ''.'' @ show_nat pid @ lit ''.tmp'') > length n"
    using n by (simp add: name_or_default_def)
  then show "lit ''.'' @ name_or_default path @ lit ''.'' @ show_nat pid @ lit ''.tmp'' \<noteq> n" by auto
qed simp_all

lemma quarantine_differs: "path_file_name path = Some n \<Longrightarrow> quarantine_path path \<noteq> path"
  unfolding quarantine_path_def
proof (rule renamed_differs)
  assume n: "path_file_name path = Some n"
  show "path_file_name path = Some n" by (rule n)
  show "47 \<notin> set (name_or_default path @ lit ''.corrupt'')" "name_or_default path @ lit ''.corrupt'' \<noteq> n"
    using n file_name_no_slash [OF n] by (auto simp: name_or_default_def)
qed simp_all

subsection \<open>Atomic writes\<close>

fun touched :: "fs_call \<Rightarrow> str set" where
  "touched (OpenPrivate p) = {p}"
| "touched (WriteAll p bs) = {p}"
| "touched (SetMode p m) = {p}"
| "touched (RenameFile p q) = {p, q}"
| "touched (RemoveFile p) = {p}"
| "touched _ = {}"

lemma fs_apply_frame: "p \<notin> touched c \<Longrightarrow> fs_apply c s p = s p"
  by (cases c) (auto split: option.splits)

lemma fs_fail_frame: "p \<notin> touched c \<Longrightarrow> fs_fail F c s p = s p"
  by (cases c) (auto simp: fs_fail_def split: option.splits)

lemma fs_run_frame: "\<forall>c\<in>set cs. p \<notin> touched c \<Longrightarrow> st \<in> set (fst (fs_run F cs s)) \<Longrightarrow> st p = s p"
  by (induction cs arbitrary: s) (auto simp: split_beta fs_apply_frame fs_fail_frame split: option.splits)

lemma fs_run_append:
  "fs_run F (as @ bs) s =
     (case snd (fs_run F as s) of
        Some e \<Rightarrow> (fst (fs_run F as s), Some e)
      | None \<Rightarrow> (fst (fs_run F as s) @ fst (fs_run F bs (final s (fst (fs_run F as s)))),
                 snd (fs_run F bs (final s (fst (fs_run F as s))))))"
  by (induction as arbitrary: s) (auto simp: split_beta final_def split: option.splits)

lemma final_append: "final s (a @ b) = final (final s a) b"
  by (simp add: final_def)

lemma final_in: "final s states = s \<or> final s states \<in> set states"
  by (simp add: final_def)

lemma fs_run_ok: "snd (fs_run F cs s) = None \<Longrightarrow> final s (fst (fs_run F cs s)) = fold fs_apply cs s"
proof (induction cs arbitrary: s)
  case (Cons c cs)
  then have "fl_error F c = None" "snd (fs_run F cs (fs_apply c s)) = None"
    by (auto simp: split_beta split: option.splits)
  with Cons.IH [of "fs_apply c s"] show ?case by (simp add: split_beta final_def split: if_splits)
qed (simp add: final_def)

definition private_file :: "str \<Rightarrow> fs_file" where
  "private_file contents = \<lparr>ff_contents = utf8_encode contents, ff_mode = owner_only\<rparr>"

text \<open>The calls up to the renaming, which is the only one that touches the target.\<close>

definition prepare_calls :: "nat \<Rightarrow> str \<Rightarrow> str \<Rightarrow> fs_call list" where
  "prepare_calls pid path contents =
     (let t = temporary_path pid path in
      [OpenPrivate t, WriteAll t (utf8_encode contents), FlushFile t, SyncAll t, SetMode t owner_only])"

lemma write_calls_split:
  "write_calls pid path contents = prepare_calls pid path contents @ [RenameFile (temporary_path pid path) path]"
  by (simp add: write_calls_def prepare_calls_def Let_def)

lemma prepare_frame: "p \<noteq> temporary_path pid path \<Longrightarrow> \<forall>c\<in>set (prepare_calls pid path contents). p \<notin> touched c"
  by (simp add: prepare_calls_def Let_def)

lemma prepared: "fold fs_apply (prepare_calls pid path contents) s (temporary_path pid path) = Some (private_file contents)"
  by (simp add: prepare_calls_def Let_def private_file_def)

lemma write_run:
  assumes "temporary_path pid path \<noteq> path" and run_def: "run = fs_run F (write_calls pid path contents) s"
  shows "st \<in> set (fst run) \<Longrightarrow> st path = s path \<or> st path = Some (private_file contents)"
    and "st \<in> set (fst run) \<Longrightarrow> p \<notin> {path, temporary_path pid path} \<Longrightarrow> st p = s p"
    and "snd run = None \<Longrightarrow> final s (fst run) path = Some (private_file contents)
      \<and> final s (fst run) (temporary_path pid path) = None"
    and "snd run \<noteq> None \<Longrightarrow> final s (fst run) path = s path"
proof -
  let ?t = "temporary_path pid path" and ?pre = "prepare_calls pid path contents"
  define m where "m = final s (fst (fs_run F ?pre s))"
  have before: "st path = s path" if "st \<in> set (fst (fs_run F ?pre s))" for st
    using that fs_run_frame [OF prepare_frame] assms(1) by metis
  have m_path: "m path = s path" using final_in [of s "fst (fs_run F ?pre s)"] before by (auto simp: m_def)
  have m_t: "m ?t = Some (private_file contents)" if "snd (fs_run F ?pre s) = None"
    using fs_run_ok [OF that] prepared by (simp add: m_def)
  have other: "st p = s p" if "st \<in> set (fst (fs_run F ?pre s))" "p \<noteq> ?t" for st p
    using that fs_run_frame [OF prepare_frame] by metis
  have m_other: "m p = s p" if "p \<noteq> ?t" for p
    using final_in [of s "fst (fs_run F ?pre s)"] other that by (auto simp: m_def)
  have run: "run = (case snd (fs_run F ?pre s) of
      Some e \<Rightarrow> (fst (fs_run F ?pre s), Some e)
    | None \<Rightarrow> (case fl_error F (RenameFile ?t path) of
        Some e \<Rightarrow> (fst (fs_run F ?pre s) @ [m], Some e)
      | None \<Rightarrow> (fst (fs_run F ?pre s) @ [m(?t := None, path \<mapsto> private_file contents)], None)))"
    unfolding run_def write_calls_split fs_run_append m_def [symmetric]
    by (auto simp: fs_fail_def m_t split: option.splits)
  show "st \<in> set (fst run) \<Longrightarrow> st path = s path \<or> st path = Some (private_file contents)"
    by (auto simp: run before m_path split: option.split_asm)
  show "st \<in> set (fst run) \<Longrightarrow> p \<notin> {path, ?t} \<Longrightarrow> st p = s p"
    by (auto simp: run other m_other split: option.split_asm)
  show "snd run = None \<Longrightarrow> final s (fst run) path = Some (private_file contents) \<and> final s (fst run) ?t = None"
    using assms(1) by (auto simp: run final_def split: option.split_asm)
  show "snd run \<noteq> None \<Longrightarrow> final s (fst run) path = s path"
    using m_path by (auto simp: run final_append m_def [symmetric] split: option.split_asm) (simp add: final_def m_path)
qed

text \<open>A private file is written atomically.\<close>

lemma private_write_atomic:
  assumes "path_file_name path = Some n" "write_private F pid path contents s = (states, result)"
  shows "(\<forall>st\<in>set states. (st path = s path \<or> st path = Some (private_file contents))
        \<and> (\<forall>p. p \<notin> {path, temporary_path pid path} \<longrightarrow> st p = s p))
    \<and> (case result of
        Inr _ \<Rightarrow> final s states path = Some (private_file contents) \<and> final s states (temporary_path pid path) = None
      | Inl _ \<Rightarrow> final s states path = s path)"
proof -
  let ?t = "temporary_path pid path"
  have t: "?t \<noteq> path" using assms(1) by (rule temporary_differs)
  define dir where "dir = (case path_parent path of Some d \<Rightarrow> if d = [] then [] else [CreateDirAll d] | None \<Rightarrow> [])"
  have made: "\<forall>st\<in>set (fst (fs_run F dir s)). st = s"
    by (auto simp: dir_def fs_fail_def split: option.splits)
  then have s: "final s (fst (fs_run F dir s)) = s" using final_in [of s "fst (fs_run F dir s)"] by auto
  have unfolded: "write_private F pid path contents s =
      (case snd (fs_run F dir s) of
         Some e \<Rightarrow> (fst (fs_run F dir s), Inl (Io e))
       | None \<Rightarrow> (case snd (fs_run F (write_calls pid path contents) s) of
           None \<Rightarrow> (fst (fs_run F dir s) @ fst (fs_run F (write_calls pid path contents) s), Inr ())
         | Some e \<Rightarrow> (fst (fs_run F dir s) @ fst (fs_run F (write_calls pid path contents) s)
             @ fst (fs_run F [RemoveFile ?t] (final s (fst (fs_run F (write_calls pid path contents) s)))), Inl (Io e))))"
    unfolding write_private_def dir_def [symmetric] Let_def split_beta final_append s by (simp split: option.splits)
  define run where "run = fs_run F (write_calls pid path contents) s"
  note W = write_run [OF t run_def]
  show ?thesis
  proof (cases "snd (fs_run F dir s)")
    case (Some e)
    with assms(2) unfolded have "states = fst (fs_run F dir s)" "result = Inl (Io e)" by simp_all
    with made s show ?thesis by auto
  next
    case None
    note ok = None
    show ?thesis
    proof (cases "snd run")
      case None
      then have "states = fst (fs_run F dir s) @ fst run" "result = Inr ()"
        using assms(2) ok unfolded by (simp_all add: run_def)
      with made s W None show ?thesis by (auto simp: final_append)
    next
      case (Some e)
      let ?m = "final s (fst run)"
      let ?rm = "fst (fs_run F [RemoveFile ?t] ?m)"
      have st: "states = fst (fs_run F dir s) @ fst run @ ?rm" "result = Inl (Io e)"
        using assms(2) ok unfolded Some by (simp_all add: run_def)
      have m: "?m path = s path" using W(4) Some by simp
      have m_other: "p \<notin> {path, ?t} \<Longrightarrow> ?m p = s p" for p
        using W(2) final_in [of s "fst run"] by metis
      have rm: "st \<in> set ?rm \<Longrightarrow> p \<noteq> ?t \<Longrightarrow> st p = ?m p" for st p
        by (rule fs_run_frame [of "[RemoveFile ?t]" p]) auto
      have fin: "final ?m ?rm path = s path" using final_in [of ?m ?rm] rm t m by metis
      with st s W(1,2) m m_other rm t made show ?thesis by (auto simp: final_append)
    qed
  qed
qed

definition no_faults :: fs_faults where
  "no_faults = \<lparr>fl_error = (\<lambda>_. None), fl_partial = 0\<rparr>"

text \<open>
  What replacing a file in one step means, for a run of the calls: whatever fails, and wherever the program is
  stopped between two calls, the path holds the old file or the new one with exactly these bytes and the
  bits 0600; no other file but the temporary one is touched, and one that was not there before is never open
  to others; success means that the new file is in place and the temporary one gone, failure that the
  old file is still there; and a run in which no call fails succeeds.
\<close>

definition replaced_atomically :: "fs_faults \<Rightarrow> str \<Rightarrow> str \<Rightarrow> bytes \<Rightarrow> fs \<Rightarrow> fs list \<times> unit result \<Rightarrow> bool" where
  "replaced_atomically F path t bs s run \<longleftrightarrow>
     (let (states, result) = run; new = Some \<lparr>ff_contents = bs, ff_mode = owner_only\<rparr> in
      (\<forall>st\<in>set states. st path \<in> {s path, new} \<and> (\<forall>p. p \<notin> {path, t} \<longrightarrow> st p = s p)
        \<and> (s t = None \<longrightarrow> (\<forall>f. st t = Some f \<longrightarrow> ff_mode f = owner_only)))
      \<and> (if result = Inr () then final s states path = new \<and> final s states t = None
         else final s states path = s path)
      \<and> ((\<forall>c. fl_error F c = None) \<longrightarrow> result = Inr ()))"

text \<open>A call on a path that is private or absent leaves it so, except for a renaming.\<close>

definition guarded :: "str \<Rightarrow> fs \<Rightarrow> bool" where
  "guarded t s \<longleftrightarrow> (\<forall>f. s t = Some f \<longrightarrow> ff_mode f = owner_only)"

definition keeps_guard :: "str \<Rightarrow> fs_call \<Rightarrow> bool" where
  "keeps_guard t c \<longleftrightarrow> (case c of SetMode p m \<Rightarrow> p = t \<longrightarrow> m = owner_only | RenameFile p q \<Rightarrow> q \<noteq> t | _ \<Rightarrow> True)"

lemma guard_kept: "keeps_guard t c \<Longrightarrow> guarded t s \<Longrightarrow> guarded t (fs_apply c s) \<and> guarded t (fs_fail F c s)"
  by (cases c) (auto simp: keeps_guard_def guarded_def fs_fail_def split: option.splits)

lemma guard_run: "\<forall>c\<in>set cs. keeps_guard t c \<Longrightarrow> guarded t s \<Longrightarrow> \<forall>st\<in>set (fst (fs_run F cs s)). guarded t st"
proof (induction cs arbitrary: s)
  case (Cons c cs)
  then have "keeps_guard t c" "\<forall>c\<in>set cs. keeps_guard t c" by simp_all
  moreover from this(1) Cons.prems(2) have "guarded t (fs_apply c s)" "guarded t (fs_fail F c s)" by (simp_all add: guard_kept)
  ultimately show ?case using Cons.IH [of "fs_apply c s"] by (cases "fl_error F c") (simp_all add: split_beta)
qed simp

lemma guard_final: "guarded t s \<Longrightarrow> \<forall>st\<in>set states. guarded t st \<Longrightarrow> guarded t (final s states)"
  using final_in [of s states] by metis

lemma no_fault_run: "\<forall>c. fl_error F c = None \<Longrightarrow> snd (fs_run F cs s) = None"
  by (induction cs arbitrary: s) (simp_all add: split_beta)

lemma write_guarded:
  assumes "temporary_path pid path \<noteq> path" "guarded (temporary_path pid path) s"
  shows "\<forall>st\<in>set (fst (write_private F pid path contents s)). guarded (temporary_path pid path) st"
proof -
  let ?t = "temporary_path pid path"
  have G: "\<forall>st\<in>set (fst (fs_run F cs s')). guarded ?t st" if "\<forall>c\<in>set cs. keeps_guard ?t c" "guarded ?t s'" for cs s'
    using that by (rule guard_run)
  have calls: "\<forall>c\<in>set (write_calls pid path contents). keeps_guard ?t c" "keeps_guard ?t (RemoveFile ?t)"
      "keeps_guard ?t (CreateDirAll d)" for d
    using assms(1) by (auto simp: write_calls_def Let_def keeps_guard_def)
  define dir where "dir = (case path_parent path of Some d \<Rightarrow> if d = [] then [] else [CreateDirAll d] | None \<Rightarrow> [])"
  define s1 where "s1 = final s (fst (fs_run F dir s))"
  define w where "w = fst (fs_run F (write_calls pid path contents) s1)"
  have D: "\<forall>st\<in>set (fst (fs_run F dir s)). guarded ?t st"
    using calls(3) assms(2) by (intro G) (auto simp: dir_def split: option.splits)
  then have s1: "guarded ?t s1" using assms(2) guard_final by (simp add: s1_def)
  have Wg: "\<forall>st\<in>set w. guarded ?t st" unfolding w_def using calls(1) s1 by (rule G)
  then have "guarded ?t (final s1 w)" using s1 guard_final by blast
  then have R: "\<forall>st\<in>set (fst (fs_run F [RemoveFile ?t] (final s1 w))). guarded ?t st" using calls(2) by (intro G) auto
  have "set (fst (write_private F pid path contents s))
      \<subseteq> set (fst (fs_run F dir s)) \<union> set w \<union> set (fst (fs_run F [RemoveFile ?t] (final s1 w)))"
    unfolding write_private_def dir_def [symmetric] Let_def split_beta final_append s1_def [symmetric] w_def [symmetric]
    by (auto simp del: fs_run.simps split: option.splits)
  with D Wg R show ?thesis by blast
qed

lemma write_replaces:
  assumes "path_file_name path = Some n"
  shows "replaced_atomically F path (temporary_path pid path) (utf8_encode text) s (write_private F pid path text s)"
proof -
  obtain states result where run: "write_private F pid path text s = (states, result)" by fastforce
  have g: "s (temporary_path pid path) = None \<longrightarrow> (\<forall>st\<in>set states. guarded (temporary_path pid path) st)"
    using write_guarded [OF temporary_differs [OF assms], of pid s F "text"] by (simp add: run guarded_def)
  have ok: "(\<forall>c. fl_error F c = None) \<longrightarrow> result = Inr ()"
    using run no_fault_run [of F] by (auto simp add: write_private_def split_beta Let_def del: fs_run.simps)
  from private_write_atomic [OF assms run] g ok show ?thesis
    by (cases result) (simp_all add: replaced_atomically_def run private_file_def guarded_def)
qed

text \<open>The text the renewal of the certificate is to store: the file's own record with the three fields replaced.\<close>

definition renewed_text ::
  "codecs \<Rightarrow> (str \<Rightarrow> io_error option) \<Rightarrow> str \<Rightarrow> bytes \<Rightarrow> bytes \<Rightarrow> u64 \<Rightarrow> fs \<Rightarrow> str option" where
  "renewed_text D unreadable path cert key issued s = do {
     old \<leftarrow> (case read_to_string unreadable path s of Inr old \<Rightarrow> Some old | Inl _ \<Rightarrow> None);
     p \<leftarrow> (case cd_toml_decode D old of Inr p \<Rightarrow> Some p | Inl _ \<Rightarrow> None);
     case cd_toml_encode D (p\<lparr>pi_cert_pem := from_utf8_lossy cert, pi_key_pem := from_utf8_lossy key, pi_cert_issued_at := issued\<rparr>) of
       Inr text \<Rightarrow> Some text
     | Inl _ \<Rightarrow> None }"

text \<open>
  C20: Saving an identity replaces its file atomically by the encoding of exactly this identity: whatever system
  call fails, and wherever the program is stopped between two calls, the file at the path is the old one or
  the complete new one with the permission bits 0600; the temporary file, unless one of that name was left
  over, is never readable by others; success means that the new file is in place, failure that the old
  one is, and a save in which no call fails succeeds. An identity that cannot be encoded touches nothing.
  The renewal of the certificate replaces the file in the same way by its own record with the new
  certificate, key and time; without a file it does nothing, and a file that cannot be read, decoded or
  encoded again is an error and stays as it is.
\<close>

theorem identity_save_atomic:
  assumes "path_file_name path = Some n"
  shows "(case cd_toml_encode D (persisted_from D i) of
        Inr text \<Rightarrow> replaced_atomically F path (temporary_path pid path) (utf8_encode text) s (config_save D F pid path i s)
      | Inl e \<Rightarrow> config_save D F pid path i s = ([], Inl (Other (lit ''config encode: '' @ e))))
    \<and> (if s path = None then save_masque_creds D F unreadable pid path cert key issued s = ([], Inr ())
       else case renewed_text D unreadable path cert key issued s of
        Some text \<Rightarrow> replaced_atomically F path (temporary_path pid path) (utf8_encode text) s
          (save_masque_creds D F unreadable pid path cert key issued s)
      | None \<Rightarrow> \<exists>e. save_masque_creds D F unreadable pid path cert key issued s = ([], Inl e))"
  using write_replaces [OF assms]
  by (auto simp: config_save_def save_masque_creds_def renewed_text_def split: sum.split option.split)

text \<open>
  A temporary file that was left over with wider permission bits keeps them while the secrets are written into
  it, until the bits are set.
\<close>

lemma stale_temporary_exposed:
  assumes "path_file_name path = Some n" "\<forall>c. fl_error F c = None" "cd_toml_encode D (persisted_from D i) = Inr text"
    and "s (temporary_path pid path) = Some f"
  shows "\<exists>st\<in>set (fst (config_save D F pid path i s)).
      st (temporary_path pid path) = Some \<lparr>ff_contents = utf8_encode text, ff_mode = ff_mode f\<rparr>"
proof -
  let ?t = "temporary_path pid path"
  define dir where "dir = (case path_parent path of Some d \<Rightarrow> if d = [] then [] else [CreateDirAll d] | None \<Rightarrow> [])"
  have made: "\<forall>st\<in>set (fst (fs_run F dir s)). st = s"
    by (auto simp: dir_def fs_fail_def split: option.splits)
  then have s: "final s (fst (fs_run F dir s)) = s" using final_in [of s "fst (fs_run F dir s)"] by auto
  let ?st = "fs_apply (WriteAll ?t (utf8_encode text)) (fs_apply (OpenPrivate ?t) s)"
  have "?st \<in> set (fst (fs_run F (write_calls pid path text) s))"
    using assms(2) by (simp add: write_calls_def Let_def split_beta)
  then have "?st \<in> set (fst (config_save D F pid path i s))"
    using assms(3) no_fault_run [OF assms(2)] s
    by (simp add: config_save_def write_private_def dir_def [symmetric] split_beta Let_def del: fs_run.simps fs_apply.simps)
  moreover have "?st ?t = Some \<lparr>ff_contents = utf8_encode text, ff_mode = ff_mode f\<rparr>" using assms(4) by simp
  ultimately show ?thesis by blast
qed

subsection \<open>The identity file\<close>

lemma decode_fixed_ok: "cd_b64_decode D t = Inr k \<Longrightarrow> length k = n \<Longrightarrow> decode_fixed D n field t = Inr k"
  by (simp add: decode_fixed_def)

text \<open>What TOML and base64 promise for one identity: what they write, they read back.\<close>

definition codecs_agree :: "codecs \<Rightarrow> identity \<Rightarrow> str \<Rightarrow> bool" where
  "codecs_agree D i text \<longleftrightarrow>
     cd_toml_encode D (persisted_from D i) = Inr text \<and> cd_toml_decode D text = Inr (persisted_from D i) \<and> list_all scalar text
     \<and> (\<forall>k\<in>{id_wg_private_key i, id_wg_peer_public_key i, id_client_id i}.
          cd_b64_decode D (cd_b64_encode D k) = Inr k \<and> cd_b64_encode D k \<noteq> [])"

definition utf8_text :: "bytes \<Rightarrow> bool" where
  "utf8_text bs \<longleftrightarrow> (\<exists>t. list_all scalar t \<and> bs = utf8_encode t)"

lemma lossy_utf8_text: "utf8_text bs \<Longrightarrow> utf8_encode (from_utf8_lossy bs) = bs"
  by (auto simp: utf8_text_def utf8_roundtrip)

lemma persisted_roundtrip:
  assumes "codecs_agree D i text" "wf_identity i" "utf8_text (id_cert_pem i)" "utf8_text (id_key_pem i)"
  shows "identity_try_from D (persisted_from D i) = Inr (i\<lparr>id_refused := False\<rparr>)"
  using assms
  by (simp add: identity_try_from_def persisted_from_def codecs_agree_def wf_identity_def decode_fixed_ok lossy_utf8_text)

text \<open>
  C34: An identity that was saved is loaded again with every field, apart from the mark of refusal, which is
  not stored; the file is readable by its owner only.
\<close>

theorem identity_file_roundtrip:
  assumes "codecs_agree D i text" "wf_identity i" "utf8_text (id_cert_pem i)" "utf8_text (id_key_pem i)"
    and "path_file_name path = Some n" "config_save D F pid path i s = (states, Inr ())" "unreadable path = None"
  shows "config_load D F' show_io unreadable path (final s states) = (final s states, Inr (Some (i\<lparr>id_refused := False\<rparr>)))
    \<and> map_option ff_mode (final s states path) = Some owner_only"
proof -
  have "write_private F pid path text s = (states, Inr ())"
    using assms(1,6) by (simp add: config_save_def codecs_agree_def)
  from private_write_atomic [OF assms(5) this] have stored: "final s states path = Some (private_file text)" by simp
  have "list_all scalar text" "cd_toml_decode D text = Inr (persisted_from D i)" using assms(1) by (auto simp: codecs_agree_def)
  with stored assms(7) persisted_roundtrip [OF assms(1-4)] show ?thesis
    by (simp add: config_load_def read_to_string_def private_file_def utf8_roundtrip)
qed

text \<open>An identity with codecs that serve it, for concrete runs.\<close>

definition demo_identity :: identity where
  "demo_identity =
     \<lparr>id_device = lit ''d'', id_token = lit ''t'', id_cert_pem = [67], id_key_pem = [75], id_cert_issued_at = 1700000000,
      id_ipv4 = lit ''172.16.0.2'', id_ipv6 = [], id_wg_private_key = clamp (replicate 32 1),
      id_wg_peer_public_key = replicate 32 2, id_client_id = [1, 2, 3], id_organization = [], id_gateway_proxy = [],
      id_assigned_endpoint = [], id_refused = True\<rparr>"

definition demo_codecs :: codecs where
  "demo_codecs =
     (let enc = (\<lambda>bs. 61 # map unat bs); dec = (\<lambda>t. Inr (map word_of_nat (tl t)));
          base = \<lparr>cd_b64_encode = enc, cd_b64_decode = dec, cd_toml_encode = (\<lambda>_. Inr (lit ''id'')), cd_toml_decode = (\<lambda>_. Inl [])\<rparr> in
      base\<lparr>cd_toml_decode := (\<lambda>_. Inr (persisted_from base demo_identity))\<rparr>)"

lemma demo_agrees: "codecs_agree demo_codecs demo_identity (lit ''id'')" "wf_identity demo_identity"
  "utf8_text (id_cert_pem demo_identity)" "utf8_text (id_key_pem demo_identity)"
proof -
  show "codecs_agree demo_codecs demo_identity (lit ''id'')"
    by (simp add: codecs_agree_def demo_codecs_def Let_def persisted_from_def scalar_def comp_def)
  show "wf_identity demo_identity"
    using clamp_bits [of "replicate 32 1"] by (simp add: wf_identity_def demo_identity_def)
  show "utf8_text (id_cert_pem demo_identity)"
    unfolding utf8_text_def by (rule exI [of _ "[67]"]) (simp add: demo_identity_def scalar_def utf8_encode_def utf8_char_def)
  show "utf8_text (id_key_pem demo_identity)"
    unfolding utf8_text_def by (rule exI [of _ "[75]"]) (simp add: demo_identity_def scalar_def utf8_encode_def utf8_char_def)
qed

lemma demo_path: "path_file_name (lit ''d/a.toml'') = Some (lit ''a.toml'')"
  by (simp add: path_file_name_def path_parts_def trim_path_def rsplit_once_def Let_def)

lemma demo_save: "\<exists>states. config_save demo_codecs no_faults 7 (lit ''d/a.toml'') demo_identity Map.empty = (states, Inr ()) \<and> states \<noteq> []"
proof -
  have ok: "snd (fs_run no_faults cs s) = None" for cs s
    by (induction cs arbitrary: s) (simp_all add: no_faults_def split_beta)
  then show ?thesis
    by (simp add: config_save_def demo_codecs_def Let_def write_private_def split_beta write_calls_def no_faults_def)
qed

theorem identity_save_atomic_witness:
  "\<exists>states. config_save demo_codecs no_faults 7 (lit ''d/a.toml'') demo_identity Map.empty = (states, Inr ())
      \<and> final Map.empty states (lit ''d/a.toml'') = Some \<lparr>ff_contents = [105, 100], ff_mode = owner_only\<rparr>"
proof -
  obtain states where run: "config_save demo_codecs no_faults 7 (lit ''d/a.toml'') demo_identity Map.empty = (states, Inr ())"
    using demo_save by blast
  have "cd_toml_encode demo_codecs (persisted_from demo_codecs demo_identity) = Inr (lit ''id'')"
    using demo_agrees(1) by (simp add: codecs_agree_def)
  moreover have "utf8_encode (lit ''id'') = [105, 100]" by (simp add: utf8_encode_def utf8_char_def)
  ultimately have "final Map.empty states (lit ''d/a.toml'') = Some \<lparr>ff_contents = [105, 100], ff_mode = owner_only\<rparr>"
    using identity_save_atomic [OF demo_path, where D = demo_codecs and i = demo_identity and F = no_faults and pid = 7 and s = Map.empty] run
    by (simp add: replaced_atomically_def Let_def del: lit_simps)
  with run show ?thesis by blast
qed

theorem identity_file_roundtrip_witness:
  "\<exists>states. config_load demo_codecs no_faults (\<lambda>_. []) (\<lambda>_. None) (lit ''d/a.toml'') (final Map.empty states)
      = (final Map.empty states, Inr (Some (demo_identity\<lparr>id_refused := False\<rparr>)))"
proof -
  obtain states where run: "config_save demo_codecs no_faults 7 (lit ''d/a.toml'') demo_identity Map.empty = (states, Inr ())"
    using demo_save by blast
  from identity_file_roundtrip [OF demo_agrees demo_path run, of "\<lambda>_. None" no_faults "\<lambda>_. []"] show ?thesis by auto
qed

text \<open>
  C35: A damaged identity file (no TOML, or keys that do not decode) is moved aside unchanged and reported,
  and the next load finds no identity, so that a fresh one can be provisioned. A file that is not UTF-8
  is not moved aside: every load fails with the same error.
\<close>

theorem damaged_identity_set_aside:
  assumes "path_file_name path = Some n" "s path = Some f" "unreadable path = None"
    and "fl_error F (RenameFile path (quarantine_path path)) = None"
  shows "case from_utf8 (ff_contents f) of
      Some text \<Rightarrow>
        (case cd_toml_decode D text of Inl _ \<Rightarrow> True | Inr p \<Rightarrow> \<exists>e. identity_try_from D p = Inl e)
        \<longrightarrow> (\<exists>s' why. config_load D F show_io unreadable path s = (s', Inl (Other why))
              \<and> s' = s(path := None, quarantine_path path \<mapsto> f)
              \<and> config_load D F show_io unreadable path s' = (s', Inr None))
    | None \<Rightarrow> config_load D F show_io unreadable path s = (s, Inl (Io \<lparr>io_kind = InvalidData, raw_os_error = None\<rparr>))"
proof (cases "from_utf8 (ff_contents f)")
  case None
  with assms show ?thesis by (simp add: config_load_def read_to_string_def)
next
  case (Some t)
  let ?s = "s(path := None, quarantine_path path \<mapsto> f)"
  have "?s path = None" using quarantine_differs [OF assms(1)] by simp
  then have again: "config_load D F show_io unreadable path ?s = (?s, Inr None)" by (simp add: config_load_def)
  have "\<exists>why. config_load D F show_io unreadable path s = (?s, Inl (Other why))"
    if "case cd_toml_decode D t of Inl _ \<Rightarrow> True | Inr p \<Rightarrow> \<exists>e. identity_try_from D p = Inl e"
    using that Some assms
    by (auto simp: config_load_def read_to_string_def set_aside_def quarantine_def Let_def split: sum.splits)
  with again Some show ?thesis by auto
qed

theorem damaged_identity_set_aside_witness:
  "\<exists>s' why. config_load (demo_codecs\<lparr>cd_toml_decode := (\<lambda>_. Inl [])\<rparr>) no_faults (\<lambda>_. []) (\<lambda>_. None) (lit ''d/a.toml'')
      [lit ''d/a.toml'' \<mapsto> \<lparr>ff_contents = [65], ff_mode = owner_only\<rparr>] = (s', Inl (Other why)) \<and> s' (lit ''d/a.toml'') = None"
proof -
  let ?f = "\<lparr>ff_contents = [65], ff_mode = owner_only\<rparr>"
  have "from_utf8 (ff_contents ?f) = Some [65]" by (simp add: from_utf8_def strict_ascii)
  moreover have "[lit ''d/a.toml'' \<mapsto> ?f] (lit ''d/a.toml'') = Some ?f" by simp
  moreover have "fl_error no_faults c = None" for c by (simp add: no_faults_def)
  ultimately show ?thesis
    using damaged_identity_set_aside [OF demo_path, of "[lit ''d/a.toml'' \<mapsto> ?f]" ?f "\<lambda>_. None" no_faults
        "demo_codecs\<lparr>cd_toml_decode := (\<lambda>_. Inl [])\<rparr>" "\<lambda>_. []"]
      quarantine_differs [OF demo_path]
    by (auto simp del: lit_simps)
qed

subsection \<open>The last connection\<close>

lemma lastconn_roundtrip:
  assumes "lcd_encode D \<lparr>lc_peer = peer, lc_profile = profile\<rparr> = Inr text" "lcd_decode D text = Inr \<lparr>lc_peer = peer, lc_profile = profile\<rparr>"
    and "list_all scalar text" "unreadable path = None"
  shows "lastconn_load D unreadable path (final s (lastconn_save D no_faults mode path peer profile s)) = Some \<lparr>lc_peer = peer, lc_profile = profile\<rparr>"
  using assms
  by (simp add: lastconn_load_def lastconn_save_def no_faults_def final_def read_to_string_def utf8_roundtrip Let_def)

text \<open>Unlike the identity, the last connection is written in place: a crash between truncation and writing leaves an empty file.\<close>

lemma lastconn_save_not_atomic:
  assumes "lcd_encode D \<lparr>lc_peer = peer, lc_profile = profile\<rparr> = Inr text" "s path = Some f"
  shows "\<exists>st\<in>set (lastconn_save D no_faults mode path peer profile s). map_option ff_contents (st path) = Some []"
  using assms by (simp add: lastconn_save_def no_faults_def Let_def)

end
