(* ===== verification/Zerotrust.thy ===== *)
theory Zerotrust
  imports Account
begin

text \<open>
  The sign-in to a Zero Trust organization (\<open>zerotrust.rs\<close>): the team settings, the reading of tokens out of
  pages, cookies and addresses, the token kept for the session, and the two ways to get a token. The
  web answers through parameters; base64 and JSON are those of the account service.
\<close>

section \<open>The model\<close>

subsection \<open>Settings\<close>

definition TEAM_SUFFIX :: str where "TEAM_SUFFIX = lit ''cloudflareaccess.com''"
definition ENROLL_PATH :: str where "ENROLL_PATH = lit ''/warp''"
definition CODE_ATTEMPTS :: nat where "CODE_ATTEMPTS = 3"
definition INSTALL_ID_LEN :: nat where "INSTALL_ID_LEN = 22"
definition FCM_SUFFIX_LEN :: nat where "FCM_SUFFIX_LEN = 134"
definition ALPHANUM :: str where "ALPHANUM = lit ''abcdefghijklmnopqrstuvwxyzABCDEFGHIJKLMNOPQRSTUVWXYZ0123456789''"

record team_settings =
  ts_team :: str
  ts_client_id :: "str option"
  ts_client_secret :: "str option"
  ts_token :: "str option"
  ts_email :: "str option"

definition strip_suffix :: "'a list \<Rightarrow> 'a list \<Rightarrow> 'a list option" where
  "strip_suffix p s = (if ends_with s p then Some (take (length s - length p) s) else None)"

definition or_self :: "('a \<Rightarrow> 'a option) \<Rightarrow> 'a \<Rightarrow> 'a" where
  "or_self f x = (case f x of Some y \<Rightarrow> y | None \<Rightarrow> x)"

definition team_char :: "nat \<Rightarrow> bool" where
  "team_char c \<longleftrightarrow> is_alnum c \<or> c = 45 \<or> c = 95"

definition normalize_team :: "unicode \<Rightarrow> str \<Rightarrow> str option" where
  "normalize_team U raw =
     (let v = to_lowercase U (trim raw) in
      if v = [] then None
      else
        let v = or_self (strip_prefix (lit ''http://'')) (or_self (strip_prefix (lit ''https://'')) v);
            v = trim_end_matches 47 v;
            v = (case split_on (\<lambda>c. c = 47) v of h # _ \<Rightarrow> h | [] \<Rightarrow> v);
            v = (case strip_suffix TEAM_SUFFIX v of Some head \<Rightarrow> trim_end_matches 46 head | None \<Rightarrow> v) in
        if v = [] then None
        else if \<not> list_all team_char v then None
        else Some v)"

definition non_empty_var :: "(str \<Rightarrow> str option) \<Rightarrow> str \<Rightarrow> str option" where
  "non_empty_var var key =
     (case var key of None \<Rightarrow> None | Some v \<Rightarrow> if trim v = [] then None else Some (trim v))"

definition team_from_env :: "unicode \<Rightarrow> (str \<Rightarrow> str option) \<Rightarrow> team_settings option" where
  "team_from_env U var =
     map_option (\<lambda>team.
       \<lparr>ts_team = team,
        ts_client_id = non_empty_var var (lit ''AETHER_ACCESS_CLIENT_ID''),
        ts_client_secret = non_empty_var var (lit ''AETHER_ACCESS_CLIENT_SECRET''),
        ts_token = non_empty_var var (lit ''AETHER_ACCESS_TOKEN''),
        ts_email = non_empty_var var (lit ''AETHER_ACCESS_EMAIL'')\<rparr>)
     (normalize_team U (case var (lit ''AETHER_TEAM'') of Some v \<Rightarrow> v | None \<Rightarrow> []))"

definition has_service_token :: "team_settings \<Rightarrow> bool" where
  "has_service_token S \<longleftrightarrow> ts_client_id S \<noteq> None \<and> ts_client_secret S \<noteq> None"

definition team_domain :: "str \<Rightarrow> str" where
  "team_domain team = lit ''https://'' @ team @ lit ''.'' @ TEAM_SUFFIX"

definition login_url :: "team_settings \<Rightarrow> str" where
  "login_url S = team_domain (ts_team S) @ ENROLL_PATH"

subsection \<open>Tokens\<close>

definition jwt_char :: "nat \<Rightarrow> bool" where
  "jwt_char c \<longleftrightarrow> is_alnum c \<or> c = 46 \<or> c = 45 \<or> c = 95"

definition looks_like_jwt :: "(str \<Rightarrow> bytes option) \<Rightarrow> str \<Rightarrow> bool" where
  "looks_like_jwt decode_segment token =
     (let token = trim token; segments = split_on (\<lambda>c. c = 46) token in
      if str_len token < 32 then False
      else if length segments \<noteq> 3 then False
      else if list_ex (\<lambda>s. s = []) segments then False
      else if \<not> list_all jwt_char token then False
      else decode_segment (segments ! 0) \<noteq> None)"

text \<open>JSON is parsed from bytes.\<close>

definition jwt_expiry :: "(str \<Rightarrow> bytes option) \<Rightarrow> (bytes \<Rightarrow> json option) \<Rightarrow> str \<Rightarrow> u64 option" where
  "jwt_expiry decode_segment json_bytes token =
     (let segments = split_on (\<lambda>c. c = 46) token in
      if length segments \<noteq> 3 then None
      else do {
        payload \<leftarrow> decode_segment (segments ! 1);
        v \<leftarrow> json_bytes payload;
        e \<leftarrow> json_get (lit ''exp'') v;
        as_u64 e
      })"

definition jwt_expired :: "(str \<Rightarrow> bytes option) \<Rightarrow> (bytes \<Rightarrow> json option) \<Rightarrow> str \<Rightarrow> u64 \<Rightarrow> bool" where
  "jwt_expired decode_segment json_bytes token now =
     (case jwt_expiry decode_segment json_bytes token of Some e \<Rightarrow> e \<le> now | None \<Rightarrow> False)"

definition token_end :: "nat \<Rightarrow> bool" where
  "token_end c \<longleftrightarrow> c \<in> {34, 39, 38, 60} \<or> is_whitespace c"

definition extract_jwt_from_html :: "(str \<Rightarrow> bytes option) \<Rightarrow> str \<Rightarrow> str option" where
  "extract_jwt_from_html dec html = do {
     at \<leftarrow> find_sub (lit ''token='') html;
     let rest = drop (at + length (lit ''token='')) html;
     let candidate = trim (takeWhile (\<lambda>c. \<not> token_end c) rest);
     if looks_like_jwt dec candidate then Some candidate else None
   }"

fun cookie_parts :: "(str \<Rightarrow> bytes option) \<Rightarrow> str list \<Rightarrow> str option" where
  "cookie_parts dec [] = None"
| "cookie_parts dec (part # parts) =
     (let entry = trim part in
      case (case strip_prefix (lit ''CF_Authorization='') entry of
              Some v \<Rightarrow> Some v
            | None \<Rightarrow> strip_prefix (lit ''cf_authorization='') entry) of
        None \<Rightarrow> None
      | Some v \<Rightarrow> if looks_like_jwt dec v then Some v else cookie_parts dec parts)"

definition extract_jwt_from_cookie :: "(str \<Rightarrow> bytes option) \<Rightarrow> str \<Rightarrow> str option" where
  "extract_jwt_from_cookie dec header = cookie_parts dec (split_on (\<lambda>c. c = 59) header)"

definition random_alphanumeric :: "nat list \<Rightarrow> str" where
  "random_alphanumeric draws = map (\<lambda>r. ALPHANUM ! (r mod length ALPHANUM)) draws"

definition generate_install_id :: "(nat \<Rightarrow> nat) \<Rightarrow> str" where
  "generate_install_id draw = random_alphanumeric (map draw [0..<INSTALL_ID_LEN])"

definition generate_fcm_token :: "(nat \<Rightarrow> nat) \<Rightarrow> str \<Rightarrow> str" where
  "generate_fcm_token draw install_id = install_id @ lit '':APA91b'' @ random_alphanumeric (map draw [0..<FCM_SUFFIX_LEN])"

subsection \<open>Pages and addresses\<close>

definition char_from_u32 :: "nat \<Rightarrow> nat option" where
  "char_from_u32 c = (if scalar c then Some c else None)"

definition named_entity :: "str \<Rightarrow> nat option" where
  "named_entity e =
     (if e = lit ''amp'' then Some 38
      else if e = lit ''lt'' then Some 60
      else if e = lit ''gt'' then Some 62
      else if e = lit ''quot'' then Some 34
      else if e = lit ''apos'' \<or> e = lit ''#39'' then Some 39
      else
        let hex = (case strip_prefix (lit ''#x'') e of Some h \<Rightarrow> Some h | None \<Rightarrow> strip_prefix (lit ''#X'') e);
            code = (case Option.bind hex (parse_hex 32) of
              Some c \<Rightarrow> Some c
            | None \<Rightarrow> Option.bind (strip_prefix (lit ''#'') e) (parse_uint 32)) in
        Option.bind code char_from_u32)"

text \<open>The decoding at an ampersand: the decoded character and what follows it, or \<open>None\<close> when the ampersand stands for itself.\<close>

definition entity_at :: "str \<Rightarrow> (nat \<times> str) option" where
  "entity_at rest =
     (case find_sub [59] rest of
        None \<Rightarrow> None
      | Some end \<Rightarrow>
          if str_len (take end rest) \<le> 8
          then map_option (\<lambda>c. (c, drop (end + 1) rest)) (named_entity (take (end - 1) (drop 1 rest)))
          else None)"

lemma find_sub_bound: "find_sub p s = Some i \<Longrightarrow> p \<noteq> [] \<Longrightarrow> i < length s"
  by (induction s arbitrary: i) (auto split: if_splits)

lemma entity_at_shorter: "entity_at s = Some (c, after) \<Longrightarrow> length after < length s"
  by (auto simp: entity_at_def split: option.splits if_splits dest!: find_sub_bound)

function decode_entities :: "str \<Rightarrow> str" where
  "decode_entities rest =
     (case find_sub [38] rest of
        None \<Rightarrow> rest
      | Some at \<Rightarrow>
          take at rest @
          (case entity_at (drop at rest) of
             Some (c, after) \<Rightarrow> c # decode_entities after
           | None \<Rightarrow> 38 # decode_entities (drop (at + 1) rest)))"
  by pat_completeness auto

termination
proof (relation "measure length")
  fix rest :: str and at p c after
  assume "find_sub [38] rest = Some at" "entity_at (drop at rest) = Some p" "(c, after) = p"
  then have "length after < length (drop at rest)" by (metis entity_at_shorter)
  then show "(after, rest) \<in> measure length" by simp
next
  fix rest :: str and at
  assume "find_sub [38] rest = Some at"
  then show "(drop (at + 1) rest, rest) \<in> measure length" using find_sub_bound [of "[38]" rest at] by simp
qed simp

declare decode_entities.simps [simp del]

definition rfind_sub :: "'a list \<Rightarrow> 'a list \<Rightarrow> nat option" where
  "rfind_sub p s = map_option (\<lambda>i. length s - length p - i) (find_sub (rev p) (rev s))"

definition extract_totp_form_action :: "str \<Rightarrow> str option" where
  "extract_totp_form_action html = do {
     anchor \<leftarrow> find_sub (lit ''id='' @ [34] @ lit ''totp-form'' @ [34]) html;
     form_start \<leftarrow> rfind_sub (lit ''<form'') (take anchor html);
     tag_len \<leftarrow> find_sub [62] (drop form_start html);
     let tag = take tag_len (drop form_start html);
     key_at \<leftarrow> find_sub (lit ''action='') tag;
     (case trim_start (drop (key_at + length (lit ''action='')) tag) of
        [] \<Rightarrow> None
      | quote # body \<Rightarrow>
          if quote \<noteq> 39 \<and> quote \<noteq> 34 then None
          else do {
            end \<leftarrow> find_sub [quote] body;
            let action = decode_entities (take end body);
            if starts_with action (lit ''https://'') then Some action else None
          })
   }"

text \<open>As \<^const>\<open>percent_bytes\<close>, with a plus for a space.\<close>

fun form_bytes :: "bytes \<Rightarrow> bytes" where
  "form_bytes (a # b # c # bs) =
     (if a = 0x25 then
        (case parse_hex_u8 (case from_utf8 [b, c] of None \<Rightarrow> [] | Some s \<Rightarrow> s) of
           Some byte \<Rightarrow> byte # form_bytes bs
         | None \<Rightarrow> a # form_bytes (b # c # bs))
      else (if a = 0x2B then 0x20 else a) # form_bytes (b # c # bs))"
| "form_bytes bs = map (\<lambda>a. if a = 0x2B then 0x20 else a) bs"

definition form_decode :: "str \<Rightarrow> str" where
  "form_decode raw = from_utf8_lossy (form_bytes (utf8_encode raw))"

fun query_pairs :: "str \<Rightarrow> str list \<Rightarrow> str option" where
  "query_pairs key [] = None"
| "query_pairs key (p # ps) =
     (case split_once 61 p of
        None \<Rightarrow> None
      | Some (name, v) \<Rightarrow> if name = key then Some (form_decode v) else query_pairs key ps)"

definition query_value :: "str \<Rightarrow> str \<Rightarrow> str option" where
  "query_value url key =
     (case split_once 63 url of
        None \<Rightarrow> None
      | Some (_, query) \<Rightarrow> query_pairs key (split_on (\<lambda>c. c = 38) query))"

subsection \<open>Signing in\<close>

text \<open>
  What the web answers to a request: the final address, the status, the \<open>Set-Cookie\<close> headers that are
  text, and the body or the error of reading it.
\<close>

datatype web_answer =
    WebFails str
  | WebAnswer str nat "str list" "str + str"

datatype web_request =
    WebGet str "(str \<times> str) list"
  | WebPost str "(str \<times> str) list"

datatype code_read = ReadTimesOut | ReadNothing | ReadLine str

record zt_env =
  ze_client :: "str option"
  ze_web :: "web_request \<Rightarrow> web_answer"
  ze_segment :: "str \<Rightarrow> bytes option"
  ze_json :: "bytes \<Rightarrow> json option"
  ze_reason :: "nat \<Rightarrow> str"
  ze_interactive :: bool
  ze_read :: "nat \<Rightarrow> code_read"

record email_sign_in =
  es_team :: str
  es_email :: str
  es_nonce :: str
  es_verify_url :: str

datatype code_outcome = CodeToken str | CodeRejected nat

definition request_email_code :: "zt_env \<Rightarrow> str \<Rightarrow> str \<Rightarrow> str option \<Rightarrow> str option result" where
  "request_email_code E verify_url email fallback_url =
     (case ze_web E (WebPost verify_url
         [(lit ''email'', email), (lit ''client_id'', []), (lit ''connector_id'', []), (lit ''connector_type'', []), (lit ''redirect_url'', [])]) of
        WebFails e \<Rightarrow> Inl (Api (lit ''requesting a login code: '' @ e))
      | WebAnswer sent_url status cookies body \<Rightarrow>
          if \<not> success_status status then
            Inl (Api (lit ''cloudflare refused to send a login code (status '' @ ze_reason E status @ lit '')''))
          else Inr (case query_value sent_url (lit ''nonce'') of
              Some n \<Rightarrow> Some n
            | None \<Rightarrow> Option.bind fallback_url (\<lambda>url. query_value url (lit ''nonce''))))"

definition begin_email_signin :: "zt_env \<Rightarrow> team_settings \<Rightarrow> str \<Rightarrow> email_sign_in result" where
  "begin_email_signin E S email =
     (let email = trim email in
      if email = [] then Inl (Api (lit ''an email address is needed to request a login code''))
      else case ze_client E of
        Some e \<Rightarrow> Inl (Api (lit ''access client: '' @ e))
      | None \<Rightarrow>
          (case ze_web E (WebGet (login_url S) []) of
             WebFails e \<Rightarrow> Inl (Api (lit ''enrolment page: '' @ e))
           | WebAnswer landing_url status cookies (Inl e) \<Rightarrow> Inl (Api (lit ''enrolment page body: '' @ e))
           | WebAnswer landing_url status cookies (Inr page) \<Rightarrow>
               (case extract_totp_form_action page of
                  None \<Rightarrow> Inl (Api (lit ''team '' @ ts_team S @ lit '' does not offer an email one-time code on its enrolment page; use a service token or sign in at '' @ login_url S))
                | Some verify_url \<Rightarrow>
                    (case request_email_code E verify_url email (Some landing_url) of
                       Inl e \<Rightarrow> Inl e
                     | Inr None \<Rightarrow> Inl (Api (lit ''cloudflare did not return a nonce for the login code; the enrolment flow may have changed''))
                     | Inr (Some nonce) \<Rightarrow>
                         Inr \<lparr>es_team = ts_team S, es_email = email, es_nonce = nonce, es_verify_url = verify_url\<rparr>))))"

definition resend_code :: "zt_env \<Rightarrow> email_sign_in \<Rightarrow> email_sign_in result" where
  "resend_code E s =
     (case request_email_code E (es_verify_url s) (es_email s) None of
        Inl e \<Rightarrow> Inl e
      | Inr None \<Rightarrow> Inr s
      | Inr (Some nonce) \<Rightarrow> Inr (s\<lparr>es_nonce := nonce\<rparr>))"

definition submit_code :: "zt_env \<Rightarrow> email_sign_in \<Rightarrow> str \<Rightarrow> code_outcome result" where
  "submit_code E s code =
     (let code = trim code in
      if code = [] then Inl (Api (lit ''no login code was entered''))
      else case ze_web E (WebPost (team_domain (es_team s) @ lit ''/cdn-cgi/access/callback'')
              [(lit ''code'', code), (lit ''nonce'', es_nonce s)]) of
        WebFails e \<Rightarrow> Inl (Api (lit ''confirming the login code: '' @ e))
      | WebAnswer url status cookies (Inl e) \<Rightarrow> Inl (Api (lit ''callback body: '' @ e))
      | WebAnswer url status cookies (Inr body) \<Rightarrow>
          Inr (case extract_jwt_from_html (ze_segment E) body of
              Some token \<Rightarrow> CodeToken token
            | None \<Rightarrow> CodeRejected status))"

text \<open>What the user enters at an attempt; without a terminal the program waits five minutes for it.\<close>

definition prompt_login_code :: "zt_env \<Rightarrow> str \<Rightarrow> nat \<Rightarrow> str result" where
  "prompt_login_code E email attempt =
     (case ze_read E attempt of
        ReadTimesOut \<Rightarrow> Inl (Api (lit ''no login code arrived within 300s; request a fresh code and try again''))
      | ReadNothing \<Rightarrow>
          Inl (Api (if ze_interactive E then lit ''no login code was entered''
            else lit ''a login code was emailed to '' @ email @ lit '' but nothing was sent back to answer it''))
      | ReadLine line \<Rightarrow>
          if trim line = [] then Inl (Api (lit ''no login code was entered'')) else Inr (trim line))"

text \<open>The attempts that are left, with the last status.\<close>

fun code_attempts :: "zt_env \<Rightarrow> email_sign_in \<Rightarrow> nat \<Rightarrow> nat option \<Rightarrow> nat \<Rightarrow> str result" where
  "code_attempts E s attempt last_status 0 =
     Inl (Api (lit ''the login code was not accepted after '' @ show_nat CODE_ATTEMPTS @ lit '' attempts (last status ''
       @ (case last_status of Some st \<Rightarrow> show_nat st | None \<Rightarrow> lit ''unknown'') @ lit ''); request a fresh code and try again''))"
| "code_attempts E s attempt last_status (Suc left) =
     (case prompt_login_code E (es_email s) attempt of
        Inl e \<Rightarrow> Inl e
      | Inr code \<Rightarrow>
          (case submit_code E s code of
             Inl e \<Rightarrow> Inl e
           | Inr (CodeToken token) \<Rightarrow> Inr token
           | Inr (CodeRejected status) \<Rightarrow> code_attempts E s (Suc attempt) (Some status) left))"

definition fetch_token_with_email_code :: "zt_env \<Rightarrow> team_settings \<Rightarrow> str \<Rightarrow> str result" where
  "fetch_token_with_email_code E S email =
     (case begin_email_signin E S email of
        Inl e \<Rightarrow> Inl e
      | Inr s \<Rightarrow> code_attempts E s 1 None CODE_ATTEMPTS)"

fun first_cookie_token :: "(str \<Rightarrow> bytes option) \<Rightarrow> str list \<Rightarrow> str option" where
  "first_cookie_token dec [] = None"
| "first_cookie_token dec (c # cs) =
     (case extract_jwt_from_cookie dec c of Some t \<Rightarrow> Some t | None \<Rightarrow> first_cookie_token dec cs)"

definition fetch_token_with_service_token :: "zt_env \<Rightarrow> team_settings \<Rightarrow> str result" where
  "fetch_token_with_service_token E S =
     (case ts_client_id S of
        None \<Rightarrow> Inl (Api (lit ''missing access client id''))
      | Some client_id \<Rightarrow>
          (case ts_client_secret S of
             None \<Rightarrow> Inl (Api (lit ''missing access client secret''))
           | Some client_secret \<Rightarrow>
               (case ze_client E of
                  Some e \<Rightarrow> Inl (Api (lit ''access client: '' @ e))
                | None \<Rightarrow>
                    (case ze_web E (WebGet (login_url S)
                        [(lit ''CF-Access-Client-Id'', client_id), (lit ''CF-Access-Client-Secret'', client_secret)]) of
                       WebFails e \<Rightarrow> Inl (Api (lit ''access request: '' @ e))
                     | WebAnswer url status cookies body \<Rightarrow>
                         (case first_cookie_token (ze_segment E) cookies of
                            Some token \<Rightarrow> Inr token
                          | None \<Rightarrow>
                              (case extract_jwt_from_html (ze_segment E) (case body of Inr b \<Rightarrow> b | Inl _ \<Rightarrow> []) of
                                 Some token \<Rightarrow> Inr token
                               | None \<Rightarrow> Inl (Api (lit ''access did not return a device enrolment token (status '' @ ze_reason E status
                                   @ lit ''); confirm the service token has Service Auth device enrolment permission for team '' @ ts_team S))))))))"

definition sign_in :: "zt_env \<Rightarrow> u64 \<Rightarrow> team_settings \<Rightarrow> str result" where
  "sign_in E now S =
     (case ts_token S of
        Some token \<Rightarrow>
          if \<not> looks_like_jwt (ze_segment E) token then
            Inl (Api (lit ''the supplied access token is not a jwt; copy the value that follows token= on the enrolment page''))
          else if jwt_expired (ze_segment E) (ze_json E) token now then
            Inl (Api (lit ''the supplied access token has expired; sign in again to get a fresh one''))
          else Inr token
      | None \<Rightarrow>
          if has_service_token S then fetch_token_with_service_token E S
          else case ts_email S of
            Some email \<Rightarrow> fetch_token_with_email_code E S email
          | None \<Rightarrow> Inl (Api (lit ''team '' @ ts_team S
              @ lit '' needs a way to sign in. pick one: a service token via AETHER_ACCESS_CLIENT_ID and AETHER_ACCESS_CLIENT_SECRET, an email one-time code via AETHER_ACCESS_EMAIL, or a token you already hold via AETHER_ACCESS_TOKEN (sign in at ''
              @ login_url S @ lit '')'')))"

text \<open>The token of the session: each operation takes the cache and the time and returns the new cache.\<close>

definition resolve_token :: "zt_env \<Rightarrow> u64 \<Rightarrow> u64 \<Rightarrow> str option \<Rightarrow> team_settings \<Rightarrow> str option \<times> str result" where
  "resolve_token E now now' cache S =
     (case (case cache of
              Some cached \<Rightarrow> if jwt_expired (ze_segment E) (ze_json E) cached now then None else Some cached
            | None \<Rightarrow> None) of
        Some cached \<Rightarrow> (cache, Inr cached)
      | None \<Rightarrow>
          (case sign_in E now' S of
             Inl e \<Rightarrow> (None, Inl e)
           | Inr token \<Rightarrow> (Some token, Inr token)))"

definition store_token :: "zt_env \<Rightarrow> u64 \<Rightarrow> str option \<Rightarrow> str \<Rightarrow> str option \<times> unit result" where
  "store_token E now cache token =
     (let token = trim token in
      if \<not> looks_like_jwt (ze_segment E) token then
        (cache, Inl (Api (lit ''that value is not a jwt; copy the value that follows token= on the enrolment page'')))
      else if jwt_expired (ze_segment E) (ze_json E) token now then
        (cache, Inl (Api (lit ''that token has already expired; sign in again to get a fresh one'')))
      else (Some token, Inr ()))"

definition cached_token :: "zt_env \<Rightarrow> u64 \<Rightarrow> str option \<Rightarrow> str option" where
  "cached_token E now cache =
     (case cache of
        Some t \<Rightarrow> if jwt_expired (ze_segment E) (ze_json E) t now then None else Some t
      | None \<Rightarrow> None)"

definition clear_token :: "str option \<Rightarrow> str option" where
  "clear_token cache = None"

section \<open>Correctness\<close>

subsection \<open>Team names\<close>

text \<open>What the tables promise: a lower-case mapping contains no upper-case ASCII letter.\<close>

definition lowers :: "unicode \<Rightarrow> bool" where
  "lowers U \<longleftrightarrow> (\<forall>c\<ge>128. list_all (\<lambda>x. \<not> is_upper x) (uc_lower U c))"

lemma lower_from_no_upper: "lowers U \<Longrightarrow> list_all (\<lambda>x. \<not> is_upper x) (lower_from U seen s)"
  by (induction s arbitrary: seen) (auto simp: lowers_def chr_defs not_less)

lemma or_self_set: "(\<And>y. f x = Some y \<Longrightarrow> set y \<subseteq> set x) \<Longrightarrow> set (or_self f x) \<subseteq> set x"
  by (auto simp: or_self_def split: option.splits)

lemma set_split_hd: "split_on p s = h # t \<Longrightarrow> set h \<subseteq> set s"
  using split_on_parts [of h p s] by simp

lemma normalized_chars:
  assumes "normalize_team U raw = Some t" "lowers U"
  shows "t \<noteq> [] \<and> list_all (\<lambda>c. team_char c \<and> \<not> is_upper c) t"
proof -
  let ?v = "to_lowercase U (trim raw)"
  let ?w = "or_self (strip_prefix (lit ''http://'')) (or_self (strip_prefix (lit ''https://'')) ?v)"
  let ?x = "trim_end_matches 47 ?w"
  let ?y = "case split_on (\<lambda>c. c = 47) ?x of h # _ \<Rightarrow> h | [] \<Rightarrow> ?x"
  let ?z = "case strip_suffix TEAM_SUFFIX ?y of Some head \<Rightarrow> trim_end_matches 46 head | None \<Rightarrow> ?y"
  have t: "t = ?z" "t \<noteq> []" "list_all team_char t"
    using assms(1) unfolding normalize_team_def Let_def by (simp_all split: if_split_asm)
  have prefix: "set (or_self (strip_prefix p) x) \<subseteq> set x" for p x :: str
    by (rule or_self_set) (auto simp: strip_prefix_def dest: in_set_dropD split: if_splits)
  have "set ?w \<subseteq> set ?v" using prefix [of "lit ''http://''"] prefix [of "lit ''https://''"] by blast
  moreover have "set ?x \<subseteq> set ?w" by (rule set_trim_end_matches)
  moreover have "set ?y \<subseteq> set ?x" by (auto dest: set_split_hd split: list.splits)
  moreover have "set ?z \<subseteq> set ?y"
    using set_trim_end_matches [of 46] by (fastforce simp: strip_suffix_def dest: in_set_takeD split: option.splits if_splits)
  ultimately have "set t \<subseteq> set ?v" unfolding t(1) by blast
  with lower_from_no_upper [OF assms(2), of "[]" "trim raw"] t show ?thesis
    by (auto simp: to_lowercase_def list_all_iff)
qed

lemma normalize_team_plain:
  assumes "t \<noteq> []" "list_all (\<lambda>c. team_char c \<and> \<not> is_upper c) t"
  shows "normalize_team U t = Some t"
proof -
  have c: "c \<in> set t \<Longrightarrow> c < 128 \<and> \<not> is_whitespace c \<and> c \<noteq> 47 \<and> c \<noteq> 46 \<and> c \<noteq> 58 \<and> \<not> is_upper c \<and> team_char c" for c
    using assms(2) by (auto simp: list_all_iff team_char_def chr_defs)
  have "trim t = t" using c by (intro trim_none) (simp add: list_all_iff)
  moreover have "to_lowercase U t = t"
    using c by (simp add: to_lowercase_ascii list_all_iff ascii_lower_def map_idI)
  moreover have "strip_prefix p t = None" if "47 \<in> set p" for p
    using c that by (auto simp: strip_prefix_def starts_with_def dest!: arg_cong [of _ _ set] in_set_takeD)
  then have "strip_prefix (lit ''https://'') t = None" "strip_prefix (lit ''http://'') t = None" by simp_all
  moreover have "trim_end_matches 47 t = t" using assms(1) c by (intro trim_end_matches_last) auto
  moreover have "split_on (\<lambda>c. c = 47) t = [t]" using c by (intro split_on_none) (simp add: list_all_iff)
  moreover have "strip_suffix TEAM_SUFFIX t = None"
  proof -
    have "46 \<in> set TEAM_SUFFIX" by (simp add: TEAM_SUFFIX_def)
    then have "\<not> ends_with t TEAM_SUFFIX" using c by (metis ends_with_def in_set_dropD)
    then show ?thesis by (simp add: strip_suffix_def)
  qed
  ultimately show ?thesis using assms c by (simp add: normalize_team_def or_self_def list_all_iff)
qed

subsection \<open>Tokens\<close>

lemma html_token_shape: "extract_jwt_from_html dec html = Some t \<Longrightarrow> looks_like_jwt dec t"
  by (auto simp: extract_jwt_from_html_def Let_def split: bind_splits if_splits)

lemma cookie_token_shape: "cookie_parts dec parts = Some t \<Longrightarrow> looks_like_jwt dec t"
  by (induction parts) (auto simp: Let_def split: option.splits if_splits)

lemma first_cookie_shape: "first_cookie_token dec cs = Some t \<Longrightarrow> looks_like_jwt dec t"
  by (induction cs) (auto simp: extract_jwt_from_cookie_def dest: cookie_token_shape split: option.splits)

lemma submit_token_shape: "submit_code E s code = Inr (CodeToken t) \<Longrightarrow> looks_like_jwt (ze_segment E) t"
  by (auto simp: submit_code_def Let_def dest: html_token_shape
      split: if_splits web_answer.splits sum.splits option.splits)

lemma code_attempts_shape: "code_attempts E s attempt st left = Inr t \<Longrightarrow> looks_like_jwt (ze_segment E) t"
  by (induction left arbitrary: attempt st)
    (auto dest: submit_token_shape split: sum.splits code_outcome.splits)

lemma sign_in_shape: "sign_in E now S = Inr t \<Longrightarrow> looks_like_jwt (ze_segment E) t"
  by (auto simp: sign_in_def fetch_token_with_service_token_def fetch_token_with_email_code_def
      dest: html_token_shape first_cookie_shape code_attempts_shape
      split: option.splits if_splits sum.splits web_answer.splits)

text \<open>The states the session's token can be in: any interleaving of the operations, at any times and with any answers.\<close>

inductive token_session :: "zt_env \<Rightarrow> str option \<Rightarrow> bool" for E where
  session_start: "token_session E None"
| session_resolve: "token_session E cache \<Longrightarrow> token_session E (fst (resolve_token E now now' cache S))"
| session_store: "token_session E cache \<Longrightarrow> token_session E (fst (store_token E now cache token))"
| session_clear: "token_session E cache \<Longrightarrow> token_session E (clear_token cache)"

lemma session_shape: "token_session E cache \<Longrightarrow> cache = Some t \<Longrightarrow> looks_like_jwt (ze_segment E) t"
proof (induction arbitrary: t rule: token_session.induct)
  case (session_resolve cache now now' S)
  then show ?case
    by (auto simp: resolve_token_def dest: sign_in_shape split: option.splits if_splits sum.splits)
next
  case (session_store cache now token)
  then show ?case by (auto simp: store_token_def Let_def split: if_splits)
qed (simp_all add: clear_token_def)


text \<open>
  The token of the session is not tied to a team: once a sign-in to one team has succeeded, a request
  for a token of any other team, even one with its own supplied token, gets the token of the first team
  as long as it has not expired.
\<close>

lemma token_reused_for_other_team:
  assumes "resolve_token E now now' None S = (cache, Inr t)" "\<not> jwt_expired (ze_segment E) (ze_json E) t later"
  shows "resolve_token E later later' cache S' = (Some t, Inr t)"
  using assms by (auto simp: resolve_token_def split: sum.splits)

text \<open>A web that answers nothing, and a token of the right shape that never expires.\<close>

definition demo_zt :: zt_env where
  "demo_zt = \<lparr>ze_client = None, ze_web = (\<lambda>_. WebFails []), ze_segment = (\<lambda>_. Some []), ze_json = (\<lambda>_. None),
     ze_reason = (\<lambda>_. []), ze_interactive = False, ze_read = (\<lambda>_. ReadTimesOut)\<rparr>"

definition demo_jwt :: str where
  "demo_jwt = lit ''aaaaaaaaaaaaaaaa.bbbbbbbbbbbbbbbb.cc''"

lemma demo_jwt_ok: "looks_like_jwt (ze_segment demo_zt) demo_jwt" "\<not> jwt_expired (ze_segment demo_zt) (ze_json demo_zt) demo_jwt now"
proof -
  have "trim demo_jwt = demo_jwt" "str_len demo_jwt = 36"
    by (simp_all add: demo_jwt_def trim_none is_whitespace_def str_len_ascii)
  then show "looks_like_jwt (ze_segment demo_zt) demo_jwt"
    by (simp add: looks_like_jwt_def Let_def) (simp add: demo_jwt_def demo_zt_def jwt_char_def chr_defs)
  show "\<not> jwt_expired (ze_segment demo_zt) (ze_json demo_zt) demo_jwt now"
    by (simp add: jwt_expired_def jwt_expiry_def demo_zt_def demo_jwt_def)
qed

definition demo_team :: "str \<Rightarrow> str option \<Rightarrow> team_settings" where
  "demo_team team token = \<lparr>ts_team = team, ts_client_id = None, ts_client_secret = None, ts_token = token, ts_email = None\<rparr>"

lemma demo_resolve: "resolve_token demo_zt now now' None (demo_team team (Some demo_jwt)) = (Some demo_jwt, Inr demo_jwt)"
  using demo_jwt_ok by (simp add: resolve_token_def sign_in_def demo_team_def)


subsection \<open>Sign-in by email\<close>

text \<open>
  The email sign-in asks for at most three codes; the token it returns was in the answer of the team's own
  callback address to the first code that was accepted.
\<close>

lemma code_attempts_sound:
  assumes "code_attempts E s attempt st left = Inr t"
  shows "\<exists>k<left. \<exists>code. prompt_login_code E (es_email s) (attempt + k) = Inr code \<and> submit_code E s code = Inr (CodeToken t)
    \<and> (\<forall>j<k. \<exists>c status. prompt_login_code E (es_email s) (attempt + j) = Inr c \<and> submit_code E s c = Inr (CodeRejected status))"
  using assms
proof (induction left arbitrary: attempt st)
  case (Suc left)
  obtain c r where c: "prompt_login_code E (es_email s) attempt = Inr c" "submit_code E s c = Inr r"
    using Suc.prems by (auto split: sum.split_asm)
  show ?case
  proof (cases r)
    case (CodeToken t')
    with Suc.prems c show ?thesis by (intro exI [of _ 0]) simp
  next
    case (CodeRejected status)
    with Suc.prems c have "code_attempts E s (Suc attempt) (Some status) left = Inr t" by simp
    from Suc.IH [OF this] obtain k code where k: "k < left" "prompt_login_code E (es_email s) (Suc attempt + k) = Inr code"
      "submit_code E s code = Inr (CodeToken t)"
      "\<forall>j<k. \<exists>c status. prompt_login_code E (es_email s) (Suc attempt + j) = Inr c \<and> submit_code E s c = Inr (CodeRejected status)"
      by blast
    have "\<exists>c status. prompt_login_code E (es_email s) (attempt + j) = Inr c \<and> submit_code E s c = Inr (CodeRejected status)"
      if "j < Suc k" for j
      using that k(4) c CodeRejected by (cases j) auto
    with k show ?thesis by (intro exI [of _ "Suc k"]) auto
  qed
qed simp

lemma submit_code_token:
  "submit_code E s code = Inr (CodeToken t) \<longleftrightarrow>
     trim code \<noteq> [] \<and> (\<exists>url status cookies body.
       ze_web E (WebPost (team_domain (es_team s) @ lit ''/cdn-cgi/access/callback'') [(lit ''code'', trim code), (lit ''nonce'', es_nonce s)])
         = WebAnswer url status cookies (Inr body) \<and> extract_jwt_from_html (ze_segment E) body = Some t)"
  by (auto simp: submit_code_def Let_def split: web_answer.splits sum.splits option.splits)

subsection \<open>Pages and addresses\<close>

lemma decode_entities_plain: "c \<noteq> 38 \<Longrightarrow> decode_entities (c # s) = c # decode_entities s"
  by (subst (1 2) decode_entities.simps)
    (auto simp: starts_with_def option.map_comp comp_def split: option.splits)

lemma decode_entities_nil [simp]: "decode_entities [] = []"
  by (simp add: decode_entities.simps)

lemma decode_entities_amp: "decode_entities (38 # s) = (case entity_at (38 # s) of Some (c, after) \<Rightarrow> c # decode_entities after | None \<Rightarrow> 38 # decode_entities s)"
  by (subst decode_entities.simps) (simp add: starts_with_def cong: option.case_cong)

definition escape_entities :: "str \<Rightarrow> str" where
  "escape_entities s = concat (map (\<lambda>c.
     if c = 38 then lit ''&amp;'' else if c = 60 then lit ''&lt;'' else if c = 62 then lit ''&gt;''
     else if c = 34 then lit ''&quot;'' else if c = 39 then lit ''&#39;'' else [c]) s)"

lemma entity_known:
  assumes "named_entity e = Some c" "59 \<notin> set e" "list_all (\<lambda>c. c < 128) e" "length e \<le> 7"
  shows "decode_entities (38 # e @ 59 # s) = c # decode_entities s"
proof -
  have "find_sub [59] ((38 # e) @ [59] @ s) = Some (length (38 # e))"
    by (rule find_sub_first) (use assms in auto)
  then have f: "find_sub [59] (38 # e @ 59 # s) = Some (Suc (length e))" by simp
  have "str_len (38 # e) \<le> 8" using assms(3,4) by (simp add: str_len_ascii)
  then have "entity_at (38 # e @ 59 # s) = Some (c, s)"
    unfolding entity_at_def f using assms(1) by simp
  then show ?thesis by (simp add: decode_entities_amp)
qed

lemma decode_escaped: "decode_entities (escape_entities s) = s"
proof (induction s)
  case (Cons c s)
  have names: "named_entity (lit ''amp'') = Some 38" "named_entity (lit ''lt'') = Some 60" "named_entity (lit ''gt'') = Some 62"
    "named_entity (lit ''quot'') = Some 34" "named_entity (lit ''#39'') = Some 39"
    by (simp_all add: named_entity_def)
  show ?case
    using Cons entity_known [OF names(1), of "escape_entities s"] entity_known [OF names(2), of "escape_entities s"]
      entity_known [OF names(3), of "escape_entities s"] entity_known [OF names(4), of "escape_entities s"]
      entity_known [OF names(5), of "escape_entities s"]
    by (simp add: escape_entities_def decode_entities_plain)
qed (simp add: escape_entities_def)

text \<open>A parameter is found behind other parameters with values, but not behind one without an equals sign.\<close>

lemma query_value_found:
  assumes "63 \<notin> set base" "\<forall>(n, v)\<in>set ps. 61 \<notin> set n \<and> 38 \<notin> set n \<and> 38 \<notin> set v \<and> n \<noteq> key"
    and "61 \<notin> set key" "38 \<notin> set key" "38 \<notin> set v"
  shows "query_value (base @ 63 # concat (map (\<lambda>(n, v). n @ 61 # v @ [38]) ps) @ key @ 61 # v) key = Some (form_decode v)"
proof -
  have one: "split_once 61 (n @ 61 # w) = Some (n, w)" if "61 \<notin> set n" for n w :: str
    using that by (simp add: split_once_Some)
  have "query_pairs key (split_on (\<lambda>c. c = 38) (concat (map (\<lambda>(n, v). n @ 61 # v @ [38]) ps) @ key @ 61 # v)) = Some (form_decode v)"
    using assms(2)
  proof (induction ps)
    case Nil
    have "split_on (\<lambda>c. c = 38) (key @ 61 # v) = [key @ 61 # v]"
      using assms by (intro split_on_none) (auto simp: list_all_iff)
    then show ?case using one [OF assms(3)] by simp
  next
    case (Cons p ps)
    obtain n w where p: "p = (n, w)" by force
    have "split_on (\<lambda>c. c = 38) ((n @ 61 # w) @ 38 # rest) = (n @ 61 # w) # split_on (\<lambda>c. c = 38) rest" for rest
      using Cons.prems p by (intro split_on_append) (auto simp: list_all_iff)
    with Cons one [of n w] p show ?case by simp
  qed
  moreover have "split_once 63 (base @ 63 # q) = Some (base, q)" for q
    using assms(1) by (simp add: split_once_Some)
  ultimately show ?thesis by (simp add: query_value_def)
qed

lemma query_value_behind_flag:
  assumes "63 \<notin> set base" "61 \<notin> set flag" "38 \<notin> set flag"
  shows "query_value (base @ 63 # flag @ 38 # rest) key = None"
proof -
  have "split_on (\<lambda>c. c = 38) (flag @ 38 # rest) = flag # split_on (\<lambda>c. c = 38) rest"
    using assms(3) by (intro split_on_append) (auto simp: list_all_iff)
  moreover have "split_once 63 (base @ 63 # flag @ 38 # rest) = Some (base, flag @ 38 # rest)"
    using assms(1) by (simp add: split_once_Some)
  moreover have "split_once 61 flag = None" using assms(2) by (simp add: split_once_None)
  ultimately show ?thesis by (simp add: query_value_def)
qed

end
