(* ===== verification/Orchestrate.thy ===== *)
theory Orchestrate
  imports Identity_File Zerotrust Wg_Prober Masque_H2 Noize Socks_Connect
begin

text \<open>
  The orchestration of \<open>lib.rs\<close>: which file holds which identity, how an identity is loaded or provisioned,
  which peer a round of the three reconnection loops connects to, and the tasks of a tunnel. The
  account service, the file system, the sign-in, the scanners and the proxies are those of the other
  theories; what a verification or a tunnel ends with is an input of a round.
\<close>

section \<open>The model\<close>

subsection \<open>Settings and files\<close>

definition parse_local_v4 :: "str \<Rightarrow> ipv4" where
  "parse_local_v4 s =
     (case parse_ipv4 (case split_on (\<lambda>c. c = 47) s of h # _ \<Rightarrow> h | [] \<Rightarrow> s) of Some a \<Rightarrow> a | None \<Rightarrow> 0)"

text \<open>The directory part with its separator, and the rest; the rest is cut at its last dot.\<close>

definition is_separator :: "nat \<Rightarrow> bool" where
  "is_separator c \<longleftrightarrow> c = 47 \<or> c = 92"

definition dir_part :: "str \<Rightarrow> str" where
  "dir_part base = rev (dropWhile (\<lambda>c. \<not> is_separator c) (rev base))"

definition file_part :: "str \<Rightarrow> str" where
  "file_part base = drop (length (dir_part base)) base"

definition derive_sibling_path :: "str \<Rightarrow> str \<Rightarrow> str" where
  "derive_sibling_path base suffix =
     (case rsplit_once 46 (file_part base) of
        Some (stem, ext) \<Rightarrow> dir_part base @ stem @ lit ''-'' @ suffix @ lit ''.'' @ ext
      | None \<Rightarrow> base @ lit ''-'' @ suffix)"

definition team_scope :: "unicode \<Rightarrow> env \<Rightarrow> str option" where
  "team_scope U env = map_option ts_team (team_from_env U env)"

definition warp_config_path :: "unicode \<Rightarrow> env \<Rightarrow> str \<Rightarrow> str" where
  "warp_config_path U env base =
     (case env (lit ''AETHER_WG_CONFIG'') of
        Some p \<Rightarrow> p
      | None \<Rightarrow>
          (case team_scope U env of
             Some team \<Rightarrow> derive_sibling_path base (lit ''team-'' @ team)
           | None \<Rightarrow> base))"

definition masque_config_path :: "unicode \<Rightarrow> env \<Rightarrow> str \<Rightarrow> str" where
  "masque_config_path U env base =
     (case env (lit ''AETHER_MASQUE_CONFIG'') of
        Some p \<Rightarrow> p
      | None \<Rightarrow>
          (case team_scope U env of
             Some team \<Rightarrow> derive_sibling_path base (lit ''team-'' @ team)
           | None \<Rightarrow> derive_sibling_path base (lit ''masque'')))"

definition lastconn_path :: "str \<Rightarrow> str" where
  "lastconn_path config_path = derive_sibling_path config_path (lit ''lastconn'')"

text \<open>The teams with an identity beside the base file: \<open>names\<close> are the entries of its directory.\<close>

definition team_of_file :: "str \<Rightarrow> str \<Rightarrow> str option" where
  "team_of_file prefix name = do {
     rest \<leftarrow> strip_prefix prefix name;
     team \<leftarrow> strip_suffix (lit ''.toml'') rest;
     if team = [] \<or> ends_with team (lit ''-secondary'') \<or> ends_with team (lit ''-lastconn'') then None else Some team
   }"

definition str_le :: "str \<Rightarrow> str \<Rightarrow> bool" where
  "str_le a b \<longleftrightarrow> a = b \<or> (a, b) \<in> lexord {(x, y). x < y}"

fun insert_str :: "str \<Rightarrow> str list \<Rightarrow> str list" where
  "insert_str a [] = [a]"
| "insert_str a (b # bs) = (if str_le a b then a # b # bs else b # insert_str a bs)"

definition sort_strs :: "str list \<Rightarrow> str list" where
  "sort_strs ss = foldr insert_str ss []"

definition enrolled_teams :: "str \<Rightarrow> str list option \<Rightarrow> str list" where
  "enrolled_teams base names =
     (let stem = (case rsplit_once 46 (file_part base) of Some (s, _) \<Rightarrow> s | None \<Rightarrow> file_part base) in
      case names of
        None \<Rightarrow> []
      | Some ns \<Rightarrow> sort_strs (foldl push_absent [] (List.map_filter (team_of_file (stem @ lit ''-team-'')) ns)))"

definition keep_saved_identity :: "env \<Rightarrow> bool" where
  "keep_saved_identity env \<longleftrightarrow>
     env (lit ''AETHER_REPROVISION'') \<notin> {Some (lit ''0''), Some (lit ''off''), Some (lit ''false'')}"

subsection \<open>Identities\<close>

text \<open>What the process keeps: its files, its environment, the gateway proxy that was set and the token of the session.\<close>

record app =
  ap_fs :: fs
  ap_env :: env
  ap_gateway :: "sock_addr option"
  ap_token :: "str option"

record orch =
  oc_unicode :: unicode
  oc_account :: account_env
  oc_zt :: zt_env
  oc_codecs :: codecs
  oc_faults :: fs_faults
  oc_unreadable :: "str \<Rightarrow> io_error option"
  oc_pid :: nat
  oc_draw :: registration_draw
  oc_generated :: "str + masque_key_pair"

type_synonym 'a task_run = "(app \<times> 'a result) run"

definition DEFAULT_MODEL :: str where "DEFAULT_MODEL = lit ''PC''"
definition DEFAULT_LOCALE :: str where "DEFAULT_LOCALE = lit ''en_US''"

definition provision_account :: "orch \<Rightarrow> app \<Rightarrow> identity task_run" where
  "provision_account E a =
     (case team_from_env (oc_unicode E) (ap_env a) of
        Some settings \<Rightarrow>
          let (cache, signed) = resolve_token (oc_zt E) (ac_clock (oc_account E) 0) (ac_clock (oc_account E) 0) (ap_token a) settings in
          run_bind (provision_team (oc_account E) (oc_draw E) DEFAULT_MODEL DEFAULT_LOCALE signed) (\<lambda>r.
          case r of
            Inl e \<Rightarrow> Some (Ret (a\<lparr>ap_token := cache\<rparr>, Inl e))
          | Inr i \<Rightarrow> run_bind (refresh_profile (oc_account E) i) (\<lambda>j. Some (Ret (a\<lparr>ap_token := cache\<rparr>, Inr j))))
      | None \<Rightarrow>
          run_bind (provision_wg (oc_account E) (oc_draw E) DEFAULT_MODEL DEFAULT_LOCALE None) (\<lambda>r. Some (Ret (a, r))))"

definition team_endpoint :: "env \<Rightarrow> identity \<Rightarrow> str option" where
  "team_endpoint env i =
     (if id_assigned_endpoint i \<noteq> [] \<and> env (lit ''AETHER_PEER'') = None then
        let port = (if env (lit ''AETHER_PROTOCOL'') \<in> {Some (lit ''wg''), Some (lit ''gool'')} then 2408 else 443 :: nat);
            peer = id_assigned_endpoint i @ lit '':'' @ show_nat port in
        if parse_sock_addr peer \<noteq> None then Some peer else None
      else None)"

definition adopt_team_profile :: "orch \<Rightarrow> app \<Rightarrow> identity \<Rightarrow> (app \<times> identity) run" where
  "adopt_team_profile E a i =
     (if team_scope (oc_unicode E) (ap_env a) = None then Some (Ret (a, i))
      else run_bind (refresh_profile (oc_account E) i) (\<lambda>i.
        let a = (if id_gateway_proxy i \<noteq> [] \<and> ap_env a (lit ''AETHER_GATEWAY'') \<noteq> None
                 then a\<lparr>ap_gateway := set_gateway_proxy (ap_gateway a) (id_gateway_proxy i)\<rparr> else a);
            a = (case team_endpoint (ap_env a) i of
                   Some peer \<Rightarrow> a\<lparr>ap_env := (ap_env a)(lit ''AETHER_TEAM_ENDPOINT'' := Some peer)\<rparr>
                 | None \<Rightarrow> a) in
        Some (Ret (a, i))))"

definition save_identity :: "orch \<Rightarrow> str \<Rightarrow> app \<Rightarrow> identity \<Rightarrow> identity task_run" where
  "save_identity E path a i =
     (let (states, r) = config_save (oc_codecs E) (oc_faults E) (oc_pid E) path i (ap_fs a); a = a\<lparr>ap_fs := final (ap_fs a) states\<rparr> in
      Some (Ret (a, case r of Inl e \<Rightarrow> Inl e | Inr _ \<Rightarrow> Inr i)))"

definition load_identity :: "orch \<Rightarrow> str \<Rightarrow> app \<Rightarrow> app \<times> identity option result" where
  "load_identity E path a =
     (let (s, r) = config_load (oc_codecs E) (oc_faults E) (ac_show_io (oc_account E)) (oc_unreadable E) path (ap_fs a) in
      (a\<lparr>ap_fs := s\<rparr>, r))"

definition fresh_warp :: "orch \<Rightarrow> str \<Rightarrow> app \<Rightarrow> identity task_run" where
  "fresh_warp E path a =
     run_bind (provision_account E a) (\<lambda>(a, r).
     case r of
       Inl e \<Rightarrow> Some (Ret (a, Inl e))
     | Inr i \<Rightarrow> run_bind (adopt_team_profile E a i) (\<lambda>(a, i). save_identity E path a i))"

definition load_or_provision_warp :: "orch \<Rightarrow> str \<Rightarrow> app \<Rightarrow> identity task_run" where
  "load_or_provision_warp E path a =
     (let (a, loaded) = load_identity E path a in
      case loaded of
        Inl e \<Rightarrow> Some (Ret (a, Inl e))
      | Inr (Some i) \<Rightarrow>
          run_bind (adopt_team_profile E a i) (\<lambda>(a, i).
          if \<not> id_refused i then save_identity E path a i
          else if \<not> keep_saved_identity (ap_env a) then Some (Ret (a, Inr i))
          else fresh_warp E path a)
      | Inr None \<Rightarrow> fresh_warp E path a)"

definition with_enrollment :: "identity \<Rightarrow> masque_enrollment \<Rightarrow> identity" where
  "with_enrollment i m = i\<lparr>id_cert_pem := me_cert_pem m, id_key_pem := me_key_pem m, id_cert_issued_at := me_issued_at m\<rparr>"

definition fresh_masque :: "orch \<Rightarrow> str \<Rightarrow> app \<Rightarrow> identity task_run" where
  "fresh_masque E path a =
     run_bind (provision_account E a) (\<lambda>(a, r).
     case r of
       Inl e \<Rightarrow> Some (Ret (a, Inl e))
     | Inr i \<Rightarrow>
         run_bind (ensure_masque_enrolled (oc_account E) (oc_generated E) i) (\<lambda>enrolled.
         case enrolled of
           Inl e \<Rightarrow> Some (Ret (a, Inl e))
         | Inr m \<Rightarrow> run_bind (adopt_team_profile E a (with_enrollment i m)) (\<lambda>(a, i). save_identity E path a i)))"

definition replace_refused :: "orch \<Rightarrow> str \<Rightarrow> app \<Rightarrow> identity \<Rightarrow> identity task_run" where
  "replace_refused E path a i =
     (if \<not> keep_saved_identity (ap_env a) then Some (Ret (a, Inr i)) else fresh_masque E path a)"

definition load_or_provision_masque :: "orch \<Rightarrow> str \<Rightarrow> app \<Rightarrow> identity task_run" where
  "load_or_provision_masque E path a =
     (let (a, loaded) = load_identity E path a in
      case loaded of
        Inl e \<Rightarrow> Some (Ret (a, Inl e))
      | Inr None \<Rightarrow> fresh_masque E path a
      | Inr (Some i) \<Rightarrow>
          if has_masque_credentials (ac_clock (oc_account E) 0) i then
            run_bind (adopt_team_profile E a i) (\<lambda>(a, i).
            if \<not> id_refused i then save_identity E path a i else replace_refused E path a i)
          else
            run_bind (ensure_masque_enrolled (oc_account E) (oc_generated E) i) (\<lambda>enrolled.
            case enrolled of
              Inr m \<Rightarrow> save_identity E path a (with_enrollment i m)
            | Inl (IdentityRefused reason) \<Rightarrow> replace_refused E path a (i\<lparr>id_refused := True\<rparr>)
            | Inl e \<Rightarrow> Some (Ret (a, Inl e))))"

subsection \<open>Questions and defaults\<close>

datatype protocol = MasqueProto | WireGuardProto | WarpInWarp

definition protocol_parse :: "unicode \<Rightarrow> str \<Rightarrow> protocol" where
  "protocol_parse U s =
     (let v = to_lowercase U (trim s) in
      if v \<in> {lit ''wg'', lit ''wireguard''} then WireGuardProto
      else if v \<in> {lit ''gool'', lit ''wiw'', lit ''warp-in-warp'', lit ''warpinwarp''} then WarpInWarp
      else MasqueProto)"

definition protocol_label :: "protocol \<Rightarrow> str" where
  "protocol_label p =
     (case p of MasqueProto \<Rightarrow> lit ''MASQUE'' | WireGuardProto \<Rightarrow> lit ''WireGuard'' | WarpInWarp \<Rightarrow> lit ''WARP-in-WARP (gool)'')"

text \<open>An answer of \<open>prompt_line\<close> is \<open>None\<close> without a terminal or at the end of the input.\<close>

definition select_scan_mode_str :: "env \<Rightarrow> str option \<Rightarrow> str" where
  "select_scan_mode_str env ans =
     (case env (lit ''AETHER_SCAN'') of
        Some v \<Rightarrow> v
      | None \<Rightarrow>
          if ans = Some (lit ''1'') then lit ''turbo''
          else if ans = Some (lit ''3'') then lit ''thorough''
          else if ans = Some (lit ''4'') then lit ''stealth''
          else if ans = Some (lit ''5'') then lit ''ironclad''
          else lit ''balanced'')"

definition select_scan_mode :: "unicode \<Rightarrow> env \<Rightarrow> str option \<Rightarrow> scan_mode" where
  "select_scan_mode U env ans =
     (case env (lit ''AETHER_SCAN'') of
        Some v \<Rightarrow> scan_mode_parse U v
      | None \<Rightarrow>
          if ans = Some (lit ''1'') then Turbo
          else if ans = Some (lit ''3'') then Thorough
          else if ans = Some (lit ''4'') then Stealth
          else if ans = Some (lit ''5'') then Ironclad
          else Balanced)"

definition select_ip_version :: "unicode \<Rightarrow> env \<Rightarrow> str option \<Rightarrow> ip_scan" where
  "select_ip_version U env ans =
     (case env (lit ''AETHER_IP'') of
        Some v \<Rightarrow> ip_scan_parse U v
      | None \<Rightarrow> if ans = Some (lit ''2'') then ScanV6 else if ans = Some (lit ''3'') then ScanBoth else ScanV4)"

definition select_masque_transport :: "env \<Rightarrow> str option \<Rightarrow> env" where
  "select_masque_transport env ans =
     (if env (lit ''AETHER_MASQUE_HTTP2'') \<noteq> None \<or> env (lit ''AETHER_PEER'') \<noteq> None then env
      else if ans = Some (lit ''2'') then env(lit ''AETHER_MASQUE_HTTP2'' := Some (lit ''1'')) else env)"

definition want_quick_reconnect :: "env \<Rightarrow> str option \<Rightarrow> bool" where
  "want_quick_reconnect env ans =
     (if env (lit ''AETHER_QUICK_RECONNECT'') \<in> Some ` {lit ''1'', lit ''true'', lit ''yes'', lit ''on''} then True
      else if env (lit ''AETHER_QUICK_RECONNECT'') \<in> Some ` {lit ''0'', lit ''false'', lit ''no'', lit ''off''} then False
      else \<not> (case ans of Some a \<Rightarrow> eq_ignore_ascii_case a (lit ''n'') \<or> eq_ignore_ascii_case a (lit ''no'') | None \<Rightarrow> False))"

text \<open>
  The sign-in from the protocol menu: \<open>team_answer\<close> and \<open>email_answer\<close> are what the user enters. It changes
  the environment and the token of the session.
\<close>

definition enrol_zero_trust ::
  "unicode \<Rightarrow> zt_env \<Rightarrow> u64 \<Rightarrow> str list \<Rightarrow> str option \<Rightarrow> str option \<Rightarrow> env \<times> str option \<Rightarrow> env \<times> str option" where
  "enrol_zero_trust U E now known team_answer email_answer st =
     (let (env, cache) = st;
          ans = trim (case team_answer of Some t \<Rightarrow> t | None \<Rightarrow> []);
          team = (if ans = [] then (case known of t # _ \<Rightarrow> Some t | [] \<Rightarrow> None) else normalize_team U ans) in
      case team of
        None \<Rightarrow> (env, cache)
      | Some team \<Rightarrow>
          let env = env(lit ''AETHER_TEAM'' := Some team) in
          if team \<in> set known then (env, cache)
          else (case team_from_env U env of
              None \<Rightarrow> (env(lit ''AETHER_TEAM'' := None), cache)
            | Some settings \<Rightarrow>
                let needs = \<not> (ts_token settings \<noteq> None \<or> has_service_token settings \<or> ts_email settings \<noteq> None);
                    email = trim (case email_answer of Some t \<Rightarrow> t | None \<Rightarrow> []) in
                if needs \<and> email = [] then (env(lit ''AETHER_TEAM'' := None), cache)
                else
                  let env = (if needs then env(lit ''AETHER_ACCESS_EMAIL'' := Some email) else env) in
                  (case team_from_env U env of
                     None \<Rightarrow> (env(lit ''AETHER_TEAM'' := None), cache)
                   | Some settings \<Rightarrow>
                       (case resolve_token E now now cache settings of
                          (cache, Inr _) \<Rightarrow> (env, cache)
                        | (cache, Inl _) \<Rightarrow> (env(lit ''AETHER_TEAM'' := None, lit ''AETHER_ACCESS_EMAIL'' := None), cache)))))"

text \<open>The protocol menu over the answers that are given; \<open>None\<close> while another answer is awaited.\<close>

fun select_protocol ::
  "unicode \<Rightarrow> zt_env \<Rightarrow> u64 \<Rightarrow> str list \<Rightarrow> (str option \<times> str option \<times> str option) list \<Rightarrow> env \<times> str option
    \<Rightarrow> (protocol \<times> env \<times> str option) option" where
  "select_protocol U E now known inputs (env, cache) =
     (case env (lit ''AETHER_PROTOCOL'') of
        Some v \<Rightarrow> Some (protocol_parse U v, env, cache)
      | None \<Rightarrow>
          (case inputs of
             [] \<Rightarrow> None
           | (choice, team, email) # rest \<Rightarrow>
               if choice = Some (lit ''2'') then Some (WireGuardProto, env, cache)
               else if choice = Some (lit ''3'') then Some (WarpInWarp, env, cache)
               else if choice = Some (lit ''4'') then select_protocol U E now known rest (enrol_zero_trust U E now known team email (env, cache))
               else Some (MasqueProto, env, cache)))"

declare select_protocol.simps [simp del]

subsection \<open>Scans\<close>

record scan_ctx =
  sx_tuning :: tuning
  sx_v6 :: bool
  sx_rng :: scan_rng
  sx_now :: nat
  sx_probes :: "nat \<Rightarrow> candidate list \<Rightarrow> scan_item list"

definition result_addr :: "probe_result \<Rightarrow> sock_addr" where
  "result_addr pr = sock_addr_new (pr_ip pr) (pr_port pr)"

definition hunt_masque_peer :: "unicode \<Rightarrow> env \<Rightarrow> scan_ctx \<Rightarrow> str \<Rightarrow> ip_scan \<Rightarrow> sock_addr result option" where
  "hunt_masque_peer U env X mode_str ip =
     map_option (map_sum id result_addr)
       (hunt_best_gateway (sx_tuning X) env (scan_mode_parse U mode_str) MASQUE_PORTS ip (sx_v6 X) (sx_rng X) (sx_now X) (sx_probes X))"

definition invalid_ipv4 :: aether_error where
  "invalid_ipv4 = Other (lit ''invalid ipv4'')"

definition select_wg_peers ::
  "unicode \<Rightarrow> env \<Rightarrow> scan_ctx \<Rightarrow> identity \<Rightarrow> str \<Rightarrow> ip_scan \<Rightarrow> nat \<Rightarrow> sock_addr list result option" where
  "select_wg_peers U env X i mode_str ip want =
     (if parse_ipv4 (id_ipv4 i) = None then Some (Inl invalid_ipv4)
      else map_option (map_sum id (map result_addr))
        (hunt_wg_endpoints (sx_tuning X) env (scan_mode_parse U mode_str) want WG_PORTS ip (sx_v6 X) {} (sx_rng X) (sx_now X) (sx_probes X)))"

definition hunt_wg_peer_with_profile ::
  "unicode \<Rightarrow> env \<Rightarrow> scan_ctx \<Rightarrow> identity \<Rightarrow> str \<Rightarrow> ip_scan \<Rightarrow> sock_addr set \<Rightarrow> sock_addr result option" where
  "hunt_wg_peer_with_profile U env X i mode_str ip excluded =
     (if parse_ipv4 (id_ipv4 i) = None then Some (Inl invalid_ipv4)
      else map_option (map_sum id result_addr)
        (hunt_best_wg_endpoint (sx_tuning X) env (scan_mode_parse U mode_str) WG_PORTS ip (sx_v6 X) excluded (sx_rng X) (sx_now X) (sx_probes X)))"

type_synonym wg_choice = "sock_addr \<times> aether_noize_config \<times> str"

definition wg_profile_candidates :: "env \<Rightarrow> (str \<times> aether_noize_config) list" where
  "wg_profile_candidates env =
     (let primary = (case env (lit ''AETHER_NOIZE'') of Some v \<Rightarrow> v | None \<Rightarrow> lit ''balanced'');
          names = (if env (lit ''AETHER_WG_NO_PROFILE_RETRY'') = None then
              foldl (\<lambda>ns fallback. if list_ex (\<lambda>n. eq_ignore_ascii_case n fallback) ns then ns else ns @ [fallback]) [primary]
                [lit ''balanced'', lit ''aggressive'', lit ''light'', lit ''off'']
            else [primary]) in
      map (\<lambda>n. (n, an_from_profile n)) names)"

text \<open>The scan with one profile after the other; \<open>X\<close> gives the scan of each.\<close>

fun hunt_wg_peer ::
  "unicode \<Rightarrow> env \<Rightarrow> (str \<Rightarrow> scan_ctx) \<Rightarrow> identity \<Rightarrow> str \<Rightarrow> ip_scan \<Rightarrow> sock_addr set
    \<Rightarrow> (str \<times> aether_noize_config) list \<Rightarrow> wg_choice result option" where
  "hunt_wg_peer U env X i mode_str ip excluded [] = Some (Inl NoCleanEndpoint)"
| "hunt_wg_peer U env X i mode_str ip excluded ((name, profile) # cs) =
     (case hunt_wg_peer_with_profile U env (X name) i mode_str ip excluded of
        None \<Rightarrow> None
      | Some (Inr peer) \<Rightarrow> Some (Inr (peer, profile, name))
      | Some (Inl _) \<Rightarrow> hunt_wg_peer U env X i mode_str ip excluded cs)"

definition masque_noize_name :: "env \<Rightarrow> str" where
  "masque_noize_name env = (case env (lit ''AETHER_NOIZE'') of Some v \<Rightarrow> v | None \<Rightarrow> lit ''firewall'')"

definition aethernoize_config :: "env \<Rightarrow> aether_noize_config" where
  "aethernoize_config env = an_from_profile (case env (lit ''AETHER_NOIZE'') of Some v \<Rightarrow> v | None \<Rightarrow> lit ''balanced'')"

text \<open>The mode and the address family of a loop's scans: settled before the loop, and not asked for when a peer is known.\<close>

definition scan_settings :: "unicode \<Rightarrow> env \<Rightarrow> bool \<Rightarrow> str option \<Rightarrow> str option \<Rightarrow> str \<times> ip_scan" where
  "scan_settings U env known mode_answer ip_answer =
     (if known then ([], ScanV4) else (select_scan_mode_str env mode_answer, select_ip_version U env ip_answer))"

subsection \<open>The MASQUE loop\<close>

text \<open>What a round ends in: a connection, a pause before the next round, an error, or a scan still drawing random numbers.\<close>

datatype 'a round = Use 'a | Pause | GiveUp aether_error | Drawing

definition addr_var :: "env \<Rightarrow> str \<Rightarrow> sock_addr option" where
  "addr_var env name = Option.bind (env name) parse_sock_addr"

definition cached_peer :: "env \<Rightarrow> last_connection option \<Rightarrow> str option \<Rightarrow> sock_addr option" where
  "cached_peer env last_conn ans =
     (case last_conn of
        None \<Rightarrow> None
      | Some c \<Rightarrow>
          (case parse_sock_addr (lc_peer c) of
             Some p \<Rightarrow> if want_quick_reconnect env ans then Some p else None
           | None \<Rightarrow> None))"

text \<open>The peer to start with, before the loop: the organization's, else the last one, if it verifies.\<close>

definition masque_quick_peer :: "env \<Rightarrow> (sock_addr \<Rightarrow> bool) \<Rightarrow> last_connection option \<Rightarrow> str option \<Rightarrow> sock_addr option" where
  "masque_quick_peer env verify last_conn ans =
     (if env (lit ''AETHER_PEER'') \<noteq> None then None
      else
        let assigned = (case addr_var env (lit ''AETHER_TEAM_ENDPOINT'') of Some p \<Rightarrow> if verify p then Some p else None | None \<Rightarrow> None) in
        case assigned of
          Some p \<Rightarrow> Some p
        | None \<Rightarrow> (case cached_peer env last_conn ans of Some p \<Rightarrow> if verify p then Some p else None | None \<Rightarrow> None))"

text \<open>\<open>ml_lastconn\<close> is what was last handed to \<open>lastconn::save\<close>.\<close>

record masque_loop =
  ml_quick :: "sock_addr option"
  ml_last_good :: "sock_addr option"
  ml_lastconn :: "last_connection option"

definition masque_round ::
  "str option \<Rightarrow> (sock_addr \<Rightarrow> bool) \<Rightarrow> sock_addr result option \<Rightarrow> masque_loop \<Rightarrow> sock_addr round" where
  "masque_round forced verify hunt st =
     (case ml_quick st of
        Some p \<Rightarrow> Use p
      | None \<Rightarrow>
          (case (case ml_last_good st of Some p \<Rightarrow> if verify p then Some p else None | None \<Rightarrow> None) of
             Some p \<Rightarrow> Use p
           | None \<Rightarrow>
               (case forced of
                  Some f \<Rightarrow>
                    (case parse_sock_addr f of
                       Some p \<Rightarrow> Use p
                     | None \<Rightarrow> GiveUp (Other (lit ''bad peer address '' @ f)))
                | None \<Rightarrow>
                    (case hunt of
                       None \<Rightarrow> Drawing
                     | Some (Inr p) \<Rightarrow> Use p
                     | Some (Inl _) \<Rightarrow> Pause))))"

definition masque_after :: "str option \<Rightarrow> str \<Rightarrow> sock_addr round \<Rightarrow> masque_loop \<Rightarrow> masque_loop" where
  "masque_after forced profile r st =
     (case r of
        Use p \<Rightarrow>
          \<lparr>ml_quick = None, ml_last_good = Some p,
           ml_lastconn = (if forced = None then Some \<lparr>lc_peer = show_sock_addr p, lc_profile = profile\<rparr> else ml_lastconn st)\<rparr>
      | _ \<Rightarrow> st)"

definition forced_wg_peer :: "env \<Rightarrow> str option" where
  "forced_wg_peer env = (case env (lit ''AETHER_WG_PEER'') of Some p \<Rightarrow> Some p | None \<Rightarrow> env (lit ''AETHER_PEER''))"

text \<open>One peer outside of the loops.\<close>

definition select_peer ::
  "unicode \<Rightarrow> env \<Rightarrow> scan_ctx \<Rightarrow> identity \<Rightarrow> protocol \<Rightarrow> str option \<Rightarrow> str option \<Rightarrow> sock_addr result outcome option" where
  "select_peer U env X i proto mode_answer ip_answer =
     (case (if proto = MasqueProto then env (lit ''AETHER_PEER'') else forced_wg_peer env) of
        Some p \<Rightarrow>
          Some (Ret (case parse_sock_addr p of Some a \<Rightarrow> Inr a | None \<Rightarrow> Inl (Other (lit ''bad peer address '' @ p))))
      | None \<Rightarrow>
          let mode_str = select_scan_mode_str env mode_answer; ip = select_ip_version U env ip_answer in
          if proto = MasqueProto then map_option Ret (hunt_masque_peer U env X mode_str ip)
          else map_option (\<lambda>r. case r of Inl e \<Rightarrow> Ret (Inl e) | Inr [] \<Rightarrow> Panic | Inr (p # _) \<Rightarrow> Ret (Inr p))
            (select_wg_peers U env X i mode_str ip 1))"

text \<open>The ECH configuration; \<open>fetched\<close> is what the resolvers answer and \<open>decode\<close> the base64 reader.\<close>

definition resolve_ech :: "env \<Rightarrow> bytes result \<Rightarrow> (str \<Rightarrow> bytes result) \<Rightarrow> bytes option" where
  "resolve_ech env fetched decode =
     (case env (lit ''AETHER_ECH'') of
        None \<Rightarrow> None
      | Some v \<Rightarrow>
          if eq_ignore_ascii_case v (lit ''auto'') then (case fetched of Inr raw \<Rightarrow> Some raw | Inl _ \<Rightarrow> None)
          else if v \<noteq> [] then (case decode (trim v) of Inr raw \<Rightarrow> Some raw | Inl _ \<Rightarrow> None)
          else None)"

definition masque_reconnect_delay :: "env \<Rightarrow> nat" where
  "masque_reconnect_delay env = env_secs env (lit ''AETHER_MASQUE_RECONNECT_SECS'') 2"

definition masque_startup_timeout :: "env \<Rightarrow> nat" where
  "masque_startup_timeout env = env_secs env (lit ''AETHER_MASQUE_STARTUP_SECS'') 30"

definition wg_reconnect_delay :: "env \<Rightarrow> nat" where
  "wg_reconnect_delay env = env_secs env (lit ''AETHER_WG_RECONNECT_SECS'') 2"

definition wg_endpoint_cooldown :: "env \<Rightarrow> nat" where
  "wg_endpoint_cooldown env = env_secs env (lit ''AETHER_WG_ENDPOINT_COOLDOWN_SECS'') 300"

definition wg_tunnel_validate_timeout :: "env \<Rightarrow> nat" where
  "wg_tunnel_validate_timeout env = env_secs env (lit ''AETHER_WG_VALIDATE_SECS'') 10"

definition wg_keepalive_secs :: "env \<Rightarrow> nat" where
  "wg_keepalive_secs env =
     (case Option.bind (env (lit ''AETHER_WG_KEEPALIVE'')) (parse_uint 16) of Some v \<Rightarrow> if 0 < v then v else 5 | None \<Rightarrow> 5)"

subsection \<open>The WireGuard loop\<close>

definition MAX_CONSECUTIVE_FAILS :: nat where "MAX_CONSECUTIVE_FAILS = 2"

record wg_loop =
  wl_quick :: "wg_choice option"
  wl_last_good :: "wg_choice option"
  wl_fails :: nat
  wl_cooldowns :: "sock_addr \<rightharpoonup> nat"
  wl_lastconn :: "last_connection option"

text \<open>The start of a round: cooldowns that are over are dropped, and an endpoint that failed too often goes into one.\<close>

definition wg_cool_down :: "nat \<Rightarrow> nat \<Rightarrow> wg_loop \<Rightarrow> wg_loop" where
  "wg_cool_down now cooldown st =
     (let live = (\<lambda>p. case wl_cooldowns st p of Some until \<Rightarrow> if now < until then Some until else None | None \<Rightarrow> None);
          st = st\<lparr>wl_cooldowns := live\<rparr> in
      if MAX_CONSECUTIVE_FAILS \<le> wl_fails st then
        (case wl_last_good st of
           Some (peer, _) \<Rightarrow> st\<lparr>wl_cooldowns := live(peer \<mapsto> now + cooldown), wl_last_good := None, wl_fails := 0\<rparr>
         | None \<Rightarrow> st\<lparr>wl_fails := 0\<rparr>)
      else st)"

fun first_verified :: "(sock_addr \<Rightarrow> aether_noize_config \<Rightarrow> bool) \<Rightarrow> sock_addr \<Rightarrow> (str \<times> aether_noize_config) list \<Rightarrow> wg_choice option" where
  "first_verified verify p [] = None"
| "first_verified verify p ((name, profile) # cs) =
     (if verify p profile then Some (p, profile, name) else first_verified verify p cs)"

definition wg_quick_peer ::
  "env \<Rightarrow> (sock_addr \<Rightarrow> aether_noize_config \<Rightarrow> bool) \<Rightarrow> last_connection option \<Rightarrow> str option \<Rightarrow> wg_choice option" where
  "wg_quick_peer env verify last_conn ans =
     (if env (lit ''AETHER_WG_PEER'') \<noteq> None \<or> env (lit ''AETHER_PEER'') \<noteq> None then None
      else
        case (case addr_var env (lit ''AETHER_TEAM_ENDPOINT'') of
                Some p \<Rightarrow> first_verified verify p (wg_profile_candidates env)
              | None \<Rightarrow> None) of
          Some c \<Rightarrow> Some c
        | None \<Rightarrow>
            (case cached_peer env last_conn ans of
               None \<Rightarrow> None
             | Some p \<Rightarrow>
                 let name = (case last_conn of Some c \<Rightarrow> lc_profile c | None \<Rightarrow> []) in
                 if verify p (an_from_profile name) then Some (p, an_from_profile name, name) else None))"

text \<open>The choice of a round; \<open>hunt\<close> is the scan that leaves out a set of endpoints.\<close>

definition wg_choose ::
  "str option \<Rightarrow> (str \<times> aether_noize_config) list \<Rightarrow> (sock_addr \<Rightarrow> aether_noize_config \<Rightarrow> bool)
    \<Rightarrow> (sock_addr set \<Rightarrow> wg_choice result option) \<Rightarrow> wg_loop \<Rightarrow> wg_choice round" where
  "wg_choose forced profiles verify hunt st =
     (case wl_quick st of
        Some c \<Rightarrow> Use c
      | None \<Rightarrow>
          (case (case wl_last_good st of
                   Some (p, profile, name) \<Rightarrow> if verify p profile then Some (p, profile, name) else None
                 | None \<Rightarrow> None) of
             Some c \<Rightarrow> Use c
           | None \<Rightarrow>
               (case forced of
                  Some f \<Rightarrow>
                    (case parse_sock_addr f of
                       None \<Rightarrow> GiveUp (Other (lit ''bad peer address '' @ f))
                     | Some p \<Rightarrow>
                         (case first_verified verify p profiles of
                            Some c \<Rightarrow> Use c
                          | None \<Rightarrow> GiveUp NoCleanEndpoint))
                | None \<Rightarrow>
                    (case hunt (dom (wl_cooldowns st)) of
                       None \<Rightarrow> Drawing
                     | Some (Inr c) \<Rightarrow> Use c
                     | Some (Inl _) \<Rightarrow> Pause))))"

text \<open>A whole round; after the tunnel has ended, in whatever way, the endpoint has failed once more.\<close>

definition wg_after :: "str option \<Rightarrow> wg_choice round \<Rightarrow> wg_loop \<Rightarrow> wg_loop" where
  "wg_after forced r st =
     (case r of
        Use (peer, profile, name) \<Rightarrow>
          st\<lparr>wl_quick := None, wl_last_good := Some (peer, profile, name),
             wl_fails := (if map_option fst (wl_last_good st) = Some peer then wl_fails st else 0) + 1,
             wl_lastconn := (if forced = None then Some \<lparr>lc_peer = show_sock_addr peer, lc_profile = name\<rparr> else wl_lastconn st)\<rparr>
      | _ \<Rightarrow> st)"

definition wg_round ::
  "str option \<Rightarrow> (str \<times> aether_noize_config) list \<Rightarrow> nat \<Rightarrow> nat \<Rightarrow> (sock_addr \<Rightarrow> aether_noize_config \<Rightarrow> bool)
    \<Rightarrow> (sock_addr set \<Rightarrow> wg_choice result option) \<Rightarrow> wg_loop \<Rightarrow> wg_choice round \<times> wg_loop" where
  "wg_round forced profiles now cooldown verify hunt st =
     (let st = wg_cool_down now cooldown st; r = wg_choose forced profiles verify hunt st in (r, wg_after forced r st))"

subsection \<open>The warp-in-warp loop\<close>

record gool_loop =
  gl_peer :: "sock_addr option"
  gl_inner :: "sock_addr option"
  gl_fails :: nat

text \<open>The scan's first two endpoints; indexing an empty list would panic.\<close>

definition gool_round :: "sock_addr list result option \<Rightarrow> gool_loop \<Rightarrow> ((sock_addr \<times> sock_addr) round \<times> gool_loop) outcome" where
  "gool_round found st =
     (let with_pair = (\<lambda>(peer, inner) st.
            case inner of
              None \<Rightarrow> Ret (Pause, st\<lparr>gl_peer := None, gl_inner := None\<rparr>)
            | Some inner \<Rightarrow>
                Ret (Use (peer, inner), st\<lparr>gl_peer := Some peer, gl_inner := Some inner, gl_fails := gl_fails st + 1\<rparr>)) in
      case (if gl_fails st < MAX_CONSECUTIVE_FAILS then gl_peer st else None) of
        Some p \<Rightarrow> with_pair (p, gl_inner st) st
      | None \<Rightarrow>
          (case found of
             None \<Rightarrow> Ret (Drawing, st)
           | Some (Inl _) \<Rightarrow> Ret (Pause, st)
           | Some (Inr []) \<Rightarrow> Panic
           | Some (Inr (outer # rest)) \<Rightarrow>
               with_pair (outer, case rest of inner # _ \<Rightarrow> Some inner | [] \<Rightarrow> None) (st\<lparr>gl_fails := 0\<rparr>)))"

subsection \<open>The tasks of a tunnel\<close>

datatype task = StackTask | BridgeTask | TunnelTask | SocksTask | HttpTask | OuterStack | OuterTask | InnerStack | InnerTask | ForwarderTask

text \<open>
  What happens to tasks: a task is started; its handle is awaited and yields its result (so it has ended);
  it is aborted; or its handle is dropped, which leaves it running.
\<close>

datatype task_event = Spawn task | Joined task | Abort task | Detach task

datatype 'a joined = JoinOk 'a | JoinCancelled str | JoinPanicked str

definition join_outcome :: "str \<Rightarrow> unit result joined \<Rightarrow> unit result" where
  "join_outcome what r =
     (case r of
        JoinOk (Inr _) \<Rightarrow> Inl (Other (what @ lit '' stopped''))
      | JoinOk (Inl e) \<Rightarrow> Inl e
      | JoinCancelled e \<Rightarrow> Inl (Other (what @ lit '' was cancelled''))
      | JoinPanicked e \<Rightarrow> Inl (Other (what @ lit '' panicked: '' @ e)))"

text \<open>\<open>TaskGuard\<close>: when it is dropped, every task pushed into it is aborted.\<close>

definition guard_drop :: "task list \<Rightarrow> task_event list" where
  "guard_drop pushed = map Abort pushed"

text \<open>\<open>netstack::spawn\<close> starts the loop of the stack as a task of its own and drops the handle.\<close>

definition spawn_stack :: "task \<Rightarrow> task_event list" where
  "spawn_stack t = [Spawn t, Detach t]"

definition http_proxy_listen :: "env \<Rightarrow> sock_addr option" where
  "http_proxy_listen env =
     (case env (lit ''AETHER_HTTP_PROXY'') of
        None \<Rightarrow> None
      | Some raw \<Rightarrow> if trim raw = [] then None else parse_sock_addr (trim raw))"

definition show_join :: "(io_error \<Rightarrow> str) \<Rightarrow> unit result joined \<Rightarrow> str" where
  "show_join show_io r =
     (case r of
        JoinOk (Inr _) \<Rightarrow> lit ''tunnel exited before validation''
      | JoinOk (Inl e) \<Rightarrow> lit ''tunnel failed before validation: '' @ show_error show_io e
      | JoinCancelled e \<Rightarrow> lit ''tunnel task join error: '' @ e
      | JoinPanicked e \<Rightarrow> lit ''tunnel task join error: '' @ e)"

text \<open>What the wait for the tunnel's validation ends in.\<close>

datatype ready = ReadySignal | ReadyDropped | ReadyTimeout

definition run_masque_tunnel ::
  "(io_error \<Rightarrow> str) \<Rightarrow> str \<Rightarrow> env \<Rightarrow> aether_error option \<Rightarrow> ready \<Rightarrow> unit result joined \<Rightarrow> task_event list \<times> unit result" where
  "run_masque_tunnel show_io timeout_text env stack_error ready tunnel =
     (case stack_error of
        Some e \<Rightarrow> ([], Inl e)
      | None \<Rightarrow>
          let started = spawn_stack StackTask @ [Spawn BridgeTask, Spawn TunnelTask] in
          (case ready of
             ReadyDropped \<Rightarrow>
               (started @ [Joined TunnelTask] @ guard_drop [BridgeTask, TunnelTask], Inl (Other (show_join show_io tunnel)))
           | ReadyTimeout \<Rightarrow>
               (started @ [Abort TunnelTask, Joined TunnelTask] @ guard_drop [BridgeTask, TunnelTask],
                Inl (Other (lit ''tunnel startup timed out after '' @ timeout_text)))
           | ReadySignal \<Rightarrow>
               let http = (if http_proxy_listen env \<noteq> None then [HttpTask] else []) in
               (started @ [Spawn SocksTask] @ map Spawn http @ [Joined TunnelTask] @ map Abort http @ [Abort SocksTask]
                  @ guard_drop ([BridgeTask, TunnelTask, SocksTask] @ http),
                (case tunnel of
                   JoinOk (Inr _) \<Rightarrow> Inr ()
                 | JoinOk (Inl e) \<Rightarrow> Inl (Other (lit ''tunnel exited: '' @ show_error show_io e))
                 | JoinCancelled e \<Rightarrow> Inl (Other (lit ''tunnel task join error: '' @ e))
                 | JoinPanicked e \<Rightarrow> Inl (Other (lit ''tunnel task join error: '' @ e))))))"

text \<open>The validation of the WireGuard endpoint comes first; the tunnel itself runs in the calling task.\<close>

definition run_wireguard_tunnel ::
  "(io_error \<Rightarrow> str) \<Rightarrow> env \<Rightarrow> identity \<Rightarrow> unit result \<Rightarrow> aether_error option \<Rightarrow> unit result \<Rightarrow> task_event list \<times> unit result" where
  "run_wireguard_tunnel show_io env i validated stack_error tunnel =
     (if parse_ipv4 (id_ipv4 i) = None then ([], Inl invalid_ipv4)
      else case validated of
        Inl e \<Rightarrow> ([], Inl (Other (lit ''tunnel failed validation: '' @ show_error show_io e)))
      | Inr _ \<Rightarrow>
          (case stack_error of
             Some e \<Rightarrow> ([], Inl e)
           | None \<Rightarrow>
               let http = (if http_proxy_listen env \<noteq> None then [HttpTask] else []) in
               (spawn_stack StackTask @ [Spawn SocksTask] @ map Spawn http @ map Abort http @ [Abort SocksTask, Joined SocksTask] @ guard_drop (SocksTask # http),
                (case tunnel of Inr _ \<Rightarrow> Inr () | Inl e \<Rightarrow> Inl (Other (lit ''wireguard tunnel exited: '' @ show_error show_io e))))))"

definition establish_wg ::
  "(io_error \<Rightarrow> str) \<Rightarrow> str \<Rightarrow> task \<times> task \<Rightarrow> identity \<Rightarrow> unit result \<Rightarrow> aether_error option \<Rightarrow> task_event list \<times> unit result" where
  "establish_wg show_io label t i validated stack_error =
     (if parse_ipv4 (id_ipv4 i) = None then ([], Inl invalid_ipv4)
      else case validated of
        Inl e \<Rightarrow> ([], Inl (Other (lit ''['' @ label @ lit ''] tunnel failed validation: '' @ show_error show_io e)))
      | Inr _ \<Rightarrow> (case stack_error of Some e \<Rightarrow> ([], Inl e) | None \<Rightarrow> (spawn_stack (fst t) @ [Spawn (snd t)], Inr ())))"

datatype winner = WinOuter | WinInner | WinSocks

text \<open>
  Two tunnels, one inside the other, and the servers on the inner one. Whichever of the three tasks ends
  first is \<open>winner\<close>, with its result; the other two are aborted and awaited. Handles dropped on an early
  return leave their tasks to end by themselves; the forwarder is guarded.
\<close>

definition run_warp_in_warp ::
  "(io_error \<Rightarrow> str) \<Rightarrow> env \<Rightarrow> identity \<Rightarrow> identity \<Rightarrow> sock_addr \<Rightarrow> sock_addr \<Rightarrow> unit result \<times> aether_error option
    \<Rightarrow> aether_error option \<Rightarrow> unit result \<times> aether_error option \<Rightarrow> winner \<Rightarrow> unit result joined \<Rightarrow> task_event list \<times> unit result" where
  "run_warp_in_warp show_io env primary secondary peer inner_peer outer forward inner w r =
     (if sa_ip inner_peer = sa_ip peer then
        ([], Inl (Other (lit ''warp-in-warp needs two separate edges but both hops landed on '' @ show_ip (sa_ip peer))))
      else case establish_wg show_io (lit ''outer'') (OuterStack, OuterTask) primary (fst outer) (snd outer) of
        (evs, Inl e) \<Rightarrow> (evs, Inl e)
      | (evs, Inr _) \<Rightarrow>
          (case forward of
             Some e \<Rightarrow> (evs @ [Detach OuterTask], Inl e)
           | None \<Rightarrow>
               (case establish_wg show_io (lit ''inner'') (InnerStack, InnerTask) secondary (fst inner) (snd inner) of
                  (evs2, Inl e) \<Rightarrow> (evs @ [Spawn ForwarderTask] @ evs2 @ [Abort ForwarderTask, Detach OuterTask], Inl e)
                | (evs2, Inr _) \<Rightarrow>
                    let http = (if http_proxy_listen env \<noteq> None then [HttpTask] else []);
                        (won, what) = (case w of
                            WinOuter \<Rightarrow> (OuterTask, lit ''outer wireguard tunnel'')
                          | WinInner \<Rightarrow> (InnerTask, lit ''inner wireguard tunnel'')
                          | WinSocks \<Rightarrow> (SocksTask, lit ''socks5 server'')) in
                    (evs @ [Spawn ForwarderTask] @ evs2 @ map Spawn http @ [Spawn SocksTask] @ [Joined won] @ map Abort http
                       @ concat (map (\<lambda>t. if t = won then [] else [Abort t, Joined t]) [OuterTask, InnerTask, SocksTask])
                       @ [Abort ForwarderTask],
                     join_outcome what r))))"

section \<open>Correctness\<close>

subsection \<open>Files of teams\<close>

lemma base_parts: "base = dir_part base @ file_part base"
proof -
  have "dir_part base @ rev (takeWhile (\<lambda>c. \<not> is_separator c) (rev base)) = rev (takeWhile (\<lambda>c. \<not> is_separator c) (rev base) @ dropWhile (\<lambda>c. \<not> is_separator c) (rev base))"
    by (simp only: dir_part_def rev_append)
  also have "\<dots> = base" by simp
  finally have whole: "dir_part base @ rev (takeWhile (\<lambda>c. \<not> is_separator c) (rev base)) = base" .
  then have "file_part base = rev (takeWhile (\<lambda>c. \<not> is_separator c) (rev base))"
    unfolding file_part_def by (metis append_eq_conv_conj)
  with whole show ?thesis by simp
qed

lemma file_part_plain: "list_all (\<lambda>c. \<not> is_separator c) (file_part base)"
proof -
  have "file_part base = rev (takeWhile (\<lambda>c. \<not> is_separator c) (rev base))"
  proof -
    have "rev (rev base) = dir_part base @ rev (takeWhile (\<lambda>c. \<not> is_separator c) (rev base))"
      by (simp only: dir_part_def rev_append [symmetric] takeWhile_dropWhile_id)
    then show ?thesis by (metis rev_rev_ident base_parts same_append_eq)
  qed
  then show ?thesis by (auto simp: list_all_iff dest: set_takeWhileD)
qed

lemma dir_part_app: "list_all (\<lambda>c. \<not> is_separator c) f \<Longrightarrow> dir_part (dir_part base @ f) = dir_part base"
proof -
  assume f: "list_all (\<lambda>c. \<not> is_separator c) f"
  have "dropWhile (\<lambda>c. \<not> is_separator c) (rev f @ xs) = dropWhile (\<lambda>c. \<not> is_separator c) xs" for xs
    using f by (auto simp: list_all_iff intro: dropWhile_append2)
  moreover have "dropWhile p (dropWhile p xs) = dropWhile p xs" for p and xs :: str by (rule dropWhile_idem)
  ultimately show ?thesis by (simp add: dir_part_def)
qed

definition sibling_file :: "str \<Rightarrow> str \<Rightarrow> str" where
  "sibling_file base suffix =
     (case rsplit_once 46 (file_part base) of
        Some (stem, ext) \<Rightarrow> stem @ lit ''-'' @ suffix @ lit ''.'' @ ext
      | None \<Rightarrow> file_part base @ lit ''-'' @ suffix)"

lemma sibling_parts: "derive_sibling_path base suffix = dir_part base @ sibling_file base suffix"
  using base_parts [of base]
  by (auto simp: derive_sibling_path_def sibling_file_def split: option.splits)

lemma sibling_plain:
  assumes "list_all (\<lambda>c. \<not> is_separator c) suffix"
  shows "list_all (\<lambda>c. \<not> is_separator c) (sibling_file base suffix)"
proof -
  have "list_all (\<lambda>c. \<not> is_separator c) stem \<and> list_all (\<lambda>c. \<not> is_separator c) ext" if "rsplit_once 46 (file_part base) = Some (stem, ext)" for stem ext
    using that file_part_plain [of base] by (simp add: rsplit_once_Some)
  with assms file_part_plain [of base] show ?thesis
    by (auto simp: sibling_file_def is_separator_def split: option.splits)
qed

lemma sibling_inj: "derive_sibling_path base a = derive_sibling_path base b \<longleftrightarrow> a = b"
  by (auto simp: sibling_parts sibling_file_def split: option.splits)

lemma sibling_dir:
  assumes "list_all (\<lambda>c. \<not> is_separator c) suffix"
  shows "dir_part (derive_sibling_path base suffix) = dir_part base"
  unfolding sibling_parts using sibling_plain [OF assms] by (rule dir_part_app)

lemma team_plain: "list_all (\<lambda>c. team_char c \<and> \<not> is_upper c) t \<Longrightarrow> list_all (\<lambda>c. \<not> is_separator c) (lit ''team-'' @ t)"
  by (auto simp: list_all_iff is_separator_def team_char_def chr_defs)

lemma sibling_longer: "length (derive_sibling_path base s) > length base"
  using base_parts [of base] arg_cong [OF base_parts [of base], of length]
  by (auto simp: derive_sibling_path_def rsplit_once_Some split: option.splits dest!: arg_cong [of _ _ length])

lemma sibling_differs: "derive_sibling_path base s \<noteq> base"
  using sibling_longer [of base s] by auto

text \<open>A sibling of a sibling is the sibling with both suffixes.\<close>

lemma sibling_twice:
  assumes "list_all (\<lambda>c. \<not> is_separator c) s" "46 \<notin> set s"
  shows "derive_sibling_path (derive_sibling_path base s) s' = derive_sibling_path base (s @ lit ''-'' @ s')"
proof -
  have d: "dir_part (derive_sibling_path base s) = dir_part base" using assms(1) by (rule sibling_dir)
  then have f: "file_part (derive_sibling_path base s) = sibling_file base s" by (simp add: file_part_def sibling_parts)
  show ?thesis
  proof (cases "rsplit_once 46 (file_part base)")
    case None
    then have "rsplit_once 46 (file_part base @ lit ''-'' @ s) = None" using assms(2) by (simp add: rsplit_once_None)
    with None f show ?thesis by (simp add: derive_sibling_path_def sibling_file_def)
  next
    case (Some p)
    then obtain stem ext where p: "rsplit_once 46 (file_part base) = Some (stem, ext)" by (cases p) simp
    then have "rsplit_once 46 (stem @ lit ''-'' @ s @ lit ''.'' @ ext) = Some (stem @ lit ''-'' @ s, ext)"
      by (simp add: rsplit_once_Some)
    with p d f show ?thesis by (simp add: derive_sibling_path_def sibling_file_def)
  qed
qed

lemma team_paths:
  assumes "env (lit ''AETHER_WG_CONFIG'') = None" "env (lit ''AETHER_MASQUE_CONFIG'') = None"
    and e_def: "e = (\<lambda>raw. env(lit ''AETHER_TEAM'' := Some raw))"
  shows "normalize_team U raw = Some t \<Longrightarrow> warp_config_path U (e raw) base = derive_sibling_path base (lit ''team-'' @ t)"
    and "normalize_team U raw = Some t \<Longrightarrow> masque_config_path U (e raw) base = derive_sibling_path base (lit ''team-'' @ t)"
    and "normalize_team U raw = None \<Longrightarrow> warp_config_path U (e raw) base = base"
    and "normalize_team U raw = None \<Longrightarrow> masque_config_path U (e raw) base = derive_sibling_path base (lit ''masque'')"
  using assms(1,2) by (simp_all add: e_def warp_config_path_def masque_config_path_def team_scope_def team_from_env_def)

text \<open>
  C39: Whatever a user enters as a team, the team's name consists of lower-case letters, digits, hyphens and
  underscores (normalizing it again changes nothing). Unless a variable names the files, the identity of
  the team has one file for all protocols, in the directory of the base file; it is neither of the two
  personal files, and the files of two teams differ. Only the files beside it are not kept apart: the last
  connection of a team is the identity file of exactly the team with \<open>-lastconn\<close> after its name, and the
  second identity that of the team with \<open>-secondary\<close>.
\<close>

theorem team_files_safe:
  assumes "lowers U" "env (lit ''AETHER_WG_CONFIG'') = None" "env (lit ''AETHER_MASQUE_CONFIG'') = None"
    and "normalize_team U raw = Some t"
    and e_def: "e = (\<lambda>raw. env(lit ''AETHER_TEAM'' := Some raw))"
  shows "list_all (\<lambda>c. team_char c \<and> \<not> is_upper c) t \<and> normalize_team U t = Some t
    \<and> masque_config_path U (e raw) base = warp_config_path U (e raw) base
    \<and> dir_part (warp_config_path U (e raw) base) = dir_part base
    \<and> (\<forall>raw'. normalize_team U raw' = None \<longrightarrow>
         warp_config_path U (e raw) base \<notin> {warp_config_path U (e raw') base, masque_config_path U (e raw') base})
    \<and> (\<forall>raw' t'. normalize_team U raw' = Some t' \<longrightarrow>
         (warp_config_path U (e raw) base = warp_config_path U (e raw') base \<longleftrightarrow> t = t')
         \<and> (lastconn_path (warp_config_path U (e raw) base) = warp_config_path U (e raw') base \<longleftrightarrow> t' = t @ lit ''-lastconn'')
         \<and> (derive_sibling_path (warp_config_path U (e raw) base) (lit ''secondary'') = warp_config_path U (e raw') base
            \<longleftrightarrow> t' = t @ lit ''-secondary''))"
proof -
  from normalized_chars [OF assms(4,1)] have t: "t \<noteq> []" "list_all (\<lambda>c. team_char c \<and> \<not> is_upper c) t" by auto
  note P = team_paths [OF assms(2,3) e_def]
  have plain: "list_all (\<lambda>c. \<not> is_separator c) (lit ''team-'' @ t)" "46 \<notin> set (lit ''team-'' @ t)"
    using t(2) team_plain [OF t(2)] by (auto simp: list_all_iff team_char_def chr_defs)
  have twice: "derive_sibling_path (derive_sibling_path base (lit ''team-'' @ t)) s
      = derive_sibling_path base (lit ''team-'' @ (t @ lit ''-'' @ s))" for s
    using sibling_twice [OF plain] by simp
  have app: "lit ''-'' @ lit ''lastconn'' = lit ''-lastconn''" "lit ''-'' @ lit ''secondary'' = lit ''-secondary''"
    "lit ''team-'' @ u \<noteq> lit ''masque''" for u by simp_all
  show ?thesis
    using t P(1,2) [where U = U and raw = raw and base = base, OF assms(4)] P(1,3,4) [where U = U and base = base] normalize_team_plain [OF t] sibling_dir [OF plain(1), of base]
      sibling_differs [of base "lit ''team-'' @ t"]
    by (auto simp: sibling_inj lastconn_path_def twice app simp del: lit_simps)
qed

theorem team_files_safe_witness:
  "masque_config_path tiny_unicode [lit ''AETHER_TEAM'' \<mapsto> lit ''acme''] (lit ''d/a.toml'')
      \<noteq> masque_config_path tiny_unicode [lit ''AETHER_TEAM'' \<mapsto> lit ''other''] (lit ''d/a.toml'')
   \<and> dir_part (masque_config_path tiny_unicode [lit ''AETHER_TEAM'' \<mapsto> lit ''acme''] (lit ''d/a.toml'')) = lit ''d/''"
proof -
  have low: "lowers tiny_unicode" by (simp add: lowers_def tiny_unicode_def chr_defs)
  have n: "normalize_team tiny_unicode (lit ''acme'') = Some (lit ''acme'')" "normalize_team tiny_unicode (lit ''other'') = Some (lit ''other'')"
    by (rule normalize_team_plain; simp add: team_char_def chr_defs)+
  have dir: "dir_part (lit ''d/a.toml'') = lit ''d/''" by (simp add: dir_part_def is_separator_def)
  have ne: "lit ''acme'' \<noteq> lit ''other''" by simp
  have no: "Map.empty (lit ''AETHER_WG_CONFIG'') = (None :: str option)" "Map.empty (lit ''AETHER_MASQUE_CONFIG'') = (None :: str option)" by simp_all
  show ?thesis
    using team_files_safe [OF low no n(1) refl, of "lit ''d/a.toml''"] team_files_safe [OF low no n(2) refl, of "lit ''d/a.toml''"]
      n dir ne by (auto simp del: lit_simps)
qed

subsection \<open>Identities\<close>

lemma save_identity_stored:
  assumes "path_file_name path = Some n" "save_identity E path a i = Some (Ret (a', Inr j))"
  shows "j = i \<and> (\<exists>t. cd_toml_encode (oc_codecs E) (persisted_from (oc_codecs E) i) = Inr t \<and> ap_fs a' path = Some (private_file t))"
proof -
  obtain states r where c: "config_save (oc_codecs E) (oc_faults E) (oc_pid E) path i (ap_fs a) = (states, r)" by force
  with assms(2) have r: "r = Inr ()" "j = i" "ap_fs a' = final (ap_fs a) states"
    by (auto simp: save_identity_def split: sum.splits)
  with c obtain t where t: "cd_toml_encode (oc_codecs E) (persisted_from (oc_codecs E) i) = Inr t"
    "write_private (oc_faults E) (oc_pid E) path t (ap_fs a) = (states, Inr ())"
    by (auto simp: config_save_def split: sum.splits)
  from private_write_atomic [OF assms(1) t(2)] r t(1) show ?thesis by auto
qed

definition stored :: "orch \<Rightarrow> str \<Rightarrow> app \<Rightarrow> identity \<Rightarrow> bool" where
  "stored E path a i \<longleftrightarrow>
     (\<exists>t. cd_toml_encode (oc_codecs E) (persisted_from (oc_codecs E) i) = Inr t \<and> ap_fs a path = Some (private_file t))"

lemma saved_stored:
  "path_file_name path = Some n \<Longrightarrow> save_identity E path b j = Some (Ret (a', Inr i)) \<Longrightarrow> stored E path a' i"
  using save_identity_stored [of path n E b j a' i] by (auto simp: stored_def)

lemma fresh_warp_stored:
  assumes "path_file_name path = Some n" "fresh_warp E path a = Some (Ret (a', Inr i))"
  shows "stored E path a' i"
proof -
  obtain b r where r: "provision_account E a = Some (Ret (b, r))"
    "(case r of Inl e \<Rightarrow> Some (Ret (b, Inl e)) | Inr j \<Rightarrow> run_bind (adopt_team_profile E b j) (\<lambda>(a, i). save_identity E path a i))
      = Some (Ret (a', Inr i))"
    using assms(2) by (auto simp: fresh_warp_def run_bind_eq_Ret)
  then show ?thesis using saved_stored [OF assms(1)] by (cases r) (auto simp: run_bind_eq_Ret)
qed

lemma fresh_masque_stored:
  assumes "path_file_name path = Some n" "fresh_masque E path a = Some (Ret (a', Inr i))"
  shows "stored E path a' i"
proof -
  obtain b r where r: "provision_account E a = Some (Ret (b, r))"
    "(case r of Inl e \<Rightarrow> Some (Ret (b, Inl e)) | Inr j \<Rightarrow>
        run_bind (ensure_masque_enrolled (oc_account E) (oc_generated E) j) (\<lambda>enrolled.
         case enrolled of Inl e \<Rightarrow> Some (Ret (b, Inl e))
         | Inr m \<Rightarrow> run_bind (adopt_team_profile E b (with_enrollment j m)) (\<lambda>(a, i). save_identity E path a i)))
      = Some (Ret (a', Inr i))"
    using assms(2) by (auto simp: fresh_masque_def run_bind_eq_Ret)
  then obtain j where j: "r = Inr j" by (cases r) auto
  with r obtain en where en: "(case en of Inl e \<Rightarrow> Some (Ret (b, Inl e))
      | Inr m \<Rightarrow> run_bind (adopt_team_profile E b (with_enrollment j m)) (\<lambda>(a, i). save_identity E path a i)) = Some (Ret (a', Inr i))"
    by (auto simp: run_bind_eq_Ret [of "ensure_masque_enrolled _ _ _"])
  then show ?thesis using saved_stored [OF assms(1)] by (cases en) (auto simp: run_bind_eq_Ret)
qed

lemma provisioned_stored:
  assumes "path_file_name path = Some n"
    and "load_or_provision_masque E path a = Some (Ret (a', Inr i)) \<or> load_or_provision_warp E path a = Some (Ret (a', Inr i))"
  shows "stored E path a' i \<or> id_refused i \<and> \<not> keep_saved_identity (ap_env a')"
proof -
  obtain a0 loaded where l: "load_identity E path a = (a0, loaded)" by force
  note saved = saved_stored [OF assms(1)]
  have replaced: ?thesis if "replace_refused E path b j = Some (Ret (a', Inr i))" "id_refused j" for b j
    using that fresh_masque_stored [OF assms(1)] by (auto simp: replace_refused_def split: if_splits)
  from assms(2) show ?thesis
  proof
    assume run: "load_or_provision_masque E path a = Some (Ret (a', Inr i))"
    show ?thesis
    proof (cases loaded)
      case (Inl e)
      with run l show ?thesis by (simp add: load_or_provision_masque_def)
    next
      case (Inr found)
      show ?thesis
      proof (cases found)
        case None
        with run l Inr have "fresh_masque E path a0 = Some (Ret (a', Inr i))" by (simp add: load_or_provision_masque_def)
        with fresh_masque_stored [OF assms(1)] show ?thesis by blast
      next
        case (Some j)
        show ?thesis
        proof (cases "has_masque_credentials (ac_clock (oc_account E) 0) j")
          case True
          with run l Inr Some obtain b k where "(if \<not> id_refused k then save_identity E path b k else replace_refused E path b k) = Some (Ret (a', Inr i))"
            by (auto simp: load_or_provision_masque_def run_bind_eq_Ret)
          with saved replaced show ?thesis by (auto split: if_split_asm)
        next
          case False
          with run l Inr Some obtain en where en: "(case en of
                Inr m \<Rightarrow> save_identity E path a0 (with_enrollment j m)
              | Inl (IdentityRefused reason) \<Rightarrow> replace_refused E path a0 (j\<lparr>id_refused := True\<rparr>)
              | Inl e \<Rightarrow> Some (Ret (a0, Inl e))) = Some (Ret (a', Inr i))"
            by (auto simp: load_or_provision_masque_def run_bind_eq_Ret)
          show ?thesis
          proof (cases en)
            case (Inl e)
            with en replaced [of a0 "j\<lparr>id_refused := True\<rparr>"] show ?thesis by (cases e) simp_all
          next
            case (Inr m)
            with en saved show ?thesis by simp
          qed
        qed
      qed
    qed
  next
    assume run: "load_or_provision_warp E path a = Some (Ret (a', Inr i))"
    then consider "fresh_warp E path a0 = Some (Ret (a', Inr i))"
      | j where "run_bind (adopt_team_profile E a0 j) (\<lambda>(a, i).
            if \<not> id_refused i then save_identity E path a i
            else if \<not> keep_saved_identity (ap_env a) then Some (Ret (a, Inr i)) else fresh_warp E path a) = Some (Ret (a', Inr i))"
      using l unfolding load_or_provision_warp_def by (auto split: sum.split_asm option.split_asm)
    then show ?thesis
      using fresh_warp_stored [OF assms(1)] saved by cases (auto simp: run_bind_eq_Ret split: if_split_asm)
  qed
qed

text \<open>
  C19: When loading or provisioning an identity succeeds, the identity that is returned is the one in the
  file (complete, readable by its owner only), unless it is a refused identity that the user asked to keep
  (\<open>AETHER_REPROVISION\<close> off). A failure of the save is a failure of the whole.
\<close>

theorem identity_used_is_saved:
  assumes "path_file_name path = Some n"
    and "load_or_provision_masque E path a = Some (Ret (a', Inr i)) \<or> load_or_provision_warp E path a = Some (Ret (a', Inr i))"
  shows "stored E path a' i \<or> id_refused i \<and> \<not> keep_saved_identity (ap_env a')"
  using assms by (rule provisioned_stored)

definition demo_orch :: "direct_answer \<Rightarrow> orch" where
  "demo_orch first =
     \<lparr>oc_unicode = tiny_unicode, oc_account = demo_env first, oc_zt = demo_zt, oc_codecs = demo_codecs, oc_faults = no_faults,
      oc_unreadable = (\<lambda>_. None), oc_pid = 7,
      oc_draw = \<lparr>rd_random = replicate 32 255, rd_public = (\<lambda>_. []), rd_tos = [], rd_serial = [], rd_install_id = [], rd_fcm_token = []\<rparr>,
      oc_generated = Inr \<lparr>mk_key_pem = [1], mk_cert_pem = [2], mk_spki_der = [3]\<rparr>\<rparr>"

definition demo_app :: app where
  "demo_app = \<lparr>ap_fs = [lit ''d/a.toml'' \<mapsto> private_file (lit ''id'')], ap_env = Map.empty, ap_gateway = None, ap_token = None\<rparr>"

lemma no_faults_run: "snd (fs_run no_faults cs s) = None"
  by (induction cs arbitrary: s) (simp_all add: no_faults_def split_beta)

lemma demo_loaded: "load_identity (demo_orch first) (lit ''d/a.toml'') demo_app = (demo_app, Inr (Some (demo_identity\<lparr>id_refused := False\<rparr>)))"
proof -
  have "from_utf8 (utf8_encode (lit ''id'')) = Some (lit ''id'')" by (rule utf8_roundtrip) (simp add: scalar_def)
  moreover have "cd_toml_decode demo_codecs (lit ''id'') = Inr (persisted_from demo_codecs demo_identity)"
    using demo_agrees(1) by (simp add: codecs_agree_def)
  ultimately show ?thesis
    using persisted_roundtrip [OF demo_agrees]
    by (simp add: load_identity_def demo_orch_def demo_app_def config_load_def read_to_string_def private_file_def del: lit_simps)
qed

lemma demo_saved: "\<exists>a'. save_identity (demo_orch first) path a i = Some (Ret (a', Inr i))"
proof -
  obtain t where "cd_toml_encode demo_codecs (persisted_from demo_codecs i) = Inr t" by (simp add: demo_codecs_def Let_def)
  then show ?thesis
    by (simp add: save_identity_def demo_orch_def config_save_def write_private_def Let_def split_beta no_faults_run del: lit_simps)
qed

lemma demo_no_team: "team_scope tiny_unicode Map.empty = None"
  by (simp add: team_scope_def team_from_env_def normalize_team_def to_lowercase_def trim_def trim_start_def trim_end_def)

theorem identity_used_is_saved_witness:
  "\<exists>a'. load_or_provision_masque (demo_orch (SendFails [])) (lit ''d/a.toml'') demo_app = Some (Ret (a', Inr (demo_identity\<lparr>id_refused := False\<rparr>)))
      \<and> stored (demo_orch (SendFails [])) (lit ''d/a.toml'') a' (demo_identity\<lparr>id_refused := False\<rparr>)"
proof -
  let ?E = "demo_orch (SendFails [])" and ?i = "demo_identity\<lparr>id_refused := False\<rparr>" and ?p = "lit ''d/a.toml''"
  obtain a' where s: "save_identity ?E ?p demo_app ?i = Some (Ret (a', Inr ?i))" using demo_saved by blast
  have cred: "has_masque_credentials (ac_clock (oc_account ?E) 0) ?i"
    by (simp add: has_masque_credentials_def demo_identity_def demo_orch_def demo_env_def masque_cert_expiring_def lifetime_secs)
  have team: "team_scope (oc_unicode ?E) (ap_env demo_app) = None" using demo_no_team by (simp add: demo_orch_def demo_app_def)
  have run: "load_or_provision_masque ?E ?p demo_app = Some (Ret (a', Inr ?i))"
    using s cred team by (simp add: load_or_provision_masque_def demo_loaded adopt_team_profile_def del: lit_simps)
  from identity_used_is_saved [OF demo_path disjI1 [OF run]] run show ?thesis by auto
qed

lemma either_route_error: "either_route E label q path bs = Some (Ret (Inl e)) \<Longrightarrow> \<exists>t. e = Api t"
proof -
  assume run: "either_route E label q path bs = Some (Ret (Inl e))"
  obtain d where d: "snd (send_with_retry E label q) = Ret d"
    using run by (cases "snd (send_with_retry E label q)") (auto simp: either_route_def)
  show ?thesis
  proof (cases d)
    case (Inl p)
    obtain r :: "account_data result" where "(case r of Inr account \<Rightarrow> Inr account
        | Inl secondary \<Rightarrow> Inl (Api (label @ lit '': direct route -> '' @ show_error (ac_show_io E) p
            @ lit ''; camouflaged route -> '' @ show_error (ac_show_io E) secondary))) = Inl e"
      using run d Inl by (auto simp: either_route_def run_bind_eq_Ret simp del: lit_simps)
    then show ?thesis by (cases r) auto
  qed (use run d in \<open>simp add: either_route_def\<close>)
qed

lemma enroll_key_error: "enroll_key E device token spki name = Some (Ret (Inl e)) \<Longrightarrow> \<exists>t. e = Api t"
  by (auto simp: enroll_key_def encoded_def Let_def dest: either_route_error split: sum.split_asm)

text \<open>
  A saved MASQUE identity without a valid certificate is never replaced by a fresh one, even when the
  account service answers that the device no longer exists: the enrolment reports every failure as an API
  error, so the branch for a refused identity is never taken and the start fails.
\<close>

lemma refused_enrolment_not_replaced:
  assumes "load_identity E path a = (a0, Inr (Some i))" "\<not> has_masque_credentials (ac_clock (oc_account E) 0) i"
    and "ensure_masque_enrolled (oc_account E) (oc_generated E) i = Some (Ret (Inl e))"
  shows "load_or_provision_masque E path a = Some (Ret (a0, Inl e)) \<and> (\<forall>reason. e \<noteq> IdentityRefused reason)"
proof -
  have "\<forall>reason. e \<noteq> IdentityRefused reason"
  proof (cases "oc_generated E")
    case (Inl t)
    with assms(3) have "e = Tls t" by (auto simp: ensure_masque_enrolled_def Let_def split: if_split_asm)
    then show ?thesis by simp
  next
    case (Inr kp)
    obtain r m where r: "enroll_key (oc_account E) (id_device i) (id_token i) (mk_spki_der kp) None = Some (Ret r)"
      "(case r of Inr _ \<Rightarrow> Inr m
        | Inl error \<Rightarrow> if cert_still_usable (ac_clock (oc_account E) 1) i then Inr (kept_credentials i) else Inl error) = Inl e"
      using assms(3) Inr unfolding ensure_masque_enrolled_def Let_def by (auto simp: run_bind_eq_Ret split: if_split_asm)
    then have "r = Inl e" by (cases r) (auto split: if_split_asm)
    with r(1) enroll_key_error show ?thesis by blast
  qed
  with assms show ?thesis
    by (cases e) (simp_all add: load_or_provision_masque_def)
qed

subsection \<open>The MASQUE loop\<close>

text \<open>The runs of the loop: each round with what the verification and the scan said, and what was done.\<close>

type_synonym masque_event = "(sock_addr \<Rightarrow> bool) \<times> sock_addr result option \<times> sock_addr round"

inductive masque_run :: "str option \<Rightarrow> str \<Rightarrow> sock_addr option \<Rightarrow> masque_event list \<Rightarrow> masque_loop \<Rightarrow> bool" for forced profile quick where
  masque_start: "masque_run forced profile quick [] \<lparr>ml_quick = quick, ml_last_good = None, ml_lastconn = None\<rparr>"
| masque_step: "masque_run forced profile quick tr st \<Longrightarrow> r = masque_round forced verify hunt st \<Longrightarrow>
    masque_run forced profile quick (tr @ [(verify, hunt, r)]) (masque_after forced profile r st)"

definition masque_justified :: "str option \<Rightarrow> sock_addr option \<Rightarrow> masque_event list \<Rightarrow> masque_event \<Rightarrow> bool" where
  "masque_justified forced quick earlier ev =
     (case ev of
        (verify, hunt, Use p) \<Rightarrow>
          (case forced of
             Some f \<Rightarrow> parse_sock_addr f = Some p
           | None \<Rightarrow> quick = Some p \<or> hunt = Some (Inr p) \<or> verify p \<and> (\<exists>v h. (v, h, Use p) \<in> set earlier))
      | (verify, hunt, GiveUp e) \<Rightarrow> \<exists>f. forced = Some f \<and> parse_sock_addr f = None
      | _ \<Rightarrow> forced = None)"

definition masque_inv :: "str option \<Rightarrow> sock_addr option \<Rightarrow> masque_event list \<Rightarrow> masque_loop \<Rightarrow> bool" where
  "masque_inv forced quick tr st \<longleftrightarrow>
     (ml_quick st = None \<or> ml_quick st = quick)
     \<and> (\<forall>p. ml_last_good st = Some p \<longrightarrow> (\<exists>v h. (v, h, Use p) \<in> set tr) \<and> (\<forall>f. forced = Some f \<longrightarrow> parse_sock_addr f = Some p))"

lemma masque_round_justified:
  assumes "masque_inv forced quick tr st" "forced \<noteq> None \<longrightarrow> quick = None"
  shows "masque_justified forced quick tr (verify, hunt, masque_round forced verify hunt st)"
    and "masque_inv forced quick (tr @ [(verify, hunt, masque_round forced verify hunt st)]) (masque_after forced profile (masque_round forced verify hunt st) st)"
proof -
  show j: "masque_justified forced quick tr (verify, hunt, masque_round forced verify hunt st)"
    using assms by (auto simp: masque_justified_def masque_round_def masque_inv_def split: option.splits sum.splits if_splits)
  show "masque_inv forced quick (tr @ [(verify, hunt, masque_round forced verify hunt st)]) (masque_after forced profile (masque_round forced verify hunt st) st)"
  proof (cases "masque_round forced verify hunt st")
    case (Use p)
    with j show ?thesis
      by (auto simp: masque_inv_def masque_after_def masque_justified_def)
  qed (use assms(1) in \<open>auto simp: masque_inv_def masque_after_def\<close>)
qed

lemma masque_run_justified:
  assumes "masque_run forced profile quick tr st" "forced \<noteq> None \<longrightarrow> quick = None"
  shows "masque_inv forced quick tr st \<and> (\<forall>k<length tr. masque_justified forced quick (take k tr) (tr ! k))"
  using assms
proof (induction rule: masque_run.induct)
  case masque_start
  then show ?case by (simp add: masque_inv_def)
next
  case (masque_step tr st r verify hunt)
  then show ?case
    using masque_round_justified [of forced quick tr st verify hunt] by (auto simp: nth_append less_Suc_eq)
qed

text \<open>The file of the last connection holds the peer that was used last, unless a peer is forced.\<close>

lemma masque_run_lastconn:
  assumes "masque_run forced profile quick tr st"
  shows "ml_lastconn st = (if forced = None then map_option (\<lambda>p. \<lparr>lc_peer = show_sock_addr p, lc_profile = profile\<rparr>) (ml_last_good st) else None)"
  using assms by (induction rule: masque_run.induct) (auto simp: masque_after_def split: round.splits)

lemma masque_quick_verified: "masque_quick_peer env verify last_conn ans = Some p \<Longrightarrow> verify p \<and> env (lit ''AETHER_PEER'') = None"
  by (auto simp: masque_quick_peer_def Let_def split: if_splits option.splits)

text \<open>
  In every run of the MASQUE loop, a forced peer is the only one that is ever used; without one, every
  peer that is used was found by that round's scan, or passed the verification in that round after an
  earlier use, or is the assigned or remembered peer that passed the verification at the start. The loop
  gives up only on a forced peer that is no address. The peer used last is the one remembered for the next
  start, and a forced peer is never remembered.
\<close>

lemma masque_peer_provenance:
  assumes "masque_run (env (lit ''AETHER_PEER'')) (masque_noize_name env) (masque_quick_peer env verify0 last_conn ans) tr st" "k < length tr"
  shows "masque_justified (env (lit ''AETHER_PEER'')) (masque_quick_peer env verify0 last_conn ans) (take k tr) (tr ! k)
    \<and> (\<forall>p. masque_quick_peer env verify0 last_conn ans = Some p \<longrightarrow> verify0 p)
    \<and> ml_lastconn st = (if env (lit ''AETHER_PEER'') = None
         then map_option (\<lambda>p. \<lparr>lc_peer = show_sock_addr p, lc_profile = masque_noize_name env\<rparr>) (ml_last_good st) else None)"
proof -
  have "env (lit ''AETHER_PEER'') \<noteq> None \<longrightarrow> masque_quick_peer env verify0 last_conn ans = None"
    by (simp add: masque_quick_peer_def)
  from masque_run_justified [OF assms(1) this] assms(2) masque_quick_verified masque_run_lastconn [OF assms(1)]
  show ?thesis by blast
qed

subsection \<open>The WireGuard loop\<close>

type_synonym wg_input = "nat \<times> (sock_addr \<Rightarrow> aether_noize_config \<Rightarrow> bool) \<times> (sock_addr set \<Rightarrow> wg_choice result option)"

fun wg_rounds :: "(str \<times> aether_noize_config) list \<Rightarrow> nat \<Rightarrow> wg_input list \<Rightarrow> wg_loop \<Rightarrow> wg_choice round list \<times> wg_loop" where
  "wg_rounds profiles cooldown [] st = ([], st)"
| "wg_rounds profiles cooldown ((now, verify, hunt) # inputs) st =
     (let (r, st) = wg_round None profiles now cooldown verify hunt st; (rs, st) = wg_rounds profiles cooldown inputs st in (r # rs, st))"

definition hunt_respects :: "wg_input \<Rightarrow> bool" where
  "hunt_respects x \<longleftrightarrow> (\<forall>S c. snd (snd x) S = Some (Inr c) \<longrightarrow> fst c \<notin> S)"

definition wg_inv :: "wg_loop \<Rightarrow> bool" where
  "wg_inv st \<longleftrightarrow>
     (\<forall>c. wl_last_good st = Some c \<longrightarrow> wl_cooldowns st (fst c) = None)
     \<and> (wl_quick st \<noteq> None \<longrightarrow> wl_cooldowns st = Map.empty \<and> wl_last_good st = None)"

lemma wg_cool_down_inv: "wg_inv st \<Longrightarrow> wg_inv (wg_cool_down now cd st)"
  by (auto simp: wg_inv_def wg_cool_down_def Let_def split: option.splits)

lemma wg_choose_allowed:
  assumes "wg_inv st" "hunt_respects (now, verify, hunt)" "wg_choose None profiles verify hunt st = Use c"
  shows "wl_cooldowns st (fst c) = None"
proof -
  have "wl_quick st = Some c \<or> wl_last_good st = Some c \<or> hunt (dom (wl_cooldowns st)) = Some (Inr c)"
    using assms(3) unfolding wg_choose_def
    by (simp split: option.split_asm sum.split_asm if_split_asm prod.split_asm)
  then show ?thesis
  proof (elim disjE)
    assume "hunt (dom (wl_cooldowns st)) = Some (Inr c)"
    then have "fst c \<notin> dom (wl_cooldowns st)" using assms(2) unfolding hunt_respects_def by (metis snd_conv)
    then show ?thesis by (simp add: domIff)
  qed (use assms(1) in \<open>simp_all add: wg_inv_def\<close>)
qed

lemma wg_round_inv:
  assumes "wg_inv st" "hunt_respects (now, verify, hunt)" "wg_round None profiles now cd verify hunt st = (r, st')"
  shows "wg_inv st' \<and> wl_cooldowns st' = wl_cooldowns (wg_cool_down now cd st)
    \<and> (\<forall>c. r = Use c \<longrightarrow> wl_cooldowns st' (fst c) = None \<and> wl_last_good st' = Some c \<and> wl_quick st' = None)"
proof -
  let ?s = "wg_cool_down now cd st"
  have inv: "wg_inv ?s" using assms(1) by (rule wg_cool_down_inv)
  have r: "r = wg_choose None profiles verify hunt ?s" "st' = wg_after None r ?s"
    using assms(3) by (auto simp: wg_round_def Let_def)
  show ?thesis
  proof (cases r)
    case (Use c)
    from wg_choose_allowed [OF inv assms(2)] Use r(1) have "wl_cooldowns ?s (fst c) = None" by simp
    with Use r show ?thesis by (cases c) (auto simp: wg_after_def wg_inv_def)
  qed (use inv r in \<open>simp_all add: wg_after_def\<close>)
qed

lemma wg_rounds_inv:
  "wg_inv st \<Longrightarrow> list_all hunt_respects inputs \<Longrightarrow> wg_inv (snd (wg_rounds profiles cd inputs st))"
proof (induction inputs arbitrary: st)
  case (Cons x inputs)
  obtain now verify hunt where x: "x = (now, verify, hunt)" by (cases x)
  obtain r st' where r: "wg_round None profiles now cd verify hunt st = (r, st')" by force
  have "wg_inv st'" using wg_round_inv [OF Cons.prems(1) _ r] Cons.prems(2) x by simp
  with Cons x r show ?case by (simp add: split_beta)
qed simp

lemma wg_rounds_append:
  "wg_rounds profiles cd (xs @ ys) st =
     (fst (wg_rounds profiles cd xs st) @ fst (wg_rounds profiles cd ys (snd (wg_rounds profiles cd xs st))),
      snd (wg_rounds profiles cd ys (snd (wg_rounds profiles cd xs st))))"
  by (induction xs arbitrary: st) (auto simp: split_beta Let_def)

lemma wg_rounds_length: "length (fst (wg_rounds profiles cd xs st)) = length xs"
  by (induction xs arbitrary: st) (auto simp: split_beta Let_def)

lemma cooling_kept:
  assumes "wg_inv st" "wl_cooldowns st p = Some until" "now < until"
  shows "wl_cooldowns (wg_cool_down now cd st) p = Some until"
  using assms by (auto simp: wg_cool_down_def wg_inv_def Let_def split: option.splits)

lemma resting_unused:
  assumes "wg_inv st" "wl_cooldowns st p = Some until" "list_all hunt_respects inputs" "\<forall>x\<in>set inputs. fst x < until"
  shows "\<forall>a. Use (p, a) \<notin> set (fst (wg_rounds profiles cd inputs st))"
  using assms
proof (induction inputs arbitrary: st)
  case (Cons x inputs)
  obtain now verify hunt where x: "x = (now, verify, hunt)" by (cases x)
  obtain r st' where r: "wg_round None profiles now cd verify hunt st = (r, st')" by force
  have resp: "hunt_respects (now, verify, hunt)" "now < until" using Cons.prems(3,4) x by auto
  note step = wg_round_inv [OF Cons.prems(1) resp(1) r]
  have cool: "wl_cooldowns st' p = Some until" using step cooling_kept [OF Cons.prems(1,2) resp(2)] by simp
  have "\<forall>a. Use (p, a) \<notin> set (fst (wg_rounds profiles cd inputs st'))"
    using step cool Cons.prems(3,4) by (intro Cons.IH) auto
  moreover have "r \<noteq> Use (p, a)" for a using step cool by (metis fst_conv option.distinct(1))
  ultimately show ?case using x r by (auto simp: split_beta)
qed simp

text \<open>Two uses of an endpoint in a row leave it with two failures.\<close>

lemma two_uses_fail:
  assumes "wg_inv st" "list_all hunt_respects [x, y]" "fst (wg_rounds profiles cd [x, y] st) = [Use (p, a), Use (p, b)]"
  shows "wl_last_good (snd (wg_rounds profiles cd [x, y] st)) = Some (p, b) \<and> wl_fails (snd (wg_rounds profiles cd [x, y] st)) = 2"
proof -
  obtain n1 v1 h1 n2 v2 h2 where xy: "x = (n1, v1, h1)" "y = (n2, v2, h2)" by (cases x, cases y)
  obtain s1 where s1: "wg_round None profiles n1 cd v1 h1 st = (Use (p, a), s1)"
    using assms(3) xy by (auto simp: split_beta prod_eq_iff)
  then obtain s2 where s2: "wg_round None profiles n2 cd v2 h2 s1 = (Use (p, b), s2)" "snd (wg_rounds profiles cd [x, y] st) = s2"
    using assms(3) xy by (auto simp: split_beta prod_eq_iff)
  have one: "wg_inv s1" "wl_last_good s1 = Some (p, a)" "1 \<le> wl_fails s1"
    using wg_round_inv [OF assms(1) _ s1] assms(2) xy s1 by (auto simp: wg_round_def Let_def wg_after_def split: prod.splits)
  have two: "wl_cooldowns s2 p = None" "wl_cooldowns s2 = wl_cooldowns (wg_cool_down n2 cd s1)" "wl_last_good s2 = Some (p, b)"
    using wg_round_inv [OF one(1) _ s2(1)] assms(2) xy by auto
  have "\<not> MAX_CONSECUTIVE_FAILS \<le> wl_fails s1"
    using two(1,2) one(2) by (auto simp: wg_cool_down_def Let_def)
  then have "wl_fails s1 = 1" using one(3) by (simp add: MAX_CONSECUTIVE_FAILS_def)
  with one(2) s2(1) have "wl_fails s2 = 2"
    by (auto simp: wg_round_def wg_cool_down_def MAX_CONSECUTIVE_FAILS_def Let_def wg_after_def split: prod.splits)
  with two(3) show ?thesis by (simp add: s2(2))
qed

lemma failed_starts_cooling:
  assumes "wl_last_good st = Some (p, b)" "2 \<le> wl_fails st"
  shows "wl_cooldowns (wg_cool_down now cd st) p = Some (now + cd)"
  using assms by (simp add: wg_cool_down_def MAX_CONSECUTIVE_FAILS_def Let_def)

definition honest_scan :: "scan_ctx \<Rightarrow> bool" where
  "honest_scan X \<longleftrightarrow> (\<forall>n cs. list_all (\<lambda>i. si_candidate i \<in> set cs) (sx_probes X n cs))"

text \<open>What every scan promises, whichever mode and ports.\<close>

lemma honest_hunt:
  assumes "honest_scan X"
    and eps: "hunt_wg_endpoints (sx_tuning X) env mode want ports ip (sx_v6 X) S (sx_rng X) (sx_now X) (sx_probes X) = Some (Inr eps)"
  shows "eps \<noteq> [] \<and> distinct (map pr_ip eps) \<and> (\<forall>ep\<in>set eps. result_addr ep \<notin> S)"
proof -
  from eps obtain ip' cs where "effective_scan ip (sx_v6 X) = Some ip'"
    "build_wg_candidates env (wg_mode_strategy mode) ports ip' S (sx_rng X) = Some cs"
    by (auto simp: hunt_wg_endpoints_def Let_def split: option.split_asm)
  from wg_scan_sound [OF this refl _ eps] assms(1) show ?thesis
    by (auto simp: honest_scan_def result_addr_def list_all_iff)
qed

lemma hunt_best_Inr:
  assumes "hunt_best_wg_endpoint T env mode ports ip v6 S rng now probes = Some (Inr pr)"
  shows "\<exists>prs. hunt_wg_endpoints T env mode 1 ports ip v6 S rng now probes = Some (Inr (pr # prs))"
proof -
  from assms obtain r where r: "hunt_wg_endpoints T env mode 1 ports ip v6 S rng now probes = Some r"
    "(case r of Inl e \<Rightarrow> Inl e | Inr [] \<Rightarrow> Inl NoCleanEndpoint | Inr (pr # _) \<Rightarrow> Inr pr) = Inr pr"
    unfolding hunt_best_wg_endpoint_def by (auto simp del: One_nat_def)
  show ?thesis
  proof (cases r)
    case (Inr prs)
    with r show ?thesis by (cases prs) auto
  qed (use r(2) in simp)
qed

lemma hunt_excludes:
  assumes "\<And>name. honest_scan (X name)" "hunt_wg_peer U env X i mode_str ip S profiles = Some (Inr c)"
  shows "fst c \<notin> S"
  using assms(2)
proof (induction profiles)
  case (Cons np profiles)
  obtain name profile where np: "np = (name, profile)" by force
  from Cons.prems np obtain r where r: "hunt_wg_peer_with_profile U env (X name) i mode_str ip S = Some r"
    by (auto split: option.split_asm)
  show ?case
  proof (cases r)
    case (Inl e)
    with Cons r np show ?thesis by simp
  next
    case (Inr peer)
    with r obtain pr where pr: "peer = result_addr pr"
      "hunt_best_wg_endpoint (sx_tuning (X name)) env (scan_mode_parse U mode_str) WG_PORTS ip (sx_v6 (X name)) S
        (sx_rng (X name)) (sx_now (X name)) (sx_probes (X name)) = Some (Inr pr)"
      by (auto simp: hunt_wg_peer_with_profile_def map_sum_Inr split: if_split_asm)
    from hunt_best_Inr [OF pr(2)] honest_hunt [OF assms(1)] have "peer \<notin> S"
      unfolding pr(1) by (metis list.set_intros(1))
    with Cons.prems r Inr np show ?thesis by auto
  qed
qed simp


lemma hunt_respects_scan:
  assumes "\<And>name. honest_scan (X name)"
  shows "hunt_respects (now, verify, \<lambda>S. hunt_wg_peer U env X i mode_str ip S profiles)"
  using hunt_excludes [OF assms] by (simp add: hunt_respects_def)

lemma failed_endpoint_unused:
  assumes "wg_inv st" "list_all hunt_respects (pre @ [x, y, z] @ post)"
    and "fst (wg_rounds profiles cd (pre @ [x, y]) st) = rs @ [Use (p, a), Use (p, b)]"
    and "\<forall>w\<in>set post. fst w < fst z + cd"
  shows "Use (p, c) \<notin> set (fst (wg_rounds profiles cd (z # post) (snd (wg_rounds profiles cd (pre @ [x, y]) st))))"
proof -
  let ?s = "snd (wg_rounds profiles cd pre st)"
  let ?t = "snd (wg_rounds profiles cd [x, y] ?s)"
  have inv: "wg_inv ?s" "wg_inv ?t"
    using assms(1,2) wg_rounds_inv by (simp_all del: wg_rounds.simps)
  have len: "length (fst (wg_rounds profiles cd [x, y] ?s)) = length [Use (p, a), Use (p, b)]"
    using wg_rounds_length [of profiles cd "[x, y]" ?s] by simp
  have "fst (wg_rounds profiles cd [x, y] ?s) = [Use (p, a), Use (p, b)]"
    using assms(3) len unfolding wg_rounds_append by simp
  from two_uses_fail [OF inv(1) _ this] assms(2)
  have failed: "wl_last_good ?t = Some (p, b)" "wl_fails ?t = 2" by auto
  obtain now verify hunt where z: "z = (now, verify, hunt)" by (cases z)
  obtain r st' where r: "wg_round None profiles now cd verify hunt ?t = (r, st')" by force
  have resp: "hunt_respects (now, verify, hunt)" using assms(2) z by simp
  note step = wg_round_inv [OF inv(2) resp r]
  have cool: "wl_cooldowns st' p = Some (now + cd)"
    using step failed_starts_cooling [OF failed(1)] failed(2) by simp
  have "r \<noteq> Use (p, c)" using step cool by (metis fst_conv option.distinct(1))
  moreover have "Use (p, c) \<notin> set (fst (wg_rounds profiles cd post st'))"
  proof -
    have "list_all hunt_respects post" "\<forall>x\<in>set post. fst x < now + cd" using assms(2,4) z by simp_all
    then show ?thesis using resting_unused [OF _ cool] step by blast
  qed
  ultimately show ?thesis using z r by (simp add: wg_rounds_append split_beta)
qed

definition wg_start :: "wg_choice option \<Rightarrow> wg_loop" where
  "wg_start quick = \<lparr>wl_quick = quick, wl_last_good = None, wl_fails = 0, wl_cooldowns = Map.empty, wl_lastconn = None\<rparr>"

text \<open>The rounds of a run without a forced peer: each with its time, its verifications and its scan.\<close>

definition wg_inputs ::
  "unicode \<Rightarrow> env \<Rightarrow> identity \<Rightarrow> str \<Rightarrow> ip_scan \<Rightarrow> (nat \<times> (sock_addr \<Rightarrow> aether_noize_config \<Rightarrow> bool) \<times> (str \<Rightarrow> scan_ctx)) list \<Rightarrow> wg_input list" where
  "wg_inputs U env i mode_str ip rounds =
     map (\<lambda>(now, verify, X). (now, verify, \<lambda>S. hunt_wg_peer U env X i mode_str ip S (wg_profile_candidates env))) rounds"

lemma wg_inputs_respect:
  "list_all (\<lambda>(now, verify, X). \<forall>name. honest_scan (X name)) rounds \<Longrightarrow> list_all hunt_respects (wg_inputs U env i mode_str ip rounds)"
  using hunt_respects_scan by (fastforce simp: wg_inputs_def list_all_iff)

text \<open>
  C37: A WireGuard endpoint whose tunnel ended in two rounds in a row rests: from the start of the next
  round until the cooldown is over no round uses it again, with whatever profile, whether it verifies or
  the scan would find it.
\<close>

theorem wg_failed_endpoint_rests:
  assumes "list_all (\<lambda>(now, verify, X). \<forall>name. honest_scan (X name)) (pre @ [x, y, z] @ post)"
    and "fst (wg_rounds (wg_profile_candidates env) cd (wg_inputs U env i mode_str ip (pre @ [x, y])) (wg_start quick))
           = rs @ [Use (p, a), Use (p, b)]"
    and "\<forall>w\<in>set post. fst w < fst z + cd"
  shows "Use (p, c) \<notin> set (drop (length pre + 2)
           (fst (wg_rounds (wg_profile_candidates env) cd (wg_inputs U env i mode_str ip (pre @ [x, y, z] @ post)) (wg_start quick))))"
proof -
  let ?in = "wg_inputs U env i mode_str ip" and ?ps = "wg_profile_candidates env"
  have split: "?in (xs @ ys) = ?in xs @ ?in ys" "?in (x # xs) = ?in [x] @ ?in xs" for xs ys x by (simp_all add: wg_inputs_def)
  obtain x' y' z' where xyz: "?in [x] = [x']" "?in [y] = [y']" "?in [z] = [z']" "fst z' = fst z"
    by (cases x, cases y, cases z) (simp add: wg_inputs_def)
  have w: "\<forall>w\<in>set (?in post). fst w < fst z' + cd" using assms(3) xyz(4) by (auto simp: wg_inputs_def)
  have inv: "wg_inv (wg_start quick)" by (simp add: wg_inv_def wg_start_def)
  have xy: "?in (pre @ [x, y]) = ?in pre @ [x', y']" "?in (pre @ [x, y, z] @ post) = (?in pre @ [x', y']) @ z' # ?in post"
    using split(1) [of pre "[x, y]"] split(1) [of pre "[x, y, z] @ post"] split(2) [of x "[y]"] split(2) [of x "[y, z] @ post"]
      split(2) [of y "[z] @ post"] split(2) [of z post] xyz by simp_all
  have "list_all hunt_respects (?in pre @ [x', y', z'] @ ?in post)"
    using wg_inputs_respect [OF assms(1), of U env i mode_str ip] xy(2) by simp
  from failed_endpoint_unused [OF inv this assms(2) [unfolded xy(1)] w]
  have "Use (p, c) \<notin> set (fst (wg_rounds ?ps cd (z' # ?in post) (snd (wg_rounds ?ps cd (?in pre @ [x', y']) (wg_start quick)))))" .
  moreover have "length (fst (wg_rounds ?ps cd (?in pre @ [x', y']) (wg_start quick))) = length pre + 2"
    by (simp add: wg_rounds_length) (simp add: wg_inputs_def)
  ultimately show ?thesis unfolding xy(2) wg_rounds_append [of _ _ "?in pre @ [x', y']"] by simp
qed


definition demo_scan :: scan_ctx where
  "demo_scan = \<lparr>sx_tuning = \<lparr>tn_tier = Low, tn_cpus = 1, tn_mem_mb = None, scan_concurrency_cap = 8, udp_socket_buf = 1, netstack_tcp_buf = 1,
       netstack_udp_buf = 1, tn_channel_capacity = 1\<rparr>, sx_v6 = True, sx_rng = sample_rng, sx_now = 0, sx_probes = one_probe\<rparr>"

lemma demo_scan_honest: "honest_scan demo_scan"
  by (auto simp: honest_scan_def demo_scan_def one_probe_def list_all_iff dest: in_set_takeD)

theorem wg_failed_endpoint_rests_witness:
  "\<forall>U i ip c. \<exists>x y z. fst (wg_rounds (wg_profile_candidates Map.empty) 30 (wg_inputs U Map.empty i (lit ''turbo'') ip [x, y]) (wg_start (Some c)))
        = [Use c, Use c]
      \<and> Use c \<notin> set (drop 2 (fst (wg_rounds (wg_profile_candidates Map.empty) 30
            (wg_inputs U Map.empty i (lit ''turbo'') ip ([x, y, z])) (wg_start (Some c)))))"
proof (intro allI)
  fix U i ip and c :: wg_choice
  obtain p profile name where c: "c = (p, profile, name)" by (cases c)
  let ?X = "\<lambda>_ :: str. demo_scan"
  let ?x = "(0, \<lambda>_ _. True, ?X) :: nat \<times> (sock_addr \<Rightarrow> aether_noize_config \<Rightarrow> bool) \<times> (str \<Rightarrow> scan_ctx)"
  have run: "fst (wg_rounds (wg_profile_candidates Map.empty) 30 (wg_inputs U Map.empty i (lit ''turbo'') ip ([] @ [?x, ?x])) (wg_start (Some c)))
      = [] @ [Use (p, profile, name), Use (p, profile, name)]"
    by (simp add: c wg_inputs_def wg_start_def wg_round_def wg_cool_down_def wg_choose_def wg_after_def MAX_CONSECUTIVE_FAILS_def
        split_beta Let_def)
  have "Use (p, profile, name) \<notin> set (drop (length ([] :: (nat \<times> (sock_addr \<Rightarrow> aether_noize_config \<Rightarrow> bool) \<times> (str \<Rightarrow> scan_ctx)) list) + 2)
      (fst (wg_rounds (wg_profile_candidates Map.empty) 30 (wg_inputs U Map.empty i (lit ''turbo'') ip ([] @ [?x, ?x, ?x] @ [])) (wg_start (Some c)))))"
    using run by (intro wg_failed_endpoint_rests) (simp_all add: demo_scan_honest)
  with run c show "\<exists>x y z. fst (wg_rounds (wg_profile_candidates Map.empty) 30 (wg_inputs U Map.empty i (lit ''turbo'') ip [x, y]) (wg_start (Some c)))
        = [Use c, Use c]
      \<and> Use c \<notin> set (drop 2 (fst (wg_rounds (wg_profile_candidates Map.empty) 30
            (wg_inputs U Map.empty i (lit ''turbo'') ip ([x, y, z])) (wg_start (Some c)))))"
    by (intro exI [of _ ?x]) (simp add: numeral_2_eq_2 del: wg_rounds.simps)
qed

subsection \<open>The warp-in-warp loop\<close>

fun gool_rounds :: "sock_addr list result option list \<Rightarrow> gool_loop \<Rightarrow> ((sock_addr \<times> sock_addr) round list \<times> gool_loop) outcome" where
  "gool_rounds [] st = Ret ([], st)"
| "gool_rounds (found # inputs) st =
     (case gool_round found st of
        Panic \<Rightarrow> Panic
      | Ret (r, st) \<Rightarrow> (case gool_rounds inputs st of Panic \<Rightarrow> Panic | Ret (rs, st) \<Rightarrow> Ret (r # rs, st)))"

definition gool_start :: gool_loop where
  "gool_start = \<lparr>gl_peer = None, gl_inner = None, gl_fails = 0\<rparr>"

definition gool_inv :: "gool_loop \<Rightarrow> bool" where
  "gool_inv st \<longleftrightarrow> (\<forall>p. gl_peer st = Some p \<longrightarrow> (\<exists>q. gl_inner st = Some q \<and> sa_ip p \<noteq> sa_ip q))"

definition separate_edges :: "sock_addr list result option \<Rightarrow> bool" where
  "separate_edges found \<longleftrightarrow> (\<forall>ps. found = Some (Inr ps) \<longrightarrow> ps \<noteq> [] \<and> distinct (map sa_ip ps))"

lemma gool_round_inv:
  assumes "gool_inv st" "separate_edges found"
  shows "\<exists>r st'. gool_round found st = Ret (r, st') \<and> gool_inv st' \<and> (\<forall>p q. r = Use (p, q) \<longrightarrow> sa_ip p \<noteq> sa_ip q)"
proof (cases "if gl_fails st < MAX_CONSECUTIVE_FAILS then gl_peer st else None")
  case (Some p)
  then obtain q where "gl_inner st = Some q" "sa_ip p \<noteq> sa_ip q"
    using assms(1) by (auto simp: gool_inv_def split: if_split_asm)
  with Some show ?thesis by (simp add: gool_round_def gool_inv_def)
next
  case None
  show ?thesis
  proof (cases found)
    case f: (Some res)
    show ?thesis
    proof (cases res)
      case (Inr ps)
      with f assms(2) obtain outer rest where ps: "ps = outer # rest" "distinct (map sa_ip ps)"
        by (cases ps) (auto simp: separate_edges_def)
      then show ?thesis using None f Inr
        by (cases rest) (auto simp: gool_round_def gool_inv_def)
    qed (use None f assms(1) in \<open>simp add: gool_round_def\<close>)
  qed (use None assms(1) in \<open>simp add: gool_round_def\<close>)
qed

lemma gool_rounds_inv:
  assumes "gool_inv st" "list_all separate_edges inputs"
  shows "\<exists>rs st'. gool_rounds inputs st = Ret (rs, st') \<and> length rs = length inputs \<and> (\<forall>p q. Use (p, q) \<in> set rs \<longrightarrow> sa_ip p \<noteq> sa_ip q)"
  using assms
proof (induction inputs arbitrary: st)
  case (Cons found inputs)
  from gool_round_inv [of st found] Cons.prems obtain r st' where
    r: "gool_round found st = Ret (r, st')" "gool_inv st'" "\<forall>p q. r = Use (p, q) \<longrightarrow> sa_ip p \<noteq> sa_ip q" by auto
  from Cons.IH [OF r(2)] Cons.prems obtain rs st'' where
    "gool_rounds inputs st' = Ret (rs, st'')" "length rs = length inputs" "\<forall>p q. Use (p, q) \<in> set rs \<longrightarrow> sa_ip p \<noteq> sa_ip q" by auto
  with r show ?case by auto
qed simp

lemma selected_separate: "honest_scan X \<Longrightarrow> separate_edges (select_wg_peers U env X i mode_str ip want)"
proof -
  assume X: "honest_scan X"
  show ?thesis
    unfolding separate_edges_def
  proof (intro allI impI)
    fix ps assume "select_wg_peers U env X i mode_str ip want = Some (Inr ps)"
    then obtain eps where eps: "ps = map result_addr eps"
      "hunt_wg_endpoints (sx_tuning X) env (scan_mode_parse U mode_str) want WG_PORTS ip (sx_v6 X) {} (sx_rng X) (sx_now X) (sx_probes X) = Some (Inr eps)"
      by (auto simp: select_wg_peers_def map_sum_Inr split: if_split_asm)
    from honest_hunt [OF X eps(2)] show "ps \<noteq> [] \<and> distinct (map sa_ip ps)"
      by (simp add: eps(1) result_addr_def sock_addr_new_def comp_def)
  qed
qed

text \<open>
  C38: The warp-in-warp loop never panics on what its scans find, in any number of rounds, and every pair of
  peers it hands to the two tunnels lies on two different addresses, so that the tunnels are never refused
  for sharing an edge.
\<close>

theorem gool_two_edges:
  assumes "list_all (\<lambda>(X, mode_str, ip). honest_scan X) rounds"
  shows "\<exists>rs st. gool_rounds (map (\<lambda>(X, mode_str, ip). select_wg_peers U env X i mode_str ip 2) rounds) gool_start = Ret (rs, st)
    \<and> length rs = length rounds
    \<and> (\<forall>p q. Use (p, q) \<in> set rs \<longrightarrow> sa_ip p \<noteq> sa_ip q)"
proof -
  have "list_all separate_edges (map (\<lambda>(X, mode_str, ip). select_wg_peers U env X i mode_str ip 2) rounds)"
    using assms by (auto simp: list_all_iff intro: selected_separate)
  from gool_rounds_inv [OF _ this, of gool_start] show ?thesis
    by (auto simp: gool_inv_def gool_start_def)
qed

theorem gool_two_edges_witness:
  "\<forall>U i ip. \<exists>rs st. gool_rounds (replicate 3 (select_wg_peers U Map.empty demo_scan i (lit ''turbo'') ip 2)) gool_start = Ret (rs, st)
      \<and> length rs = 3"
proof (intro allI)
  fix U i ip
  show "\<exists>rs st. gool_rounds (replicate 3 (select_wg_peers U Map.empty demo_scan i (lit ''turbo'') ip 2)) gool_start = Ret (rs, st)
      \<and> length rs = 3"
    using gool_two_edges [of "replicate 3 (demo_scan, lit ''turbo'', ip)" U Map.empty i] demo_scan_honest
    by (auto simp: list_all_iff simp del: lit_simps gool_rounds.simps)
qed

text \<open>A pair that failed twice is not set aside: when the next scan finds it again it is used again.\<close>

lemma gool_pair_reused:
  assumes "gl_fails st \<le> 2" "gl_peer st = Some p \<and> gl_inner st = Some q \<or> gl_peer st = None"
  shows "\<exists>st'. gool_rounds (replicate n (Some (Inr [p, q]))) st = Ret (replicate n (Use (p, q)), st')"
  using assms
proof (induction n arbitrary: st)
  case (Suc n)
  let ?st = "st\<lparr>gl_peer := Some p, gl_inner := Some q, gl_fails := (if gl_fails st < 2 \<and> gl_peer st \<noteq> None then gl_fails st else 0) + 1\<rparr>"
  have "gool_round (Some (Inr [p, q])) st = Ret (Use (p, q), ?st)"
    using Suc.prems by (auto simp: gool_round_def MAX_CONSECUTIVE_FAILS_def Let_def)
  moreover obtain st' where "gool_rounds (replicate n (Some (Inr [p, q]))) ?st = Ret (replicate n (Use (p, q)), st')"
  proof -
    have "gl_fails ?st \<le> 2" "gl_peer ?st = Some p \<and> gl_inner ?st = Some q \<or> gl_peer ?st = None" by auto
    from Suc.IH [OF this] that show ?thesis by blast
  qed
  ultimately show ?case by auto
qed simp

subsection \<open>The tasks of a tunnel\<close>

text \<open>The tasks that are neither awaited nor aborted after their start.\<close>

fun left_running :: "task_event list \<Rightarrow> task list" where
  "left_running [] = []"
| "left_running (Spawn t # evs) = (if Joined t \<in> set evs \<or> Abort t \<in> set evs then left_running evs else t # left_running evs)"
| "left_running (_ # evs) = left_running evs"

text \<open>No handle is awaited after it has yielded its result.\<close>

definition awaited_once :: "task_event list \<Rightarrow> bool" where
  "awaited_once evs \<longleftrightarrow> distinct (filter (\<lambda>ev. case ev of Joined _ \<Rightarrow> True | _ \<Rightarrow> False) evs)"

lemmas tunnel_defs = run_masque_tunnel_def run_wireguard_tunnel_def run_warp_in_warp_def establish_wg_def guard_drop_def spawn_stack_def awaited_once_def

lemma masque_tasks:
  "(Spawn SocksTask \<in> set (fst (run_masque_tunnel show_io limit env stack rd r)) \<longleftrightarrow> stack = None \<and> rd = ReadySignal)
   \<and> (Spawn HttpTask \<in> set (fst (run_masque_tunnel show_io limit env stack rd r)) \<longleftrightarrow> stack = None \<and> rd = ReadySignal \<and> http_proxy_listen env \<noteq> None)
   \<and> left_running (fst (run_masque_tunnel show_io limit env stack rd r)) = (if stack = None then [StackTask] else []) \<and> awaited_once (fst (run_masque_tunnel show_io limit env stack rd r))"
  by (cases stack; cases rd) (simp_all add: tunnel_defs Let_def)

lemma wireguard_tasks:
  "(Spawn SocksTask \<in> set (fst (run_wireguard_tunnel show_io env i valid stack r)) \<longleftrightarrow> parse_ipv4 (id_ipv4 i) \<noteq> None \<and> valid = Inr () \<and> stack = None)
   \<and> (Spawn HttpTask \<in> set (fst (run_wireguard_tunnel show_io env i valid stack r)) \<longleftrightarrow>
        parse_ipv4 (id_ipv4 i) \<noteq> None \<and> valid = Inr () \<and> stack = None \<and> http_proxy_listen env \<noteq> None)
   \<and> left_running (fst (run_wireguard_tunnel show_io env i valid stack r))
       = (if parse_ipv4 (id_ipv4 i) \<noteq> None \<and> valid = Inr () \<and> stack = None then [StackTask] else [])
   \<and> awaited_once (fst (run_wireguard_tunnel show_io env i valid stack r))"
  by (cases stack; cases valid) (simp_all add: tunnel_defs Let_def)

lemma establish_up:
  "snd (establish_wg show_io label t i valid stack) = Inr () \<longleftrightarrow> parse_ipv4 (id_ipv4 i) \<noteq> None \<and> valid = Inr () \<and> stack = None"
  "fst (establish_wg show_io label t i valid stack) = (if snd (establish_wg show_io label t i valid stack) = Inr () then spawn_stack (fst t) @ [Spawn (snd t)] else [])"
  by (cases stack; cases valid; simp add: establish_wg_def)+

lemma warp_tasks:
  assumes "evs = fst (run_warp_in_warp show_io env i j peer inner ov forward iv w r)"
    and "outer_up \<longleftrightarrow> snd (establish_wg show_io (lit ''outer'') (OuterStack, OuterTask) i (fst ov) (snd ov)) = Inr ()"
    and "inner_up \<longleftrightarrow> snd (establish_wg show_io (lit ''inner'') (InnerStack, InnerTask) j (fst iv) (snd iv)) = Inr ()"
  shows "(Spawn SocksTask \<in> set evs \<longleftrightarrow> sa_ip inner \<noteq> sa_ip peer \<and> outer_up \<and> forward = None \<and> inner_up)
    \<and> (Spawn HttpTask \<in> set evs \<longleftrightarrow> sa_ip inner \<noteq> sa_ip peer \<and> outer_up \<and> forward = None \<and> inner_up \<and> http_proxy_listen env \<noteq> None)
    \<and> left_running evs =
        (if sa_ip inner \<noteq> sa_ip peer \<and> outer_up
         then (if forward = None \<and> inner_up then [OuterStack, InnerStack] else [OuterStack, OuterTask]) else [])
    \<and> awaited_once evs"
proof -
  let ?o = "establish_wg show_io (lit ''outer'') (OuterStack, OuterTask) i (fst ov) (snd ov)"
  let ?n = "establish_wg show_io (lit ''inner'') (InnerStack, InnerTask) j (fst iv) (snd iv)"
  obtain eo ro en rn where on: "?o = (eo, ro)" "?n = (en, rn)" by fastforce
  then have "eo = (if ro = Inr () then spawn_stack OuterStack @ [Spawn OuterTask] else [])"
    "en = (if rn = Inr () then spawn_stack InnerStack @ [Spawn InnerTask] else [])"
    "outer_up \<longleftrightarrow> ro = Inr ()" "inner_up \<longleftrightarrow> rn = Inr ()"
    using assms(2,3) establish_up(2) [of show_io "lit ''outer''" "(OuterStack, OuterTask)" i "fst ov" "snd ov"]
      establish_up(2) [of show_io "lit ''inner''" "(InnerStack, InnerTask)" j "fst iv" "snd iv"] by simp_all
  then show ?thesis unfolding assms(1)
    by (cases ro; cases rn; cases forward; cases w)
      (simp_all add: run_warp_in_warp_def on awaited_once_def spawn_stack_def Let_def del: lit_simps)
qed





subsection \<open>Settings\<close>

text \<open>An endpoint that an organization assigns gets the port of MASQUE when WireGuard was chosen in the menu.\<close>

lemma menu_choice_keeps_masque_port:
  assumes "env (lit ''AETHER_PROTOCOL'') = None" "team_endpoint env i = Some peer"
  shows "select_protocol U E now known ((Some (lit ''2''), team, email) # rest) (env, cache) = Some (WireGuardProto, env, cache)
    \<and> peer = id_assigned_endpoint i @ lit '':443''"
  using assms by (auto simp: select_protocol.simps team_endpoint_def Let_def show_nat.simps split: if_splits)

text \<open>A scan for one WireGuard peer never panics on its result.\<close>

lemma select_peer_no_panic: "honest_scan X \<Longrightarrow> select_peer U env X i proto mode_answer ip_answer \<noteq> Some Panic"
  using selected_separate [of X U env i "select_scan_mode_str env mode_answer" "select_ip_version U env ip_answer" 1]
  by (auto simp: select_peer_def Let_def separate_edges_def split: option.splits sum.splits list.splits)

text \<open>Waits are at least a second, so the loops never spin.\<close>

lemma waits_positive:
  "0 < masque_reconnect_delay env" "0 < masque_startup_timeout env" "0 < wg_reconnect_delay env" "0 < wg_endpoint_cooldown env"
  "0 < wg_tunnel_validate_timeout env" "0 < wg_keepalive_secs env"
  by (simp_all add: masque_reconnect_delay_def masque_startup_timeout_def wg_reconnect_delay_def wg_endpoint_cooldown_def
      wg_tunnel_validate_timeout_def wg_keepalive_secs_def env_secs_def split: option.splits)

end
