(* ===== verification/Launch.thy ===== *)
theory Launch
  imports Orchestrate
begin

text \<open>
  The start of the program: the command line of \<open>cli.rs\<close>, which turns options into environment variables,
  and \<open>run_with\<close> of \<open>lib.rs\<close>, which picks the protocol, brings the identities and hands over to one of the
  three loops of the theory Orchestrate. The usage text and the version are arguments, the text
  because it is only printed and the version because the build gives it.
\<close>

section \<open>The model\<close>

subsection \<open>Command line\<close>

text \<open>What an option does: it prints and ends the process, sets variables, or takes the next argument as the value of variables.\<close>

datatype cli_action = ShowVersion | ShowUsage | SetTo "(str \<times> str) list" | TakeValue "str list"

definition flag :: "string \<Rightarrow> string \<Rightarrow> string \<Rightarrow> str \<times> cli_action" where
  "flag opt key v = (lit opt, SetTo [(lit key, lit v)])"

definition valued :: "string \<Rightarrow> string \<Rightarrow> str \<times> cli_action" where
  "valued opt key = (lit opt, TakeValue [lit key])"

definition cli_options :: "(str \<times> cli_action) list" where
  "cli_options =
    [(lit ''-v'', ShowVersion), (lit ''--version'', ShowVersion), (lit ''-h'', ShowUsage), (lit ''--help'', ShowUsage),
     valued ''--bind'' ''AETHER_SOCKS'', valued ''--http-proxy'' ''AETHER_HTTP_PROXY'', valued ''--upstream'' ''AETHER_UPSTREAM'',
     flag ''--quick-reconnect'' ''AETHER_QUICK_RECONNECT'' ''1'', flag ''--no-quick-reconnect'' ''AETHER_QUICK_RECONNECT'' ''0'',
     flag ''-4'' ''AETHER_IP'' ''v4'', flag ''-6'' ''AETHER_IP'' ''v6'', flag ''--dual'' ''AETHER_IP'' ''both'', valued ''--ip'' ''AETHER_IP'',
     valued ''--peer'' ''AETHER_PEER'', valued ''--wg-peer'' ''AETHER_WG_PEER'',
     flag ''--masque'' ''AETHER_PROTOCOL'' ''masque'',
     flag ''--wg'' ''AETHER_PROTOCOL'' ''wg'', flag ''--wireguard'' ''AETHER_PROTOCOL'' ''wg'', flag ''--warp'' ''AETHER_PROTOCOL'' ''wg'',
     flag ''--gool'' ''AETHER_PROTOCOL'' ''gool'', flag ''--wiw'' ''AETHER_PROTOCOL'' ''gool'', valued ''--protocol'' ''AETHER_PROTOCOL'',
     valued ''--scan'' ''AETHER_SCAN'', flag ''--turbo'' ''AETHER_SCAN'' ''turbo'', flag ''--balanced'' ''AETHER_SCAN'' ''balanced'',
     flag ''--thorough'' ''AETHER_SCAN'' ''thorough'', flag ''--stealth'' ''AETHER_SCAN'' ''stealth'', flag ''--ironclad'' ''AETHER_SCAN'' ''ironclad'',
     valued ''--noize'' ''AETHER_NOIZE'',
     flag ''--h2'' ''AETHER_MASQUE_HTTP2'' ''1'', flag ''--http2'' ''AETHER_MASQUE_HTTP2'' ''1'',
     valued ''--h2-peer'' ''AETHER_MASQUE_H2_PEER'', valued ''--ech'' ''AETHER_ECH'',
     (lit ''--no-data-check'', SetTo [(lit ''AETHER_MASQUE_NO_DATA_CHECK'', lit ''1''), (lit ''AETHER_WG_NO_DATA_CHECK'', lit ''1'')]),
     (lit ''--validate-secs'', TakeValue [lit ''AETHER_MASQUE_VALIDATE_SECS'', lit ''AETHER_WG_VALIDATE_SECS'']),
     valued ''--startup-secs'' ''AETHER_MASQUE_STARTUP_SECS'',
     (lit ''--reconnect-secs'', TakeValue [lit ''AETHER_MASQUE_RECONNECT_SECS'', lit ''AETHER_WG_RECONNECT_SECS'']),
     valued ''--dns'' ''AETHER_DNS'', flag ''--fragment'' ''AETHER_MASQUE_H2_FRAGMENT'' ''1'',
     valued ''--fragment-size'' ''AETHER_MASQUE_H2_FRAGMENT_SIZE'', valued ''--fragment-delay'' ''AETHER_MASQUE_H2_FRAGMENT_DELAY'',
     valued ''--keepalive'' ''AETHER_WG_KEEPALIVE'', flag ''--no-profile-retry'' ''AETHER_WG_NO_PROFILE_RETRY'' ''1'',
     valued ''--config'' ''AETHER_CONFIG'', valued ''--wg-config'' ''AETHER_WG_CONFIG'', valued ''--masque-config'' ''AETHER_MASQUE_CONFIG'',
     valued ''--team'' ''AETHER_TEAM'', valued ''--organization'' ''AETHER_TEAM'',
     valued ''--access-id'' ''AETHER_ACCESS_CLIENT_ID'', valued ''--access-secret'' ''AETHER_ACCESS_CLIENT_SECRET'',
     valued ''--access-token'' ''AETHER_ACCESS_TOKEN'', valued ''--access-email'' ''AETHER_ACCESS_EMAIL'', flag ''--gateway'' ''AETHER_GATEWAY'' ''1'',
     valued ''--route-block'' ''AETHER_ROUTE_BLOCK'', valued ''--route-direct'' ''AETHER_ROUTE_DIRECT'', valued ''--routes'' ''AETHER_ROUTES_FILE'',
     valued ''--tls-groups'' ''AETHER_TLS_GROUPS'', valued ''--perf'' ''AETHER_PERF_PROFILE'',
     valued ''--log-level'' ''AETHER_LOG_LEVEL'', flag ''--verbose'' ''AETHER_LOG_LEVEL'' ''debug'']"

text \<open>How reading the arguments ends: read, the process left with a text printed, an error, or a panic of \<open>set_var\<close> on a NUL character.\<close>

datatype cli_end = CliDone | CliExit str | CliFailed aether_error | CliPanic

definition set_vars :: "(str \<times> str) list \<Rightarrow> env \<Rightarrow> env" where
  "set_vars kvs env = foldl (\<lambda>e (k, v). e(k := Some v)) env kvs"

fun parse_args :: "str \<Rightarrow> str \<Rightarrow> str list \<Rightarrow> env \<Rightarrow> env \<times> cli_end" where
  "parse_args usage version [] env = (env, CliDone)"
| "parse_args usage version (arg # rest) env =
     (case map_of cli_options arg of
        None \<Rightarrow> (env, CliFailed (Other (lit ''unknown option '' @ [39] @ arg @ [39, 10, 10] @ usage)))
      | Some ShowVersion \<Rightarrow> (env, CliExit (lit ''aether '' @ version @ [10]))
      | Some ShowUsage \<Rightarrow> (env, CliExit usage)
      | Some (SetTo kvs) \<Rightarrow> parse_args usage version rest (set_vars kvs env)
      | Some (TakeValue keys) \<Rightarrow>
          (case rest of
             [] \<Rightarrow> (env, CliFailed (Other (arg @ lit '' requires a value'')))
           | v # rest \<Rightarrow>
               if 0 \<in> set v then (env, CliPanic)
               else parse_args usage version rest (set_vars (map (\<lambda>k. (k, v)) keys) env)))"

declare parse_args.simps(2) [simp del]

subsection \<open>Hand-over\<close>

definition log_level :: "unicode \<Rightarrow> env \<Rightarrow> str" where
  "log_level U env =
     (case map_option (\<lambda>v. to_lowercase U (trim v)) (env (lit ''AETHER_LOG_LEVEL'')) of
        Some v \<Rightarrow> if v \<in> {lit ''error'', lit ''warn'', lit ''info'', lit ''debug'', lit ''trace''} then v else lit ''info''
      | None \<Rightarrow> lit ''info'')"

definition listen_address :: "env \<Rightarrow> sock_addr" where
  "listen_address env =
     (case addr_var env (lit ''AETHER_SOCKS'') of Some a \<Rightarrow> a | None \<Rightarrow> sock_addr_new (V4 0x7F000001) 1819)"

definition base_config :: "env \<Rightarrow> str" where
  "base_config env = (case env (lit ''AETHER_CONFIG'') of Some p \<Rightarrow> p | None \<Rightarrow> lit ''aether.toml'')"

text \<open>What the user types: the answers to the protocol menu and to the question for the transport. \<open>in_listing\<close> is the directory of the base file.\<close>

record inputs =
  in_listing :: "str \<Rightarrow> str list option"
  in_menu :: "(str option \<times> str option \<times> str option) list"
  in_transport :: "str option"
  in_ech :: "bytes result"
  in_base64 :: "str \<Rightarrow> bytes result"

definition chosen_protocol :: "orch \<Rightarrow> inputs \<Rightarrow> str \<Rightarrow> env \<times> str option \<Rightarrow> (protocol \<times> env \<times> str option) option" where
  "chosen_protocol E ins base st =
     (if fst st (lit ''AETHER_PEER'') \<noteq> None \<or> fst st (lit ''AETHER_WG_PEER'') \<noteq> None then
        Some (case fst st (lit ''AETHER_PROTOCOL'') of Some v \<Rightarrow> protocol_parse (oc_unicode E) v | None \<Rightarrow> MasqueProto, st)
      else select_protocol (oc_unicode E) (oc_zt E) (ac_clock (oc_account E) 0) (enrolled_teams base (in_listing ins base)) (in_menu ins) st)"

datatype launch =
    RunMasque identity "bytes option" sock_addr str
  | RunWireguard identity sock_addr str
  | RunGool identity identity sock_addr

datatype started = LeftWith str | CliPanicked | Started "launch result"

definition launch_masque :: "orch \<Rightarrow> inputs \<Rightarrow> sock_addr \<Rightarrow> str \<Rightarrow> app \<Rightarrow> launch task_run" where
  "launch_masque E ins listen base a =
     (let a = a\<lparr>ap_env := select_masque_transport (ap_env a) (in_transport ins)\<rparr>;
          config_path = masque_config_path (oc_unicode E) (ap_env a) base in
      run_bind (load_or_provision_masque E config_path a) (\<lambda>(a, r). Some (Ret (a,
        case r of
          Inl e \<Rightarrow> Inl e
        | Inr i \<Rightarrow> Inr (RunMasque i (resolve_ech (ap_env a) (in_ech ins) (in_base64 ins)) listen (lastconn_path config_path))))))"

definition launch_wireguard :: "orch \<Rightarrow> sock_addr \<Rightarrow> str \<Rightarrow> app \<Rightarrow> launch task_run" where
  "launch_wireguard E listen base a =
     (let config_path = warp_config_path (oc_unicode E) (ap_env a) base in
      run_bind (load_or_provision_warp E config_path a) (\<lambda>(a, r). Some (Ret (a,
        case r of Inl e \<Rightarrow> Inl e | Inr i \<Rightarrow> Inr (RunWireguard i listen (lastconn_path config_path))))))"

definition launch_gool :: "orch \<Rightarrow> sock_addr \<Rightarrow> str \<Rightarrow> app \<Rightarrow> launch task_run" where
  "launch_gool E listen base a =
     (let primary_path = warp_config_path (oc_unicode E) (ap_env a) base;
          secondary_path = derive_sibling_path primary_path (lit ''secondary'') in
      run_bind (load_or_provision_warp E primary_path a) (\<lambda>(a, r).
      case r of
        Inl e \<Rightarrow> Some (Ret (a, Inl e))
      | Inr primary \<Rightarrow>
          run_bind (load_or_provision_warp E secondary_path a) (\<lambda>(a, r). Some (Ret (a,
            case r of Inl e \<Rightarrow> Inl e | Inr secondary \<Rightarrow> Inr (RunGool primary secondary listen))))))"

text \<open>\<open>run_with\<close> up to the loop it ends in; \<open>None\<close> while an answer or a random number is awaited.\<close>

definition run_with :: "str \<Rightarrow> str \<Rightarrow> orch \<Rightarrow> inputs \<Rightarrow> str list \<Rightarrow> app \<Rightarrow> (app \<times> started) run" where
  "run_with usage version E ins args a =
     (let (env, parsed) = parse_args usage version args (ap_env a); a = a\<lparr>ap_env := env\<rparr> in
      case parsed of
        CliExit t \<Rightarrow> Some (Ret (a, LeftWith t))
      | CliPanic \<Rightarrow> Some (Ret (a, CliPanicked))
      | CliFailed e \<Rightarrow> Some (Ret (a, Started (Inl e)))
      | CliDone \<Rightarrow>
          let listen = listen_address env; base = base_config env in
          (case chosen_protocol E ins base (env, ap_token a) of
             None \<Rightarrow> None
           | Some (p, env, cache) \<Rightarrow>
               let a = a\<lparr>ap_env := env, ap_token := cache\<rparr> in
               run_bind (case p of
                   MasqueProto \<Rightarrow> launch_masque E ins listen base a
                 | WireGuardProto \<Rightarrow> launch_wireguard E listen base a
                 | WarpInWarp \<Rightarrow> launch_gool E listen base a)
                 (\<lambda>(a, r). Some (Ret (a, Started r)))))"


section \<open>Correctness\<close>

subsection \<open>Command line\<close>

text \<open>A well-formed option with its value, the words it is written as and the variables it sets.\<close>

fun cmd_ok :: "str \<times> str option \<Rightarrow> bool" where
  "cmd_ok (opt, v) =
     (case map_of cli_options opt of
        Some (SetTo _) \<Rightarrow> v = None
      | Some (TakeValue _) \<Rightarrow> (case v of Some x \<Rightarrow> 0 \<notin> set x | None \<Rightarrow> False)
      | _ \<Rightarrow> False)"

fun cmd_words :: "str \<times> str option \<Rightarrow> str list" where
  "cmd_words (opt, v) = opt # (case v of Some x \<Rightarrow> [x] | None \<Rightarrow> [])"

fun cmd_vars :: "str \<times> str option \<Rightarrow> (str \<times> str) list" where
  "cmd_vars (opt, v) =
     (case map_of cli_options opt of
        Some (SetTo kvs) \<Rightarrow> kvs
      | Some (TakeValue keys) \<Rightarrow> (case v of Some x \<Rightarrow> map (\<lambda>k. (k, x)) keys | None \<Rightarrow> [])
      | _ \<Rightarrow> [])"

lemma set_vars_append: "set_vars (xs @ ys) env = set_vars ys (set_vars xs env)"
  by (simp add: set_vars_def)

lemma set_vars_lookup: "set_vars kvs env k = (case map_of (rev kvs) k of Some v \<Rightarrow> Some v | None \<Rightarrow> env k)"
  by (induction kvs rule: rev_induct) (auto simp: set_vars_def)

lemma parse_cmd:
  "cmd_ok c \<Longrightarrow> parse_args usage version (cmd_words c @ rest) env = parse_args usage version rest (set_vars (cmd_vars c) env)"
  by (cases c) (auto simp: parse_args.simps(2) split: option.splits cli_action.splits)

lemma parse_cmds:
  "list_all cmd_ok cmds \<Longrightarrow> parse_args usage version (concat (map cmd_words cmds)) env = (set_vars (concat (map cmd_vars cmds)) env, CliDone)"
proof (induction cmds arbitrary: env)
  case Nil
  then show ?case by (simp add: set_vars_def)
next
  case (Cons c cmds)
  then show ?case by (simp add: parse_cmd set_vars_append)
qed

lemma done_cmds: "snd (parse_args usage version args env) = CliDone \<Longrightarrow> \<exists>cmds. list_all cmd_ok cmds \<and> args = concat (map cmd_words cmds)"
proof (induction usage version args env rule: parse_args.induct)
  case (1 usage version env)
  have "list_all cmd_ok []" "[] = concat (map cmd_words [])" by simp_all
  then show ?case by blast
next
  case (2 usage version arg rest env)
  show ?case
  proof (cases "map_of cli_options arg")
    case None
    with "2.prems" show ?thesis by (simp add: parse_args.simps(2))
  next
    case (Some act)
    show ?thesis
    proof (cases act)
      case (SetTo kvs)
      with Some "2.prems" "2.IH"(1) obtain cmds where "list_all cmd_ok cmds" "rest = concat (map cmd_words cmds)"
        by (auto simp: parse_args.simps(2))
      with Some SetTo have "list_all cmd_ok ((arg, None) # cmds)" "arg # rest = concat (map cmd_words ((arg, None) # cmds))" by simp_all
      then show ?thesis by blast
    next
      case (TakeValue keys)
      with Some "2.prems" obtain v rest' where v: "rest = v # rest'" "0 \<notin> set v"
        by (cases rest) (auto simp: parse_args.simps(2) split: if_split_asm)
      with Some TakeValue "2.prems" have "snd (parse_args usage version rest' (set_vars (map (\<lambda>k. (k, v)) keys) env)) = CliDone"
        by (simp add: parse_args.simps(2))
      from "2.IH"(2) [OF Some TakeValue v this] obtain cmds where "list_all cmd_ok cmds" "rest' = concat (map cmd_words cmds)" by blast
      with Some TakeValue v have "list_all cmd_ok ((arg, Some v) # cmds)" "arg # rest = concat (map cmd_words ((arg, Some v) # cmds))" by simp_all
      then show ?thesis by blast
    qed (use Some "2.prems" in \<open>simp_all add: parse_args.simps(2)\<close>)
  qed
qed

text \<open>
  The command line is read to its end exactly when it is a sequence of known options, each with its
  value where it takes one. Then every variable has the value of the last option that names it, and the
  other variables keep theirs.
\<close>

lemma command_line_exact:
  "(snd (parse_args usage version args env) = CliDone \<longleftrightarrow> (\<exists>cmds. list_all cmd_ok cmds \<and> args = concat (map cmd_words cmds)))
   \<and> (\<forall>cmds k. list_all cmd_ok cmds \<and> args = concat (map cmd_words cmds) \<longrightarrow>
        fst (parse_args usage version args env) k = (case map_of (rev (concat (map cmd_vars cmds))) k of Some v \<Rightarrow> Some v | None \<Rightarrow> env k))"
  using done_cmds [of usage version args env] by (auto simp: parse_cmds set_vars_lookup)

subsection \<open>Hand-over\<close>

text \<open>The option \<open>--wg-peer\<close> alone starts MASQUE, which does not look at it.\<close>

lemma wg_peer_words: "cmd_ok (lit ''--wg-peer'', Some p) = (0 \<notin> set p)" "cmd_vars (lit ''--wg-peer'', Some p) = [(lit ''AETHER_WG_PEER'', p)]"
  by (simp_all add: cli_options_def flag_def valued_def)

text \<open>
  A peer given with \<open>--wg-peer\<close> and no protocol option is never used: the menu is skipped because of it,
  the protocol is MASQUE, and the MASQUE loop has no forced peer and scans.
\<close>

lemma wg_peer_alone_ignored:
  assumes "0 \<notin> set p" "ap_env a = Map.empty"
  shows "run_with usage version E ins [lit ''--wg-peer'', p] a =
      run_bind (launch_masque E ins (sock_addr_new (V4 0x7F000001) 1819) (lit ''aether.toml'') (a\<lparr>ap_env := [lit ''AETHER_WG_PEER'' \<mapsto> p]\<rparr>))
        (\<lambda>(a, r). Some (Ret (a, Started r)))
    \<and> [lit ''AETHER_WG_PEER'' \<mapsto> p] (lit ''AETHER_PEER'') = None"
proof -
  let ?env = "[lit ''AETHER_WG_PEER'' \<mapsto> p]"
  have "parse_args usage version [lit ''--wg-peer'', p] Map.empty = (?env, CliDone)"
    using parse_cmds [of "[(lit ''--wg-peer'', Some p)]" usage version Map.empty] wg_peer_words assms(1)
    by (simp add: set_vars_def del: lit_simps cmd_ok.simps cmd_vars.simps)
  moreover have "?env (lit ''AETHER_PEER'') = None" "?env (lit ''AETHER_PROTOCOL'') = None" "?env (lit ''AETHER_SOCKS'') = None"
    "?env (lit ''AETHER_CONFIG'') = None" by simp_all
  ultimately show ?thesis
    using assms(2) by (simp add: run_with_def chosen_protocol_def listen_address_def addr_var_def base_config_def Let_def del: lit_simps)
qed

definition kept :: "orch \<Rightarrow> str \<Rightarrow> app \<Rightarrow> identity \<Rightarrow> bool" where
  "kept E path a i \<longleftrightarrow>
     path_file_name path = None \<or> stored E path a i \<or> id_refused i \<and> \<not> keep_saved_identity (ap_env a)"

lemma provisioned_kept:
  "load_or_provision_masque E path a = Some (Ret (a', Inr i)) \<Longrightarrow> kept E path a' i"
  "load_or_provision_warp E path a = Some (Ret (a', Inr i)) \<Longrightarrow> kept E path a' i"
  using provisioned_stored [of path _ E a a' i] by (auto simp: kept_def)

definition launch_sound :: "orch \<Rightarrow> env \<Rightarrow> app \<Rightarrow> launch \<Rightarrow> bool" where
  "launch_sound E env a l =
     (case l of
        RunMasque i ech listen lc \<Rightarrow>
          listen = listen_address env \<and> (\<exists>path. lc = lastconn_path path \<and> kept E path a i)
      | RunWireguard i listen lc \<Rightarrow>
          listen = listen_address env \<and> (\<exists>path. lc = lastconn_path path \<and> kept E path a i)
      | RunGool i j listen \<Rightarrow>
          listen = listen_address env \<and> (\<exists>path a0. kept E path a0 i \<and> kept E (derive_sibling_path path (lit ''secondary'')) a j))"

lemma launches_sound:
  assumes "listen = listen_address env"
  shows "launch_masque E ins listen base a = Some (Ret (a', Inr l)) \<Longrightarrow> launch_sound E env a' l"
    and "launch_wireguard E listen base a = Some (Ret (a', Inr l)) \<Longrightarrow> launch_sound E env a' l"
    and "launch_gool E listen base a = Some (Ret (a', Inr l)) \<Longrightarrow> launch_sound E env a' l"
proof -
  assume "launch_masque E ins listen base a = Some (Ret (a', Inr l))"
  then obtain r path b where r: "load_or_provision_masque E path b = Some (Ret (a', r))"
    "(case r of Inl e \<Rightarrow> Inl e | Inr i \<Rightarrow> Inr (RunMasque i (resolve_ech (ap_env a') (in_ech ins) (in_base64 ins)) listen (lastconn_path path))) = Inr l"
    unfolding launch_masque_def Let_def by (auto simp: run_bind_eq_Ret cong: sum.case_cong)
  then show "launch_sound E env a' l" using assms
    by (cases r) (auto simp: launch_sound_def intro: provisioned_kept intro!: exI [of _ path])
next
  assume "launch_wireguard E listen base a = Some (Ret (a', Inr l))"
  then obtain r path b where r: "load_or_provision_warp E path b = Some (Ret (a', r))"
    "(case r of Inl e \<Rightarrow> Inl e | Inr i \<Rightarrow> Inr (RunWireguard i listen (lastconn_path path))) = Inr l"
    unfolding launch_wireguard_def Let_def by (auto simp: run_bind_eq_Ret)
  then show "launch_sound E env a' l" using assms
    by (cases r) (auto simp: launch_sound_def intro: provisioned_kept intro!: exI [of _ path])
next
  let ?p = "warp_config_path (oc_unicode E) (ap_env a) base"
  assume "launch_gool E listen base a = Some (Ret (a', Inr l))"
  then obtain b r where r: "load_or_provision_warp E ?p a = Some (Ret (b, r))"
    "(case r of Inl e \<Rightarrow> Some (Ret (b, Inl e)) | Inr primary \<Rightarrow>
        run_bind (load_or_provision_warp E (derive_sibling_path ?p (lit ''secondary'')) b) (\<lambda>(a, r). Some (Ret (a,
            case r of Inl e \<Rightarrow> Inl e | Inr secondary \<Rightarrow> Inr (RunGool primary secondary listen))))) = Some (Ret (a', Inr l))"
    unfolding launch_gool_def Let_def by (auto simp: run_bind_eq_Ret simp del: lit_simps)
  then obtain i where i: "r = Inr i" by (cases r) auto
  with r(2) obtain r2 where r2: "load_or_provision_warp E (derive_sibling_path ?p (lit ''secondary'')) b = Some (Ret (a', r2))"
    "(case r2 of Inl e \<Rightarrow> Inl e | Inr secondary \<Rightarrow> Inr (RunGool i secondary listen)) = Inr l"
    by (auto simp: run_bind_eq_Ret simp del: lit_simps)
  then obtain j where "r2 = Inr j" "l = RunGool i j listen" by (cases r2) auto
  with provisioned_kept(2) [of E ?p a b i] provisioned_kept(2) [OF r2(1) [unfolded \<open>r2 = Inr j\<close>]] r(1) i assms
  show "launch_sound E env a' l" by (auto simp: launch_sound_def simp del: lit_simps)
qed



lemma load_identity_env: "load_identity E p (a\<lparr>ap_env := e\<rparr>) = (fst (load_identity E p a)\<lparr>ap_env := e\<rparr>, snd (load_identity E p a))"
  by (simp add: load_identity_def split_beta Let_def)


end
