(* ===== verification/Embed.thy ===== *)
theory Embed
  imports Launch "HOL-Library.AList"
begin

text \<open>
  The program as a library: the operations of \<open>api.rs\<close> and the C interface of \<open>ffi.rs\<close>, with its registry
  of jobs, identities and sign-in sessions. A job runs while other calls come in: a call that starts
  one returns its number, and its end is a step of its own. Reading a payload from JSON is a parameter.
\<close>

section \<open>The model\<close>

subsection \<open>Requests\<close>

datatype transport = TransportMasque | TransportWireguard

definition transport_parse :: "unicode \<Rightarrow> str \<Rightarrow> transport" where
  "transport_parse U raw =
     (if to_lowercase U (trim raw) \<in> {lit ''wg'', lit ''wireguard'', lit ''warp''} then TransportWireguard else TransportMasque)"

definition transport_label :: "transport \<Rightarrow> str" where
  "transport_label t = (case t of TransportMasque \<Rightarrow> lit ''masque'' | TransportWireguard \<Rightarrow> lit ''wireguard'')"

definition assigned_port :: "transport \<Rightarrow> u16" where
  "assigned_port t = (case t of TransportMasque \<Rightarrow> 443 | TransportWireguard \<Rightarrow> 2408)"

definition default_ports :: "transport \<Rightarrow> u16 list" where
  "default_ports t = (case t of TransportMasque \<Rightarrow> MASQUE_PORTS | TransportWireguard \<Rightarrow> WG_PORTS)"

text \<open>Whichever comes first; a cancellation that is already there wins over work that has finished.\<close>

definition guard_work :: "bool \<Rightarrow> 'a result \<Rightarrow> 'a result" where
  "guard_work cancelled work = (if cancelled then Inl Cancelled else work)"

definition credentials_new :: "unicode \<Rightarrow> str \<Rightarrow> team_settings result" where
  "credentials_new U team =
     (case normalize_team U team of
        None \<Rightarrow> Inl (Api ([39] @ team @ [39] @ lit '' is not a usable zero trust team name''))
      | Some t \<Rightarrow> Inr \<lparr>ts_team = t, ts_client_id = None, ts_client_secret = None, ts_token = None, ts_email = None\<rparr>)"

definition team_email_code_submit :: "zt_env \<Rightarrow> u64 \<Rightarrow> email_sign_in \<Rightarrow> str \<Rightarrow> str option \<Rightarrow> str option \<times> str option result" where
  "team_email_code_submit E now s code cache =
     (case submit_code E s code of
        Inl e \<Rightarrow> (cache, Inl e)
      | Inr (CodeRejected _) \<Rightarrow> (cache, Inr None)
      | Inr (CodeToken token) \<Rightarrow>
          (case store_token E now cache token of (cache, Inl e) \<Rightarrow> (cache, Inl e) | (cache, Inr _) \<Rightarrow> (cache, Inr (Some token))))"

record provision_request =
  pq_model :: str
  pq_locale :: str
  pq_team :: "team_settings option"
  pq_masque_cert :: bool

definition provision_for :: "transport \<Rightarrow> provision_request" where
  "provision_for t = \<lparr>pq_model = DEFAULT_MODEL, pq_locale = DEFAULT_LOCALE, pq_team = None, pq_masque_cert = (t = TransportMasque)\<rparr>"

subsection \<open>Identities\<close>

definition identity_path :: "str \<Rightarrow> transport \<Rightarrow> str option \<Rightarrow> str" where
  "identity_path base t team =
     (case team of
        Some team \<Rightarrow> derive_sibling_path base (lit ''team-'' @ team)
      | None \<Rightarrow> (case t of TransportMasque \<Rightarrow> derive_sibling_path base (lit ''masque'') | TransportWireguard \<Rightarrow> base))"

definition attach_masque_cert :: "orch \<Rightarrow> identity \<Rightarrow> identity result run" where
  "attach_masque_cert E i =
     (if has_masque_credentials (ac_clock (oc_account E) 0) i \<and> \<not> masque_cert_expiring (ac_clock (oc_account E) 0) (id_cert_issued_at i)
      then Some (Ret (Inr i))
      else run_bind (ensure_masque_enrolled (oc_account E) (oc_generated E) i) (\<lambda>r. Some (Ret (map_sum id (with_enrollment i) r))))"

definition provision_identity :: "orch \<Rightarrow> provision_request \<Rightarrow> app \<Rightarrow> identity task_run" where
  "provision_identity E q a =
     run_bind (case pq_team q of
         Some settings \<Rightarrow>
           let (cache, signed) = resolve_token (oc_zt E) (ac_clock (oc_account E) 0) (ac_clock (oc_account E) 0) (ap_token a) settings in
           run_bind (provision_team (oc_account E) (oc_draw E) (pq_model q) (pq_locale q) signed) (\<lambda>r.
           case r of
             Inl e \<Rightarrow> Some (Ret (a\<lparr>ap_token := cache\<rparr>, Inl e))
           | Inr i \<Rightarrow> run_bind (refresh_profile (oc_account E) i) (\<lambda>j. Some (Ret (a\<lparr>ap_token := cache\<rparr>, Inr j))))
       | None \<Rightarrow>
           run_bind (provision_wg (oc_account E) (oc_draw E) (pq_model q) (pq_locale q) None) (\<lambda>r. Some (Ret (a, r))))
       (\<lambda>(a, r).
       case r of
         Inl e \<Rightarrow> Some (Ret (a, Inl e))
       | Inr i \<Rightarrow> if pq_masque_cert q then run_bind (attach_masque_cert E i) (\<lambda>r. Some (Ret (a, r))) else Some (Ret (a, Inr i)))"

definition open_identity :: "orch \<Rightarrow> str \<Rightarrow> provision_request \<Rightarrow> app \<Rightarrow> identity task_run" where
  "open_identity E path q a =
     (let (a, loaded) = load_identity E path a in
      case loaded of
        Inl e \<Rightarrow> Some (Ret (a, Inl e))
      | Inr (Some i) \<Rightarrow>
          run_bind (if pq_team q \<noteq> None then refresh_profile (oc_account E) i else Some (Ret i)) (\<lambda>i.
          run_bind (if pq_masque_cert q then attach_masque_cert E i else Some (Ret (Inr i))) (\<lambda>r.
          case r of Inl e \<Rightarrow> Some (Ret (a, Inl e)) | Inr i \<Rightarrow> save_identity E path a i))
      | Inr None \<Rightarrow>
          run_bind (provision_identity E q a) (\<lambda>(a, r).
          case r of Inl e \<Rightarrow> Some (Ret (a, Inl e)) | Inr i \<Rightarrow> save_identity E path a i))"

record identity_summary =
  sm_device :: str
  sm_ipv4 :: str
  sm_ipv6 :: str
  sm_organization :: str
  sm_gateway_proxy :: str
  sm_assigned_endpoint :: str
  sm_has_masque_cert :: bool
  sm_cert_issued_at :: u64
  sm_cert_usable :: bool

definition summary_of :: "u64 \<Rightarrow> u64 \<Rightarrow> identity \<Rightarrow> identity_summary" where
  "summary_of now1 now2 i =
     \<lparr>sm_device = id_device i, sm_ipv4 = id_ipv4 i, sm_ipv6 = id_ipv6 i, sm_organization = id_organization i,
      sm_gateway_proxy = id_gateway_proxy i, sm_assigned_endpoint = id_assigned_endpoint i,
      sm_has_masque_cert = has_masque_credentials now1 i, sm_cert_issued_at = id_cert_issued_at i,
      sm_cert_usable = cert_still_usable now2 i\<rparr>"

subsection \<open>Scans and tunnels\<close>

record scan_request =
  sq_transport :: transport
  sq_mode :: str
  sq_ip :: ip_scan
  sq_ports :: "u16 list"
  sq_excluded :: "sock_addr set"
  sq_ech :: "bytes option"
  sq_noize :: noize_config
  sq_aethernoize :: aether_noize_config

definition scan_for :: "transport \<Rightarrow> scan_request" where
  "scan_for t =
     \<lparr>sq_transport = t, sq_mode = lit ''balanced'', sq_ip = ScanV4, sq_ports = default_ports t, sq_excluded = {}, sq_ech = None,
      sq_noize = noize_from_profile (lit ''firewall''), sq_aethernoize = an_from_profile (lit ''balanced'')\<rparr>"

definition scan_with_profile :: "str \<Rightarrow> scan_request \<Rightarrow> scan_request" where
  "scan_with_profile profile q = q\<lparr>sq_noize := noize_from_profile profile, sq_aethernoize := an_from_profile profile\<rparr>"

definition wg_local_v4 :: "identity \<Rightarrow> ipv4 result" where
  "wg_local_v4 i =
     (case parse_ipv4 (id_ipv4 i) of Some a \<Rightarrow> Inr a | None \<Rightarrow> Inl (Other (lit ''identity has an unusable ipv4 '' @ id_ipv4 i)))"

record endpoint =
  ep_ip :: ip_addr
  ep_port :: u16
  ep_rtt_ms :: u64

definition endpoint_of :: "probe_result \<Rightarrow> endpoint" where
  "endpoint_of best = \<lparr>ep_ip = pr_ip best, ep_port = pr_port best, ep_rtt_ms = of_nat (pr_rtt best)\<rparr>"

text \<open>A scan with what the cancellation says when it has ended; \<open>None\<close> while the scan is drawing random numbers.\<close>

definition api_scan :: "unicode \<Rightarrow> env \<Rightarrow> scan_ctx \<Rightarrow> identity \<Rightarrow> scan_request \<Rightarrow> bool \<Rightarrow> endpoint result option" where
  "api_scan U env X i q cancelled =
     (case sq_transport q of
        TransportMasque \<Rightarrow>
          map_option (map_sum id endpoint_of \<circ> guard_work cancelled)
            (hunt_best_gateway (sx_tuning X) env (scan_mode_parse U (sq_mode q)) (sq_ports q) (sq_ip q) (sx_v6 X) (sx_rng X) (sx_now X) (sx_probes X))
      | TransportWireguard \<Rightarrow>
          (case wg_local_v4 i of
             Inl e \<Rightarrow> Some (Inl e)
           | Inr _ \<Rightarrow>
               map_option (map_sum id endpoint_of \<circ> guard_work cancelled)
                 (hunt_best_wg_endpoint (sx_tuning X) env (scan_mode_parse U (sq_mode q)) (sq_ports q) (sq_ip q) (sx_v6 X) (sq_excluded q)
                   (sx_rng X) (sx_now X) (sx_probes X))))"

record tunnel_spec =
  tp_transport :: transport
  tp_socks :: sock_addr
  tp_http :: "sock_addr option"
  tp_ech :: "bytes option"
  tp_aethernoize :: aether_noize_config
  tp_keepalive :: u16
  tp_verify_timeout :: nat

definition spec_for :: "transport \<Rightarrow> tunnel_spec" where
  "spec_for t =
     \<lparr>tp_transport = t, tp_socks = sock_addr_new (V4 0x7F000001) 1819, tp_http = None, tp_ech = None,
      tp_aethernoize = an_from_profile (lit ''balanced''), tp_keepalive = 5, tp_verify_timeout = 10\<rparr>"

definition spec_with_profile :: "str \<Rightarrow> tunnel_spec \<Rightarrow> tunnel_spec" where
  "spec_with_profile profile spec = spec\<lparr>tp_aethernoize := an_from_profile profile\<rparr>"

text \<open>A fetch of the ECH configuration that fails is only logged.\<close>

definition api_fetch_ech_config :: "bytes result \<Rightarrow> bytes option" where
  "api_fetch_ech_config fetched = (case fetched of Inr raw \<Rightarrow> Some raw | Inl _ \<Rightarrow> None)"

text \<open>
  \<open>connect\<close> sets the variable of the HTTP proxy for the whole process; \<open>masque\<close> and \<open>wg\<close> say what the run of a
  tunnel with the given settings ends with in that environment.
\<close>

definition api_connect ::
  "tunnel_spec \<Rightarrow> bool \<Rightarrow> (bytes option \<Rightarrow> sock_addr \<Rightarrow> env \<Rightarrow> unit result) \<Rightarrow> (aether_noize_config \<Rightarrow> sock_addr \<Rightarrow> env \<Rightarrow> unit result)
    \<Rightarrow> env \<Rightarrow> env \<times> unit result" where
  "api_connect spec cancelled masque wg env =
     (let env = env(lit ''AETHER_HTTP_PROXY'' := map_option show_sock_addr (tp_http spec)) in
      (env, guard_work cancelled
        (case tp_transport spec of
           TransportMasque \<Rightarrow> masque (tp_ech spec) (tp_socks spec) env
         | TransportWireguard \<Rightarrow> wg (tp_aethernoize spec) (tp_socks spec) env)))"

definition api_verify_endpoint :: "tunnel_spec \<Rightarrow> identity \<Rightarrow> bool \<Rightarrow> bool \<Rightarrow> nat result \<Rightarrow> bool result" where
  "api_verify_endpoint spec i cancelled masque_ok wg =
     (case tp_transport spec of
        TransportMasque \<Rightarrow> guard_work cancelled (Inr masque_ok)
      | TransportWireguard \<Rightarrow>
          (case wg_local_v4 i of
             Inl e \<Rightarrow> Inl e
           | Inr _ \<Rightarrow>
               (case guard_work cancelled wg of
                  Inr _ \<Rightarrow> Inr True
                | Inl Cancelled \<Rightarrow> Inl Cancelled
                | Inl e \<Rightarrow> Inr False)))"

subsection \<open>The registry\<close>

type_synonym reply = "str + json"

text \<open>A job holds its cancellation token, named by the job's number, and its state; the work holds the same token.\<close>

record job =
  jb_cancel :: nat
  jb_done :: "json option"

record registry =
  rg_next :: nat
  rg_jobs :: "nat \<rightharpoonup> job"
  rg_identities :: "nat \<rightharpoonup> identity"
  rg_sessions :: "nat \<rightharpoonup> email_sign_in"
  rg_cancelled :: "nat set"

text \<open>\<open>fetch_add\<close> on 64 bits.\<close>

definition next_id :: "registry \<Rightarrow> nat \<times> registry" where
  "next_id g = (rg_next g, g\<lparr>rg_next := (rg_next g + 1) mod 2 ^ 64\<rparr>)"

definition registry_new :: registry where
  "registry_new = \<lparr>rg_next = 1, rg_jobs = Map.empty, rg_identities = Map.empty, rg_sessions = Map.empty, rg_cancelled = {}\<rparr>"

definition json_put :: "str \<Rightarrow> json \<Rightarrow> (str \<times> json) list \<Rightarrow> (str \<times> json) list" where
  "json_put key v members = AList.update key v members"

definition ok_value :: "json \<Rightarrow> json" where
  "ok_value v =
     (case v of
        JObject members \<Rightarrow> JObject (json_put (lit ''ok'') (JBool True) members)
      | other \<Rightarrow> JObject [(lit ''ok'', JBool True), (lit ''result'', other)])"

definition error_value :: "str \<Rightarrow> json" where
  "error_value message = JObject [(lit ''ok'', JBool False), (lit ''error'', JString message)]"

definition respond :: "reply outcome \<Rightarrow> json" where
  "respond work =
     (case work of
        Ret (Inr v) \<Rightarrow> ok_value v
      | Ret (Inl message) \<Rightarrow> error_value message
      | Panic \<Rightarrow> error_value (lit ''the core panicked''))"

text \<open>A C string: \<open>None\<close> for a null pointer.\<close>

definition read_str :: "bytes option \<Rightarrow> str + str" where
  "read_str raw =
     (case raw of
        None \<Rightarrow> Inl (lit ''a required argument was null'')
      | Some bs \<Rightarrow> (case from_utf8 bs of Some t \<Rightarrow> Inr t | None \<Rightarrow> Inl (lit ''an argument was not valid utf-8'')))"

definition read_json :: "(str \<Rightarrow> str + 'p) \<Rightarrow> bytes option \<Rightarrow> str + 'p" where
  "read_json decode raw =
     (case read_str raw of
        Inl e \<Rightarrow> Inl e
      | Inr t \<Rightarrow> (case decode t of Inl e \<Rightarrow> Inl (lit ''the payload is not usable json: '' @ e) | Inr p \<Rightarrow> Inr p))"

definition json_id :: "nat \<Rightarrow> json" where
  "json_id n = JNumber (Some (int n))"

definition no_job :: "nat \<Rightarrow> str" where "no_job n = lit ''there is no job '' @ show_nat n"

definition spawn_job :: "bool \<Rightarrow> registry \<Rightarrow> reply \<times> registry" where
  "spawn_job runtime_ok g =
     (if \<not> runtime_ok then (Inl (lit ''could not start the async runtime''), g)
      else
        let (n, g) = next_id g in
        (Inr (JObject [(lit ''job'', json_id n)]), g\<lparr>rg_jobs := (rg_jobs g)(n \<mapsto> \<lparr>jb_cancel = n, jb_done = None\<rparr>)\<rparr>))"

text \<open>The work of a job has ended: its state is set, which nobody sees when the job was freed.\<close>

definition job_ends :: "nat \<Rightarrow> reply outcome \<Rightarrow> registry \<Rightarrow> registry" where
  "job_ends n work g =
     (case rg_jobs g n of
        None \<Rightarrow> g
      | Some j \<Rightarrow> g\<lparr>rg_jobs := (rg_jobs g)(n \<mapsto> j\<lparr>jb_done := Some (respond work)\<rparr>)\<rparr>)"

definition job_poll :: "nat \<Rightarrow> registry \<Rightarrow> reply" where
  "job_poll n g =
     (case rg_jobs g n of
        None \<Rightarrow> Inl (no_job n)
      | Some j \<Rightarrow>
          Inr (JObject (case jb_done j of
              None \<Rightarrow> [(lit ''state'', JString (lit ''running''))]
            | Some r \<Rightarrow> [(lit ''state'', JString (lit ''done'')), (lit ''result'', r)])))"

definition job_cancel :: "nat \<Rightarrow> registry \<Rightarrow> reply \<times> registry" where
  "job_cancel n g =
     (case rg_jobs g n of
        None \<Rightarrow> (Inl (no_job n), g)
      | Some j \<Rightarrow> (Inr (JObject [(lit ''cancelled'', json_id n)]), g\<lparr>rg_cancelled := insert (jb_cancel j) (rg_cancelled g)\<rparr>))"

definition job_free :: "nat \<Rightarrow> registry \<Rightarrow> reply \<times> registry" where
  "job_free n g =
     (case rg_jobs g n of
        None \<Rightarrow> (Inr (JObject [(lit ''freed'', JNull)]), g)
      | Some j \<Rightarrow>
          (Inr (JObject [(lit ''freed'', json_id n)]),
           g\<lparr>rg_jobs := (rg_jobs g)(n := None), rg_cancelled := insert (jb_cancel j) (rg_cancelled g)\<rparr>))"

definition identity_of :: "nat \<Rightarrow> registry \<Rightarrow> str + identity" where
  "identity_of n g = (case rg_identities g n of Some i \<Rightarrow> Inr i | None \<Rightarrow> Inl (lit ''there is no identity '' @ show_nat n))"

definition session_of :: "nat \<Rightarrow> registry \<Rightarrow> str + email_sign_in" where
  "session_of n g = (case rg_sessions g n of Some s \<Rightarrow> Inr s | None \<Rightarrow> Inl (lit ''there is no sign-in session '' @ show_nat n))"

definition summary_json :: "identity_summary \<Rightarrow> json" where
  "summary_json m = JObject
     [(lit ''device_id'', JString (sm_device m)), (lit ''ipv4'', JString (sm_ipv4 m)), (lit ''ipv6'', JString (sm_ipv6 m)),
      (lit ''organization'', JString (sm_organization m)), (lit ''gateway_proxy'', JString (sm_gateway_proxy m)),
      (lit ''assigned_endpoint'', JString (sm_assigned_endpoint m)), (lit ''has_masque_cert'', JBool (sm_has_masque_cert m)),
      (lit ''cert_issued_at'', JNumber (Some (uint (sm_cert_issued_at m)))), (lit ''cert_usable'', JBool (sm_cert_usable m))]"

definition keep_identity :: "u64 \<Rightarrow> u64 \<Rightarrow> identity \<Rightarrow> registry \<Rightarrow> (str \<times> json) list \<times> registry" where
  "keep_identity now1 now2 i g =
     (let summary = summary_of now1 now2 i; (n, g) = next_id g in
      ([(lit ''identity'', json_id n), (lit ''summary'', summary_json summary)], g\<lparr>rg_identities := (rg_identities g)(n \<mapsto> i)\<rparr>))"

definition aether_identity_summary :: "u64 \<Rightarrow> u64 \<Rightarrow> nat \<Rightarrow> registry \<Rightarrow> reply" where
  "aether_identity_summary now1 now2 n g =
     (case identity_of n g of
        Inl e \<Rightarrow> Inl e
      | Inr i \<Rightarrow> Inr (JObject [(lit ''summary'', summary_json (summary_of now1 now2 i))]))"

definition identity_free :: "nat \<Rightarrow> registry \<Rightarrow> reply \<times> registry" where
  "identity_free n g = (Inr (JObject [(lit ''freed'', json_id n)]), g\<lparr>rg_identities := (rg_identities g)(n := None)\<rparr>)"

definition keep_session :: "email_sign_in \<Rightarrow> registry \<Rightarrow> reply \<times> registry" where
  "keep_session s g =
     (let (n, g) = next_id g in
      (Inr (JObject [(lit ''session'', json_id n), (lit ''email'', JString (es_email s))]), g\<lparr>rg_sessions := (rg_sessions g)(n \<mapsto> s)\<rparr>))"

definition session_free :: "nat \<Rightarrow> registry \<Rightarrow> reply \<times> registry" where
  "session_free n g = (Inr (JObject [(lit ''freed'', json_id n)]), g\<lparr>rg_sessions := (rg_sessions g)(n := None)\<rparr>)"

subsection \<open>Calls that start a job\<close>

text \<open>What a call prepares from its arguments is handed to a job; an error is answered at once.\<close>

definition start_job :: "bool \<Rightarrow> str + 'w \<Rightarrow> registry \<Rightarrow> (str + 'w) \<times> reply \<times> registry" where
  "start_job runtime_ok prepared g =
     (case prepared of Inl e \<Rightarrow> (Inl e, Inl e, g) | Inr work \<Rightarrow> (Inr work, spawn_job runtime_ok g))"

definition socket_of :: "str \<Rightarrow> string \<Rightarrow> str + sock_addr" where
  "socket_of raw what =
     (case parse_sock_addr (trim raw) of
        Some a \<Rightarrow> Inr a
      | None \<Rightarrow> Inl (lit what @ lit '' '' @ [39] @ raw @ [39] @ lit '' is not an address:port''))"

record tunnel_payload =
  yp_peer :: str
  yp_transport :: "str option"
  yp_socks :: "str option"
  yp_http :: "str option"
  yp_profile :: "str option"
  yp_keepalive :: "u16 option"
  yp_ech :: "bool option"

definition transport_of :: "unicode \<Rightarrow> str option \<Rightarrow> transport" where
  "transport_of U raw = (case raw of Some v \<Rightarrow> transport_parse U v | None \<Rightarrow> TransportMasque)"

definition tunnel_spec_of :: "unicode \<Rightarrow> tunnel_payload \<Rightarrow> str + tunnel_spec" where
  "tunnel_spec_of U y =
     (let spec = spec_for (transport_of U (yp_transport y));
          spec = (case yp_profile y of Some p \<Rightarrow> spec_with_profile p spec | None \<Rightarrow> spec) in
      case (case yp_socks y of None \<Rightarrow> Inr (tp_socks spec) | Some s \<Rightarrow> socket_of s ''the socks address'') of
        Inl e \<Rightarrow> Inl e
      | Inr socks \<Rightarrow>
          (case (case yp_http y of None \<Rightarrow> Inr None | Some s \<Rightarrow> map_sum id Some (socket_of s ''the http proxy address'')) of
             Inl e \<Rightarrow> Inl e
           | Inr http \<Rightarrow>
               Inr (spec\<lparr>tp_socks := socks, tp_http := http,
                 tp_keepalive := (case yp_keepalive y of Some k \<Rightarrow> k | None \<Rightarrow> tp_keepalive spec)\<rparr>)))"

text \<open>What \<open>aether_verify_start\<close> and \<open>aether_tunnel_start\<close> prepare.\<close>

definition tunnel_prepared :: "unicode \<Rightarrow> (str \<Rightarrow> str + tunnel_payload) \<Rightarrow> nat \<Rightarrow> bytes option \<Rightarrow> registry \<Rightarrow> str + identity \<times> sock_addr \<times> tunnel_spec \<times> bool" where
  "tunnel_prepared U decode n payload g =
     (case read_json decode payload of
        Inl e \<Rightarrow> Inl e
      | Inr y \<Rightarrow>
          (case identity_of n g of
             Inl e \<Rightarrow> Inl e
           | Inr i \<Rightarrow>
               (case socket_of (yp_peer y) ''the peer address'' of
                  Inl e \<Rightarrow> Inl e
                | Inr peer \<Rightarrow>
                    (case tunnel_spec_of U y of
                       Inl e \<Rightarrow> Inl e
                     | Inr spec \<Rightarrow> Inr (i, peer, spec, yp_ech y = Some True)))))"

definition aether_verify_start ::
  "unicode \<Rightarrow> (str \<Rightarrow> str + tunnel_payload) \<Rightarrow> bool \<Rightarrow> nat \<Rightarrow> bytes option \<Rightarrow> registry \<Rightarrow> (str + identity \<times> sock_addr \<times> tunnel_spec) \<times> reply \<times> registry" where
  "aether_verify_start U decode runtime_ok n payload g =
     start_job runtime_ok (map_sum id (\<lambda>(i, peer, spec, _). (i, peer, spec)) (tunnel_prepared U decode n payload g)) g"

definition verify_reply :: "(io_error \<Rightarrow> str) \<Rightarrow> bool result \<Rightarrow> reply" where
  "verify_reply show_io r =
     (case r of Inl e \<Rightarrow> Inl (show_error show_io e) | Inr reachable \<Rightarrow> Inr (JObject [(lit ''reachable'', JBool reachable)]))"

definition aether_tunnel_start ::
  "unicode \<Rightarrow> (str \<Rightarrow> str + tunnel_payload) \<Rightarrow> bool \<Rightarrow> nat \<Rightarrow> bytes option \<Rightarrow> registry
    \<Rightarrow> (str + identity \<times> sock_addr \<times> tunnel_spec \<times> bool) \<times> reply \<times> registry" where
  "aether_tunnel_start U decode runtime_ok n payload g = start_job runtime_ok (tunnel_prepared U decode n payload g) g"

text \<open>The configuration that the job of a tunnel fetches first.\<close>

definition tunnel_with_ech :: "bool \<Rightarrow> bytes result \<Rightarrow> tunnel_spec \<Rightarrow> tunnel_spec" where
  "tunnel_with_ech want_ech fetched spec =
     (if want_ech \<and> tp_transport spec = TransportMasque then spec\<lparr>tp_ech := api_fetch_ech_config fetched\<rparr> else spec)"

text \<open>How a tunnel job ends.\<close>

definition tunnel_reply :: "(io_error \<Rightarrow> str) \<Rightarrow> unit result \<Rightarrow> reply" where
  "tunnel_reply show_io r =
     (case r of
        Inr _ \<Rightarrow> Inr (JObject [(lit ''state'', JString (lit ''closed''))])
      | Inl Cancelled \<Rightarrow> Inr (JObject [(lit ''state'', JString (lit ''stopped''))])
      | Inl e \<Rightarrow> Inl (show_error show_io e))"

text \<open>The arguments of \<open>aether_core_start\<close>.\<close>

definition core_arguments :: "(str \<Rightarrow> str + str list) \<Rightarrow> bytes option \<Rightarrow> str + str list" where
  "core_arguments decode raw =
     (case raw of
        None \<Rightarrow> Inr []
      | Some _ \<Rightarrow>
          (case read_str raw of
             Inl e \<Rightarrow> Inl e
           | Inr t \<Rightarrow>
               if trim t = [] then Inr []
               else (case decode t of
                   Inl e \<Rightarrow> Inl (lit ''the argument list is not a json array of strings: '' @ e)
                 | Inr args \<Rightarrow> Inr args)))"

text \<open>The job of the whole program; a cancellation that is already there wins.\<close>

definition core_reply :: "(io_error \<Rightarrow> str) \<Rightarrow> bool \<Rightarrow> unit result \<Rightarrow> reply" where
  "core_reply show_io cancelled r =
     (if cancelled then Inr (JObject [(lit ''state'', JString (lit ''stopped''))])
      else case r of
        Inr _ \<Rightarrow> Inr (JObject [(lit ''state'', JString (lit ''closed''))])
      | Inl e \<Rightarrow> Inl (show_error show_io e))"

definition aether_core_start :: "(str \<Rightarrow> str + str list) \<Rightarrow> bool \<Rightarrow> bytes option \<Rightarrow> registry \<Rightarrow> (str + str list) \<times> reply \<times> registry" where
  "aether_core_start decode runtime_ok raw g = start_job runtime_ok (core_arguments decode raw) g"

text \<open>Scans.\<close>

record scan_payload =
  sp_transport :: "str option"
  sp_mode :: "str option"
  sp_ip :: "str option"
  sp_profile :: "str option"
  sp_ports :: "u16 list option"
  sp_excluded :: "str list option"
  sp_ech :: "bool option"

definition scan_request_of :: "unicode \<Rightarrow> scan_payload \<Rightarrow> scan_request" where
  "scan_request_of U y =
     (let q = scan_for (transport_of U (sp_transport y));
          q = (case sp_profile y of Some p \<Rightarrow> scan_with_profile p q | None \<Rightarrow> q);
          q = (case sp_mode y of Some m \<Rightarrow> q\<lparr>sq_mode := m\<rparr> | None \<Rightarrow> q);
          q = (case sp_ip y of Some ip \<Rightarrow> q\<lparr>sq_ip := ip_scan_parse U ip\<rparr> | None \<Rightarrow> q);
          q = (case sp_ports y of Some ports \<Rightarrow> if ports = [] then q else q\<lparr>sq_ports := ports\<rparr> | None \<Rightarrow> q) in
      case sp_excluded y of
        Some excluded \<Rightarrow> q\<lparr>sq_excluded := sq_excluded q \<union> set (List.map_filter (parse_sock_addr \<circ> trim) excluded)\<rparr>
      | None \<Rightarrow> q)"

definition aether_scan_start ::
  "unicode \<Rightarrow> (str \<Rightarrow> str + scan_payload) \<Rightarrow> bool \<Rightarrow> nat \<Rightarrow> bytes option \<Rightarrow> registry \<Rightarrow> (str + identity \<times> scan_request \<times> bool) \<times> reply \<times> registry" where
  "aether_scan_start U decode runtime_ok n payload g =
     start_job runtime_ok
       (case read_json decode payload of
          Inl e \<Rightarrow> Inl e
        | Inr y \<Rightarrow> (case identity_of n g of Inl e \<Rightarrow> Inl e | Inr i \<Rightarrow> Inr (i, scan_request_of U y, sp_ech y = Some True))) g"

definition scan_with_ech :: "bool \<Rightarrow> bytes result \<Rightarrow> scan_request \<Rightarrow> scan_request" where
  "scan_with_ech want_ech fetched q = (if want_ech then q\<lparr>sq_ech := api_fetch_ech_config fetched\<rparr> else q)"

text \<open>Teams and identities.\<close>

record team_payload =
  tm_team :: str
  tm_client_id :: "str option"
  tm_client_secret :: "str option"
  tm_token :: "str option"
  tm_email :: "str option"

definition payload_credentials :: "unicode \<Rightarrow> (io_error \<Rightarrow> str) \<Rightarrow> team_payload \<Rightarrow> str + team_settings" where
  "payload_credentials U show_io y =
     (case credentials_new U (tm_team y) of
        Inl e \<Rightarrow> Inl (show_error show_io e)
      | Inr c \<Rightarrow> Inr (c\<lparr>ts_client_id := tm_client_id y, ts_client_secret := tm_client_secret y, ts_token := tm_token y, ts_email := tm_email y\<rparr>))"

record open_payload =
  op_path :: str
  op_transport :: "str option"
  op_model :: "str option"
  op_locale :: "str option"
  op_team :: "team_payload option"

definition open_request :: "unicode \<Rightarrow> (io_error \<Rightarrow> str) \<Rightarrow> open_payload \<Rightarrow> str + str \<times> provision_request" where
  "open_request U show_io y =
     (let t = transport_of U (op_transport y);
          q = provision_for t;
          q = (case op_model y of Some m \<Rightarrow> q\<lparr>pq_model := m\<rparr> | None \<Rightarrow> q);
          q = (case op_locale y of Some l \<Rightarrow> q\<lparr>pq_locale := l\<rparr> | None \<Rightarrow> q) in
      case (case op_team y of None \<Rightarrow> Inr None | Some team \<Rightarrow> map_sum id Some (payload_credentials U show_io team)) of
        Inl e \<Rightarrow> Inl e
      | Inr team \<Rightarrow> Inr (identity_path (op_path y) t (map_option ts_team team), q\<lparr>pq_team := team\<rparr>))"

definition aether_identity_open ::
  "unicode \<Rightarrow> (io_error \<Rightarrow> str) \<Rightarrow> (str \<Rightarrow> str + open_payload) \<Rightarrow> bool \<Rightarrow> bytes option \<Rightarrow> registry \<Rightarrow> (str + str \<times> provision_request) \<times> reply \<times> registry" where
  "aether_identity_open U show_io decode runtime_ok payload g =
     start_job runtime_ok (case read_json decode payload of Inl e \<Rightarrow> Inl e | Inr y \<Rightarrow> open_request U show_io y) g"

text \<open>The end of that job's work: the identity is registered and described.\<close>

definition identity_opened :: "(io_error \<Rightarrow> str) \<Rightarrow> u64 \<Rightarrow> u64 \<Rightarrow> str \<Rightarrow> identity result \<Rightarrow> registry \<Rightarrow> reply \<times> registry" where
  "identity_opened show_io now1 now2 path r g =
     (case r of
        Inl e \<Rightarrow> (Inl (show_error show_io e), g)
      | Inr i \<Rightarrow>
          let (members, g) = keep_identity now1 now2 i g in
          (Inr (JObject (json_put (lit ''lastconn_path'') (JString (lastconn_path path)) (json_put (lit ''path'') (JString path) members))), g))"

definition aether_team_sign_in ::
  "unicode \<Rightarrow> (io_error \<Rightarrow> str) \<Rightarrow> (str \<Rightarrow> str + team_payload) \<Rightarrow> bool \<Rightarrow> bytes option \<Rightarrow> registry \<Rightarrow> (str + team_settings) \<times> reply \<times> registry" where
  "aether_team_sign_in U show_io decode runtime_ok payload g =
     start_job runtime_ok (case read_json decode payload of Inl e \<Rightarrow> Inl e | Inr y \<Rightarrow> payload_credentials U show_io y) g"

definition aether_team_code_request ::
  "unicode \<Rightarrow> (io_error \<Rightarrow> str) \<Rightarrow> (str \<Rightarrow> str + team_payload) \<Rightarrow> bool \<Rightarrow> bytes option \<Rightarrow> registry \<Rightarrow> (str + team_settings \<times> str) \<times> reply \<times> registry" where
  "aether_team_code_request U show_io decode runtime_ok payload g =
     start_job runtime_ok
       (case read_json decode payload of
          Inl e \<Rightarrow> Inl e
        | Inr y \<Rightarrow>
            (case tm_email y of
               None \<Rightarrow> Inl (lit ''an email address is needed to request a login code'')
             | Some email \<Rightarrow> map_sum id (\<lambda>c. (c, email)) (payload_credentials U show_io y))) g"

definition code_requested :: "(io_error \<Rightarrow> str) \<Rightarrow> email_sign_in result \<Rightarrow> registry \<Rightarrow> reply \<times> registry" where
  "code_requested show_io r g = (case r of Inl e \<Rightarrow> (Inl (show_error show_io e), g) | Inr s \<Rightarrow> keep_session s g)"

definition aether_team_code_resend :: "bool \<Rightarrow> nat \<Rightarrow> registry \<Rightarrow> (str + email_sign_in) \<times> reply \<times> registry" where
  "aether_team_code_resend runtime_ok n g = start_job runtime_ok (session_of n g) g"

text \<open>The session is shared with the job, which stores the new nonce in it; nobody sees that when the session was freed.\<close>

definition code_resent :: "(io_error \<Rightarrow> str) \<Rightarrow> nat \<Rightarrow> email_sign_in result \<Rightarrow> registry \<Rightarrow> reply \<times> registry" where
  "code_resent show_io n r g =
     (case r of
        Inl e \<Rightarrow> (Inl (show_error show_io e), g)
      | Inr s \<Rightarrow>
          (Inr (JObject [(lit ''sent'', JBool True)]),
           if rg_sessions g n = None then g else g\<lparr>rg_sessions := (rg_sessions g)(n \<mapsto> s)\<rparr>))"

definition aether_team_code_submit :: "bool \<Rightarrow> nat \<Rightarrow> bytes option \<Rightarrow> registry \<Rightarrow> (str + email_sign_in \<times> str) \<times> reply \<times> registry" where
  "aether_team_code_submit runtime_ok n code g =
     start_job runtime_ok (case read_str code of Inl e \<Rightarrow> Inl e | Inr c \<Rightarrow> map_sum id (\<lambda>s. (s, c)) (session_of n g)) g"

definition submit_reply :: "(io_error \<Rightarrow> str) \<Rightarrow> str option result \<Rightarrow> reply" where
  "submit_reply show_io r =
     (case r of
        Inl e \<Rightarrow> Inl (show_error show_io e)
      | Inr (Some token) \<Rightarrow> Inr (JObject [(lit ''signed_in'', JBool True), (lit ''token'', JString token)])
      | Inr None \<Rightarrow> Inr (JObject [(lit ''signed_in'', JBool False)]))"

definition aether_team_token_set :: "zt_env \<Rightarrow> (io_error \<Rightarrow> str) \<Rightarrow> u64 \<Rightarrow> bool \<Rightarrow> bytes option \<Rightarrow> str option \<Rightarrow> str option \<times> reply" where
  "aether_team_token_set E show_io now runtime_ok raw cache =
     (case read_str raw of
        Inl e \<Rightarrow> (cache, Inl e)
      | Inr token \<Rightarrow>
          if \<not> runtime_ok then (cache, Inl (lit ''could not start the async runtime''))
          else case store_token E now cache token of
            (cache, Inl e) \<Rightarrow> (cache, Inl (show_error show_io e))
          | (cache, Inr _) \<Rightarrow> (cache, Inr (JObject [(lit ''stored'', JBool True)])))"

definition aether_team_token_clear :: "bool \<Rightarrow> str option \<Rightarrow> str option \<times> reply" where
  "aether_team_token_clear runtime_ok cache =
     (if \<not> runtime_ok then (cache, Inl (lit ''could not start the async runtime''))
      else (clear_token cache, Inr (JObject [(lit ''cleared'', JBool True)])))"


section \<open>Correctness\<close>

subsection \<open>Identities\<close>

text \<open>An identity that is opened stands in its file.\<close>

lemma opened_identity_saved:
  assumes "path_file_name path = Some n" "open_identity E path q a = Some (Ret (a', Inr i))"
  shows "stored E path a' i"
proof -
  obtain b loaded where l: "load_identity E path a = (b, loaded)" by force
  obtain c j where "save_identity E path c j = Some (Ret (a', Inr i))"
  proof (cases loaded)
    case (Inl e)
    with assms(2) l show ?thesis by (simp add: open_identity_def)
  next
    case (Inr found)
    show ?thesis
    proof (cases found)
      case None
      with Inr assms(2) l obtain c r where "(case r of Inl e \<Rightarrow> Some (Ret (c, Inl e)) | Inr i \<Rightarrow> save_identity E path c i) = Some (Ret (a', Inr i))"
        by (auto simp: open_identity_def run_bind_eq_Ret)
      with that show ?thesis by (cases r) auto
    next
      case (Some k)
      with Inr assms(2) l obtain r where "(case r of Inl e \<Rightarrow> Some (Ret (b, Inl e)) | Inr i \<Rightarrow> save_identity E path b i) = Some (Ret (a', Inr i))"
        by (auto simp: open_identity_def run_bind_eq_Ret)
      with that show ?thesis by (cases r) auto
    qed
  qed
  with saved_stored [OF assms(1)] show ?thesis by blast
qed

text \<open>The library interface goes on with an identity that the account service refuses, and never replaces it.\<close>

lemma refused_identity_opened:
  assumes "load_identity E path a = (b, Inr (Some i))" "pq_team q \<noteq> None" "\<not> pq_masque_cert q"
    and "refresh_profile (oc_account E) i = Some (Ret j)" "id_refused j"
  shows "open_identity E path q a = save_identity E path b j"
  using assms by (simp add: open_identity_def)

subsection \<open>Settings that have no effect\<close>

lemma masque_scan_excludes_nothing:
  "sq_transport q = TransportMasque \<Longrightarrow> api_scan U env X i (q\<lparr>sq_excluded := S\<rparr>) cancelled = api_scan U env X i q cancelled"
  by (simp add: api_scan_def)

lemma keepalive_ignored: "api_connect (spec\<lparr>tp_keepalive := k\<rparr>) cancelled masque wg env = api_connect spec cancelled masque wg env"
  by (simp add: api_connect_def Let_def split: transport.split)

text \<open>An argument list with \<open>--version\<close> ends the process of the application that embeds the library.\<close>

lemma core_start_leaves:
  assumes "core_arguments decode raw = Inr [lit ''--version'']"
  shows "\<exists>args. core_arguments decode raw = Inr args
    \<and> run_with usage version E ins args a = Some (Ret (a, LeftWith (lit ''aether '' @ version @ [10])))"
proof -
  have v: "map_of cli_options (lit ''--version'') = Some ShowVersion" by (simp add: cli_options_def)
  have "parse_args usage version [lit ''--version''] (ap_env a) = (ap_env a, CliExit (lit ''aether '' @ version @ [10]))"
    by (simp only: parse_args.simps v option.case cli_action.case)
  with assms show ?thesis by (simp add: run_with_def del: lit_simps)
qed

subsection \<open>The registry\<close>

datatype ffi_call =
    FSpawn bool
  | FEnds nat "reply outcome"
  | FCancel nat
  | FFree nat
  | FKeepIdentity u64 u64 identity
  | FFreeIdentity nat
  | FKeepSession email_sign_in
  | FFreeSession nat
  | FResent nat "email_sign_in result"

fun ffi_step :: "ffi_call \<Rightarrow> registry \<Rightarrow> registry" where
  "ffi_step (FSpawn ok) g = snd (spawn_job ok g)"
| "ffi_step (FEnds n work) g = job_ends n work g"
| "ffi_step (FCancel n) g = snd (job_cancel n g)"
| "ffi_step (FFree n) g = snd (job_free n g)"
| "ffi_step (FKeepIdentity now1 now2 i) g = snd (keep_identity now1 now2 i g)"
| "ffi_step (FFreeIdentity n) g = snd (identity_free n g)"
| "ffi_step (FKeepSession s) g = snd (keep_session s g)"
| "ffi_step (FFreeSession n) g = snd (session_free n g)"
| "ffi_step (FResent n r) g = snd (code_resent (\<lambda>_. []) n r g)"

text \<open>The work of a job ends once.\<close>

fun ffi_may :: "ffi_call \<Rightarrow> registry \<Rightarrow> bool" where
  "ffi_may (FEnds n work) g = (case rg_jobs g n of Some j \<Rightarrow> jb_done j = None | None \<Rightarrow> n < rg_next g)"
| "ffi_may _ g = True"

fun draws :: "ffi_call \<Rightarrow> nat" where
  "draws (FSpawn ok) = (if ok then 1 else 0)"
| "draws (FKeepIdentity _ _ _) = 1"
| "draws (FKeepSession _) = 1"
| "draws _ = 0"

fun ffi_run :: "ffi_call list \<Rightarrow> registry \<Rightarrow> registry option" where
  "ffi_run [] g = Some g"
| "ffi_run (c # cs) g = (if ffi_may c g then ffi_run cs (ffi_step c g) else None)"

definition registry_inv :: "registry \<Rightarrow> bool" where
  "registry_inv g \<longleftrightarrow>
     0 < rg_next g
     \<and> (\<forall>n. rg_jobs g n \<noteq> None \<longrightarrow> 0 < n \<and> n < rg_next g \<and> rg_identities g n = None \<and> rg_sessions g n = None)
     \<and> (\<forall>n. rg_identities g n \<noteq> None \<longrightarrow> 0 < n \<and> n < rg_next g \<and> rg_sessions g n = None)
     \<and> (\<forall>n. rg_sessions g n \<noteq> None \<longrightarrow> 0 < n \<and> n < rg_next g)"

lemmas ffi_defs = spawn_job_def next_id_def job_ends_def job_cancel_def job_free_def keep_identity_def identity_free_def keep_session_def
  session_free_def code_resent_def Let_def

lemma ffi_next:
  assumes "rg_next g + draws c < 2 ^ 64"
  shows "rg_next (ffi_step c g) = rg_next g + draws c"
  using assms
  by (cases c) (auto simp: ffi_defs split: option.splits sum.splits)

lemma ffi_step_inv:
  assumes "registry_inv g" "rg_next g + draws c < 2 ^ 64"
  shows "registry_inv (ffi_step c g)"
proof -
  have fresh: "rg_jobs g (rg_next g) = None" "rg_identities g (rg_next g) = None" "rg_sessions g (rg_next g) = None"
    using assms(1) by (auto simp: registry_inv_def)
  have old: "0 < rg_next g" "\<And>n. rg_jobs g n \<noteq> None \<Longrightarrow> 0 < n \<and> n < rg_next g \<and> rg_identities g n = None \<and> rg_sessions g n = None"
    "\<And>n. rg_identities g n \<noteq> None \<Longrightarrow> 0 < n \<and> n < rg_next g \<and> rg_sessions g n = None"
    "\<And>n. rg_sessions g n \<noteq> None \<Longrightarrow> 0 < n \<and> n < rg_next g"
    using assms(1) unfolding registry_inv_def by blast+
  note drawn = ffi_next [OF assms(2)]
  show ?thesis
  proof (cases c)
    case (FResent m r)
    have "(rg_sessions (ffi_step c g) n = None) = (rg_sessions g n = None)" for n
      using FResent by (cases r) (simp_all add: code_resent_def)
    moreover have "rg_jobs (ffi_step c g) = rg_jobs g" "rg_identities (ffi_step c g) = rg_identities g" "rg_next (ffi_step c g) = rg_next g"
      using FResent by (cases r; simp add: code_resent_def)+
    ultimately show ?thesis using assms(1) unfolding registry_inv_def by presburger
  qed (unfold registry_inv_def drawn, insert fresh old, auto simp: ffi_defs less_Suc_eq split: option.splits)
qed

lemma ffi_step_done:
  assumes "registry_inv g" "rg_next g + draws c < 2 ^ 64" "ffi_may c g" "c \<noteq> FFree n" "rg_jobs g n = Some j" "jb_done j = Some r"
  shows "\<exists>j'. rg_jobs (ffi_step c g) n = Some j' \<and> jb_done j' = Some r"
proof -
  have "n \<noteq> rg_next g" using assms(1,5) by (auto simp: registry_inv_def)
  with assms show ?thesis
    by (cases c) (auto simp: ffi_defs split: option.splits sum.splits)
qed

lemma ffi_run_done:
  assumes "registry_inv g" "rg_next g + sum_list (map draws cs) < 2 ^ 64" "ffi_run cs g = Some g'" "FFree n \<notin> set cs"
    and "rg_jobs g n = Some j" "jb_done j = Some r"
  shows "\<exists>j'. rg_jobs g' n = Some j' \<and> jb_done j' = Some r"
  using assms
proof (induction cs arbitrary: g j)
  case (Cons c cs)
  have c: "ffi_may c g" "ffi_run cs (ffi_step c g) = Some g'" "rg_next g + draws c < 2 ^ 64" "c \<noteq> FFree n"
    using Cons.prems by (auto split: if_split_asm)
  obtain j' where "rg_jobs (ffi_step c g) n = Some j'" "jb_done j' = Some r"
    using ffi_step_done [OF Cons.prems(1) c(3) c(1) c(4) Cons.prems(5,6)] by blast
  with Cons.IH [OF ffi_step_inv [OF Cons.prems(1) c(3)]] c Cons.prems(2,4) ffi_next [OF c(3)] show ?case by auto
qed simp

lemma ffi_run_inv:
  "registry_inv g \<Longrightarrow> rg_next g + sum_list (map draws cs) < 2 ^ 64 \<Longrightarrow> ffi_run cs g = Some g'
    \<Longrightarrow> registry_inv g' \<and> rg_next g' = rg_next g + sum_list (map draws cs)"
proof (induction cs arbitrary: g)
  case (Cons c cs)
  have c: "ffi_run cs (ffi_step c g) = Some g'" "rg_next g + draws c < 2 ^ 64" using Cons.prems by (auto split: if_split_asm)
  have "rg_next (ffi_step c g) + sum_list (map draws cs) < 2 ^ 64" using Cons.prems(2) ffi_next [OF c(2)] by simp
  from Cons.IH [OF ffi_step_inv [OF Cons.prems(1) c(2)] this c(1)] ffi_next [OF c(2)] show ?case by simp
qed simp

lemma ffi_run_append: "ffi_run (xs @ ys) g = (case ffi_run xs g of Some h \<Rightarrow> ffi_run ys h | None \<Rightarrow> None)"
  by (induction xs arbitrary: g) auto

text \<open>The calls of the interface and the ends of their jobs act on the registry as these steps do.\<close>

lemma start_job_steps:
  "snd (snd (start_job ok prepared g)) = (case prepared of Inl _ \<Rightarrow> g | Inr _ \<Rightarrow> ffi_step (FSpawn ok) g)"
  "fst (start_job ok prepared g) = prepared"
  by (simp_all add: start_job_def split: sum.split)

lemma job_ends_steps:
  "snd (identity_opened show_io now1 now2 path r g) = (case r of Inl _ \<Rightarrow> g | Inr i \<Rightarrow> ffi_step (FKeepIdentity now1 now2 i) g)"
  "snd (code_requested show_io s g) = (case s of Inl _ \<Rightarrow> g | Inr s \<Rightarrow> ffi_step (FKeepSession s) g)"
  "snd (code_resent show_io n s g) = ffi_step (FResent n s) g"
  by (simp_all add: next_id_def identity_opened_def code_requested_def keep_identity_def keep_session_def code_resent_def Let_def split: sum.split)

text \<open>A token that is cancelled stays cancelled; cancelling or freeing a job does cancel its token.\<close>

lemma cancelled_stays: "t \<in> rg_cancelled g \<Longrightarrow> t \<in> rg_cancelled (ffi_step c g)"
  by (cases c) (auto simp: ffi_defs split: option.splits sum.splits)

lemma job_cancelled:
  "rg_jobs g n = Some j \<Longrightarrow> jb_cancel j \<in> rg_cancelled (ffi_step (FCancel n) g) \<and> jb_cancel j \<in> rg_cancelled (ffi_step (FFree n) g)"
  by (simp add: job_cancel_def job_free_def)

text \<open>
  C40: Whatever calls come in and whenever jobs end (fewer than \<open>2 ^ 64\<close> numbers being drawn), a number never
  stands for two things, and once a job has ended, every poll answers with the same result, panics of its
  work included, until that job is freed.
\<close>

theorem job_result_kept:
  assumes "ffi_run (xs @ [FEnds n work] @ ys) registry_new = Some g"
    and "sum_list (map draws (xs @ ys)) < 2 ^ 64 - 1"
    and "ffi_run xs registry_new = Some h" "rg_jobs h n \<noteq> None" "FFree n \<notin> set ys"
  shows "registry_inv g
    \<and> job_poll n g = Inr (JObject [(lit ''state'', JString (lit ''done'')), (lit ''result'', respond work)])"
proof -
  have new: "registry_inv registry_new" "rg_next registry_new = 1" by (simp_all add: registry_inv_def registry_new_def)
  have h: "registry_inv h" "rg_next h = 1 + sum_list (map draws xs)"
    using ffi_run_inv [OF new(1) _ assms(3)] assms(2) new(2) by auto
  let ?k = "job_ends n work h"
  obtain j where j: "rg_jobs h n = Some j" using assms(4) by blast
  have may: "ffi_may (FEnds n work) h" and g: "ffi_run ys ?k = Some g"
    using assms(1,3) by (auto simp: ffi_run_append split: if_split_asm option.split_asm simp del: ffi_may.simps)
  have k: "registry_inv ?k" "rg_next ?k = rg_next h"
    using ffi_step_inv [OF h(1), of "FEnds n work"] ffi_next [of h "FEnds n work"] h(2) assms(2) by auto
  have bound: "rg_next ?k + sum_list (map draws ys) < 2 ^ 64" using k(2) h(2) assms(2) by simp
  have "rg_jobs ?k n = Some (j\<lparr>jb_done := Some (respond work)\<rparr>)" using j by (simp add: job_ends_def)
  from ffi_run_done [OF k(1) bound g assms(5) this] obtain j' where "rg_jobs g n = Some j'" "jb_done j' = Some (respond work)" by auto
  with ffi_run_inv [OF k(1) bound g] show ?thesis by (simp add: job_poll_def del: lit_simps)
qed

theorem job_result_kept_witness:
  "\<exists>g. ffi_run [FSpawn True, FSpawn True, FEnds 1 Panic, FCancel 1, FFree 2] registry_new = Some g
     \<and> job_poll 1 g = Inr (JObject [(lit ''state'', JString (lit ''done'')), (lit ''result'', error_value (lit ''the core panicked''))])"
proof -
  let ?xs = "[FSpawn True, FSpawn True]" and ?ys = "[FCancel 1, FFree 2]"
  note defs = registry_new_def spawn_job_def next_id_def job_ends_def job_cancel_def job_free_def Let_def
  obtain h where h: "ffi_run ?xs registry_new = Some h" "rg_jobs h 1 \<noteq> None" "rg_jobs h 1 = Some \<lparr>jb_cancel = 1, jb_done = None\<rparr>"
    by (simp add: defs)
  obtain g where g: "ffi_run (?xs @ [FEnds 1 Panic] @ ?ys) registry_new = Some g"
    using h by (simp add: ffi_run_append del: append_Cons)
  have "sum_list (map draws (?xs @ ?ys)) < 2 ^ 64 - 1" "FFree 1 \<notin> set ?ys" by simp_all
  from job_result_kept [OF g this(1) h(1,2) this(2)] g show ?thesis by (simp add: respond_def del: lit_simps ffi_run.simps)
qed

end
