(* ===== verification/Edge_Tls.thy ===== *)
theory Edge_Tls
  imports Prober Account
begin

text \<open>
  The TLS set-up of the two MASQUE tunnels (\<open>tls.rs\<close>, \<open>build_tls\<close> of \<open>masque_h2.rs\<close>): the calls that configure
  the TLS and QUIC libraries, the check of the edge's key against the pinned ones, and the encrypted
  client hello. The libraries are parameters: which calls they refuse, the key of a certificate, SHA-256.
\<close>

section \<open>The model\<close>

subsection \<open>Pins\<close>

definition MASQUE_PINS :: "bytes list" where
  "MASQUE_PINS =
     [[0xeb, 0x59, 0x1b, 0x36, 0xab, 0x26, 0xba, 0x61, 0x7e, 0x98, 0x37, 0x19, 0x18, 0xc1, 0x0b, 0xcd,
       0xea, 0xe3, 0x74, 0x2d, 0xb6, 0xe7, 0x65, 0x43, 0xf9, 0x4b, 0xe5, 0x24, 0xdc, 0xe1, 0xd5, 0x55],
      [0x3f, 0xbb, 0x1d, 0x74, 0x52, 0xd3, 0x2b, 0x38, 0x81, 0xeb, 0x4b, 0x5d, 0x48, 0x42, 0x14, 0x45,
       0xb6, 0xb9, 0xd8, 0xf5, 0x22, 0x59, 0x59, 0xf0, 0x33, 0x53, 0x2d, 0x50, 0x26, 0x37, 0xb0, 0x40]]"

text \<open>\<open>key_der\<close> is \<open>None\<close> when the key cannot be read out of the certificate or written as DER.\<close>

definition spki_sha256 :: "('cert \<Rightarrow> bytes option) \<Rightarrow> (bytes \<Rightarrow> bytes) \<Rightarrow> 'cert \<Rightarrow> bytes option" where
  "spki_sha256 key_der sha256 cert = map_option sha256 (key_der cert)"

datatype ssl_alert = BadCertificate | InternalError | CertificateUnknown

datatype verification = VerifyNone | VerifyPins "bytes list"

text \<open>The callback that \<open>install_verification\<close> hands to the TLS library.\<close>

definition verify_pins :: "('cert \<Rightarrow> bytes option) \<Rightarrow> (bytes \<Rightarrow> bytes) \<Rightarrow> bytes list \<Rightarrow> 'cert option \<Rightarrow> ssl_alert + unit" where
  "verify_pins key_der sha256 pins peer =
     (case peer of
        None \<Rightarrow> Inl BadCertificate
      | Some leaf \<Rightarrow>
          (case spki_sha256 key_der sha256 leaf of
             None \<Rightarrow> Inl InternalError
           | Some hash \<Rightarrow> if list_ex (\<lambda>pin. pin = hash) pins then Inr () else Inl CertificateUnknown))"

definition install_verification :: "bool \<Rightarrow> bytes list \<Rightarrow> verification" where
  "install_verification pin_endpoint expected_pins =
     (if pin_endpoint \<and> expected_pins \<noteq> [] then VerifyPins expected_pins else VerifyNone)"

text \<open>Whether a handshake goes on with the certificate that the edge presents.\<close>

definition edge_verifies :: "('cert \<Rightarrow> bytes option) \<Rightarrow> (bytes \<Rightarrow> bytes) \<Rightarrow> verification \<Rightarrow> 'cert option \<Rightarrow> ssl_alert + unit" where
  "edge_verifies key_der sha256 v peer =
     (case v of VerifyNone \<Rightarrow> Inr () | VerifyPins pins \<Rightarrow> verify_pins key_der sha256 pins peer)"

subsection \<open>Configurations\<close>

record tls_params =
  tl_cert_pem :: bytes
  tl_key_pem :: bytes
  tl_pin_endpoint :: bool
  tl_expected_pins :: "bytes list"

datatype quic_setting =
    MaxIdleTimeout nat
  | MaxRecvUdpPayload nat
  | MaxSendUdpPayload nat
  | InitialMaxData nat
  | InitialMaxStreamBidiLocal nat
  | InitialMaxStreamBidiRemote nat
  | InitialMaxStreamUni nat
  | InitialMaxStreamsBidi nat
  | InitialMaxStreamsUni nat
  | DisableActiveMigration
  | EnableDgram nat nat

datatype edge_call =
    EdgeBuilder
  | EdgeMinProto nat
  | EdgeMaxProto nat
  | EdgeGrease
  | EdgeCurves str
  | EdgeAlpn bytes
  | EdgeReadCert bytes
  | EdgeReadKey bytes
  | EdgeCertificate bytes
  | EdgePrivateKey bytes
  | EdgeVerification verification
  | EdgeConfigure
  | EdgeVerifyHostname bool
  | EdgeUseSni
  | EdgeQuicContext
  | EdgeApplicationProtos "bytes list"
  | EdgeQuic quic_setting

text \<open>The error that a refused call becomes; the calls without one cannot fail.\<close>

definition refusal :: "edge_call \<Rightarrow> (str \<Rightarrow> aether_error) option" where
  "refusal c =
     (case c of
        EdgeGrease \<Rightarrow> None
      | EdgeVerification _ \<Rightarrow> None
      | EdgeVerifyHostname _ \<Rightarrow> None
      | EdgeUseSni \<Rightarrow> None
      | EdgeQuic _ \<Rightarrow> None
      | EdgeQuicContext \<Rightarrow> Some Quic
      | EdgeApplicationProtos _ \<Rightarrow> Some Quic
      | _ \<Rightarrow> Some Tls)"

fun make_calls :: "(edge_call \<Rightarrow> str option) \<Rightarrow> edge_call list \<Rightarrow> edge_call list result" where
  "make_calls refuses [] = Inr []"
| "make_calls refuses (c # cs) =
     (case (refusal c, refuses c) of
        (Some err, Some t) \<Rightarrow> Inl (err t)
      | _ \<Rightarrow> map_sum id (\<lambda>made. c # made) (make_calls refuses cs))"

definition tls_groups :: "env \<Rightarrow> str" where
  "tls_groups env =
     (case env (lit ''AETHER_TLS_GROUPS'') of
        Some v \<Rightarrow> if trim v = [] then CHROME_GROUPS else trim v
      | None \<Rightarrow> CHROME_GROUPS)"

definition ALPN_H3 :: bytes where "ALPN_H3 = [104, 51]"

definition quic_settings :: "quic_setting list" where
  "quic_settings =
     [MaxIdleTimeout 120000, MaxRecvUdpPayload 1350, MaxSendUdpPayload 1350, InitialMaxData 10000000,
      InitialMaxStreamBidiLocal 2000000, InitialMaxStreamBidiRemote 2000000, InitialMaxStreamUni 2000000,
      InitialMaxStreamsBidi 100, InitialMaxStreamsUni 100, DisableActiveMigration, EnableDgram 65536 65536]"

definition build_config :: "(edge_call \<Rightarrow> str option) \<Rightarrow> env \<Rightarrow> tls_params \<Rightarrow> edge_call list result" where
  "build_config refuses env p =
     make_calls refuses
       ([EdgeBuilder, EdgeMinProto 0x304, EdgeMaxProto 0x304, EdgeGrease, EdgeCurves (tls_groups env),
         EdgeAlpn (word_of_nat (length ALPN_H3) # ALPN_H3), EdgeReadCert (tl_cert_pem p), EdgeReadKey (tl_key_pem p),
         EdgeCertificate (tl_cert_pem p), EdgePrivateKey (tl_key_pem p),
         EdgeVerification (install_verification (tl_pin_endpoint p) (tl_expected_pins p)),
         EdgeQuicContext, EdgeApplicationProtos [ALPN_H3]]
        @ map EdgeQuic quic_settings)"

definition build_tls :: "(edge_call \<Rightarrow> str option) \<Rightarrow> env \<Rightarrow> tls_params \<Rightarrow> edge_call list result" where
  "build_tls refuses env p =
     make_calls refuses
       [EdgeBuilder, EdgeMinProto 0x303, EdgeMaxProto 0x304, EdgeGrease, EdgeCurves (tls_groups env), EdgeAlpn [2, 104, 50],
        EdgeReadCert (tl_cert_pem p), EdgeReadKey (tl_key_pem p), EdgeCertificate (tl_cert_pem p), EdgePrivateKey (tl_key_pem p),
        EdgeVerification (install_verification (tl_pin_endpoint p) (tl_expected_pins p)), EdgeConfigure,
        EdgeVerifyHostname (\<not> (tl_pin_endpoint p \<and> tl_expected_pins p \<noteq> [])), EdgeUseSni]"

text \<open>What both tunnels and both checks of an edge ask for.\<close>

definition tunnel_params :: "bytes \<Rightarrow> bytes \<Rightarrow> tls_params" where
  "tunnel_params cert_pem key_pem =
     \<lparr>tl_cert_pem = cert_pem, tl_key_pem = key_pem, tl_pin_endpoint = True, tl_expected_pins = MASQUE_PINS\<rparr>"

subsection \<open>Encrypted client hello\<close>

definition inject_ech :: "(bytes \<Rightarrow> int) \<Rightarrow> bytes \<Rightarrow> unit result" where
  "inject_ech set_ech ech_config_list =
     (if ech_config_list = [] then Inl (Ech (lit ''empty ech config list''))
      else let rc = set_ech ech_config_list in
        if rc \<noteq> 1 then Inl (Ech (lit ''SSL_set1_ech_config_list failed (rc='' @ show_int rc @ lit '')'')) else Inr ())"

text \<open>\<open>None\<close> is the null pointer.\<close>

definition extract_ech_retry_configs :: "bytes option \<Rightarrow> bytes option" where
  "extract_ech_retry_configs out = (case out of None \<Rightarrow> None | Some bs \<Rightarrow> if bs = [] then None else Some bs)"

definition decode_ech_config_list :: "(str \<Rightarrow> str + bytes) \<Rightarrow> str \<Rightarrow> bytes result" where
  "decode_ech_config_list b64_decode b64 = map_sum Ech id (b64_decode (trim b64))"

section \<open>Correctness\<close>

text \<open>A configuration is made of all the calls, in their order, none of which was refused.\<close>

lemma make_calls_accepted: "list_all (\<lambda>c. refusal c = None \<or> refuses c = None) cs \<Longrightarrow> make_calls refuses cs = Inr cs"
  by (induction cs) (auto split: option.split)

lemma make_calls_Inr: "make_calls refuses cs = Inr made \<Longrightarrow> made = cs"
proof (induction cs arbitrary: made)
  case (Cons c cs)
  then show ?case
    by (cases "make_calls refuses cs") (auto split: option.split_asm)
qed simp

text \<open>The first refused call decides the error.\<close>

lemma make_calls_Inl:
  assumes "make_calls refuses cs = Inl e"
  obtains xs c ys err t where "cs = xs @ c # ys" "list_all (\<lambda>c. refusal c = None \<or> refuses c = None) xs"
    "refusal c = Some err" "refuses c = Some t" "e = err t"
proof -
  from assms have "\<exists>xs c ys err t. cs = xs @ c # ys \<and> list_all (\<lambda>c. refusal c = None \<or> refuses c = None) xs
    \<and> refusal c = Some err \<and> refuses c = Some t \<and> e = err t"
  proof (induction cs)
    case (Cons c cs)
    show ?case
    proof (cases "refusal c = None \<or> refuses c = None")
      case True
      with Cons.prems have "make_calls refuses cs = Inl e"
        by (cases "make_calls refuses cs") (auto split: option.splits)
      from Cons.IH [OF this] obtain xs d ys err t where "cs = xs @ d # ys" "list_all (\<lambda>c. refusal c = None \<or> refuses c = None) xs"
        "refusal d = Some err" "refuses d = Some t" "e = err t" by blast
      with True have "c # cs = (c # xs) @ d # ys" "list_all (\<lambda>c. refusal c = None \<or> refuses c = None) (c # xs)" by simp_all
      with \<open>refusal d = Some err\<close> \<open>refuses d = Some t\<close> \<open>e = err t\<close> show ?thesis by blast
    next
      case False
      then obtain err t where f: "refusal c = Some err" "refuses c = Some t" by auto
      with Cons.prems have "e = err t" by simp
      with f show ?thesis by (intro exI [of _ "[]"] exI [of _ c] exI [of _ cs]) simp
    qed
  qed simp
  with that show thesis by blast
qed

lemma verify_pins_Inr:
  "verify_pins key_der sha256 pins peer = Inr () \<longleftrightarrow>
    (\<exists>leaf der. peer = Some leaf \<and> key_der leaf = Some der \<and> sha256 der \<in> set pins)"
  by (auto simp: verify_pins_def spki_sha256_def list_ex_iff split: option.split)

text \<open>
  C17: Every MASQUE tunnel, over QUIC or HTTP/2, checks the key of the edge: the configuration it starts with
  installs one verification, which lets a handshake go on exactly when the edge presents a certificate
  whose key hashes to one of the two pinned values. The tunnel speaks TLS 1.2 or 1.3 (only 1.3 over QUIC),
  and host names are not checked in addition.
\<close>

theorem edge_pinned:
  assumes "build_config refuses env (tunnel_params cert_pem key_pem) = Inr made \<and> lowest = 0x304
    \<or> build_tls refuses env (tunnel_params cert_pem key_pem) = Inr made \<and> lowest = 0x303"
  shows "(\<exists>v. [c \<leftarrow> made. case c of EdgeVerification _ \<Rightarrow> True | _ \<Rightarrow> False] = [EdgeVerification v]
      \<and> (edge_verifies key_der sha256 v peer = Inr ()
        \<longleftrightarrow> (\<exists>leaf der. peer = Some leaf \<and> key_der leaf = Some der
              \<and> (sha256 der = MASQUE_PINS ! 0 \<or> sha256 der = MASQUE_PINS ! 1))))
    \<and> [c \<leftarrow> made. case c of EdgeMinProto _ \<Rightarrow> True | EdgeMaxProto _ \<Rightarrow> True | _ \<Rightarrow> False] = [EdgeMinProto lowest, EdgeMaxProto 0x304]
    \<and> EdgeVerifyHostname True \<notin> set made"
proof -
  have v: "install_verification True MASQUE_PINS = VerifyPins MASQUE_PINS" by (simp add: install_verification_def MASQUE_PINS_def)
  have pins: "set MASQUE_PINS = {MASQUE_PINS ! 0, MASQUE_PINS ! 1}" by (simp add: MASQUE_PINS_def)
  have ne: "MASQUE_PINS \<noteq> []" by (simp add: MASQUE_PINS_def)
  from assms have made: "[c \<leftarrow> made. case c of EdgeVerification _ \<Rightarrow> True | _ \<Rightarrow> False] = [EdgeVerification (VerifyPins MASQUE_PINS)]
    \<and> [c \<leftarrow> made. case c of EdgeMinProto _ \<Rightarrow> True | EdgeMaxProto _ \<Rightarrow> True | _ \<Rightarrow> False] = [EdgeMinProto lowest, EdgeMaxProto 0x304]
    \<and> EdgeVerifyHostname True \<notin> set made"
    unfolding build_config_def build_tls_def
    by (elim disjE conjE) (drule make_calls_Inr, simp add: tunnel_params_def v ne quic_settings_def)+
  have "edge_verifies key_der sha256 (VerifyPins MASQUE_PINS) peer = Inr ()
      \<longleftrightarrow> (\<exists>leaf der. peer = Some leaf \<and> key_der leaf = Some der \<and> (sha256 der = MASQUE_PINS ! 0 \<or> sha256 der = MASQUE_PINS ! 1))"
    using pins by (simp add: edge_verifies_def verify_pins_Inr)
  with made show ?thesis by blast
qed

theorem edge_pinned_witness:
  "\<exists>made. build_config (\<lambda>_. None) (\<lambda>_. None) (tunnel_params [1] [2]) = Inr made
    \<and> [c \<leftarrow> made. case c of EdgeMinProto _ \<Rightarrow> True | EdgeMaxProto _ \<Rightarrow> True | _ \<Rightarrow> False] = [EdgeMinProto 0x304, EdgeMaxProto 0x304]
    \<and> (\<exists>v. edge_verifies (\<lambda>cert. Some [cert]) (\<lambda>der. if der = [7] then MASQUE_PINS ! 1 else []) v (Some (7 :: u8)) = Inr ()
        \<and> [c \<leftarrow> made. case c of EdgeVerification _ \<Rightarrow> True | _ \<Rightarrow> False] = [EdgeVerification v])"
proof -
  obtain made where m: "build_config (\<lambda>_. None) (\<lambda>_. None) (tunnel_params [1] [2]) = Inr made"
    unfolding build_config_def using make_calls_accepted [of "\<lambda>_. None"] by (fastforce simp: list_all_iff simp del: make_calls.simps)
  then have "build_config (\<lambda>_. None) (\<lambda>_. None) (tunnel_params [1] [2]) = Inr made \<and> (0x304 :: nat) = 0x304
    \<or> build_tls (\<lambda>_. None) (\<lambda>_. None) (tunnel_params [1] [2]) = Inr made \<and> (0x304 :: nat) = 0x303" by blast
  from edge_pinned [OF this, of "\<lambda>cert. Some [cert]" "\<lambda>der. if der = [7] then MASQUE_PINS ! 1 else []" "Some 7"] m show ?thesis
    by auto
qed

text \<open>Without pins nothing is checked: neither the chain of the certificate nor the host name.\<close>

lemma unpinned_accepts_everything: "\<not> pin \<or> pins = [] \<Longrightarrow> edge_verifies key_der sha256 (install_verification pin pins) peer = Inr ()"
  by (auto simp: install_verification_def edge_verifies_def)

text \<open>A retry configuration that the server sends can be injected: it is never the empty list that \<open>inject_ech\<close> refuses.\<close>

lemma retry_config_usable:
  "extract_ech_retry_configs out = Some bs \<Longrightarrow> set_ech bs = 1 \<Longrightarrow> inject_ech set_ech bs = Inr ()"
  by (auto simp: extract_ech_retry_configs_def inject_ech_def split: option.split_asm if_split_asm)

end
