(* ===== verification/Tunnel_Ping.thy ===== *)
theory Tunnel_Ping
  imports Http_Proxy Apifront Prober
begin

text \<open>
  The strictest check of an edge (\<open>tunnelping.rs\<close>): a tunnel is built, and one HTTP request is sent through
  it. The network stack gives the answers; what arrives on the connection is a list of events.
\<close>

section \<open>The model\<close>

definition HTTP_PROBE_HOST :: str where "HTTP_PROBE_HOST = lit ''www.gstatic.com''"
definition HTTP_PROBE_PATH :: str where "HTTP_PROBE_PATH = lit ''/generate_204''"

definition http_probe_port :: "env \<Rightarrow> u16" where
  "http_probe_port env =
     (case env (lit ''AETHER_IRONCLAD_PORT'') of
        Some v \<Rightarrow> (case parse_u16 v of Some p \<Rightarrow> p | None \<Rightarrow> 80)
      | None \<Rightarrow> 80)"

definition http_status_code :: "str \<Rightarrow> u16 option" where
  "http_status_code l =
     (case split_on (\<lambda>c. c = 32) l of
        version # rest \<Rightarrow>
          if \<not> starts_with version (lit ''HTTP/'') then None
          else (case rest of code # _ \<Rightarrow> parse_u16 code | [] \<Rightarrow> None)
      | [] \<Rightarrow> None)"

definition probe_request :: bytes where
  "probe_request = utf8_encode
     (lit ''GET '' @ HTTP_PROBE_PATH @ lit '' HTTP/1.1'' @ [13, 10] @ lit ''Host: '' @ HTTP_PROBE_HOST @ [13, 10]
      @ lit ''Connection: close'' @ [13, 10] @ lit ''User-Agent: aether-ironclad'' @ [13, 10, 13, 10])"

datatype probe_event = ProbeChunk bytes | ProbeEnd | ProbeLate

text \<open>The loop that reads the response: whether the deadline passed, and the bytes; \<open>None\<close> while it waits.\<close>

fun probe_read :: "bytes \<Rightarrow> probe_event list \<Rightarrow> (bool \<times> bytes) option" where
  "probe_read buf [] = None"
| "probe_read buf (ProbeChunk chunk # es) =
     (let buf = buf @ chunk in
      if contains_str buf [13, 10] \<or> 128 \<le> length buf then Some (False, buf) else probe_read buf es)"
| "probe_read buf (ProbeEnd # es) = Some (False, buf)"
| "probe_read buf (ProbeLate # es) = Some (True, buf)"

definition status_line_of :: "bytes \<Rightarrow> str" where
  "status_line_of buf = trim (case lines (from_utf8_lossy buf) of l # _ \<Rightarrow> l | [] \<Rightarrow> [])"

definition probe_verdict :: "bool \<Rightarrow> bytes \<Rightarrow> unit result" where
  "probe_verdict timed_out buf =
     (if timed_out then Inl (Other (lit ''http probe response timeout''))
      else if http_status_code (status_line_of buf) = Some 204 then Inr ()
      else Inl (Other (lit ''unexpected http probe response: '' @ status_line_of buf)))"

record probe_net =
  pb_resolved :: "ip_addr result"
  pb_opened :: "sock_addr \<Rightarrow> unit result"
  pb_sent :: "bytes \<Rightarrow> unit result"

definition http_probe :: "env \<Rightarrow> probe_net \<Rightarrow> probe_event list \<Rightarrow> unit result option" where
  "http_probe env N events =
     (case pb_resolved N of
        Inl e \<Rightarrow> Some (Inl e)
      | Inr ip \<Rightarrow>
          (case pb_opened N (sock_addr_new ip (http_probe_port env)) of
             Inl e \<Rightarrow> Some (Inl e)
           | Inr _ \<Rightarrow>
               (case pb_sent N probe_request of
                  Inl e \<Rightarrow> Some (Inl e)
                | Inr _ \<Rightarrow> map_option (\<lambda>(timed_out, buf). probe_verdict timed_out buf) (probe_read [] events))))"

text \<open>
  The two checks: the stack (and for MASQUE the tunnel's report that it is ready) comes first; the time is
  that of the request alone. \<open>expired\<close> says that the time for the whole check ran out first.
\<close>

definition masque_http_ping :: "unit result \<Rightarrow> bool \<Rightarrow> unit result \<Rightarrow> nat \<Rightarrow> bool \<Rightarrow> nat result" where
  "masque_http_ping spawned ready probed elapsed expired =
     (if expired then Inl (Other (lit ''ironclad http probe timeout''))
      else case spawned of
        Inl e \<Rightarrow> Inl e
      | Inr _ \<Rightarrow>
          if \<not> ready then Inl (Other (lit ''tunnel exited before data-plane validation''))
          else map_sum id (\<lambda>_. elapsed) probed)"

definition wg_http_ping_established :: "unit result \<Rightarrow> unit result \<Rightarrow> nat \<Rightarrow> bool \<Rightarrow> nat result" where
  "wg_http_ping_established spawned probed elapsed expired =
     (if expired then Inl (Other (lit ''ironclad http probe timeout''))
      else case spawned of Inl e \<Rightarrow> Inl e | Inr _ \<Rightarrow> map_sum id (\<lambda>_. elapsed) probed)"

section \<open>Correctness\<close>

text \<open>A carriage return in the encoding stands for itself.\<close>

lemma utf8_encode_cr:
  assumes "list_all scalar s" "13 \<notin> set s"
  shows "13 \<notin> set (utf8_encode s)"
proof -
  have small: "word_of_nat k = (13 :: u8) \<longleftrightarrow> k = 13" if "k < 256" for k
  proof
    assume "word_of_nat k = (13 :: u8)"
    then have "unat (word_of_nat k :: u8) = 13" by simp
    with that show "k = 13" by (simp add: unat_small)
  qed simp
  have "13 \<notin> set (utf8_char c)" if "scalar c" "c \<noteq> 13" for c
  proof -
    have "c < 0x110000" using that(1) by (auto simp: scalar_def)
    then have "c < 0x800 \<Longrightarrow> c div 64 < 32" "c < 0x10000 \<Longrightarrow> c div 4096 < 16" "c div 262144 < 5" by auto
    with that(2) show ?thesis
      by (auto simp: utf8_char_def small eq_commute [of "13 :: u8"] simp del: of_nat_add of_nat_numeral)
  qed
  with assms show ?thesis by (auto simp: utf8_encode_def list_all_iff) 
qed

lemma contains_crlfD: "contains_str s [13, 10] \<Longrightarrow> \<exists>a b. s = a @ 13 # 10 # b"
  for s :: "u8 list"
proof -
  have "find_sub [13, 10] s = Some i \<Longrightarrow> \<exists>a b. s = a @ 13 # 10 # b" for i
  proof (induction s arbitrary: i)
    case (Cons x s)
    show ?case
    proof (cases "starts_with (x # s) [13, 10]")
      case True
      then obtain b where "x # s = 13 # 10 # b" by (cases s) (auto simp: starts_with_def)
      then have "x # s = [] @ 13 # 10 # b" by simp
      then show ?thesis by blast
    next
      case False
      with Cons.prems Cons.IH obtain a b where "s = a @ 13 # 10 # b" by auto
      then have "x # s = (x # a) @ 13 # 10 # b" by simp
      then show ?thesis by blast
    qed
  qed (simp split: if_split_asm)
  then show "contains_str s [13, 10] \<Longrightarrow> \<exists>a b. s = a @ 13 # 10 # b" by (auto simp: contains_str_def)
qed

lemma no_crlf_inside:
  fixes line :: "u8 list"
  assumes "13 \<notin> set line" "n < length line + 2"
  shows "\<not> contains_str (take n (line @ [13, 10] @ rest)) [13, 10]"
proof
  assume "contains_str (take n (line @ [13, 10] @ rest)) [13, 10]"
  then obtain a b where ab: "take n (line @ [13, 10] @ rest) = a @ 13 # 10 # b" using contains_crlfD by blast
  show False
  proof (cases "n \<le> length line")
    case True
    with ab have "13 \<in> set (take n line)" by simp
    with assms(1) show False by (meson in_set_takeD)
  next
    case False
    with assms(2) have "n = length line + 1" by simp
    with ab have e: "line @ [13] = a @ 13 # 10 # b" by simp
    then show False using assms(1) by (cases b rule: rev_cases) auto
  qed
qed

text \<open>The loop stops behind the first line, however the response is cut into chunks.\<close>

lemma probe_read_line:
  fixes line :: "u8 list"
  assumes "13 \<notin> set line" "length line + 2 \<le> 128"
  shows "length buf < length line + 2 \<Longrightarrow> buf @ concat chunks = line @ [13, 10] @ rest
    \<Longrightarrow> \<exists>tail. probe_read buf (map ProbeChunk chunks @ es) = Some (False, line @ [13, 10] @ tail)"
proof (induction chunks arbitrary: buf)
  case Nil
  from Nil.prems(2) have "length buf = length line + 2 + length rest" by simp
  with Nil.prems(1) show ?case by simp
next
  case (Cons c chunks)
  let ?buf = "buf @ c"
  have pre: "?buf = take (length ?buf) (line @ [13, 10] @ rest)"
    using Cons.prems(2) by (metis append.assoc append_eq_conv_conj concat.simps(2))
  show ?case
  proof (cases "length ?buf < length line + 2")
    case True
    with pre no_crlf_inside [OF assms(1) True] have "\<not> contains_str ?buf [13, 10]" by metis
    moreover have "length ?buf < 128" using True assms(2) by linarith
    ultimately have "probe_read buf (map ProbeChunk (c # chunks) @ es) = probe_read ?buf (map ProbeChunk chunks @ es)"
      by (simp add: Let_def)
    moreover have "?buf @ concat chunks = line @ [13, 10] @ rest" using Cons.prems(2) by simp
    ultimately show ?thesis using Cons.IH [OF True] by simp
  next
    case False
    with pre obtain tail where t: "?buf = line @ [13, 10] @ tail" by (simp add: numeral_2_eq_2 take_Cons' split: if_split_asm)
    have "contains_str ?buf [13, 10]" unfolding t contains_str_def using find_sub_first [OF assms(1), of "[10]" tail] by simp
    with t show ?thesis by (simp add: Let_def)
  qed
qed

lemma status_line_found:
  assumes "list_all scalar line" "13 \<notin> set line" "10 \<notin> set line"
  shows "status_line_of (utf8_encode line @ [13, 10] @ tail) = trim line"
proof -
  have l: "from_utf8_lossy (utf8_encode line @ [13, 10] @ tail) = (line @ [13]) @ 10 # lossy (map unat tail)"
    using lossy_encoded_append [OF assms(1), of "13 # 10 # map unat tail"] by (simp add: from_utf8_lossy_def utf8_ascii_Cons)
  have "list_all (\<lambda>x. \<not> x = 10) (line @ [13])" using assms(3) by (auto simp: list_all_iff)
  from split_on_append [OF this, of 10 "lossy (map unat tail)"]
  have "split_on (\<lambda>c. c = 10) ((line @ [13]) @ 10 # lossy (map unat tail)) = (line @ [13]) # split_on (\<lambda>c. c = 10) (lossy (map unat tail))"
    by simp
  moreover have "split_on (\<lambda>c. c = 10) x \<noteq> []" for x :: str by (cases x) (auto split: list.split)
  ultimately show ?thesis
    unfolding status_line_of_def l lines_def
    by (cases "split_on (\<lambda>c. c = 10) (lossy (map unat tail))") (simp_all add: strip_cr_def)
qed

text \<open>
  The check passes exactly when the response's status line has the code 204, however the response is
  cut into chunks and whatever follows the line (a 204 in a header does not count); any other status
  line is reported. This holds for every status line that fits into the 128 bytes the check reads.
\<close>

lemma http_probe_exact:
  assumes "pb_resolved N = Inr ip" "pb_opened N (sock_addr_new ip (http_probe_port env)) = Inr ()" "pb_sent N probe_request = Inr ()"
    and "list_all scalar line" "13 \<notin> set line" "10 \<notin> set line" "length (utf8_encode line) + 2 \<le> 128"
    and "concat chunks = utf8_encode line @ [13, 10] @ rest"
  shows "http_probe env N (map ProbeChunk chunks @ es) =
    Some (if http_status_code (trim line) = Some 204 then Inr ()
          else Inl (Other (lit ''unexpected http probe response: '' @ trim line)))"
proof -
  have "13 \<notin> set (utf8_encode line)" using assms(4,5) by (rule utf8_encode_cr)
  from probe_read_line [OF this assms(7), of "[]" chunks rest es] assms(8)
  obtain tail where "probe_read [] (map ProbeChunk chunks @ es) = Some (False, utf8_encode line @ [13, 10] @ tail)" by auto
  with assms(1-3) status_line_found [OF assms(4-6)] show ?thesis
    by (simp add: http_probe_def probe_verdict_def del: lit_simps)
qed

text \<open>The rules applied to a response that comes in three pieces.\<close>

lemma http_probe_in_pieces:
  "http_probe (\<lambda>_. None) \<lparr>pb_resolved = Inr (V4 1), pb_opened = (\<lambda>_. Inr ()), pb_sent = (\<lambda>_. Inr ())\<rparr>
     (map ProbeChunk [utf8_encode (lit ''HTTP/1.1 2''), utf8_encode (lit ''04 No Content'') @ [13], [10, 65]]) = Some (Inr ())"
proof -
  let ?N = "\<lparr>pb_resolved = Inr (V4 1), pb_opened = (\<lambda>_. Inr ()), pb_sent = (\<lambda>_. Inr ())\<rparr> :: probe_net"
  let ?l = "lit ''HTTP/1.1 204 No Content''"
  have a: "list_all scalar ?l" "13 \<notin> set ?l" "10 \<notin> set ?l" "length (utf8_encode ?l) + 2 \<le> 128"
    by (simp_all add: scalar_def utf8_encode_ascii)
  have c: "concat [utf8_encode (lit ''HTTP/1.1 2''), utf8_encode (lit ''04 No Content'') @ [13], [10, 65]] = utf8_encode ?l @ [13, 10] @ [65]"
    by (simp add: utf8_encode_ascii)
  have "trim ?l = ?l" by (simp add: trim_def trim_start_def trim_end_def is_whitespace_def)
  moreover have "parse_u16 (lit ''204'') = Some 204" by (simp add: parse_u16_def parse_uint_def is_digit_def digits_value_def)
  ultimately have "http_status_code (trim ?l) = Some 204" by (simp add: http_status_code_def starts_with_def)
  with http_probe_exact [OF _ _ _ a c, of ?N "V4 1" "\<lambda>_. None" "[]"] show ?thesis by simp
qed

text \<open>A check that passes has had its stack, its tunnel and an answered request within its time.\<close>

lemma masque_http_ping_Inr:
  "masque_http_ping spawned ready probed elapsed expired = Inr rtt \<longleftrightarrow>
    \<not> expired \<and> spawned = Inr () \<and> ready \<and> probed = Inr () \<and> rtt = elapsed"
  by (cases spawned; cases probed) (auto simp: masque_http_ping_def)

lemma wg_http_ping_Inr:
  "wg_http_ping_established spawned probed elapsed expired = Inr rtt \<longleftrightarrow> \<not> expired \<and> spawned = Inr () \<and> probed = Inr () \<and> rtt = elapsed"
  by (cases spawned; cases probed) (auto simp: wg_http_ping_established_def)

end
