(* ===== verification/Spec2Isabelle.thy ===== *)
theory Spec2Isabelle
  imports Quic Socks_Server Http_Proxy Netstack Wireguard Fragment Upstream Wg_Prober Embed Edge_Tls Tunnel_Ping
begin

text \<open>
  A verification library of Aether, the network core of the VPN client in \<open>native/aether/aether/src\<close>.

  \<^bold>\<open>The program.\<close> Aether gives applications a local SOCKS5 and HTTP proxy. What a proxy accepts is routed
  (blocked, sent straight out, or tunnelled); tunnelled connections become TCP or UDP sockets of a
  user-space network stack, whose IP packets travel to an edge server over MASQUE (HTTP/3 datagrams or
  HTTP/2 capsules) or WireGuard, optionally disguised by junk packets, fragmented handshakes or an
  upstream proxy. Around this core, a scanner finds edge servers, an account client registers the
  device, and the orchestration picks a protocol, loads the identity, chooses a peer and reconnects.

  \<^bold>\<open>How the program is modelled.\<close> A struct is a record, an enum a datatype, an operation one definition with
  the branches of its code. Errors are values of \<open>aether_error\<close> in a sum; a panic (an index out of range,
  an overflow) is the value \<open>Panic\<close> of the type \<open>outcome\<close>. State is passed explicitly, or through the state
  monad where a connection is threaded through many calls. Bytes and 16, 32 and 64 bit numbers are words;
  text is a list of code points. A loop over a socket or a \<open>select!\<close> is a step relation whose events carry
  what the environment answers, so that the theorems hold for every peer, scheduler and clock. Libraries
  (QUIC, TLS, HTTP, TOML, JSON, base64, regular expressions, cryptography) are parameters, with what the
  code needs of them as hypotheses.

  \<^bold>\<open>The theories\<close>, in the order of their imports, with the code they model and what they show.

  \<^item> \<open>Prelude\<close>, \<open>Framing\<close>, \<open>Rust_Str\<close>, \<open>Rust_Net\<close>, \<open>Rust_Rand\<close>, \<open>Aether_Error\<close> (\<open>error.rs\<close>): the shared base. Outcomes
    and their rules, the locale of a framed codec with its stream lemmas, UTF-8 and text operations, the
    reading and printing of addresses, random draws.
  \<^item> \<open>Octets\<close> (\<open>octets/src/lib.rs\<close> of the QUIC library): the byte cursor and variable-length integers. No read
    panics, and what is written is read back.
  \<^item> \<open>Masque_Proto\<close> (\<open>masque.rs\<close>): datagrams, capsules and the incremental parser, an interpretation of the framed
    codec. The parser is bounded, never panics and does not depend on how the bytes arrive.
  \<^item> \<open>Masque_H2\<close> (\<open>masque_h2.rs\<close>) and \<open>Quic\<close> (\<open>quic.rs\<close>): the two tunnel loops and the two checks of an edge.
    Readiness is signalled at most once and only behind data from the edge, deadlines are kept, packets
    arrive in order, the QUIC tunnel dials again at most once.
  \<^item> \<open>Routing\<close> (\<open>routing.rs\<close>), \<open>Sniff\<close> (\<open>sniff.rs\<close>), \<open>Dns\<close> (\<open>dns.rs\<close>, the lookups of \<open>socks.rs\<close>): rules decide as their
    entries say; a name that is read out of a ClientHello or a request is the one that was sent; a DNS
    reply is accepted exactly when it answers the query.
  \<^item> \<open>Proxy_Io\<close>, \<open>Socks_Connect\<close>, \<open>Socks_Udp\<close>, \<open>Socks_Server\<close>, \<open>Http_Proxy\<close> (\<open>socks.rs\<close>): the proxy servers. The locale
    \<open>routed_server\<close> states what a server promises of its events; both servers interpret it, and this
    theory interprets it once more for the two together. Routing is never violated, nothing that a client
    sends is lost or reordered, a failed gateway is never used again, a UDP association belongs to one client.
  \<^item> \<open>Sysprofile\<close> (\<open>sysprofile.rs\<close>), \<open>Netstack\<close> (\<open>netstack.rs\<close>): the socket tables, their ports and buffers. The table
    invariant holds in every reachable state, a stream is exact in both directions, a request is answered.
  \<^item> \<open>Noize\<close> (\<open>noize.rs\<close>, \<open>aethernoize.rs\<close>), \<open>Wireguard\<close> (\<open>wireguard.rs\<close>), \<open>Fragment\<close> (\<open>fragment.rs\<close>): junk is bounded (the
    locale \<open>obfuscator\<close>, interpreted for both transports), the WireGuard tunnel only passes what it may, a
    fragmented stream is the stream.
  \<^item> \<open>Upstream\<close> (\<open>upstream.rs\<close>): the detour through an upstream proxy, handshakes and relays.
  \<^item> \<open>Prober\<close> (\<open>prober.rs\<close>), \<open>Wg_Prober\<close> (\<open>wg_prober.rs\<close>): which addresses are scanned, and that the fastest are picked.
  \<^item> \<open>Apifront\<close> (\<open>apifront.rs\<close>), \<open>Account\<close> (\<open>account.rs\<close>): the calls to the account service, with retries and the
    camouflaged route; what is handed out is valid.
  \<^item> \<open>Identity_File\<close> (\<open>config.rs\<close>, \<open>lastconn.rs\<close>), \<open>Zerotrust\<close> (\<open>zerotrust.rs\<close>): files are replaced atomically and read
    back; tokens of a session are sound.
  \<^item> \<open>Orchestrate\<close> (\<open>lib.rs\<close>), \<open>Launch\<close> (\<open>cli.rs\<close>, \<open>run_with\<close> of \<open>lib.rs\<close>): which identity, peer and file is used when. Used
    identities are saved, failed endpoints rest, two tunnels use two edges, proxies only stand behind
    validated tunnels, tasks end with their run.
  \<^item> \<open>Embed\<close> (\<open>api.rs\<close>, \<open>ffi.rs\<close>): the library interface, its calls and its registry of jobs, identities and
    sessions. Numbers never clash and the result of a job is kept until it is freed.
  \<^item> \<open>Edge_Tls\<close> (\<open>tls.rs\<close>, \<open>build_tls\<close> of \<open>masque_h2.rs\<close>), \<open>Tunnel_Ping\<close> (\<open>tunnelping.rs\<close>): the keys of edges are pinned on both
    tunnels; the strictest check of an edge passes exactly on the status 204.

  \<^bold>\<open>Bounds and fuel.\<close> No definition has a fuel counter. Recursions end by a measure (mostly the bytes that are
  left), which their termination proofs show. Where the code draws random numbers until they are good
  enough, or waits for an event, the draws and events are a list, and the value \<open>None\<close> means that the list
  ended first; the theorems about results either hold for every such list or show that a list of the
  length they name is enough (\<open>Prober\<close>). Time is a natural number of milliseconds or seconds given with
  each event. Counters that can wrap in the code are words or carry their modulus.

  \<^bold>\<open>Not modelled.\<close> Of \<open>lib.rs\<close> the UDP forwarder between two tunnels, the panic hook and the reading of the
  terminal; of \<open>quic.rs\<close> the sockets and their readers. The library \<open>quiche\<close> beyond its byte cursor, smoltcp and
  the other dependencies are not code of this program, and the application in \<open>app/\<close> is a user
  interface in Kotlin. Memory, threads and the exact interleaving inside a single call are not modelled.
\<close>

section \<open>The two proxy servers together\<close>

text \<open>A request to either server; the HTTP proxy reads its target from the connection.\<close>

datatype request = SocksRequest target u16 | HttpRequest

definition serve_request :: "('re, 'net) world \<Rightarrow> request \<Rightarrow> unit result handler" where
  "serve_request W r = (case r of SocksRequest t port \<Rightarrow> handle_connect W t port | HttpRequest \<Rightarrow> handle_http_client W)"

definition request_verdict :: "('re, 'net) world \<Rightarrow> request \<Rightarrow> conn \<Rightarrow> action option" where
  "request_verdict W r s = (case r of SocksRequest t port \<Rightarrow> connect_verdict W t port s | HttpRequest \<Rightarrow> http_verdict W s)"

interpretation servers: routed_server "serve_request W" "request_verdict W" for W
proof
  show "honours (request_verdict W r s) (new_events (serve_request W r) s)" for r s
    by (cases r) (simp_all add: request_verdict_def serve_request_def handle_connect_honours handle_http_client_honours)
  show "quiet (serve_request W r)" for r
    by (cases r) (simp_all add: serve_request_def quiet_rules)
qed

lemma failed_gateway_retired:
  assumes "gateway_healthy s" "w_gateway W = Some proxy" "should_use_gateway port"
    "run_state (open_through_gateway W proxy (show_target t) port) s = (Inl e, u)"
  shows "\<not> gateway_healthy (snd (run_state (open_tunneled W t port) s))"
proof -
  let ?plain = "try_then (resolve W t) (\<lambda>ip.
      try_then (perform (OpenTcp (sock_addr_new ip port)) (w_open_tcp W)) (\<lambda>_. State_Monad.return (Inr ([] :: bytes))))"
  have "run_state (open_tunneled W t port) s = run_state ?plain (u\<lparr>gateway_healthy := False\<rparr>)"
    using assms by (simp add: open_tunneled_def gateway_proxy_def retire_gateway_def State_Monad.update_def Let_def)
  moreover have "quiet ?plain" by (auto intro!: quiet_rules)
  ultimately show ?thesis using quiet_new_events [of ?plain "u\<lparr>gateway_healthy := False\<rparr>"] by simp
qed

text \<open>
  Where a request comes to open a proxied channel: the target and the state of its connection then.
  A SOCKS connection whose name is sniffed has been answered and read from by that time, an HTTP
  request has had its head read.
\<close>

definition channel_opening :: "('re, 'net) world \<Rightarrow> request \<Rightarrow> conn \<Rightarrow> (target \<times> u16 \<times> conn) option" where
  "channel_opening W r s =
     (case r of
        SocksRequest t port \<Rightarrow>
          if connect_verdict W t port s = Some Proxy
          then Some (t, port, if sniffs W t then (case sniffed_head W s of Some head \<Rightarrow> sniffed_state W s head | None \<Rightarrow> s) else s)
          else None
      | HttpRequest \<Rightarrow>
          (case run_state (read_head W) s of
             (Inr head, s1) \<Rightarrow>
               (case parse_request_line (first_line (from_utf8_lossy head)) of
                  Some request \<Rightarrow>
                    if http_verdict W s = Some Proxy then Some (http_target request, req_port request, s1) else None
                | None \<Rightarrow> None)
           | (Inl _, _) \<Rightarrow> None))"

lemma stays_retired:
  assumes "\<not> gateway_healthy (snd (run_state m s))"
  shows "(\<And>x. quiet (k x)) \<Longrightarrow> \<not> gateway_healthy (snd (run_state (State_Monad.bind m k) s))"
    "(\<And>x. quiet (k' x)) \<Longrightarrow> \<not> gateway_healthy (snd (run_state (try_then m k') s))"
proof -
  obtain x u where m: "run_state m s = (x, u)" by fastforce
  show "\<not> gateway_healthy (snd (run_state (State_Monad.bind m k) s))" if "\<And>x. quiet (k x)"
    using quiet_new_events [OF that, of u x] assms m by simp
  show "\<not> gateway_healthy (snd (run_state (try_then m k') s))" if "\<And>x. quiet (k' x)"
    using quiet_new_events [OF that, of u] assms m by (cases x) (simp_all add: run_simps)
qed

lemma open_channel_retired:
  assumes "\<not> gateway_healthy (snd (run_state (open_tunneled W t port) s))"
  shows "\<not> gateway_healthy (snd (run_state (open_channel W t port) s))"
  unfolding open_channel_tunneled by (rule stays_retired(1) [OF assms]) (auto intro!: quiet_rules)

lemma quiet_serve_http_channel [quiet_rules]: "quiet (serve_http_channel W request text leftover)"
  unfolding serve_http_channel_def Let_def by (auto intro!: quiet_rules split: option.split)

lemma opening_retired:
  assumes "channel_opening W r s = Some (t, port, s1)" "\<not> gateway_healthy (snd (run_state (open_tunneled W t port) s1))"
  shows "\<not> gateway_healthy (snd (run_state (serve_request W r) s))"
proof (cases r)
  case (SocksRequest u p)
  with assms(1) have v: "connect_verdict W t port s = Some Proxy" "u = t" "p = port"
    and s1: "s1 = (if sniffs W t then (case sniffed_head W s of Some head \<Rightarrow> sniffed_state W s head | None \<Rightarrow> s) else s)"
    by (auto simp: channel_opening_def split: if_split_asm)
  have routed: "\<not> gateway_healthy (snd (run_state (connect_routed W t port head replied named) s1))"
    if "decide_route (w_unicode W) (w_lib W) (w_rules W) t named port = Proxy" for head replied named
    using that stays_retired(2) [OF open_channel_retired [OF assms(2)] quiet_serve_channel] by (simp add: connect_routed_def)
  show ?thesis
  proof (cases "sniffs W t")
    case True
    then obtain head where "sniffed_head W s = Some head" using v(1) by (auto simp: connect_verdict_def)
    with True v s1 routed handle_connect_sniffed [OF True, of port s] SocksRequest show ?thesis
      by (simp add: serve_request_def connect_verdict_def)
  next
    case False
    with v s1 routed SocksRequest show ?thesis by (simp add: serve_request_def handle_connect_plain connect_verdict_def)
  qed
next
  case HttpRequest
  with assms(1) obtain head request where h: "run_state (read_head W) s = (Inr head, s1)"
    "parse_request_line (first_line (from_utf8_lossy head)) = Some request" "t = http_target request" "port = req_port request"
    "http_verdict W s = Some Proxy"
    by (auto simp: channel_opening_def split: prod.split_asm sum.split_asm option.split_asm if_split_asm)
  then have "decide (w_unicode W) (w_lib W) (w_rules W) (host_of (http_target request)) (req_port request) = Proxy"
    by (simp add: http_verdict_def)
  then have "\<not> gateway_healthy (snd (run_state (http_routed W request head) s1))"
    unfolding http_routed_def action.case h(3,4) [symmetric]
    by (simp only: action.case) (rule stays_retired(1) [OF assms(2)], auto intro!: quiet_rules)
  with h HttpRequest show ?thesis by (simp add: serve_request_def handle_http_client_def run_simps)
qed

lemma opening_healthy:
  assumes "channel_opening W r s = Some (t, port, s1)"
  shows "gateway_healthy s1 = gateway_healthy s"
proof -
  have "gateway_healthy (snd (run_state (read_head_loop W seen peeks) s)) = gateway_healthy s" for seen peeks
    by (induction W seen peeks rule: read_head_loop.induct) (auto simp: run_simps split: head_scan.split)
  then have "gateway_healthy (snd (run_state (read_head W) s)) = gateway_healthy s" by (simp add: read_head_def run_simps)
  with assms show ?thesis
    by (auto simp: channel_opening_def sniffed_state_def split: request.split_asm prod.split_asm sum.split_asm option.split_asm if_split_asm)
qed

lemma upload_exact_events: "upload_exact head s (snd (run_state m s)) \<Longrightarrow>
    uploaded (new_events m s) = [] \<and> \<not> relayed (new_events m s)
    \<or> uploaded (new_events m s) @ conn_input (snd (run_state m s)) = head @ conn_input s"
  by (auto simp: upload_exact_def new_events_def)

section \<open>Properties\<close>

text \<open>
  C1: Routing decisions are never violated, by either server and in any sequence of connections,
  whatever clients, resolvers, gateway and stack do: a blocked connection contacts nobody but its
  client, a direct one never touches the tunnel, and a proxied one (its name lookups included) never
  reaches the network except through the tunnel.
\<close>

theorem connections_honour_routing:
  "list_all (\<lambda>(v, es). honours v es) (session (serve_request W) (request_verdict W) rs s)"
  by (rule servers.session_honours)

text \<open>
  C4: A gateway that fails once is given up for good, by either server: when the attempt to open a
  connection through it fails while a SOCKS or HTTP connection is served, no later connection of either
  server sends it anything.
\<close>

theorem failed_gateway_never_used_again:
  assumes "channel_opening W r s = Some (t, port, s1)"
    "gateway_healthy s" "w_gateway W = Some proxy" "should_use_gateway port"
    "run_state (open_through_gateway W proxy (show_target t) port) s1 = (Inl e, u)"
  shows "list_all (\<lambda>(v, es). list_all (\<lambda>e. \<not> gateway_event e) es)
    (session (serve_request W) (request_verdict W) rs (snd (run_state (serve_request W r) s)))"
  using opening_retired [OF assms(1)] failed_gateway_retired [OF _ assms(3-5)] opening_healthy [OF assms(1)] assms(2)
  by (intro servers.session_without_gateway) simp

theorem failed_gateway_never_used_again_witness:
  "let W = (sample_world \<lparr>rs_block = [], rs_direct = []\<rparr>)\<lparr>w_gateway := Some (sock_addr_new (V4 1) 8080)\<rparr>; t = TargetIp (V4 2) in
   list_all (\<lambda>(v, es). list_all (\<lambda>e. \<not> gateway_event e) es)
     (session (serve_request W) (request_verdict W) [(SocksRequest t 443, []), (HttpRequest, [])]
       (snd (run_state (serve_request W (SocksRequest t 443)) fresh_conn)))"
proof -
  let ?W = "(sample_world \<lparr>rs_block = [], rs_direct = []\<rparr>)\<lparr>w_gateway := Some (sock_addr_new (V4 1) 8080)\<rparr>"
  let ?m = "open_through_gateway ?W (sock_addr_new (V4 1) 8080) (show_target (TargetIp (V4 2))) 443"
  have "fst (run_state ?m fresh_conn) = Inl (Other (lit ''gateway '' @ show_sock_addr (sock_addr_new (V4 1) 8080) @ lit '' did not answer in time''))"
    by (simp add: open_through_gateway_def run_simps sample_world_def del: lit_simps)
  then have "run_state ?m fresh_conn = (Inl (Other (lit ''gateway '' @ show_sock_addr (sock_addr_new (V4 1) 8080) @ lit '' did not answer in time'')),
      snd (run_state ?m fresh_conn))"
    by (metis prod.collapse)
  moreover have "channel_opening ?W (SocksRequest (TargetIp (V4 2)) 443) fresh_conn = Some (TargetIp (V4 2), 443, fresh_conn)"
    by (simp add: channel_opening_def connect_verdict_def sniffs_def sample_world_def has_domain_rules_def decide_route_def decide_def)
  moreover have "gateway_healthy fresh_conn" "w_gateway ?W = Some (sock_addr_new (V4 1) 8080)" "should_use_gateway 443"
    by (simp_all add: fresh_conn_def should_use_gateway_def)
  ultimately show ?thesis unfolding Let_def using failed_gateway_never_used_again by blast
qed

text \<open>
  C6: Neither server loses, invents or reorders what its client sends, through the tunnel or directly, and
  however reads and failures fall. Either nothing is sent upstream and no relay starts; or, for SOCKS,
  what is sent (the sniffed first bytes included) followed by what is still unread is exactly what
  the client sent after its request; and for HTTP the same holds of the bytes after the request
  head, preceded by the rewritten head of an absolute-form request.
\<close>

theorem uploads_exact:
  "(let m = handle_connect W t port; es = new_events m s in
      uploaded es = [] \<and> \<not> relayed es \<or> uploaded es @ conn_input (snd (run_state m s)) = conn_input s) \<and>
   (let m = handle_http_client W; es = new_events m s in
      case run_state (read_head W) s of
        (Inr head, s1) \<Rightarrow>
          (case parse_request_line (first_line (from_utf8_lossy head)) of
             Some request \<Rightarrow>
               uploaded es = [] \<and> \<not> relayed es \<or> uploaded es @ conn_input (snd (run_state m s)) = upstream_head request head @ conn_input s1
           | None \<Rightarrow> uploaded es = [] \<and> \<not> relayed es)
      | (Inl _, _) \<Rightarrow> uploaded es = [] \<and> \<not> relayed es)"
proof -
  obtain r u where r: "run_state (read_head W) s = (r, u)" by fastforce
  have u: "conn_events u = conn_events s" using read_head_events [OF r] .
  show ?thesis
    using upload_exact_events [OF handle_connect_upload [where s = s and W = W and t = t and port = port]]
      upload_exact_events [OF http_routed_upload [where s = u and W = W]] r u
    by (auto simp: Let_def handle_http_client_def run_simps new_events_def split: sum.splits option.splits)
qed

end
